(* ===== verification/Ids.thy ===== *)
theory Ids
  imports Prelude
begin

unbundle bit_operations_syntax

text \<open>
  Identifier generation (\<^verbatim>\<open>internal/id/id.go\<close>): a prefix, twelve hexadecimal digits that
  encode a timestamp and a counter in 48 bits, and fourteen random base-62 characters.
  Integers are \<^typ>\<open>int\<close>: the 64-bit values stay far below overflow, the truncation to
  48 bits is written out. The clock reading and the random bytes are arguments.
\<close>

record id_state =
  last_timestamp :: int
  counter :: int

definition init_id_state :: id_state where
  "init_id_state = \<lparr>last_timestamp = 0, counter = 0\<rparr>"

definition hex_digits :: string where
  "hex_digits = ''0123456789abcdef''"

definition hex_digit :: "nat \<Rightarrow> char" where
  "hex_digit d = hex_digits ! d"

definition hex_byte :: "nat \<Rightarrow> string" where
  "hex_byte b = [hex_digit (b div 16), hex_digit (b mod 16)]"

definition base62 :: string where
  "base62 = ''0123456789ABCDEFGHIJKLMNOPQRSTUVWXYZabcdefghijklmnopqrstuvwxyz''"

definition randomBase62 :: "nat list \<Rightarrow> string" where
  "randomBase62 buf = map (\<lambda>b. base62 ! (b mod 62)) buf"

definition next_counter :: "id_state \<Rightarrow> int \<Rightarrow> id_state" where
  "next_counter st ts =
     (let st' = (if ts \<noteq> last_timestamp st then \<lparr>last_timestamp = ts, counter = 0\<rparr> else st)
      in st'\<lparr>counter := counter st' + 1\<rparr>)"

definition time_value :: "bool \<Rightarrow> int \<Rightarrow> int \<Rightarrow> int" where
  "time_value descending ts cnt =
     (let now = ts * 0x1000 + cnt
      in if descending then NOT now AND 0xFFFFFFFFFFFF else now)"

definition time_bytes :: "int \<Rightarrow> nat list" where
  "time_bytes now = map (\<lambda>i. nat (drop_bit (40 - 8 * i) now AND 0xFF)) [0..<6]"

definition time_hex :: "int \<Rightarrow> string" where
  "time_hex now = concat (map hex_byte (time_bytes now))"

definition create_id :: "string \<Rightarrow> bool \<Rightarrow> int \<Rightarrow> int \<Rightarrow> nat list \<Rightarrow> id_state \<Rightarrow> string \<times> id_state" where
  "create_id pfx descending ts0 clock rnd st =
     (let ts = (if ts0 = 0 then clock else ts0);
          st' = next_counter st ts
      in (pfx @ ''_'' @ time_hex (time_value descending ts (counter st')) @ randomBase62 rnd, st'))"

definition Ascending :: "string \<Rightarrow> int \<Rightarrow> nat list \<Rightarrow> id_state \<Rightarrow> string \<times> id_state" where
  "Ascending p clock rnd st = create_id p False 0 clock rnd st"

definition Descending :: "string \<Rightarrow> int \<Rightarrow> nat list \<Rightarrow> id_state \<Rightarrow> string \<times> id_state" where
  "Descending p clock rnd st = create_id p True 0 clock rnd st"

subsection \<open>The hexadecimal block orders like the 48-bit value\<close>

fun hex_fixed :: "nat \<Rightarrow> nat \<Rightarrow> string" where
  "hex_fixed 0 n = []"
| "hex_fixed (Suc w) n = hex_fixed w (n div 16) @ [hex_digit (n mod 16)]"

lemma length_hex_fixed [simp]: "length (hex_fixed w n) = w"
  by (induction w n rule: hex_fixed.induct) auto

lemma hex_digit_less: "a < b \<Longrightarrow> b < 16 \<Longrightarrow> hex_digit a < hex_digit b"
proof -
  have all: "\<forall>b \<in> {..<16}. \<forall>a \<in> {..<b}. hex_digit a < hex_digit b"
    by (simp add: lessThan_nat_numeral lessThan_Suc hex_digit_def hex_digits_def less_char_def)
  assume "a < b" "b < 16"
  with all show ?thesis by auto
qed

lemma list_less_append_same:
  fixes xs ys :: "'a :: linorder list"
  shows "length xs = length ys \<Longrightarrow> xs < ys \<Longrightarrow> xs @ us < ys @ vs"
  by (induction xs ys rule: list_induct2) auto

lemma list_less_prefix [simp]:
  fixes us :: "'a :: linorder list"
  shows "xs @ us < xs @ vs \<longleftrightarrow> us < vs"
  by (induction xs) auto

lemma hex_fixed_less: "m < n \<Longrightarrow> n < 16 ^ w \<Longrightarrow> hex_fixed w m < hex_fixed w n"
proof (induction w arbitrary: m n)
  case (Suc w)
  show ?case
  proof (cases "m div 16 < n div 16")
    case True
    moreover from Suc.prems have "n div 16 < 16 ^ w"
      by (simp add: less_mult_imp_div_less mult.commute)
    ultimately have "hex_fixed w (m div 16) < hex_fixed w (n div 16)" by (rule Suc.IH)
    then show ?thesis by (simp add: list_less_append_same)
  next
    case False
    then have eq: "m div 16 = n div 16"
      using Suc.prems(1) by (meson div_le_mono less_imp_le_nat linorder_neqE_nat not_less)
    have "m mod 16 < n mod 16"
      using Suc.prems(1) eq by (metis div_mult_mod_eq nat_add_left_cancel_less)
    then have "hex_digit (m mod 16) < hex_digit (n mod 16)"
      by (simp add: hex_digit_less)
    then show ?thesis by (simp add: eq)
  qed
qed simp

lemma hex_fixed_byte:
  "hex_fixed (Suc (Suc w)) n = hex_fixed w (n div 256) @ hex_byte (n mod 256)"
proof -
  have m: "n mod 256 = 16 * (n div 16 mod 16) + n mod 16"
    using mod_mult2_eq [of n 16 16] by simp
  have "n mod 256 div 16 = n div 16 mod 16" "n mod 256 mod 16 = n mod 16"
    unfolding m by simp_all
  moreover have "n div 16 div 16 = n div 256"
    by (simp flip: div_mult2_eq)
  ultimately show ?thesis by (simp add: hex_byte_def)
qed

lemma byte_of_mod48:
  assumes "i < 6"
  shows "x mod 2 ^ 48 div 256 ^ i mod 256 = x div 256 ^ i mod (256 :: nat)"
proof -
  have "(2::nat) ^ 48 = 256 ^ 6" by simp
  also have "\<dots> = 256 ^ i * 256 ^ (6 - i)"
    using assms by (simp flip: power_add)
  finally have p: "(2::nat) ^ 48 = 256 ^ i * 256 ^ (6 - i)" .
  have "x mod 2 ^ 48 div 256 ^ i = x div 256 ^ i mod 256 ^ (6 - i)"
    unfolding p mod_mult2_eq by simp
  moreover have "(256::nat) dvd 256 ^ (6 - i)" using assms by (simp add: dvd_power)
  ultimately show ?thesis by (simp add: mod_mod_cancel)
qed

lemma time_byte:
  assumes "0 \<le> now"
  shows "nat (drop_bit k now AND 0xFF) = nat now div 2 ^ k mod 256"
proof -
  have "drop_bit k now AND 0xFF = now div 2 ^ k mod 256"
    using take_bit_eq_mask [of 8 "drop_bit k now"]
    by (simp add: drop_bit_eq_div take_bit_eq_mod mask_eq_exp_minus_1)
  then show ?thesis
    using assms by (simp add: nat_mod_distrib nat_div_distrib pos_imp_zdiv_nonneg_iff nat_power_eq)
qed

lemma time_hex_fixed:
  assumes "0 \<le> now"
  shows "time_hex now = hex_fixed 12 (nat now mod 2 ^ 48)"
proof -
  let ?x = "nat now mod 2 ^ 48"
  have d: "n div 256 div 256 ^ i = n div 256 ^ Suc i" for n i :: nat
    by (simp add: div_mult2_eq)
  have h: "hex_fixed 12 n = hex_byte (n div 256 ^ 5 mod 256) @ hex_byte (n div 256 ^ 4 mod 256)
      @ hex_byte (n div 256 ^ 3 mod 256) @ hex_byte (n div 256 ^ 2 mod 256)
      @ hex_byte (n div 256 ^ 1 mod 256) @ hex_byte (n div 256 ^ 0 mod 256)" for n
  proof -
    have 12: "hex_fixed 12 m = hex_fixed 10 (m div 256) @ hex_byte (m mod 256)" for m
      using hex_fixed_byte [of 10 m] by simp
    have 10: "hex_fixed 10 m = hex_fixed 8 (m div 256) @ hex_byte (m mod 256)" for m
      using hex_fixed_byte [of 8 m] by simp
    have 8: "hex_fixed 8 m = hex_fixed 6 (m div 256) @ hex_byte (m mod 256)" for m
      using hex_fixed_byte [of 6 m] by simp
    have 6: "hex_fixed 6 m = hex_fixed 4 (m div 256) @ hex_byte (m mod 256)" for m
      using hex_fixed_byte [of 4 m] by simp
    have 4: "hex_fixed 4 m = hex_fixed 2 (m div 256) @ hex_byte (m mod 256)" for m
      using hex_fixed_byte [of 2 m] by simp
    have 2: "hex_fixed 2 m = hex_byte (m mod 256)" for m
      using hex_fixed_byte [of 0 m] unfolding numeral_2_eq_2 by simp
    show ?thesis by (simp add: 12 10 8 6 4 2 div_mult2_eq [symmetric])
  qed
  have u: "[0..<6] = [0, 1, 2, 3, 4, 5 :: nat]" by code_simp
  have b: "time_bytes now = [nat now div 256 ^ 5 mod 256, nat now div 256 ^ 4 mod 256,
      nat now div 256 ^ 3 mod 256, nat now div 256 ^ 2 mod 256,
      nat now div 256 ^ 1 mod 256, nat now div 256 ^ 0 mod 256]"
    unfolding time_bytes_def u list.map time_byte [OF assms] by simp
  have m: "?x div 256 ^ 5 mod 256 = nat now div 256 ^ 5 mod 256"
    "?x div 256 ^ 4 mod 256 = nat now div 256 ^ 4 mod 256"
    "?x div 256 ^ 3 mod 256 = nat now div 256 ^ 3 mod 256"
    "?x div 256 ^ 2 mod 256 = nat now div 256 ^ 2 mod 256"
    "?x div 256 ^ 1 mod 256 = nat now div 256 ^ 1 mod 256"
    "?x div 256 ^ 0 mod 256 = nat now div 256 ^ 0 mod 256"
    by (rule byte_of_mod48, simp)+
  show ?thesis unfolding h time_hex_def b m by simp
qed

subsection \<open>Successive identifiers\<close>

fun id_run :: "bool \<Rightarrow> string \<Rightarrow> (int \<times> nat list) list \<Rightarrow> id_state \<Rightarrow> string list" where
  "id_run descending p [] st = []"
| "id_run descending p ((clock, rnd) # rs) st =
     (let (i, st') = (if descending then Descending p clock rnd st else Ascending p clock rnd st)
      in i # id_run descending p rs st')"

definition id_value :: "int \<Rightarrow> int \<Rightarrow> int" where
  "id_value ts cnt = ts * 0x1000 + cnt"

fun value_run :: "(int \<times> nat list) list \<Rightarrow> id_state \<Rightarrow> int list" where
  "value_run [] st = []"
| "value_run ((clock, rnd) # rs) st =
     (let st' = next_counter st clock in id_value clock (counter st') # value_run rs st')"

lemma not_and_mask48:
  "NOT (now :: int) AND 0xFFFFFFFFFFFF = 2 ^ 48 - 1 - now mod 2 ^ 48"
proof -
  have "NOT now AND 0xFFFFFFFFFFFF = (NOT now) mod 2 ^ 48"
    using take_bit_eq_mask [of 48 "NOT now"]
    by (simp add: take_bit_eq_mod mask_eq_exp_minus_1)
  also have "\<dots> = (- now - 1) mod 2 ^ 48" by (simp add: not_int_def)
  also have "- now - 1 = (2 ^ 48 - 1 - now mod 2 ^ 48) + (- (now div 2 ^ 48) - 1) * 2 ^ 48"
    using div_mult_mod_eq [of now "2 ^ 48"] by (simp add: algebra_simps)
  also have "\<dots> mod 2 ^ 48 = 2 ^ 48 - 1 - now mod 2 ^ 48"
    unfolding mod_mult_self1
    using pos_mod_bound [of "2 ^ 48" now] pos_mod_sign [of "2 ^ 48" now]
    by (intro mod_pos_pos_trivial) auto
  finally show ?thesis .
qed

lemma time_hex_less:
  assumes "0 \<le> m" "0 \<le> n" "m mod 2 ^ 48 < n mod 2 ^ 48"
  shows "time_hex m @ r < time_hex n @ s"
proof -
  have "nat m mod 2 ^ 48 < nat n mod 2 ^ 48"
    using assms by (simp flip: nat_mod_distrib [of _ "2 ^ 48", simplified])
  then have "time_hex m < time_hex n"
    using assms by (simp add: time_hex_fixed hex_fixed_less)
  moreover have "length (time_hex m) = length (time_hex n)"
    using assms by (simp add: time_hex_fixed)
  ultimately show ?thesis by (simp add: list_less_append_same)
qed

text \<open>A run of readings whose values stay below the next multiple of \<open>2 ^ 48\<close>.\<close>

fun readings_ok :: "int \<Rightarrow> (int \<times> nat list) list \<Rightarrow> bool" where
  \<comment> \<open>clock readings that never go back and stay in one window of \<open>2 ^ 36\<close> milliseconds\<close>
  "readings_ok t [] = True"
| "readings_ok t ((clock, rnd) # rs) =
     (0 < clock \<and> t \<le> clock \<and> (0 < t \<longrightarrow> clock div 2 ^ 36 = t div 2 ^ 36) \<and> readings_ok clock rs)"

lemma next_counter_bounds:
  "0 \<le> counter st \<Longrightarrow> 1 \<le> counter (next_counter st ts) \<and> counter (next_counter st ts) \<le> counter st + 1"
  by (simp add: next_counter_def Let_def)

lemma next_counter_last [simp]: "last_timestamp (next_counter st ts) = ts"
  by (simp add: next_counter_def Let_def)

lemma window_mod:
  fixes ts cnt :: int
  assumes "0 \<le> cnt" "cnt < 0x1000"
  shows "id_value ts cnt mod 2 ^ 48 = id_value (ts mod 2 ^ 36) cnt"
proof -
  define q m where "q = ts div 2 ^ 36" and "m = ts mod 2 ^ 36"
  have "ts = q * 2 ^ 36 + m" by (simp only: q_def m_def div_mult_mod_eq)
  then have "id_value ts cnt = id_value m cnt + q * 2 ^ 48"
    by (simp add: id_value_def)
  then have e: "id_value ts cnt = id_value (ts mod 2 ^ 36) cnt + (ts div 2 ^ 36) * 2 ^ 48"
    by (simp only: q_def m_def)
  have r: "0 \<le> ts mod 2 ^ 36" "ts mod 2 ^ 36 \<le> 2 ^ 36 - 1"
    using pos_mod_bound [of "2 ^ 36" ts] pos_mod_sign [of "2 ^ 36" ts] by auto
  have "0 \<le> id_value (ts mod 2 ^ 36) cnt" "id_value (ts mod 2 ^ 36) cnt < 2 ^ 48"
    using assms r by (simp_all add: id_value_def)
  then show ?thesis unfolding e mod_mult_self1 by (rule mod_pos_pos_trivial)
qed

lemma window_less:
  fixes t1 t2 :: int
  assumes "t1 div 2 ^ 36 = t2 div 2 ^ 36" "t1 \<le> t2"
    and "0 \<le> c1" "c1 < 0x1000" "0 \<le> c2" "c2 < 0x1000" "t1 = t2 \<longrightarrow> c1 < c2"
  shows "id_value t1 c1 mod 2 ^ 48 < id_value t2 c2 mod 2 ^ 48"
proof -
  have "t1 = t1 div 2 ^ 36 * 2 ^ 36 + t1 mod 2 ^ 36" "t2 = t1 div 2 ^ 36 * 2 ^ 36 + t2 mod 2 ^ 36"
    using assms(1) by (metis div_mult_mod_eq)+
  then have "t1 mod 2 ^ 36 \<le> t2 mod 2 ^ 36" "t1 mod 2 ^ 36 = t2 mod 2 ^ 36 \<longrightarrow> t1 = t2"
    using assms(2) by linarith+
  then have "id_value (t1 mod 2 ^ 36) c1 < id_value (t2 mod 2 ^ 36) c2"
    using assms(3-7) unfolding id_value_def by (cases "t1 = t2") linarith+
  then show ?thesis by (simp only: window_mod assms)
qed

definition window_chain :: "int list \<Rightarrow> bool" where
  "window_chain vs =
     (sorted_wrt (\<lambda>a b. a mod 2 ^ 48 < b mod 2 ^ 48) vs \<and> (\<forall>v \<in> set vs. 0 \<le> v))"

lemma value_run_bound:
  assumes "readings_ok t rs" "t = last_timestamp st" "0 < t" "0 \<le> counter st"
    and "counter st + int (length rs) < 0x1000" and "v \<in> set (value_run rs st)"
  shows "0 \<le> v \<and> id_value t (counter st) mod 2 ^ 48 < v mod 2 ^ 48"
  using assms
proof (induction rs arbitrary: t st)
  case (Cons r rs)
  obtain clock rnd where r: "r = (clock, rnd)" by (cases r)
  let ?st = "next_counter st clock"
  have nc: "1 \<le> counter ?st" "counter ?st \<le> counter st + 1"
    using next_counter_bounds [of st clock] Cons.prems(4) by auto
  have step: "id_value t (counter st) mod 2 ^ 48 < id_value clock (counter ?st) mod 2 ^ 48"
    using Cons.prems nc r
    by (intro window_less) (auto simp: next_counter_def Let_def)
  have pos: "0 \<le> id_value clock (counter ?st)"
    using Cons.prems r nc by (simp add: id_value_def)
  show ?case
  proof (cases "v \<in> set (value_run rs ?st)")
    case True
    have "0 \<le> v \<and> id_value clock (counter ?st) mod 2 ^ 48 < v mod 2 ^ 48"
      using Cons.prems nc r True by (intro Cons.IH) auto
    with step show ?thesis by simp
  next
    case False
    then have "v = id_value clock (counter ?st)" using Cons.prems(6) r by (simp add: Let_def)
    with step pos show ?thesis by simp
  qed
qed simp

lemma value_run_chain:
  assumes "readings_ok t rs" "t = last_timestamp st \<or> t = 0" "0 \<le> t" "0 \<le> counter st"
    and "counter st + int (length rs) < 0x1000"
  shows "window_chain (value_run rs st)"
  using assms
proof (induction rs arbitrary: t st)
  case (Cons r rs)
  obtain clock rnd where r: "r = (clock, rnd)" by (cases r)
  let ?st = "next_counter st clock"
  have nc: "1 \<le> counter ?st" "counter ?st \<le> counter st + 1"
    using next_counter_bounds [of st clock] Cons.prems(4) by auto
  have ok: "readings_ok clock rs" "0 < clock" using Cons.prems(1) r by auto
  have tail: "window_chain (value_run rs ?st)"
    using Cons.prems nc ok by (intro Cons.IH [of clock]) auto
  have "\<forall>v \<in> set (value_run rs ?st).
      0 \<le> v \<and> id_value clock (counter ?st) mod 2 ^ 48 < v mod 2 ^ 48"
    using value_run_bound [OF ok(1), of ?st] ok nc Cons.prems by auto
  then show ?case
    using tail nc ok r by (auto simp: window_chain_def Let_def id_value_def)
qed (simp add: window_chain_def)

lemma id_run_Ascending:
  "id_run False p rs st =
     map (\<lambda>(v, r). p @ ''_'' @ time_hex v @ randomBase62 (snd r)) (zip (value_run rs st) rs)"
  if "\<forall>r \<in> set rs. 0 < fst r"
  using that
  by (induction rs arbitrary: st)
    (auto simp: Ascending_def create_id_def time_value_def id_value_def Let_def)

lemma id_run_Descending:
  "id_run True p rs st =
     map (\<lambda>(v, r). p @ ''_'' @ time_hex (2 ^ 48 - 1 - v mod 2 ^ 48) @ randomBase62 (snd r))
       (zip (value_run rs st) rs)"
  if "\<forall>r \<in> set rs. 0 < fst r"
  using that
  by (induction rs arbitrary: st)
    (auto simp: Descending_def create_id_def time_value_def id_value_def Let_def not_and_mask48)

lemma readings_pos: "readings_ok t rs \<Longrightarrow> \<forall>r \<in> set rs. 0 < fst r"
  by (induction t rs rule: readings_ok.induct) auto

lemma length_value_run [simp]: "length (value_run rs st) = length rs"
  by (induction rs st rule: value_run.induct) (auto simp: Let_def)

text \<open>
  Identifiers made by \<^verbatim>\<open>Ascending\<close> sort in creation order: for clock readings that
  never go back, stay in one window of \<open>2 ^ 36\<close> ms and are fewer than 4096, the list of
  identifiers of a run is strictly increasing as strings, whatever the random bytes.
\<close>

theorem ascending_ids_sort:
  assumes "readings_ok 0 rs" "length rs < 0x1000"
  shows "sorted_wrt (<) (id_run False p rs init_id_state)"
proof -
  have "window_chain (value_run rs init_id_state)"
    using assms by (intro value_run_chain [of 0]) (auto simp: init_id_state_def)
  then show ?thesis
    unfolding id_run_Ascending [OF readings_pos [OF assms(1)]] window_chain_def
    by (auto simp: sorted_wrt_iff_nth_less intro!: time_hex_less)
qed

theorem ascending_ids_sort_witness:
  "sorted_wrt (<) (id_run False ''msg'' [(1717000000000, [1]), (1717000000000, [0]), (1717000000001, [2])]
     init_id_state)"
  by (rule ascending_ids_sort) auto

text \<open>
  Identifiers made by \<^verbatim>\<open>Descending\<close> sort newest first: under the same conditions the
  list of identifiers of a run is strictly decreasing as strings.
\<close>

theorem descending_ids_sort:
  assumes "readings_ok 0 rs" "length rs < 0x1000"
  shows "sorted_wrt (>) (id_run True p rs init_id_state)"
proof -
  have "window_chain (value_run rs init_id_state)"
    using assms by (intro value_run_chain [of 0]) (auto simp: init_id_state_def)
  moreover have "(2 ^ 48 - 1 - v mod 2 ^ 48) mod 2 ^ 48 = 2 ^ 48 - 1 - v mod (2 ^ 48 :: int)"
    "0 \<le> 2 ^ 48 - 1 - v mod (2 ^ 48 :: int)" for v
    using pos_mod_bound [of "2 ^ 48" v] pos_mod_sign [of "2 ^ 48" v]
    by (auto intro: mod_pos_pos_trivial)
  ultimately show ?thesis
    unfolding id_run_Descending [OF readings_pos [OF assms(1)]] window_chain_def
    by (auto simp: sorted_wrt_iff_nth_less intro!: time_hex_less)
qed

theorem descending_ids_sort_witness:
  "sorted_wrt (>) (id_run True ''ses'' [(1717000000000, [1]), (1717000000000, [0]), (1717000000001, [2])]
     init_id_state)"
  by (rule descending_ids_sort) auto

text \<open>
  Across a multiple of \<open>2 ^ 36\<close> ms the order breaks: the 48 bits hold
  \<open>ts * 4096 + counter\<close> modulo \<open>2 ^ 48\<close>, so an identifier made in the first millisecond
  of a window sorts before every identifier of the window before it.
\<close>

theorem ascending_wraps:
  assumes "0 < k"
  shows "fst (Ascending p (k * 2 ^ 36) r2 (snd (Ascending p (k * 2 ^ 36 - 1) r1 init_id_state)))
       < fst (Ascending p (k * 2 ^ 36 - 1) r1 init_id_state)"
proof -
  let ?t1 = "k * 2 ^ 36 - 1" and ?t2 = "k * 2 ^ 36"
  have "?t1 mod 2 ^ 36 = (2 ^ 36 - 1) mod (2 ^ 36)"
    using mod_mult_self3 [of "k - 1" "2 ^ 36" "2 ^ 36 - 1"] by (simp add: algebra_simps)
  then have "id_value ?t2 1 mod 2 ^ 48 < id_value ?t1 1 mod 2 ^ 48"
    by (subst (1 2) window_mod) (simp_all add: id_value_def)
  then show ?thesis
    using assms
    by (auto simp: Ascending_def create_id_def next_counter_def init_id_state_def time_value_def
        id_value_def Let_def intro!: time_hex_less)
qed

theorem ascending_wraps_witness:
  "fst (Ascending ''msg'' (26 * 2 ^ 36) [] (snd (Ascending ''msg'' (26 * 2 ^ 36 - 1) [] init_id_state)))
     < fst (Ascending ''msg'' (26 * 2 ^ 36 - 1) [] init_id_state)"
  by (rule ascending_wraps) simp

end
