(* ===== verification/EventBus.thy ===== *)
theory EventBus
  imports Prelude
begin

text \<open>
  The event fan-out (\<^verbatim>\<open>internal/bus/bus.go\<close>): an instance bus and the process-global bus.
  Each subscriber has a channel of depth 256; a publish never blocks, a full channel drops
  the event. A \<open>fanout\<close> is the state the two buses share: the live channels by key, the
  channels that an unsubscribe closed (a reader still drains them), and the next key.
\<close>

definition subBuffer :: nat where
  "subBuffer = 256"

record 'e fanout =
  subs :: "(nat, 'e list) gomap"
  closed :: "(nat, 'e list) gomap"
  next_key :: nat

definition new_fanout :: "'e fanout" where
  "new_fanout = \<lparr>subs = [], closed = [], next_key = 0\<rparr>"

definition fo_subscribe :: "'e fanout \<Rightarrow> nat \<times> 'e fanout" where
  "fo_subscribe b =
     (let key = next_key b
      in (key, b\<lparr>next_key := next_key b + 1, subs := gm_put key [] (subs b)\<rparr>))"

definition fo_unsubscribe :: "nat \<Rightarrow> 'e fanout \<Rightarrow> 'e fanout" where
  "fo_unsubscribe key b =
     (case gm_get (subs b) key of
        None \<Rightarrow> b
      | Some c \<Rightarrow> b\<lparr>subs := gm_del key (subs b), closed := gm_put key c (closed b)\<rparr>)"

definition chan_send :: "'e \<Rightarrow> 'e list \<Rightarrow> 'e list" where
  \<comment> \<open>the non-blocking send: a full buffer drops the event\<close>
  "chan_send e c = (if length c < subBuffer then c @ [e] else c)"

definition fo_publish :: "'e \<Rightarrow> 'e fanout \<Rightarrow> 'e fanout" where
  "fo_publish e b = b\<lparr>subs := map (\<lambda>(k, c). (k, chan_send e c)) (subs b)\<rparr>"

text \<open>A subscriber's receive; \<open>Inl ()\<close> is a closed and drained channel, \<open>None\<close> would block.\<close>

definition fo_receive :: "nat \<Rightarrow> 'e fanout \<Rightarrow> (unit + 'e) option \<times> 'e fanout" where
  "fo_receive key b =
     (case gm_get (subs b) key of
        Some (e # c) \<Rightarrow> (Some (Inr e), b\<lparr>subs := gm_put key c (subs b)\<rparr>)
      | Some [] \<Rightarrow> (None, b)
      | None \<Rightarrow>
          (case gm_get (closed b) key of
             Some (e # c) \<Rightarrow> (Some (Inr e), b\<lparr>closed := gm_put key c (closed b)\<rparr>)
           | _ \<Rightarrow> (Some (Inl ()), b)))"

subsection \<open>Events and the two buses\<close>

record bus_event =
  ev_id :: string
  ev_type :: string
  ev_props :: json

definition EventConnected :: string where
  "EventConnected = ''server.connected''"

definition EventHeartbeat :: string where
  "EventHeartbeat = ''server.heartbeat''"

definition EventInstanceDisposed :: string where
  "EventInstanceDisposed = ''server.instance.disposed''"

definition NewEvent :: "string \<Rightarrow> string \<Rightarrow> json option \<Rightarrow> bus_event" where
  "NewEvent fresh typ props =
     \<lparr>ev_id = fresh, ev_type = typ,
      ev_props = (case props of None \<Rightarrow> JObj [] | Some p \<Rightarrow> p)\<rparr>"

record global_event =
  ge_payload :: bus_event
  ge_directory :: string
  ge_project :: string
  ge_workspace :: string

text \<open>
  The global bus also counts the connected SSE clients; each connection's release function
  runs once (\<^verbatim>\<open>sync.Once\<close>), so a handle records whether it has run.
\<close>

record global_bus =
  g_fan :: "global_event fanout"
  g_clients :: int
  g_handles :: "bool list"

definition NewGlobal :: global_bus where
  "NewGlobal = \<lparr>g_fan = new_fanout, g_clients = 0, g_handles = []\<rparr>"

definition ClientConnected :: "global_bus \<Rightarrow> nat \<times> global_bus" where
  "ClientConnected g =
     (length (g_handles g), g\<lparr>g_clients := g_clients g + 1, g_handles := g_handles g @ [False]\<rparr>)"

definition ClientRelease :: "nat \<Rightarrow> global_bus \<Rightarrow> global_bus" where
  "ClientRelease h g =
     (if h < length (g_handles g) \<and> \<not> g_handles g ! h
      then g\<lparr>g_clients := g_clients g - 1, g_handles := (g_handles g)[h := True]\<rparr> else g)"

definition Clients :: "global_bus \<Rightarrow> int" where
  "Clients g = g_clients g"

definition global_subscribe :: "global_bus \<Rightarrow> nat \<times> global_bus" where
  "global_subscribe g = (let (k, f) = fo_subscribe (g_fan g) in (k, g\<lparr>g_fan := f\<rparr>))"

definition global_unsubscribe :: "nat \<Rightarrow> global_bus \<Rightarrow> global_bus" where
  "global_unsubscribe k g = g\<lparr>g_fan := fo_unsubscribe k (g_fan g)\<rparr>"

definition global_publish :: "global_event \<Rightarrow> global_bus \<Rightarrow> global_bus" where
  "global_publish ge g = g\<lparr>g_fan := fo_publish ge (g_fan g)\<rparr>"

text \<open>An instance bus with the global bus it forwards to (\<open>None\<close> when there is none).\<close>

record instance_bus =
  i_fan :: "bus_event fanout"
  i_directory :: string
  i_global :: "global_bus option"

definition NewInstanceBus :: "string \<Rightarrow> global_bus option \<Rightarrow> instance_bus" where
  "NewInstanceBus dir g = \<lparr>i_fan = new_fanout, i_directory = dir, i_global = g\<rparr>"

definition bus_subscribe :: "instance_bus \<Rightarrow> nat \<times> instance_bus" where
  "bus_subscribe b = (let (k, f) = fo_subscribe (i_fan b) in (k, b\<lparr>i_fan := f\<rparr>))"

definition bus_unsubscribe :: "nat \<Rightarrow> instance_bus \<Rightarrow> instance_bus" where
  "bus_unsubscribe k b = b\<lparr>i_fan := fo_unsubscribe k (i_fan b)\<rparr>"

definition envelope :: "string \<Rightarrow> bus_event \<Rightarrow> global_event" where
  "envelope dir e = \<lparr>ge_payload = e, ge_directory = dir, ge_project = '''', ge_workspace = ''''\<rparr>"

definition bus_publish :: "bus_event \<Rightarrow> instance_bus \<Rightarrow> instance_bus" where
  "bus_publish e b =
     b\<lparr>i_fan := fo_publish e (i_fan b),
       i_global := map_option (global_publish (envelope (i_directory b) e)) (i_global b)\<rparr>"

subsection \<open>The contract of a fan-out\<close>

text \<open>
  What a publisher and a subscriber rely on, for any bus: \<open>live\<close> is what a live
  subscription has queued. The client lemmas follow from the laws alone.
\<close>

locale broadcast =
  fixes subscribe :: "'b \<Rightarrow> nat \<times> 'b"
    and unsubscribe :: "nat \<Rightarrow> 'b \<Rightarrow> 'b"
    and publish :: "'e \<Rightarrow> 'b \<Rightarrow> 'b"
    and live :: "'b \<Rightarrow> nat \<Rightarrow> 'm list option"
    and msg :: "'b \<Rightarrow> 'e \<Rightarrow> 'm"
    and ok :: "'b \<Rightarrow> bool"
  assumes subscribe_live: "ok b \<Longrightarrow> subscribe b = (k, b') \<Longrightarrow>
      live b k = None \<and> live b' = (live b)(k \<mapsto> []) \<and> ok b' \<and> msg b' = msg b"
    and unsubscribe_live: "ok b \<Longrightarrow>
      live (unsubscribe k b) = (live b)(k := None) \<and> ok (unsubscribe k b) \<and> msg (unsubscribe k b) = msg b"
    and publish_live: "ok b \<Longrightarrow>
      live (publish e b) k = map_option (chan_send (msg b e)) (live b k) \<and> ok (publish e b)
      \<and> msg (publish e b) = msg b"
begin

lemma publish_all:
  assumes "ok b" "live b k = Some q" "length q + length es \<le> subBuffer"
  shows "live (fold publish es b) k = Some (q @ map (msg b) es)"
  using assms
proof (induction es arbitrary: b q)
  case (Cons e es)
  have "live (publish e b) k = Some (q @ [msg b e])" "ok (publish e b)" "msg (publish e b) = msg b"
    using publish_live [OF Cons.prems(1), of e k] Cons.prems by (auto simp: chan_send_def)
  then show ?case using Cons.IH [of "publish e b" "q @ [msg b e]"] Cons.prems by auto
qed simp

lemma publish_bounded:
  assumes "ok b" "live b k = Some q" "length q \<le> subBuffer"
  shows "\<exists>q'. live (fold publish es b) k = Some (q @ q') \<and> length (q @ q') \<le> subBuffer"
  using assms
proof (induction es arbitrary: b q)
  case (Cons e es)
  let ?q = "chan_send (msg b e) q"
  have p: "live (publish e b) k = Some ?q" "ok (publish e b)"
    using publish_live [OF Cons.prems(1), of e k] Cons.prems by auto
  have "\<exists>r. ?q = q @ r \<and> length ?q \<le> subBuffer"
    using Cons.prems(3) by (auto simp: chan_send_def)
  then obtain r where r: "?q = q @ r" "length ?q \<le> subBuffer" by blast
  from Cons.IH [OF p(2,1) r(2)] show ?case unfolding r(1) by force
qed simp

lemma subscribe_then_publish:
  assumes "ok b" "subscribe b = (k, b')" "length es \<le> subBuffer"
  shows "live (fold publish es b') k = Some (map (msg b) es)"
  using publish_all [of b' k "[]" es] subscribe_live [OF assms(1,2)] assms(3) by auto

lemma unsubscribed_gone:
  assumes "ok b"
  shows "live (fold publish es (unsubscribe k b)) k = None"
proof -
  have "live (fold publish es c) k = None" if "ok c" "live c k = None" for c
    using that
  proof (induction es arbitrary: c)
    case (Cons e es)
    then show ?case using publish_live [OF Cons.prems(1), of e k] by auto
  qed simp
  then show ?thesis using unsubscribe_live [OF assms, of k] by auto
qed

end

definition fo_ok :: "'e fanout \<Rightarrow> bool" where
  "fo_ok b = (gm_wf (subs b) \<and> (\<forall>k \<in> set (gm_keys (subs b)). k < next_key b))"

lemma fo_get_publish: "gm_get (subs (fo_publish e b)) k = map_option (chan_send e) (gm_get (subs b) k)"
  by (simp add: fo_publish_def map_of_map)

lemma fo_keys_publish [simp]: "gm_keys (subs (fo_publish e b)) = gm_keys (subs b)"
  by (simp add: fo_publish_def gm_keys_def split_def)

lemma fo_ok_publish [simp]: "fo_ok b \<Longrightarrow> fo_ok (fo_publish e b)"
  by (simp add: fo_ok_def gm_wf_def gm_keys_def fo_publish_def split_def comp_def)

lemma fo_subscribe_live:
  "fo_ok b \<Longrightarrow> fo_subscribe b = (k, b') \<Longrightarrow>
     gm_get (subs b) k = None \<and> gm_get (subs b') = (gm_get (subs b))(k \<mapsto> []) \<and> fo_ok b'"
  by (auto simp: fo_ok_def fo_subscribe_def Let_def set_gm_keys less_Suc_eq dest: bspec)

lemma fo_unsubscribe_live:
  "fo_ok b \<Longrightarrow> gm_get (subs (fo_unsubscribe k b)) = (gm_get (subs b))(k := None) \<and> fo_ok (fo_unsubscribe k b)"
  by (auto simp: fo_ok_def fo_unsubscribe_def set_gm_keys fun_upd_idem domI split: option.split if_splits)

lemmas fo_laws = fo_subscribe_live fo_unsubscribe_live fo_get_publish

interpretation fan: broadcast fo_subscribe fo_unsubscribe fo_publish "\<lambda>b. gm_get (subs b)" "\<lambda>b e. e" fo_ok
  by unfold_locales (auto dest: fo_subscribe_live simp: fo_laws)

interpretation gbus: broadcast global_subscribe global_unsubscribe global_publish
  "\<lambda>g. gm_get (subs (g_fan g))" "\<lambda>g e. e" "\<lambda>g. fo_ok (g_fan g)"
  by unfold_locales
    (auto simp: global_subscribe_def global_unsubscribe_def global_publish_def fo_laws
      dest: fo_subscribe_live split: prod.splits)

interpretation ibus: broadcast bus_subscribe bus_unsubscribe bus_publish
  "\<lambda>b. gm_get (subs (i_fan b))" "\<lambda>b e. e" "\<lambda>b. fo_ok (i_fan b)"
  by unfold_locales
    (auto simp: bus_subscribe_def bus_unsubscribe_def bus_publish_def fo_laws
      dest: fo_subscribe_live split: prod.splits)

text \<open>The global bus seen through an instance bus: a publish arrives in its envelope.\<close>

definition watch_global :: "instance_bus \<Rightarrow> nat \<Rightarrow> global_event list option" where
  "watch_global b k = (case i_global b of None \<Rightarrow> None | Some g \<Rightarrow> gm_get (subs (g_fan g)) k)"

definition watch_subscribe :: "instance_bus \<Rightarrow> nat \<times> instance_bus" where
  "watch_subscribe b =
     (case i_global b of None \<Rightarrow> (0, b)
      | Some g \<Rightarrow> (let (k, g') = global_subscribe g in (k, b\<lparr>i_global := Some g'\<rparr>)))"

definition watch_unsubscribe :: "nat \<Rightarrow> instance_bus \<Rightarrow> instance_bus" where
  "watch_unsubscribe k b = b\<lparr>i_global := map_option (global_unsubscribe k) (i_global b)\<rparr>"

definition watch_ok :: "instance_bus \<Rightarrow> bool" where
  "watch_ok b = (case i_global b of None \<Rightarrow> False | Some g \<Rightarrow> fo_ok (g_fan g))"

lemma watch_global_Some: "i_global b = Some g \<Longrightarrow> watch_global b = gm_get (subs (g_fan g))"
  by (rule ext) (simp add: watch_global_def)

lemma watch_ok_Some: "watch_ok b \<Longrightarrow> \<exists>g. i_global b = Some g \<and> fo_ok (g_fan g)"
  by (simp add: watch_ok_def split: option.splits)

interpretation watch: broadcast watch_subscribe watch_unsubscribe bus_publish watch_global
  "\<lambda>b e. envelope (i_directory b) e" watch_ok
proof (unfold_locales, goal_cases)
  case (1 b k b')
  obtain g where g: "i_global b = Some g" "fo_ok (g_fan g)"
    using watch_ok_Some [OF 1(1)] by blast
  obtain k' g' where g': "global_subscribe g = (k', g')" by (cases "global_subscribe g")
  have b': "k' = k" "b' = b\<lparr>i_global := Some g'\<rparr>"
    using 1(2) g(1) g' by (simp_all add: watch_subscribe_def)
  have "i_global b' = Some g'" by (simp add: b')
  then show ?case
    using gbus.subscribe_live [OF g(2) g'] watch_global_Some [OF g(1)] watch_global_Some [of b' g']
    by (simp add: b' watch_ok_def fun_upd_def)
next
  case (2 b k)
  obtain g where g: "i_global b = Some g" "fo_ok (g_fan g)"
    using watch_ok_Some [OF 2] by blast
  then have "i_global (watch_unsubscribe k b) = Some (global_unsubscribe k g)"
    by (simp add: watch_unsubscribe_def)
  then show ?case
    using gbus.unsubscribe_live [OF g(2), of k] watch_global_Some [OF g(1)] watch_global_Some
    by (simp add: watch_ok_def fun_upd_def) (simp add: watch_unsubscribe_def)
next
  case (3 b e k)
  obtain g where g: "i_global b = Some g" "fo_ok (g_fan g)"
    using watch_ok_Some [OF 3] by blast
  then have p: "i_global (bus_publish e b) = Some (global_publish (envelope (i_directory b) e) g)"
    by (simp add: bus_publish_def)
  show ?case
    using gbus.publish_live [OF g(2)] watch_global_Some [OF g(1)] watch_global_Some [OF p]
    by (simp add: watch_ok_def p) (simp add: bus_publish_def)
qed

text \<open>
  A subscriber that subscribes before a burst of at most 256 events receives exactly
  those events in publish order, and the global bus receives the same burst wrapped with
  the instance's directory; a further event of a longer burst is dropped, not queued.
\<close>

theorem bus_delivers_in_order:
  assumes "fo_ok (i_fan b)" "i_global b = Some g" "fo_ok (g_fan g)"
    and "bus_subscribe b = (k, b1)" "watch_subscribe b1 = (j, b2)" "length es \<le> 256"
  shows "gm_get (subs (i_fan (fold bus_publish es b2))) k = Some es
    \<and> watch_global (fold bus_publish es b2) j = Some (map (envelope (i_directory b)) es)"
proof -
  have b1: "gm_get (subs (i_fan b1)) k = Some []" "fo_ok (i_fan b1)" "i_global b1 = Some g"
      "i_directory b1 = i_directory b"
    using ibus.subscribe_live [OF assms(1,4)] assms(2,4)
    by (auto simp: bus_subscribe_def split: prod.splits)
  have b2: "gm_get (subs (i_fan b2)) k = Some []" "fo_ok (i_fan b2)"
    using b1 assms(5) by (auto simp: watch_subscribe_def split: prod.splits)
  have w1: "watch_ok b1" using b1 assms(3) by (simp add: watch_ok_def)
  show ?thesis
    using ibus.publish_all [OF b2(2,1), of es] watch.subscribe_then_publish [OF w1 assms(5), of es]
      assms(6) b1(4) by (simp add: subBuffer_def)
qed

theorem bus_delivers_in_order_witness:
  "let b = NewInstanceBus ''/p'' (Some NewGlobal);
       (k, b1) = bus_subscribe b; (j, b2) = watch_subscribe b1;
       es = [NewEvent ''evt_1'' ''x.test'' None, NewEvent ''evt_2'' ''y.test'' None]
   in gm_get (subs (i_fan (fold bus_publish es b2))) k = Some es
      \<and> watch_global (fold bus_publish es b2) j = Some (map (envelope ''/p'') es)"
proof -
  let ?b = "NewInstanceBus ''/p'' (Some NewGlobal)"
  have ok: "fo_ok (i_fan ?b)" "i_global ?b = Some NewGlobal" "fo_ok (g_fan NewGlobal)"
    "i_directory ?b = ''/p''"
    by (simp_all add: NewInstanceBus_def NewGlobal_def new_fanout_def fo_ok_def gm_keys_def)
  obtain k b1 where 1: "bus_subscribe ?b = (k, b1)" by (cases "bus_subscribe ?b")
  obtain j b2 where 2: "watch_subscribe b1 = (j, b2)" by (cases "watch_subscribe b1")
  show ?thesis
    using bus_delivers_in_order [OF ok(1-3) 1 2,
        of "[NewEvent ''evt_1'' ''x.test'' None, NewEvent ''evt_2'' ''y.test'' None]"]
    by (simp add: ok(4) 1 2)
qed

text \<open>
  A slow subscriber never holds up a publisher and never holds more than 256 events:
  whatever is published, its queue keeps a prefix it had and stays within the buffer; and
  after an unsubscribe nothing more arrives on that subscription.
\<close>

theorem bus_slow_subscriber_bounded:
  assumes "fo_ok (i_fan b)" "gm_get (subs (i_fan b)) k = Some q" "length q \<le> 256"
  shows "(\<exists>q'. gm_get (subs (i_fan (fold bus_publish es b))) k = Some (q @ q')
              \<and> length (q @ q') \<le> 256)
    \<and> gm_get (subs (i_fan (fold bus_publish es (bus_unsubscribe k b)))) k = None"
  using ibus.publish_bounded [OF assms(1,2), of es] ibus.unsubscribed_gone [OF assms(1), of es k]
    assms(3) by (simp add: subBuffer_def)

theorem bus_slow_subscriber_bounded_witness:
  "let b = snd (bus_subscribe (NewInstanceBus ''/p'' None)); e = NewEvent ''evt_1'' ''x.flood'' None in
   (\<exists>q'. gm_get (subs (i_fan (fold bus_publish (replicate 300 e) b))) 0 = Some ([] @ q')
         \<and> length ([] @ q') \<le> 256)
   \<and> gm_get (subs (i_fan (fold bus_publish (replicate 300 e) (bus_unsubscribe 0 b)))) 0 = None"
  unfolding Let_def
  by (rule bus_slow_subscriber_bounded)
    (simp_all add: bus_subscribe_def NewInstanceBus_def new_fanout_def fo_subscribe_def fo_ok_def
      gm_keys_def gm_wf_def Let_def)

subsection \<open>The client counter\<close>

inductive client_step :: "global_bus \<Rightarrow> global_bus \<Rightarrow> bool" where
  connect: "client_step g (snd (ClientConnected g))"
| release: "client_step g (ClientRelease h g)"
| g_publish: "client_step g (global_publish ge g)"
| g_subscribe: "client_step g (snd (global_subscribe g))"
| g_unsubscribe: "client_step g (global_unsubscribe k g)"

inductive_cases client_stepE: "client_step g g'"

definition open_clients :: "global_bus \<Rightarrow> nat" where
  "open_clients g = length (filter Not (g_handles g))"

lemma filter_update_True:
  "h < length xs \<Longrightarrow> \<not> xs ! h \<Longrightarrow> length (filter Not xs) = Suc (length (filter Not (xs[h := True])))"
  by (induction xs arbitrary: h) (auto split: nat.split)

lemma client_step_count:
  "client_step g g' \<Longrightarrow> Clients g = int (open_clients g) \<Longrightarrow> Clients g' = int (open_clients g')"
  by (erule client_stepE)
    (auto simp: Clients_def open_clients_def ClientConnected_def ClientRelease_def global_publish_def
      global_subscribe_def global_unsubscribe_def filter_update_True split: prod.splits)

text \<open>
  The number of active clients is exact in every reachable state of the global bus: it is
  the number of connections whose release function has not run, however often and in whatever
  order the release functions are called; so it is never negative.
\<close>

theorem client_count_exact:
  assumes "client_step\<^sup>*\<^sup>* NewGlobal g"
  shows "Clients g = int (open_clients g) \<and> 0 \<le> Clients g"
proof -
  have "Clients g = int (open_clients g)"
    using assms
    by (induction rule: rtranclp_induct)
      (auto simp: NewGlobal_def Clients_def open_clients_def [of "NewGlobal"] open_clients_def
        dest: client_step_count)
  then show ?thesis by simp
qed

theorem client_count_exact_witness:
  "let g = ClientRelease 0 (ClientRelease 0 (snd (ClientConnected (snd (ClientConnected NewGlobal)))))
   in Clients g = int (open_clients g) \<and> 0 \<le> Clients g"
  unfolding Let_def
  by (rule client_count_exact) (meson client_step.intros rtranclp.intros)

end
