(* ===== verification/Llm.thy ===== *)
theory Llm
  imports Prelude
begin

text \<open>
  The provider-neutral wire types (\<^verbatim>\<open>internal/engine/llm\<close>): model messages, a request, and
  the events a provider stream emits. Token counts and prices are Go's \<^verbatim>\<open>float64\<close>; a finite
  value is a \<^typ>\<open>rat\<close>, and each arithmetic operation applies the rounding function of the
  floating-point unit to the exact result.
\<close>

type_synonym f64 = rat

datatype role = RoleSystem | RoleUser | RoleAssistant | RoleTool

datatype content_kind = ContentText | ContentFile | ContentReasoning | ContentToolCall | ContentToolResult

record content_part =
  c_kind :: content_kind
  c_text :: string
  c_media_type :: string
  c_url :: string
  c_filename :: string
  c_call_id :: string
  c_tool :: string
  c_input :: "jmap option"
  c_output :: string
  c_is_error :: bool
  c_meta :: "jmap option"

definition blank_part :: "content_kind \<Rightarrow> content_part" where
  "blank_part k =
     \<lparr>c_kind = k, c_text = '''', c_media_type = '''', c_url = '''', c_filename = '''', c_call_id = '''',
      c_tool = '''', c_input = None, c_output = '''', c_is_error = False, c_meta = None\<rparr>"

definition text_content :: "string \<Rightarrow> content_part" where
  "text_content s = (blank_part ContentText)\<lparr>c_text := s\<rparr>"

record model_message =
  mm_role :: role
  mm_content :: "content_part list"

record tool_def =
  td_name :: string
  td_description :: string
  td_schema :: jmap

datatype tool_choice = ToolChoiceUnset | ToolChoiceAuto | ToolChoiceNone | ToolChoiceRequired

record token_usage =
  u_input :: f64
  u_output :: f64
  u_reasoning :: f64
  u_cache_read :: f64
  u_cache_write :: f64

definition zero_usage :: token_usage where
  "zero_usage = \<lparr>u_input = 0, u_output = 0, u_reasoning = 0, u_cache_read = 0, u_cache_write = 0\<rparr>"

text \<open>
  One event of a stream. The code has one struct with a \<^verbatim>\<open>Type\<close> discriminator of which only the
  fields of that type are set; each constructor carries those fields. The last argument of a
  constructor that has one is \<^verbatim>\<open>ProviderMetadata\<close>.
\<close>

datatype llm_event =
    EvStepStart
  | EvStepFinish string "token_usage option"
  | EvTextStart string "jmap option"
  | EvTextDelta string string "jmap option"
  | EvTextEnd string
  | EvReasoningStart string "jmap option"
  | EvReasoningDelta string string "jmap option"
  | EvReasoningEnd string "jmap option"
  | EvToolInputStart string string
  | EvToolInputDelta string string
  | EvToolInputEnd string
  | EvToolCall string string "jmap option" "jmap option"
  | EvToolResult string string
  | EvToolError string string
  | EvProviderError int string
  | EvFinish

record llm_request =
  rq_model :: string
  rq_system :: "string list"
  rq_messages :: "model_message list"
  rq_tools :: "tool_def list"
  rq_tool_choice :: tool_choice
  rq_max_output :: int
  rq_temperature :: "f64 option"
  rq_top_p :: "f64 option"
  rq_top_k :: "int option"
  rq_headers :: "(string, string) gomap"
  rq_options :: jmap

end
