(* ===== verification/Sink.thy ===== *)
theory Sink
  imports Llm
begin

text \<open>
  The event channel of a provider stream. The producer sends each event with \<^verbatim>\<open>emit\<close>, which
  fails once the run's context is cancelled; the producer then returns at once. A sink holds the
  events received so far and, if the run will be cancelled, how many more will be taken before
  that. A command is a piece of a producer: it updates the producer's local variables and the
  sink, and \<open>None\<close> is the early return.
\<close>

record sink =
  sk_sent :: "llm_event list"
  sk_left :: "nat option"

type_synonym 's cmd = "'s \<Rightarrow> sink \<Rightarrow> 's option \<times> sink"

definition emit :: "llm_event \<Rightarrow> 's cmd" where
  "emit ev s k =
     (case sk_left k of
        Some 0 \<Rightarrow> (None, k)
      | Some (Suc n) \<Rightarrow> (Some s, k\<lparr>sk_sent := sk_sent k @ [ev], sk_left := Some n\<rparr>)
      | None \<Rightarrow> (Some s, k\<lparr>sk_sent := sk_sent k @ [ev]\<rparr>))"

definition skip_cmd :: "'s cmd" where
  "skip_cmd s k = (Some s, k)"

definition stop_cmd :: "'s cmd" where
  "stop_cmd s k = (None, k)"

definition set_cmd :: "('s \<Rightarrow> 's) \<Rightarrow> 's cmd" where
  "set_cmd f s k = (Some (f s), k)"

definition seq_cmd :: "'s cmd \<Rightarrow> 's cmd \<Rightarrow> 's cmd" where
  "seq_cmd c d s k = (case c s k of (None, k') \<Rightarrow> (None, k') | (Some s', k') \<Rightarrow> d s' k')"

definition get_cmd :: "('s \<Rightarrow> 's cmd) \<Rightarrow> 's cmd" where
  "get_cmd c s k = c s s k"

definition when_cmd :: "bool \<Rightarrow> 's cmd \<Rightarrow> 's cmd" where
  "when_cmd b c = (if b then c else skip_cmd)"

fun each_cmd :: "('a \<Rightarrow> 's cmd) \<Rightarrow> 'a list \<Rightarrow> 's cmd" where
  "each_cmd c [] = skip_cmd"
| "each_cmd c (x # xs) = seq_cmd (c x) (each_cmd c xs)"

subsection \<open>What a command sends\<close>

text \<open>
  \<open>sends c s evs r\<close>: started with the variables \<open>s\<close> and not cut off, the command sends \<open>evs\<close> and
  ends with \<open>r\<close>; cut off after \<open>n\<close> events it has sent the first \<open>n\<close> of them and returned early.
\<close>

definition sends :: "'s cmd \<Rightarrow> 's \<Rightarrow> llm_event list \<Rightarrow> 's option \<Rightarrow> bool" where
  "sends c s evs r =
     ((\<forall>sent. c s \<lparr>sk_sent = sent, sk_left = None\<rparr> = (r, \<lparr>sk_sent = sent @ evs, sk_left = None\<rparr>)) \<and>
      (\<forall>sent n. c s \<lparr>sk_sent = sent, sk_left = Some n\<rparr> =
         (if n < length evs then (None, \<lparr>sk_sent = sent @ take n evs, sk_left = Some 0\<rparr>)
          else (r, \<lparr>sk_sent = sent @ evs, sk_left = Some (n - length evs)\<rparr>))))"

lemma sends_emit: "sends (emit ev) s [ev] (Some s)"
  by (auto simp: sends_def emit_def split: nat.split)

lemma sends_skip: "sends skip_cmd s [] (Some s)"
  by (simp add: sends_def skip_cmd_def)

lemma sends_stop: "sends stop_cmd s [] None"
  by (simp add: sends_def stop_cmd_def)

lemma sends_set: "sends (set_cmd f) s [] (Some (f s))"
  by (simp add: sends_def set_cmd_def)

lemma sends_seq:
  "sends c s e1 (Some t) \<Longrightarrow> sends d t e2 r \<Longrightarrow> sends (seq_cmd c d) s (e1 @ e2) r"
  by (auto simp: sends_def seq_cmd_def)

lemma sends_seq_None: "sends c s e1 None \<Longrightarrow> sends (seq_cmd c d) s e1 None"
  by (auto simp: sends_def seq_cmd_def)

lemma sends_get: "sends (c s) s evs r \<Longrightarrow> sends (get_cmd c) s evs r"
  by (simp add: sends_def get_cmd_def)

lemma sends_when: "(b \<Longrightarrow> sends c s e r) \<Longrightarrow> sends (when_cmd b c) s (if b then e else []) (if b then r else Some s)"
  by (simp add: when_cmd_def sends_skip)

lemma sends_unique: "sends c s e r \<Longrightarrow> sends c s e' r' \<Longrightarrow> e = e' \<and> r = r'"
  by (fastforce simp: sends_def)

definition regular :: "'s cmd \<Rightarrow> bool" where
  "regular c = (\<forall>s. \<exists>evs r. sends c s evs r)"

named_theorems regular

lemma regular_basic [regular]:
  "regular (emit ev)" "regular skip_cmd" "regular stop_cmd" "regular (set_cmd f)"
  unfolding regular_def by (blast intro: sends_emit sends_skip sends_stop sends_set)+

lemma regular_seq [regular]: "regular c \<Longrightarrow> regular d \<Longrightarrow> regular (seq_cmd c d)"
  unfolding regular_def by (metis sends_seq sends_seq_None option.exhaust)

lemma regular_get [regular]: "(\<And>s. regular (c s)) \<Longrightarrow> regular (get_cmd c)"
  unfolding regular_def by (metis sends_get)

lemma regular_when [regular]: "regular c \<Longrightarrow> regular (when_cmd b c)"
  by (simp add: when_cmd_def regular_basic)

lemma regular_if [regular]: "regular c \<Longrightarrow> regular d \<Longrightarrow> regular (if b then c else d)"
  by simp

lemma regular_each [regular]: "(\<And>x. regular (c x)) \<Longrightarrow> regular (each_cmd c xs)"
  by (induction xs) (auto intro: regular)

text \<open>All events of a run that is never cut off, and the events of one cut off after \<open>n\<close>.\<close>

definition sent_all :: "'s cmd \<Rightarrow> 's \<Rightarrow> llm_event list" where
  "sent_all c s = sk_sent (snd (c s \<lparr>sk_sent = [], sk_left = None\<rparr>))"

definition sent_cut :: "nat \<Rightarrow> 's cmd \<Rightarrow> 's \<Rightarrow> llm_event list" where
  "sent_cut n c s = sk_sent (snd (c s \<lparr>sk_sent = [], sk_left = Some n\<rparr>))"

lemma sends_all: "sends c s evs r \<Longrightarrow> sent_all c s = evs"
  by (simp add: sends_def sent_all_def)

lemma regular_cut: "regular c \<Longrightarrow> sent_cut n c s = take n (sent_all c s)"
proof -
  assume "regular c"
  then obtain evs r where "sends c s evs r" unfolding regular_def by blast
  then show ?thesis by (auto simp: sends_def sent_cut_def sent_all_def)
qed

subsection \<open>Lines of a body\<close>

text \<open>
  \<^verbatim>\<open>bufio.Reader.ReadString('\n')\<close> on the bytes still to come: the line with its newline, the
  bytes after it, and whether the end of the body (or a read error) was reached first.
\<close>

fun read_string :: "string \<Rightarrow> string \<times> string \<times> bool" where
  "read_string [] = ([], [], True)"
| "read_string (c # cs) =
     (if c = CHR 0x0A then ([c], cs, False)
      else (case read_string cs of (l, r, e) \<Rightarrow> (c # l, r, e)))"

lemma read_string_shorter: "read_string b = (l, r, e) \<Longrightarrow> b \<noteq> [] \<Longrightarrow> length r < length b"
proof (induction b arbitrary: l r e)
  case (Cons c cs)
  then show ?case by (cases cs) (auto split: if_splits prod.splits)
qed simp

lemma read_string_end: "read_string b = (l, r, True) \<Longrightarrow> r = []"
  by (induction b arbitrary: l r) (auto split: if_splits prod.splits)

lemma read_string_append: "read_string b = (l, r, e) \<Longrightarrow> b = l @ r"
  by (induction b arbitrary: l r e) (auto split: if_splits prod.splits)

definition sseData :: "string \<Rightarrow> string option" where
  "sseData line =
     (let line = trim_right (\<lambda>c. c = CHR 0x0D \<or> c = CHR 0x0A) line
      in if has_prefix line ''data:'' then Some (trim_space (drop 5 line)) else None)"

lemma sseData_nil [simp]: "sseData [] = None"
  by (simp add: sseData_def trim_right_def)

lemma read_string_progress:
  "(l, r, e) = read_string b \<Longrightarrow> \<not> e \<or> sseData l \<noteq> None \<Longrightarrow> length r < length b"
  by (cases "b = []") (auto dest: read_string_shorter [OF sym])

text \<open>
  \<^verbatim>\<open>parseArgs\<close>; \<open>unmarshal\<close> is \<^verbatim>\<open>json.Unmarshal\<close> into a map: an error, or the map (nil for null).
\<close>

definition parseArgs :: "(string \<Rightarrow> jmap option option) \<Rightarrow> string \<Rightarrow> jmap option" where
  "parseArgs unmarshal s =
     (if trim_space s = '''' then Some []
      else case unmarshal s of None \<Rightarrow> Some [] | Some m \<Rightarrow> m)"

subsection \<open>Assertions over variables and events sent\<close>

text \<open>
  \<open>outcome P c Q E\<close>: from variables and events sent that satisfy \<open>P\<close>, an uncancelled run of the
  command ends either normally with \<open>Q\<close> or early with events that satisfy \<open>E\<close>; a \<open>triple\<close> never
  returns early.
\<close>

definition outcome ::
  "('s \<Rightarrow> llm_event list \<Rightarrow> bool) \<Rightarrow> 's cmd \<Rightarrow> ('s \<Rightarrow> llm_event list \<Rightarrow> bool)
   \<Rightarrow> (llm_event list \<Rightarrow> bool) \<Rightarrow> bool" where
  "outcome P c Q E =
     (\<forall>s e0. P s e0 \<longrightarrow>
        (\<exists>e r. sends c s e r \<and> (case r of Some s' \<Rightarrow> Q s' (e0 @ e) | None \<Rightarrow> E (e0 @ e))))"

abbreviation triple ::
  "('s \<Rightarrow> llm_event list \<Rightarrow> bool) \<Rightarrow> 's cmd \<Rightarrow> ('s \<Rightarrow> llm_event list \<Rightarrow> bool) \<Rightarrow> bool" where
  "triple P c Q \<equiv> outcome P c Q (\<lambda>_. False)"

lemma outcomeI:
  assumes "\<And>s e0. P s e0 \<Longrightarrow> sends c s (e s) (r s)"
    and "\<And>s e0 s'. P s e0 \<Longrightarrow> r s = Some s' \<Longrightarrow> Q s' (e0 @ e s)"
    and "\<And>s e0. P s e0 \<Longrightarrow> r s = None \<Longrightarrow> E (e0 @ e s)"
  shows "outcome P c Q E"
  unfolding outcome_def
proof (intro allI impI)
  fix s e0 assume p: "P s e0"
  with assms show "\<exists>e r. sends c s e r \<and> (case r of Some s' \<Rightarrow> Q s' (e0 @ e) | None \<Rightarrow> E (e0 @ e))"
    by (intro exI [of _ "e s"] exI [of _ "r s"]) (auto split: option.split)
qed

lemma triple_emit: "(\<And>s e. P s e \<Longrightarrow> Q s (e @ [ev])) \<Longrightarrow> outcome P (emit ev) Q E"
  by (rule outcomeI [where e = "\<lambda>_. [ev]" and r = Some]) (auto simp: sends_emit)

lemma triple_skip: "(\<And>s e. P s e \<Longrightarrow> Q s e) \<Longrightarrow> outcome P skip_cmd Q E"
  by (rule outcomeI [where e = "\<lambda>_. []" and r = Some]) (auto simp: sends_skip)

lemma triple_set: "(\<And>s e. P s e \<Longrightarrow> Q (f s) e) \<Longrightarrow> outcome P (set_cmd f) Q E"
  by (rule outcomeI [where e = "\<lambda>_. []" and r = "\<lambda>s. Some (f s)"]) (auto simp: sends_set)

lemma triple_stop: "(\<And>s e. P s e \<Longrightarrow> E e) \<Longrightarrow> outcome P stop_cmd Q E"
  by (rule outcomeI [where e = "\<lambda>_. []" and r = "\<lambda>_. None"]) (auto simp: sends_stop)

lemma triple_seq:
  assumes "outcome P c Q E" "outcome Q d R E"
  shows "outcome P (seq_cmd c d) R E"
  unfolding outcome_def
proof (intro allI impI)
  fix s e0 assume "P s e0"
  with assms(1) obtain e r where c: "sends c s e r"
    "case r of Some s' \<Rightarrow> Q s' (e0 @ e) | None \<Rightarrow> E (e0 @ e)"
    unfolding outcome_def by blast
  show "\<exists>e r. sends (seq_cmd c d) s e r \<and> (case r of Some s' \<Rightarrow> R s' (e0 @ e) | None \<Rightarrow> E (e0 @ e))"
  proof (cases r)
    case None
    with c show ?thesis by (intro exI [of _ e] exI [of _ None]) (simp add: sends_seq_None)
  next
    case (Some s')
    with c(2) assms(2) obtain e' r' where "sends d s' e' r'"
      "case r' of Some s'' \<Rightarrow> R s'' ((e0 @ e) @ e') | None \<Rightarrow> E ((e0 @ e) @ e')"
      unfolding outcome_def by fastforce
    with c(1) Some show ?thesis by (intro exI [of _ "e @ e'"] exI [of _ r']) (simp add: sends_seq split: option.splits)
  qed
qed

lemma triple_get:
  assumes "\<And>s0. outcome (\<lambda>s e. P s e \<and> s = s0) (c s0) Q E"
  shows "outcome P (get_cmd c) Q E"
  unfolding outcome_def
proof (intro allI impI)
  fix s e assume "P s e"
  with assms [of s] obtain f r where
    "sends (c s) s f r" "case r of Some s' \<Rightarrow> Q s' (e @ f) | None \<Rightarrow> E (e @ f)"
    unfolding outcome_def by blast
  then show "\<exists>f r. sends (get_cmd c) s f r \<and> (case r of Some s' \<Rightarrow> Q s' (e @ f) | None \<Rightarrow> E (e @ f))"
    by (intro exI [of _ f] exI [of _ r] conjI sends_get)
qed

lemma triple_when:
  "(b \<Longrightarrow> outcome P c Q E) \<Longrightarrow> (\<And>s e. \<not> b \<Longrightarrow> P s e \<Longrightarrow> Q s e) \<Longrightarrow> outcome P (when_cmd b c) Q E"
  by (simp add: when_cmd_def triple_skip)

lemma triple_each:
  "(\<And>pre x. outcome (I pre) (c x) (I (pre @ [x])) E)
   \<Longrightarrow> outcome (I pre) (each_cmd c xs) (I (pre @ xs)) E"
proof (induction xs arbitrary: pre)
  case (Cons x xs)
  from Cons.IH [OF Cons.prems, of "pre @ [x]"] Cons.prems [of pre x] show ?case
    by (auto intro: triple_seq)
qed (auto intro: triple_skip)

lemma triple_pre: "outcome P c Q E \<Longrightarrow> (\<And>s e. P' s e \<Longrightarrow> P s e) \<Longrightarrow> outcome P' c Q E"
  unfolding outcome_def by blast

lemma triple_post:
  assumes "outcome P c Q E" "\<And>s e. Q s e \<Longrightarrow> Q' s e"
  shows "outcome P c Q' E"
  unfolding outcome_def
proof (intro allI impI)
  fix s e assume "P s e"
  with assms(1) obtain f r where
    "sends c s f r" "case r of Some s' \<Rightarrow> Q s' (e @ f) | None \<Rightarrow> E (e @ f)"
    unfolding outcome_def by blast
  with assms(2) show "\<exists>f r. sends c s f r \<and> (case r of Some s' \<Rightarrow> Q' s' (e @ f) | None \<Rightarrow> E (e @ f))"
    by (intro exI [of _ f] exI [of _ r]) (auto split: option.splits)
qed

lemma triple_weak: "triple P c Q \<Longrightarrow> outcome P c Q E"
  unfolding outcome_def by (fastforce split: option.splits)

lemma triple_vacuous: "(\<And>s e. \<not> P s e) \<Longrightarrow> outcome P c Q E"
  by (simp add: outcome_def)

lemma outcome_all: "outcome P c Q E \<Longrightarrow> P s [] \<Longrightarrow> (\<exists>s'. Q s' (sent_all c s)) \<or> E (sent_all c s)"
proof -
  assume o: "outcome P c Q E" and p: "P s []"
  from o p obtain e r where "sends c s e r" "case r of Some s' \<Rightarrow> Q s' ([] @ e) | None \<Rightarrow> E ([] @ e)"
    unfolding outcome_def by blast
  then show ?thesis unfolding sends_all [OF \<open>sends c s e r\<close>] by (cases r) (simp_all, blast)
qed

lemma triple_all: "triple P c Q \<Longrightarrow> P s [] \<Longrightarrow> \<exists>s'. Q s' (sent_all c s)"
  using outcome_all [of P c Q "\<lambda>_. False" s] by simp

subsection \<open>Reading an event sequence\<close>

definition terminal :: "llm_event \<Rightarrow> bool" where
  "terminal ev = (case ev of EvStepStart \<Rightarrow> True | EvStepFinish _ _ \<Rightarrow> True | EvFinish \<Rightarrow> True
     | EvProviderError _ _ \<Rightarrow> True | _ \<Rightarrow> False)"

definition text_sent :: "llm_event list \<Rightarrow> string" where
  "text_sent evs = concat (map (\<lambda>ev. case ev of EvTextDelta _ t _ \<Rightarrow> t | _ \<Rightarrow> '''') evs)"

definition reasoning_sent :: "llm_event list \<Rightarrow> string" where
  "reasoning_sent evs = concat (map (\<lambda>ev. case ev of EvReasoningDelta _ t _ \<Rightarrow> t | _ \<Rightarrow> '''') evs)"

definition calls_sent :: "llm_event list \<Rightarrow> llm_event list" where
  "calls_sent evs = filter (\<lambda>ev. case ev of EvToolCall _ _ _ _ \<Rightarrow> True | _ \<Rightarrow> False) evs"

lemma sent_append [simp]:
  "text_sent (a @ b) = text_sent a @ text_sent b"
  "reasoning_sent (a @ b) = reasoning_sent a @ reasoning_sent b"
  "calls_sent (a @ b) = calls_sent a @ calls_sent b"
  by (simp_all add: text_sent_def reasoning_sent_def calls_sent_def)

lemma event_append:
  "(\<exists>mid. evs = EvStepStart # mid \<and> (\<forall>ev \<in> set mid. \<not> terminal ev)) \<Longrightarrow> \<not> terminal x
   \<Longrightarrow> (\<exists>mid. evs @ [x] = EvStepStart # mid \<and> (\<forall>ev \<in> set mid. \<not> terminal ev))"
  by auto

lemma single_event [simp]:
  "text_sent [EvTextDelta i t m] = t" "text_sent [EvTextStart i m] = ''''" "text_sent [EvTextEnd i] = ''''"
  "text_sent [EvReasoningDelta i t m] = ''''" "text_sent [EvReasoningStart i m] = ''''"
  "text_sent [EvReasoningEnd i m] = ''''" "text_sent [EvToolInputStart i n] = ''''"
  "text_sent [EvToolInputDelta i n] = ''''" "text_sent [EvToolInputEnd i] = ''''"
  "text_sent [EvToolCall i n a m] = ''''" "text_sent [EvStepFinish f u] = ''''" "text_sent [EvFinish] = ''''"
  "text_sent [EvStepStart] = ''''"
  "reasoning_sent [EvTextDelta i t m] = ''''" "reasoning_sent [EvTextStart i m] = ''''"
  "reasoning_sent [EvTextEnd i] = ''''" "reasoning_sent [EvReasoningDelta i t m] = t"
  "reasoning_sent [EvReasoningStart i m] = ''''" "reasoning_sent [EvReasoningEnd i m] = ''''"
  "reasoning_sent [EvToolInputStart i n] = ''''" "reasoning_sent [EvToolInputDelta i n] = ''''"
  "reasoning_sent [EvToolInputEnd i] = ''''" "reasoning_sent [EvToolCall i n a m] = ''''"
  "reasoning_sent [EvStepFinish f u] = ''''" "reasoning_sent [EvFinish] = ''''"
  "reasoning_sent [EvStepStart] = ''''"
  "calls_sent [EvTextDelta i t m] = []" "calls_sent [EvTextStart i m] = []" "calls_sent [EvTextEnd i] = []"
  "calls_sent [EvReasoningDelta i t m] = []" "calls_sent [EvReasoningStart i m] = []"
  "calls_sent [EvReasoningEnd i m] = []" "calls_sent [EvToolInputStart i n] = []"
  "calls_sent [EvToolInputDelta i n] = []" "calls_sent [EvToolInputEnd i] = []"
  "calls_sent [EvToolCall i n a m] = [EvToolCall i n a m]" "calls_sent [EvStepFinish f u] = []"
  "calls_sent [EvFinish] = []" "calls_sent [EvStepStart] = []"
  by (simp_all add: text_sent_def reasoning_sent_def calls_sent_def)

text \<open>The text and reasoning blocks left open; \<open>None\<close> when an event does not fit.\<close>

definition block_step :: "llm_event \<Rightarrow> string set \<times> string set \<Rightarrow> (string set \<times> string set) option" where
  "block_step ev b =
     (case ev of
        EvTextStart i _ \<Rightarrow> if i \<in> fst b then None else Some (insert i (fst b), snd b)
      | EvTextDelta i _ _ \<Rightarrow> if i \<in> fst b then Some b else None
      | EvTextEnd i \<Rightarrow> if i \<in> fst b then Some (fst b - {i}, snd b) else None
      | EvReasoningStart i _ \<Rightarrow> if i \<in> snd b then None else Some (fst b, insert i (snd b))
      | EvReasoningDelta i _ _ \<Rightarrow> if i \<in> snd b then Some b else None
      | EvReasoningEnd i _ \<Rightarrow> if i \<in> snd b then Some (fst b, snd b - {i}) else None
      | _ \<Rightarrow> Some b)"

fun open_blocks :: "llm_event list \<Rightarrow> string set \<times> string set \<Rightarrow> (string set \<times> string set) option" where
  "open_blocks [] b = Some b"
| "open_blocks (ev # evs) b = (case block_step ev b of None \<Rightarrow> None | Some b' \<Rightarrow> open_blocks evs b')"

lemma open_blocks_append [simp]:
  "open_blocks (xs @ ys) b = (case open_blocks xs b of None \<Rightarrow> None | Some b' \<Rightarrow> open_blocks ys b')"
  by (induction xs b rule: open_blocks.induct) (auto split: option.split)

subsection \<open>The contract of a provider stream\<close>

text \<open>
  What the consumer of a stream may rely on: it opens with a step start; then come content
  events only; and it ends either with a provider error or with a step finish and a finish. A
  cancelled stream is a prefix of the whole one.
\<close>

definition stream_shape :: "llm_event list \<Rightarrow> bool" where
  "stream_shape evs =
     (\<exists>mid fin. evs = EvStepStart # mid @ fin \<and> (\<forall>ev \<in> set mid. \<not> terminal ev) \<and>
        ((\<exists>c m. fin = [EvProviderError c m]) \<or> (\<exists>r u. fin = [EvStepFinish r u, EvFinish])))"

locale stream_source =
  fixes whole :: "'i \<Rightarrow> llm_event list"
    and cut :: "nat \<Rightarrow> 'i \<Rightarrow> llm_event list"
  assumes shape: "stream_shape (whole i)"
    and cut_prefix: "cut n i = take n (whole i)"
begin

lemma finish_last: "EvFinish \<in> set (cut n i) \<Longrightarrow> cut n i = whole i \<and> last (whole i) = EvFinish"
proof -
  assume f: "EvFinish \<in> set (cut n i)"
  from shape [of i] obtain mid fin where w: "whole i = EvStepStart # mid @ fin"
    "\<forall>ev \<in> set mid. \<not> terminal ev"
    and fin: "(\<exists>c m. fin = [EvProviderError c m]) \<or> (\<exists>r u. fin = [EvStepFinish r u, EvFinish])"
    unfolding stream_shape_def by blast
  have mid: "EvFinish \<notin> set mid" using w(2) by (auto simp: terminal_def)
  from f cut_prefix have "EvFinish \<in> set (whole i)" by (metis in_set_takeD)
  with w mid fin obtain r u where fin: "fin = [EvStepFinish r u, EvFinish]" by auto
  have "n \<ge> length (whole i)"
  proof (rule ccontr)
    assume "\<not> n \<ge> length (whole i)"
    then have "take n (whole i) = take n (EvStepStart # mid @ [EvStepFinish r u])"
      using w fin by (simp add: take_Cons' take_append)
    then have "EvFinish \<in> set (EvStepStart # mid @ [EvStepFinish r u])"
      using f cut_prefix by (metis in_set_takeD)
    with mid show False by simp
  qed
  with w fin cut_prefix show ?thesis by simp
qed

lemma finish_no_error: "EvFinish \<in> set (cut n i) \<Longrightarrow> EvProviderError c m \<notin> set (cut n i)"
proof -
  assume "EvFinish \<in> set (cut n i)"
  then have w: "cut n i = whole i" "last (whole i) = EvFinish" using finish_last by blast+
  from shape [of i] w show ?thesis
    unfolding stream_shape_def
    by (auto simp: terminal_def dest!: bspec [of _ _ "EvProviderError c m"])
qed

end

end
