(* ===== verification/EventStream.thy ===== *)
theory EventStream
  imports EventBus Sink "HOL-Library.Sublist"
begin

text \<open>
  The event streams over HTTP: the handlers that write them (\<^verbatim>\<open>internal/server/sse.go\<close>) and the client
  that reads them (\<^verbatim>\<open>sdk/go/sse.go\<close>). A body is the bytes written or received; a connection that breaks
  leaves a prefix of it. \<open>marshal\<close> is \<^verbatim>\<open>json.Marshal\<close> of an event, \<open>unmarshal\<close> its decoding.
\<close>

subsection \<open>The server's side\<close>

abbreviation lf :: char where
  "lf \<equiv> CHR 0x0A"

definition frame :: "string \<Rightarrow> string" where
  "frame data = ''event: message'' @ [lf] @ ''data: '' @ data @ [lf, lf]"

definition writeSSE :: "('e \<Rightarrow> string option) \<Rightarrow> 'e \<Rightarrow> string option" where
  \<comment> \<open>\<open>None\<close>: the event cannot be encoded and the handler returns\<close>
  "writeSSE marshal e = map_option frame (marshal e)"

text \<open>
  What the handler's select yields: a tick, whose heartbeat has a fresh id, a received event, the end of
  the subscription, and the end of the request or of the server.
\<close>

datatype 'e stream_input = Tick string | Received 'e | ChannelClosed | ContextDone

fun instance_loop :: "(bus_event \<Rightarrow> string option) \<Rightarrow> bus_event stream_input list \<Rightarrow> string" where
  "instance_loop marshal [] = []"
| "instance_loop marshal (ContextDone # ins) = []"
| "instance_loop marshal (ChannelClosed # ins) = []"
| "instance_loop marshal (Tick fresh # ins) =
     (case writeSSE marshal (NewEvent fresh EventHeartbeat None) of
        None \<Rightarrow> [] | Some f \<Rightarrow> f @ instance_loop marshal ins)"
| "instance_loop marshal (Received e # ins) =
     (case writeSSE marshal e of
        None \<Rightarrow> []
      | Some f \<Rightarrow> f @ (if ev_type e = EventInstanceDisposed then [] else instance_loop marshal ins))"

definition instanceEventHandler ::
  "(bus_event \<Rightarrow> string option) \<Rightarrow> string \<Rightarrow> bus_event stream_input list \<Rightarrow> string"
where
  "instanceEventHandler marshal fresh ins =
     (case writeSSE marshal (NewEvent fresh EventConnected None) of
        None \<Rightarrow> [] | Some f \<Rightarrow> f @ instance_loop marshal ins)"

definition unrouted :: "bus_event \<Rightarrow> global_event" where
  "unrouted e = \<lparr>ge_payload = e, ge_directory = [], ge_project = [], ge_workspace = []\<rparr>"

fun global_loop :: "(global_event \<Rightarrow> string option) \<Rightarrow> global_event stream_input list \<Rightarrow> string" where
  "global_loop marshal [] = []"
| "global_loop marshal (ContextDone # ins) = []"
| "global_loop marshal (ChannelClosed # ins) = []"
| "global_loop marshal (Tick fresh # ins) =
     (case writeSSE marshal (unrouted (NewEvent fresh EventHeartbeat None)) of
        None \<Rightarrow> [] | Some f \<Rightarrow> f @ global_loop marshal ins)"
| "global_loop marshal (Received e # ins) =
     (case writeSSE marshal e of None \<Rightarrow> [] | Some f \<Rightarrow> f @ global_loop marshal ins)"

definition globalEventHandler ::
  "(global_event \<Rightarrow> string option) \<Rightarrow> string \<Rightarrow> global_event stream_input list \<Rightarrow> string"
where
  "globalEventHandler marshal fresh ins =
     (case writeSSE marshal (unrouted (NewEvent fresh EventConnected None)) of
        None \<Rightarrow> [] | Some f \<Rightarrow> f @ global_loop marshal ins)"

subsection \<open>The client's side\<close>

record sse_event =
  ce_id :: string
  ce_type :: string
  ce_properties :: string
  ce_directory :: string
  ce_project :: string
  ce_workspace :: string

record global_envelope =
  ge_event :: sse_event
  gv_directory :: string
  gv_project :: string
  gv_workspace :: string

text \<open>Unmarshalling an event leaves the three routing fields, which are not on the wire, empty.\<close>

definition decodeEvent ::
  "(string \<Rightarrow> sse_event option) \<Rightarrow> (string \<Rightarrow> global_envelope option) \<Rightarrow> bool \<Rightarrow> string \<Rightarrow> sse_event option"
where
  "decodeEvent unmarshal unmarshal_env wrapped raw =
     (if wrapped then
        (case unmarshal_env raw of
           None \<Rightarrow> None
         | Some env \<Rightarrow>
             Some ((ge_event env)\<lparr>ce_directory := gv_directory env, ce_project := gv_project env,
                                  ce_workspace := gv_workspace env\<rparr>))
      else unmarshal raw)"

definition flush_data :: "(string \<Rightarrow> 'c option) \<Rightarrow> string \<Rightarrow> 'c list" where
  "flush_data decode data =
     (if data = [] then [] else (case decode data of None \<Rightarrow> [] | Some ev \<Rightarrow> [ev]))"

definition add_line :: "string \<Rightarrow> string \<Rightarrow> string" where
  \<comment> \<open>a data line, without the one optional space after the colon\<close>
  "add_line data trimmed =
     (let d = drop 5 trimmed
      in (if data \<noteq> [] then data @ [lf] else data) @ (if has_prefix d '' '' then drop 1 d else d))"

function consume :: "(string \<Rightarrow> 'c option) \<Rightarrow> string \<Rightarrow> string \<Rightarrow> 'c list" where
  "consume decode data body =
     (case read_string body of (line, rest, err) \<Rightarrow>
        (let trimmed = trim_right (\<lambda>c. c = CHR 0x0D \<or> c = lf) line;
             (out, data1) =
               (if has_prefix trimmed ''data:'' then ([], add_line data trimmed)
                else if trimmed = [] then (flush_data decode data, [])
                else ([], data))
         in out @ (if err then flush_data decode data1 else consume decode data1 rest)))"
  by pat_completeness auto
termination
  by (relation "measure (\<lambda>(decode, data, body). length body)")
    (auto dest: read_string_progress)

declare consume.simps [simp del]


subsection \<open>What one frame reads as\<close>

lemma read_line: "lf \<notin> set l \<Longrightarrow> read_string (l @ lf # r) = (l @ [lf], r, False)"
  by (induction l) auto

lemma read_rest: "lf \<notin> set l \<Longrightarrow> read_string l = (l, [], True)"
  by (induction l) auto

lemma trim_line: "lf \<notin> set l \<Longrightarrow> CHR 0x0D \<notin> set l \<Longrightarrow> trim_right (\<lambda>c. c = CHR 0x0D \<or> c = lf) (l @ [lf]) = l"
  "lf \<notin> set l \<Longrightarrow> CHR 0x0D \<notin> set l \<Longrightarrow> trim_right (\<lambda>c. c = CHR 0x0D \<or> c = lf) l = l"
proof -
  assume l: "lf \<notin> set l" "CHR 0x0D \<notin> set l"
  have "dropWhile (\<lambda>c. c = CHR 0x0D \<or> c = lf) (rev l) = rev l"
    using l by (cases "rev l") (auto simp flip: set_rev [of l])
  then show "trim_right (\<lambda>c. c = CHR 0x0D \<or> c = lf) (l @ [lf]) = l" "trim_right (\<lambda>c. c = CHR 0x0D \<or> c = lf) l = l"
    by (simp_all add: trim_right_def)
qed

definition plain :: "string \<Rightarrow> bool" where
  "plain d = (d \<noteq> [] \<and> lf \<notin> set d \<and> CHR 0x0D \<notin> set d)"

lemma consume_line:
  "lf \<notin> set l \<Longrightarrow> CHR 0x0D \<notin> set l \<Longrightarrow> l \<noteq> [] \<Longrightarrow> \<not> has_prefix l ''data:'' \<Longrightarrow>
   consume decode data (l @ lf # r) = consume decode data r"
  by (simp add: consume.simps [of decode data "l @ lf # r"] read_line trim_line Let_def)

lemma consume_data_line:
  "lf \<notin> set l \<Longrightarrow> CHR 0x0D \<notin> set l \<Longrightarrow> has_prefix l ''data:'' \<Longrightarrow>
   consume decode data (l @ lf # r) = consume decode (add_line data l) r"
  by (cases "l = []") (simp_all add: consume.simps [of decode data "l @ lf # r"] read_line trim_line Let_def)

lemma add_data [simp]: "add_line [] (''data: '' @ d) = d"
  by (simp add: add_line_def)

lemma consume_data:
  "lf \<notin> set d \<Longrightarrow> CHR 0x0D \<notin> set d \<Longrightarrow> consume decode [] ((''data: '' @ d) @ lf # r) = consume decode d r"
  by (subst consume_data_line) (simp_all only: add_data, simp_all)

lemma consume_blank: "consume decode data (lf # r) = flush_data decode data @ consume decode [] r"
  by (simp add: consume.simps [of decode data "lf # r"] trim_right_def Let_def)

lemma consume_nil [simp]: "consume decode data [] = flush_data decode data"
  by (simp add: consume.simps [of decode data "[]"] trim_right_def flush_data_def Let_def)

lemma consume_frame:
  assumes "plain d" "decode d = Some ev"
  shows "consume decode [] (frame d @ r) = ev # consume decode [] r"
proof -
  have "frame d @ r = ''event: message'' @ lf # (''data: '' @ d) @ lf # lf # r" by (simp add: frame_def)
  moreover have "consume decode [] (''event: message'' @ lf # (''data: '' @ d) @ lf # lf # r) =
      consume decode [] ((''data: '' @ d) @ lf # lf # r)"
    by (rule consume_line) simp_all
  moreover have "\<dots> = ev # consume decode [] r"
    using assms by (subst consume_data) (simp_all add: plain_def consume_blank flush_data_def)
  ultimately show ?thesis by simp
qed

lemma consume_rest:
  assumes "lf \<notin> set q" "CHR 0x0D \<notin> set q"
  shows "consume decode [] q = (if has_prefix q ''data:'' then flush_data decode (add_line [] q) else [])"
  using assms trim_line(2) [OF assms] read_rest [OF assms(1)]
  by (simp add: consume.simps [of decode "[]" q] flush_data_def Let_def)

text \<open>A frame cut anywhere reads as nothing or as its event.\<close>

lemma prefix_frame:
  assumes "prefix p (frame d)"
  obtains (head) "lf \<notin> set p" "CHR 0x0D \<notin> set p" "\<not> has_prefix p ''data:''"
  | (inside) q where "p = ''event: message'' @ lf # q" "prefix q (''data: '' @ d)"
  | (complete) t where "p = ''event: message'' @ lf # (''data: '' @ d) @ lf # t" "prefix t [lf]"
proof -
  have "prefix p (''event: message'' @ (lf # ((''data: '' @ d) @ (lf # [lf]))))" using assms by (simp add: frame_def)
  then consider "prefix p ''event: message''" | us where "p = ''event: message'' @ us" "prefix us (lf # ((''data: '' @ d) @ (lf # [lf])))"
    unfolding prefix_append by blast
  then show thesis
  proof cases
    case 1
    then have "\<not> has_prefix p ''data:''" by (cases p) auto
    with set_mono_prefix [OF 1] show ?thesis by (intro head) auto
  next
    case (2 us)
    show ?thesis
    proof (cases us)
      case Nil
      then show ?thesis using 2(1) by (intro head) auto
    next
      case (Cons c q)
      then have us: "us = lf # q" "prefix q ((''data: '' @ d) @ (lf # [lf]))" using 2(2) by auto
      then consider "prefix q (''data: '' @ d)" | vs where "q = (''data: '' @ d) @ vs" "prefix vs (lf # [lf])"
        unfolding prefix_append [of q "''data: '' @ d"] by blast
      then show ?thesis
      proof cases
        case 1
        then show ?thesis using 2(1) us(1) by (intro inside) auto
      next
        case (2 vs)
        show ?thesis
        proof (cases vs)
          case Nil
          then show ?thesis using \<open>p = _ @ us\<close> us(1) 2 by (intro inside [of q]) auto
        next
          case (Cons x t)
          then show ?thesis using \<open>p = _ @ us\<close> us(1) 2 by (intro complete [of t]) auto
        qed
      qed
    qed
  qed
qed

lemma consume_cut_frame:
  assumes "plain d" "decode d = Some ev" "\<forall>m < length d. decode (take m d) = None" "prefix p (frame d)"
  shows "prefix (consume decode [] p) [ev]"
  using assms(4)
proof (cases rule: prefix_frame)
  case head
  then show ?thesis by (simp add: consume_rest)
next
  case (inside q)
  have q: "lf \<notin> set q" "CHR 0x0D \<notin> set q"
    using set_mono_prefix [OF inside(2)] assms(1) by (auto simp: plain_def)
  have "prefix (flush_data decode (add_line [] q)) [ev]" if hp: "has_prefix q ''data:''"
  proof -
    obtain us where us: "q = ''data:'' @ us" using hp unfolding has_prefix_iff by blast
    then have "prefix us ('' '' @ d)" using inside(2) by simp
    with us consider "add_line [] q = []" | d' where "add_line [] q = d'" "prefix d' d"
      by (cases us) (auto simp: add_line_def)
    then show ?thesis
    proof cases
      case (2 d')
      then have "d' = take (length d') d" by (auto simp: prefix_def)
      moreover have "length d' \<le> length d" using 2(2) by (rule prefix_length_le)
      ultimately show ?thesis using 2 assms(2,3) by (cases "length d' = length d") (auto simp: flush_data_def, metis nat_less_le option.simps(4) Nil_prefix)
    qed (simp add: flush_data_def)
  qed
  moreover have "consume decode [] p = consume decode [] q" unfolding inside(1) by (rule consume_line) simp_all
  ultimately show ?thesis by (simp add: consume_rest [OF q])
next
  case (complete t)
  have "consume decode [] p = consume decode [] ((''data: '' @ d) @ lf # t)"
    unfolding complete(1) by (rule consume_line) simp_all
  also have "\<dots> = consume decode d t"
    by (rule consume_data) (use assms(1) in \<open>simp_all add: plain_def\<close>)
  finally have "consume decode [] p = consume decode d t" .
  moreover have "t = [] \<or> t = [lf]" using complete(2) by (cases t) auto
  ultimately show ?thesis using assms(1,2) by (auto simp: consume_blank flush_data_def plain_def)
qed

subsection \<open>The stream from the bus to the client\<close>

text \<open>
  What is relied on for the events of a stream: the encoding is one line that decodes to the event, and
  no proper part of it decodes, as holds for the text of a JSON object.
\<close>

definition wire_ok :: "('e \<Rightarrow> string option) \<Rightarrow> (string \<Rightarrow> 'c option) \<Rightarrow> ('e \<Rightarrow> 'c) \<Rightarrow> 'e \<Rightarrow> bool" where
  "wire_ok marshal decode view e =
     (case marshal e of
        None \<Rightarrow> False
      | Some d \<Rightarrow> plain d \<and> decode d = Some (view e) \<and> (\<forall>m < length d. decode (take m d) = None))"

text \<open>The events a handler writes: up to the end of the stream, and not beyond a disposal.\<close>

fun instance_sent :: "bus_event stream_input list \<Rightarrow> bus_event list" where
  "instance_sent (Tick fresh # ins) = NewEvent fresh EventHeartbeat None # instance_sent ins"
| "instance_sent (Received e # ins) = e # (if ev_type e = EventInstanceDisposed then [] else instance_sent ins)"
| "instance_sent _ = []"

fun global_sent :: "global_event stream_input list \<Rightarrow> global_event list" where
  "global_sent (Tick fresh # ins) = unrouted (NewEvent fresh EventHeartbeat None) # global_sent ins"
| "global_sent (Received e # ins) = e # global_sent ins"
| "global_sent _ = []"

definition frames :: "('e \<Rightarrow> string option) \<Rightarrow> 'e list \<Rightarrow> string" where
  "frames marshal es = concat (map (\<lambda>e. the (writeSSE marshal e)) es)"

lemma frames_simps [simp]:
  "frames marshal [] = []" "frames marshal (e # es) = the (writeSSE marshal e) @ frames marshal es"
  by (simp_all add: frames_def)

lemma wire_frame: "wire_ok marshal decode view e \<Longrightarrow> \<exists>d. writeSSE marshal e = Some (frame d) \<and> plain d \<and>
    decode d = Some (view e) \<and> (\<forall>m < length d. decode (take m d) = None)"
  by (auto simp: wire_ok_def writeSSE_def split: option.splits)

lemma instance_loop_frames:
  "list_all (wire_ok marshal decode view) (instance_sent ins) \<Longrightarrow> instance_loop marshal ins = frames marshal (instance_sent ins)"
  by (induction marshal ins rule: instance_loop.induct) (auto dest!: wire_frame)

lemma global_loop_frames:
  "list_all (wire_ok marshal decode view) (global_sent ins) \<Longrightarrow> global_loop marshal ins = frames marshal (global_sent ins)"
  by (induction marshal ins rule: global_loop.induct) (auto dest!: wire_frame)

lemma consume_frames:
  assumes "list_all (wire_ok marshal decode view) es"
  shows "consume decode [] (frames marshal es) = map view es"
  using assms
proof (induction es)
  case (Cons e es)
  from wire_frame [of marshal decode view e] Cons.prems obtain d where
    "writeSSE marshal e = Some (frame d)" "plain d" "decode d = Some (view e)" by auto
  then show ?case using Cons by (simp add: consume_frame)
qed (simp add: flush_data_def)

lemma consume_cut_frames:
  assumes "list_all (wire_ok marshal decode view) es" "prefix p (frames marshal es)"
  shows "prefix (consume decode [] p) (map view es)"
  using assms
proof (induction es arbitrary: p)
  case (Cons e es)
  from wire_frame [of marshal decode view e] Cons.prems(1) obtain d where
    d: "writeSSE marshal e = Some (frame d)" "plain d" "decode d = Some (view e)" "\<forall>m < length d. decode (take m d) = None" by auto
  then have "prefix p (frame d @ frames marshal es)" using Cons.prems(2) by simp
  then consider "prefix p (frame d)" | us where "p = frame d @ us" "prefix us (frames marshal es)"
    unfolding prefix_append by blast
  then show ?case
  proof cases
    case 1
    from consume_cut_frame [of d decode "view e" p, OF d(2-4) 1] show ?thesis by (cases "consume decode [] p") auto
  next
    case (2 us)
    then show ?thesis using Cons d by (simp add: consume_frame)
  qed
qed (simp add: flush_data_def)

text \<open>
  C37. A client reads exactly what the server sent: the connected event, the heartbeats and the events
  of the bus in order, up to and with a disposal; and when the connection breaks anywhere, even within a
  frame, it has read a beginning of that list and nothing else.
\<close>

theorem stream_reaches_client:
  assumes "list_all (wire_ok marshal decode view) (NewEvent fresh EventConnected None # instance_sent ins)"
  shows "consume decode [] (instanceEventHandler marshal fresh ins)
      = map view (NewEvent fresh EventConnected None # instance_sent ins) \<and>
    prefix (consume decode [] (take n (instanceEventHandler marshal fresh ins)))
      (map view (NewEvent fresh EventConnected None # instance_sent ins))"
proof -
  let ?es = "NewEvent fresh EventConnected None # instance_sent ins"
  have "instanceEventHandler marshal fresh ins = frames marshal ?es"
    using assms instance_loop_frames [of marshal decode view ins] by (auto simp: instanceEventHandler_def dest!: wire_frame)
  then show ?thesis
    using consume_frames [OF assms] consume_cut_frames [OF assms take_is_prefix] by simp
qed

text \<open>The global stream is read the same way, from its envelopes.\<close>

lemma global_stream_reaches_client:
  assumes "list_all (wire_ok marshal decode view) (unrouted (NewEvent fresh EventConnected None) # global_sent ins)"
  shows "consume decode [] (globalEventHandler marshal fresh ins)
      = map view (unrouted (NewEvent fresh EventConnected None) # global_sent ins)"
proof -
  let ?es = "unrouted (NewEvent fresh EventConnected None) # global_sent ins"
  have "globalEventHandler marshal fresh ins = frames marshal ?es"
    using assms global_loop_frames [of marshal decode view ins] by (auto simp: globalEventHandler_def dest!: wire_frame)
  then show ?thesis using consume_frames [OF assms] by simp
qed

lemma sent_received:
  "list_all (\<lambda>e. ev_type e \<noteq> EventInstanceDisposed) es \<Longrightarrow> instance_sent (map Received es) = es"
  by (induction es) auto

text \<open>
  From a publisher to a client: the events published on an instance's bus after a client's stream was
  opened, up to the size of its buffer, are the events the client reads, in order, after the connected event.
\<close>

theorem published_events_reach_client:
  assumes "fo_ok (i_fan b)" "bus_subscribe b = (k, b1)" "length es \<le> 256"
    "list_all (\<lambda>e. ev_type e \<noteq> EventInstanceDisposed) es"
    "list_all (wire_ok marshal decode view) (NewEvent fresh EventConnected None # es)"
  shows "\<exists>q. gm_get (subs (i_fan (fold bus_publish es b1))) k = Some q \<and>
    consume decode [] (instanceEventHandler marshal fresh (map Received q))
      = map view (NewEvent fresh EventConnected None # es)"
proof (intro exI conjI)
  show "gm_get (subs (i_fan (fold bus_publish es b1))) k = Some es"
    using ibus.subscribe_then_publish [OF assms(1,2), of es] assms(3) by (simp add: subBuffer_def)
  have "consume decode [] (instanceEventHandler marshal fresh (map Received es)) = consume decode []
      (frames marshal (NewEvent fresh EventConnected None # es))"
    using assms(5) instance_loop_frames [of marshal decode view "map Received es"] sent_received [OF assms(4)]
    by (auto simp: instanceEventHandler_def dest!: wire_frame)
  then show "consume decode [] (instanceEventHandler marshal fresh (map Received es))
      = map view (NewEvent fresh EventConnected None # es)"
    using consume_frames [OF assms(5)] by simp
qed

definition demo_marshal :: "bus_event \<Rightarrow> string option" where
  "demo_marshal e = Some (''{'' @ ev_type e @ ''}'')"

definition demo_decode :: "string \<Rightarrow> string option" where
  "demo_decode s = (if s \<noteq> [] \<and> last s = CHR ''}'' then Some s else None)"

definition demo_events :: "bus_event list" where
  "demo_events = [NewEvent ''1'' EventConnected None, NewEvent ''2'' EventHeartbeat None, NewEvent ''3'' ''x'' None]"

lemma demo_wire: "list_all (wire_ok demo_marshal demo_decode (\<lambda>e. ''{'' @ ev_type e @ ''}'')) demo_events"
  by code_simp

lemma stream_reaches_client_witness:
  "consume demo_decode [] (instanceEventHandler demo_marshal ''1'' [Tick ''2'', Received (NewEvent ''3'' ''x'' None), ContextDone])
     = [''{server.connected}'', ''{server.heartbeat}'', ''{x}'']"
  using stream_reaches_client [of demo_marshal demo_decode "\<lambda>e. ''{'' @ ev_type e @ ''}''" "''1''"
      "[Tick ''2'', Received (NewEvent ''3'' ''x'' None), ContextDone]"] demo_wire
  by (simp add: demo_events_def NewEvent_def EventConnected_def EventHeartbeat_def EventInstanceDisposed_def)

lemma published_events_reach_client_witness:
  "\<exists>q. gm_get (subs (i_fan (fold bus_publish [NewEvent ''3'' ''x'' None] (snd (bus_subscribe (NewInstanceBus ''/p'' None)))))) 0 = Some q \<and>
    consume demo_decode [] (instanceEventHandler demo_marshal ''1'' (map Received q)) = [''{server.connected}'', ''{x}'']"
proof -
  have "fo_ok (i_fan (NewInstanceBus ''/p'' None))" "fst (bus_subscribe (NewInstanceBus ''/p'' None)) = 0"
    by (simp_all add: NewInstanceBus_def new_fanout_def fo_ok_def gm_keys_def bus_subscribe_def fo_subscribe_def Let_def)
  then show ?thesis
    using published_events_reach_client [of "NewInstanceBus ''/p'' None" 0 "snd (bus_subscribe (NewInstanceBus ''/p'' None))"
      "[NewEvent ''3'' ''x'' None]" demo_marshal demo_decode "\<lambda>e. ''{'' @ ev_type e @ ''}''" "''1''"] demo_wire
    by (simp add: demo_events_def NewEvent_def EventConnected_def EventInstanceDisposed_def prod_eq_iff)
qed

end
