(* ===== verification/Utf8.thy ===== *)
theory Utf8
  imports Prelude
begin

text \<open>
  Go's conversions between strings (bytes) and runes: \<open>decode_rune\<close> is the decoding step
  of \<^verbatim>\<open>range\<close> over a string, of \<^verbatim>\<open>[]rune(s)\<close> and of package \<^verbatim>\<open>unicode/utf8\<close>, where an
  invalid byte decodes to U+FFFD and advances by one byte; \<open>encode_rune\<close> is
  \<^verbatim>\<open>string(rune)\<close>; \<open>utf16_units\<close> is \<^verbatim>\<open>utf16.Encode\<close>.
\<close>

type_synonym rune = nat

abbreviation byte_of :: "char \<Rightarrow> nat" where
  "byte_of c \<equiv> of_char c"

definition rune_error :: rune where
  "rune_error = 0xFFFD"

definition in_range :: "nat \<Rightarrow> nat \<Rightarrow> char \<Rightarrow> bool" where
  "in_range lo hi c = (lo \<le> byte_of c \<and> byte_of c \<le> hi)"

definition is_cont :: "char \<Rightarrow> bool" where
  "is_cont c = in_range 0x80 0xBF c"

definition second_range :: "nat \<Rightarrow> nat \<times> nat" where
  "second_range b =
     (if b = 0xE0 then (0xA0, 0xBF) else if b = 0xED then (0x80, 0x9F)
      else if b = 0xF0 then (0x90, 0xBF) else if b = 0xF4 then (0x80, 0x8F)
      else (0x80, 0xBF))"

definition rune_len :: "nat \<Rightarrow> nat" where
  \<comment> \<open>the length a first byte announces, 0 for a byte that starts no rune\<close>
  "rune_len b =
     (if b < 0x80 then 1 else if 0xC2 \<le> b \<and> b \<le> 0xDF then 2
      else if 0xE0 \<le> b \<and> b \<le> 0xEF then 3 else if 0xF0 \<le> b \<and> b \<le> 0xF4 then 4 else 0)"

definition second_ok :: "nat \<Rightarrow> char \<Rightarrow> bool" where
  "second_ok b c = in_range (fst (second_range b)) (snd (second_range b)) c"

fun full_rune :: "string \<Rightarrow> nat option" where
  \<comment> \<open>the rune a string starts with, when its bytes are valid UTF-8\<close>
  "full_rune [] = None"
| "full_rune (c0 # cs) =
     (let b0 = byte_of c0 in
      if rune_len b0 = 1 then Some b0
      else if rune_len b0 = 2 then
        (case cs of c1 # _ \<Rightarrow>
           if is_cont c1 then Some ((b0 - 0xC0) * 64 + (byte_of c1 - 0x80)) else None
         | _ \<Rightarrow> None)
      else if rune_len b0 = 3 then
        (case cs of c1 # c2 # _ \<Rightarrow>
           if second_ok b0 c1 \<and> is_cont c2
           then Some ((b0 - 0xE0) * 4096 + (byte_of c1 - 0x80) * 64 + (byte_of c2 - 0x80))
           else None
         | _ \<Rightarrow> None)
      else if rune_len b0 = 4 then
        (case cs of c1 # c2 # c3 # _ \<Rightarrow>
           if second_ok b0 c1 \<and> is_cont c2 \<and> is_cont c3
           then Some ((b0 - 0xF0) * 262144 + (byte_of c1 - 0x80) * 4096
                      + (byte_of c2 - 0x80) * 64 + (byte_of c3 - 0x80))
           else None
         | _ \<Rightarrow> None)
      else None)"

definition decode_rune :: "string \<Rightarrow> rune \<times> nat" where
  "decode_rune s =
     (case full_rune s of None \<Rightarrow> (rune_error, 1)
      | Some r \<Rightarrow> (r, rune_len (byte_of (hd s))))"

lemma full_rune_len_pos: "full_rune s = Some r \<Longrightarrow> 1 \<le> rune_len (byte_of (hd s))"
  by (cases s) (auto simp: Let_def split: if_splits)

lemma full_rune_len_le: "full_rune s = Some r \<Longrightarrow> rune_len (byte_of (hd s)) \<le> length s"
  by (cases s) (auto simp: Let_def split: if_splits list.splits)

lemma decode_width_pos: "1 \<le> snd (decode_rune s)"
  by (auto simp: decode_rune_def dest: full_rune_len_pos split: option.split)

function runes_of :: "string \<Rightarrow> rune list" where
  "runes_of s =
     (if s = [] then [] else fst (decode_rune s) # runes_of (drop (snd (decode_rune s)) s))"
  by pat_completeness auto
termination
proof (relation "measure length")
  fix s :: string
  assume "s \<noteq> []"
  then have "0 < length s" by simp
  with decode_width_pos [of s] show "(drop (snd (decode_rune s)) s, s) \<in> measure length"
    by simp
qed simp

declare runes_of.simps [simp del]

function utf8_valid :: "string \<Rightarrow> bool" where
  "utf8_valid s =
     (if s = [] then True
      else (case full_rune s of None \<Rightarrow> False
            | Some r \<Rightarrow> utf8_valid (drop (rune_len (byte_of (hd s))) s)))"
  by pat_completeness auto
termination
proof (relation "measure length")
  fix s r
  assume "s \<noteq> []" "full_rune s = Some r"
  then show "(drop (rune_len (byte_of (hd s))) s, s) \<in> measure length"
    using full_rune_len_pos [of s r] by (cases s) auto
qed simp

declare utf8_valid.simps [simp del]

definition encode_rune :: "rune \<Rightarrow> string" where
  "encode_rune r =
     (if r < 0x80 then [char_of r]
      else if r < 0x800 then [char_of (0xC0 + r div 64), char_of (0x80 + r mod 64)]
      else if (0xD800 \<le> r \<and> r \<le> 0xDFFF) \<or> 0x10FFFF < r
        then [char_of (0xEF :: nat), char_of (0xBF :: nat), char_of (0xBD :: nat)]
      else if r < 0x10000 then
        [char_of (0xE0 + r div 4096), char_of (0x80 + r div 64 mod 64), char_of (0x80 + r mod 64)]
      else [char_of (0xF0 + r div 262144), char_of (0x80 + r div 4096 mod 64),
            char_of (0x80 + r div 64 mod 64), char_of (0x80 + r mod 64)])"

definition string_of_runes :: "rune list \<Rightarrow> string" where
  "string_of_runes rs = concat (map encode_rune rs)"

definition utf16_of_rune :: "rune \<Rightarrow> nat list" where
  "utf16_of_rune r =
     (if r < 0x10000 then (if 0xD800 \<le> r \<and> r \<le> 0xDFFF then [rune_error] else [r])
      else if r \<le> 0x10FFFF
      then [0xD800 + (r - 0x10000) div 1024, 0xDC00 + (r - 0x10000) mod 1024]
      else [rune_error])"

definition utf16_units :: "rune list \<Rightarrow> nat list" where
  "utf16_units rs = concat (map utf16_of_rune rs)"

lemma runes_of_nil [simp]: "runes_of [] = []"
  by (simp add: runes_of.simps)

lemma utf8_valid_nil [simp]: "utf8_valid []"
  by (simp add: utf8_valid.simps)

definition is_ascii :: "string \<Rightarrow> bool" where
  "is_ascii s = list_all (\<lambda>c. byte_of c < 0x80) s"

lemma runes_of_Cons_ascii:
  "byte_of c < 0x80 \<Longrightarrow> runes_of (c # s) = byte_of c # runes_of s"
  by (subst runes_of.simps) (simp add: decode_rune_def rune_len_def Let_def)

lemma runes_of_ascii: "is_ascii s \<Longrightarrow> runes_of s = map byte_of s"
  by (induction s) (simp_all add: is_ascii_def runes_of_Cons_ascii)

lemma runes_of_eq_nil [simp]: "runes_of s = [] \<longleftrightarrow> s = []"
  by (subst runes_of.simps) simp

subsection \<open>Valid UTF-8 is a concatenation of complete runes\<close>

lemma full_rune_prefix:
  "full_rune s = Some r \<Longrightarrow> full_rune (s @ t) = Some r"
  by (cases s) (auto simp: Let_def split: if_splits list.splits)

lemma utf8_valid_append:
  "utf8_valid s \<Longrightarrow> utf8_valid (s @ t) = utf8_valid t"
proof (induction s rule: utf8_valid.induct)
  case (1 s)
  show ?case
  proof (cases "s = []")
    case False
    let ?k = "rune_len (byte_of (hd s))"
    from False "1.prems" obtain r where r: "full_rune s = Some r"
      and v: "utf8_valid (drop ?k s)"
      by (auto simp: utf8_valid.simps [of s] split: option.splits)
    have k: "?k \<le> length s" using r by (rule full_rune_len_le)
    have "utf8_valid (s @ t) = utf8_valid (drop ?k (s @ t))"
      using False full_rune_prefix [OF r, of t] by (subst utf8_valid.simps) simp
    also have "\<dots> = utf8_valid (drop ?k s @ t)" using k by simp
    also have "\<dots> = utf8_valid t" using "1.IH" False r v by simp
    finally show ?thesis .
  qed simp
qed

lemma runes_of_append:
  "utf8_valid s \<Longrightarrow> runes_of (s @ t) = runes_of s @ runes_of t"
proof (induction s rule: utf8_valid.induct)
  case (1 s)
  show ?case
  proof (cases "s = []")
    case False
    let ?k = "rune_len (byte_of (hd s))"
    from False "1.prems" obtain r where r: "full_rune s = Some r"
      and v: "utf8_valid (drop ?k s)"
      by (auto simp: utf8_valid.simps [of s] split: option.splits)
    have k: "?k \<le> length s" using r by (rule full_rune_len_le)
    have d: "decode_rune s = (r, ?k)" "decode_rune (s @ t) = (r, ?k)"
      using False full_rune_prefix [OF r, of t] r by (simp_all add: decode_rune_def)
    have "runes_of (s @ t) = r # runes_of (drop ?k s @ t)"
      using False d k by (subst runes_of.simps) simp
    also have "\<dots> = r # runes_of (drop ?k s) @ runes_of t"
      using "1.IH" False r v by simp
    also have "\<dots> = runes_of s @ runes_of t"
      using False d by (subst (2) runes_of.simps) simp
    finally show ?thesis .
  qed simp
qed

end
