(* ===== verification/Deferred.thy ===== *)
theory Deferred
  imports Prelude
begin

text \<open>
  The deferred-unblock pattern that the permission manager, the question manager, the calls of the
  plugin bridge and the sign-ins share: a request is registered as pending, its asker blocks on a
  channel of capacity one, and a reply takes the request out of the pending map before it sends the
  result. The locale states the law every operation of such a manager keeps; its consequence is that
  a channel gets at most one result, so a send never blocks (the managers send while they hold their
  mutex or have just released it) and no request is answered twice.
\<close>

locale deferred =
  fixes step :: "'s \<Rightarrow> 's \<Rightarrow> bool"
    and waiting :: "'s \<Rightarrow> 'i \<Rightarrow> bool"
    and sends :: "'s \<Rightarrow> 'i \<Rightarrow> nat"
  assumes step_law: "step s t \<Longrightarrow>
      (sends t i = sends s i \<and> (waiting t i \<longrightarrow> waiting s i \<or> sends s i = 0))
      \<or> (waiting s i \<and> \<not> waiting t i \<and> sends t i = Suc (sends s i))"
begin

definition settled :: "'s \<Rightarrow> bool" where
  "settled s \<longleftrightarrow> (\<forall>i. sends s i \<le> 1 \<and> (waiting s i \<longrightarrow> sends s i = 0))"

lemma settled_step: "step s t \<Longrightarrow> settled s \<Longrightarrow> settled t"
  unfolding settled_def by (metis One_nat_def le_refl step_law le0)

lemma settled_reachable: "step\<^sup>*\<^sup>* s t \<Longrightarrow> settled s \<Longrightarrow> settled t"
  by (induction rule: rtranclp_induct) (auto intro: settled_step)

lemma sent_never_waits_again:
  assumes "step\<^sup>*\<^sup>* s t" "settled s" "1 \<le> sends s i"
  shows "\<not> waiting t i \<and> sends t i = 1"
proof -
  have "1 \<le> sends t i"
    using assms(1,3) by (induction rule: rtranclp_induct) (auto dest: step_law [of _ _ i])
  moreover have "settled t" using assms settled_reachable by blast
  ultimately show ?thesis by (auto simp: settled_def le_antisym)
qed

end

end
