(* ===== verification/Permission.thy ===== *)
theory Permission
  imports Utf8 Deferred
begin

text \<open>
  Tool permissions (\<^verbatim>\<open>internal/engine/permission\<close>): the wildcard matcher and the rule
  evaluator of \<^verbatim>\<open>permission.go\<close>, and the blocking ask/reply manager of \<^verbatim>\<open>manager.go\<close> as a
  machine whose steps are the sections the code runs under its mutex.
\<close>

subsection \<open>Rules and the wildcard matcher\<close>

text \<open>Actions are strings in the code; any other string falls to the \<^verbatim>\<open>default\<close> branches.\<close>

datatype perm_action = ActionAsk | ActionAllow | ActionDeny | ActionOther string

record rule =
  r_permission :: string
  r_pattern :: string
  r_action :: perm_action

type_synonym ruleset = "rule list"

datatype glob_tok = TStar | TAny | TLit rune

text \<open>
  \<open>compileWildcard\<close>: each rune of the pattern becomes \<^verbatim>\<open>.*\<close>, \<^verbatim>\<open>.\<close> or a quoted literal between
  \<^verbatim>\<open>^\<close> and \<^verbatim>\<open>$\<close>. Without the \<^verbatim>\<open>s\<close> flag, Go's \<^verbatim>\<open>.\<close> matches any rune but a newline.
\<close>

definition glob_token :: "rune \<Rightarrow> glob_tok" where
  "glob_token r = (if r = 42 then TStar else if r = 63 then TAny else TLit r)"

definition compileWildcard :: "string \<Rightarrow> glob_tok list" where
  "compileWildcard pat = map glob_token (runes_of pat)"

fun glob_match :: "glob_tok list \<Rightarrow> rune list \<Rightarrow> bool" where
  "glob_match [] v = (v = [])"
| "glob_match (TStar # ts) [] = glob_match ts []"
| "glob_match (TStar # ts) (c # cs) =
     (glob_match ts (c # cs) \<or> (c \<noteq> 10 \<and> glob_match (TStar # ts) cs))"
| "glob_match (TAny # ts) [] = False"
| "glob_match (TAny # ts) (c # cs) = (c \<noteq> 10 \<and> glob_match ts cs)"
| "glob_match (TLit r # ts) [] = False"
| "glob_match (TLit r # ts) (c # cs) = (c = r \<and> glob_match ts cs)"

definition wildcardMatch :: "string \<Rightarrow> string \<Rightarrow> bool" where
  "wildcardMatch v pat =
     (if pat = '''' then v = '''' else if pat = ''*'' then True
      else glob_match (compileWildcard pat) (runes_of v))"

definition rule_matches :: "string \<Rightarrow> string \<Rightarrow> rule \<Rightarrow> bool" where
  "rule_matches perm pat r = (wildcardMatch perm (r_permission r) \<and> wildcardMatch pat (r_pattern r))"

fun scan_rules :: "string \<Rightarrow> string \<Rightarrow> rule option \<Rightarrow> ruleset \<Rightarrow> rule option" where
  "scan_rules perm pat m [] = m"
| "scan_rules perm pat m (r # rs) =
     scan_rules perm pat (if rule_matches perm pat r then Some r else m) rs"

fun scan_rulesets :: "string \<Rightarrow> string \<Rightarrow> rule option \<Rightarrow> ruleset list \<Rightarrow> rule option" where
  "scan_rulesets perm pat m [] = m"
| "scan_rulesets perm pat m (rs # rss) = scan_rulesets perm pat (scan_rules perm pat m rs) rss"

definition Evaluate :: "string \<Rightarrow> string \<Rightarrow> ruleset list \<Rightarrow> rule" where
  "Evaluate perm pat rss =
     (case scan_rulesets perm pat None rss of
        None \<Rightarrow> \<lparr>r_permission = perm, r_pattern = pat, r_action = ActionAsk\<rparr>
      | Some r \<Rightarrow> r)"

subsection \<open>The manager\<close>

record ask_input =
  ai_session :: string
  ai_permission :: string
  ai_patterns :: "string list"
  ai_metadata :: jmap
  ai_always :: "string list"
  ai_rulesets :: "ruleset list"
  ai_tool :: string

record perm_request =
  pr_id :: string
  pr_session :: string
  pr_permission :: string
  pr_patterns :: "string list"
  pr_metadata :: jmap
  pr_always :: "string list"
  pr_tool :: string

record pending_perm =
  pp_info :: ask_input
  pp_req :: perm_request

datatype perm_result = Granted | Denied string

datatype perm_event = PermissionAsked perm_request
  | PermissionReplied string string string \<comment> \<open>session, request, reply\<close>

datatype ask_outcome = AskDone perm_result | AskBlocked string

text \<open>
  \<open>pm_sent\<close> lists the results sent on the requests' channels, in order; \<open>pm_events\<close> the events
  published, which stays empty when the manager has no bus.
\<close>

record perm_manager =
  pm_bus :: bool
  pm_pending :: "(string, pending_perm) gomap"
  pm_approved :: "(string, ruleset) gomap"
  pm_sent :: "(string \<times> perm_result) list"
  pm_events :: "perm_event list"

definition NewManager :: "bool \<Rightarrow> perm_manager" where
  "NewManager has_bus =
     \<lparr>pm_bus = has_bus, pm_pending = [], pm_approved = [], pm_sent = [], pm_events = []\<rparr>"

definition approved_for :: "perm_manager \<Rightarrow> string \<Rightarrow> ruleset" where
  "approved_for m sid = (case gm_get (pm_approved m) sid of None \<Rightarrow> [] | Some rs \<Rightarrow> rs)"

definition rulesetsFor :: "perm_manager \<Rightarrow> ask_input \<Rightarrow> ruleset list" where
  "rulesetsFor m inp =
     (let approved = approved_for m (ai_session inp)
      in if approved \<noteq> [] then ai_rulesets inp @ [approved] else ai_rulesets inp)"

definition pm_publish :: "perm_event \<Rightarrow> perm_manager \<Rightarrow> perm_manager" where
  "pm_publish e m = (if pm_bus m then m\<lparr>pm_events := pm_events m @ [e]\<rparr> else m)"

definition publishReplied :: "string \<Rightarrow> string \<Rightarrow> string \<Rightarrow> perm_manager \<Rightarrow> perm_manager" where
  "publishReplied rid sid reply m = pm_publish (PermissionReplied sid rid reply) m"

definition pm_send :: "string \<Rightarrow> perm_result \<Rightarrow> perm_manager \<Rightarrow> perm_manager" where
  "pm_send rid r m = m\<lparr>pm_sent := pm_sent m @ [(rid, r)]\<rparr>"

definition pm_forget :: "string \<Rightarrow> perm_manager \<Rightarrow> perm_manager" where
  "pm_forget rid m = m\<lparr>pm_pending := gm_del rid (pm_pending m)\<rparr>"

text \<open>The loop of \<open>Ask\<close> over the patterns: \<open>None\<close> is the early return on a deny.\<close>

fun check_patterns :: "string \<Rightarrow> ruleset list \<Rightarrow> string list \<Rightarrow> bool \<Rightarrow> bool option" where
  "check_patterns perm rss [] allAllowed = Some allAllowed"
| "check_patterns perm rss (p # ps) allAllowed =
     (case r_action (Evaluate perm p rss) of
        ActionDeny \<Rightarrow> None
      | ActionAllow \<Rightarrow> check_patterns perm rss ps allAllowed
      | _ \<Rightarrow> check_patterns perm rss ps False)"

definition new_pending :: "string \<Rightarrow> ask_input \<Rightarrow> pending_perm" where
  "new_pending rid inp =
     \<lparr>pp_info = inp,
      pp_req = \<lparr>pr_id = rid, pr_session = ai_session inp, pr_permission = ai_permission inp,
        pr_patterns = ai_patterns inp, pr_metadata = ai_metadata inp, pr_always = ai_always inp,
        pr_tool = ai_tool inp\<rparr>\<rparr>"

text \<open>\<open>Ask\<close> up to the point where it returns or blocks; \<open>rid\<close> is the fresh request id.\<close>

definition Ask :: "string \<Rightarrow> ask_input \<Rightarrow> perm_manager \<Rightarrow> ask_outcome \<times> perm_manager" where
  "Ask rid inp m =
     (case check_patterns (ai_permission inp) (rulesetsFor m inp) (ai_patterns inp) True of
        None \<Rightarrow> (AskDone (Denied (ai_permission inp)), m)
      | Some allAllowed \<Rightarrow>
          if allAllowed \<and> ai_patterns inp \<noteq> [] then (AskDone Granted, m)
          else
            (let p = new_pending rid inp;
                 m' = m\<lparr>pm_pending := gm_put rid p (pm_pending m)\<rparr>
             in (AskBlocked rid, pm_publish (PermissionAsked (pp_req p)) m')))"

text \<open>The two ways a blocked \<open>Ask\<close> resumes: cancellation, or the result on its channel.\<close>

definition ask_cancel :: "string \<Rightarrow> perm_manager \<Rightarrow> perm_manager" where
  "ask_cancel rid m = pm_forget rid m"

definition ask_result :: "string \<Rightarrow> perm_manager \<Rightarrow> perm_result option" where
  "ask_result rid m = map_of (pm_sent m) rid"

fun cascade_reject :: "string \<Rightarrow> string list \<Rightarrow> perm_manager \<Rightarrow> perm_manager" where
  "cascade_reject sid [] m = m"
| "cascade_reject sid (rid # rids) m =
     (case gm_get (pm_pending m) rid of
        Some other \<Rightarrow>
          if ai_session (pp_info other) = sid
          then cascade_reject sid rids
                 (publishReplied (pr_id (pp_req other)) sid ''reject''
                   (pm_send rid (Denied (ai_permission (pp_info other))) (pm_forget rid m)))
          else cascade_reject sid rids m
      | None \<Rightarrow> cascade_reject sid rids m)"

definition now_allowed :: "perm_manager \<Rightarrow> pending_perm \<Rightarrow> bool" where
  "now_allowed m p =
     (let rss = rulesetsFor m (pp_info p)
      in list_all (\<lambda>pat. r_action (Evaluate (ai_permission (pp_info p)) pat rss) = ActionAllow)
           (ai_patterns (pp_info p)))"

fun unblockNowAllowed :: "string \<Rightarrow> string list \<Rightarrow> perm_manager \<Rightarrow> perm_manager" where
  "unblockNowAllowed sid [] m = m"
| "unblockNowAllowed sid (rid # rids) m =
     (case gm_get (pm_pending m) rid of
        Some other \<Rightarrow>
          if ai_session (pp_info other) \<noteq> sid \<or> ai_patterns (pp_info other) = []
          then unblockNowAllowed sid rids m
          else if now_allowed m other
          then unblockNowAllowed sid rids
                 (publishReplied (pr_id (pp_req other)) sid ''always''
                   (pm_send rid Granted (pm_forget rid m)))
          else unblockNowAllowed sid rids m
      | None \<Rightarrow> unblockNowAllowed sid rids m)"

definition grant_rules :: "ask_input \<Rightarrow> ruleset" where
  "grant_rules inp =
     map (\<lambda>pat. \<lparr>r_permission = ai_permission inp, r_pattern = pat, r_action = ActionAllow\<rparr>)
       (ai_always inp)"

definition add_approved :: "string \<Rightarrow> ruleset \<Rightarrow> perm_manager \<Rightarrow> perm_manager" where
  "add_approved sid rs m =
     (if rs = [] then m
      else m\<lparr>pm_approved := gm_put sid (approved_for m sid @ rs) (pm_approved m)\<rparr>)"

definition Reply ::
  "(string list \<Rightarrow> string list) \<Rightarrow> string \<Rightarrow> string \<Rightarrow> perm_manager \<Rightarrow> (string + unit) \<times> perm_manager"
where
  "Reply ord rid reply m =
     (case gm_get (pm_pending m) rid of
        None \<Rightarrow> (Inl ''unknown permission Request'', m)
      | Some p \<Rightarrow>
          let m1 = pm_forget rid m;
              sid = ai_session (pp_info p);
              m2 = (if reply = ''reject'' then
                      (let mr = pm_send rid (Denied (ai_permission (pp_info p))) m1
                       in cascade_reject sid (ord (gm_keys (pm_pending mr))) mr)
                    else if reply = ''always'' then
                      (let ma = pm_send rid Granted (add_approved sid (grant_rules (pp_info p)) m1)
                       in unblockNowAllowed sid (ord (gm_keys (pm_pending ma))) ma)
                    else pm_send rid Granted m1)
          in (Inr (), publishReplied rid sid reply m2))"

definition perm_List :: "(string list \<Rightarrow> string list) \<Rightarrow> perm_manager \<Rightarrow> perm_request list" where
  "perm_List ord m =
     List.map_filter (\<lambda>rid. map_option pp_req (gm_get (pm_pending m) rid))
       (ord (gm_keys (pm_pending m)))"

definition AskPermission ::
  "string \<Rightarrow> string \<Rightarrow> string \<Rightarrow> string list \<Rightarrow> jmap \<Rightarrow> perm_manager \<Rightarrow> ask_outcome \<times> perm_manager"
where
  "AskPermission rid sid perm pats meta m =
     Ask rid \<lparr>ai_session = sid, ai_permission = perm, ai_patterns = pats, ai_metadata = meta,
              ai_always = pats, ai_rulesets = [], ai_tool = ''''\<rparr> m"

subsection \<open>The matcher against its language\<close>

text \<open>The words a token stands for, as the regular expression of \<open>compileWildcard\<close> reads it.\<close>

fun tok_word :: "glob_tok \<Rightarrow> rune list \<Rightarrow> bool" where
  "tok_word TStar w = (10 \<notin> set w)"
| "tok_word TAny w = (length w = 1 \<and> hd w \<noteq> 10)"
| "tok_word (TLit r) w = (w = [r])"

definition glob_language :: "glob_tok list \<Rightarrow> rune list \<Rightarrow> bool" where
  "glob_language ts v \<longleftrightarrow> (\<exists>ws. v = concat ws \<and> list_all2 tok_word ts ws)"

lemma glob_language_Nil [simp]: "glob_language [] v \<longleftrightarrow> v = []"
  by (auto simp: glob_language_def)

lemma glob_language_Cons:
  "glob_language (t # ts) v \<longleftrightarrow> (\<exists>w u. v = w @ u \<and> tok_word t w \<and> glob_language ts u)"
proof
  assume "glob_language (t # ts) v"
  then obtain w ws where "v = w @ concat ws" "tok_word t w" "list_all2 tok_word ts ws"
    by (auto simp: glob_language_def list_all2_Cons1)
  then show "\<exists>w u. v = w @ u \<and> tok_word t w \<and> glob_language ts u"
    unfolding glob_language_def by blast
next
  assume "\<exists>w u. v = w @ u \<and> tok_word t w \<and> glob_language ts u"
  then obtain w ws where "v = concat (w # ws)" "list_all2 tok_word (t # ts) (w # ws)"
    by (auto simp: glob_language_def)
  then show "glob_language (t # ts) v" unfolding glob_language_def by blast
qed

lemma glob_any: "glob_language (TAny # ts) v \<longleftrightarrow> (\<exists>c u. v = c # u \<and> c \<noteq> 10 \<and> glob_language ts u)"
  unfolding glob_language_Cons by (auto simp: length_Suc_conv) (metis append_Cons append_Nil length_Cons list.sel(1) list.size(3))

lemma glob_lit: "glob_language (TLit r # ts) v \<longleftrightarrow> (\<exists>u. v = r # u \<and> glob_language ts u)"
  unfolding glob_language_Cons by auto

lemma glob_star_Nil: "glob_language (TStar # ts) [] \<longleftrightarrow> glob_language ts []"
  unfolding glob_language_Cons by auto

lemma glob_star_Cons:
  "glob_language (TStar # ts) (c # cs) \<longleftrightarrow>
     glob_language ts (c # cs) \<or> (c \<noteq> 10 \<and> glob_language (TStar # ts) cs)"
proof
  assume "glob_language (TStar # ts) (c # cs)"
  then obtain w u where w: "c # cs = w @ u" "10 \<notin> set w" "glob_language ts u"
    unfolding glob_language_Cons by auto
  then show "glob_language ts (c # cs) \<or> (c \<noteq> 10 \<and> glob_language (TStar # ts) cs)"
    unfolding glob_language_Cons by (cases w) auto
next
  assume "glob_language ts (c # cs) \<or> (c \<noteq> 10 \<and> glob_language (TStar # ts) cs)"
  then show "glob_language (TStar # ts) (c # cs)"
  proof
    assume "glob_language ts (c # cs)"
    then show ?thesis unfolding glob_language_Cons by force
  next
    assume "c \<noteq> 10 \<and> glob_language (TStar # ts) cs"
    then obtain w u where "cs = w @ u" "10 \<notin> set (c # w)" "glob_language ts u"
      unfolding glob_language_Cons by auto
    then have "c # cs = (c # w) @ u \<and> tok_word TStar (c # w) \<and> glob_language ts u" by simp
    then show ?thesis unfolding glob_language_Cons by blast
  qed
qed

lemma glob_match_language: "glob_match ts v \<longleftrightarrow> glob_language ts v"
  by (induction ts v rule: glob_match.induct)
    (simp_all add: glob_star_Cons glob_star_Nil glob_any glob_lit)

lemma glob_language_newline:
  "glob_language ts v \<Longrightarrow> TLit 10 \<notin> set ts \<Longrightarrow> 10 \<notin> set v"
proof (induction ts arbitrary: v)
  case (Cons t ts)
  then show ?case by (cases t) (auto simp: glob_any glob_lit glob_language_Cons [of TStar])
qed simp

lemma glob_match_self: "glob_match (map glob_token rs) rs"
proof (induction rs)
  case (Cons r rs)
  have "glob_match (TStar # ts) v" if "glob_match ts v" for ts v
    using that by (cases v) auto
  with Cons show ?case by (simp add: glob_token_def)
qed simp

lemma wildcardMatch_self: "wildcardMatch p p"
  by (simp add: wildcardMatch_def compileWildcard_def glob_match_self)


text \<open>
  A value with a newline matches no pattern without one, \<^verbatim>\<open>*\<close> alone excepted: a star inside
  a longer pattern stops at a line break, so a rule such as \<^verbatim>\<open>rm *\<close> does not see a command of
  several lines.
\<close>

theorem wildcard_stops_at_newline:
  assumes "10 \<in> set (runes_of v)" "10 \<notin> set (runes_of pat)" "pat \<noteq> ''*''"
  shows "\<not> wildcardMatch v pat"
proof -
  have "TLit 10 \<notin> set (compileWildcard pat)"
    using assms(2) by (auto simp: compileWildcard_def glob_token_def split: if_splits)
  then show ?thesis
    using assms(1,3) glob_language_newline
    by (auto simp: wildcardMatch_def glob_match_language)
qed

theorem wildcard_stops_at_newline_witness:
  "\<not> wildcardMatch (''rm -rf /'' @ [CHR 0x0A] @ ''true'') ''rm *''"
  by (rule wildcard_stops_at_newline) (simp_all add: runes_of_ascii is_ascii_def)

subsection \<open>Evaluation\<close>

lemma scan_rules_last:
  "scan_rules perm pat m rs =
     (let ms = filter (rule_matches perm pat) rs in if ms = [] then m else Some (last ms))"
  by (induction rs arbitrary: m) (auto simp: Let_def)

lemma scan_rulesets_concat: "scan_rulesets perm pat m rss = scan_rules perm pat m (concat rss)"
proof -
  have "scan_rules perm pat m (rs @ rs') = scan_rules perm pat (scan_rules perm pat m rs) rs'"
    for m rs rs' by (induction rs arbitrary: m) auto
  then show ?thesis by (induction rss arbitrary: m) auto
qed

lemma Evaluate_last:
  "Evaluate perm pat rss =
     (let ms = filter (rule_matches perm pat) (concat rss)
      in if ms = [] then \<lparr>r_permission = perm, r_pattern = pat, r_action = ActionAsk\<rparr> else last ms)"
  by (simp add: Evaluate_def scan_rulesets_concat scan_rules_last Let_def)

text \<open>
  \<^verbatim>\<open>Evaluate\<close> returns the last rule, over all rulesets in order, whose permission and
  pattern match, and an \<^verbatim>\<open>ask\<close> rule for the queried pair when none does.
\<close>

theorem evaluate_last_match:
  "Evaluate perm pat rss =
     (let ms = filter (rule_matches perm pat) (concat rss)
      in if ms = [] then \<lparr>r_permission = perm, r_pattern = pat, r_action = ActionAsk\<rparr> else last ms)"
  by (rule Evaluate_last)

lemma Evaluate_append_grant:
  assumes "rule_matches perm pat r" "r \<in> set rs" "\<forall>r' \<in> set rs. r_action r' = ActionAllow"
  shows "r_action (Evaluate perm pat (rss @ [rs])) = ActionAllow"
proof -
  let ?ms = "filter (rule_matches perm pat) rs"
  have "?ms \<noteq> []" using assms by (auto simp: filter_empty_conv)
  then have "last ?ms \<in> set ?ms" by (rule last_in_set)
  then have "r_action (last ?ms) = ActionAllow" using assms(3) by auto
  with \<open>?ms \<noteq> []\<close> show ?thesis by (simp add: Evaluate_last Let_def)
qed

subsection \<open>The manager as a machine\<close>

text \<open>
  Any interleaving of asks, replies and cancellations. The identifier supply never hands out an
  identifier twice (\<open>used\<close> lists those handed out); a reply may range over the pending map in any order.
\<close>

definition perm_used :: "perm_manager \<Rightarrow> string \<Rightarrow> bool" where
  "perm_used m rid = (gm_has (pm_pending m) rid \<or> rid \<in> fst ` set (pm_sent m))"

inductive perm_step :: "perm_manager \<Rightarrow> perm_manager \<Rightarrow> bool" where
  step_ask: "\<not> perm_used m rid \<Longrightarrow> perm_step m (snd (Ask rid inp m))"
| step_reply: "order_ok ord \<Longrightarrow> perm_step m (snd (Reply ord rid reply m))"
| step_cancel: "perm_step m (ask_cancel rid m)"

inductive_cases perm_stepE: "perm_step m m'"

definition perm_sends :: "perm_manager \<Rightarrow> string \<Rightarrow> nat" where
  "perm_sends m rid = length (filter (\<lambda>x. fst x = rid) (pm_sent m))"

definition perm_waits :: "perm_manager \<Rightarrow> string \<Rightarrow> bool" where
  "perm_waits m rid = gm_has (pm_pending m) rid"

lemma pm_publish_frame [simp, frame]:
  "pm_pending (pm_publish e m) = pm_pending m" "pm_sent (pm_publish e m) = pm_sent m"
  "pm_approved (pm_publish e m) = pm_approved m" "pm_bus (pm_publish e m) = pm_bus m"
  by (simp_all add: pm_publish_def)

lemma publishReplied_frame [simp, frame]:
  "pm_pending (publishReplied a b c m) = pm_pending m" "pm_sent (publishReplied a b c m) = pm_sent m"
  "pm_approved (publishReplied a b c m) = pm_approved m"
  by (simp_all add: publishReplied_def)

lemma pm_send_frame [simp, frame]:
  "pm_pending (pm_send rid r m) = pm_pending m" "pm_approved (pm_send rid r m) = pm_approved m"
  "pm_sent (pm_send rid r m) = pm_sent m @ [(rid, r)]"
  by (simp_all add: pm_send_def)

lemma pm_forget_frame [simp, frame]:
  "pm_approved (pm_forget rid m) = pm_approved m" "pm_sent (pm_forget rid m) = pm_sent m"
  "pm_pending (pm_forget rid m) = gm_del rid (pm_pending m)"
  by (simp_all add: pm_forget_def)

lemma add_approved_frame [simp, frame]:
  "pm_pending (add_approved sid rs m) = pm_pending m" "pm_sent (add_approved sid rs m) = pm_sent m"
  by (simp_all add: add_approved_def)

definition moves :: "perm_manager \<Rightarrow> perm_manager \<Rightarrow> bool" where
  \<comment> \<open>what a section under the mutex may do to each request: nothing, or take it out and send once\<close>
  "moves m m' \<longleftrightarrow> (\<forall>i. (perm_sends m' i = perm_sends m i \<and> (perm_waits m' i \<longrightarrow> perm_waits m i))
      \<or> (perm_waits m i \<and> \<not> perm_waits m' i \<and> perm_sends m' i = Suc (perm_sends m i)))"

lemma moves_refl [simp]: "moves m m"
  by (simp add: moves_def)

lemma moves_trans: "moves a b \<Longrightarrow> moves b c \<Longrightarrow> moves a c"
  unfolding moves_def by metis

lemma moves_settle:
  assumes "gm_get (pm_pending m) rid = Some p"
  shows "moves m (publishReplied a b c (pm_send rid r (pm_forget rid m)))"
    and "moves m (pm_send rid r (pm_forget rid m))"
    and "moves m (pm_send rid r (add_approved s rs (pm_forget rid m)))"
  using assms by (auto simp: moves_def perm_sends_def perm_waits_def gm_has_def)

lemma moves_publish: "moves m m' \<Longrightarrow> moves m (publishReplied a b c m')"
  by (simp add: moves_def perm_sends_def perm_waits_def)

lemma moves_cascade: "moves m (cascade_reject sid rids m)"
  by (induction sid rids m rule: cascade_reject.induct)
    (auto split: option.split intro: moves_trans [OF moves_settle(1)])

lemma moves_unblock: "moves m (unblockNowAllowed sid rids m)"
  by (induction sid rids m rule: unblockNowAllowed.induct)
    (auto split: option.split intro: moves_trans [OF moves_settle(1)])

lemma moves_Reply: "moves m (snd (Reply ord rid reply m))"
  by (auto simp: Reply_def Let_def split: option.split
      intro!: moves_publish intro: moves_trans [OF moves_settle(2) moves_cascade]
        moves_trans [OF moves_settle(3) moves_unblock] moves_settle(2))

lemma moves_cancel: "moves m (ask_cancel rid m)"
  by (auto simp: moves_def perm_sends_def perm_waits_def ask_cancel_def)

lemma Ask_effect:
  "perm_sends (snd (Ask rid inp m)) i = perm_sends m i"
  "perm_waits (snd (Ask rid inp m)) i \<Longrightarrow> i \<noteq> rid \<Longrightarrow> perm_waits m i"
  by (auto simp: Ask_def Let_def perm_sends_def perm_waits_def split: option.splits if_splits)

lemma perm_unused: "\<not> perm_used m rid \<Longrightarrow> perm_sends m rid = 0"
  by (auto simp: perm_used_def perm_sends_def filter_empty_conv)

interpretation pm: deferred perm_step perm_waits perm_sends
proof
  fix s t i
  assume "perm_step s t"
  then show "(perm_sends t i = perm_sends s i \<and> (perm_waits t i \<longrightarrow> perm_waits s i \<or> perm_sends s i = 0))
      \<or> (perm_waits s i \<and> \<not> perm_waits t i \<and> perm_sends t i = Suc (perm_sends s i))"
  proof cases
    case (step_ask rid inp)
    then show ?thesis using Ask_effect perm_unused by metis
  next
    case (step_reply ord rid reply)
    then show ?thesis using moves_Reply [of s ord rid reply] unfolding moves_def by blast
  next
    case (step_cancel rid)
    then show ?thesis using moves_cancel [of s rid] unfolding moves_def by blast
  qed
qed


definition demo_ask :: "string \<Rightarrow> string \<Rightarrow> ask_input" where
  "demo_ask sid cmd =
     \<lparr>ai_session = sid, ai_permission = ''bash'', ai_patterns = [cmd], ai_metadata = [],
      ai_always = [cmd], ai_rulesets = [], ai_tool = ''bash''\<rparr>"


subsection \<open>What an ask decides\<close>

definition pattern_action :: "perm_manager \<Rightarrow> ask_input \<Rightarrow> string \<Rightarrow> perm_action" where
  "pattern_action m inp pat = r_action (Evaluate (ai_permission inp) pat (rulesetsFor m inp))"

lemma check_patterns_spec:
  "check_patterns perm rss ps b =
     (if \<exists>p \<in> set ps. r_action (Evaluate perm p rss) = ActionDeny then None
      else Some (b \<and> (\<forall>p \<in> set ps. r_action (Evaluate perm p rss) = ActionAllow)))"
  by (induction ps arbitrary: b) (auto split: perm_action.splits)

text \<open>
  An ask is denied at once when some pattern evaluates to deny, granted at once when it has
  patterns and all evaluate to allow, and otherwise it blocks with exactly its request added to
  the pending map and announced; in the first two cases the manager is unchanged.
\<close>

theorem ask_decision:
  "Ask rid inp m =
     (if \<exists>p \<in> set (ai_patterns inp). pattern_action m inp p = ActionDeny
      then (AskDone (Denied (ai_permission inp)), m)
      else if ai_patterns inp \<noteq> [] \<and> list_all (\<lambda>p. pattern_action m inp p = ActionAllow) (ai_patterns inp)
      then (AskDone Granted, m)
      else (AskBlocked rid,
            pm_publish (PermissionAsked (pp_req (new_pending rid inp)))
              (m\<lparr>pm_pending := gm_put rid (new_pending rid inp) (pm_pending m)\<rparr>)))"
  by (auto simp: Ask_def check_patterns_spec pattern_action_def Let_def list_all_iff)

subsection \<open>What a reply does to the other requests of the session\<close>

lemma cascade_approved [simp]: "pm_approved (cascade_reject sid rids m) = pm_approved m"
  by (induction sid rids m rule: cascade_reject.induct) (auto split: option.split)

lemma unblock_approved [simp]: "pm_approved (unblockNowAllowed sid rids m) = pm_approved m"
  by (induction sid rids m rule: unblockNowAllowed.induct) (auto split: option.split)

lemma cascade_pending:
  "gm_get (pm_pending (cascade_reject sid rids m)) i =
     (case gm_get (pm_pending m) i of
        Some q \<Rightarrow> if i \<in> set rids \<and> ai_session (pp_info q) = sid then None else Some q
      | None \<Rightarrow> None)"
  by (induction sid rids m rule: cascade_reject.induct) (auto split: option.splits if_splits)

lemma cascade_sent_mono: "set (pm_sent m) \<subseteq> set (pm_sent (cascade_reject sid rids m))"
  by (induction sid rids m rule: cascade_reject.induct) (auto split: option.splits)

lemma cascade_sent:
  "gm_get (pm_pending m) i = Some q \<Longrightarrow> ai_session (pp_info q) = sid \<Longrightarrow> i \<in> set rids \<Longrightarrow>
     (i, Denied (ai_permission (pp_info q))) \<in> set (pm_sent (cascade_reject sid rids m))"
proof (induction sid rids m rule: cascade_reject.induct)
  case (2 sid rid rids m)
  show ?case
  proof (cases "i = rid")
    case True
    with "2.prems" show ?thesis
      using cascade_sent_mono [of "publishReplied (pr_id (pp_req q)) sid ''reject''
          (pm_send rid (Denied (ai_permission (pp_info q))) (pm_forget rid m))" sid rids]
      by auto
  next
    case False
    with 2 show ?thesis by (auto split: option.splits)
  qed
qed simp

text \<open>
  A reject fails the session as a whole: afterwards no request of that session is pending,
  each of them has received a denial for its own permission, and the requests of every other
  session are pending as before.
\<close>

theorem reject_cascades:
  assumes "order_ok ord" "gm_get (pm_pending m) rid = Some p" "ai_session (pp_info p) = sid"
    and "m' = snd (Reply ord rid ''reject'' m)"
  shows "gm_get (pm_pending m') i =
      (case gm_get (pm_pending m) i of
         Some q \<Rightarrow> if ai_session (pp_info q) = sid then None else Some q | None \<Rightarrow> None)
    \<and> (gm_get (pm_pending m) i = Some q \<longrightarrow> ai_session (pp_info q) = sid \<longrightarrow>
      (i, Denied (ai_permission (pp_info q))) \<in> set (pm_sent m'))"
proof -
  let ?mr = "pm_send rid (Denied (ai_permission (pp_info p))) (pm_forget rid m)"
  let ?ks = "ord (gm_keys (pm_pending ?mr))"
  have m': "m' = publishReplied rid sid ''reject'' (cascade_reject sid ?ks ?mr)"
    using assms(2-4) by (simp add: Reply_def Let_def)
  have ks: "set ?ks = dom (gm_get (pm_pending ?mr))"
    using order_ok_set [OF assms(1)] by (metis set_gm_keys)
  have "gm_get (pm_pending m') i =
      (case gm_get (pm_pending m) i of
         Some q \<Rightarrow> if ai_session (pp_info q) = sid then None else Some q | None \<Rightarrow> None)"
    unfolding m' publishReplied_frame cascade_pending ks
    using assms(2,3) by (auto split: option.splits)
  moreover have "(i, Denied (ai_permission (pp_info q))) \<in> set (pm_sent m')"
    if "gm_get (pm_pending m) i = Some q" "ai_session (pp_info q) = sid"
  proof (cases "i = rid")
    case True
    then show ?thesis
      unfolding m' publishReplied_frame
      using that assms(2) cascade_sent_mono [of ?mr sid ?ks] by auto
  next
    case False
    then show ?thesis
      unfolding m' publishReplied_frame
      using that ks by (intro cascade_sent) auto
  qed
  ultimately show ?thesis by blast
qed

theorem reject_cascades_witness:
  "let m = snd (Ask ''per_2'' (demo_ask ''s'' ''pwd'') (snd (Ask ''per_1'' (demo_ask ''s'' ''ls'') (NewManager True))));
       m' = snd (Reply rev ''per_1'' ''reject'' m)
   in gm_get (pm_pending m') ''per_2'' = None \<and> (''per_2'', Denied ''bash'') \<in> set (pm_sent m')"
proof -
  let ?m = "snd (Ask ''per_2'' (demo_ask ''s'' ''pwd'') (snd (Ask ''per_1'' (demo_ask ''s'' ''ls'') (NewManager True))))"
  have g: "gm_get (pm_pending ?m) ''per_1'' = Some (new_pending ''per_1'' (demo_ask ''s'' ''ls''))"
    "gm_get (pm_pending ?m) ''per_2'' = Some (new_pending ''per_2'' (demo_ask ''s'' ''pwd''))"
    by (simp_all add: Ask_def check_patterns_spec Evaluate_last demo_ask_def rulesetsFor_def
        approved_for_def NewManager_def pm_publish_def Let_def)
  have f: "ai_session (pp_info (new_pending i (demo_ask s c))) = s"
    "ai_permission (pp_info (new_pending i (demo_ask s c))) = ''bash''" for i s c
    by (simp_all add: new_pending_def demo_ask_def)
  show ?thesis
    using reject_cascades [OF order_ok_rev g(1) f(1) refl, of "''per_2''"
        "new_pending ''per_2'' (demo_ask ''s'' ''pwd'')"]
    by (simp add: g(2) f Let_def)
qed

lemma unblock_pending:
  "gm_get (pm_pending (unblockNowAllowed sid rids m)) i =
     (case gm_get (pm_pending m) i of
        Some q \<Rightarrow> if i \<in> set rids \<and> ai_session (pp_info q) = sid \<and> ai_patterns (pp_info q) \<noteq> []
                     \<and> now_allowed m q then None else Some q
      | None \<Rightarrow> None)"
proof (induction sid rids m rule: unblockNowAllowed.induct)
  case (2 sid rid rids m)
  have "now_allowed (publishReplied a b c (pm_send r x (pm_forget rid m))) q = now_allowed m q" for a b c r x q
    by (simp add: now_allowed_def rulesetsFor_def approved_for_def)
  with 2 show ?case by (auto split: option.splits if_splits)
qed (simp split: option.split)

lemma now_allowed_approved: "pm_approved m' = pm_approved m \<Longrightarrow> now_allowed m' q = now_allowed m q"
  by (simp add: now_allowed_def rulesetsFor_def approved_for_def)



end
