(* ===== verification/Questions.thy ===== *)
theory Questions
  imports Deferred
begin

text \<open>
  The blocking question manager (\<^verbatim>\<open>internal/engine/question/question.go\<close>), the same
  deferred-unblock pattern: \<open>Ask\<close> registers a request and blocks, \<open>Reply\<close> and \<open>Reject\<close>
  take it out and send its result, a cancelled context removes it.
\<close>

record q_option =
  qo_label :: string
  qo_description :: string

record q_info =
  qi_question :: string
  qi_header :: string
  qi_options :: "q_option list"
  qi_multiple :: bool
  qi_custom :: bool

record q_request =
  qr_id :: string
  qr_session :: string
  qr_questions :: "q_info list"

datatype q_error = ErrRejected | ErrUnknown

datatype q_event = QuestionAsked q_request
  | QuestionReplied string string "string list list" \<comment> \<open>session, request, answers\<close>
  | QuestionRejected string string

record q_manager =
  qm_bus :: bool
  qm_pending :: "(string, q_request) gomap"
  qm_sent :: "(string \<times> (q_error + string list list)) list"
  qm_events :: "q_event list"

definition q_NewManager :: "bool \<Rightarrow> q_manager" where
  "q_NewManager has_bus = \<lparr>qm_bus = has_bus, qm_pending = [], qm_sent = [], qm_events = []\<rparr>"

definition qm_publish :: "q_event \<Rightarrow> q_manager \<Rightarrow> q_manager" where
  "qm_publish e m = (if qm_bus m then m\<lparr>qm_events := qm_events m @ [e]\<rparr> else m)"

definition q_ask :: "string \<Rightarrow> string \<Rightarrow> q_info list \<Rightarrow> q_manager \<Rightarrow> q_manager" where
  \<comment> \<open>\<open>Ask\<close> up to the point where it blocks, with the fresh request id\<close>
  "q_ask qid sid qs m =
     (let req = \<lparr>qr_id = qid, qr_session = sid, qr_questions = qs\<rparr>
      in qm_publish (QuestionAsked req) (m\<lparr>qm_pending := gm_put qid req (qm_pending m)\<rparr>))"

definition q_remove :: "string \<Rightarrow> q_manager \<Rightarrow> q_manager" where
  "q_remove qid m = m\<lparr>qm_pending := gm_del qid (qm_pending m)\<rparr>"

definition q_result :: "string \<Rightarrow> q_manager \<Rightarrow> (q_error + string list list) option" where
  \<comment> \<open>what the blocked \<open>Ask\<close> receives\<close>
  "q_result qid m = map_of (qm_sent m) qid"

definition q_send :: "string \<Rightarrow> (q_error + string list list) \<Rightarrow> q_manager \<Rightarrow> q_manager" where
  "q_send qid r m = m\<lparr>qm_sent := qm_sent m @ [(qid, r)]\<rparr>"

definition q_Reply :: "string \<Rightarrow> string list list \<Rightarrow> q_manager \<Rightarrow> (q_error + unit) \<times> q_manager" where
  "q_Reply qid answers m =
     (case gm_get (qm_pending m) qid of
        None \<Rightarrow> (Inl ErrUnknown, m)
      | Some req \<Rightarrow>
          (Inr (), qm_publish (QuestionReplied (qr_session req) qid answers)
                     (q_send qid (Inr answers) (q_remove qid m))))"

definition q_Reject :: "string \<Rightarrow> q_manager \<Rightarrow> (q_error + unit) \<times> q_manager" where
  "q_Reject qid m =
     (case gm_get (qm_pending m) qid of
        None \<Rightarrow> (Inl ErrUnknown, m)
      | Some req \<Rightarrow>
          (Inr (), qm_publish (QuestionRejected (qr_session req) qid)
                     (q_send qid (Inl ErrRejected) (q_remove qid m))))"

definition q_List :: "(string list \<Rightarrow> string list) \<Rightarrow> q_manager \<Rightarrow> q_request list" where
  "q_List ord m =
     List.map_filter (\<lambda>qid. gm_get (qm_pending m) qid) (ord (gm_keys (qm_pending m)))"

definition q_used :: "q_manager \<Rightarrow> string \<Rightarrow> bool" where
  "q_used m qid = (gm_has (qm_pending m) qid \<or> qid \<in> fst ` set (qm_sent m))"

inductive q_step :: "q_manager \<Rightarrow> q_manager \<Rightarrow> bool" where
  q_step_ask: "\<not> q_used m qid \<Longrightarrow> q_step m (q_ask qid sid qs m)"
| q_step_reply: "q_step m (snd (q_Reply qid answers m))"
| q_step_reject: "q_step m (snd (q_Reject qid m))"
| q_step_cancel: "q_step m (q_remove qid m)"

inductive_cases q_stepE: "q_step m m'"

definition q_sends :: "q_manager \<Rightarrow> string \<Rightarrow> nat" where
  "q_sends m qid = length (filter (\<lambda>x. fst x = qid) (qm_sent m))"

definition q_waits :: "q_manager \<Rightarrow> string \<Rightarrow> bool" where
  "q_waits m qid = gm_has (qm_pending m) qid"

lemma qm_publish_frame [simp, frame]:
  "qm_pending (qm_publish e m) = qm_pending m" "qm_sent (qm_publish e m) = qm_sent m"
  by (simp_all add: qm_publish_def)

lemma q_unused: "\<not> q_used m qid \<Longrightarrow> q_sends m qid = 0"
  by (auto simp: q_used_def q_sends_def filter_empty_conv)

lemmas q_op_defs = q_ask_def q_Reply_def q_Reject_def q_remove_def q_send_def q_sends_def q_waits_def

interpretation qm: deferred q_step q_waits q_sends
proof
  fix s t i
  assume "q_step s t"
  then show "(q_sends t i = q_sends s i \<and> (q_waits t i \<longrightarrow> q_waits s i \<or> q_sends s i = 0))
      \<or> (q_waits s i \<and> \<not> q_waits t i \<and> q_sends t i = Suc (q_sends s i))"
  proof cases
    case (q_step_ask qid sid qs)
    then show ?thesis using q_unused [of s qid] by (auto simp: q_op_defs Let_def)
  qed (auto simp: q_op_defs gm_has_def split: option.splits)
qed

text \<open>
  In every reachable state of the question manager each question has received at most one
  result, none while it is pending; and a reply or a reject in such a state either reports an
  unknown id and changes nothing, or delivers exactly its result to a question that had none
  and makes the id unknown to every later reply.
\<close>

theorem question_answered_once:
  assumes "q_step\<^sup>*\<^sup>* (q_NewManager has_bus) m" "q_Reply qid answers m = (r, m')"
  shows "q_sends m qid \<le> 1
    \<and> (if q_waits m qid
       then r = Inr () \<and> q_result qid m = None \<and> q_result qid m' = Some (Inr answers)
            \<and> fst (q_Reply qid answers' m') = Inl ErrUnknown \<and> fst (q_Reject qid m') = Inl ErrUnknown
       else r = Inl ErrUnknown \<and> m' = m)"
proof -
  have "qm.settled (q_NewManager has_bus)"
    by (simp add: qm.settled_def q_sends_def q_waits_def q_NewManager_def gm_has_def)
  with assms(1) have s: "qm.settled m" by (rule qm.settled_reachable)
  then have 1: "q_sends m qid \<le> 1" by (simp add: qm.settled_def)
  have none: "q_result qid m = None" if "q_waits m qid"
    using s that by (auto simp: qm.settled_def q_result_def q_sends_def map_of_eq_None_iff filter_empty_conv)
  show ?thesis
  proof (cases "q_waits m qid")
    case True
    with assms(2) none [OF True] show ?thesis
      using 1 by (auto simp: q_op_defs q_result_def gm_has_def map_add_def)
  next
    case False
    with assms(2) 1 show ?thesis by (auto simp: q_Reply_def q_waits_def gm_has_def)
  qed
qed

theorem question_answered_once_witness:
  "let m = q_ask ''que_1'' ''s'' [] (q_NewManager True); (r, m') = q_Reply ''que_1'' [[''Yes'']] m
   in q_sends m ''que_1'' \<le> 1 \<and> r = Inr () \<and> q_result ''que_1'' m' = Some (Inr [[''Yes'']])"
proof -
  let ?m = "q_ask ''que_1'' ''s'' [] (q_NewManager True)"
  have "q_step (q_NewManager True) ?m"
    by (rule q_step_ask) (simp add: q_used_def q_NewManager_def gm_has_def)
  then have reach: "q_step\<^sup>*\<^sup>* (q_NewManager True) ?m" by blast
  have w: "q_waits ?m ''que_1''" by (simp add: q_waits_def q_ask_def Let_def)
  obtain r m' where r: "q_Reply ''que_1'' [[''Yes'']] ?m = (r, m')"
    by (cases "q_Reply ''que_1'' [[''Yes'']] ?m")
  show ?thesis using question_answered_once [OF reach r] w r by simp
qed

end
