(* ===== verification/Messages.thy ===== *)
theory Messages
  imports Llm Utf8 "HOL-Library.Multiset"
begin

text \<open>
  Stored messages and parts (\<^verbatim>\<open>internal/engine/message\<close>: \<^verbatim>\<open>message.go\<close>, \<^verbatim>\<open>parts.go\<close>,
  \<^verbatim>\<open>helpers.go\<close>, \<^verbatim>\<open>clone.go\<close>) and the reordering of a compacted history (\<^verbatim>\<open>compaction.go\<close>).
  A nil Go map is \<open>None\<close>; a tool state, raw JSON in the code, is its decoded variant.
\<close>

subsection \<open>Parts\<close>

record part_base =
  pb_id :: string
  pb_session :: string
  pb_message :: string

record part_time =
  pt_start :: int
  pt_end :: "int option"

record text_part =
  tp_base :: part_base
  tp_text :: string
  tp_synthetic :: bool
  tp_ignored :: bool
  tp_time :: "part_time option"
  tp_meta :: "jmap option"

record reasoning_part =
  rp_base :: part_base
  rp_text :: string
  rp_time :: part_time
  rp_meta :: "jmap option"

record file_part =
  fp_base :: part_base
  fp_mime :: string
  fp_filename :: string
  fp_url :: string
  fp_source :: "json option"

record st_pending =
  sp_input :: "jmap option"
  sp_raw :: string

record st_running =
  sr_input :: "jmap option"
  sr_title :: string
  sr_meta :: "jmap option"
  sr_start :: int

record st_completed =
  sc_input :: "jmap option"
  sc_output :: string
  sc_title :: string
  sc_meta :: "jmap option"
  sc_start :: int
  sc_end :: int
  sc_compacted :: "int option"
  sc_attachments :: "file_part list"

record st_error =
  se_input :: "jmap option"
  se_error :: string
  se_meta :: "jmap option"
  se_start :: int
  se_end :: int

text \<open>
  \<open>TsOther\<close> is a stored state with any other status text; decoding it as a pending state
  yields its input.
\<close>

datatype tool_state = TsPending st_pending | TsRunning st_running | TsCompleted st_completed
  | TsError st_error | TsOther string "jmap option"

definition status_of :: "tool_state \<Rightarrow> string" where
  "status_of st =
     (case st of TsPending _ \<Rightarrow> ''pending'' | TsRunning _ \<Rightarrow> ''running''
      | TsCompleted _ \<Rightarrow> ''completed'' | TsError _ \<Rightarrow> ''error'' | TsOther s _ \<Rightarrow> s)"

record tool_part =
  tl_base :: part_base
  tl_call :: string
  tl_tool :: string
  tl_state :: tool_state
  tl_meta :: "jmap option"

record token_counts =
  tc_total :: "f64 option"
  tc_input :: f64
  tc_output :: f64
  tc_reasoning :: f64
  tc_cache_read :: f64
  tc_cache_write :: f64

definition zero_tokens :: token_counts where
  "zero_tokens = \<lparr>tc_total = None, tc_input = 0, tc_output = 0, tc_reasoning = 0,
     tc_cache_read = 0, tc_cache_write = 0\<rparr>"

record step_finish_part =
  sf_base :: part_base
  sf_reason :: string
  sf_cost :: f64
  sf_tokens :: token_counts

record compaction_part =
  cp_base :: part_base
  cp_auto :: bool
  cp_overflow :: bool
  cp_tail_start :: string

record subtask_part =
  sb_base :: part_base
  sb_prompt :: string
  sb_description :: string
  sb_agent :: string
  sb_command :: string

datatype part = PText text_part | PReasoning reasoning_part | PFile file_part | PTool tool_part
  | PStepStart part_base string | PStepFinish step_finish_part | PPatch part_base string "string list"
  | PCompaction compaction_part | PSubtask subtask_part | PRaw part_base string json

fun part_type :: "part \<Rightarrow> string" where
  "part_type (PText _) = ''text''"
| "part_type (PReasoning _) = ''reasoning''"
| "part_type (PFile _) = ''file''"
| "part_type (PTool _) = ''tool''"
| "part_type (PStepStart _ _) = ''step-start''"
| "part_type (PStepFinish _) = ''step-finish''"
| "part_type (PPatch _ _ _) = ''patch''"
| "part_type (PCompaction _) = ''compaction''"
| "part_type (PSubtask _) = ''subtask''"
| "part_type (PRaw _ t _) = t"

fun base_of :: "part \<Rightarrow> part_base" where
  "base_of (PText p) = tp_base p"
| "base_of (PReasoning p) = rp_base p"
| "base_of (PFile p) = fp_base p"
| "base_of (PTool p) = tl_base p"
| "base_of (PStepStart b _) = b"
| "base_of (PStepFinish p) = sf_base p"
| "base_of (PPatch b _ _) = b"
| "base_of (PCompaction p) = cp_base p"
| "base_of (PSubtask p) = sb_base p"
| "base_of (PRaw b _ _) = b"

definition part_id :: "part \<Rightarrow> string" where
  "part_id p = pb_id (base_of p)"

subsection \<open>Messages\<close>

record model_ref =
  md_provider :: string
  md_model :: string
  md_variant :: string

record output_format =
  of_type :: string
  of_schema :: jmap
  of_retry :: "int option"

record user_message =
  um_id :: string
  um_session :: string
  um_created :: int
  um_format :: "output_format option"
  um_agent :: string
  um_model :: model_ref
  um_system :: string
  um_tools :: "(string, bool) gomap"

record msg_error =
  er_name :: string
  er_data :: jmap

record assistant_message =
  am_id :: string
  am_session :: string
  am_parent :: string
  am_model :: string
  am_provider :: string
  am_mode :: string
  am_agent :: string
  am_cwd :: string
  am_root :: string
  am_summary :: bool
  am_cost :: f64
  am_tokens :: token_counts
  am_structured :: "json option"
  am_finish :: string
  am_error :: "msg_error option"
  am_created :: int
  am_completed :: "int option"

text \<open>\<open>Info\<close> holds one of two pointers; \<open>INone\<close> is the zero value with neither set.\<close>

datatype info = IUser user_message | IAssistant assistant_message | INone

definition is_user :: "info \<Rightarrow> bool" where
  "is_user i = (case i of IUser _ \<Rightarrow> True | _ \<Rightarrow> False)"

definition user_of :: "info \<Rightarrow> user_message option" where
  "user_of i = (case i of IUser u \<Rightarrow> Some u | _ \<Rightarrow> None)"

definition assistant_of :: "info \<Rightarrow> assistant_message option" where
  "assistant_of i = (case i of IAssistant a \<Rightarrow> Some a | _ \<Rightarrow> None)"

definition info_id :: "info \<Rightarrow> string" where
  "info_id i = (case i of IUser u \<Rightarrow> um_id u | IAssistant a \<Rightarrow> am_id a | INone \<Rightarrow> '''')"

definition info_role :: "info \<Rightarrow> string" where
  "info_role i = (case i of IUser _ \<Rightarrow> ''user'' | _ \<Rightarrow> ''assistant'')"

record with_parts =
  wp_info :: info
  wp_parts :: "part list"

definition wp_id :: "with_parts \<Rightarrow> string" where
  "wp_id m = info_id (wp_info m)"

subsection \<open>Helpers\<close>

definition isMedia :: "string \<Rightarrow> bool" where
  "isMedia mime = (has_prefix mime ''image/'' \<or> mime = ''application/pdf'')"

definition fileName :: "string \<Rightarrow> string" where
  "fileName name = (if name = '''' then ''file'' else name)"

definition hasNonSpace :: "string \<Rightarrow> bool" where
  "hasNonSpace s = (trim_space s \<noteq> '''')"

text \<open>A missing key and a JSON null both read as nil.\<close>

definition json_field :: "jmap option \<Rightarrow> string \<Rightarrow> json" where
  "json_field m k =
     (case m of None \<Rightarrow> JNull | Some kvs \<Rightarrow> (case gm_get kvs k of None \<Rightarrow> JNull | Some v \<Rightarrow> v))"

definition signature :: "jmap option \<Rightarrow> json" where
  "signature meta =
     (case json_field meta ''anthropic'' of JObj kvs \<Rightarrow> json_field (Some kvs) ''signature'' | _ \<Rightarrow> JNull)"

definition providerMeta :: "jmap option \<Rightarrow> jmap option" where
  "providerMeta meta =
     (case meta of None \<Rightarrow> None
      | Some kvs \<Rightarrow>
          (let rest = filter (\<lambda>(k, v). k \<noteq> ''providerExecuted'') kvs
           in if rest = [] then None else Some rest))"

definition truncateToolOutput :: "string \<Rightarrow> nat \<Rightarrow> string" where
  "truncateToolOutput text maxChars =
     (if maxChars = 0 then text
      else
        (let r = runes_of text in
         if length r \<le> maxChars then text
         else string_of_runes (take maxChars r)
              @ [CHR 0x0A] @ ''[Tool output truncated for compaction: omitted ''
              @ itoa (length r - maxChars) @ '' chars]''))"

subsection \<open>Compacted history\<close>

fun findCompaction :: "part list \<Rightarrow> compaction_part option" where
  "findCompaction [] = None"
| "findCompaction (PCompaction c # ps) = Some c"
| "findCompaction (p # ps) = findCompaction ps"

fun findCompactionWithTail :: "part list \<Rightarrow> compaction_part option" where
  "findCompactionWithTail [] = None"
| "findCompactionWithTail (PCompaction c # ps) =
     (if cp_tail_start c \<noteq> '''' then Some c else findCompactionWithTail ps)"
| "findCompactionWithTail (p # ps) = findCompactionWithTail ps"

definition completes :: "with_parts \<Rightarrow> string option" where
  \<comment> \<open>the user message a finished, error-free summary closes\<close>
  "completes m =
     (case wp_info m of
        IAssistant a \<Rightarrow>
          if am_summary a \<and> am_finish a \<noteq> '''' \<and> am_error a = None then Some (am_parent a) else None
      | _ \<Rightarrow> None)"

text \<open>
  The scanning loop over the newest-first list: it returns the messages it appended. The
  arguments are the completed parents and the id of the retained tail's start, if known.
\<close>

fun scan_compacted :: "string list \<Rightarrow> string option \<Rightarrow> with_parts list \<Rightarrow> with_parts list" where
  "scan_compacted completed retain [] = []"
| "scan_compacted completed (Some r) (m # ms) =
     m # (if wp_id m = r then [] else scan_compacted completed (Some r) ms)"
| "scan_compacted completed None (m # ms) =
     m # (if is_user (wp_info m) \<and> wp_id m \<in> set completed
          then (case findCompaction (wp_parts m) of
                  None \<Rightarrow> scan_compacted completed None ms
                | Some c \<Rightarrow>
                    if cp_tail_start c = '''' then []
                    else if wp_id m = cp_tail_start c then []
                    else scan_compacted completed (Some (cp_tail_start c)) ms)
          else (case completes m of
                  Some p \<Rightarrow> scan_compacted (p # completed) None ms
                | None \<Rightarrow> scan_compacted completed None ms))"

fun findIndex :: "('a \<Rightarrow> nat \<Rightarrow> bool) \<Rightarrow> nat \<Rightarrow> 'a list \<Rightarrow> nat option" where
  "findIndex p i [] = None"
| "findIndex p i (x # xs) = (if p x i then Some i else findIndex p (Suc i) xs)"

definition findLastIndex :: "('a \<Rightarrow> bool) \<Rightarrow> 'a list \<Rightarrow> nat option" where
  "findLastIndex p xs =
     map_option (\<lambda>i. length xs - 1 - i) (findIndex (\<lambda>x _. p x) 0 (rev xs))"

definition is_tail_compaction :: "with_parts \<Rightarrow> bool" where
  "is_tail_compaction m = (is_user (wp_info m) \<and> findCompactionWithTail (wp_parts m) \<noteq> None)"

definition is_summary_of :: "string \<Rightarrow> with_parts \<Rightarrow> bool" where
  "is_summary_of uid m =
     (case wp_info m of IAssistant a \<Rightarrow> am_summary a \<and> am_parent a = uid | _ \<Rightarrow> False)"

definition slice :: "'a list \<Rightarrow> nat \<Rightarrow> nat \<Rightarrow> 'a list" where
  "slice xs i j = take (j - i) (drop i xs)"

definition arrange_compacted :: "with_parts list \<Rightarrow> with_parts list" where
  "arrange_compacted result =
     (case findLastIndex is_tail_compaction result of
        None \<Rightarrow> result
      | Some ci \<Rightarrow>
          (let compaction = result ! ci;
               tailStart = (case findCompactionWithTail (wp_parts compaction) of
                              None \<Rightarrow> '''' | Some c \<Rightarrow> cp_tail_start c);
               summaryIndex = findIndex (\<lambda>m i. i > ci \<and> is_summary_of (wp_id compaction) m) 0 result;
               tailIndex = (if tailStart \<noteq> '''' then findIndex (\<lambda>m _. wp_id m = tailStart) 0 result
                            else None)
           in case (tailIndex, summaryIndex) of
                (Some ti, Some si) \<Rightarrow>
                  if ti < ci \<and> si > ci
                  then slice result ci (si + 1) @ slice result ti ci @ drop (si + 1) result
                  else result
              | _ \<Rightarrow> result))"

definition FilterCompacted :: "with_parts list \<Rightarrow> with_parts list" where
  "FilterCompacted msgs = arrange_compacted (rev (scan_compacted [] None msgs))"

record latest =
  lt_user :: "user_message option"
  lt_assistant :: "assistant_message option"
  lt_finished :: "assistant_message option"
  lt_tasks :: "part list"

definition newer :: "('a \<Rightarrow> string) \<Rightarrow> 'a \<Rightarrow> 'a option \<Rightarrow> 'a option" where
  "newer key x cur = (case cur of None \<Rightarrow> Some x | Some y \<Rightarrow> if key y < key x then Some x else cur)"

fun latest_scan :: "with_parts list \<Rightarrow> latest \<Rightarrow> latest" where
  "latest_scan [] out = out"
| "latest_scan (m # ms) out =
     latest_scan ms
       (case wp_info m of
          IUser u \<Rightarrow> out\<lparr>lt_user := newer um_id u (lt_user out)\<rparr>
        | IAssistant a \<Rightarrow>
            (let out1 = out\<lparr>lt_assistant := newer am_id a (lt_assistant out)\<rparr>
             in if am_finish a \<noteq> '''' then out1\<lparr>lt_finished := newer am_id a (lt_finished out1)\<rparr>
                else out1)
        | INone \<Rightarrow> out)"

definition task_parts :: "with_parts \<Rightarrow> part list" where
  "task_parts m = filter (\<lambda>p. part_type p \<in> {''compaction'', ''subtask''}) (wp_parts m)"

definition LatestOf :: "with_parts list \<Rightarrow> latest" where
  "LatestOf msgs =
     (let out = latest_scan msgs \<lparr>lt_user = None, lt_assistant = None, lt_finished = None, lt_tasks = []\<rparr>
      in out\<lparr>lt_tasks :=
           concat (map (\<lambda>m. case lt_finished out of
                              Some f \<Rightarrow> if wp_id m \<le> am_id f then [] else task_parts m
                            | None \<Rightarrow> task_parts m) msgs)\<rparr>)"

subsection \<open>The scan and the rearrangement\<close>

lemma findIndex_ge: "findIndex p i xs = Some k \<Longrightarrow> i \<le> k \<and> k < i + length xs \<and> p (xs ! (k - i)) k"
proof (induction xs arbitrary: i)
  case (Cons x xs)
  show ?case
  proof (cases "p x i")
    case False
    with Cons.prems have "findIndex p (Suc i) xs = Some k" by simp
    from Cons.IH [OF this] show ?thesis by (auto simp: nth_Cons' Suc_le_eq)
  qed (use Cons.prems in auto)
qed simp

lemma findIndex_append:
  "findIndex p i (xs @ ys) =
     (case findIndex p i xs of Some k \<Rightarrow> Some k | None \<Rightarrow> findIndex p (i + length xs) ys)"
  by (induction xs arbitrary: i) (auto split: option.split)

lemma findIndex_none: "\<forall>x \<in> set xs. \<forall>k. \<not> p x k \<Longrightarrow> findIndex p i xs = None"
  by (induction xs arbitrary: i) auto

lemma findIndex_before: "(\<And>x k. k < i + length xs \<Longrightarrow> \<not> p x k) \<Longrightarrow> findIndex p i xs = None"
  by (cases "findIndex p i xs") (auto dest: findIndex_ge)

lemma findLastIndex_bound: "findLastIndex p xs = Some k \<Longrightarrow> k < length xs \<and> p (xs ! k)"
  by (auto simp: findLastIndex_def rev_nth dest!: findIndex_ge)

lemma findLastIndex_split:
  "p x \<Longrightarrow> \<forall>y \<in> set ys. \<not> p y \<Longrightarrow> findLastIndex p (xs @ x # ys) = Some (length xs)"
  by (simp add: findLastIndex_def findIndex_append findIndex_none)

lemma scan_prefix: "\<exists>k. scan_compacted c r ms = take k ms"
proof (induction c r ms rule: scan_compacted.induct)
  case (1 c r)
  show ?case by (intro exI [of _ 0]) simp
next
  case (2 c r m ms)
  show ?case
  proof (cases "wp_id m = r")
    case False
    with 2 obtain k where "scan_compacted c (Some r) ms = take k ms" by blast
    with False show ?thesis by (intro exI [of _ "Suc k"]) simp
  qed (auto intro!: exI [of _ 1])
next
  case (3 c m ms)
  have S: "\<exists>k. m # take j ms = take k (m # ms)" for j by (metis take_Suc_Cons)
  have Z: "\<exists>k. [m] = take k (m # ms)" by (intro exI [of _ 1]) simp
  show ?case using 3 Z S by (auto split: option.split)
qed

lemma slice_drop: "i \<le> j \<Longrightarrow> slice xs i j @ drop j xs = drop i xs"
  by (metis slice_def append_take_drop_id drop_drop le_add_diff_inverse2)

lemma slice_mset:
  assumes "t \<le> c" "c \<le> s" "s < length xs"
  shows "mset (slice xs c (s + 1) @ slice xs t c @ drop (s + 1) xs) = mset (drop t xs)"
proof -
  have "drop t xs = slice xs t c @ slice xs c (s + 1) @ drop (s + 1) xs"
    using assms by (simp add: slice_drop)
  then show ?thesis by simp
qed

lemma arrange_drop:
  "\<exists>t. mset (arrange_compacted xs) = mset (drop t xs)"
proof -
  have same: "\<exists>t. mset xs = mset (drop t xs)" by (intro exI [of _ 0]) simp
  have moved: "\<exists>t. mset (slice xs c (Suc s)) + (mset (slice xs i c) + mset (drop (Suc s) xs))
      = mset (drop t xs)" if "i < c" "c < s" "s < length xs" for i c s
    using slice_mset [of i c s xs] that by auto
  show ?thesis
    unfolding arrange_compacted_def using same moved
    by (auto simp: Let_def split: option.split dest!: findIndex_ge findLastIndex_bound)
qed

text \<open>
  \<^verbatim>\<open>FilterCompacted\<close> neither invents nor duplicates a message: its result is, as a multiset,
  a contiguous stretch of the history, the newest messages with an old prefix (and possibly
  what precedes a retained tail) left out.
\<close>

theorem filter_compacted_sublist:
  "\<exists>k t. mset (FilterCompacted msgs) = mset (drop t (rev (take k msgs)))"
  using scan_prefix [of "[]" None msgs] arrange_drop unfolding FilterCompacted_def by metis

lemma scan_later:
  assumes "\<forall>m \<in> set ms. findCompaction (wp_parts m) = None"
  shows "\<exists>c'. set c \<subseteq> set c' \<and> scan_compacted c None (ms @ rest) = ms @ scan_compacted c' None rest"
  using assms
proof (induction ms arbitrary: c)
  case (Cons m ms)
  have step: "\<exists>c1. set c \<subseteq> set c1 \<and>
      scan_compacted c None (m # ms @ rest) = m # scan_compacted c1 None (ms @ rest)"
    using Cons.prems
    by (auto split: option.split intro: exI [of _ c] exI [of _ "x # c" for x])
  then obtain c1 where c1: "set c \<subseteq> set c1"
    "scan_compacted c None (m # ms @ rest) = m # scan_compacted c1 None (ms @ rest)" by blast
  moreover obtain c' where "set c1 \<subseteq> set c'"
    "scan_compacted c1 None (ms @ rest) = ms @ scan_compacted c' None rest"
    using Cons.IH [of c1] Cons.prems by auto
  ultimately show ?case by auto
qed auto

lemma scan_retained:
  assumes "\<forall>m \<in> set ms. wp_id m \<noteq> r" "wp_id t = r"
  shows "scan_compacted c (Some r) (ms @ t # rest) = ms @ [t]"
  using assms by (induction ms) auto

lemma findCompaction_tail: "findCompaction ps = None \<Longrightarrow> findCompactionWithTail ps = None"
  by (induction ps rule: findCompaction.induct) auto

text \<open>
  The shape of a compacted conversation: for a history (oldest first) of old messages, a
  retained tail that starts with message \<open>t\<close>, a compaction request \<open>cu\<close> naming that start, its
  finished summary \<open>sm\<close>, and later turns without a compaction, the model sees the request and the
  summary first, then the tail, then the later turns, and none of the old messages.
\<close>

theorem filter_compacted_shape:
  assumes user: "is_user (wp_info cu)" "findCompaction (wp_parts cu) = Some c"
      "findCompactionWithTail (wp_parts cu) = Some c" "cp_tail_start c = wp_id t" "wp_id t \<noteq> ''''"
    and summary: "completes sm = Some (wp_id cu)" "findCompaction (wp_parts sm) = None"
    and later: "\<forall>m \<in> set ltr. findCompaction (wp_parts m) = None"
    and ids: "distinct (map wp_id (t # tls @ [cu, sm] @ ltr))"
  shows "FilterCompacted (rev (old @ (t # tls) @ [cu, sm] @ ltr)) = [cu, sm] @ (t # tls) @ ltr"
proof -
  let ?res = "(t # tls) @ cu # sm # ltr"
  have later': "\<forall>m \<in> set (rev ltr). findCompaction (wp_parts m) = None" using later by simp
  obtain c1 where c1:
    "scan_compacted [] None (rev ltr @ sm # cu # rev (t # tls) @ rev old)
       = rev ltr @ scan_compacted c1 None (sm # cu # rev (t # tls) @ rev old)"
    using scan_later [OF later', of "[]" "sm # cu # rev (t # tls) @ rev old"] by blast
  have not_user: "\<not> is_user (wp_info sm)"
    using summary(1) by (auto simp: completes_def is_user_def split: info.splits)
  have tail_ids: "\<forall>m \<in> set (rev tls). wp_id m \<noteq> wp_id t" "wp_id cu \<noteq> wp_id t" "wp_id sm \<noteq> wp_id cu"
    using ids by auto (metis imageI)
  have "scan_compacted c1 None (sm # cu # rev (t # tls) @ rev old) = sm # cu # rev tls @ [t]"
    using user summary not_user tail_ids
      scan_retained [of "rev tls" "wp_id t" t "wp_id cu # c1" "rev old"] by simp
  with c1 have scan: "scan_compacted [] None (rev (old @ (t # tls) @ [cu, sm] @ ltr)) = rev ?res"
    by simp
  have ci: "findLastIndex is_tail_compaction ?res = Some (length (t # tls))"
    using user later summary not_user
    by (intro findLastIndex_split) (auto simp: is_tail_compaction_def findCompaction_tail)
  have sm: "is_summary_of (wp_id cu) sm"
    using summary(1) by (auto simp: is_summary_of_def completes_def split: info.splits if_splits)
  have si: "findIndex (\<lambda>m i. i > length (t # tls) \<and> is_summary_of (wp_id cu) m) 0 ?res
      = Some (Suc (length (t # tls)))"
  proof -
    have "findIndex (\<lambda>m i. i > length (t # tls) \<and> is_summary_of (wp_id cu) m) 0 (t # tls) = None"
      by (rule findIndex_before) simp
    then show ?thesis unfolding findIndex_append using sm by simp
  qed
  have ti: "findIndex (\<lambda>m _. wp_id m = wp_id t) 0 ?res = Some 0" by simp
  show ?thesis
    unfolding FilterCompacted_def scan rev_rev_ident arrange_compacted_def ci
    using user(3-5) si ti by (simp add: slice_def nth_append)
qed

subsection \<open>A concrete history\<close>

definition demo_base :: "string \<Rightarrow> part_base" where
  "demo_base i = \<lparr>pb_id = i, pb_session = ''s'', pb_message = ''m''\<rparr>"

definition demo_user :: "string \<Rightarrow> user_message" where
  "demo_user i = \<lparr>um_id = i, um_session = ''s'', um_created = 0, um_format = None, um_agent = ''build'',
     um_model = \<lparr>md_provider = ''openai'', md_model = ''gpt'', md_variant = ''''\<rparr>, um_system = '''',
     um_tools = []\<rparr>"

definition demo_assistant :: "string \<Rightarrow> string \<Rightarrow> bool \<Rightarrow> assistant_message" where
  "demo_assistant i parent summary = \<lparr>am_id = i, am_session = ''s'', am_parent = parent, am_model = ''gpt'',
     am_provider = ''openai'', am_mode = ''build'', am_agent = ''build'', am_cwd = ''/w'', am_root = ''/w'',
     am_summary = summary, am_cost = 0, am_tokens = zero_tokens, am_structured = None,
     am_finish = ''stop'', am_error = None, am_created = 0, am_completed = None\<rparr>"

definition demo_compaction :: "string \<Rightarrow> compaction_part" where
  "demo_compaction start =
     \<lparr>cp_base = demo_base ''c'', cp_auto = True, cp_overflow = False, cp_tail_start = start\<rparr>"

theorem filter_compacted_shape_witness:
  "FilterCompacted (rev ([\<lparr>wp_info = IUser (demo_user ''m1''), wp_parts = []\<rparr>] @
       (\<lparr>wp_info = IUser (demo_user ''m2''), wp_parts = []\<rparr> # []) @
       [\<lparr>wp_info = IUser (demo_user ''m3''), wp_parts = [PCompaction (demo_compaction ''m2'')]\<rparr>,
        \<lparr>wp_info = IAssistant (demo_assistant ''m4'' ''m3'' True), wp_parts = []\<rparr>] @
       [\<lparr>wp_info = IUser (demo_user ''m5''), wp_parts = []\<rparr>]))
   = [\<lparr>wp_info = IUser (demo_user ''m3''), wp_parts = [PCompaction (demo_compaction ''m2'')]\<rparr>,
      \<lparr>wp_info = IAssistant (demo_assistant ''m4'' ''m3'' True), wp_parts = []\<rparr>] @
     (\<lparr>wp_info = IUser (demo_user ''m2''), wp_parts = []\<rparr> # []) @
     [\<lparr>wp_info = IUser (demo_user ''m5''), wp_parts = []\<rparr>]"
  by (rule filter_compacted_shape [where c = "demo_compaction ''m2''"])
    (simp_all add: is_user_def completes_def wp_id_def info_id_def demo_user_def demo_assistant_def
      demo_compaction_def)

end
