(* ===== verification/Serialize.thy ===== *)
theory Serialize
  imports Messages
begin

text \<open>
  The history as a provider receives it (\<^verbatim>\<open>internal/engine/message/serialize.go\<close>): stored
  messages and parts become model messages, an assistant turn being cut at its step starts into
  pairs of an assistant message and a tool message. The lemmas show that every tool call is
  answered in the message that follows it.
\<close>

subsection \<open>Options and user messages\<close>

record serialize_model =
  sm_provider :: string
  sm_model :: string

definition model_key :: "serialize_model \<Rightarrow> string" where
  "model_key m = sm_provider m @ ''/'' @ sm_model m"

record serialize_options =
  so_strip_media :: bool
  so_max_chars :: nat

definition file_content :: "file_part \<Rightarrow> content_part" where
  "file_content f = (blank_part ContentFile)
     \<lparr>c_url := fp_url f, c_media_type := fp_mime f, c_filename := fp_filename f\<rparr>"

definition user_content :: "serialize_options \<Rightarrow> part \<Rightarrow> content_part list" where
  "user_content opts p =
     (case p of
        PText t \<Rightarrow> if \<not> tp_ignored t \<and> tp_text t \<noteq> '''' then [text_content (tp_text t)] else []
      | PFile f \<Rightarrow>
          if fp_mime f = ''text/plain'' \<or> fp_mime f = ''application/x-directory'' then []
          else if so_strip_media opts \<and> isMedia (fp_mime f)
          then [text_content (''[Attached '' @ fp_mime f @ '': '' @ fileName (fp_filename f) @ '']'')]
          else [file_content f]
      | PCompaction _ \<Rightarrow> [text_content ''What did we do so far?'']
      | PSubtask _ \<Rightarrow> [text_content ''The following tool was executed by the user'']
      | _ \<Rightarrow> [])"

definition serializeUser :: "part list \<Rightarrow> serialize_options \<Rightarrow> model_message option" where
  "serializeUser parts opts =
     (let content = concat (map (user_content opts) parts)
      in if content = [] then None else Some \<lparr>mm_role = RoleUser, mm_content = content\<rparr>)"

subsection \<open>Tool parts\<close>

definition mediaAttachments :: "file_part list \<Rightarrow> content_part list" where
  "mediaAttachments atts = map file_content (filter (\<lambda>a. isMedia (fp_mime a)) atts)"

definition state_input :: "tool_state \<Rightarrow> jmap option" where
  "state_input st =
     (case st of TsPending s \<Rightarrow> sp_input s | TsRunning s \<Rightarrow> sr_input s | TsCompleted s \<Rightarrow> sc_input s
      | TsError s \<Rightarrow> se_input s | TsOther _ i \<Rightarrow> i)"

definition tool_outcome :: "serialize_options \<Rightarrow> tool_state \<Rightarrow> string \<times> bool" where
  \<comment> \<open>the output text of the result and its error flag\<close>
  "tool_outcome opts st =
     (case st of
        TsCompleted s \<Rightarrow>
          (if sc_compacted s \<noteq> None then ''[Old tool result content cleared]''
           else truncateToolOutput (sc_output s) (so_max_chars opts), False)
      | TsError s \<Rightarrow>
          (case (json_field (se_meta s) ''output'', json_field (se_meta s) ''interrupted'') of
             (JStr out, JBool True) \<Rightarrow> (out, False)
           | _ \<Rightarrow> (se_error s, True))
      | _ \<Rightarrow> (''[Tool execution was interrupted]'', True))"

definition tool_media :: "serialize_options \<Rightarrow> tool_state \<Rightarrow> content_part list" where
  "tool_media opts st =
     (case st of
        TsCompleted s \<Rightarrow>
          if sc_compacted s = None \<and> \<not> so_strip_media opts then mediaAttachments (sc_attachments s) else []
      | _ \<Rightarrow> [])"

definition serializeTool ::
  "tool_part \<Rightarrow> bool \<Rightarrow> serialize_options \<Rightarrow> content_part \<times> content_part \<times> content_part list" where
  "serializeTool p differentModel opts =
     (let meta = (if differentModel then None else providerMeta (tl_meta p));
          call = (blank_part ContentToolCall)
            \<lparr>c_call_id := tl_call p, c_tool := tl_tool p, c_meta := meta, c_input := state_input (tl_state p)\<rparr>;
          result = (blank_part ContentToolResult)
            \<lparr>c_call_id := tl_call p, c_tool := tl_tool p, c_meta := meta, c_input := state_input (tl_state p),
             c_output := fst (tool_outcome opts (tl_state p)),
             c_is_error := snd (tool_outcome opts (tl_state p))\<rparr>
      in (call, result, tool_media opts (tl_state p)))"

subsection \<open>Assistant turns\<close>

record step_buf =
  bf_assistant :: "content_part list"
  bf_results :: "content_part list"
  bf_media :: "content_part list"
  bf_out :: "model_message list"

definition flush :: "step_buf \<Rightarrow> step_buf" where
  "flush b = b\<lparr>bf_assistant := [], bf_results := [],
     bf_out := bf_out b
       @ (if bf_assistant b \<noteq> [] then [\<lparr>mm_role = RoleAssistant, mm_content = bf_assistant b\<rparr>] else [])
       @ (if bf_results b \<noteq> [] then [\<lparr>mm_role = RoleTool, mm_content = bf_results b\<rparr>] else [])\<rparr>"

definition add_assistant :: "content_part \<Rightarrow> step_buf \<Rightarrow> step_buf" where
  "add_assistant c b = b\<lparr>bf_assistant := bf_assistant b @ [c]\<rparr>"

definition serialize_part ::
  "bool \<Rightarrow> bool \<Rightarrow> serialize_options \<Rightarrow> part \<Rightarrow> step_buf \<Rightarrow> step_buf" where
  "serialize_part differentModel signed opts p b =
     (case p of
        PStepStart _ _ \<Rightarrow> flush b
      | PText t \<Rightarrow>
          add_assistant ((text_content (if tp_text t = '''' \<and> signed then '' '' else tp_text t))
            \<lparr>c_meta := (if differentModel then None else tp_meta t)\<rparr>) b
      | PReasoning r \<Rightarrow>
          if differentModel
          then (if hasNonSpace (rp_text r) then add_assistant (text_content (rp_text r)) b else b)
          else add_assistant ((blank_part ContentReasoning)\<lparr>c_text := rp_text r, c_meta := rp_meta r\<rparr>) b
      | PTool t \<Rightarrow>
          (let (call, result, media) = serializeTool t differentModel opts
           in b\<lparr>bf_assistant := bf_assistant b @ [call], bf_results := bf_results b @ [result],
                bf_media := bf_media b @ media\<rparr>)
      | _ \<Rightarrow> b)"

definition has_real_content :: "part list \<Rightarrow> bool" where
  "has_real_content ps = (\<exists>p \<in> set ps. part_type p \<noteq> ''step-start'' \<and> part_type p \<noteq> ''reasoning'')"

definition has_signed_reasoning :: "part list \<Rightarrow> bool" where
  "has_signed_reasoning ps =
     (\<exists>p \<in> set ps. case p of PReasoning r \<Rightarrow> signature (rp_meta r) \<noteq> JNull | _ \<Rightarrow> False)"

definition serializeAssistant ::
  "assistant_message \<Rightarrow> part list \<Rightarrow> serialize_model \<Rightarrow> serialize_options \<Rightarrow> model_message list" where
  "serializeAssistant a parts model opts =
     (let skip = (case am_error a of None \<Rightarrow> False
                  | Some e \<Rightarrow> er_name e \<noteq> ''MessageAbortedError'' \<or> \<not> has_real_content parts)
      in if skip then []
         else
           (let differentModel = (model_key model \<noteq> am_provider a @ ''/'' @ am_model a);
                signed = has_signed_reasoning parts;
                b = flush (fold (serialize_part differentModel signed opts) parts
                      \<lparr>bf_assistant = [], bf_results = [], bf_media = [], bf_out = []\<rparr>)
            in if bf_out b \<noteq> [] \<and> bf_media b \<noteq> []
               then bf_out b @ [\<lparr>mm_role = RoleUser,
                      mm_content = text_content ''Attached media from tool result:'' # bf_media b\<rparr>]
               else bf_out b))"

definition serialize_one :: "serialize_model \<Rightarrow> serialize_options \<Rightarrow> with_parts \<Rightarrow> model_message list" where
  "serialize_one model opts m =
     (if wp_parts m = [] then []
      else case wp_info m of
             IUser _ \<Rightarrow> (case serializeUser (wp_parts m) opts of None \<Rightarrow> [] | Some x \<Rightarrow> [x])
           | IAssistant a \<Rightarrow> serializeAssistant a (wp_parts m) model opts
           | INone \<Rightarrow> [])"

definition ToModelMessages ::
  "with_parts list \<Rightarrow> serialize_model \<Rightarrow> serialize_options \<Rightarrow> model_message list" where
  "ToModelMessages input model opts = concat (map (serialize_one model opts) input)"

subsection \<open>Every call is answered\<close>

definition call_ids :: "model_message \<Rightarrow> string list" where
  "call_ids m = map c_call_id (filter (\<lambda>c. c_kind c = ContentToolCall) (mm_content m))"

definition result_ids :: "model_message \<Rightarrow> string list" where
  "result_ids m = map c_call_id (filter (\<lambda>c. c_kind c = ContentToolResult) (mm_content m))"

text \<open>
  A conversation a provider accepts: a message that calls tools is an assistant message and is
  followed at once by a tool message with the results of exactly those calls, in their order;
  a tool message occurs nowhere else; no message is empty.
\<close>

fun answered :: "model_message list \<Rightarrow> bool" where
  "answered [] = True"
| "answered (m # ms) =
     (mm_content m \<noteq> [] \<and>
      (if call_ids m = [] then mm_role m \<noteq> RoleTool \<and> result_ids m = [] \<and> answered ms
       else mm_role m = RoleAssistant \<and> result_ids m = [] \<and>
            (case ms of [] \<Rightarrow> False
             | t # rest \<Rightarrow> mm_role t = RoleTool \<and> result_ids t = call_ids m \<and> call_ids t = []
                  \<and> answered rest)))"

lemma answered_nil: "answered []"
  by simp

lemma answered_append: "answered ms \<Longrightarrow> answered ns \<Longrightarrow> answered (ms @ ns)"
  by (induction ms rule: answered.induct) (auto split: list.splits if_splits)

lemma answered_concat: "(\<And>x. x \<in> set xs \<Longrightarrow> answered (f x)) \<Longrightarrow> answered (concat (map f xs))"
  by (induction xs) (auto intro: answered_append)

definition buf_ok :: "step_buf \<Rightarrow> bool" where
  "buf_ok b = (answered (bf_out b)
     \<and> map c_call_id (filter (\<lambda>c. c_kind c = ContentToolCall) (bf_assistant b)) = map c_call_id (bf_results b)
     \<and> (\<forall>c \<in> set (bf_assistant b). c_kind c \<noteq> ContentToolResult)
     \<and> (\<forall>c \<in> set (bf_results b). c_kind c = ContentToolResult)
     \<and> (\<forall>c \<in> set (bf_media b). c_kind c = ContentFile))"

lemma flush_ok: "buf_ok b \<Longrightarrow> buf_ok (flush b)"
  unfolding buf_ok_def flush_def
  by (auto intro!: answered_append simp: call_ids_def result_ids_def filter_id_conv filter_empty_conv
      split: if_splits)

lemma add_assistant_ok:
  "buf_ok b \<Longrightarrow> c_kind c \<noteq> ContentToolCall \<Longrightarrow> c_kind c \<noteq> ContentToolResult \<Longrightarrow> buf_ok (add_assistant c b)"
  by (auto simp: buf_ok_def add_assistant_def)

lemma content_kinds [simp]:
  "c_kind (text_content t) = ContentText" "c_kind (blank_part k) = k" "c_kind (file_content f) = ContentFile"
  by (simp_all add: text_content_def blank_part_def file_content_def)

lemma tool_media_kind: "c \<in> set (tool_media opts st) \<Longrightarrow> c_kind c = ContentFile"
  by (auto simp: tool_media_def mediaAttachments_def split: tool_state.splits if_splits)

lemma serialize_tool_ok: "buf_ok b \<Longrightarrow> buf_ok (serialize_part d s opts (PTool t) b)"
  by (auto simp: serialize_part_def serializeTool_def Let_def buf_ok_def dest: tool_media_kind)

lemma serialize_part_ok: "buf_ok b \<Longrightarrow> buf_ok (serialize_part d s opts p b)"
proof (cases p)
  case (PTool t)
  then show "buf_ok b \<Longrightarrow> ?thesis" by (simp add: serialize_tool_ok)
qed (auto intro!: add_assistant_ok flush_ok simp: serialize_part_def)

lemma serialize_parts_ok: "buf_ok b \<Longrightarrow> buf_ok (fold (serialize_part d s opts) ps b)"
  by (induction ps arbitrary: b) (auto intro: serialize_part_ok)

lemma answered_user:
  "ps \<noteq> [] \<Longrightarrow> \<forall>c \<in> set ps. c_kind c = ContentText \<or> c_kind c = ContentFile
   \<Longrightarrow> answered [\<lparr>mm_role = RoleUser, mm_content = ps\<rparr>]"
  by (auto simp: call_ids_def result_ids_def filter_empty_conv)

lemma user_content_kind:
  "c \<in> set (user_content opts p) \<Longrightarrow> c_kind c = ContentText \<or> c_kind c = ContentFile"
  by (cases p) (auto simp: user_content_def text_content_def blank_part_def file_content_def
      split: if_splits)

lemma serializeUser_answered: "serializeUser parts opts = Some m \<Longrightarrow> answered [m]"
  unfolding serializeUser_def
  by (auto simp: Let_def simp del: answered.simps intro!: answered_user dest: user_content_kind
      split: if_splits)

lemma serializeAssistant_answered: "answered (serializeAssistant a parts model opts)"
proof -
  define b0 where "b0 = \<lparr>bf_assistant = [], bf_results = [], bf_media = [], bf_out = []\<rparr>"
  have "buf_ok b0" by (simp add: b0_def buf_ok_def)
  then have ok: "buf_ok (flush (fold (serialize_part d s opts) parts b0))" for d s
    by (intro flush_ok serialize_parts_ok)
  then have out: "answered (bf_out (flush (fold (serialize_part d s opts) parts b0)))"
    and media: "\<forall>c \<in> set (bf_media (flush (fold (serialize_part d s opts) parts b0))). c_kind c = ContentFile"
    for d s unfolding buf_ok_def by blast+
  show ?thesis
    unfolding serializeAssistant_def Let_def b0_def [symmetric]
    using out media
    by (auto simp: text_content_def blank_part_def simp del: answered.simps
        intro!: answered_append answered_user answered_nil split: option.splits)
qed

lemma serialized_answered: "answered (ToModelMessages input model opts)"
  unfolding ToModelMessages_def
  by (rule answered_concat)
    (auto simp: serialize_one_def simp del: answered.simps
      intro: answered_nil serializeUser_answered serializeAssistant_answered
      split: option.splits info.splits)

text \<open>
  Every conversation \<^verbatim>\<open>ToModelMessages\<close> produces is one a provider accepts: each assistant
  message that calls tools is followed at once by the tool message with the results of exactly
  those calls in order, also for calls that failed, were cut off or never ran; no tool result
  stands alone and no message is empty.
\<close>

theorem model_messages_answered: "answered (ToModelMessages input model opts)"
  by (rule serialized_answered)

end
