(* ===== verification/Requests.thy ===== *)
theory Requests
  imports Serialize
begin

text \<open>
  The request bodies of the two providers (\<^verbatim>\<open>internal/engine/provider/anthropic/request.go\<close>
  and \<^verbatim>\<open>openai/request.go\<close>). The lemmas show that a serialized history reaches the wire with
  every tool call answered in the shape each provider demands, and, for Anthropic, with
  alternating roles and no empty message.
\<close>

subsection \<open>Anthropic\<close>

record ant_source =
  as_type :: string
  as_media_type :: string
  as_data :: string
  as_url :: string

record ant_block =
  ab_type :: string
  ab_text :: string
  ab_thinking :: string
  ab_signature :: string
  ab_id :: string
  ab_name :: string
  ab_input :: "jmap option"
  ab_tool_use_id :: string
  ab_content :: string
  ab_is_error :: bool
  ab_source :: "ant_source option"

definition blank_block :: "string \<Rightarrow> ant_block" where
  "blank_block ty =
     \<lparr>ab_type = ty, ab_text = '''', ab_thinking = '''', ab_signature = '''', ab_id = '''', ab_name = '''',
      ab_input = None, ab_tool_use_id = '''', ab_content = '''', ab_is_error = False, ab_source = None\<rparr>"

record ant_message =
  at_role :: string
  at_content :: "ant_block list"

record ant_request =
  ar_model :: string
  ar_max_tokens :: int
  ar_messages :: "ant_message list"
  ar_system :: string
  ar_tools :: "tool_def list"
  ar_tool_choice :: "jmap option"
  ar_stream :: bool
  ar_temperature :: "f64 option"
  ar_top_p :: "f64 option"

record ant_client =
  ac_model :: string
  ac_max_tokens :: int

definition orEmpty :: "jmap option \<Rightarrow> jmap option" where
  "orEmpty m = (case m of None \<Rightarrow> Some [] | Some kvs \<Rightarrow> Some kvs)"

definition signatureOf :: "jmap option \<Rightarrow> string" where
  "signatureOf meta =
     (case json_field meta ''anthropic'' of
        JObj kvs \<Rightarrow> (case json_field (Some kvs) ''signature'' of JStr s \<Rightarrow> s | _ \<Rightarrow> '''')
      | _ \<Rightarrow> '''')"

definition toolChoice :: "tool_choice \<Rightarrow> jmap option" where
  "toolChoice tc =
     (case tc of ToolChoiceAuto \<Rightarrow> Some [(''type'', JStr ''auto'')]
      | ToolChoiceRequired \<Rightarrow> Some [(''type'', JStr ''any'')] | _ \<Rightarrow> None)"

definition mimeFromDataURI :: "string \<Rightarrow> string" where
  "mimeFromDataURI uri =
     (let rest = (if has_prefix uri ''data:'' then drop 5 uri else uri);
          stop = (\<lambda>c. c = CHR '';'' \<or> c = CHR '','')
      in if (\<exists>c \<in> set rest. stop c) then takeWhile (\<lambda>c. \<not> stop c) rest else '''')"

definition imageBlock :: "content_part \<Rightarrow> ant_block" where
  "imageBlock p =
     (let url_source = (blank_block ''image'')\<lparr>ab_source :=
            Some \<lparr>as_type = ''url'', as_media_type = '''', as_data = '''', as_url = c_url p\<rparr>\<rparr>
      in if has_prefix (c_url p) ''data:''
         then (case index_byte (c_url p) (CHR '','') of
                 Some i \<Rightarrow>
                   (blank_block ''image'')\<lparr>ab_source := Some
                      \<lparr>as_type = ''base64'',
                       as_media_type = (if c_media_type p = '''' then mimeFromDataURI (c_url p) else c_media_type p),
                       as_data = drop (i + 1) (c_url p), as_url = ''''\<rparr>\<rparr>
               | None \<Rightarrow> url_source)
         else url_source)"

definition ant_block_of :: "role \<Rightarrow> content_part \<Rightarrow> ant_block list" where
  "ant_block_of r p =
     (case r of
        RoleTool \<Rightarrow>
          (case c_kind p of
             ContentToolResult \<Rightarrow> [(blank_block ''tool_result'')
               \<lparr>ab_tool_use_id := c_call_id p, ab_content := c_output p, ab_is_error := c_is_error p\<rparr>]
           | _ \<Rightarrow> [])
      | RoleAssistant \<Rightarrow>
          (case c_kind p of
             ContentText \<Rightarrow> if c_text p \<noteq> '''' then [(blank_block ''text'')\<lparr>ab_text := c_text p\<rparr>] else []
           | ContentReasoning \<Rightarrow> [(blank_block ''thinking'')
               \<lparr>ab_thinking := c_text p, ab_signature := signatureOf (c_meta p)\<rparr>]
           | ContentToolCall \<Rightarrow> [(blank_block ''tool_use'')
               \<lparr>ab_id := c_call_id p, ab_name := c_tool p, ab_input := orEmpty (c_input p)\<rparr>]
           | _ \<Rightarrow> [])
      | _ \<Rightarrow>
          (case c_kind p of
             ContentText \<Rightarrow> [(blank_block ''text'')\<lparr>ab_text := c_text p\<rparr>]
           | ContentFile \<Rightarrow> [imageBlock p]
           | _ \<Rightarrow> []))"

definition ant_renderMessage :: "model_message \<Rightarrow> ant_message" where
  "ant_renderMessage m =
     \<lparr>at_role = (if mm_role m = RoleAssistant then ''assistant'' else ''user''),
      at_content = concat (map (ant_block_of (mm_role m)) (mm_content m))\<rparr>"

definition appendMessage :: "ant_message \<Rightarrow> ant_message list \<Rightarrow> ant_message list" where
  "appendMessage m msgs =
     (if at_content m = [] then msgs
      else if msgs \<noteq> [] \<and> at_role (last msgs) = at_role m
      then butlast msgs @ [(last msgs)\<lparr>at_content := at_content (last msgs) @ at_content m\<rparr>]
      else msgs @ [m])"

definition ant_buildRequest :: "ant_client \<Rightarrow> llm_request \<Rightarrow> ant_request" where
  "ant_buildRequest c req =
     \<lparr>ar_model = (if rq_model req = '''' then ac_model c else rq_model req),
      ar_max_tokens = (if rq_max_output req \<le> 0 then ac_max_tokens c else rq_max_output req),
      ar_messages = fold (\<lambda>m. appendMessage (ant_renderMessage m)) (rq_messages req) [],
      ar_system = str_join (rq_system req) [CHR 0x0A, CHR 0x0A],
      ar_tools = rq_tools req,
      ar_tool_choice = toolChoice (rq_tool_choice req),
      ar_stream = True,
      ar_temperature = rq_temperature req,
      ar_top_p = rq_top_p req\<rparr>"

text \<open>
  What \<^verbatim>\<open>json.Marshal\<close> writes for a block: a field tagged \<^verbatim>\<open>omitempty\<close> is left out when it is
  the empty string, false, nil or an empty map.
\<close>

definition omit_str :: "string \<Rightarrow> string \<Rightarrow> jmap" where
  "omit_str k v = (if v = '''' then [] else [(k, JStr v)])"

definition ant_source_json :: "ant_source \<Rightarrow> json" where
  "ant_source_json s =
     JObj ([(''type'', JStr (as_type s))] @ omit_str ''media_type'' (as_media_type s)
       @ omit_str ''data'' (as_data s) @ omit_str ''url'' (as_url s))"

definition ant_block_json :: "ant_block \<Rightarrow> jmap" where
  "ant_block_json b =
     [(''type'', JStr (ab_type b))] @ omit_str ''text'' (ab_text b) @ omit_str ''thinking'' (ab_thinking b)
     @ omit_str ''signature'' (ab_signature b) @ omit_str ''id'' (ab_id b) @ omit_str ''name'' (ab_name b)
     @ (case ab_input b of None \<Rightarrow> [] | Some kvs \<Rightarrow> if kvs = [] then [] else [(''input'', JObj kvs)])
     @ omit_str ''tool_use_id'' (ab_tool_use_id b) @ omit_str ''content'' (ab_content b)
     @ (if ab_is_error b then [(''is_error'', JBool True)] else [])
     @ (case ab_source b of None \<Rightarrow> [] | Some s \<Rightarrow> [(''source'', ant_source_json s)])"

subsection \<open>OpenAI\<close>

record oai_call =
  oc_id :: string
  oc_name :: string
  oc_arguments :: string

datatype oai_part = OaiText string | OaiImage string

datatype oai_content = OaiNone | OaiString string | OaiParts "oai_part list"

record chat_message =
  cm_role :: string
  cm_content :: oai_content
  cm_tool_calls :: "oai_call list"
  cm_tool_call_id :: string

record chat_request =
  cr_model :: string
  cr_messages :: "chat_message list"
  cr_stream :: bool
  cr_include_usage :: bool
  cr_tools :: "tool_def list"
  cr_tool_choice :: string
  cr_temperature :: "f64 option"
  cr_top_p :: "f64 option"
  cr_max_tokens :: int

definition role_name :: "role \<Rightarrow> string" where
  "role_name r =
     (case r of RoleSystem \<Rightarrow> ''system'' | RoleUser \<Rightarrow> ''user'' | RoleAssistant \<Rightarrow> ''assistant''
      | RoleTool \<Rightarrow> ''tool'')"

definition tool_choice_name :: "tool_choice \<Rightarrow> string" where
  "tool_choice_name tc =
     (case tc of ToolChoiceUnset \<Rightarrow> '''' | ToolChoiceAuto \<Rightarrow> ''auto'' | ToolChoiceNone \<Rightarrow> ''none''
      | ToolChoiceRequired \<Rightarrow> ''required'')"

definition text_of :: "content_part list \<Rightarrow> string" where
  "text_of ps = concat (map c_text (filter (\<lambda>p. c_kind p = ContentText) ps))"

definition renderUserContent :: "content_part list \<Rightarrow> oai_content" where
  "renderUserContent parts =
     (if \<not> (\<exists>p \<in> set parts. c_kind p = ContentFile) then OaiString (text_of parts)
      else OaiParts (concat (map (\<lambda>p. case c_kind p of
             ContentText \<Rightarrow> [OaiText (c_text p)]
           | ContentFile \<Rightarrow> [OaiImage (c_url p)]
           | _ \<Rightarrow> []) parts)))"

text \<open>\<open>marshal\<close> is \<^verbatim>\<open>json.Marshal\<close>: the text of a tool call's arguments.\<close>

definition oai_renderMessage :: "(json \<Rightarrow> string) \<Rightarrow> model_message \<Rightarrow> chat_message list" where
  "oai_renderMessage marshal m =
     (case mm_role m of
        RoleTool \<Rightarrow>
          map (\<lambda>p. \<lparr>cm_role = ''tool'', cm_content = OaiString (c_output p), cm_tool_calls = [],
                    cm_tool_call_id = c_call_id p\<rparr>)
            (filter (\<lambda>p. c_kind p = ContentToolResult) (mm_content m))
      | RoleAssistant \<Rightarrow>
          (let text = text_of (mm_content m) in
           [\<lparr>cm_role = ''assistant'', cm_content = (if text \<noteq> '''' then OaiString text else OaiNone),
             cm_tool_calls = map (\<lambda>p. \<lparr>oc_id = c_call_id p, oc_name = c_tool p,
                 oc_arguments = marshal (JObj (the (orEmpty (c_input p))))\<rparr>)
               (filter (\<lambda>p. c_kind p = ContentToolCall) (mm_content m)),
             cm_tool_call_id = ''''\<rparr>])
      | r \<Rightarrow>
          [\<lparr>cm_role = role_name r, cm_content = renderUserContent (mm_content m), cm_tool_calls = [],
            cm_tool_call_id = ''''\<rparr>])"

definition oai_buildRequest :: "(json \<Rightarrow> string) \<Rightarrow> string \<Rightarrow> llm_request \<Rightarrow> chat_request" where
  "oai_buildRequest marshal client_model req =
     \<lparr>cr_model = (if rq_model req = '''' then client_model else rq_model req),
      cr_messages =
        map (\<lambda>sp. \<lparr>cm_role = ''system'', cm_content = OaiString sp, cm_tool_calls = [],
                   cm_tool_call_id = ''''\<rparr>) (rq_system req)
        @ concat (map (oai_renderMessage marshal) (rq_messages req)),
      cr_stream = True,
      cr_include_usage = True,
      cr_tools = rq_tools req,
      cr_tool_choice = tool_choice_name (rq_tool_choice req),
      cr_temperature = rq_temperature req,
      cr_top_p = rq_top_p req,
      cr_max_tokens = rq_max_output req\<rparr>"

subsection \<open>The shape of an Anthropic request\<close>

definition use_ids :: "ant_message \<Rightarrow> string list" where
  "use_ids m = map ab_id (filter (\<lambda>b. ab_type b = ''tool_use'') (at_content m))"

definition reply_ids :: "ant_message \<Rightarrow> string list" where
  "reply_ids m = map ab_tool_use_id (filter (\<lambda>b. ab_type b = ''tool_result'') (at_content m))"

text \<open>The calls left open after reading messages, if every message answered the one before.\<close>

fun open_calls :: "string list \<Rightarrow> ant_message list \<Rightarrow> string list option" where
  "open_calls pend [] = Some pend"
| "open_calls pend (m # ms) = (if reply_ids m = pend then open_calls (use_ids m) ms else None)"

fun alternating :: "ant_message list \<Rightarrow> bool" where
  "alternating (m # n # ms) = (at_role m \<noteq> at_role n \<and> alternating (n # ms))"
| "alternating ms = True"

lemma block_types [simp]:
  "ab_type (blank_block t) = t" "ab_type (imageBlock p) = ''image''"
  by (simp_all add: blank_block_def imageBlock_def Let_def split: option.split)

lemma concat_single: "concat (map (\<lambda>x. if P x then [f x] else []) xs) = map f (filter P xs)"
  by (induction xs) auto

lemma ant_uses:
  "use_ids (ant_renderMessage m) = (if mm_role m = RoleAssistant then call_ids m else [])"
proof -
  have "map ab_id (filter (\<lambda>b. ab_type b = ''tool_use'') (ant_block_of r p))
      = (if r = RoleAssistant \<and> c_kind p = ContentToolCall then [c_call_id p] else [])" for r p
    by (simp add: ant_block_of_def split: role.split content_kind.split)
  then show ?thesis
    by (simp add: use_ids_def ant_renderMessage_def call_ids_def filter_concat map_concat comp_def
        concat_single)
qed

lemma ant_replies:
  "reply_ids (ant_renderMessage m) = (if mm_role m = RoleTool then result_ids m else [])"
proof -
  have "map ab_tool_use_id (filter (\<lambda>b. ab_type b = ''tool_result'') (ant_block_of r p))
      = (if r = RoleTool \<and> c_kind p = ContentToolResult then [c_call_id p] else [])" for r p
    by (simp add: ant_block_of_def split: role.split content_kind.split)
  then show ?thesis
    by (simp add: reply_ids_def ant_renderMessage_def result_ids_def filter_concat map_concat comp_def
        concat_single)
qed

lemma open_calls_snoc:
  "open_calls p (ms @ [m]) =
     (case open_calls p ms of Some q \<Rightarrow> if reply_ids m = q then Some (use_ids m) else None | None \<Rightarrow> None)"
  by (induction p ms rule: open_calls.induct) auto

lemma use_ids_merge: "use_ids (l\<lparr>at_content := at_content l @ bs\<rparr>) = use_ids l @ use_ids (l\<lparr>at_content := bs\<rparr>)"
  and reply_ids_merge:
    "reply_ids (l\<lparr>at_content := at_content l @ bs\<rparr>) = reply_ids l @ reply_ids (l\<lparr>at_content := bs\<rparr>)"
  by (simp_all add: use_ids_def reply_ids_def)

lemma ids_of_content:
  "use_ids (l\<lparr>at_content := at_content m\<rparr>) = use_ids m"
  "reply_ids (l\<lparr>at_content := at_content m\<rparr>) = reply_ids m"
  by (simp_all add: use_ids_def reply_ids_def)

lemma append_plain:
  assumes "open_calls [] msgs = Some []" "reply_ids m = []"
  shows "open_calls [] (appendMessage m msgs) = Some (use_ids m)"
proof (cases "at_content m = []")
  case True
  with assms show ?thesis by (simp add: appendMessage_def use_ids_def)
next
  case nonempty: False
  show ?thesis
  proof (cases msgs rule: rev_cases)
    case Nil
    with assms nonempty show ?thesis by (simp add: appendMessage_def)
  next
    case (snoc ms l)
    with assms have l: "open_calls [] ms = Some (reply_ids l)" "use_ids l = []"
      by (auto simp: open_calls_snoc split: option.splits if_splits)
    with snoc assms nonempty open_calls_snoc [of "[]" msgs m] show ?thesis
      by (simp add: appendMessage_def open_calls_snoc use_ids_merge reply_ids_merge ids_of_content)
  qed
qed

lemma append_results:
  assumes "open_calls [] msgs = Some pend" "reply_ids m = pend" "at_role m \<noteq> at_role (last msgs)"
    "pend \<noteq> []"
  shows "open_calls [] (appendMessage m msgs) = Some (use_ids m)"
proof -
  have "at_content m \<noteq> []" using assms by (auto simp: reply_ids_def)
  with assms show ?thesis by (auto simp: appendMessage_def open_calls_snoc)
qed

lemma last_append_role: "at_content m \<noteq> [] \<Longrightarrow> at_role (last (appendMessage m msgs)) = at_role m"
  by (simp add: appendMessage_def)

lemma answered_open_calls:
  "answered ms \<Longrightarrow> open_calls [] msgs = Some []
   \<Longrightarrow> open_calls [] (fold (\<lambda>m. appendMessage (ant_renderMessage m)) ms msgs) = Some []"
proof (induction ms arbitrary: msgs rule: answered.induct)
  case (2 m ms)
  show ?case
  proof (cases "call_ids m = []")
    case True
    with 2 have "open_calls [] (appendMessage (ant_renderMessage m) msgs) = Some []"
      by (simp add: append_plain ant_uses ant_replies)
    with True 2 show ?thesis by simp
  next
    case False
    with 2(3) obtain t rest where ms: "ms = t # rest"
      and t: "mm_role t = RoleTool" "result_ids t = call_ids m" "call_ids t = []" "answered rest"
      and m: "mm_role m = RoleAssistant" "result_ids m = []"
      by (auto split: list.splits)
    let ?m1 = "appendMessage (ant_renderMessage m) msgs"
    have c1: "open_calls [] ?m1 = Some (call_ids m)"
      using append_plain [OF 2(4)] m by (simp add: ant_uses ant_replies)
    have "at_content (ant_renderMessage m) \<noteq> []"
      using False m ant_uses [of m] by (auto simp: use_ids_def)
    then have "at_role (last ?m1) = ''assistant''"
      using m by (simp add: last_append_role) (simp add: ant_renderMessage_def)
    then have "open_calls [] (appendMessage (ant_renderMessage t) ?m1) = Some []"
      using append_results [OF c1, of "ant_renderMessage t"] t m False
      by (simp add: ant_replies ant_uses) (simp add: ant_renderMessage_def)
    with 2(2) [OF False ms] t ms show ?thesis by simp
  qed
qed simp

lemma alternating_snoc:
  "alternating (ms @ [m]) = (alternating ms \<and> (ms \<noteq> [] \<longrightarrow> at_role (last ms) \<noteq> at_role m))"
  by (induction ms rule: alternating.induct) auto

lemma alternating_role: "at_role x = at_role y \<Longrightarrow> alternating (ms @ [x]) = alternating (ms @ [y])"
  by (simp add: alternating_snoc)

lemma append_alternates: "alternating msgs \<Longrightarrow> alternating (appendMessage m msgs)"
  using alternating_snoc [of msgs m]
  by (cases msgs rule: rev_cases) (auto simp: appendMessage_def alternating_snoc)

definition blocks_of :: "ant_message list \<Rightarrow> (string \<times> ant_block) list" where
  "blocks_of ms = concat (map (\<lambda>m. map (Pair (at_role m)) (at_content m)) ms)"

lemma append_blocks: "blocks_of (appendMessage m msgs) = blocks_of msgs @ blocks_of [m]"
  by (cases msgs rule: rev_cases) (auto simp: appendMessage_def blocks_of_def)

lemma append_nonempty: "\<forall>x \<in> set msgs. at_content x \<noteq> [] \<Longrightarrow> \<forall>x \<in> set (appendMessage m msgs). at_content x \<noteq> []"
  by (cases msgs rule: rev_cases) (auto simp: appendMessage_def)

lemma fold_alternates: "alternating msgs \<Longrightarrow> alternating (fold (\<lambda>m. appendMessage (ant_renderMessage m)) ms msgs)"
  by (induction ms arbitrary: msgs) (simp_all add: append_alternates)

lemma fold_nonempty:
  "\<forall>x \<in> set msgs. at_content x \<noteq> []
   \<Longrightarrow> \<forall>x \<in> set (fold (\<lambda>m. appendMessage (ant_renderMessage m)) ms msgs). at_content x \<noteq> []"
proof (induction ms arbitrary: msgs)
  case (Cons m ms)
  from Cons.IH [OF append_nonempty [OF Cons.prems]] show ?case by simp
qed simp

lemma blocks_of_Cons: "blocks_of (m # ms) = blocks_of [m] @ blocks_of ms"
  by (simp add: blocks_of_def)

lemma fold_blocks:
  "blocks_of (fold (\<lambda>m. appendMessage (ant_renderMessage m)) ms msgs)
   = blocks_of msgs @ blocks_of (map ant_renderMessage ms)"
proof (induction ms arbitrary: msgs)
  case (Cons m ms)
  show ?case
    using blocks_of_Cons [of "ant_renderMessage m" "map ant_renderMessage ms"]
    by (simp only: fold_simps Cons.IH append_blocks list.map append_assoc)
qed (simp add: blocks_of_def)

text \<open>
  An Anthropic request alternates its roles and has no empty message, whatever the
  conversation, and joining adjacent turns loses and reorders nothing: its blocks, each with
  the role it is sent under, are the rendered blocks of the conversation in order.
\<close>

theorem anthropic_roles_alternate:
  "let out = ar_messages (ant_buildRequest c req) in
     alternating out \<and> list_all (\<lambda>m. at_content m \<noteq> []) out \<and>
     blocks_of out = blocks_of (map ant_renderMessage (rq_messages req))"
  using fold_alternates [of "[]"] fold_nonempty [of "[]"] fold_blocks [of _ "[]"]
  by (simp add: ant_buildRequest_def Let_def list_all_iff) (simp add: blocks_of_def)

text \<open>
  C3. From the stored history to the Anthropic wire: in every request built from serialized
  history each message's tool results answer exactly the tool uses of the message just before
  it, in order, and no tool use is left without its result.
\<close>

theorem anthropic_calls_answered:
  "open_calls [] (ar_messages (ant_buildRequest c
     (req\<lparr>rq_messages := ToModelMessages input model opts\<rparr>))) = Some []"
proof -
  show ?thesis
    using answered_open_calls [OF serialized_answered, of "[]"] by (simp add: ant_buildRequest_def)
qed

subsection \<open>The shape of an OpenAI request\<close>

text \<open>
  Reading a conversation with the calls still to be answered: a tool message answers the next
  one, and no other message comes while one is open.
\<close>

fun oai_open :: "string list \<Rightarrow> chat_message list \<Rightarrow> string list option" where
  "oai_open pend [] = Some pend"
| "oai_open pend (m # ms) =
     (if cm_role m = ''tool''
      then (case pend of [] \<Rightarrow> None
            | c # cs \<Rightarrow> if cm_tool_call_id m = c then oai_open cs ms else None)
      else if pend = [] then oai_open (map oc_id (cm_tool_calls m)) ms else None)"

lemma oai_open_append:
  "oai_open p (ms @ ns) = (case oai_open p ms of Some q \<Rightarrow> oai_open q ns | None \<Rightarrow> None)"
  by (induction p ms rule: oai_open.induct) (auto split: list.splits)

lemma oai_open_tools:
  "oai_open (map c_call_id ps)
     (map (\<lambda>p. \<lparr>cm_role = ''tool'', cm_content = OaiString (c_output p), cm_tool_calls = [],
                cm_tool_call_id = c_call_id p\<rparr>) ps) = Some []"
  by (induction ps) auto

lemma oai_render_results:
  "mm_role m = RoleTool \<Longrightarrow> oai_open (result_ids m) (oai_renderMessage marshal m) = Some []"
  using oai_open_tools [of "filter (\<lambda>p. c_kind p = ContentToolResult) (mm_content m)"]
  by (simp add: oai_renderMessage_def result_ids_def)

lemma oai_render_plain:
  "mm_role m \<noteq> RoleTool \<Longrightarrow> oai_open [] (oai_renderMessage marshal m)
     = Some (if mm_role m = RoleAssistant then call_ids m else [])"
  by (cases "mm_role m") (simp_all add: oai_renderMessage_def Let_def call_ids_def role_name_def comp_def)

lemma answered_oai_open:
  "answered ms \<Longrightarrow> oai_open [] (concat (map (oai_renderMessage marshal) ms)) = Some []"
proof (induction ms rule: answered.induct)
  case (2 m ms)
  show ?case
  proof (cases "call_ids m = []")
    case True
    with 2 show ?thesis by (simp add: oai_open_append oai_render_plain)
  next
    case False
    with 2(3) obtain t rest where "ms = t # rest" "mm_role t = RoleTool" "result_ids t = call_ids m"
      "answered rest" "mm_role m = RoleAssistant"
      by (auto split: list.splits)
    with False 2(2) oai_render_results [of t marshal] show ?thesis
      by (simp add: oai_open_append oai_render_plain)
  qed
qed simp

text \<open>
  The same for OpenAI: after the system prompts of a request built from serialized history,
  an assistant message's tool calls are answered by exactly that many tool messages, with the
  call ids in order, before any other message, and no call is left open at the end.
\<close>

theorem openai_calls_answered:
  "oai_open [] (cr_messages (oai_buildRequest marshal client_model
     (req\<lparr>rq_messages := ToModelMessages input model opts\<rparr>))) = Some []"
proof -
  have "oai_open [] (map (\<lambda>sp. \<lparr>cm_role = ''system'', cm_content = OaiString sp, cm_tool_calls = [],
      cm_tool_call_id = ''''\<rparr>) sps) = Some []" for sps
    by (induction sps) auto
  then show ?thesis
    by (simp add: oai_buildRequest_def oai_open_append answered_oai_open serialized_answered)
qed

subsection \<open>A call without arguments\<close>

text \<open>
  \<^verbatim>\<open>orEmpty\<close> replaces a nil input by an empty object, but the field is tagged \<^verbatim>\<open>omitempty\<close>, so the
  encoded block of a call whose input is nil or empty has no \<^verbatim>\<open>input\<close> key at all.
\<close>

lemma empty_input_omitted:
  assumes "c_kind p = ContentToolCall" "c_input p = None \<or> c_input p = Some []"
  shows "\<exists>b. ant_block_of RoleAssistant p = [b] \<and> ab_input b = Some [] \<and>
    gm_get (ant_block_json b) ''input'' = None"
  using assms
  by (auto simp: ant_block_of_def ant_block_json_def omit_str_def orEmpty_def blank_block_def)

end
