(* ===== verification/OpenAIStream.thy ===== *)
theory OpenAIStream
  imports Sink
begin

text \<open>
  The OpenAI stream (\<^verbatim>\<open>internal/engine/provider/openai/stream.go\<close>): the server-sent chunks of a
  chat completion become the neutral events. \<open>unmarshal_chunk\<close> stands for \<^verbatim>\<open>json.Unmarshal\<close> into a
  \<^verbatim>\<open>streamChunk\<close> and \<open>unmarshal_args\<close> for the one into a map; \<open>fl\<close> is the rounding of a
  floating-point operation. The lemmas describe the whole event sequence of a stream.
\<close>

subsection \<open>Chunks\<close>

record tool_call_delta =
  td_index :: int
  td_id :: string
  td_fname :: string
  td_args :: string

record choice =
  ch_content :: string
  ch_reasoning_content :: string
  ch_reasoning :: string
  ch_tool_calls :: "tool_call_delta list"
  ch_finish :: string

record usage_chunk =
  uc_prompt :: f64
  uc_completion :: f64
  uc_cached :: "f64 option"
  uc_reasoning :: "f64 option"

record stream_chunk =
  sc_choices :: "choice list"
  sc_usage :: "usage_chunk option"

record tool_accum =
  ta_id :: string
  ta_name :: string
  ta_args :: string
  ta_started :: bool

record oai_state =
  os_text_open :: bool
  os_reasoning_open :: bool
  os_order :: "int list"
  os_tools :: "(int, tool_accum) gomap"
  os_finish :: string
  os_usage :: "token_usage option"

definition oai_init :: oai_state where
  "oai_init = \<lparr>os_text_open = False, os_reasoning_open = False, os_order = [], os_tools = [],
     os_finish = '''', os_usage = None\<rparr>"

subsection \<open>Translation of a chunk\<close>

definition mapFinishReason :: "string \<Rightarrow> string" where
  "mapFinishReason r =
     (if r = ''tool_calls'' then ''tool-calls''
      else if r = ''content_filter'' then ''content-filter'' else r)"

definition nonNeg :: "f64 \<Rightarrow> f64" where
  "nonNeg v = (if v < 0 then 0 else v)"

definition mapUsage :: "(rat \<Rightarrow> rat) \<Rightarrow> usage_chunk \<Rightarrow> token_usage" where
  "mapUsage fl u =
     (let cached = (case uc_cached u of None \<Rightarrow> 0 | Some c \<Rightarrow> c);
          reasoning = (case uc_reasoning u of None \<Rightarrow> 0 | Some r \<Rightarrow> r)
      in \<lparr>u_input = nonNeg (fl (uc_prompt u - cached)),
          u_output = nonNeg (fl (uc_completion u - reasoning)),
          u_reasoning = nonNeg reasoning,
          u_cache_read = nonNeg cached,
          u_cache_write = 0\<rparr>)"

definition firstNonEmpty :: "string \<Rightarrow> string \<Rightarrow> string" where
  "firstNonEmpty a b = (if a \<noteq> '''' then a else b)"

definition accum_of :: "oai_state \<Rightarrow> int \<Rightarrow> tool_accum" where
  "accum_of s i =
     (case gm_get (os_tools s) i of
        Some a \<Rightarrow> a
      | None \<Rightarrow> \<lparr>ta_id = '''', ta_name = '''', ta_args = '''', ta_started = False\<rparr>)"

definition note_fragment :: "tool_call_delta \<Rightarrow> oai_state \<Rightarrow> oai_state" where
  \<comment> \<open>the accumulator of the index, created on first sight, with the fragment's id and name\<close>
  "note_fragment tc s =
     (let acc = accum_of s (td_index tc);
          acc1 = (if td_id tc \<noteq> '''' then acc\<lparr>ta_id := td_id tc\<rparr> else acc);
          acc2 = (if td_fname tc \<noteq> '''' then acc1\<lparr>ta_name := td_fname tc\<rparr> else acc1)
      in s\<lparr>os_tools := gm_put (td_index tc) acc2 (os_tools s),
           os_order := (if gm_has (os_tools s) (td_index tc) then os_order s
                        else os_order s @ [td_index tc])\<rparr>)"

definition set_accum :: "int \<Rightarrow> (tool_accum \<Rightarrow> tool_accum) \<Rightarrow> oai_state \<Rightarrow> oai_state" where
  "set_accum i f s = s\<lparr>os_tools := gm_put i (f (accum_of s i)) (os_tools s)\<rparr>"

definition handleToolDelta :: "tool_call_delta \<Rightarrow> oai_state cmd" where
  "handleToolDelta tc =
     seq_cmd (set_cmd (note_fragment tc))
    (seq_cmd (get_cmd (\<lambda>s. let acc = accum_of s (td_index tc) in
        when_cmd (\<not> ta_started acc \<and> ta_id acc \<noteq> '''' \<and> ta_name acc \<noteq> '''')
          (seq_cmd (set_cmd (set_accum (td_index tc) (\<lambda>a. a\<lparr>ta_started := True\<rparr>)))
             (emit (EvToolInputStart (ta_id acc) (ta_name acc))))))
     (get_cmd (\<lambda>s. let acc = accum_of s (td_index tc) in
        when_cmd (td_args tc \<noteq> '''')
          (seq_cmd (set_cmd (set_accum (td_index tc) (\<lambda>a. a\<lparr>ta_args := ta_args a @ td_args tc\<rparr>)))
             (emit (EvToolInputDelta (ta_id acc) (td_args tc)))))))"

definition oai_text_id :: string where "oai_text_id = ''txt_0''"

definition oai_reasoning_id :: string where "oai_reasoning_id = ''rsn_0''"

definition handle_choice :: "choice \<Rightarrow> oai_state cmd" where
  "handle_choice c =
     seq_cmd (when_cmd (ch_content c \<noteq> '''')
       (seq_cmd (get_cmd (\<lambda>s. when_cmd (\<not> os_text_open s)
                   (seq_cmd (emit (EvTextStart oai_text_id None)) (set_cmd (os_text_open_update (\<lambda>_. True))))))
          (emit (EvTextDelta oai_text_id (ch_content c) None))))
    (seq_cmd (let r = firstNonEmpty (ch_reasoning_content c) (ch_reasoning c) in when_cmd (r \<noteq> '''')
       (seq_cmd (get_cmd (\<lambda>s. when_cmd (\<not> os_reasoning_open s)
                   (seq_cmd (emit (EvReasoningStart oai_reasoning_id None))
                      (set_cmd (os_reasoning_open_update (\<lambda>_. True))))))
          (emit (EvReasoningDelta oai_reasoning_id r None))))
    (seq_cmd (each_cmd handleToolDelta (ch_tool_calls c))
       (when_cmd (ch_finish c \<noteq> '''')
          (set_cmd (os_finish_update (\<lambda>_. mapFinishReason (ch_finish c)))))))"

definition handle_chunk :: "(rat \<Rightarrow> rat) \<Rightarrow> stream_chunk \<Rightarrow> oai_state cmd" where
  "handle_chunk fl ck =
     seq_cmd (case sc_usage ck of None \<Rightarrow> skip_cmd
              | Some u \<Rightarrow> set_cmd (os_usage_update (\<lambda>_. Some (mapUsage fl u))))
       (each_cmd handle_choice (sc_choices ck))"

subsection \<open>The stream\<close>

text \<open>
  The read loop. A line whose data is not a chunk is skipped before the end of the body is looked
  at; the next read then meets the end again.
\<close>

function oai_read :: "(rat \<Rightarrow> rat) \<Rightarrow> (string \<Rightarrow> stream_chunk option) \<Rightarrow> string \<Rightarrow> oai_state cmd" where
  "oai_read fl unmarshal_chunk body =
     (case read_string body of (line, rest, err) \<Rightarrow>
        (case sseData line of
           None \<Rightarrow> if err then skip_cmd else oai_read fl unmarshal_chunk rest
         | Some d \<Rightarrow>
             if d = ''[DONE]'' then skip_cmd
             else (case unmarshal_chunk d of
                     None \<Rightarrow> oai_read fl unmarshal_chunk rest
                   | Some ck \<Rightarrow>
                       seq_cmd (handle_chunk fl ck)
                         (if err then skip_cmd else oai_read fl unmarshal_chunk rest))))"
  by pat_completeness auto

termination
  by (relation "measure (\<lambda>(fl, u, b). length b)")
    (auto intro!: read_string_progress dest: sym)

declare oai_read.simps [simp del]

definition finish_tool :: "(string \<Rightarrow> jmap option option) \<Rightarrow> int \<Rightarrow> oai_state cmd" where
  "finish_tool unmarshal_args i =
     get_cmd (\<lambda>s. let acc = accum_of s i in
       seq_cmd (emit (EvToolInputEnd (ta_id acc)))
         (emit (EvToolCall (ta_id acc) (ta_name acc) (parseArgs unmarshal_args (ta_args acc)) None)))"

definition oai_consume ::
  "(rat \<Rightarrow> rat) \<Rightarrow> (string \<Rightarrow> stream_chunk option) \<Rightarrow> (string \<Rightarrow> jmap option option) \<Rightarrow> string
   \<Rightarrow> oai_state cmd" where
  "oai_consume fl unmarshal_chunk unmarshal_args body =
     seq_cmd (emit EvStepStart)
    (seq_cmd (oai_read fl unmarshal_chunk body)
    (seq_cmd (get_cmd (\<lambda>s. when_cmd (os_text_open s) (emit (EvTextEnd oai_text_id))))
    (seq_cmd (get_cmd (\<lambda>s. when_cmd (os_reasoning_open s) (emit (EvReasoningEnd oai_reasoning_id None))))
    (seq_cmd (get_cmd (\<lambda>s. each_cmd (finish_tool unmarshal_args) (os_order s)))
    (seq_cmd (get_cmd (\<lambda>s. emit (EvStepFinish (if os_finish s = '''' then ''stop'' else os_finish s) (os_usage s))))
       (emit EvFinish))))))"

subsection \<open>What a body says\<close>

text \<open>
  The chunks of a body, up to \<^verbatim>\<open>[DONE]\<close>, and what their tool-call fragments add up to: the
  indices in order of first sight, and for an index the last id and name given and the whole
  argument text.
\<close>

function chunks_read :: "(string \<Rightarrow> stream_chunk option) \<Rightarrow> string \<Rightarrow> stream_chunk list" where
  "chunks_read unmarshal_chunk body =
     (case read_string body of (line, rest, err) \<Rightarrow>
        (case sseData line of
           None \<Rightarrow> if err then [] else chunks_read unmarshal_chunk rest
         | Some d \<Rightarrow>
             if d = ''[DONE]'' then []
             else (case unmarshal_chunk d of
                     None \<Rightarrow> chunks_read unmarshal_chunk rest
                   | Some ck \<Rightarrow> ck # (if err then [] else chunks_read unmarshal_chunk rest))))"
  by pat_completeness auto
termination
  by (relation "measure (\<lambda>(u, b). length b)") (auto intro!: read_string_progress dest: sym)

declare chunks_read.simps [simp del]

definition reasoning_of :: "choice \<Rightarrow> string" where
  "reasoning_of c = firstNonEmpty (ch_reasoning_content c) (ch_reasoning c)"

definition first_seen :: "'a list \<Rightarrow> 'a list" where
  "first_seen xs = rev (remdups (rev xs))"

definition last_given :: "string list \<Rightarrow> string" where
  "last_given xs = last ('''' # filter (\<lambda>x. x \<noteq> '''') xs)"

definition frags_at :: "int \<Rightarrow> tool_call_delta list \<Rightarrow> tool_call_delta list" where
  "frags_at i fs = filter (\<lambda>f. td_index f = i) fs"

definition call_of :: "(string \<Rightarrow> jmap option option) \<Rightarrow> tool_call_delta list \<Rightarrow> int \<Rightarrow> llm_event" where
  "call_of unmarshal_args fs i =
     EvToolCall (last_given (map td_id (frags_at i fs))) (last_given (map td_fname (frags_at i fs)))
       (parseArgs unmarshal_args (concat (map td_args (frags_at i fs)))) None"

lemma first_seen_snoc:
  "first_seen (xs @ [x]) = (if x \<in> set xs then first_seen xs else first_seen xs @ [x])"
  by (simp add: first_seen_def)

lemma set_first_seen [simp]: "set (first_seen xs) = set xs"
  by (simp add: first_seen_def)

lemma last_given_snoc: "last_given (xs @ [x]) = (if x \<noteq> '''' then x else last_given xs)"
  by (simp add: last_given_def)

lemma frags_at_snoc [simp]: "frags_at i (fs @ [f]) = (if td_index f = i then frags_at i fs @ [f] else frags_at i fs)"
  by (simp add: frags_at_def)

subsection \<open>The invariant of the stream\<close>

definition tools_inv :: "tool_call_delta list \<Rightarrow> oai_state \<Rightarrow> bool" where
  "tools_inv fs s =
     (os_order s = first_seen (map td_index fs) \<and>
      (\<forall>i. gm_has (os_tools s) i \<longleftrightarrow> i \<in> td_index ` set fs) \<and>
      (\<forall>i. ta_id (accum_of s i) = last_given (map td_id (frags_at i fs)) \<and>
           ta_name (accum_of s i) = last_given (map td_fname (frags_at i fs)) \<and>
           ta_args (accum_of s i) = concat (map td_args (frags_at i fs))))"

definition oai_inv ::
  "string \<Rightarrow> string \<Rightarrow> tool_call_delta list \<Rightarrow> oai_state \<Rightarrow> llm_event list \<Rightarrow> bool" where
  "oai_inv t r fs s evs =
     ((\<exists>mid. evs = EvStepStart # mid \<and> (\<forall>ev \<in> set mid. \<not> terminal ev)) \<and> calls_sent evs = [] \<and>
      text_sent evs = t \<and> reasoning_sent evs = r \<and>
      open_blocks evs ({}, {}) =
        Some (if os_text_open s then {oai_text_id} else {},
              if os_reasoning_open s then {oai_reasoning_id} else {}) \<and>
      tools_inv fs s)"

lemma tools_inv_frame:
  "tools_inv fs (s\<lparr>os_text_open := b\<rparr>) = tools_inv fs s"
  "tools_inv fs (s\<lparr>os_reasoning_open := b\<rparr>) = tools_inv fs s"
  "tools_inv fs (s\<lparr>os_finish := f\<rparr>) = tools_inv fs s"
  "tools_inv fs (s\<lparr>os_usage := u\<rparr>) = tools_inv fs s"
  by (simp_all add: tools_inv_def accum_of_def)

lemma accum_note:
  "accum_of (note_fragment tc s) i =
     (if i = td_index tc
      then (accum_of s i)\<lparr>ta_id := (if td_id tc \<noteq> '''' then td_id tc else ta_id (accum_of s i)),
             ta_name := (if td_fname tc \<noteq> '''' then td_fname tc else ta_name (accum_of s i))\<rparr>
      else accum_of s i)"
  by (simp add: note_fragment_def accum_of_def Let_def)

lemma accum_set:
  "accum_of (set_accum j f s) i = (if i = j then f (accum_of s i) else accum_of s i)"
  by (simp add: set_accum_def accum_of_def)

lemma accum_get: "gm_has (os_tools s) i \<Longrightarrow> gm_get (os_tools s) i = Some (accum_of s i)"
  by (auto simp: gm_has_def accum_of_def)

lemma content_step:
  "triple (oai_inv t r fs)
     (when_cmd (ch_content c \<noteq> '''')
       (seq_cmd (get_cmd (\<lambda>s. when_cmd (\<not> os_text_open s)
                   (seq_cmd (emit (EvTextStart oai_text_id None)) (set_cmd (os_text_open_update (\<lambda>_. True))))))
          (emit (EvTextDelta oai_text_id (ch_content c) None))))
     (oai_inv (t @ ch_content c) r fs)"
  apply (rule triple_when)
   apply (rule triple_seq [where Q = "\<lambda>s e. oai_inv t r fs s e \<and> os_text_open s"])
    apply (rule triple_get, rule triple_when)
     apply (rule triple_seq [where Q = "\<lambda>s e. oai_inv t r fs (s\<lparr>os_text_open := True\<rparr>) e"])
      apply (rule triple_emit)
      apply (auto simp: oai_inv_def tools_inv_frame block_step_def terminal_def)[1]
     apply (rule triple_set)
     apply (auto simp: oai_inv_def)[1]
    apply simp
   apply (rule triple_emit)
   apply (auto simp: oai_inv_def block_step_def terminal_def)
  done

lemma reasoning_step:
  "triple (oai_inv t r fs)
     (let x = firstNonEmpty (ch_reasoning_content c) (ch_reasoning c) in when_cmd (x \<noteq> '''')
       (seq_cmd (get_cmd (\<lambda>s. when_cmd (\<not> os_reasoning_open s)
                   (seq_cmd (emit (EvReasoningStart oai_reasoning_id None))
                      (set_cmd (os_reasoning_open_update (\<lambda>_. True))))))
          (emit (EvReasoningDelta oai_reasoning_id x None))))
     (oai_inv t (r @ reasoning_of c) fs)"
  unfolding Let_def reasoning_of_def
  apply (rule triple_when)
   apply (rule triple_seq [where Q = "\<lambda>s e. oai_inv t r fs s e \<and> os_reasoning_open s"])
    apply (rule triple_get, rule triple_when)
     apply (rule triple_seq [where Q = "\<lambda>s e. oai_inv t r fs (s\<lparr>os_reasoning_open := True\<rparr>) e"])
      apply (rule triple_emit)
      apply (auto simp: oai_inv_def tools_inv_frame block_step_def terminal_def)[1]
     apply (rule triple_set)
     apply (auto simp: oai_inv_def)[1]
    apply simp
   apply (rule triple_emit)
   apply (auto simp: oai_inv_def block_step_def terminal_def)
  done

text \<open>A fragment is first noted without its argument text.\<close>

lemma tools_note:
  "tools_inv fs s \<Longrightarrow> tools_inv (fs @ [tc\<lparr>td_args := ''''\<rparr>]) (note_fragment tc s)"
proof -
  assume inv: "tools_inv fs s"
  have "os_order (note_fragment tc s) = first_seen (map td_index (fs @ [tc]))"
    using inv by (simp add: tools_inv_def note_fragment_def Let_def first_seen_snoc)
  moreover have "gm_has (os_tools (note_fragment tc s)) i \<longleftrightarrow> i \<in> td_index ` set (fs @ [tc])" for i
    using inv by (simp add: tools_inv_def note_fragment_def Let_def)
  ultimately show ?thesis
    using inv by (simp add: tools_inv_def accum_note last_given_snoc)
qed

lemma tools_started:
  "tools_inv fs s \<Longrightarrow> i \<in> td_index ` set fs
   \<Longrightarrow> tools_inv fs (set_accum i (\<lambda>a. a\<lparr>ta_started := True\<rparr>) s)"
  unfolding tools_inv_def by (auto simp: accum_set) (auto simp: set_accum_def)

lemma tools_args:
  "tools_inv (fs @ [tc\<lparr>td_args := ''''\<rparr>]) s
   \<Longrightarrow> tools_inv (fs @ [tc]) (set_accum (td_index tc) (\<lambda>a. a\<lparr>ta_args := ta_args a @ td_args tc\<rparr>) s)"
  unfolding tools_inv_def by (auto simp: accum_set) (auto simp: set_accum_def)

lemma set_accum_frame [frame]:
  "os_text_open (set_accum i f s) = os_text_open s" "os_reasoning_open (set_accum i f s) = os_reasoning_open s"
  "os_text_open (note_fragment tc s) = os_text_open s"
  "os_reasoning_open (note_fragment tc s) = os_reasoning_open s"
  by (simp_all add: set_accum_def note_fragment_def Let_def)

lemma tool_step: "triple (oai_inv t r fs) (handleToolDelta tc) (oai_inv t r (fs @ [tc]))"
  unfolding handleToolDelta_def
proof (rule triple_seq)
  let ?fs = "fs @ [tc\<lparr>td_args := ''''\<rparr>]"
  show "triple (oai_inv t r fs) (set_cmd (note_fragment tc)) (oai_inv t r ?fs)"
    by (rule triple_set) (simp add: oai_inv_def tools_note frame)
  have started: "triple (oai_inv t r ?fs) (get_cmd (\<lambda>s. let acc = accum_of s (td_index tc) in
        when_cmd (\<not> ta_started acc \<and> ta_id acc \<noteq> '''' \<and> ta_name acc \<noteq> '''')
          (seq_cmd (set_cmd (set_accum (td_index tc) (\<lambda>a. a\<lparr>ta_started := True\<rparr>)))
             (emit (EvToolInputStart (ta_id acc) (ta_name acc)))))) (oai_inv t r ?fs)"
    unfolding Let_def
    by (rule triple_get, rule triple_when, rule triple_seq [where Q = "oai_inv t r ?fs"], rule triple_set)
      (auto simp: oai_inv_def frame block_step_def terminal_def intro!: tools_started triple_emit)
  have args: "triple (oai_inv t r ?fs) (get_cmd (\<lambda>s. let acc = accum_of s (td_index tc) in
        when_cmd (td_args tc \<noteq> '''')
          (seq_cmd (set_cmd (set_accum (td_index tc) (\<lambda>a. a\<lparr>ta_args := ta_args a @ td_args tc\<rparr>)))
             (emit (EvToolInputDelta (ta_id acc) (td_args tc)))))) (oai_inv t r (fs @ [tc]))"
    unfolding Let_def
  proof (rule triple_get, rule triple_when)
    fix s0 s e
    assume "\<not> td_args tc \<noteq> ''''" "oai_inv t r ?fs s e \<and> s = s0"
    then show "oai_inv t r (fs @ [tc]) s e" by (cases tc) auto
  qed (rule triple_seq [where Q = "oai_inv t r (fs @ [tc])"], rule triple_set,
      auto simp: oai_inv_def frame block_step_def terminal_def intro!: tools_args triple_emit)
  from started args show "triple (oai_inv t r ?fs)
    (seq_cmd (get_cmd (\<lambda>s. let acc = accum_of s (td_index tc) in
        when_cmd (\<not> ta_started acc \<and> ta_id acc \<noteq> '''' \<and> ta_name acc \<noteq> '''')
          (seq_cmd (set_cmd (set_accum (td_index tc) (\<lambda>a. a\<lparr>ta_started := True\<rparr>)))
             (emit (EvToolInputStart (ta_id acc) (ta_name acc))))))
     (get_cmd (\<lambda>s. let acc = accum_of s (td_index tc) in
        when_cmd (td_args tc \<noteq> '''')
          (seq_cmd (set_cmd (set_accum (td_index tc) (\<lambda>a. a\<lparr>ta_args := ta_args a @ td_args tc\<rparr>)))
             (emit (EvToolInputDelta (ta_id acc) (td_args tc)))))))
    (oai_inv t r (fs @ [tc]))"
    by (rule triple_seq)
qed

lemma choice_step:
  "triple (oai_inv t r fs) (handle_choice c)
     (oai_inv (t @ ch_content c) (r @ reasoning_of c) (fs @ ch_tool_calls c))"
  unfolding handle_choice_def
  by (rule triple_seq [OF content_step], rule triple_seq [OF reasoning_step],
      rule triple_seq [OF triple_each [where I = "oai_inv (t @ ch_content c) (r @ reasoning_of c)", OF tool_step]],
      rule triple_when, rule triple_set)
    (auto simp: oai_inv_def tools_inv_frame)

text \<open>The same over a list of choices seen so far.\<close>

definition choices_inv :: "choice list \<Rightarrow> oai_state \<Rightarrow> llm_event list \<Rightarrow> bool" where
  "choices_inv cs = oai_inv (concat (map ch_content cs)) (concat (map reasoning_of cs))
     (concat (map ch_tool_calls cs))"

lemma choices_step: "triple (choices_inv cs) (each_cmd handle_choice xs) (choices_inv (cs @ xs))"
  by (rule triple_each) (use choice_step in \<open>simp add: choices_inv_def\<close>)

lemma chunk_step: "triple (choices_inv cs) (handle_chunk fl ck) (choices_inv (cs @ sc_choices ck))"
  unfolding handle_chunk_def
  by (rule triple_seq [OF _ choices_step])
    (auto intro!: triple_skip triple_set simp: choices_inv_def oai_inv_def tools_inv_frame split: option.split)

lemma read_step:
  "triple (choices_inv cs) (oai_read fl uc body)
     (choices_inv (cs @ concat (map sc_choices (chunks_read uc body))))"
proof (induction fl uc body arbitrary: cs rule: oai_read.induct)
  case (1 fl uc body)
  obtain line rest err where r: "read_string body = (line, rest, err)" by (cases "read_string body")
  show ?case
  proof (cases "sseData line")
    case None
    with 1(1) [OF r [symmetric]] r show ?thesis
      by (simp add: oai_read.simps [of fl uc body] chunks_read.simps [of uc body] triple_skip)
  next
    case (Some d)
    show ?thesis
    proof (cases "d = ''[DONE]''")
      case True
      with r Some show ?thesis
        by (simp add: oai_read.simps [of fl uc body] chunks_read.simps [of uc body] triple_skip)
    next
      case False
      show ?thesis
      proof (cases "uc d")
        case None
        with 1(2) [OF r [symmetric]] r Some False show ?thesis
          by (simp add: oai_read.simps [of fl uc body] chunks_read.simps [of uc body])
      next
        case (Some ck)
        have "triple (choices_inv (cs @ sc_choices ck)) (if err then skip_cmd else oai_read fl uc rest)
          (choices_inv (cs @ concat (map sc_choices (ck # (if err then [] else chunks_read uc rest)))))"
          using 1(3) [OF r [symmetric] refl \<open>sseData line = Some d\<close> False Some,
              of "cs @ sc_choices ck"]
          by (auto intro: triple_skip)
        from triple_seq [OF chunk_step [of cs fl ck] this] r Some \<open>sseData line = Some d\<close> False
        show ?thesis
          by (simp add: oai_read.simps [of fl uc body] chunks_read.simps [of uc body])
      qed
    qed
  qed
qed

subsection \<open>The whole stream\<close>

definition closing :: "string \<Rightarrow> string \<Rightarrow> llm_event list \<Rightarrow> string set \<times> string set \<Rightarrow> llm_event list \<Rightarrow> bool" where
  "closing t r calls b evs =
     ((\<exists>mid. evs = EvStepStart # mid \<and> (\<forall>ev \<in> set mid. \<not> terminal ev)) \<and> calls_sent evs = calls \<and>
      text_sent evs = t \<and> reasoning_sent evs = r \<and> open_blocks evs ({}, {}) = Some b)"

lemma finish_tool_step:
  "triple (\<lambda>s e. tools_inv fs s \<and> closing t r (map (call_of ua fs) pre) ({}, {}) e)
     (finish_tool ua i)
     (\<lambda>s e. tools_inv fs s \<and> closing t r (map (call_of ua fs) (pre @ [i])) ({}, {}) e)"
  unfolding finish_tool_def Let_def
proof (rule triple_get, rule triple_seq)
  fix s0
  show "triple (\<lambda>s e. (tools_inv fs s \<and> closing t r (map (call_of ua fs) pre) ({}, {}) e) \<and> s = s0)
      (emit (EvToolInputEnd (ta_id (accum_of s0 i))))
      (\<lambda>s e. (tools_inv fs s0 \<and> closing t r (map (call_of ua fs) pre) ({}, {}) e) \<and> s = s0)"
    by (rule triple_emit) (auto simp: closing_def block_step_def terminal_def)
  show "triple (\<lambda>s e. (tools_inv fs s0 \<and> closing t r (map (call_of ua fs) pre) ({}, {}) e) \<and> s = s0)
      (emit (EvToolCall (ta_id (accum_of s0 i)) (ta_name (accum_of s0 i))
         (parseArgs ua (ta_args (accum_of s0 i))) None))
      (\<lambda>s e. tools_inv fs s \<and> closing t r (map (call_of ua fs) (pre @ [i])) ({}, {}) e)"
    by (rule triple_emit)
      (auto simp: closing_def block_step_def terminal_def call_of_def tools_inv_def)
qed

lemma finish_tools:
  "triple (\<lambda>s e. tools_inv fs s \<and> closing t r (map (call_of ua fs) pre) ({}, {}) e)
     (each_cmd (finish_tool ua) xs)
     (\<lambda>s e. tools_inv fs s \<and> closing t r (map (call_of ua fs) (pre @ xs)) ({}, {}) e)"
  by (rule triple_each
      [where I = "\<lambda>xs s e. tools_inv fs s \<and> closing t r (map (call_of ua fs) xs) ({}, {}) e"])
    (rule finish_tool_step)

definition stream_result ::
  "string \<Rightarrow> string \<Rightarrow> llm_event list \<Rightarrow> llm_event list \<Rightarrow> bool" where
  "stream_result t r calls evs =
     ((\<exists>mid reason usage. evs = EvStepStart # mid @ [EvStepFinish reason usage, EvFinish]
         \<and> (\<forall>ev \<in> set mid. \<not> terminal ev)) \<and>
      text_sent evs = t \<and> reasoning_sent evs = r \<and> calls_sent evs = calls \<and>
      open_blocks evs ({}, {}) = Some ({}, {}))"

lemma oai_consume_result:
  fixes uc :: "string \<Rightarrow> stream_chunk option" and body :: string
  defines "cs \<equiv> concat (map sc_choices (chunks_read uc body))"
  defines "fs \<equiv> concat (map ch_tool_calls cs)"
  defines "t \<equiv> concat (map ch_content cs)" and "r \<equiv> concat (map reasoning_of cs)"
  shows "triple (\<lambda>s e. s = oai_init \<and> e = []) (oai_consume fl uc ua body)
    (\<lambda>s. stream_result t r (map (call_of ua fs) (first_seen (map td_index fs))))"
proof -
  let ?calls = "map (call_of ua fs) (first_seen (map td_index fs))"
  have start: "triple (\<lambda>s e. s = oai_init \<and> e = []) (emit EvStepStart) (choices_inv [])"
    by (rule triple_emit)
      (auto simp: choices_inv_def oai_inv_def oai_init_def block_step_def tools_inv_def first_seen_def
        frags_at_def last_given_def accum_of_def gm_has_def)
  have read: "triple (choices_inv []) (oai_read fl uc body) (oai_inv t r fs)"
    using read_step [of "[]" fl uc body] unfolding choices_inv_def cs_def fs_def t_def r_def by simp
  have close_text: "triple (oai_inv t r fs)
      (get_cmd (\<lambda>s. when_cmd (os_text_open s) (emit (EvTextEnd oai_text_id))))
      (\<lambda>s e. tools_inv fs s \<and> closing t r [] ({}, if os_reasoning_open s then {oai_reasoning_id} else {}) e)"
    by (rule triple_get, rule triple_when, rule triple_emit)
      (auto simp: oai_inv_def closing_def block_step_def terminal_def split: if_splits)
  have reason: "triple
      (\<lambda>s e. tools_inv fs s \<and> closing t r [] ({}, if os_reasoning_open s then {oai_reasoning_id} else {}) e)
      (get_cmd (\<lambda>s. when_cmd (os_reasoning_open s) (emit (EvReasoningEnd oai_reasoning_id None))))
      (\<lambda>s e. tools_inv fs s \<and> closing t r [] ({}, {}) e)"
    by (rule triple_get, rule triple_when, rule triple_emit)
      (auto simp: closing_def block_step_def terminal_def split: if_splits)
  have tools: "triple (\<lambda>s e. tools_inv fs s \<and> closing t r [] ({}, {}) e)
      (get_cmd (\<lambda>s. each_cmd (finish_tool ua) (os_order s))) (\<lambda>s. closing t r ?calls ({}, {}))"
  proof (rule triple_get)
    fix s0
    show "triple (\<lambda>s e. (tools_inv fs s \<and> closing t r [] ({}, {}) e) \<and> s = s0)
      (each_cmd (finish_tool ua) (os_order s0)) (\<lambda>s. closing t r ?calls ({}, {}))"
    proof (cases "os_order s0 = first_seen (map td_index fs)")
      case True
      show ?thesis
        unfolding True
        by (rule triple_post [OF triple_pre [OF finish_tools [of fs t r ua "[]"]]]) auto
    next
      case False
      then show ?thesis by (auto simp: tools_inv_def intro!: triple_vacuous)
    qed
  qed
  have fin: "triple (\<lambda>s. closing t r ?calls ({}, {}))
     (seq_cmd (get_cmd (\<lambda>s. emit (EvStepFinish (if os_finish s = '''' then ''stop'' else os_finish s) (os_usage s))))
       (emit EvFinish)) (\<lambda>s. stream_result t r ?calls)"
    by (rule triple_seq [where Q = "\<lambda>s e. \<exists>e0 f u. e = e0 @ [EvStepFinish f u] \<and> closing t r ?calls ({}, {}) e0"],
        rule triple_get, rule triple_emit)
      (auto simp: stream_result_def closing_def block_step_def text_sent_def reasoning_sent_def
        calls_sent_def intro!: triple_emit)
  show ?thesis
    unfolding oai_consume_def
    by (rule triple_seq [OF start triple_seq [OF read triple_seq [OF close_text
          triple_seq [OF reason triple_seq [OF tools fin]]]]])
qed


lemma oai_read_regular: "regular (oai_read fl uc body)"
proof (induction fl uc body rule: oai_read.induct)
  case (1 fl uc body)
  have chunk: "regular (handle_chunk fl ck)" for ck
    unfolding handle_chunk_def handle_choice_def handleToolDelta_def Let_def
    by (cases "sc_usage ck") (auto intro!: regular)
  obtain line rest err where r: "read_string body = (line, rest, err)" by (cases "read_string body")
  note IH = 1(1) [OF r [symmetric] refl] 1(2) [OF r [symmetric] refl] 1(3) [OF r [symmetric] refl]
  show ?case
    unfolding oai_read.simps [of fl uc body] r prod.case
    using IH chunk by (auto intro: regular split: option.split)
qed

lemma oai_consume_regular: "regular (oai_consume fl uc ua body)"
  unfolding oai_consume_def finish_tool_def Let_def by (auto intro!: regular oai_read_regular)

text \<open>An OpenAI stream as a source: its input is the rounding, the two decoders and the body.\<close>

type_synonym oai_input =
  "(rat \<Rightarrow> rat) \<times> (string \<Rightarrow> stream_chunk option) \<times> (string \<Rightarrow> jmap option option) \<times> string"

definition oai_whole :: "oai_input \<Rightarrow> llm_event list" where
  "oai_whole = (\<lambda>(fl, uc, ua, body). sent_all (oai_consume fl uc ua body) oai_init)"

definition oai_cut :: "nat \<Rightarrow> oai_input \<Rightarrow> llm_event list" where
  "oai_cut n = (\<lambda>(fl, uc, ua, body). sent_cut n (oai_consume fl uc ua body) oai_init)"

lemma oai_shape: "stream_shape (oai_whole i)"
proof -
  obtain fl uc ua body where i: "i = (fl, uc, ua, body)" by (cases i)
  from triple_all [OF oai_consume_result [of fl uc ua body], of oai_init]
  obtain mid r u where "oai_whole i = EvStepStart # mid @ [EvStepFinish r u, EvFinish]"
    "\<forall>ev \<in> set mid. \<not> terminal ev"
    unfolding i oai_whole_def stream_result_def by auto
  then show ?thesis unfolding stream_shape_def by blast
qed

lemma oai_prefix: "oai_cut n i = take n (oai_whole i)"
  by (auto simp: oai_whole_def oai_cut_def regular_cut oai_consume_regular split: prod.split)

interpretation oai: stream_source oai_whole oai_cut
  by unfold_locales (rule oai_shape, rule oai_prefix)

end
