(* ===== verification/AnthropicStream.thy ===== *)
theory AnthropicStream
  imports OpenAIStream Requests
begin

text \<open>
  The Anthropic stream (\<^verbatim>\<open>internal/engine/provider/anthropic/stream.go\<close>): the server-sent
  events of a message become the neutral events. \<open>unmarshal_event\<close> stands for \<^verbatim>\<open>json.Unmarshal\<close>
  into a \<^verbatim>\<open>streamEvent\<close>, \<open>unmarshal_args\<close> for the one into a map. The lemmas describe how the
  stream ends, what a tool block becomes, and the way of a reasoning signature back to the wire.
\<close>

subsection \<open>Server events\<close>

record ant_usage =
  au_input :: f64
  au_output :: f64
  au_cache_read :: f64
  au_cache_creation :: f64

record content_block =
  cb_type :: string
  cb_id :: string
  cb_name :: string

record ant_delta =
  ad_type :: string
  ad_text :: string
  ad_partial_json :: string
  ad_thinking :: string
  ad_signature :: string
  ad_stop_reason :: string

record stream_event =
  se_type :: string
  se_index :: int
  se_message_usage :: "ant_usage option"
  se_content_block :: "content_block option"
  se_delta :: "ant_delta option"
  se_usage :: "ant_usage option"
  se_failure :: "string option"

datatype block_kind = BkNone | BkText | BkTool | BkReasoning

record block_state =
  bs_kind :: block_kind
  bs_id :: string
  bs_name :: string
  bs_json :: string
  bs_sig :: string

record ant_state =
  ans_blocks :: "(int, block_state) gomap"
  ans_usage :: token_usage
  ans_stop :: string

definition ant_init :: ant_state where
  "ant_init = \<lparr>ans_blocks = [], ans_usage = zero_usage, ans_stop = ''''\<rparr>"

definition textID :: "int \<Rightarrow> string" where
  "textID i = ''txt_'' @ itoa_int i"

definition reasoningID :: "int \<Rightarrow> string" where
  "reasoningID i = ''rsn_'' @ itoa_int i"

definition mapStopReason :: "string \<Rightarrow> string" where
  "mapStopReason r =
     (if r = ''tool_use'' then ''tool-calls'' else if r = ''max_tokens'' then ''length''
      else if r = ''refusal'' then ''content-filter'' else ''stop'')"

definition applyUsage :: "ant_usage \<Rightarrow> token_usage \<Rightarrow> token_usage" where
  "applyUsage a u =
     (let u1 = (if au_input a > 0 then u\<lparr>u_input := au_input a\<rparr> else u);
          u2 = (if au_output a > 0 then u1\<lparr>u_output := au_output a\<rparr> else u1);
          u3 = (if au_cache_read a > 0 then u2\<lparr>u_cache_read := au_cache_read a\<rparr> else u2)
      in if au_cache_creation a > 0 then u3\<lparr>u_cache_write := au_cache_creation a\<rparr> else u3)"

subsection \<open>Blocks\<close>

definition put_block :: "int \<Rightarrow> block_state \<Rightarrow> ant_state \<Rightarrow> ant_state" where
  "put_block i b s = s\<lparr>ans_blocks := gm_put i b (ans_blocks s)\<rparr>"

definition startBlock :: "stream_event \<Rightarrow> ant_state cmd" where
  "startBlock ev =
     (case se_content_block ev of
        None \<Rightarrow> skip_cmd
      | Some cb \<Rightarrow>
          (let b = \<lparr>bs_kind = BkNone, bs_id = '''', bs_name = '''', bs_json = '''', bs_sig = ''''\<rparr>; i = se_index ev
           in if cb_type cb = ''text''
              then seq_cmd (set_cmd (put_block i (b\<lparr>bs_kind := BkText\<rparr>))) (emit (EvTextStart (textID i) None))
              else if cb_type cb = ''thinking''
              then seq_cmd (set_cmd (put_block i (b\<lparr>bs_kind := BkReasoning\<rparr>)))
                     (emit (EvReasoningStart (reasoningID i) None))
              else if cb_type cb = ''tool_use''
              then seq_cmd (set_cmd (put_block i (b\<lparr>bs_kind := BkTool, bs_id := cb_id cb, bs_name := cb_name cb\<rparr>)))
                     (emit (EvToolInputStart (cb_id cb) (cb_name cb)))
              else set_cmd (put_block i b)))"

definition deltaBlock :: "stream_event \<Rightarrow> ant_state cmd" where
  "deltaBlock ev =
     get_cmd (\<lambda>s. let i = se_index ev in
       case (gm_get (ans_blocks s) i, se_delta ev) of
         (Some b, Some d) \<Rightarrow>
           if ad_type d = ''text_delta'' then emit (EvTextDelta (textID i) (ad_text d) None)
           else if ad_type d = ''thinking_delta'' then emit (EvReasoningDelta (reasoningID i) (ad_thinking d) None)
           else if ad_type d = ''signature_delta''
           then set_cmd (put_block i (b\<lparr>bs_sig := bs_sig b @ ad_signature d\<rparr>))
           else if ad_type d = ''input_json_delta''
           then seq_cmd (set_cmd (put_block i (b\<lparr>bs_json := bs_json b @ ad_partial_json d\<rparr>)))
                  (emit (EvToolInputDelta (bs_id b) (ad_partial_json d)))
           else skip_cmd
       | _ \<Rightarrow> skip_cmd)"

definition signature_meta :: "string \<Rightarrow> jmap" where
  "signature_meta sig = (if sig \<noteq> '''' then [(''anthropic'', JObj [(''signature'', JStr sig)])] else [])"

definition stopBlock :: "(string \<Rightarrow> jmap option option) \<Rightarrow> stream_event \<Rightarrow> ant_state cmd" where
  "stopBlock unmarshal_args ev =
     get_cmd (\<lambda>s. let i = se_index ev in
       case gm_get (ans_blocks s) i of
         None \<Rightarrow> skip_cmd
       | Some b \<Rightarrow>
           (case bs_kind b of
              BkText \<Rightarrow> emit (EvTextEnd (textID i))
            | BkReasoning \<Rightarrow> emit (EvReasoningEnd (reasoningID i) (Some (signature_meta (bs_sig b))))
            | BkTool \<Rightarrow>
                seq_cmd (emit (EvToolInputEnd (bs_id b)))
                  (emit (EvToolCall (bs_id b) (bs_name b) (parseArgs unmarshal_args (bs_json b)) None))
            | BkNone \<Rightarrow> skip_cmd))"

definition use_usage :: "ant_usage option \<Rightarrow> ant_state cmd" where
  "use_usage u = (case u of None \<Rightarrow> skip_cmd | Some a \<Rightarrow> set_cmd (ans_usage_update (applyUsage a)))"

definition error_text :: "stream_event \<Rightarrow> string" where
  "error_text ev = (case se_failure ev of None \<Rightarrow> '''' | Some m \<Rightarrow> m)"

definition handleEvent :: "(string \<Rightarrow> jmap option option) \<Rightarrow> stream_event \<Rightarrow> ant_state cmd" where
  "handleEvent unmarshal_args ev =
     (if se_type ev = ''message_start'' then use_usage (se_message_usage ev)
      else if se_type ev = ''content_block_start'' then startBlock ev
      else if se_type ev = ''content_block_delta'' then deltaBlock ev
      else if se_type ev = ''content_block_stop'' then stopBlock unmarshal_args ev
      else if se_type ev = ''message_delta''
      then seq_cmd
             (case se_delta ev of
                None \<Rightarrow> skip_cmd
              | Some d \<Rightarrow> when_cmd (ad_stop_reason d \<noteq> '''')
                            (set_cmd (ans_stop_update (\<lambda>_. mapStopReason (ad_stop_reason d)))))
             (use_usage (se_usage ev))
      else if se_type ev = ''error''
      then seq_cmd (emit (EvProviderError 0 (error_text ev))) stop_cmd
      else skip_cmd)"

subsection \<open>The stream\<close>

function ant_read ::
  "(string \<Rightarrow> stream_event option) \<Rightarrow> (string \<Rightarrow> jmap option option) \<Rightarrow> string \<Rightarrow> ant_state cmd" where
  "ant_read unmarshal_event unmarshal_args body =
     (case read_string body of (line, rest, err) \<Rightarrow>
        (let next_line = (if err then skip_cmd else ant_read unmarshal_event unmarshal_args rest)
         in case sseData line of
           None \<Rightarrow> next_line
         | Some d \<Rightarrow>
             if d = '''' then next_line
             else (case unmarshal_event d of
                     None \<Rightarrow> ant_read unmarshal_event unmarshal_args rest
                   | Some ev \<Rightarrow>
                       seq_cmd (handleEvent unmarshal_args ev)
                         (if se_type ev = ''message_stop'' then skip_cmd else next_line))))"
  by pat_completeness auto
termination
  by (relation "measure (\<lambda>(u, a, b). length b)") (auto intro!: read_string_progress dest: sym)

declare ant_read.simps [simp del]

definition ant_consume ::
  "(string \<Rightarrow> stream_event option) \<Rightarrow> (string \<Rightarrow> jmap option option) \<Rightarrow> string \<Rightarrow> ant_state cmd" where
  "ant_consume unmarshal_event unmarshal_args body =
     seq_cmd (emit EvStepStart)
    (seq_cmd (ant_read unmarshal_event unmarshal_args body)
    (seq_cmd (get_cmd (\<lambda>s. emit (EvStepFinish (if ans_stop s = '''' then ''stop'' else ans_stop s)
                              (Some (ans_usage s)))))
       (emit EvFinish)))"

subsection \<open>The events of a body\<close>

text \<open>The server events read from a body, the last one being the first \<^verbatim>\<open>message_stop\<close>, if any.\<close>

function events_read :: "(string \<Rightarrow> stream_event option) \<Rightarrow> string \<Rightarrow> stream_event list" where
  "events_read unmarshal_event body =
     (case read_string body of (line, rest, err) \<Rightarrow>
        (let next_line = (if err then [] else events_read unmarshal_event rest)
         in case sseData line of
           None \<Rightarrow> next_line
         | Some d \<Rightarrow>
             if d = '''' then next_line
             else (case unmarshal_event d of
                     None \<Rightarrow> events_read unmarshal_event rest
                   | Some ev \<Rightarrow> ev # (if se_type ev = ''message_stop'' then [] else next_line))))"
  by pat_completeness auto
termination
  by (relation "measure (\<lambda>(u, b). length b)") (auto intro!: read_string_progress dest: sym)

declare events_read.simps [simp del]

lemma seq_skip [simp]: "seq_cmd c skip_cmd = c"
  by (intro ext) (auto simp: seq_cmd_def skip_cmd_def split: prod.split option.split)

lemma skip_seq [simp]: "seq_cmd skip_cmd c = c"
  by (intro ext) (auto simp: seq_cmd_def skip_cmd_def)

lemma seq_assoc: "seq_cmd (seq_cmd a b) c = seq_cmd a (seq_cmd b c)"
  by (intro ext) (auto simp: seq_cmd_def split: prod.split option.split)

lemma each_append: "each_cmd c (xs @ ys) = seq_cmd (each_cmd c xs) (each_cmd c ys)"
  by (induction xs) (auto simp: seq_assoc)

lemma read_each: "ant_read ue ua body = each_cmd (handleEvent ua) (events_read ue body)"
proof (induction ue ua body rule: ant_read.induct)
  case (1 ue ua body)
  obtain line rest err where r: "read_string body = (line, rest, err)" by (cases "read_string body")
  note IH = 1 [OF r [symmetric] refl]
  show ?case
    unfolding ant_read.simps [of ue ua body] events_read.simps [of ue body] r prod.case Let_def
    using IH by (auto split: option.split)
qed

lemma startBlock_regular: "regular (startBlock ev)"
  by (cases "se_content_block ev") (simp_all add: startBlock_def Let_def regular)

lemma deltaBlock_regular: "regular (deltaBlock ev)"
  unfolding deltaBlock_def Let_def
  by (rule regular_get) (simp add: regular split: option.split)

lemma stopBlock_regular: "regular (stopBlock ua ev)"
  unfolding stopBlock_def Let_def
  by (rule regular_get) (simp add: regular split: option.split block_kind.split)

lemma use_usage_regular: "regular (use_usage u)"
  by (cases u) (simp_all add: use_usage_def regular)

lemma handleEvent_regular: "regular (handleEvent ua ev)"
  by (cases "se_delta ev")
    (simp_all add: handleEvent_def regular startBlock_regular deltaBlock_regular stopBlock_regular
      use_usage_regular)

lemma ant_consume_regular: "regular (ant_consume ue ua body)"
  unfolding ant_consume_def read_each by (auto intro!: regular handleEvent_regular)

subsection \<open>How a stream ends\<close>

definition is_error :: "stream_event \<Rightarrow> bool" where
  "is_error ev = (se_type ev = ''error'')"

definition usage_step :: "stream_event \<Rightarrow> token_usage \<Rightarrow> token_usage" where
  "usage_step ev u =
     (if se_type ev = ''message_start''
      then (case se_message_usage ev of None \<Rightarrow> u | Some a \<Rightarrow> applyUsage a u)
      else if se_type ev = ''message_delta''
      then (case se_usage ev of None \<Rightarrow> u | Some a \<Rightarrow> applyUsage a u) else u)"

definition stop_step :: "stream_event \<Rightarrow> string \<Rightarrow> string" where
  "stop_step ev r =
     (case se_delta ev of
        Some d \<Rightarrow> if se_type ev = ''message_delta'' \<and> ad_stop_reason d \<noteq> ''''
                  then mapStopReason (ad_stop_reason d) else r
      | None \<Rightarrow> r)"

definition plain_so_far :: "stream_event list \<Rightarrow> ant_state \<Rightarrow> llm_event list \<Rightarrow> bool" where
  "plain_so_far es s e =
     ((\<exists>mid. e = EvStepStart # mid \<and> (\<forall>ev \<in> set mid. \<not> terminal ev)) \<and>
      ans_usage s = fold usage_step es zero_usage \<and> ans_stop s = fold stop_step es '''')"

lemma put_block_frame [frame]:
  "ans_usage (put_block i b s) = ans_usage s" "ans_stop (put_block i b s) = ans_stop s"
  "gm_get (ans_blocks (put_block i b s)) = (gm_get (ans_blocks s))(i \<mapsto> b)"
  by (simp_all add: put_block_def fun_eq_iff)

lemma start_plain: "triple (plain_so_far es) (startBlock ev) (plain_so_far es)"
  by (auto simp: startBlock_def Let_def plain_so_far_def frame terminal_def
      intro!: triple_skip triple_set triple_emit triple_seq [where Q = "plain_so_far es"]
      split: option.split)

lemma delta_plain: "triple (plain_so_far es) (deltaBlock ev) (plain_so_far es)"
  unfolding deltaBlock_def Let_def
  by (rule triple_get)
    (auto simp: plain_so_far_def frame terminal_def
      intro!: triple_skip triple_set triple_emit triple_seq [where Q = "plain_so_far es"]
      split: option.split)

lemma stop_plain: "triple (plain_so_far es) (stopBlock ua ev) (plain_so_far es)"
  unfolding stopBlock_def Let_def
  by (rule triple_get)
    (auto simp: plain_so_far_def frame terminal_def
      intro!: triple_skip triple_set triple_emit triple_seq [where Q = "plain_so_far es"]
      split: option.split block_kind.split)

lemma plain_step:
  assumes "\<not> is_error ev"
  shows "triple (plain_so_far es) (handleEvent ua ev) (plain_so_far (es @ [ev]))"
proof (cases "se_type ev = ''message_start'' \<or> se_type ev = ''message_delta''")
  case True
  then show ?thesis
    by (auto simp: handleEvent_def use_usage_def plain_so_far_def usage_step_def stop_step_def when_cmd_def
        intro!: triple_skip triple_set
          triple_seq [where Q = "\<lambda>s e. plain_so_far es (s\<lparr>ans_stop := fold stop_step es ''''\<rparr>) e \<and>
            ans_stop s = fold stop_step (es @ [ev]) ''''"]
        split: option.split)
next
  case False
  then have same: "plain_so_far (es @ [ev]) = plain_so_far es"
    by (intro ext) (simp add: plain_so_far_def usage_step_def stop_step_def split: option.split)
  show ?thesis
    unfolding same using False assms start_plain delta_plain stop_plain
    by (simp add: handleEvent_def is_error_def triple_skip)
qed

lemma plain_each:
  "\<forall>ev \<in> set xs. \<not> is_error ev
   \<Longrightarrow> triple (plain_so_far es) (each_cmd (handleEvent ua) xs) (plain_so_far (es @ xs))"
proof (induction xs arbitrary: es)
  case (Cons x xs)
  from triple_seq [OF plain_step [of x es ua] Cons.IH [of "es @ [x]"]] Cons.prems
  show ?case by simp
qed (auto intro: triple_skip)

definition ant_result :: "stream_event list \<Rightarrow> llm_event list \<Rightarrow> bool" where
  "ant_result es evs =
     (let ok = takeWhile (\<lambda>ev. \<not> is_error ev) es in
      \<exists>mid. (\<forall>ev \<in> set mid. \<not> terminal ev) \<and>
        evs = EvStepStart # mid @
          (if ok = es
           then [EvStepFinish (if fold stop_step es '''' = '''' then ''stop'' else fold stop_step es '''')
                   (Some (fold usage_step es zero_usage)), EvFinish]
           else [EvProviderError 0 (error_text (es ! length ok))]))"

lemma ant_consume_result:
  "outcome (\<lambda>s e. s = ant_init \<and> e = []) (ant_consume ue ua body)
     (\<lambda>s. ant_result (events_read ue body)) (ant_result (events_read ue body))"
proof -
  define es where "es = events_read ue body"
  define ok where "ok = takeWhile (\<lambda>ev. \<not> is_error ev) es"
  have ok: "\<forall>ev \<in> set ok. \<not> is_error ev" by (auto simp: ok_def dest: set_takeWhileD)
  have start: "outcome (\<lambda>s e. s = ant_init \<and> e = []) (emit EvStepStart) (plain_so_far []) (ant_result es)"
    by (rule triple_emit) (auto simp: plain_so_far_def ant_init_def)
  have read: "outcome (plain_so_far []) (each_cmd (handleEvent ua) es)
      (\<lambda>s e. ok = es \<and> plain_so_far es s e) (ant_result es)"
  proof (cases "dropWhile (\<lambda>ev. \<not> is_error ev) es")
    case Nil
    then have "ok = es" unfolding ok_def by (metis takeWhile_dropWhile_id append_Nil2)
    then show ?thesis
      using triple_weak [OF plain_each [OF ok, of "[]" ua]] by simp
  next
    case (Cons x rest)
    then have es: "es = ok @ x # rest" unfolding ok_def by (metis takeWhile_dropWhile_id)
    have x: "se_type x = ''error''"
      using Cons hd_dropWhile [of "\<lambda>ev. \<not> is_error ev" es] by (auto simp: is_error_def)
    have result: "ant_result es (e @ [EvProviderError 0 (error_text x)])" if "plain_so_far ok s e" for s e
    proof -
      have "ok \<noteq> es" "es ! length ok = x" using es by auto
      then show ?thesis using that
        by (auto simp: ant_result_def plain_so_far_def Let_def ok_def [symmetric])
    qed
    have "outcome (plain_so_far ok) (handleEvent ua x) (\<lambda>s e. False) (ant_result es)"
      using x result
      by (auto simp: handleEvent_def intro!: triple_emit triple_stop triple_seq [where Q = "\<lambda>s. ant_result es"])
    then have err: "outcome (plain_so_far ok) (each_cmd (handleEvent ua) (x # rest))
        (\<lambda>s e. ok = es \<and> plain_so_far es s e) (ant_result es)"
      unfolding each_cmd.simps by (rule triple_seq) (rule triple_vacuous, simp)
    have "outcome (plain_so_far []) (each_cmd (handleEvent ua) ok) (plain_so_far ok) (ant_result es)"
      using triple_weak [OF plain_each [OF ok, of "[]" ua]] by simp
    from triple_seq [OF this err] have
      "outcome (plain_so_far []) (each_cmd (handleEvent ua) (ok @ x # rest))
        (\<lambda>s e. ok = es \<and> plain_so_far es s e) (ant_result es)"
      unfolding each_append .
    then show ?thesis by (simp only: es [symmetric])
  qed
  have fin: "outcome (\<lambda>s e. ok = es \<and> plain_so_far es s e)
      (seq_cmd (get_cmd (\<lambda>s. emit (EvStepFinish (if ans_stop s = '''' then ''stop'' else ans_stop s)
         (Some (ans_usage s))))) (emit EvFinish)) (\<lambda>s. ant_result es) (ant_result es)"
    by (rule triple_seq [where Q = "\<lambda>s e. \<exists>e0. ok = es \<and> plain_so_far es s e0 \<and> e = e0 @
          [EvStepFinish (if ans_stop s = '''' then ''stop'' else ans_stop s) (Some (ans_usage s))]"],
        rule triple_get, rule triple_emit, blast, rule triple_emit)
      (auto simp: plain_so_far_def ant_result_def Let_def ok_def [symmetric])
  show ?thesis
    unfolding ant_consume_def read_each es_def [symmetric]
    by (rule triple_seq [OF start triple_seq [OF read fin]])
qed

text \<open>
  C20. How an Anthropic stream ends: after a step start and content events, either every server
  event up to the message stop was processed and the stream closes with a step finish, carrying
  the last stop reason given (or \<^verbatim>\<open>stop\<close>) and the merged usage, and a finish; or one of them was an
  error, and the stream closes with that provider error alone, with no finish.
\<close>

theorem anthropic_stream_end:
  "ant_result (events_read ue body) (sent_all (ant_consume ue ua body) ant_init)"
  using outcome_all [OF ant_consume_result [of ue ua body], of ant_init] by auto

type_synonym ant_input =
  "(string \<Rightarrow> stream_event option) \<times> (string \<Rightarrow> jmap option option) \<times> string"

definition ant_whole :: "ant_input \<Rightarrow> llm_event list" where
  "ant_whole = (\<lambda>(ue, ua, body). sent_all (ant_consume ue ua body) ant_init)"

definition ant_cut :: "nat \<Rightarrow> ant_input \<Rightarrow> llm_event list" where
  "ant_cut n = (\<lambda>(ue, ua, body). sent_cut n (ant_consume ue ua body) ant_init)"

lemma ant_shape: "stream_shape (ant_whole i)"
proof -
  obtain ue ua body where i: "i = (ue, ua, body)" by (cases i)
  from outcome_all [OF ant_consume_result [of ue ua body], of ant_init]
  have r: "ant_result (events_read ue body) (ant_whole i)" by (auto simp: i ant_whole_def)
  show ?thesis
  proof (cases "takeWhile (\<lambda>ev. \<not> is_error ev) (events_read ue body) = events_read ue body")
    case True
    with r show ?thesis unfolding ant_result_def stream_shape_def Let_def by (simp only: simp_thms if_True) blast
  next
    case False
    with r show ?thesis unfolding ant_result_def stream_shape_def Let_def by (simp only: if_False) blast
  qed
qed

lemma ant_prefix: "ant_cut n i = take n (ant_whole i)"
  by (auto simp: ant_whole_def ant_cut_def regular_cut ant_consume_regular split: prod.split)

interpretation ant: stream_source ant_whole ant_cut
  by unfold_locales (rule ant_shape, rule ant_prefix)

subsection \<open>What becomes of a block\<close>

definition starts_at :: "int \<Rightarrow> stream_event \<Rightarrow> bool" where
  "starts_at i ev =
     (se_type ev = ''content_block_start'' \<and> se_content_block ev \<noteq> None \<and> se_index ev = i)"

definition partial_json :: "int \<Rightarrow> stream_event \<Rightarrow> string" where
  "partial_json i ev =
     (case se_delta ev of
        Some d \<Rightarrow> if se_type ev = ''content_block_delta'' \<and> se_index ev = i \<and> ad_type d = ''input_json_delta''
                  then ad_partial_json d else ''''
      | None \<Rightarrow> '''')"

definition partial_sig :: "int \<Rightarrow> stream_event \<Rightarrow> string" where
  "partial_sig i ev =
     (case se_delta ev of
        Some d \<Rightarrow> if se_type ev = ''content_block_delta'' \<and> se_index ev = i \<and> ad_type d = ''signature_delta''
                  then ad_signature d else ''''
      | None \<Rightarrow> '''')"

definition block_is :: "int \<Rightarrow> block_state \<Rightarrow> ant_state \<Rightarrow> llm_event list \<Rightarrow> bool" where
  "block_is i b s e = (gm_get (ans_blocks s) i = Some b)"

lemma delta_at:
  assumes "se_type ev = ''content_block_delta''" "se_index ev = i"
  shows "triple (block_is i b) (deltaBlock ev)
    (block_is i (b\<lparr>bs_json := bs_json b @ partial_json i ev, bs_sig := bs_sig b @ partial_sig i ev\<rparr>))"
  unfolding deltaBlock_def Let_def
proof (rule triple_get)
  fix s0
  let ?b = "b\<lparr>bs_json := bs_json b @ partial_json i ev, bs_sig := bs_sig b @ partial_sig i ev\<rparr>"
  show "triple (\<lambda>s e. block_is i b s e \<and> s = s0)
     (case (gm_get (ans_blocks s0) (se_index ev), se_delta ev) of
         (Some b, Some d) \<Rightarrow>
           if ad_type d = ''text_delta'' then emit (EvTextDelta (textID (se_index ev)) (ad_text d) None)
           else if ad_type d = ''thinking_delta''
           then emit (EvReasoningDelta (reasoningID (se_index ev)) (ad_thinking d) None)
           else if ad_type d = ''signature_delta''
           then set_cmd (put_block (se_index ev) (b\<lparr>bs_sig := bs_sig b @ ad_signature d\<rparr>))
           else if ad_type d = ''input_json_delta''
           then seq_cmd (set_cmd (put_block (se_index ev) (b\<lparr>bs_json := bs_json b @ ad_partial_json d\<rparr>)))
                  (emit (EvToolInputDelta (bs_id b) (ad_partial_json d)))
           else skip_cmd
       | _ \<Rightarrow> skip_cmd) (block_is i ?b)"
  proof (cases "gm_get (ans_blocks s0) i = Some b")
    case False
    then show ?thesis by (intro triple_vacuous) (auto simp: block_is_def)
  next
    case True
    show ?thesis
    proof (cases "se_delta ev")
      case None
      with True assms show ?thesis
        by (auto simp: partial_json_def partial_sig_def intro!: triple_skip)
    next
      case (Some d)
      have "outcome (\<lambda>s e. block_is i b s e \<and> s = s0)
          (seq_cmd (set_cmd (put_block i (b\<lparr>bs_json := bs_json b @ ad_partial_json d\<rparr>)))
             (emit (EvToolInputDelta (bs_id b) (ad_partial_json d))))
          (block_is i (b\<lparr>bs_json := bs_json b @ ad_partial_json d\<rparr>)) (\<lambda>_. False)"
        by (rule triple_seq [where Q = "block_is i (b\<lparr>bs_json := bs_json b @ ad_partial_json d\<rparr>)"],
            rule triple_set, simp add: block_is_def frame, rule triple_emit, simp add: block_is_def)
      with Some True assms show ?thesis
        by (auto simp: partial_json_def partial_sig_def block_is_def frame
            intro!: triple_skip triple_emit triple_set)
    qed
  qed
qed

lemma delta_other: "se_index ev \<noteq> i \<Longrightarrow> triple (block_is i b) (deltaBlock ev) (block_is i b)"
  unfolding deltaBlock_def Let_def
  by (rule triple_get)
    (auto simp: block_is_def frame intro!: triple_skip triple_set triple_emit
      triple_seq [where Q = "block_is i b"] split: option.split)

lemma start_other: "se_content_block ev = None \<or> se_index ev \<noteq> i
  \<Longrightarrow> triple (block_is i b) (startBlock ev) (block_is i b)"
  by (auto simp: startBlock_def Let_def block_is_def frame intro!: triple_skip triple_set triple_emit
      triple_seq [where Q = "block_is i b"] split: option.split)

lemma stop_block_is: "triple (block_is i b) (stopBlock ua ev) (block_is i b)"
  unfolding stopBlock_def Let_def
  by (rule triple_get)
    (auto simp: block_is_def intro!: triple_skip triple_emit
      triple_seq [where Q = "block_is i b"] split: option.split block_kind.split)

lemma usage_block_is: "triple (block_is i b) (use_usage u) (block_is i b)"
  by (auto simp: use_usage_def block_is_def intro!: triple_skip triple_set split: option.split)

lemma block_mid_step:
  assumes "\<not> is_error ev" "\<not> starts_at i ev"
  shows "triple (block_is i b) (handleEvent ua ev)
    (block_is i (b\<lparr>bs_json := bs_json b @ partial_json i ev, bs_sig := bs_sig b @ partial_sig i ev\<rparr>))"
proof (cases "se_type ev = ''content_block_delta'' \<and> se_index ev = i")
  case True
  with delta_at show ?thesis by (simp add: handleEvent_def)
next
  case False
  then have none: "partial_json i ev = ''''" "partial_sig i ev = ''''"
    by (auto simp: partial_json_def partial_sig_def split: option.split)
  have reason: "triple (block_is i b)
      (seq_cmd (case se_delta ev of None \<Rightarrow> skip_cmd
                | Some d \<Rightarrow> when_cmd (ad_stop_reason d \<noteq> '''')
                            (set_cmd (ans_stop_update (\<lambda>_. mapStopReason (ad_stop_reason d)))))
        (use_usage (se_usage ev))) (block_is i b)"
    by (rule triple_seq [OF _ usage_block_is])
      (auto simp: block_is_def when_cmd_def intro!: triple_skip triple_set split: option.split)
  have start: "se_type ev = ''content_block_start''
      \<Longrightarrow> triple (block_is i b) (startBlock ev) (block_is i b)"
    using assms(2) by (auto simp: starts_at_def intro!: start_other)
  have "triple (block_is i b) (handleEvent ua ev) (block_is i b)"
    using False assms(1) delta_other [of ev i b] reason start stop_block_is usage_block_is
    by (simp add: handleEvent_def is_error_def triple_skip)
  then show ?thesis by (simp add: none)
qed

lemma block_mid:
  "\<forall>ev \<in> set mid. \<not> is_error ev \<and> \<not> starts_at i ev
   \<Longrightarrow> triple (block_is i b) (each_cmd (handleEvent ua) mid)
     (block_is i (b\<lparr>bs_json := bs_json b @ concat (map (partial_json i) mid),
                    bs_sig := bs_sig b @ concat (map (partial_sig i) mid)\<rparr>))"
proof (induction mid arbitrary: b)
  case (Cons x xs)
  from triple_seq [OF block_mid_step [of x i b ua] Cons.IH] Cons.prems show ?case by simp
qed (auto intro: triple_skip)

lemma triple_keep:
  assumes "regular c" "\<And>e f. E e \<Longrightarrow> E (e @ f)"
  shows "outcome (\<lambda>s. E) c (\<lambda>s. E) E"
  unfolding outcome_def
proof (intro allI impI)
  fix s e assume "E e"
  from assms(1) obtain f r where "sends c s f r" unfolding regular_def by blast
  with \<open>E e\<close> assms(2) show "\<exists>f r. sends c s f r \<and> (case r of Some s' \<Rightarrow> E (e @ f) | None \<Rightarrow> E (e @ f))"
    by (intro exI [of _ f] exI [of _ r]) (simp split: option.split)
qed

definition fresh_block :: "content_block \<Rightarrow> block_kind \<Rightarrow> block_state" where
  "fresh_block cb k =
     (if k = BkTool then \<lparr>bs_kind = k, bs_id = cb_id cb, bs_name = cb_name cb, bs_json = '''', bs_sig = ''''\<rparr>
      else \<lparr>bs_kind = k, bs_id = '''', bs_name = '''', bs_json = '''', bs_sig = ''''\<rparr>)"

definition kind_name :: "block_kind \<Rightarrow> string" where
  "kind_name k =
     (case k of BkText \<Rightarrow> ''text'' | BkTool \<Rightarrow> ''tool_use'' | BkReasoning \<Rightarrow> ''thinking'' | BkNone \<Rightarrow> '''')"

definition closing_events :: "(string \<Rightarrow> jmap option option) \<Rightarrow> int \<Rightarrow> block_state \<Rightarrow> llm_event list" where
  "closing_events ua i b =
     (case bs_kind b of
        BkText \<Rightarrow> [EvTextEnd (textID i)]
      | BkReasoning \<Rightarrow> [EvReasoningEnd (reasoningID i) (Some (signature_meta (bs_sig b)))]
      | BkTool \<Rightarrow> [EvToolInputEnd (bs_id b), EvToolCall (bs_id b) (bs_name b) (parseArgs ua (bs_json b)) None]
      | BkNone \<Rightarrow> [])"

lemma start_at:
  assumes "se_content_block ev = Some cb" "se_index ev = i" "cb_type cb = kind_name k"
  shows "outcome P (startBlock ev) (block_is i (fresh_block cb k)) F"
proof -
  have emit_ok: "outcome (block_is i b) (emit x) (block_is i b) F" for b x
    by (rule triple_emit) (simp add: block_is_def)
  have put_ok: "outcome P (set_cmd (put_block i b)) (block_is i b) F" for b
    by (rule triple_set) (simp add: block_is_def frame)
  show ?thesis
    using assms triple_seq [OF put_ok emit_ok]
    by (cases k) (auto simp: startBlock_def Let_def kind_name_def fresh_block_def put_ok)
qed

lemma stop_at:
  assumes "se_index ev = i"
  shows "triple (block_is i b) (stopBlock ua ev) (\<lambda>s e. \<exists>e0. e = e0 @ closing_events ua i b)"
  unfolding stopBlock_def Let_def
proof (rule triple_get)
  fix s0
  have two: "outcome P (seq_cmd (emit x) (emit y)) (\<lambda>s e. \<exists>e0. e = e0 @ [x, y]) F" for P F and x y
    by (rule triple_seq [where Q = "\<lambda>s e. \<exists>e0. e = e0 @ [x]"]) (auto intro!: triple_emit)
  show "triple (\<lambda>s e. block_is i b s e \<and> s = s0)
     (case gm_get (ans_blocks s0) (se_index ev) of
         None \<Rightarrow> skip_cmd
       | Some b \<Rightarrow>
           (case bs_kind b of
              BkText \<Rightarrow> emit (EvTextEnd (textID (se_index ev)))
            | BkReasoning \<Rightarrow> emit (EvReasoningEnd (reasoningID (se_index ev)) (Some (signature_meta (bs_sig b))))
            | BkTool \<Rightarrow>
                seq_cmd (emit (EvToolInputEnd (bs_id b)))
                  (emit (EvToolCall (bs_id b) (bs_name b) (parseArgs ua (bs_json b)) None))
            | BkNone \<Rightarrow> skip_cmd)) (\<lambda>s e. \<exists>e0. e = e0 @ closing_events ua i b)"
  proof (cases "gm_get (ans_blocks s0) i = Some b")
    case False
    then show ?thesis by (intro triple_vacuous) (auto simp: block_is_def)
  next
    case True
    with assms show ?thesis
      by (cases "bs_kind b") (auto simp: closing_events_def two intro!: triple_emit triple_skip)
  qed
qed

text \<open>
  What an Anthropic content block becomes. Let the events read contain a block start at an
  index, then events with no other start at it, then its stop, with no error up to there. Then the
  stream closes the block: a tool block with its input end followed at once by one tool call whose
  arguments are parsed from the concatenation of all its partial JSON, a reasoning block with the
  concatenation of its signature deltas, a text block with its end.
\<close>

theorem anthropic_block_closed:
  assumes "events_read ue body = pre @ start # mid @ stop # post"
    and start: "se_type start = ''content_block_start''" "se_index start = i"
      "se_content_block start = Some cb" "cb_type cb = kind_name k"
    and stop: "se_type stop = ''content_block_stop''" "se_index stop = i"
    and mid: "\<forall>ev \<in> set mid. \<not> starts_at i ev"
    and no_error: "\<forall>ev \<in> set pre \<union> set mid. se_type ev \<noteq> ''error''"
  shows "\<exists>before after. sent_all (ant_consume ue ua body) ant_init = before @
    closing_events ua i ((fresh_block cb k)\<lparr>bs_json := concat (map (partial_json i) mid),
      bs_sig := concat (map (partial_sig i) mid)\<rparr>) @ after"
proof -
  define b where "b = (fresh_block cb k)\<lparr>bs_json := concat (map (partial_json i) mid),
      bs_sig := concat (map (partial_sig i) mid)\<rparr>"
  define E where "E = (\<lambda>e. \<exists>before after. e = before @ closing_events ua i b @ after)"
  have b: "b = (fresh_block cb k)\<lparr>bs_json := bs_json (fresh_block cb k) @ concat (map (partial_json i) mid),
      bs_sig := bs_sig (fresh_block cb k) @ concat (map (partial_sig i) mid)\<rparr>"
    by (simp add: b_def fresh_block_def)
  have opened: "outcome (\<lambda>s e. s = ant_init \<and> e = []) (emit EvStepStart) (plain_so_far []) E"
    by (rule triple_emit) (auto simp: plain_so_far_def ant_init_def)
  have pre: "outcome (plain_so_far []) (each_cmd (handleEvent ua) pre) (plain_so_far ([] @ pre)) E"
    by (rule triple_weak [OF plain_each]) (use no_error in \<open>auto simp: is_error_def\<close>)
  have starts: "outcome (plain_so_far ([] @ pre)) (handleEvent ua start) (block_is i (fresh_block cb k)) E"
    using start_at [OF start(3,2,4)] start(1) by (simp add: handleEvent_def)
  have mids: "outcome (block_is i (fresh_block cb k)) (each_cmd (handleEvent ua) mid) (block_is i b) E"
    unfolding b by (rule triple_weak [OF block_mid]) (use no_error mid in \<open>auto simp: is_error_def\<close>)
  have "triple (block_is i b) (handleEvent ua stop) (\<lambda>s e. \<exists>e0. e = e0 @ closing_events ua i b)"
    using stop_at [OF stop(2), of b ua] stop(1) by (simp add: handleEvent_def)
  then have "triple (block_is i b) (handleEvent ua stop) (\<lambda>s. E)"
    by (rule triple_post) (auto simp: E_def intro: exI [of _ "[]"])
  note stops = triple_weak [OF this]
  have grow: "E e \<Longrightarrow> E (e @ f)" for e f by (force simp: E_def)
  have rest: "outcome (\<lambda>s. E) c (\<lambda>s. E) E" if "regular c" for c :: "ant_state cmd"
    using that grow by (rule triple_keep)
  have posts: "regular (each_cmd (handleEvent ua) post)"
    by (rule regular_each) (rule handleEvent_regular)
  have ends: "regular (seq_cmd (get_cmd (\<lambda>s. emit (EvStepFinish
      (if ans_stop s = '''' then ''stop'' else ans_stop s) (Some (ans_usage s))))) (emit EvFinish))"
    by (intro regular_seq regular_get regular_basic)
  have read: "ant_read ue ua body = seq_cmd (each_cmd (handleEvent ua) pre) (seq_cmd (handleEvent ua start)
      (seq_cmd (each_cmd (handleEvent ua) mid) (seq_cmd (handleEvent ua stop) (each_cmd (handleEvent ua) post))))"
    unfolding read_each assms(1) by (simp add: each_append)
  have "outcome (\<lambda>s e. s = ant_init \<and> e = []) (ant_consume ue ua body) (\<lambda>s. E) E"
    unfolding ant_consume_def read
    by (rule triple_seq [OF opened triple_seq [OF triple_seq [OF pre triple_seq [OF starts
          triple_seq [OF mids triple_seq [OF stops rest [OF posts]]]]] rest [OF ends]]])
  from outcome_all [OF this] show ?thesis unfolding E_def b_def by simp
qed

subsection \<open>A concrete tool block\<close>

definition demo_event :: "string \<Rightarrow> stream_event" where
  "demo_event ty = \<lparr>se_type = ty, se_index = 1, se_message_usage = None, se_content_block = None,
     se_delta = None, se_usage = None, se_failure = None\<rparr>"

definition demo_block :: content_block where
  "demo_block = \<lparr>cb_type = ''tool_use'', cb_id = ''toolu_1'', cb_name = ''read''\<rparr>"

definition demo_json :: "string \<Rightarrow> ant_delta" where
  "demo_json s = \<lparr>ad_type = ''input_json_delta'', ad_text = '''', ad_partial_json = s, ad_thinking = '''',
     ad_signature = '''', ad_stop_reason = ''''\<rparr>"

definition demo_start :: stream_event where
  "demo_start = (demo_event ''content_block_start'')\<lparr>se_content_block := Some demo_block\<rparr>"

definition demo_part :: "string \<Rightarrow> stream_event" where
  "demo_part s = (demo_event ''content_block_delta'')\<lparr>se_delta := Some (demo_json s)\<rparr>"

definition demo_stop :: stream_event where
  "demo_stop = demo_event ''content_block_stop''"

definition demo_unmarshal :: "string \<Rightarrow> stream_event option" where
  "demo_unmarshal d =
     (if d = ''a'' then Some demo_start else if d = ''b'' then Some (demo_part ''{}'')
      else if d = ''c'' then Some demo_stop else None)"

definition demo_body :: string where
  "demo_body = ''data: a'' @ [CHR 0x0A] @ ''data: b'' @ [CHR 0x0A] @ ''data: c'' @ [CHR 0x0A]"

lemma demo_read: "events_read demo_unmarshal demo_body = [demo_start, demo_part ''{}'', demo_stop]"
proof -
  have l: "read_string demo_body = (''data: a'' @ [CHR 0x0A], ''data: b'' @ [CHR 0x0A] @ ''data: c'' @ [CHR 0x0A], False)"
    "read_string (''data: b'' @ [CHR 0x0A] @ ''data: c'' @ [CHR 0x0A])
       = (''data: b'' @ [CHR 0x0A], ''data: c'' @ [CHR 0x0A], False)"
    "read_string (''data: c'' @ [CHR 0x0A]) = (''data: c'' @ [CHR 0x0A], [], False)"
    "read_string [] = ([], [], True)"
    by (simp_all add: demo_body_def)
  have d: "sseData (''data: a'' @ [CHR 0x0A]) = Some ''a''" "sseData (''data: b'' @ [CHR 0x0A]) = Some ''b''"
    "sseData (''data: c'' @ [CHR 0x0A]) = Some ''c''"
    by code_simp+
  have t: "se_type demo_start \<noteq> ''message_stop''" "se_type (demo_part s) \<noteq> ''message_stop''"
    "se_type demo_stop \<noteq> ''message_stop''" for s
    by (simp_all add: demo_start_def demo_part_def demo_stop_def demo_event_def)
  have u: "demo_unmarshal ''a'' = Some demo_start" "demo_unmarshal ''b'' = Some (demo_part ''{}'')"
    "demo_unmarshal ''c'' = Some demo_stop"
    by (simp_all add: demo_unmarshal_def)
  show ?thesis
    using l d t u
    by (simp add: events_read.simps [of demo_unmarshal] del: append.simps read_string.simps)
qed

theorem anthropic_block_closed_witness:
  "\<exists>before after. sent_all (ant_consume demo_unmarshal (\<lambda>s. None) demo_body) ant_init = before @
    closing_events (\<lambda>s. None) 1 ((fresh_block demo_block BkTool)
      \<lparr>bs_json := concat (map (partial_json 1) [demo_part ''{}'']),
       bs_sig := concat (map (partial_sig 1) [demo_part ''{}''])\<rparr>) @ after"
  by (rule anthropic_block_closed [where pre = "[]" and post = "[]" and start = demo_start and stop = demo_stop])
    (simp_all add: demo_read demo_start_def demo_part_def demo_stop_def demo_event_def demo_block_def
      kind_name_def starts_at_def)

subsection \<open>A signature's way back\<close>

text \<open>
  The signature of a closed reasoning block is what a later request replays with it.
\<close>

lemma signature_replayed: "signatureOf (Some (signature_meta sig)) = sig"
  by (simp add: signatureOf_def signature_meta_def json_field_def)

text \<open>
  Cancelling the run at any point of either provider's stream leaves exactly a prefix of the
  events the whole stream would have sent; a cut stream that shows a finish is the whole stream,
  and one that shows a finish shows no provider error.
\<close>

theorem cancelled_stream_is_prefix:
  "oai_cut n i = take n (oai_whole i) \<and> ant_cut n j = take n (ant_whole j) \<and>
   (EvFinish \<in> set (oai_cut n i) \<longrightarrow> oai_cut n i = oai_whole i) \<and>
   (EvFinish \<in> set (ant_cut n j) \<longrightarrow>
      ant_cut n j = ant_whole j \<and> (\<forall>c m. EvProviderError c m \<notin> set (ant_cut n j)))"
  using oai.cut_prefix [of n i] ant.cut_prefix [of n j] oai.finish_last [of n i] ant.finish_last [of n j]
    ant.finish_no_error [of n j] by blast

lemma empty_streams:
  "oai_cut 3 (fl, uc, ua, '''') = [EvStepStart, EvStepFinish ''stop'' None, EvFinish]"
  "ant_cut 3 (ue, ua, '''') = [EvStepStart, EvStepFinish ''stop'' (Some zero_usage), EvFinish]"
  by (simp_all add: oai_cut_def ant_cut_def sent_cut_def oai_consume_def ant_consume_def read_each
      oai_read.simps [of fl uc "''''"] events_read.simps [of ue "''''"] seq_cmd_def get_cmd_def emit_def
      when_cmd_def skip_cmd_def oai_init_def ant_init_def numeral_3_eq_3)

theorem cancelled_stream_is_prefix_witness:
  "oai_cut 3 (\<lambda>r. r, \<lambda>s. None, \<lambda>s. None, '''') = oai_whole (\<lambda>r. r, \<lambda>s. None, \<lambda>s. None, '''') \<and>
   ant_cut 3 (\<lambda>s. None, \<lambda>s. None, '''') = ant_whole (\<lambda>s. None, \<lambda>s. None, '''')"
proof -
  have "EvFinish \<in> set (oai_cut 3 (\<lambda>r. r, \<lambda>s. None, \<lambda>s. None, ''''))"
    "EvFinish \<in> set (ant_cut 3 (\<lambda>s. None, \<lambda>s. None, ''''))"
    by (simp_all add: empty_streams)
  then show ?thesis
    using cancelled_stream_is_prefix
      [of 3 "(\<lambda>r. r, \<lambda>s. None, \<lambda>s. None, '''')" "(\<lambda>s. None, \<lambda>s. None, '''')"] by blast
qed

end
