(* ===== verification/Catalog.thy ===== *)
theory Catalog
  imports Messages AnthropicStream
begin

text \<open>
  Prices and limits of models (\<^verbatim>\<open>internal/engine/catalog/catalog.go\<close>) and the overflow test of the
  processor (\<^verbatim>\<open>internal/engine/processor/overflow.go\<close>, \<^verbatim>\<open>tokensFromUsage\<close> of \<^verbatim>\<open>emit.go\<close>). \<open>fl\<close> is
  the rounding of a floating-point operation; the lemmas ask of it only that it is monotone and
  keeps zero.
\<close>

subsection \<open>The catalog\<close>

record cost =
  co_input :: f64
  co_output :: f64
  co_cache_read :: f64
  co_cache_write :: f64

record limit =
  li_context :: int
  li_input :: int
  li_output :: int

record modalities =
  mo_input :: "string list"
  mo_output :: "string list"

record model =
  mo_id :: string
  mo_name :: string
  mo_family :: string
  mo_release :: string
  mo_attachment :: bool
  mo_reasoning :: bool
  mo_temperature :: bool
  mo_tool_call :: bool
  mo_cost :: "cost option"
  mo_limit :: limit
  mo_modalities :: "modalities option"
  mo_status :: string

record cat_provider =
  pv_id :: string
  pv_name :: string
  pv_api :: string
  pv_npm :: string
  pv_env :: "string list"
  pv_models :: "(string, model) gomap"

type_synonym catalog = "(string, cat_provider) gomap"

definition zero_model :: model where
  "zero_model = \<lparr>mo_id = '''', mo_name = '''', mo_family = '''', mo_release = '''', mo_attachment = False,
     mo_reasoning = False, mo_temperature = False, mo_tool_call = False, mo_cost = None,
     mo_limit = \<lparr>li_context = 0, li_input = 0, li_output = 0\<rparr>, mo_modalities = None, mo_status = ''''\<rparr>"

definition Lookup :: "catalog \<Rightarrow> string \<Rightarrow> string \<Rightarrow> model \<times> bool" where
  "Lookup c provider mid =
     (case gm_get c provider of
        None \<Rightarrow> (zero_model, False)
      | Some p \<Rightarrow> (case gm_get (pv_models p) mid of None \<Rightarrow> (zero_model, False) | Some m \<Rightarrow> (m, True)))"

definition ModelCost :: "(rat \<Rightarrow> rat) \<Rightarrow> model \<Rightarrow> token_counts \<Rightarrow> f64" where
  "ModelCost fl m t =
     (case mo_cost m of
        None \<Rightarrow> 0
      | Some c \<Rightarrow>
          (let a1 = fl (tc_input t * co_input c);
               a2 = fl (a1 + fl (tc_output t * co_output c));
               a3 = fl (a2 + fl (tc_cache_read t * co_cache_read c));
               a4 = fl (a3 + fl (tc_cache_write t * co_cache_write c));
               a5 = fl (a4 + fl (tc_reasoning t * co_output c))
           in fl (a5 / 1000000)))"

definition CostOf :: "(rat \<Rightarrow> rat) \<Rightarrow> catalog \<Rightarrow> string \<Rightarrow> string \<Rightarrow> token_counts \<Rightarrow> f64" where
  "CostOf fl c provider mid t =
     (case Lookup c provider mid of
        (m, ok) \<Rightarrow> if \<not> ok \<or> mo_cost m = None then 0 else ModelCost fl m t)"

definition HasModality :: "model \<Rightarrow> string \<Rightarrow> bool" where
  "HasModality m modality =
     (case mo_modalities m of None \<Rightarrow> modality = ''text'' | Some ms \<Rightarrow> modality \<in> set (mo_input ms))"

subsection \<open>Tokens and overflow\<close>

definition tokensFromUsage :: "(rat \<Rightarrow> rat) \<Rightarrow> token_usage option \<Rightarrow> token_counts" where
  "tokensFromUsage fl u =
     (case u of
        None \<Rightarrow> zero_tokens
      | Some u \<Rightarrow>
          \<lparr>tc_total = Some (fl (fl (fl (fl (u_input u + u_output u) + u_reasoning u) + u_cache_read u)
                              + u_cache_write u)),
           tc_input = u_input u, tc_output = u_output u, tc_reasoning = u_reasoning u,
           tc_cache_read = u_cache_read u, tc_cache_write = u_cache_write u\<rparr>)"

definition totalTokens :: "(rat \<Rightarrow> rat) \<Rightarrow> token_counts \<Rightarrow> f64" where
  "totalTokens fl t =
     (case tc_total t of
        Some n \<Rightarrow> if n > 0 then n
                  else fl (fl (fl (tc_input t + tc_output t) + tc_cache_read t) + tc_cache_write t)
      | None \<Rightarrow> fl (fl (fl (tc_input t + tc_output t) + tc_cache_read t) + tc_cache_write t))"

definition usableContext :: "(rat \<Rightarrow> rat) \<Rightarrow> model \<Rightarrow> f64" where
  "usableContext fl m =
     (let l = mo_limit m in
      if li_input l > 0 then fl (of_int (li_input l))
      else if li_context l \<le> 0 then 0
      else (let usable = fl (fl (of_int (li_context l)) - fl (of_int (li_output l)))
            in if usable \<le> 0 then fl (of_int (li_context l)) else usable))"

definition isOverflow :: "(rat \<Rightarrow> rat) \<Rightarrow> token_counts \<Rightarrow> model \<Rightarrow> bool" where
  "isOverflow fl t m =
     (let usable = usableContext fl m in if usable \<le> 0 then False else totalTokens fl t \<ge> usable)"

subsection \<open>Costs are never negative\<close>

definition rounding :: "(rat \<Rightarrow> rat) \<Rightarrow> bool" where
  "rounding fl = (mono fl \<and> fl 0 = 0)"

lemma fl_nonneg: "rounding fl \<Longrightarrow> 0 \<le> x \<Longrightarrow> 0 \<le> fl x"
  unfolding rounding_def by (metis monoD)

definition usage_nonneg :: "token_usage \<Rightarrow> bool" where
  "usage_nonneg u = (0 \<le> u_input u \<and> 0 \<le> u_output u \<and> 0 \<le> u_reasoning u \<and> 0 \<le> u_cache_read u
     \<and> 0 \<le> u_cache_write u)"

definition prices_nonneg :: "model \<Rightarrow> bool" where
  "prices_nonneg m = (case mo_cost m of None \<Rightarrow> True | Some c \<Rightarrow>
     0 \<le> co_input c \<and> 0 \<le> co_output c \<and> 0 \<le> co_cache_read c \<and> 0 \<le> co_cache_write c)"

lemma mapUsage_nonneg: "usage_nonneg (mapUsage fl u)"
  by (simp add: usage_nonneg_def mapUsage_def nonNeg_def Let_def)

lemma applyUsage_nonneg: "usage_nonneg u \<Longrightarrow> usage_nonneg (applyUsage a u)"
  by (auto simp: usage_nonneg_def applyUsage_def Let_def)

lemma usage_events_nonneg: "usage_nonneg u \<Longrightarrow> usage_nonneg (fold usage_step es u)"
  by (induction es arbitrary: u) (auto simp: usage_step_def applyUsage_nonneg split: option.split)

lemma ModelCost_nonneg:
  assumes "rounding fl" "prices_nonneg m" "usage_nonneg u"
  shows "0 \<le> ModelCost fl m (tokensFromUsage fl (Some u))"
proof (cases "mo_cost m")
  case (Some c)
  note add = fl_nonneg [OF assms(1)] add_nonneg_nonneg mult_nonneg_nonneg
  show ?thesis
    using Some assms(2,3)
    by (auto simp: ModelCost_def Let_def tokensFromUsage_def prices_nonneg_def usage_nonneg_def
        intro!: add divide_nonneg_nonneg)
qed (simp add: ModelCost_def)

text \<open>
  Whatever numbers a provider reports, negative or inconsistent ones included, the step it
  reports them for never has a negative cost when prices are not negative: OpenAI's split of
  cached and reasoning tokens clamps at zero and Anthropic's merge takes positive counts only.
\<close>

theorem cost_never_negative:
  assumes "rounding fl" "prices_nonneg m"
  shows "0 \<le> ModelCost fl m (tokensFromUsage fl (Some (mapUsage fl u))) \<and>
    0 \<le> ModelCost fl m (tokensFromUsage fl (Some (fold usage_step es zero_usage)))"
  using assms mapUsage_nonneg usage_events_nonneg [of zero_usage es] ModelCost_nonneg
  by (auto simp: usage_nonneg_def zero_usage_def)

definition demo_model :: model where
  "demo_model = zero_model\<lparr>mo_cost := Some \<lparr>co_input = 3, co_output = 15, co_cache_read = 1, co_cache_write = 4\<rparr>\<rparr>"

theorem cost_never_negative_witness:
  "0 \<le> ModelCost (\<lambda>r. r) demo_model (tokensFromUsage (\<lambda>r. r) (Some (mapUsage (\<lambda>r. r)
       \<lparr>uc_prompt = 10, uc_completion = 5, uc_cached = Some 20, uc_reasoning = None\<rparr>))) \<and>
   0 \<le> ModelCost (\<lambda>r. r) demo_model (tokensFromUsage (\<lambda>r. r) (Some (fold usage_step [demo_start] zero_usage)))"
  by (rule cost_never_negative) (simp_all add: rounding_def prices_nonneg_def demo_model_def mono_def)

end
