(* ===== verification/Processor.thy ===== *)
theory Processor
  imports Catalog
begin

text \<open>
  The session processor (\<^verbatim>\<open>internal/engine/processor\<close>: \<^verbatim>\<open>processor.go\<close>, \<^verbatim>\<open>tools.go\<close>, \<^verbatim>\<open>emit.go\<close>):
  it turns the events of one assistant turn into stored parts and bus events, runs the tool calls
  the provider did not resolve, and finalizes the message. Clock readings, fresh part ids and the
  success of each store write are readings of the environment, taken in order and counted by
  \<open>pr_tick\<close>; a part in the code is a pointer shared by the processor's maps only, so the record
  holds its value and \<^verbatim>\<open>ClonePart\<close> is taking that value.
\<close>

subsection \<open>State\<close>

datatype outcome_kind = OutcomeContinue | OutcomeStop | OutcomeCompact

record tool_call =
  kc_call :: string
  kc_name :: string
  kc_input :: "jmap option"
  kc_session :: string
  kc_message :: string

record tool_result =
  tr_output :: string
  tr_title :: string
  tr_meta :: "jmap option"
  tr_attachments :: "file_part list"

text \<open>How an execution ends: a result, an error, or an error with the run's context cancelled.\<close>

datatype exec_outcome = ExecOk tool_result | ExecFailed string | ExecCancelled

record proc_env =
  pe_now :: "nat \<Rightarrow> int"
  pe_id :: "nat \<Rightarrow> string"
  pe_put :: "nat \<Rightarrow> bool"
  pe_fl :: "rat \<Rightarrow> rat"
  pe_order :: "string list \<Rightarrow> string list"

text \<open>
  The asker's answer to the doom-loop question is the error text it returns, if any; a nil bus,
  executor or asker is \<open>False\<close> or \<open>None\<close>.
\<close>

record proc_config =
  cf_session :: string
  cf_catalog :: catalog
  cf_bus :: bool
  cf_executor :: "(tool_call \<Rightarrow> exec_outcome) option"
  cf_asker :: "(string \<Rightarrow> jmap option \<Rightarrow> string option) option"
  cf_structured :: string

datatype proc_event = PartUpdated part int | PartDelta string string string | MessageUpdated assistant_message

record processor =
  pr_assistant :: assistant_message
  pr_text :: "text_part option"
  pr_reasoning :: "(string, reasoning_part) gomap"
  pr_tools :: "(string, tool_part) gomap"
  pr_order :: "string list"
  pr_pending :: "(string, tool_call) gomap"
  pr_compact :: bool
  pr_break :: bool
  pr_structured :: "jmap option option"
  pr_parts :: "(string, part) gomap"
  pr_message :: "assistant_message option"
  pr_events :: "proc_event list"
  pr_tick :: nat

definition new_processor :: "assistant_message \<Rightarrow> processor" where
  "new_processor a =
     \<lparr>pr_assistant = a, pr_text = None, pr_reasoning = [], pr_tools = [], pr_order = [], pr_pending = [],
      pr_compact = False, pr_break = False, pr_structured = None, pr_parts = [], pr_message = None,
      pr_events = [], pr_tick = 0\<rparr>"

subsection \<open>Readings, writes and announcements\<close>

definition tick :: "processor \<Rightarrow> processor" where
  "tick s = s\<lparr>pr_tick := Suc (pr_tick s)\<rparr>"

definition now :: "proc_env \<Rightarrow> processor \<Rightarrow> int" where
  "now env s = pe_now env (pr_tick s)"

definition partBase :: "proc_env \<Rightarrow> proc_config \<Rightarrow> processor \<Rightarrow> part_base" where
  "partBase env cf s =
     \<lparr>pb_id = pe_id env (pr_tick s), pb_session = cf_session cf, pb_message = am_id (pr_assistant s)\<rparr>"

definition publish :: "proc_config \<Rightarrow> proc_event \<Rightarrow> processor \<Rightarrow> processor" where
  "publish cf e s = (if cf_bus cf then s\<lparr>pr_events := pr_events s @ [e]\<rparr> else s)"

definition updatePart :: "proc_env \<Rightarrow> proc_config \<Rightarrow> part \<Rightarrow> processor \<Rightarrow> processor" where
  "updatePart env cf p s =
     (let t = tick s in
      if \<not> pe_put env (pr_tick s) then t
      else publish cf (PartUpdated p (now env s)) (t\<lparr>pr_parts := gm_put (part_id p) p (pr_parts t)\<rparr>))"

definition updateMessage :: "proc_env \<Rightarrow> proc_config \<Rightarrow> processor \<Rightarrow> processor" where
  "updateMessage env cf s =
     (let t = tick s in
      if \<not> pe_put env (pr_tick s) then t
      else publish cf (MessageUpdated (pr_assistant s)) (t\<lparr>pr_message := Some (pr_assistant s)\<rparr>))"

definition publishDelta :: "proc_config \<Rightarrow> part_base \<Rightarrow> string \<Rightarrow> processor \<Rightarrow> processor" where
  "publishDelta cf b delta s = publish cf (PartDelta (pb_id b) (pb_message b) delta) s"

definition modelMeta :: "proc_config \<Rightarrow> processor \<Rightarrow> model" where
  "modelMeta cf s = fst (Lookup (cf_catalog cf) (am_provider (pr_assistant s)) (am_model (pr_assistant s)))"

definition orStop :: "string \<Rightarrow> string" where
  "orStop r = (if r = '''' then ''stop'' else r)"

subsection \<open>Text and reasoning\<close>

definition meta_or :: "jmap option \<Rightarrow> jmap option \<Rightarrow> jmap option" where
  "meta_or new old = (case new of None \<Rightarrow> old | Some _ \<Rightarrow> new)"

definition end_text :: "int \<Rightarrow> text_part \<Rightarrow> text_part" where
  "end_text t p =
     p\<lparr>tp_time := Some (case tp_time p of None \<Rightarrow> \<lparr>pt_start = t, pt_end = Some t\<rparr>
                                     | Some pt \<Rightarrow> pt\<lparr>pt_end := Some t\<rparr>)\<rparr>"

definition onTextStart :: "proc_env \<Rightarrow> proc_config \<Rightarrow> jmap option \<Rightarrow> processor \<Rightarrow> processor" where
  "onTextStart env cf meta s =
     (let p = \<lparr>tp_base = partBase env cf (tick s), tp_text = '''', tp_synthetic = False, tp_ignored = False,
               tp_time = Some \<lparr>pt_start = now env s, pt_end = None\<rparr>, tp_meta = meta\<rparr>
      in updatePart env cf (PText p) ((tick (tick s))\<lparr>pr_text := Some p\<rparr>))"

definition onTextDelta :: "proc_config \<Rightarrow> string \<Rightarrow> jmap option \<Rightarrow> processor \<Rightarrow> processor" where
  "onTextDelta cf t meta s =
     (case pr_text s of
        None \<Rightarrow> s
      | Some p \<Rightarrow>
          publishDelta cf (tp_base p) t
            (s\<lparr>pr_text := Some (p\<lparr>tp_text := tp_text p @ t, tp_meta := meta_or meta (tp_meta p)\<rparr>)\<rparr>))"

definition onTextEnd :: "proc_env \<Rightarrow> proc_config \<Rightarrow> processor \<Rightarrow> processor" where
  "onTextEnd env cf s =
     (case pr_text s of
        None \<Rightarrow> s
      | Some p \<Rightarrow> updatePart env cf (PText (end_text (now env s) p)) ((tick s)\<lparr>pr_text := None\<rparr>))"

definition onReasoningStart ::
  "proc_env \<Rightarrow> proc_config \<Rightarrow> string \<Rightarrow> jmap option \<Rightarrow> processor \<Rightarrow> processor" where
  "onReasoningStart env cf i meta s =
     (if gm_has (pr_reasoning s) i then s
      else
        (let p = \<lparr>rp_base = partBase env cf s, rp_text = '''',
                  rp_time = \<lparr>pt_start = now env (tick s), pt_end = None\<rparr>, rp_meta = meta\<rparr>
         in updatePart env cf (PReasoning p)
              ((tick (tick s))\<lparr>pr_reasoning := gm_put i p (pr_reasoning s)\<rparr>)))"

definition onReasoningDelta ::
  "proc_config \<Rightarrow> string \<Rightarrow> string \<Rightarrow> jmap option \<Rightarrow> processor \<Rightarrow> processor" where
  "onReasoningDelta cf i t meta s =
     (case gm_get (pr_reasoning s) i of
        None \<Rightarrow> s
      | Some p \<Rightarrow>
          publishDelta cf (rp_base p) t
            (s\<lparr>pr_reasoning := gm_put i (p\<lparr>rp_text := rp_text p @ t, rp_meta := meta_or meta (rp_meta p)\<rparr>)
                (pr_reasoning s)\<rparr>))"

definition finishReasoning :: "proc_env \<Rightarrow> proc_config \<Rightarrow> string \<Rightarrow> processor \<Rightarrow> processor" where
  "finishReasoning env cf i s =
     (case gm_get (pr_reasoning s) i of
        None \<Rightarrow> s
      | Some p \<Rightarrow>
          updatePart env cf (PReasoning (p\<lparr>rp_time := (rp_time p)\<lparr>pt_end := Some (now env s)\<rparr>\<rparr>))
            ((tick s)\<lparr>pr_reasoning := gm_del i (pr_reasoning s)\<rparr>))"

definition onReasoningEnd ::
  "proc_env \<Rightarrow> proc_config \<Rightarrow> string \<Rightarrow> jmap option \<Rightarrow> processor \<Rightarrow> processor" where
  "onReasoningEnd env cf i meta s =
     (case gm_get (pr_reasoning s) i of
        None \<Rightarrow> s
      | Some p \<Rightarrow>
          finishReasoning env cf i
            (s\<lparr>pr_reasoning := gm_put i (p\<lparr>rp_meta := meta_or meta (rp_meta p)\<rparr>) (pr_reasoning s)\<rparr>))"

definition finishAllReasoning :: "proc_env \<Rightarrow> proc_config \<Rightarrow> processor \<Rightarrow> processor" where
  "finishAllReasoning env cf s =
     fold (finishReasoning env cf) (pe_order env (gm_keys (pr_reasoning s))) s"

subsection \<open>Tool calls\<close>

definition set_tool :: "string \<Rightarrow> (tool_part \<Rightarrow> tool_part) \<Rightarrow> processor \<Rightarrow> processor" where
  "set_tool c f s =
     (case gm_get (pr_tools s) c of None \<Rightarrow> s | Some p \<Rightarrow> s\<lparr>pr_tools := gm_put c (f p) (pr_tools s)\<rparr>)"

definition updateTool :: "proc_env \<Rightarrow> proc_config \<Rightarrow> string \<Rightarrow> processor \<Rightarrow> processor" where
  \<comment> \<open>\<^verbatim>\<open>p.updatePart(ctx, part)\<close> for the tool part of a call\<close>
  "updateTool env cf c s =
     (case gm_get (pr_tools s) c of None \<Rightarrow> s | Some p \<Rightarrow> updatePart env cf (PTool p) s)"

definition ensureTool :: "proc_env \<Rightarrow> proc_config \<Rightarrow> string \<Rightarrow> string \<Rightarrow> processor \<Rightarrow> processor" where
  "ensureTool env cf c name s =
     (case gm_get (pr_tools s) c of
        Some p \<Rightarrow> if name \<noteq> '''' \<and> tl_tool p = '''' then set_tool c (\<lambda>p. p\<lparr>tl_tool := name\<rparr>) s else s
      | None \<Rightarrow>
          (let p = \<lparr>tl_base = partBase env cf s, tl_call = c, tl_tool = name,
                    tl_state = TsPending \<lparr>sp_input = Some [], sp_raw = ''''\<rparr>, tl_meta = None\<rparr>
           in updateTool env cf c
                ((tick s)\<lparr>pr_tools := gm_put c p (pr_tools s), pr_order := pr_order s @ [c]\<rparr>)))"

definition jmap_json :: "jmap option \<Rightarrow> json" where
  "jmap_json m = (case m of None \<Rightarrow> JNull | Some kvs \<Rightarrow> JObj kvs)"

definition doomLoopThreshold :: nat where
  "doomLoopThreshold = 3"

definition same_call :: "string \<Rightarrow> jmap option \<Rightarrow> tool_part option \<Rightarrow> bool" where
  "same_call name input p =
     (case p of
        None \<Rightarrow> False
      | Some p \<Rightarrow> tl_tool p = name \<and>
          (case tl_state p of
             TsRunning st \<Rightarrow> same_json (jmap_json (sr_input st)) (jmap_json input)
           | TsCompleted st \<Rightarrow> same_json (jmap_json (sc_input st)) (jmap_json input)
           | _ \<Rightarrow> False))"

definition isDoomLoop :: "string \<Rightarrow> jmap option \<Rightarrow> processor \<Rightarrow> bool" where
  "isDoomLoop name input s =
     (if length (pr_order s) < doomLoopThreshold then False
      else list_all (\<lambda>c. same_call name input (gm_get (pr_tools s) c))
             (drop (length (pr_order s) - doomLoopThreshold) (pr_order s)))"

definition inputOf :: "tool_part \<Rightarrow> jmap option" where
  "inputOf p =
     (case tl_state p of TsRunning st \<Rightarrow> sr_input st | TsPending st \<Rightarrow> sp_input st | _ \<Rightarrow> Some [])"

definition state_start :: "tool_state \<Rightarrow> int" where
  "state_start st =
     (case st of TsRunning x \<Rightarrow> sr_start x | TsCompleted x \<Rightarrow> sc_start x | TsError x \<Rightarrow> se_start x | _ \<Rightarrow> 0)"

definition startOf :: "proc_env \<Rightarrow> tool_part \<Rightarrow> processor \<Rightarrow> int \<times> processor" where
  "startOf env p s =
     (if state_start (tl_state p) \<noteq> 0 then (state_start (tl_state p), s) else (now env s, tick s))"

definition orEmptyMap :: "jmap option \<Rightarrow> jmap option" where
  "orEmptyMap m = (case m of None \<Rightarrow> Some [] | Some kvs \<Rightarrow> Some kvs)"

definition completeCall ::
  "proc_env \<Rightarrow> proc_config \<Rightarrow> string \<Rightarrow> tool_result \<Rightarrow> processor \<Rightarrow> processor" where
  "completeCall env cf c res s =
     (case gm_get (pr_tools s) c of
        None \<Rightarrow> s
      | Some p \<Rightarrow>
          (let input = inputOf p;
               (start, s1) = startOf env p s;
               st = TsCompleted \<lparr>sc_input = input, sc_output = tr_output res, sc_title = tr_title res,
                      sc_meta = orEmptyMap (tr_meta res), sc_start = start, sc_end = now env s1,
                      sc_compacted = None, sc_attachments = tr_attachments res\<rparr>;
               s2 = set_tool c (\<lambda>p. p\<lparr>tl_state := st\<rparr>) (tick s1);
               s3 = (if cf_structured cf \<noteq> '''' \<and> tl_tool p = cf_structured cf
                     then s2\<lparr>pr_structured := Some input, pr_break := True\<rparr> else s2)
           in updateTool env cf c s3))"

definition fail_with ::
  "proc_env \<Rightarrow> proc_config \<Rightarrow> string \<Rightarrow> string \<Rightarrow> jmap option \<Rightarrow> processor \<Rightarrow> processor" where
  "fail_with env cf c msg meta s =
     (case gm_get (pr_tools s) c of
        None \<Rightarrow> s
      | Some p \<Rightarrow>
          (let (start, s1) = startOf env p s;
               st = TsError \<lparr>se_input = inputOf p, se_error = msg, se_meta = meta, se_start = start,
                      se_end = now env s1\<rparr>
           in updateTool env cf c (set_tool c (\<lambda>p. p\<lparr>tl_state := st\<rparr>) (tick s1))))"

definition failCall :: "proc_env \<Rightarrow> proc_config \<Rightarrow> string \<Rightarrow> string \<Rightarrow> processor \<Rightarrow> processor" where
  "failCall env cf c msg = fail_with env cf c msg None"

definition interruptCall :: "proc_env \<Rightarrow> proc_config \<Rightarrow> string \<Rightarrow> processor \<Rightarrow> processor" where
  "interruptCall env cf c =
     fail_with env cf c ''Tool execution aborted'' (Some [(''interrupted'', JBool True)])"

definition onToolCall ::
  "proc_env \<Rightarrow> proc_config \<Rightarrow> string \<Rightarrow> string \<Rightarrow> jmap option \<Rightarrow> jmap option \<Rightarrow> processor \<Rightarrow> processor" where
  "onToolCall env cf c name inp meta s =
     (let s1 = ensureTool env cf c name s;
          input = orEmptyMap inp;
          s2 = set_tool c (\<lambda>p. p\<lparr>tl_tool := name,
                 tl_state := TsRunning \<lparr>sr_input = input, sr_title = '''', sr_meta = None, sr_start = now env s1\<rparr>,
                 tl_meta := meta_or meta (tl_meta p)\<rparr>) (tick s1);
          s3 = s2\<lparr>pr_pending := gm_put c \<lparr>kc_call = c, kc_name = name, kc_input = input,
                 kc_session = cf_session cf, kc_message = am_id (pr_assistant s2)\<rparr> (pr_pending s2)\<rparr>;
          doom = isDoomLoop name input s3;
          s4 = updateTool env cf c s3
      in case cf_asker cf of
           Some ask \<Rightarrow>
             if doom then (case ask name input of Some err \<Rightarrow> failCall env cf c err s4 | None \<Rightarrow> s4) else s4
         | None \<Rightarrow> s4)"

definition onToolResult :: "proc_env \<Rightarrow> proc_config \<Rightarrow> string \<Rightarrow> string \<Rightarrow> processor \<Rightarrow> processor" where
  "onToolResult env cf c output s =
     completeCall env cf c \<lparr>tr_output = output, tr_title = '''', tr_meta = None, tr_attachments = []\<rparr>
       (s\<lparr>pr_pending := gm_del c (pr_pending s)\<rparr>)"

definition onToolError :: "proc_env \<Rightarrow> proc_config \<Rightarrow> string \<Rightarrow> string \<Rightarrow> processor \<Rightarrow> processor" where
  "onToolError env cf c msg s = failCall env cf c msg (s\<lparr>pr_pending := gm_del c (pr_pending s)\<rparr>)"

subsection \<open>Steps and events\<close>

definition onStepStart :: "proc_env \<Rightarrow> proc_config \<Rightarrow> processor \<Rightarrow> processor" where
  "onStepStart env cf s = updatePart env cf (PStepStart (partBase env cf s) '''') (tick s)"

definition onStepFinish ::
  "proc_env \<Rightarrow> proc_config \<Rightarrow> string \<Rightarrow> token_usage option \<Rightarrow> processor \<Rightarrow> processor" where
  "onStepFinish env cf reason u s =
     (let fl = pe_fl env;
          s1 = finishAllReasoning env cf s;
          tokens = tokensFromUsage fl u;
          c = ModelCost fl (modelMeta cf s1) tokens;
          s2 = s1\<lparr>pr_assistant := (pr_assistant s1)\<lparr>am_finish := orStop reason, am_tokens := tokens,
                 am_cost := fl (am_cost (pr_assistant s1) + c)\<rparr>\<rparr>;
          s3 = updatePart env cf (PStepFinish \<lparr>sf_base = partBase env cf s2, sf_reason = orStop reason,
                 sf_cost = c, sf_tokens = tokens\<rparr>) (tick s2);
          s4 = updateMessage env cf s3
      in if isOverflow fl tokens (modelMeta cf s4) then s4\<lparr>pr_compact := True\<rparr> else s4)"

definition onProviderError :: "string \<Rightarrow> processor \<Rightarrow> processor" where
  "onProviderError msg s =
     s\<lparr>pr_assistant := (pr_assistant s)\<lparr>am_error := Some \<lparr>er_name = ''APIError'',
         er_data = [(''message'', JStr msg), (''isRetryable'', JBool False)]\<rparr>\<rparr>, pr_break := True\<rparr>"

definition handle :: "proc_env \<Rightarrow> proc_config \<Rightarrow> llm_event \<Rightarrow> processor \<Rightarrow> processor" where
  "handle env cf ev s =
     (case ev of
        EvStepStart \<Rightarrow> onStepStart env cf s
      | EvStepFinish reason u \<Rightarrow> onStepFinish env cf reason u s
      | EvTextStart _ meta \<Rightarrow> onTextStart env cf meta s
      | EvTextDelta _ t meta \<Rightarrow> onTextDelta cf t meta s
      | EvTextEnd _ \<Rightarrow> onTextEnd env cf s
      | EvReasoningStart i meta \<Rightarrow> onReasoningStart env cf i meta s
      | EvReasoningDelta i t meta \<Rightarrow> onReasoningDelta cf i t meta s
      | EvReasoningEnd i meta \<Rightarrow> onReasoningEnd env cf i meta s
      | EvToolInputStart c name \<Rightarrow> ensureTool env cf c name s
      | EvToolInputDelta _ _ \<Rightarrow> s
      | EvToolInputEnd c \<Rightarrow> ensureTool env cf c '''' s
      | EvToolCall c name input meta \<Rightarrow> onToolCall env cf c name input meta s
      | EvToolResult c output \<Rightarrow> onToolResult env cf c output s
      | EvToolError c msg \<Rightarrow> onToolError env cf c msg s
      | EvProviderError _ msg \<Rightarrow> onProviderError msg s
      | EvFinish \<Rightarrow> s)"

subsection \<open>The end of the turn\<close>

text \<open>
  The pending calls run concurrently; \<open>pe_order\<close> is the order in which they finish, each recording
  its result under the processor's lock.
\<close>

definition finish_call :: "proc_env \<Rightarrow> proc_config \<Rightarrow> string \<Rightarrow> exec_outcome \<Rightarrow> processor \<Rightarrow> processor" where
  "finish_call env cf c out s =
     (case out of ExecOk res \<Rightarrow> completeCall env cf c res s | ExecFailed msg \<Rightarrow> failCall env cf c msg s
      | ExecCancelled \<Rightarrow> interruptCall env cf c s)"

definition executePending :: "proc_env \<Rightarrow> proc_config \<Rightarrow> processor \<Rightarrow> processor" where
  "executePending env cf s =
     (case cf_executor cf of
        None \<Rightarrow> s
      | Some execute \<Rightarrow>
          fold (\<lambda>c. case gm_get (pr_pending s) c of
                      None \<Rightarrow> (\<lambda>s. s)
                    | Some call \<Rightarrow> finish_call env cf (kc_call call) (execute call))
            (pe_order env (gm_keys (pr_pending s))) (s\<lparr>pr_pending := []\<rparr>))"

definition unfinished :: "tool_part option \<Rightarrow> bool" where
  "unfinished p =
     (case p of None \<Rightarrow> False
      | Some p \<Rightarrow> status_of (tl_state p) = ''running'' \<or> status_of (tl_state p) = ''pending'')"

definition closeText :: "proc_env \<Rightarrow> proc_config \<Rightarrow> processor \<Rightarrow> processor" where
  "closeText env cf s =
     (case pr_text s of
        None \<Rightarrow> s
      | Some p \<Rightarrow> updatePart env cf (PText (end_text (now env s) p)) ((tick s)\<lparr>pr_text := None\<rparr>))"

definition cleanup :: "proc_env \<Rightarrow> proc_config \<Rightarrow> bool \<Rightarrow> processor \<Rightarrow> processor" where
  "cleanup env cf cancelled s =
     (let s1 = closeText env cf s;
          s2 = finishAllReasoning env cf s1;
          s3 = fold (\<lambda>c s. if unfinished (gm_get (pr_tools s) c) then interruptCall env cf c s else s)
                 (pr_order s2) s2;
          a = pr_assistant s3;
          a1 = (if cancelled \<and> am_error a = None
                then a\<lparr>am_error := Some \<lparr>er_name = ''MessageAbortedError'', er_data = [(''message'', JStr ''aborted'')]\<rparr>\<rparr>
                else a)
      in updateMessage env cf ((tick s3)\<lparr>pr_assistant := a1\<lparr>am_completed := Some (now env s3)\<rparr>\<rparr>))"

definition Run :: "proc_env \<Rightarrow> proc_config \<Rightarrow> bool \<Rightarrow> llm_event list \<Rightarrow> processor \<Rightarrow> processor \<times> outcome_kind" where
  "Run env cf cancelled evs s =
     (let s1 = fold (handle env cf) evs s;
          s2 = cleanup env cf cancelled (executePending env cf s1)
      in (s2, if pr_compact s2 then OutcomeCompact
              else if pr_break s2 \<or> am_error (pr_assistant s2) \<noteq> None then OutcomeStop
              else OutcomeContinue))"

definition Structured :: "processor \<Rightarrow> jmap option option" where
  "Structured s = pr_structured s"

subsection \<open>What each operation leaves alone\<close>

lemma tick_frame [simp]:
  "pr_assistant (tick s) = pr_assistant s" "pr_text (tick s) = pr_text s"
  "pr_reasoning (tick s) = pr_reasoning s" "pr_tools (tick s) = pr_tools s"
  "pr_order (tick s) = pr_order s" "pr_pending (tick s) = pr_pending s"
  "pr_compact (tick s) = pr_compact s" "pr_break (tick s) = pr_break s"
  "pr_structured (tick s) = pr_structured s" "pr_parts (tick s) = pr_parts s"
  "pr_message (tick s) = pr_message s" "pr_events (tick s) = pr_events s"
  by (simp_all add: tick_def)

lemma publish_frame [simp]:
  "pr_assistant (publish cf e s) = pr_assistant s" "pr_text (publish cf e s) = pr_text s"
  "pr_reasoning (publish cf e s) = pr_reasoning s" "pr_tools (publish cf e s) = pr_tools s"
  "pr_order (publish cf e s) = pr_order s" "pr_pending (publish cf e s) = pr_pending s"
  "pr_compact (publish cf e s) = pr_compact s" "pr_break (publish cf e s) = pr_break s"
  "pr_structured (publish cf e s) = pr_structured s" "pr_parts (publish cf e s) = pr_parts s"
  "pr_message (publish cf e s) = pr_message s" "pr_tick (publish cf e s) = pr_tick s"
  by (simp_all add: publish_def)

lemma updatePart_frame [simp]:
  "pr_assistant (updatePart env cf p s) = pr_assistant s" "pr_text (updatePart env cf p s) = pr_text s"
  "pr_reasoning (updatePart env cf p s) = pr_reasoning s" "pr_tools (updatePart env cf p s) = pr_tools s"
  "pr_order (updatePart env cf p s) = pr_order s" "pr_pending (updatePart env cf p s) = pr_pending s"
  "pr_compact (updatePart env cf p s) = pr_compact s" "pr_break (updatePart env cf p s) = pr_break s"
  "pr_structured (updatePart env cf p s) = pr_structured s" "pr_message (updatePart env cf p s) = pr_message s"
  "pr_tick (updatePart env cf p s) = Suc (pr_tick s)"
  by (simp_all add: updatePart_def Let_def tick_def publish_def)

lemma updatePart_parts [simp]:
  "pr_parts (updatePart env cf p s) =
     (if pe_put env (pr_tick s) then gm_put (part_id p) p (pr_parts s) else pr_parts s)"
  by (simp add: updatePart_def Let_def)

lemma updateMessage_frame [simp]:
  "pr_assistant (updateMessage env cf s) = pr_assistant s" "pr_text (updateMessage env cf s) = pr_text s"
  "pr_reasoning (updateMessage env cf s) = pr_reasoning s" "pr_tools (updateMessage env cf s) = pr_tools s"
  "pr_order (updateMessage env cf s) = pr_order s" "pr_pending (updateMessage env cf s) = pr_pending s"
  "pr_compact (updateMessage env cf s) = pr_compact s" "pr_break (updateMessage env cf s) = pr_break s"
  "pr_structured (updateMessage env cf s) = pr_structured s" "pr_parts (updateMessage env cf s) = pr_parts s"
  "pr_tick (updateMessage env cf s) = Suc (pr_tick s)"
  "pr_message (updateMessage env cf s) =
     (if pe_put env (pr_tick s) then Some (pr_assistant s) else pr_message s)"
  by (simp_all add: updateMessage_def Let_def tick_def publish_def)

lemma publishDelta_frame [simp]:
  "pr_assistant (publishDelta cf b d s) = pr_assistant s" "pr_text (publishDelta cf b d s) = pr_text s"
  "pr_reasoning (publishDelta cf b d s) = pr_reasoning s" "pr_tools (publishDelta cf b d s) = pr_tools s"
  "pr_order (publishDelta cf b d s) = pr_order s" "pr_pending (publishDelta cf b d s) = pr_pending s"
  "pr_compact (publishDelta cf b d s) = pr_compact s" "pr_break (publishDelta cf b d s) = pr_break s"
  "pr_structured (publishDelta cf b d s) = pr_structured s" "pr_parts (publishDelta cf b d s) = pr_parts s"
  "pr_message (publishDelta cf b d s) = pr_message s"
  by (simp_all add: publishDelta_def)

lemma set_tool_frame [simp]:
  "pr_assistant (set_tool c f s) = pr_assistant s" "pr_text (set_tool c f s) = pr_text s"
  "pr_reasoning (set_tool c f s) = pr_reasoning s" "pr_order (set_tool c f s) = pr_order s"
  "pr_pending (set_tool c f s) = pr_pending s" "pr_compact (set_tool c f s) = pr_compact s"
  "pr_break (set_tool c f s) = pr_break s" "pr_structured (set_tool c f s) = pr_structured s"
  "pr_parts (set_tool c f s) = pr_parts s" "pr_message (set_tool c f s) = pr_message s"
  "pr_tick (set_tool c f s) = pr_tick s"
  by (simp_all add: set_tool_def split: option.split)

lemma set_tool_get [simp]:
  "gm_get (pr_tools (set_tool c f s)) d =
     (if d = c then map_option f (gm_get (pr_tools s) c) else gm_get (pr_tools s) d)"
  by (simp add: set_tool_def split: option.split)

lemma updateTool_frame [simp]:
  "pr_assistant (updateTool env cf c s) = pr_assistant s" "pr_text (updateTool env cf c s) = pr_text s"
  "pr_reasoning (updateTool env cf c s) = pr_reasoning s" "pr_tools (updateTool env cf c s) = pr_tools s"
  "pr_order (updateTool env cf c s) = pr_order s" "pr_pending (updateTool env cf c s) = pr_pending s"
  "pr_compact (updateTool env cf c s) = pr_compact s" "pr_break (updateTool env cf c s) = pr_break s"
  "pr_structured (updateTool env cf c s) = pr_structured s" "pr_message (updateTool env cf c s) = pr_message s"
  by (simp_all add: updateTool_def split: option.split)

lemma updateTool_parts:
  "pr_parts (updateTool env cf c s) =
     (case gm_get (pr_tools s) c of
        None \<Rightarrow> pr_parts s
      | Some p \<Rightarrow> if pe_put env (pr_tick s) then gm_put (part_id (PTool p)) (PTool p) (pr_parts s)
                  else pr_parts s)"
  by (simp add: updateTool_def split: option.split)

lemma startOf_frame [simp]:
  "pr_assistant (snd (startOf env p s)) = pr_assistant s" "pr_text (snd (startOf env p s)) = pr_text s"
  "pr_reasoning (snd (startOf env p s)) = pr_reasoning s" "pr_tools (snd (startOf env p s)) = pr_tools s"
  "pr_order (snd (startOf env p s)) = pr_order s" "pr_pending (snd (startOf env p s)) = pr_pending s"
  "pr_compact (snd (startOf env p s)) = pr_compact s" "pr_break (snd (startOf env p s)) = pr_break s"
  "pr_structured (snd (startOf env p s)) = pr_structured s" "pr_parts (snd (startOf env p s)) = pr_parts s"
  "pr_message (snd (startOf env p s)) = pr_message s"
  by (simp_all add: startOf_def)

lemma fail_with_frame [simp]:
  "pr_assistant (fail_with env cf c m d s) = pr_assistant s" "pr_text (fail_with env cf c m d s) = pr_text s"
  "pr_reasoning (fail_with env cf c m d s) = pr_reasoning s" "pr_order (fail_with env cf c m d s) = pr_order s"
  "pr_pending (fail_with env cf c m d s) = pr_pending s" "pr_compact (fail_with env cf c m d s) = pr_compact s"
  "pr_break (fail_with env cf c m d s) = pr_break s" "pr_structured (fail_with env cf c m d s) = pr_structured s"
  "pr_message (fail_with env cf c m d s) = pr_message s"
  by (simp_all add: fail_with_def Let_def split: option.split prod.split)
    (metis startOf_frame snd_conv)+

lemma completeCall_frame [simp]:
  "pr_assistant (completeCall env cf c r s) = pr_assistant s" "pr_text (completeCall env cf c r s) = pr_text s"
  "pr_reasoning (completeCall env cf c r s) = pr_reasoning s" "pr_order (completeCall env cf c r s) = pr_order s"
  "pr_pending (completeCall env cf c r s) = pr_pending s" "pr_compact (completeCall env cf c r s) = pr_compact s"
  "pr_message (completeCall env cf c r s) = pr_message s"
  by (simp_all add: completeCall_def Let_def split: option.split prod.split)
    (metis startOf_frame snd_conv)+

lemma fail_with_other [simp]:
  "d \<noteq> c \<Longrightarrow> gm_get (pr_tools (fail_with env cf c m e s)) d = gm_get (pr_tools s) d"
  by (simp add: fail_with_def Let_def split: option.split prod.split) (metis startOf_frame(4) snd_conv)

lemma fail_with_missing: "gm_get (pr_tools s) c = None \<Longrightarrow> fail_with env cf c m e s = s"
  by (simp add: fail_with_def)

lemma fail_with_done:
  assumes "gm_get (pr_tools s) c = Some p"
  shows "\<exists>st. gm_get (pr_tools (fail_with env cf c m e s)) c = Some (p\<lparr>tl_state := TsError st\<rparr>)
    \<and> se_error st = m \<and> se_meta st = e \<and> se_input st = inputOf p"
proof -
  obtain start s1 where so: "startOf env p s = (start, s1)" by (cases "startOf env p s")
  then have "pr_tools s1 = pr_tools s" by (metis startOf_frame(4) snd_conv)
  with assms so show ?thesis
    by (simp add: fail_with_def Let_def) (rule exI, rule conjI, rule refl, simp)
qed

lemma completeCall_other [simp]:
  "d \<noteq> c \<Longrightarrow> gm_get (pr_tools (completeCall env cf c r s)) d = gm_get (pr_tools s) d"
  by (simp add: completeCall_def Let_def split: option.split prod.split) (metis startOf_frame(4) snd_conv)

lemma completeCall_missing: "gm_get (pr_tools s) c = None \<Longrightarrow> completeCall env cf c r s = s"
  by (simp add: completeCall_def)

lemma completeCall_done:
  assumes "gm_get (pr_tools s) c = Some p"
  shows "\<exists>st. gm_get (pr_tools (completeCall env cf c r s)) c = Some (p\<lparr>tl_state := TsCompleted st\<rparr>)
    \<and> sc_output st = tr_output r \<and> sc_input st = inputOf p \<and> sc_attachments st = tr_attachments r"
proof -
  obtain start s1 where so: "startOf env p s = (start, s1)" by (cases "startOf env p s")
  then have "pr_tools s1 = pr_tools s" by (metis startOf_frame(4) snd_conv)
  with assms so show ?thesis
    by (simp add: completeCall_def Let_def) (intro conjI impI; (rule exI, rule conjI, rule refl, simp)?)
qed

lemma call_dom [simp]:
  "gm_get (pr_tools (fail_with env cf c m e s)) d = None \<longleftrightarrow> gm_get (pr_tools s) d = None"
  "gm_get (pr_tools (completeCall env cf c r s)) d = None \<longleftrightarrow> gm_get (pr_tools s) d = None"
  using fail_with_done [of s c _ env cf m e] completeCall_done [of s c _ env cf r]
  by (cases "d = c"; cases "gm_get (pr_tools s) c"; fastforce simp: fail_with_missing completeCall_missing)+

lemma call_has [simp]:
  "gm_has (pr_tools (fail_with env cf c m e s)) d = gm_has (pr_tools s) d"
  "gm_has (pr_tools (completeCall env cf c r s)) d = gm_has (pr_tools s) d"
  "gm_has (pr_tools (set_tool c f s)) d = gm_has (pr_tools s) d"
  by (simp_all add: gm_has_def)

lemma ensureTool_frame [simp]:
  "pr_assistant (ensureTool env cf c n s) = pr_assistant s" "pr_text (ensureTool env cf c n s) = pr_text s"
  "pr_reasoning (ensureTool env cf c n s) = pr_reasoning s" "pr_pending (ensureTool env cf c n s) = pr_pending s"
  "pr_compact (ensureTool env cf c n s) = pr_compact s" "pr_break (ensureTool env cf c n s) = pr_break s"
  "pr_structured (ensureTool env cf c n s) = pr_structured s" "pr_message (ensureTool env cf c n s) = pr_message s"
  by (simp_all add: ensureTool_def Let_def split: option.split)

lemma ensureTool_dom:
  "gm_has (pr_tools (ensureTool env cf c n s)) d \<longleftrightarrow> d = c \<or> gm_has (pr_tools s) d"
  "set (pr_order (ensureTool env cf c n s)) =
     (if gm_has (pr_tools s) c then set (pr_order s) else insert c (set (pr_order s)))"
  by (auto simp: ensureTool_def Let_def gm_has_def split: option.split)

lemma ensureTool_other [simp]:
  "d \<noteq> c \<Longrightarrow> gm_get (pr_tools (ensureTool env cf c n s)) d = gm_get (pr_tools s) d"
  by (simp add: ensureTool_def Let_def split: option.split)

lemma onToolCall_frame [simp]:
  "pr_assistant (onToolCall env cf c n i m s) = pr_assistant s" "pr_text (onToolCall env cf c n i m s) = pr_text s"
  "pr_reasoning (onToolCall env cf c n i m s) = pr_reasoning s" "pr_compact (onToolCall env cf c n i m s) = pr_compact s"
  "pr_break (onToolCall env cf c n i m s) = pr_break s" "pr_structured (onToolCall env cf c n i m s) = pr_structured s"
  "pr_message (onToolCall env cf c n i m s) = pr_message s"
  "pr_order (onToolCall env cf c n i m s) = pr_order (ensureTool env cf c n s)"
  by (simp_all add: onToolCall_def Let_def failCall_def split: option.split)

lemma onToolCall_pending:
  "pr_pending (onToolCall env cf c n i m s) =
     gm_put c \<lparr>kc_call = c, kc_name = n, kc_input = orEmptyMap i, kc_session = cf_session cf,
       kc_message = am_id (pr_assistant s)\<rparr> (pr_pending s)"
  by (simp add: onToolCall_def Let_def failCall_def split: option.split)

lemma onToolCall_dom:
  "gm_has (pr_tools (onToolCall env cf c n i m s)) d \<longleftrightarrow> d = c \<or> gm_has (pr_tools s) d"
  by (simp add: onToolCall_def Let_def failCall_def ensureTool_dom split: option.split)

lemma finishReasoning_frame [simp]:
  "pr_assistant (finishReasoning env cf i s) = pr_assistant s" "pr_text (finishReasoning env cf i s) = pr_text s"
  "pr_tools (finishReasoning env cf i s) = pr_tools s" "pr_order (finishReasoning env cf i s) = pr_order s"
  "pr_pending (finishReasoning env cf i s) = pr_pending s" "pr_compact (finishReasoning env cf i s) = pr_compact s"
  "pr_break (finishReasoning env cf i s) = pr_break s" "pr_structured (finishReasoning env cf i s) = pr_structured s"
  "pr_message (finishReasoning env cf i s) = pr_message s"
  "gm_get (pr_reasoning (finishReasoning env cf i s)) = (gm_get (pr_reasoning s))(i := None)"
  by (simp_all add: finishReasoning_def fun_eq_iff split: option.split)

subsection \<open>Everything is settled when a turn ends\<close>

definition proc_inv :: "processor \<Rightarrow> bool" where
  "proc_inv s = (\<forall>c. gm_has (pr_tools s) c \<longleftrightarrow> c \<in> set (pr_order s))"

lemma fold_finish_frame [simp]:
  "pr_assistant (fold (finishReasoning env cf) xs s) = pr_assistant s"
  "pr_text (fold (finishReasoning env cf) xs s) = pr_text s"
  "pr_tools (fold (finishReasoning env cf) xs s) = pr_tools s"
  "pr_order (fold (finishReasoning env cf) xs s) = pr_order s"
  "pr_pending (fold (finishReasoning env cf) xs s) = pr_pending s"
  "pr_compact (fold (finishReasoning env cf) xs s) = pr_compact s"
  "pr_break (fold (finishReasoning env cf) xs s) = pr_break s"
  "pr_structured (fold (finishReasoning env cf) xs s) = pr_structured s"
  "pr_message (fold (finishReasoning env cf) xs s) = pr_message s"
  by (induction xs arbitrary: s) simp_all

lemma fold_finish_get:
  "gm_get (pr_reasoning (fold (finishReasoning env cf) xs s)) i =
     (if i \<in> set xs then None else gm_get (pr_reasoning s) i)"
  by (induction xs arbitrary: s) auto

lemma finishAll_frame [simp]:
  "pr_assistant (finishAllReasoning env cf s) = pr_assistant s"
  "pr_text (finishAllReasoning env cf s) = pr_text s"
  "pr_tools (finishAllReasoning env cf s) = pr_tools s"
  "pr_order (finishAllReasoning env cf s) = pr_order s"
  "pr_pending (finishAllReasoning env cf s) = pr_pending s"
  "pr_compact (finishAllReasoning env cf s) = pr_compact s"
  "pr_break (finishAllReasoning env cf s) = pr_break s"
  "pr_structured (finishAllReasoning env cf s) = pr_structured s"
  "pr_message (finishAllReasoning env cf s) = pr_message s"
  by (simp_all add: finishAllReasoning_def)

lemma finishAll_empty: "order_ok (pe_order env) \<Longrightarrow> pr_reasoning (finishAllReasoning env cf s) = []"
proof -
  assume "order_ok (pe_order env)"
  then have "gm_get (pr_reasoning (finishAllReasoning env cf s)) i = None" for i
    by (auto simp: finishAllReasoning_def fold_finish_get order_ok_set set_gm_keys)
  then have "map_of (pr_reasoning (finishAllReasoning env cf s)) = Map.empty" by (rule ext)
  then show ?thesis by simp
qed

lemma handle_inv: "proc_inv s \<Longrightarrow> proc_inv (handle env cf ev s)"
  unfolding proc_inv_def
  by (cases ev)
    (auto simp: handle_def onStepStart_def onStepFinish_def onTextStart_def onTextDelta_def onTextEnd_def
      onReasoningStart_def onReasoningDelta_def onReasoningEnd_def onToolResult_def onToolError_def
      onProviderError_def failCall_def ensureTool_dom onToolCall_dom Let_def split: option.splits)

lemma handle_all_inv: "proc_inv s \<Longrightarrow> proc_inv (fold (handle env cf) evs s)"
  by (induction evs arbitrary: s) (auto intro: handle_inv)

lemma new_inv: "proc_inv (new_processor a)"
  by (simp add: proc_inv_def new_processor_def gm_has_def)

lemma finish_call_frame [simp]:
  "pr_assistant (finish_call env cf c r s) = pr_assistant s" "pr_text (finish_call env cf c r s) = pr_text s"
  "pr_reasoning (finish_call env cf c r s) = pr_reasoning s" "pr_order (finish_call env cf c r s) = pr_order s"
  "pr_pending (finish_call env cf c r s) = pr_pending s" "pr_compact (finish_call env cf c r s) = pr_compact s"
  "gm_has (pr_tools (finish_call env cf c r s)) d = gm_has (pr_tools s) d"
  "d \<noteq> c \<Longrightarrow> gm_get (pr_tools (finish_call env cf c r s)) d = gm_get (pr_tools s) d"
  by (simp_all add: finish_call_def failCall_def interruptCall_def split: exec_outcome.split)

definition run_calls ::
  "proc_env \<Rightarrow> proc_config \<Rightarrow> (tool_call \<Rightarrow> exec_outcome) \<Rightarrow> (string, tool_call) gomap \<Rightarrow> string list
   \<Rightarrow> processor \<Rightarrow> processor" where
  "run_calls env cf ex pend =
     fold (\<lambda>c. case gm_get pend c of None \<Rightarrow> (\<lambda>s. s) | Some call \<Rightarrow> finish_call env cf (kc_call call) (ex call))"

lemma run_calls_frame [simp]:
  "pr_assistant (run_calls env cf ex pend xs s) = pr_assistant s"
  "pr_text (run_calls env cf ex pend xs s) = pr_text s"
  "pr_reasoning (run_calls env cf ex pend xs s) = pr_reasoning s"
  "pr_order (run_calls env cf ex pend xs s) = pr_order s"
  "pr_compact (run_calls env cf ex pend xs s) = pr_compact s"
  "gm_has (pr_tools (run_calls env cf ex pend xs s)) d = gm_has (pr_tools s) d"
  unfolding run_calls_def by (induction xs arbitrary: s) (auto split: option.split)

lemma executePending_run:
  "executePending env cf s =
     (case cf_executor cf of None \<Rightarrow> s
      | Some ex \<Rightarrow> run_calls env cf ex (pr_pending s) (pe_order env (gm_keys (pr_pending s))) (s\<lparr>pr_pending := []\<rparr>))"
  by (simp add: executePending_def run_calls_def split: option.split)

lemma executePending_frame [simp]:
  "pr_assistant (executePending env cf s) = pr_assistant s" "pr_text (executePending env cf s) = pr_text s"
  "pr_reasoning (executePending env cf s) = pr_reasoning s" "pr_order (executePending env cf s) = pr_order s"
  "pr_compact (executePending env cf s) = pr_compact s"
  "gm_has (pr_tools (executePending env cf s)) d = gm_has (pr_tools s) d"
  by (simp_all add: executePending_run split: option.split)

definition interrupt_all :: "proc_env \<Rightarrow> proc_config \<Rightarrow> string list \<Rightarrow> processor \<Rightarrow> processor" where
  "interrupt_all env cf =
     fold (\<lambda>c s. if unfinished (gm_get (pr_tools s) c) then interruptCall env cf c s else s)"

lemma interrupt_finishes:
  "\<not> unfinished (gm_get (pr_tools (interruptCall env cf c s)) c)"
proof (cases "gm_get (pr_tools s) c")
  case None
  then show ?thesis by (simp add: interruptCall_def fail_with_missing unfinished_def)
next
  case (Some p)
  from fail_with_done [OF this] obtain st where
    "gm_get (pr_tools (interruptCall env cf c s)) c = Some (p\<lparr>tl_state := TsError st\<rparr>)"
    unfolding interruptCall_def by blast
  then show ?thesis by (simp add: unfinished_def status_of_def)
qed

lemma interrupt_keeps:
  "\<not> unfinished (gm_get (pr_tools s) d) \<Longrightarrow> \<not> unfinished (gm_get (pr_tools (interruptCall env cf c s)) d)"
  using interrupt_finishes by (cases "d = c") (auto simp: interruptCall_def)

lemma interrupt_all_keeps:
  "\<not> unfinished (gm_get (pr_tools s) d) \<Longrightarrow> \<not> unfinished (gm_get (pr_tools (interrupt_all env cf xs s)) d)"
  unfolding interrupt_all_def
  by (induction xs arbitrary: s) (auto simp: interrupt_keeps)

lemma interrupt_all_done:
  "d \<in> set xs \<Longrightarrow> \<not> unfinished (gm_get (pr_tools (interrupt_all env cf xs s)) d)"
proof (induction xs arbitrary: s)
  case (Cons c xs)
  let ?s = "if unfinished (gm_get (pr_tools s) c) then interruptCall env cf c s else s"
  have step: "interrupt_all env cf (c # xs) s = interrupt_all env cf xs ?s" by (simp add: interrupt_all_def)
  show ?case
  proof (cases "d = c")
    case True
    then have "\<not> unfinished (gm_get (pr_tools ?s) d)" using interrupt_finishes by auto
    then show ?thesis unfolding step by (rule interrupt_all_keeps)
  next
    case False
    with Cons show ?thesis unfolding step by auto
  qed
qed simp

lemma interrupt_all_frame [simp]:
  "pr_assistant (interrupt_all env cf xs s) = pr_assistant s" "pr_text (interrupt_all env cf xs s) = pr_text s"
  "pr_reasoning (interrupt_all env cf xs s) = pr_reasoning s" "pr_order (interrupt_all env cf xs s) = pr_order s"
  "pr_compact (interrupt_all env cf xs s) = pr_compact s" "pr_break (interrupt_all env cf xs s) = pr_break s"
  "gm_has (pr_tools (interrupt_all env cf xs s)) d = gm_has (pr_tools s) d"
  unfolding interrupt_all_def by (induction xs arbitrary: s) (auto simp: interruptCall_def)

lemma closeText_frame [simp]:
  "pr_assistant (closeText env cf s) = pr_assistant s" "pr_text (closeText env cf s) = None"
  "pr_reasoning (closeText env cf s) = pr_reasoning s" "pr_tools (closeText env cf s) = pr_tools s"
  "pr_order (closeText env cf s) = pr_order s" "pr_pending (closeText env cf s) = pr_pending s"
  "pr_compact (closeText env cf s) = pr_compact s" "pr_break (closeText env cf s) = pr_break s"
  "pr_structured (closeText env cf s) = pr_structured s" "pr_message (closeText env cf s) = pr_message s"
  by (simp_all add: closeText_def split: option.split)

lemma cleanup_unfold:
  "cleanup env cf cancelled s =
     (let s3 = interrupt_all env cf (pr_order s) (finishAllReasoning env cf (closeText env cf s));
          a = pr_assistant s;
          a1 = (if cancelled \<and> am_error a = None
                then a\<lparr>am_error := Some \<lparr>er_name = ''MessageAbortedError'', er_data = [(''message'', JStr ''aborted'')]\<rparr>\<rparr>
                else a)
      in updateMessage env cf ((tick s3)\<lparr>pr_assistant := a1\<lparr>am_completed := Some (now env s3)\<rparr>\<rparr>))"
  by (simp add: cleanup_def Let_def interrupt_all_def [symmetric])

lemma cleanup_settles:
  assumes "order_ok (pe_order env)" "proc_inv s"
  shows "pr_text (cleanup env cf cancelled s) = None" "pr_reasoning (cleanup env cf cancelled s) = []"
    "\<not> unfinished (gm_get (pr_tools (cleanup env cf cancelled s)) c)"
    "am_completed (pr_assistant (cleanup env cf cancelled s)) \<noteq> None"
    "cancelled \<Longrightarrow> am_error (pr_assistant (cleanup env cf cancelled s)) \<noteq> None"
proof -
  let ?s2 = "finishAllReasoning env cf (closeText env cf s)"
  let ?s3 = "interrupt_all env cf (pr_order s) ?s2"
  have "\<not> unfinished (gm_get (pr_tools ?s3) c)"
  proof (cases "c \<in> set (pr_order s)")
    case True
    then show ?thesis by (rule interrupt_all_done)
  next
    case False
    with assms(2) have "\<not> gm_has (pr_tools ?s3) c" by (simp add: proc_inv_def)
    then show ?thesis by (simp add: gm_has_def unfinished_def)
  qed
  then show "\<not> unfinished (gm_get (pr_tools (cleanup env cf cancelled s)) c)"
    by (simp add: cleanup_unfold Let_def)
  show "pr_text (cleanup env cf cancelled s) = None" "pr_reasoning (cleanup env cf cancelled s) = []"
    "am_completed (pr_assistant (cleanup env cf cancelled s)) \<noteq> None"
    "cancelled \<Longrightarrow> am_error (pr_assistant (cleanup env cf cancelled s)) \<noteq> None"
    using assms(1) by (simp_all add: cleanup_unfold Let_def finishAll_empty)
qed

text \<open>
  C21. When a turn ends, from any event stream, with any executor and any outcome of the store's
  writes: no text or reasoning is still open, no tool call is pending or running, the assistant
  message is completed, and it carries an error if the run was cancelled.
\<close>

theorem turn_is_settled:
  assumes "order_ok (pe_order env)"
  shows "let s = fst (Run env cf cancelled evs (new_processor a)) in
    pr_text s = None \<and> pr_reasoning s = [] \<and> (\<forall>c. \<not> unfinished (gm_get (pr_tools s) c)) \<and>
    am_completed (pr_assistant s) \<noteq> None \<and> (cancelled \<longrightarrow> am_error (pr_assistant s) \<noteq> None)"
proof -
  have "proc_inv (executePending env cf (fold (handle env cf) evs (new_processor a)))"
    using handle_all_inv [OF new_inv, of env cf evs a] by (simp add: proc_inv_def)
  from cleanup_settles [OF assms this] show ?thesis
    by (simp add: Run_def Let_def)
qed

subsection \<open>What the store holds\<close>

definition store_inv :: "processor \<Rightarrow> bool" where
  "store_inv s =
     ((\<forall>c q. gm_get (pr_tools s) c = Some q \<longrightarrow> tl_call q = c) \<and>
      (\<forall>pid p. gm_get (pr_parts s) pid = Some (PTool p) \<longrightarrow>
         (\<exists>q. gm_get (pr_tools s) (tl_call p) = Some q \<and> part_id (PTool q) = pid \<and> tl_state q = tl_state p)))"

definition writes_ok :: "proc_env \<Rightarrow> bool" where
  "writes_ok env = (\<forall>n. pe_put env n)"

lemma store_inv_cong:
  "pr_tools s' = pr_tools s \<Longrightarrow> pr_parts s' = pr_parts s \<Longrightarrow> store_inv s' = store_inv s"
  by (simp add: store_inv_def)

definition not_tool :: "part \<Rightarrow> bool" where
  "not_tool p = (case p of PTool _ \<Rightarrow> False | _ \<Rightarrow> True)"

lemma store_other:
  "store_inv s \<Longrightarrow> not_tool p \<Longrightarrow> store_inv (updatePart env cf p s)"
  by (auto simp: store_inv_def not_tool_def)

lemma store_set_tool:
  assumes "store_inv s" "pr_tools s' = pr_tools (set_tool c f s)" "pr_parts s' = pr_parts s"
    and "\<And>p. tl_base (f p) = tl_base p \<and> tl_call (f p) = tl_call p" "writes_ok env"
  shows "store_inv (updateTool env cf c s')"
proof (cases "gm_get (pr_tools s) c")
  case None
  then have "pr_tools s' = pr_tools s" "gm_get (pr_tools s') c = None"
    using assms(2) by (simp_all add: set_tool_def)
  with assms(1,3) show ?thesis by (simp add: updateTool_def store_inv_def)
next
  case (Some p)
  then have c: "tl_call p = c" using assms(1) by (simp add: store_inv_def)
  have get: "gm_get (pr_tools s') d = (if d = c then Some (f p) else gm_get (pr_tools s) d)" for d
    using assms(2) Some by simp
  have id: "part_id (PTool (f p)) = part_id (PTool p)" using assms(4) by (simp add: part_id_def)
  have parts: "pr_parts (updateTool env cf c s') = gm_put (part_id (PTool p)) (PTool (f p)) (pr_parts s)"
    using get assms(3,5) id by (simp add: updateTool_parts writes_ok_def)
  show ?thesis
    unfolding store_inv_def updateTool_frame parts get
  proof (intro conjI allI impI)
    fix d q
    show "(if d = c then Some (f p) else gm_get (pr_tools s) d) = Some q \<Longrightarrow> tl_call q = d"
      using assms(1,4) c by (auto simp: store_inv_def split: if_splits)
  next
    fix pid r
    assume r: "gm_get (gm_put (part_id (PTool p)) (PTool (f p)) (pr_parts s)) pid = Some (PTool r)"
    show "\<exists>q. (if tl_call r = c then Some (f p) else gm_get (pr_tools s) (tl_call r)) = Some q \<and>
        part_id (PTool q) = pid \<and> tl_state q = tl_state r"
    proof (cases "pid = part_id (PTool p)")
      case True
      with r have "r = f p" by simp
      with True id c assms(4) show ?thesis by simp
    next
      case False
      with r have "gm_get (pr_parts s) pid = Some (PTool r)" by simp
      with assms(1) obtain q where q: "gm_get (pr_tools s) (tl_call r) = Some q" "part_id (PTool q) = pid"
        "tl_state q = tl_state r" unfolding store_inv_def by blast
      with False Some have "tl_call r \<noteq> c" by auto
      with q show ?thesis by simp
    qed
  qed
qed

lemma store_name:
  "store_inv s \<Longrightarrow> store_inv (set_tool c (\<lambda>p. p\<lparr>tl_tool := n\<rparr>) s)"
  by (auto simp: store_inv_def part_id_def split: if_splits) force

lemma store_ensure:
  assumes "store_inv s" "writes_ok env"
  shows "store_inv (ensureTool env cf c n s)"
proof (cases "gm_get (pr_tools s) c")
  case (Some p)
  with assms store_name show ?thesis by (simp add: ensureTool_def)
next
  case None
  then have "gm_get (pr_parts s) pid = Some (PTool r) \<Longrightarrow> tl_call r \<noteq> c" for pid r
    using assms(1) by (fastforce simp: store_inv_def)
  with None assms show ?thesis
    by (auto simp: ensureTool_def Let_def store_inv_def updateTool_parts writes_ok_def)
qed

lemma store_same [simp]:
  "store_inv (tick s) = store_inv s" "store_inv (publishDelta cf b d s) = store_inv s"
  "store_inv (s\<lparr>pr_pending := pend\<rparr>) = store_inv s" "store_inv (s\<lparr>pr_reasoning := reas\<rparr>) = store_inv s"
  "store_inv (s\<lparr>pr_text := txt0\<rparr>) = store_inv s" "store_inv (s\<lparr>pr_assistant := asst, pr_break := brk\<rparr>) = store_inv s"
  by (rule store_inv_cong; simp)+

lemma startOf_store: "startOf env p s = (t, s1) \<Longrightarrow> store_inv s1 = store_inv s"
  by (rule store_inv_cong) (metis startOf_frame(4,10) snd_conv)+

lemma store_fail: "store_inv s \<Longrightarrow> writes_ok env \<Longrightarrow> store_inv (fail_with env cf c m e s)"
  unfolding fail_with_def Let_def
  by (auto split: option.split prod.split dest: startOf_store
      intro!: store_set_tool [where s = "tick s1" and s' = "set_tool c f (tick s1)" for s1 f])

lemma store_complete: "store_inv s \<Longrightarrow> writes_ok env \<Longrightarrow> store_inv (completeCall env cf c r s)"
  unfolding completeCall_def Let_def
  by (auto split: option.split prod.split dest: startOf_store
      intro!: store_set_tool [where s = "tick s1" and s' = "set_tool c f (tick s1)" for s1 f]
        store_set_tool [where s = "tick s1" and
          s' = "(set_tool c f (tick s1))\<lparr>pr_structured := x, pr_break := True\<rparr>" for s1 f x])

lemma store_toolcall:
  assumes "store_inv s" "writes_ok env"
  shows "store_inv (onToolCall env cf c n i m s)"
proof -
  let ?s1 = "tick (ensureTool env cf c n s)"
  let ?f = "\<lambda>p. p\<lparr>tl_tool := n, tl_state := TsRunning \<lparr>sr_input = orEmptyMap i, sr_title = '''', sr_meta = None,
      sr_start = now env (ensureTool env cf c n s)\<rparr>, tl_meta := meta_or m (tl_meta p)\<rparr>"
  have "store_inv ?s1" using assms store_ensure by simp
  then have "store_inv (updateTool env cf c ((set_tool c ?f ?s1)\<lparr>pr_pending := pend\<rparr>))" for pend
    using assms(2) by (intro store_set_tool [where s = ?s1 and f = ?f]) simp_all
  with assms(2) store_fail show ?thesis
    by (auto simp: onToolCall_def Let_def failCall_def split: option.split)
qed

lemma store_write:
  "store_inv s \<Longrightarrow> not_tool p \<Longrightarrow> pr_tools s' = pr_tools s \<Longrightarrow> pr_parts s' = pr_parts s
   \<Longrightarrow> store_inv (updatePart env cf p s')"
  using store_other store_inv_cong by blast

lemma store_finish: "store_inv s \<Longrightarrow> store_inv (finishReasoning env cf i s)"
  by (auto simp: finishReasoning_def not_tool_def intro!: store_write [of s] split: option.split)

lemma store_finish_all: "store_inv s \<Longrightarrow> store_inv (finishAllReasoning env cf s)"
proof -
  have "store_inv s \<Longrightarrow> store_inv (fold (finishReasoning env cf) xs s)" for xs s
    by (induction xs arbitrary: s) (auto intro: store_finish)
  then show "store_inv s \<Longrightarrow> ?thesis" by (simp add: finishAllReasoning_def)
qed

lemma store_message: "store_inv (updateMessage env cf s) = store_inv s"
  by (rule store_inv_cong) simp_all

lemma store_stepFinish: "store_inv s \<Longrightarrow> store_inv (onStepFinish env cf r u s)"
proof -
  assume s: "store_inv s"
  let ?s1 = "finishAllReasoning env cf s"
  have "store_inv (updatePart env cf (PStepFinish x) (tick (?s1\<lparr>pr_assistant := y\<rparr>)))" for x y
    by (rule store_write [OF store_finish_all [OF s]]) (simp_all add: not_tool_def)
  then have "store_inv (updateMessage env cf (updatePart env cf (PStepFinish x) (tick (?s1\<lparr>pr_assistant := y\<rparr>))))"
    for x y by (simp add: store_message)
  then show ?thesis
    by (auto simp: onStepFinish_def Let_def store_inv_def)
qed

lemma store_handle:
  assumes "store_inv s" "writes_ok env"
  shows "store_inv (handle env cf ev s)"
proof -
  note stored = store_write [OF assms(1)]
  show ?thesis
  proof (cases ev)
    case (EvReasoningEnd i m)
    with store_finish assms(1) show ?thesis
      by (auto simp: handle_def onReasoningEnd_def split: option.split)
  qed (use assms in \<open>auto simp: handle_def onStepStart_def store_stepFinish onTextStart_def onTextDelta_def
      onTextEnd_def onReasoningStart_def onReasoningDelta_def onToolResult_def onToolError_def
      onProviderError_def failCall_def Let_def not_tool_def store_ensure store_toolcall store_complete store_fail
      intro!: stored split: option.split\<close>)
qed

lemma store_finish_call:
  "store_inv s \<Longrightarrow> writes_ok env \<Longrightarrow> store_inv (finish_call env cf c r s)"
  by (cases r) (simp_all add: finish_call_def failCall_def interruptCall_def store_complete store_fail)

lemma store_execute:
  assumes "store_inv s" "writes_ok env"
  shows "store_inv (executePending env cf s)"
proof -
  have "store_inv s' \<Longrightarrow> store_inv (run_calls env cf ex pend xs s')" for ex pend xs s'
    unfolding run_calls_def
    by (induction xs arbitrary: s') (auto simp: store_finish_call assms(2) split: option.split)
  moreover have "store_inv (s\<lparr>pr_pending := []\<rparr>)" using assms(1) by (simp add: store_inv_def)
  ultimately show ?thesis using assms(1) by (simp add: executePending_run split: option.split)
qed

lemma store_cleanup:
  assumes "store_inv s" "writes_ok env"
  shows "store_inv (cleanup env cf cancelled s)"
proof -
  have "store_inv (closeText env cf s)"
    using assms(1) by (auto simp: closeText_def not_tool_def intro!: store_write split: option.split)
  then have "store_inv (finishAllReasoning env cf (closeText env cf s))" by (rule store_finish_all)
  moreover have "store_inv s' \<Longrightarrow> store_inv (interrupt_all env cf xs s')" for xs s'
    unfolding interrupt_all_def
    by (induction xs arbitrary: s') (auto simp: interruptCall_def store_fail assms(2))
  ultimately have "store_inv (interrupt_all env cf (pr_order s) (finishAllReasoning env cf (closeText env cf s)))"
    by blast
  then show ?thesis
    by (simp add: cleanup_unfold Let_def store_message) (simp add: store_inv_def)
qed

lemma store_run:
  assumes "writes_ok env"
  shows "store_inv (fst (Run env cf cancelled evs (new_processor a)))"
proof -
  have "store_inv (new_processor a)" by (simp add: store_inv_def new_processor_def)
  then have "store_inv (fold (handle env cf) evs (new_processor a))"
    by (induction evs arbitrary: a rule: rev_induct) (auto simp: store_handle assms)
  then show ?thesis by (simp add: Run_def Let_def store_execute store_cleanup assms)
qed

text \<open>
  What survives a restart: when the store's writes succeed, no stored tool part is left pending
  or running at the end of a turn, every stored tool part has the state the processor holds for
  its call, and the stored assistant message is the final one.
\<close>

theorem stored_turn_is_settled:
  assumes "order_ok (pe_order env)" "writes_ok env"
    and "gm_get (pr_parts (fst (Run env cf cancelled evs (new_processor a)))) pid = Some (PTool p)"
  shows "\<not> unfinished (Some p) \<and>
    (\<exists>q. gm_get (pr_tools (fst (Run env cf cancelled evs (new_processor a)))) (tl_call p) = Some q \<and>
         tl_state q = tl_state p) \<and>
    pr_message (fst (Run env cf cancelled evs (new_processor a)))
      = Some (pr_assistant (fst (Run env cf cancelled evs (new_processor a))))"
proof -
  let ?s = "fst (Run env cf cancelled evs (new_processor a))"
  from store_run [OF assms(2), of cf cancelled evs a] assms(3) obtain q where
    q: "gm_get (pr_tools ?s) (tl_call p) = Some q" "tl_state q = tl_state p"
    unfolding store_inv_def by blast
  have "proc_inv (executePending env cf (fold (handle env cf) evs (new_processor a)))"
    using handle_all_inv [OF new_inv, of env cf evs a] by (simp add: proc_inv_def)
  then have "\<not> unfinished (gm_get (pr_tools ?s) (tl_call p))"
    using cleanup_settles(3) [OF assms(1)] by (simp add: Run_def Let_def)
  with q have "\<not> unfinished (Some p)" by (simp add: unfinished_def)
  moreover have "pr_message ?s = Some (pr_assistant ?s)"
    using assms(2) by (simp add: Run_def Let_def cleanup_unfold writes_ok_def)
  ultimately show ?thesis using q by blast
qed

subsection \<open>A concrete turn\<close>

definition demo_env :: "bool \<Rightarrow> proc_env" where
  "demo_env ok = \<lparr>pe_now = (\<lambda>n. int n + 1), pe_id = (\<lambda>n. ''prt_'' @ replicate n (CHR ''x'')), pe_put = (\<lambda>n. ok),
     pe_fl = (\<lambda>r. r), pe_order = (\<lambda>ks. ks)\<rparr>"

definition demo_config :: proc_config where
  "demo_config = \<lparr>cf_session = ''s'', cf_catalog = [], cf_bus = False, cf_executor = None, cf_asker = None,
     cf_structured = ''''\<rparr>"

lemma demo_orders: "order_ok (pe_order (demo_env ok))" "writes_ok (demo_env True)"
  by (simp_all add: demo_env_def writes_ok_def)

theorem turn_is_settled_witness:
  "pr_text (fst (Run (demo_env False) demo_config True [EvTextStart ''t'' None] (new_processor (demo_assistant ''m'' ''u'' False)))) = None \<and>
   am_error (pr_assistant (fst (Run (demo_env False) demo_config True [EvTextStart ''t'' None]
     (new_processor (demo_assistant ''m'' ''u'' False))))) \<noteq> None"
  using turn_is_settled [OF demo_orders(1), of False demo_config True "[EvTextStart ''t'' None]"
      "demo_assistant ''m'' ''u'' False"]
  by (simp add: Let_def)

definition demo_tool :: tool_part where
  "demo_tool = \<lparr>tl_base = \<lparr>pb_id = ''prt_'', pb_session = ''s'', pb_message = ''m''\<rparr>, tl_call = ''c'', tl_tool = ''read'',
     tl_state = TsError \<lparr>se_input = Some [], se_error = ''Tool execution aborted'',
       se_meta = Some [(''interrupted'', JBool True)], se_start = 3, se_end = 4\<rparr>, tl_meta = None\<rparr>"

lemma demo_stored:
  "gm_get (pr_parts (fst (Run (demo_env True) demo_config False [EvToolInputStart ''c'' ''read'']
     (new_processor (demo_assistant ''m'' ''u'' False))))) ''prt_'' = Some (PTool demo_tool)"
  by (simp add: Run_def Let_def handle_def ensureTool_def new_processor_def demo_config_def demo_env_def
      executePending_def cleanup_unfold closeText_def finishAllReasoning_def gm_keys_def interrupt_all_def
      updateTool_def updatePart_def tick_def now_def partBase_def publish_def unfinished_def status_of_def
      interruptCall_def fail_with_def startOf_def state_start_def set_tool_def inputOf_def part_id_def
      demo_assistant_def demo_tool_def updateMessage_def)

theorem stored_turn_is_settled_witness:
  "\<not> unfinished (Some demo_tool) \<and>
   pr_message (fst (Run (demo_env True) demo_config False [EvToolInputStart ''c'' ''read'']
     (new_processor (demo_assistant ''m'' ''u'' False)))) \<noteq> None"
  using stored_turn_is_settled [OF demo_orders(1) demo_orders(2) demo_stored] by simp

subsection \<open>Cancelled writes\<close>

text \<open>\<open>lost s s'\<close>: from \<open>s\<close> to \<open>s'\<close> nothing reached the store.\<close>

definition lost :: "processor \<Rightarrow> processor \<Rightarrow> bool" where
  "lost s s' = (pr_parts s' = pr_parts s \<and> pr_message s' = pr_message s \<and> pr_tick s \<le> pr_tick s')"

definition writes_fail :: "proc_env \<Rightarrow> nat \<Rightarrow> bool" where
  "writes_fail env n = (\<forall>k \<ge> n. \<not> pe_put env k)"

lemma lost_refl: "lost s s"
  by (simp add: lost_def)

lemma lost_trans: "lost a b \<Longrightarrow> lost b c \<Longrightarrow> lost a c"
  by (simp add: lost_def)

lemma lost_write: "writes_fail env (pr_tick s) \<Longrightarrow> lost s s' \<Longrightarrow> lost s (updatePart env cf p s')"
  by (auto simp: lost_def writes_fail_def)

lemma lost_message: "writes_fail env (pr_tick s) \<Longrightarrow> lost s s' \<Longrightarrow> lost s (updateMessage env cf s')"
  by (auto simp: lost_def writes_fail_def)

lemma lost_tool: "writes_fail env (pr_tick s) \<Longrightarrow> lost s s' \<Longrightarrow> lost s (updateTool env cf c s')"
  by (auto simp: updateTool_def intro: lost_write split: option.split)

lemma lost_startOf: "startOf env p s = (t, s1) \<Longrightarrow> lost s s1"
  by (auto simp: startOf_def lost_def tick_def split: if_splits)

lemma lost_tick: "lost s s' \<Longrightarrow> lost s (set_tool c f (tick s'))" "lost s s' \<Longrightarrow> lost s (tick s')"
  by (simp_all add: lost_def tick_def)

lemma lost_fail:
  "writes_fail env (pr_tick s0) \<Longrightarrow> lost s0 s \<Longrightarrow> lost s0 (fail_with env cf c m e s)"
  unfolding fail_with_def Let_def
  by (auto split: option.split prod.split intro!: lost_tool lost_tick dest: lost_startOf intro: lost_trans)

lemma lost_finish:
  "writes_fail env (pr_tick s0) \<Longrightarrow> lost s0 s \<Longrightarrow> lost s0 (finishReasoning env cf i s)"
  by (auto simp: finishReasoning_def split: option.split intro!: lost_write) (simp add: lost_def tick_def)

lemma lost_close: "writes_fail env (pr_tick s0) \<Longrightarrow> lost s0 s \<Longrightarrow> lost s0 (closeText env cf s)"
  by (auto simp: closeText_def split: option.split intro!: lost_write) (simp add: lost_def tick_def)

lemma lost_fold:
  "(\<And>x s. lost s0 s \<Longrightarrow> lost s0 (f x s)) \<Longrightarrow> lost s0 s \<Longrightarrow> lost s0 (fold f xs s)"
  by (induction xs arbitrary: s) auto

text \<open>
  A cancelled turn as the store sees it: once the cancelled context makes every write fail, as
  \<^verbatim>\<open>database/sql\<close> does, the finalization changes nothing in the store, so a stored tool part that
  was running stays running and the stored message has neither the abort error nor a completion
  time, although the processor's own message has both.
\<close>

theorem cancelled_turn_not_stored:
  assumes "writes_fail env (pr_tick s)"
  shows "pr_parts (cleanup env cf True s) = pr_parts s \<and> pr_message (cleanup env cf True s) = pr_message s \<and>
    am_error (pr_assistant (cleanup env cf True s)) \<noteq> None \<and>
    am_completed (pr_assistant (cleanup env cf True s)) \<noteq> None"
proof -
  have "lost s (finishAllReasoning env cf (closeText env cf s))"
    unfolding finishAllReasoning_def
    by (rule lost_fold) (auto intro: lost_finish lost_close lost_refl assms)
  then have "lost s (interrupt_all env cf (pr_order s) (finishAllReasoning env cf (closeText env cf s)))"
    unfolding interrupt_all_def
    by (intro lost_fold) (auto simp: interruptCall_def intro: lost_fail assms)
  then have "lost s ((tick (interrupt_all env cf (pr_order s) (finishAllReasoning env cf (closeText env cf s))))
      \<lparr>pr_assistant := b\<rparr>)" for b by (simp add: lost_def tick_def)
  then have "lost s (cleanup env cf True s)"
    using assms by (simp add: cleanup_unfold Let_def lost_message)
  then show ?thesis by (simp add: lost_def) (simp add: cleanup_unfold Let_def)
qed

theorem cancelled_turn_not_stored_witness:
  "pr_parts (cleanup (demo_env False) demo_config True (new_processor (demo_assistant ''m'' ''u'' False))) = [] \<and>
   am_error (pr_assistant (cleanup (demo_env False) demo_config True
     (new_processor (demo_assistant ''m'' ''u'' False)))) \<noteq> None"
  using cancelled_turn_not_stored
    [of "demo_env False" "new_processor (demo_assistant ''m'' ''u'' False)" demo_config]
  by (simp add: writes_fail_def demo_env_def) (simp add: new_processor_def)

subsection \<open>Calls the provider left to the executor\<close>

definition finished_as :: "exec_outcome \<Rightarrow> tool_part option \<Rightarrow> bool" where
  "finished_as r p =
     (case p of
        None \<Rightarrow> False
      | Some p \<Rightarrow>
          (case (r, tl_state p) of
             (ExecOk res, TsCompleted st) \<Rightarrow> sc_output st = tr_output res \<and> sc_attachments st = tr_attachments res
           | (ExecFailed msg, TsError st) \<Rightarrow> se_error st = msg
           | (ExecCancelled, TsError st) \<Rightarrow> se_error st = ''Tool execution aborted''
           | _ \<Rightarrow> False))"

lemma finish_call_done:
  assumes "gm_has (pr_tools s) c"
  shows "finished_as r (gm_get (pr_tools (finish_call env cf c r s)) c)"
proof -
  from assms obtain p where p: "gm_get (pr_tools s) c = Some p" by (auto simp: gm_has_def)
  show ?thesis
  proof (cases r)
    case (ExecOk res)
    with completeCall_done [OF p, of env cf res] show ?thesis
      by (auto simp: finish_call_def finished_as_def)
  next
    case (ExecFailed msg)
    with fail_with_done [OF p, of env cf msg None] show ?thesis
      by (auto simp: finish_call_def finished_as_def failCall_def)
  next
    case ExecCancelled
    with fail_with_done [OF p, of env cf "''Tool execution aborted''" "Some [(''interrupted'', JBool True)]"]
    show ?thesis by (auto simp: finish_call_def finished_as_def interruptCall_def)
  qed
qed

lemma run_calls_done:
  assumes "\<forall>k call. gm_get pend k = Some call \<longrightarrow> kc_call call = k"
    and "gm_get pend c = Some call" "gm_has (pr_tools s) c"
    and "c \<in> set xs \<or> finished_as (ex call) (gm_get (pr_tools s) c)"
  shows "finished_as (ex call) (gm_get (pr_tools (run_calls env cf ex pend xs s)) c)"
  using assms(3,4)
proof (induction xs arbitrary: s)
  case (Cons x xs)
  let ?s = "case gm_get pend x of None \<Rightarrow> s | Some k \<Rightarrow> finish_call env cf (kc_call k) (ex k) s"
  have step: "run_calls env cf ex pend (x # xs) s = run_calls env cf ex pend xs ?s"
    by (simp add: run_calls_def split: option.split)
  have has: "gm_has (pr_tools ?s) c" using Cons.prems(1) by (simp split: option.split)
  have "c \<in> set xs \<or> finished_as (ex call) (gm_get (pr_tools ?s) c)"
  proof (cases "x = c")
    case True
    then show ?thesis using assms(1,2) finish_call_done [OF Cons.prems(1)] by simp
  next
    case False
    then show ?thesis using Cons.prems(2) assms(1) by (auto split: option.split)
  qed
  from Cons.IH [OF has this] show ?case unfolding step .
qed (simp add: run_calls_def)

definition pending_ok :: "processor \<Rightarrow> bool" where
  "pending_ok s = (\<forall>k call. gm_get (pr_pending s) k = Some call \<longrightarrow> kc_call call = k \<and> gm_has (pr_tools s) k)"

lemma pending_ok_run:
  assumes "pending_ok s" "order_ok (pe_order env)" "cf_executor cf = Some ex"
    "gm_get (pr_pending s) c = Some call"
  shows "finished_as (ex call) (gm_get (pr_tools (executePending env cf s)) c)"
  using assms
  by (auto simp: executePending_run pending_ok_def order_ok_set set_gm_keys intro!: run_calls_done)

lemma pending_handle: "pending_ok s \<Longrightarrow> pending_ok (handle env cf ev s)"
  unfolding pending_ok_def
  by (cases ev)
    (auto simp: handle_def onStepStart_def onStepFinish_def onTextStart_def onTextDelta_def onTextEnd_def
      onReasoningStart_def onReasoningDelta_def onReasoningEnd_def onToolResult_def onToolError_def
      onProviderError_def failCall_def ensureTool_dom onToolCall_dom onToolCall_pending Let_def
      split: option.splits if_splits)

lemma pending_all: "pending_ok (fold (handle env cf) evs (new_processor a))"
proof -
  have "pending_ok (new_processor a)" by (simp add: pending_ok_def new_processor_def)
  then show ?thesis by (induction evs rule: rev_induct) (auto intro: pending_handle)
qed

text \<open>
  Every call the provider requested and did not resolve is executed and its result recorded:
  after the pending calls ran, in whatever order they finish, each of their parts is completed with
  the executor's output, failed with its error, or marked interrupted if the run was cancelled.
\<close>

theorem pending_calls_recorded:
  assumes "order_ok (pe_order env)" "cf_executor cf = Some ex"
    and "gm_get (pr_pending (fold (handle env cf) evs (new_processor a))) c = Some call"
  shows "finished_as (ex call)
    (gm_get (pr_tools (executePending env cf (fold (handle env cf) evs (new_processor a)))) c)"
  using pending_ok_run [OF pending_all assms(1,2,3)] .

definition demo_exec :: "tool_call \<Rightarrow> exec_outcome" where
  "demo_exec call = ExecOk \<lparr>tr_output = kc_name call, tr_title = '''', tr_meta = None, tr_attachments = []\<rparr>"

definition demo_config_ask :: proc_config where
  "demo_config_ask = demo_config\<lparr>cf_executor := Some demo_exec, cf_asker := Some (\<lambda>n i. Some ''no'')\<rparr>"

definition demo_call :: "string \<Rightarrow> tool_call" where
  "demo_call c = \<lparr>kc_call = c, kc_name = ''read'', kc_input = Some [], kc_session = ''s'', kc_message = ''m''\<rparr>"

lemma demo_pending:
  "gm_get (pr_pending (fold (handle (demo_env True) demo_config_ask) [EvToolCall ''c'' ''read'' None None]
     (new_processor (demo_assistant ''m'' ''u'' False)))) ''c'' = Some (demo_call ''c'')"
  by (simp add: handle_def onToolCall_pending demo_call_def orEmptyMap_def demo_config_ask_def demo_config_def
      new_processor_def demo_assistant_def)

theorem pending_calls_recorded_witness:
  "finished_as (ExecOk \<lparr>tr_output = ''read'', tr_title = '''', tr_meta = None, tr_attachments = []\<rparr>)
    (gm_get (pr_tools (executePending (demo_env True) demo_config_ask
       (fold (handle (demo_env True) demo_config_ask) [EvToolCall ''c'' ''read'' None None]
          (new_processor (demo_assistant ''m'' ''u'' False))))) ''c'')"
  using pending_calls_recorded [OF demo_orders(1) _ demo_pending, of demo_exec]
  by (simp add: demo_config_ask_def demo_exec_def demo_call_def)

text \<open>
  A refused call still runs. The asker of the doom-loop guard answers with an error, which
  \<^verbatim>\<open>PermissionAsker\<close> documents as aborting the offending call; the guard marks the part as failed but
  leaves the call pending, so it is executed all the same, and the part ends as a completed one
  with the executor's output.
\<close>

theorem refused_call_still_runs:
  assumes "order_ok (pe_order env)" "cf_executor cf = Some ex"
    and refused: "finished_as (ExecFailed err)
      (gm_get (pr_tools (handle env cf (EvToolCall c name input meta) s)) c)"
    and "ex \<lparr>kc_call = c, kc_name = name, kc_input = orEmptyMap input, kc_session = cf_session cf,
           kc_message = am_id (pr_assistant s)\<rparr> = ExecOk res"
    and "s = fold (handle env cf) evs (new_processor a)"
  shows "finished_as (ExecOk res)
    (gm_get (pr_tools (executePending env cf (handle env cf (EvToolCall c name input meta) s))) c)"
proof -
  let ?s = "handle env cf (EvToolCall c name input meta) s"
  have "pending_ok ?s" using assms(5) pending_all pending_handle by blast
  moreover have "gm_get (pr_pending ?s) c = Some \<lparr>kc_call = c, kc_name = name, kc_input = orEmptyMap input,
      kc_session = cf_session cf, kc_message = am_id (pr_assistant s)\<rparr>"
    by (simp add: handle_def onToolCall_pending)
  ultimately show ?thesis using pending_ok_run [OF _ assms(1,2)] assms(4) by fastforce
qed

definition demo_calls :: "llm_event list" where
  "demo_calls = [EvToolCall ''c1'' ''read'' None None, EvToolCall ''c2'' ''read'' None None]"

lemma demo_refused:
  "finished_as (ExecFailed ''no'') (gm_get (pr_tools (handle (demo_env True) demo_config_ask
     (EvToolCall ''c3'' ''read'' None None)
     (fold (handle (demo_env True) demo_config_ask) demo_calls (new_processor (demo_assistant ''m'' ''u'' False))))) ''c3'')"
  by code_simp

theorem refused_call_still_runs_witness:
  "finished_as (ExecOk \<lparr>tr_output = ''read'', tr_title = '''', tr_meta = None, tr_attachments = []\<rparr>)
    (gm_get (pr_tools (executePending (demo_env True) demo_config_ask (handle (demo_env True) demo_config_ask
       (EvToolCall ''c3'' ''read'' None None)
       (fold (handle (demo_env True) demo_config_ask) demo_calls
          (new_processor (demo_assistant ''m'' ''u'' False)))))) ''c3'')"
  by (rule refused_call_still_runs [OF demo_orders(1) _ demo_refused _ refl, of demo_exec])
    (simp_all add: demo_config_ask_def demo_exec_def)

subsection \<open>Text as it was streamed\<close>

definition text_boundary :: "llm_event \<Rightarrow> bool" where
  "text_boundary ev = (case ev of EvTextStart _ _ \<Rightarrow> True | EvTextEnd _ \<Rightarrow> True | _ \<Rightarrow> False)"

lemma handle_text:
  assumes "\<not> text_boundary ev" "pr_text s = Some p"
  shows "\<exists>q. pr_text (handle env cf ev s) = Some q \<and> tp_base q = tp_base p \<and> tp_time q = tp_time p \<and>
    tp_text q = tp_text p @ text_sent [ev]"
  using assms
  by (cases ev)
    (auto simp: handle_def text_boundary_def onStepStart_def onStepFinish_def onTextDelta_def onReasoningStart_def
      onReasoningDelta_def onReasoningEnd_def onToolResult_def onToolError_def onProviderError_def failCall_def
      Let_def text_sent_def split: option.split)

lemma handle_texts:
  assumes "\<forall>ev \<in> set mid. \<not> text_boundary ev" "pr_text s = Some p"
  shows "\<exists>q. pr_text (fold (handle env cf) mid s) = Some q \<and> tp_base q = tp_base p \<and> tp_time q = tp_time p \<and>
    tp_text q = tp_text p @ text_sent mid"
  using assms
proof (induction mid arbitrary: s p)
  case (Cons ev mid)
  from handle_text [of ev s p env cf] Cons.prems obtain q where q: "pr_text (handle env cf ev s) = Some q"
    "tp_base q = tp_base p" "tp_time q = tp_time p" "tp_text q = tp_text p @ text_sent [ev]" by auto
  from Cons.IH [OF _ q(1)] Cons.prems q show ?case
    by (auto simp: text_sent_def)
qed (simp add: text_sent_def)

text \<open>
  The text of a block is stored as it was streamed: after a text start, any events without
  another text boundary, and the text end, the store holds under the block's id a text part whose
  text is the concatenation of all deltas in between, with a start and an end time, and no text is
  open any more.
\<close>

theorem text_block_stored:
  assumes "writes_ok env" "\<forall>ev \<in> set mid. \<not> text_boundary ev"
  shows "let s' = fold (handle env cf) (EvTextStart i meta # mid @ [EvTextEnd j]) s in
    pr_text s' = None \<and>
    (\<exists>p. gm_get (pr_parts s') (pe_id env (Suc (pr_tick s))) = Some (PText p) \<and> tp_text p = text_sent mid \<and>
         (\<exists>t. tp_time p = Some \<lparr>pt_start = pe_now env (pr_tick s), pt_end = Some t\<rparr>))"
proof -
  let ?s1 = "onTextStart env cf meta s"
  have p1: "\<exists>p. pr_text ?s1 = Some p \<and> tp_text p = '''' \<and> part_id (PText p) = pe_id env (Suc (pr_tick s)) \<and>
      tp_time p = Some \<lparr>pt_start = pe_now env (pr_tick s), pt_end = None\<rparr>"
    by (simp add: onTextStart_def Let_def partBase_def part_id_def now_def tick_def)
  then obtain p where p: "pr_text ?s1 = Some p" "tp_text p = ''''"
    "part_id (PText p) = pe_id env (Suc (pr_tick s))"
    "tp_time p = Some \<lparr>pt_start = pe_now env (pr_tick s), pt_end = None\<rparr>" by blast
  from handle_texts [OF assms(2) p(1), of env cf] obtain q where
    q: "pr_text (fold (handle env cf) mid ?s1) = Some q" "tp_base q = tp_base p" "tp_time q = tp_time p"
    "tp_text q = text_sent mid" using p(2) by auto
  have "fold (handle env cf) (EvTextStart i meta # mid @ [EvTextEnd j]) s
      = onTextEnd env cf (fold (handle env cf) mid ?s1)" by (simp add: handle_def)
  moreover have "part_id (PText (end_text t q)) = pe_id env (Suc (pr_tick s))" for t
    using p(3) q(2) by (simp add: part_id_def end_text_def)
  ultimately show ?thesis
    using q p(4) assms(1) by (simp add: Let_def onTextEnd_def writes_ok_def end_text_def)
qed

theorem text_block_stored_witness:
  "\<exists>p. gm_get (pr_parts (fold (handle (demo_env True) demo_config)
       (EvTextStart ''t'' None # [EvTextDelta ''t'' ''hel'' None, EvStepStart, EvTextDelta ''t'' ''lo'' None] @ [EvTextEnd ''t''])
       (new_processor (demo_assistant ''m'' ''u'' False)))) ''prt_x'' = Some (PText p) \<and> tp_text p = ''hello''"
proof -
  let ?mid = "[EvTextDelta ''t'' ''hel'' None, EvStepStart, EvTextDelta ''t'' ''lo'' None]"
  let ?s = "new_processor (demo_assistant ''m'' ''u'' False)"
  have i: "pe_id (demo_env True) (Suc (pr_tick ?s)) = ''prt_x''" "text_sent ?mid = ''hello''"
    by (simp_all add: demo_env_def new_processor_def text_sent_def)
  have m: "\<forall>ev \<in> set ?mid. \<not> text_boundary ev" by (simp add: text_boundary_def)
  from text_block_stored [OF demo_orders(2) m, of demo_config "''t''" None "''t''" ?s]
  show ?thesis unfolding Let_def i by blast
qed

subsection \<open>The verdict of a turn\<close>

lemma error_stays:
  "am_error (pr_assistant s) \<noteq> None \<Longrightarrow> am_error (pr_assistant (handle env cf ev s)) \<noteq> None"
  by (cases ev)
    (auto simp: handle_def onStepStart_def onStepFinish_def onTextStart_def onTextDelta_def onTextEnd_def
      onReasoningStart_def onReasoningDelta_def onReasoningEnd_def onToolResult_def onToolError_def
      onProviderError_def failCall_def Let_def split: option.split)

lemma error_stays_all:
  "am_error (pr_assistant s) \<noteq> None \<Longrightarrow> am_error (pr_assistant (fold (handle env cf) evs s)) \<noteq> None"
proof (induction evs arbitrary: s)
  case (Cons ev evs)
  from Cons.IH [OF error_stays [OF Cons.prems]] show ?case by simp
qed simp

lemma provider_error_recorded:
  "EvProviderError k m \<in> set evs \<Longrightarrow> am_error (pr_assistant (fold (handle env cf) evs s)) \<noteq> None"
proof -
  assume "EvProviderError k m \<in> set evs"
  then obtain xs ys where evs: "evs = xs @ EvProviderError k m # ys" by (meson split_list)
  have "am_error (pr_assistant (handle env cf (EvProviderError k m) (fold (handle env cf) xs s))) \<noteq> None"
    by (simp add: handle_def onProviderError_def)
  from error_stays_all [OF this] show ?thesis unfolding evs by simp
qed

text \<open>
  A turn that failed is never continued: if the provider reported an error, or the run was
  cancelled, the verdict is to stop or to compact.
\<close>

theorem failed_turn_not_continued:
  assumes "(\<exists>k m. EvProviderError k m \<in> set evs) \<or> cancelled"
  shows "snd (Run env cf cancelled evs s) \<noteq> OutcomeContinue"
proof -
  have "am_error (pr_assistant (cleanup env cf cancelled (executePending env cf (fold (handle env cf) evs s)))) \<noteq> None"
    using assms provider_error_recorded [of _ _ evs env cf s] by (auto simp: cleanup_unfold Let_def)
  then show ?thesis by (simp add: Run_def Let_def)
qed

theorem failed_turn_not_continued_witness:
  "snd (Run (demo_env True) demo_config False [EvStepStart, EvProviderError 529 ''overloaded'']
     (new_processor (demo_assistant ''m'' ''u'' False))) \<noteq> OutcomeContinue"
  by (rule failed_turn_not_continued) auto

end
