(* ===== verification/RunState.thy ===== *)
theory RunState
  imports Prelude
begin

text \<open>
  The per-session run lock (\<^verbatim>\<open>internal/engine/runstate/runstate.go\<close>). Callers and run goroutines
  interleave at the mutex sections and at the hook calls; each is a function on the state, and a
  run is a sequence of them. The work a run executes and its result are opaque.
\<close>

subsection \<open>State\<close>

text \<open>
  The life of a run, in the order of the code: created under the lock, \<^verbatim>\<open>OnBusy\<close> called and the
  goroutine started, \<^verbatim>\<open>work\<close> returned, slot cleared, \<^verbatim>\<open>OnIdle\<close> called, context cancelled, \<^verbatim>\<open>done\<close>
  closed (the deferred calls run last-in first-out).
\<close>

datatype run_phase = Created | Working | Returned | Cleared | Idled | Released | Closed

record 'r session_run =
  sn_session :: string
  sn_phase :: run_phase
  sn_cancelled :: bool
  sn_result :: "'r option"

datatype hook_call = OnBusy string | OnIdle string

record 'r run_state =
  rs_active :: "(string, nat) gomap"
  rs_runs :: "'r session_run list"
  rs_waiting :: "(nat, nat) gomap"
  rs_answers :: "(nat \<times> nat \<times> 'r) list"
  rs_hooks :: "hook_call list"

definition rs_New :: "'r run_state" where
  "rs_New = \<lparr>rs_active = [], rs_runs = [], rs_waiting = [], rs_answers = [], rs_hooks = []\<rparr>"

definition phase_of :: "'r run_state \<Rightarrow> nat \<Rightarrow> run_phase option" where
  "phase_of s r = (if r < length (rs_runs s) then Some (sn_phase (rs_runs s ! r)) else None)"

definition set_run :: "nat \<Rightarrow> ('r session_run \<Rightarrow> 'r session_run) \<Rightarrow> 'r run_state \<Rightarrow> 'r run_state" where
  "set_run r f s = s\<lparr>rs_runs := (rs_runs s)[r := f (rs_runs s ! r)]\<rparr>"

subsection \<open>The mutex sections\<close>

text \<open>\<^verbatim>\<open>EnsureRunning\<close> up to its first unlock: caller \<open>k\<close> joins the active run or creates one.\<close>

definition ensure_enter :: "nat \<Rightarrow> string \<Rightarrow> 'r run_state \<Rightarrow> 'r run_state" where
  "ensure_enter k sid s =
     (case gm_get (rs_active s) sid of
        Some r \<Rightarrow> s\<lparr>rs_waiting := gm_put k r (rs_waiting s)\<rparr>
      | None \<Rightarrow>
          (let r = length (rs_runs s) in
           s\<lparr>rs_runs := rs_runs s @ [\<lparr>sn_session = sid, sn_phase = Created, sn_cancelled = False, sn_result = None\<rparr>],
             rs_active := gm_put sid r (rs_active s),
             rs_waiting := gm_put k r (rs_waiting s)\<rparr>))"

definition call_busy :: "nat \<Rightarrow> 'r run_state \<Rightarrow> 'r run_state" where
  "call_busy r s =
     (set_run r (\<lambda>n. n\<lparr>sn_phase := Working\<rparr>) s)\<lparr>rs_hooks := rs_hooks s @ [OnBusy (sn_session (rs_runs s ! r))]\<rparr>"

definition work_returns :: "nat \<Rightarrow> 'r \<Rightarrow> 'r run_state \<Rightarrow> 'r run_state" where
  "work_returns r res s = set_run r (\<lambda>n. n\<lparr>sn_phase := Returned, sn_result := Some res\<rparr>) s"

definition clear_slot :: "nat \<Rightarrow> 'r run_state \<Rightarrow> 'r run_state" where
  "clear_slot r s =
     (let sid = sn_session (rs_runs s ! r);
          s1 = (if gm_get (rs_active s) sid = Some r then s\<lparr>rs_active := gm_del sid (rs_active s)\<rparr> else s)
      in set_run r (\<lambda>n. n\<lparr>sn_phase := Cleared\<rparr>) s1)"

definition call_idle :: "nat \<Rightarrow> 'r run_state \<Rightarrow> 'r run_state" where
  "call_idle r s =
     (set_run r (\<lambda>n. n\<lparr>sn_phase := Idled\<rparr>) s)\<lparr>rs_hooks := rs_hooks s @ [OnIdle (sn_session (rs_runs s ! r))]\<rparr>"

definition release_ctx :: "nat \<Rightarrow> 'r run_state \<Rightarrow> 'r run_state" where
  "release_ctx r s = set_run r (\<lambda>n. n\<lparr>sn_phase := Released, sn_cancelled := True\<rparr>) s"

definition close_done :: "nat \<Rightarrow> 'r run_state \<Rightarrow> 'r run_state" where
  "close_done r s = set_run r (\<lambda>n. n\<lparr>sn_phase := Closed\<rparr>) s"

text \<open>The caller's receive from \<^verbatim>\<open>run.done\<close> and its return with the run's result.\<close>

definition caller_return :: "nat \<Rightarrow> 'r run_state \<Rightarrow> 'r run_state" where
  "caller_return k s =
     (case gm_get (rs_waiting s) k of
        None \<Rightarrow> s
      | Some r \<Rightarrow>
          (case sn_result (rs_runs s ! r) of
             None \<Rightarrow> s
           | Some res \<Rightarrow> s\<lparr>rs_waiting := gm_del k (rs_waiting s), rs_answers := rs_answers s @ [(k, r, res)]\<rparr>))"

definition rs_Cancel :: "string \<Rightarrow> 'r run_state \<Rightarrow> 'r run_state" where
  "rs_Cancel sid s =
     (case gm_get (rs_active s) sid of None \<Rightarrow> s | Some r \<Rightarrow> set_run r (\<lambda>n. n\<lparr>sn_cancelled := True\<rparr>) s)"

definition Busy :: "string \<Rightarrow> 'r run_state \<Rightarrow> bool" where
  "Busy sid s = gm_has (rs_active s) sid"

definition AssertNotBusy :: "string \<Rightarrow> 'r run_state \<Rightarrow> string option" where
  "AssertNotBusy sid s = (if Busy sid s then Some (''session '' @ sid @ '' is busy'') else None)"

subsection \<open>Runs\<close>

inductive rs_step :: "'r run_state \<Rightarrow> 'r run_state \<Rightarrow> bool" where
  enter: "gm_get (rs_waiting s) k = None \<Longrightarrow> rs_step s (ensure_enter k sid s)"
| busy: "phase_of s r = Some Created \<Longrightarrow> rs_step s (call_busy r s)"
| returns: "phase_of s r = Some Working \<Longrightarrow> rs_step s (work_returns r res s)"
| clear: "phase_of s r = Some Returned \<Longrightarrow> rs_step s (clear_slot r s)"
| idle: "phase_of s r = Some Cleared \<Longrightarrow> rs_step s (call_idle r s)"
| release: "phase_of s r = Some Idled \<Longrightarrow> rs_step s (release_ctx r s)"
| close_it: "phase_of s r = Some Released \<Longrightarrow> rs_step s (close_done r s)"
| receive: "gm_get (rs_waiting s) k = Some r \<Longrightarrow> phase_of s r = Some Closed \<Longrightarrow> rs_step s (caller_return k s)"
| cancel: "rs_step s (rs_Cancel sid s)"

inductive rs_reachable :: "'r run_state \<Rightarrow> bool" where
  start: "rs_reachable rs_New"
| step: "rs_reachable s \<Longrightarrow> rs_step s s' \<Longrightarrow> rs_reachable s'"

inductive_simps rs_step_simps: "rs_step s s'"

text \<open>A run holds its session's slot from its creation until the slot is cleared.\<close>

definition holds_slot :: "run_phase \<Rightarrow> bool" where
  "holds_slot p = (p = Created \<or> p = Working \<or> p = Returned)"

definition has_result :: "run_phase \<Rightarrow> bool" where
  "has_result p = (p \<noteq> Created \<and> p \<noteq> Working)"

lemma phase_simps [simp]:
  "holds_slot Created" "holds_slot Working" "holds_slot Returned" "\<not> holds_slot Cleared" "\<not> holds_slot Idled"
  "\<not> holds_slot Released" "\<not> holds_slot Closed" "\<not> has_result Created" "\<not> has_result Working"
  "has_result Returned" "has_result Cleared" "has_result Idled" "has_result Released" "has_result Closed"
  by (simp_all add: holds_slot_def has_result_def)

definition slot_inv :: "'r run_state \<Rightarrow> bool" where
  "slot_inv s =
     ((\<forall>sid r. gm_get (rs_active s) sid = Some r \<longrightarrow>
         r < length (rs_runs s) \<and> sn_session (rs_runs s ! r) = sid \<and> holds_slot (sn_phase (rs_runs s ! r))) \<and>
      (\<forall>r < length (rs_runs s). holds_slot (sn_phase (rs_runs s ! r)) \<longrightarrow>
         gm_get (rs_active s) (sn_session (rs_runs s ! r)) = Some r))"

definition result_inv :: "'r run_state \<Rightarrow> bool" where
  "result_inv s =
     (\<forall>r < length (rs_runs s). has_result (sn_phase (rs_runs s ! r)) \<longleftrightarrow> sn_result (rs_runs s ! r) \<noteq> None)"

definition answer_inv :: "'r run_state \<Rightarrow> bool" where
  "answer_inv s =
     ((\<forall>k r. gm_get (rs_waiting s) k = Some r \<longrightarrow> r < length (rs_runs s)) \<and>
      (\<forall>k r res. (k, r, res) \<in> set (rs_answers s) \<longrightarrow> r < length (rs_runs s) \<and>
         sn_phase (rs_runs s ! r) = Closed \<and> sn_result (rs_runs s ! r) = Some res))"

lemma set_run_frame [simp]:
  "rs_active (set_run r f s) = rs_active s" "rs_waiting (set_run r f s) = rs_waiting s"
  "rs_answers (set_run r f s) = rs_answers s" "rs_hooks (set_run r f s) = rs_hooks s"
  "rs_runs (set_run r f s) = (rs_runs s)[r := f (rs_runs s ! r)]"
  by (simp_all add: set_run_def)

lemma phase_of_Some: "phase_of s r = Some p \<longleftrightarrow> r < length (rs_runs s) \<and> sn_phase (rs_runs s ! r) = p"
  by (auto simp: phase_of_def)

lemmas section_defs = ensure_enter_def call_busy_def work_returns_def clear_slot_def call_idle_def
  release_ctx_def close_done_def caller_return_def rs_Cancel_def

lemma nth_update: "xs[r := x] ! i = (if i = r \<and> r < length xs then x else xs ! i)"
  by (cases "r < length xs") (auto simp: list_update_beyond)

lemma slot_set:
  assumes "slot_inv s" "sn_session (f (rs_runs s ! r)) = sn_session (rs_runs s ! r)"
    "holds_slot (sn_phase (f (rs_runs s ! r))) = holds_slot (sn_phase (rs_runs s ! r))"
  shows "slot_inv (set_run r f s)"
proof -
  note nth = nth_update
  have "sn_session ((rs_runs s)[r := f (rs_runs s ! r)] ! i) = sn_session (rs_runs s ! i)" for i
    unfolding nth using assms(2) by (cases "i = r") simp_all
  moreover have "holds_slot (sn_phase ((rs_runs s)[r := f (rs_runs s ! r)] ! i))
      = holds_slot (sn_phase (rs_runs s ! i))" for i
    unfolding nth using assms(3) by (cases "i = r") simp_all
  ultimately show ?thesis using assms(1) unfolding slot_inv_def set_run_frame length_list_update by metis
qed

lemma slot_hooks [simp]:
  "slot_inv (s\<lparr>rs_hooks := h\<rparr>) = slot_inv s" "slot_inv (s\<lparr>rs_waiting := w\<rparr>) = slot_inv s"
  "slot_inv (s\<lparr>rs_waiting := w, rs_answers := a\<rparr>) = slot_inv s"
  by (simp_all add: slot_inv_def)

lemma slot_step: "rs_step s s' \<Longrightarrow> slot_inv s \<Longrightarrow> slot_inv s'"
proof (induction rule: rs_step.induct)
  case (enter s k sid)
  show ?case
  proof (cases "gm_get (rs_active s) sid")
    case None
    from enter.prems have A: "r < length (rs_runs s) \<and> sn_session (rs_runs s ! r) = sid' \<and>
        holds_slot (sn_phase (rs_runs s ! r))" if "gm_get (rs_active s) sid' = Some r" for sid' r
      using that unfolding slot_inv_def by blast
    from enter.prems have B: "gm_get (rs_active s) (sn_session (rs_runs s ! r)) = Some r"
      if "r < length (rs_runs s)" "holds_slot (sn_phase (rs_runs s ! r))" for r
      using that unfolding slot_inv_def by blast
    from None have other: "sn_session (rs_runs s ! r) \<noteq> sid"
      if "r < length (rs_runs s)" "holds_slot (sn_phase (rs_runs s ! r))" for r
      using B [OF that] by auto
    show ?thesis
      using None A B other
      by (auto simp: slot_inv_def ensure_enter_def Let_def nth_append less_Suc_eq)
  next
    case (Some r)
    with enter.prems show ?thesis by (simp add: ensure_enter_def)
  qed
next
  case (clear s r)
  let ?sid = "sn_session (rs_runs s ! r)"
  from clear have r: "r < length (rs_runs s)" "sn_phase (rs_runs s ! r) = Returned"
    by (simp_all add: phase_of_Some)
  have A: "r' < length (rs_runs s) \<and> sn_session (rs_runs s ! r') = sid \<and> holds_slot (sn_phase (rs_runs s ! r'))"
    if "gm_get (rs_active s) sid = Some r'" for sid r'
    using clear.prems that unfolding slot_inv_def by blast
  have B: "gm_get (rs_active s) (sn_session (rs_runs s ! r')) = Some r'"
    if "r' < length (rs_runs s)" "holds_slot (sn_phase (rs_runs s ! r'))" for r'
    using clear.prems that unfolding slot_inv_def by blast
  have slot: "gm_get (rs_active s) ?sid = Some r" using B [OF r(1)] r(2) by simp

  have act: "gm_get (rs_active (clear_slot r s)) x = (if x = ?sid then None else gm_get (rs_active s) x)" for x
    using slot by (simp add: clear_slot_def Let_def)
  have len: "length (rs_runs (clear_slot r s)) = length (rs_runs s)"
    using slot by (simp add: clear_slot_def Let_def)
  have nth: "sn_session (rs_runs (clear_slot r s) ! r') = sn_session (rs_runs s ! r')"
    "holds_slot (sn_phase (rs_runs (clear_slot r s) ! r')) \<longleftrightarrow> r' \<noteq> r \<and> holds_slot (sn_phase (rs_runs s ! r'))" for r'
    using slot r(1) by (simp_all add: clear_slot_def Let_def nth_update)
  show ?case
    unfolding slot_inv_def act len nth
  proof (intro conjI allI impI)
    fix sid r'
    assume "(if sid = ?sid then None else gm_get (rs_active s) sid) = Some r'"
    then have "gm_get (rs_active s) sid = Some r'" "sid \<noteq> ?sid" by (simp_all split: if_splits)
    with A show "r' < length (rs_runs s)" "sn_session (rs_runs s ! r') = sid" "r' \<noteq> r"
      "holds_slot (sn_phase (rs_runs s ! r'))" by blast+
  next
    fix r'
    assume "r' < length (rs_runs s)" "r' \<noteq> r \<and> holds_slot (sn_phase (rs_runs s ! r'))"
    with B slot show "(if sn_session (rs_runs s ! r') = ?sid then None
        else gm_get (rs_active s) (sn_session (rs_runs s ! r'))) = Some r'" by force
  qed
next
  case (receive s k r)
  then show ?case by (auto simp: caller_return_def split: option.split)
next
  case (cancel s sid)
  then show ?case by (auto simp: rs_Cancel_def intro!: slot_set split: option.split)
qed (auto simp: call_busy_def work_returns_def call_idle_def release_ctx_def close_done_def
      phase_of_Some intro!: slot_set)

lemma result_step: "rs_step s s' \<Longrightarrow> result_inv s \<Longrightarrow> result_inv s'"
  by (induction rule: rs_step.induct)
    (auto simp: result_inv_def section_defs Let_def phase_of_Some nth_update nth_append
      less_Suc_eq split: option.split)

lemma answer_step: "rs_step s s' \<Longrightarrow> slot_inv s \<Longrightarrow> answer_inv s \<Longrightarrow> answer_inv s'"
proof (induction rule: rs_step.induct)
  case (enter s k sid)
  then show ?case
    by (cases "gm_get (rs_active s) sid")
      (auto simp: answer_inv_def slot_inv_def ensure_enter_def Let_def nth_append less_Suc_eq split: if_splits)
qed (auto simp: answer_inv_def section_defs Let_def phase_of_Some nth_update less_Suc_eq
      split: option.split if_splits)

lemma new_run_inv: "slot_inv rs_New" "result_inv rs_New" "answer_inv rs_New"
  by (simp_all add: slot_inv_def result_inv_def answer_inv_def rs_New_def)

lemma reachable_inv: "rs_reachable s \<Longrightarrow> slot_inv s \<and> result_inv s \<and> answer_inv s"
  by (induction rule: rs_reachable.induct)
    (auto simp: new_run_inv intro: slot_step result_step answer_step)

text \<open>
  C30. At most one active run per session, and one result for all who share it: in every reachable
  state two runs of a session that are both created or working are the same run, the session is
  busy exactly while it has such a run, and every caller that returned got the one result of the
  run it had entered, which is over.
\<close>

theorem one_run_per_session:
  assumes "rs_reachable s"
  shows "(\<forall>r r' p p'. phase_of s r = Some p \<and> phase_of s r' = Some p' \<and> holds_slot p \<and> holds_slot p' \<and>
            sn_session (rs_runs s ! r) = sn_session (rs_runs s ! r') \<longrightarrow> r = r') \<and>
    (\<forall>sid. Busy sid s \<longleftrightarrow> (\<exists>r p. phase_of s r = Some p \<and> holds_slot p \<and> sn_session (rs_runs s ! r) = sid)) \<and>
    (\<forall>k r res. (k, r, res) \<in> set (rs_answers s) \<longrightarrow>
       phase_of s r = Some Closed \<and> sn_result (rs_runs s ! r) = Some res)"
proof -
  from reachable_inv [OF assms] have inv: "slot_inv s" "answer_inv s" by blast+
  have slot: "gm_get (rs_active s) sid = Some r \<longleftrightarrow>
      r < length (rs_runs s) \<and> sn_session (rs_runs s ! r) = sid \<and> holds_slot (sn_phase (rs_runs s ! r))" for sid r
    using inv(1) unfolding slot_inv_def by blast
  show ?thesis
  proof (intro conjI allI impI; (elim conjE)?)
    fix r r' p p'
    assume "phase_of s r = Some p" "phase_of s r' = Some p'" "holds_slot p" "holds_slot p'"
      "sn_session (rs_runs s ! r) = sn_session (rs_runs s ! r')"
    then show "r = r'" using slot unfolding phase_of_Some by (metis option.inject)
  next
    fix sid
    show "Busy sid s \<longleftrightarrow> (\<exists>r p. phase_of s r = Some p \<and> holds_slot p \<and> sn_session (rs_runs s ! r) = sid)"
      using slot by (auto simp: Busy_def gm_has_def phase_of_Some)
  next
    fix k r res
    assume "(k, r, res) \<in> set (rs_answers s)"
    then show "phase_of s r = Some Closed" "sn_result (rs_runs s ! r) = Some res"
      using inv(2) by (auto simp: answer_inv_def phase_of_Some)
  qed
qed

subsection \<open>The order of the hooks\<close>

definition last_hook :: "string \<Rightarrow> 'r run_state \<Rightarrow> hook_call option" where
  "last_hook sid s =
     (case filter (\<lambda>h. h = OnBusy sid \<or> h = OnIdle sid) (rs_hooks s) of [] \<Rightarrow> None | hs \<Rightarrow> Some (last hs))"

definition handover :: "string \<Rightarrow> string run_state" where
  "handover sid =
     call_idle 0 (call_busy 1 (ensure_enter 1 sid (clear_slot 0 (work_returns 0 ''done''
       (call_busy 0 (ensure_enter 0 sid rs_New))))))"

lemma handover_reachable: "rs_reachable (handover sid)"
proof -
  note defs = section_defs set_run_def rs_New_def phase_of_def Let_def
  let ?s1 = "ensure_enter 0 sid rs_New :: string run_state"
  let ?s2 = "call_busy 0 ?s1"
  let ?s3 = "work_returns 0 ''done'' ?s2"
  let ?s4 = "clear_slot 0 ?s3"
  let ?s5 = "ensure_enter 1 sid ?s4"
  let ?s6 = "call_busy 1 ?s5"
  have "rs_reachable ?s1" by (rule rs_reachable.step [OF rs_reachable.start rs_step.enter]) (simp add: defs)
  then have "rs_reachable ?s2" by (rule rs_reachable.step [OF _ rs_step.busy]) (simp add: defs)
  then have "rs_reachable ?s3" by (rule rs_reachable.step [OF _ rs_step.returns]) (simp add: defs)
  then have "rs_reachable ?s4" by (rule rs_reachable.step [OF _ rs_step.clear]) (simp add: defs)
  then have "rs_reachable ?s5" by (rule rs_reachable.step [OF _ rs_step.enter]) (simp add: defs)
  then have "rs_reachable ?s6" by (rule rs_reachable.step [OF _ rs_step.busy]) (simp add: defs)
  then show ?thesis
    unfolding handover_def by (rule rs_reachable.step [OF _ rs_step.idle]) (simp add: defs)
qed

text \<open>
  The hooks of two runs can cross. \<^verbatim>\<open>OnIdle\<close> runs after the slot is cleared, outside the lock, so
  a prompt that arrives in between starts the next run and announces it busy before the finished
  one announces idle: a state is reachable in which the session has a working run and the last
  hook called for it is idle.
\<close>

theorem idle_after_next_busy:
  "\<exists>s :: string run_state. rs_reachable s \<and> Busy sid s \<and> (\<exists>r. phase_of s r = Some Working \<and>
     sn_session (rs_runs s ! r) = sid) \<and> last_hook sid s = Some (OnIdle sid)"
proof (intro exI [of _ "handover sid"] conjI)
  note defs = section_defs set_run_def rs_New_def phase_of_def Let_def
  show "rs_reachable (handover sid)" by (rule handover_reachable)
  show "Busy sid (handover sid)"
    by (simp add: handover_def defs Busy_def gm_has_def)
  show "\<exists>r. phase_of (handover sid) r = Some Working \<and> sn_session (rs_runs (handover sid) ! r) = sid"
    by (rule exI [of _ 1]) (simp add: handover_def defs)
  show "last_hook sid (handover sid) = Some (OnIdle sid)"
    by (simp add: last_hook_def handover_def defs)
qed

theorem one_run_per_session_witness:
  "\<forall>sid. Busy sid (handover ''s'') =
     (\<exists>r p. phase_of (handover ''s'') r = Some p \<and> holds_slot p \<and> sn_session (rs_runs (handover ''s'') ! r) = sid)"
  using one_run_per_session [OF handover_reachable [of "''s''"]] by blast


subsection \<open>Progress\<close>

definition phase_rank :: "run_phase \<Rightarrow> nat" where
  "phase_rank p =
     (case p of Created \<Rightarrow> 0 | Working \<Rightarrow> 1 | Returned \<Rightarrow> 2 | Cleared \<Rightarrow> 3 | Idled \<Rightarrow> 4 | Released \<Rightarrow> 5 | Closed \<Rightarrow> 6)"

text \<open>A run's own goroutine can always take its next step, which changes no caller's wait.\<close>

lemma run_advances:
  assumes "phase_of s r = Some p" "p \<noteq> Closed"
  shows "\<exists>s' p'. rs_step s s' \<and> phase_of s' r = Some p' \<and> phase_rank p' = Suc (phase_rank p) \<and>
    rs_waiting s' = rs_waiting s"
proof -
  note facts = assms(1) phase_of_Some set_run_frame phase_rank_def
  have r: "r < length (rs_runs s)" using assms(1) by (simp add: phase_of_Some)
  show ?thesis
  proof (cases p)
    case Created
    then show ?thesis using rs_step.busy [of s r] assms(1) r
      by (intro exI [of _ "call_busy r s"] exI [of _ Working]) (simp add: call_busy_def phase_of_def phase_rank_def)
  next
    case Working
    then show ?thesis using rs_step.returns [of s r] assms(1) r
      by (intro exI [of _ "work_returns r undefined s"] exI [of _ Returned])
        (simp add: work_returns_def phase_of_def phase_rank_def)
  next
    case Returned
    then show ?thesis using rs_step.clear [of s r] assms(1) r
      by (intro exI [of _ "clear_slot r s"] exI [of _ Cleared])
        (simp add: clear_slot_def phase_of_def phase_rank_def Let_def)
  next
    case Cleared
    then show ?thesis using rs_step.idle [of s r] assms(1) r
      by (intro exI [of _ "call_idle r s"] exI [of _ Idled]) (simp add: call_idle_def phase_of_def phase_rank_def)
  next
    case Idled
    then show ?thesis using rs_step.release [of s r] assms(1) r
      by (intro exI [of _ "release_ctx r s"] exI [of _ Released]) (simp add: release_ctx_def phase_of_def phase_rank_def)
  next
    case Released
    then show ?thesis using rs_step.close_it [of s r] assms(1) r
      by (intro exI [of _ "close_done r s"] exI [of _ Closed]) (simp add: close_done_def phase_of_def phase_rank_def)
  qed (use assms(2) in simp)
qed

lemma waiting_reaches_answer:
  "rs_reachable s \<Longrightarrow> gm_get (rs_waiting s) k = Some r \<Longrightarrow>
   \<exists>s' res. rtranclp rs_step s s' \<and> (k, r, res) \<in> set (rs_answers s')"
proof (induction "6 - phase_rank (sn_phase (rs_runs s ! r))" arbitrary: s rule: less_induct)
  case less
  from reachable_inv [OF less.prems(1)] have inv: "result_inv s" "answer_inv s" by blast+
  have r: "r < length (rs_runs s)" using inv(2) less.prems(2) unfolding answer_inv_def by blast
  let ?p = "sn_phase (rs_runs s ! r)"
  have p: "phase_of s r = Some ?p" using r by (simp add: phase_of_Some)
  show ?case
  proof (cases "?p = Closed")
    case True
    then obtain res where res: "sn_result (rs_runs s ! r) = Some res"
      using inv(1) r unfolding result_inv_def by fastforce
    have "rs_step s (caller_return k s)" using rs_step.receive [OF less.prems(2)] p True by simp
    moreover have "(k, r, res) \<in> set (rs_answers (caller_return k s))"
      using less.prems(2) res by (simp add: caller_return_def)
    ultimately show ?thesis by blast
  next
    case False
    from run_advances [OF p this] obtain s' p' where s': "rs_step s s'" "phase_of s' r = Some p'"
      "phase_rank p' = Suc (phase_rank ?p)" "rs_waiting s' = rs_waiting s" by blast
    have "phase_rank ?p < 6" using False by (cases ?p) (simp_all add: phase_rank_def)
    then have "6 - phase_rank (sn_phase (rs_runs s' ! r)) < 6 - phase_rank ?p"
      using s'(2,3) by (simp add: phase_of_Some)
    from less.hyps [OF this rs_reachable.step [OF less.prems(1) s'(1)]] less.prems(2) s'(4)
    obtain s'' res where "rtranclp rs_step s' s''" "(k, r, res) \<in> set (rs_answers s'')" by auto
    then show ?thesis using s'(1) converse_rtranclp_into_rtranclp by metis
  qed
qed

lemma no_regress:
  assumes "rs_step s s'" "r < length (rs_runs s)"
  shows "phase_rank (sn_phase (rs_runs s ! r)) \<le> phase_rank (sn_phase (rs_runs s' ! r)) \<and>
    (has_result (sn_phase (rs_runs s ! r)) \<longrightarrow> sn_result (rs_runs s' ! r) = sn_result (rs_runs s ! r)) \<and>
    length (rs_runs s) \<le> length (rs_runs s')"
  using assms
  by (induction rule: rs_step.induct)
    (auto simp: section_defs Let_def phase_of_Some nth_update nth_append phase_rank_def has_result_def split: option.split)

text \<open>
  C7. A caller is never stuck: in every reachable state whoever waits for a run can still be answered
  with the result of that very run, by the steps of the run's own goroutine and the receive, and
  no step of anyone sets the run back or takes the wait away other than by the answer.
\<close>

theorem waiting_caller_answered:
  assumes "rs_reachable s" "gm_get (rs_waiting s) k = Some r"
  shows "(\<exists>s' res. rtranclp rs_step s s' \<and> (k, r, res) \<in> set (rs_answers s')) \<and>
    (\<forall>s'. rs_step s s' \<longrightarrow>
       phase_rank (sn_phase (rs_runs s ! r)) \<le> phase_rank (sn_phase (rs_runs s' ! r)) \<and>
       (gm_get (rs_waiting s') k = Some r \<or> (\<exists>res. (k, r, res) \<in> set (rs_answers s'))))"
proof -
  from reachable_inv [OF assms(1)] have "answer_inv s" by blast
  then have r: "r < length (rs_runs s)" using assms(2) unfolding answer_inv_def by blast
  have "gm_get (rs_waiting s') k = Some r \<or> (\<exists>res. (k, r, res) \<in> set (rs_answers s'))" if "rs_step s s'" for s'
    using that assms(2)
    by (induction rule: rs_step.induct) (auto simp: section_defs Let_def split: option.splits)
  then show ?thesis using waiting_reaches_answer [OF assms] no_regress [OF _ r] by blast
qed

lemma result_stays:
  "rtranclp rs_step s s' \<Longrightarrow> r < length (rs_runs s) \<Longrightarrow> has_result (sn_phase (rs_runs s ! r)) \<Longrightarrow>
   rs_reachable s \<Longrightarrow> sn_result (rs_runs s' ! r) = sn_result (rs_runs s ! r)"
proof (induction rule: rtranclp_induct)
  case (step t u)
  have "rs_reachable t" using step.hyps(1) step.prems(3)
    by (induction rule: rtranclp_induct) (auto intro: rs_reachable.step)
  from reachable_inv [OF this] have "result_inv t" by blast
  have "r < length (rs_runs t)" using step.hyps(1) step.prems(1)
    by (induction rule: rtranclp_induct) (auto dest: no_regress [THEN conjunct2, THEN conjunct2])
  moreover from reachable_inv [OF step.prems(3)] have "result_inv s" by blast
  ultimately show ?case
    using step \<open>result_inv t\<close> no_regress [OF step.hyps(2)] unfolding result_inv_def by (metis (no_types, lifting))
qed simp

text \<open>
  A prompt can go unanswered. A caller that arrives when the work of the session's run has returned
  but the run has not cleared its slot joins that run: no new run starts, and whatever happens
  next the caller's answer is the result computed before it arrived, so the message it stored
  is not worked on.
\<close>

theorem late_prompt_not_worked_on:
  assumes "rs_reachable s" "gm_get (rs_waiting s) k = None" "gm_get (rs_active s) sid = Some r"
    "phase_of s r = Some Returned" "rtranclp rs_step (ensure_enter k sid s) s'"
  shows "rs_step s (ensure_enter k sid s) \<and> gm_get (rs_waiting (ensure_enter k sid s)) k = Some r \<and>
    rs_runs (ensure_enter k sid s) = rs_runs s \<and> sn_result (rs_runs s' ! r) = sn_result (rs_runs s ! r) \<and>
    sn_result (rs_runs s ! r) \<noteq> None"
proof -
  have e: "rs_step s (ensure_enter k sid s)" by (rule rs_step.enter [OF assms(2)])
  have same: "rs_runs (ensure_enter k sid s) = rs_runs s" "gm_get (rs_waiting (ensure_enter k sid s)) k = Some r"
    using assms(3) by (simp_all add: ensure_enter_def)
  have "sn_result (rs_runs s' ! r) = sn_result (rs_runs s ! r)"
    using result_stays [OF assms(5), of r] rs_reachable.step [OF assms(1) e] assms(4) same(1) by (simp add: phase_of_Some)
  moreover have "sn_result (rs_runs s ! r) \<noteq> None"
    using reachable_inv [OF assms(1)] assms(4) unfolding result_inv_def by (auto simp: phase_of_Some)
  ultimately show ?thesis using e same by blast
qed

definition returning :: "string run_state" where
  "returning = work_returns 0 ''done'' (call_busy 0 (ensure_enter 0 ''s'' rs_New))"

lemma returning_reachable: "rs_reachable returning"
proof -
  note defs = section_defs set_run_def rs_New_def phase_of_def Let_def
  let ?s1 = "ensure_enter 0 ''s'' rs_New :: string run_state"
  have "rs_reachable ?s1" by (rule rs_reachable.step [OF rs_reachable.start rs_step.enter]) (simp add: defs)
  then have "rs_reachable (call_busy 0 ?s1)" by (rule rs_reachable.step [OF _ rs_step.busy]) (simp add: defs)
  then show ?thesis
    unfolding returning_def by (rule rs_reachable.step [OF _ rs_step.returns]) (simp add: defs)
qed

lemma waiting_caller_answered_witness:
  "\<exists>s' res. rtranclp rs_step returning s' \<and> (0, 0, res) \<in> set (rs_answers s')"
proof -
  have "gm_get (rs_waiting returning) 0 = Some 0"
    by (simp add: returning_def section_defs set_run_def rs_New_def Let_def)
  from waiting_caller_answered [OF returning_reachable this] show ?thesis by blast
qed

lemma late_prompt_not_worked_on_witness:
  "gm_get (rs_waiting (ensure_enter 1 ''s'' returning)) 1 = Some 0 \<and>
   rs_runs (ensure_enter 1 ''s'' returning) = rs_runs returning \<and>
   sn_result (rs_runs (close_done 0 (ensure_enter 1 ''s'' returning)) ! 0) = sn_result (rs_runs returning ! 0)"
proof -
  note defs = returning_def section_defs set_run_def rs_New_def phase_of_def Let_def
  have h: "gm_get (rs_waiting returning) 1 = None" "gm_get (rs_active returning) ''s'' = Some 0"
    "phase_of returning 0 = Some Returned" by (simp_all add: defs)
  have "rs_runs (close_done 0 (ensure_enter 1 ''s'' returning)) ! 0 = (rs_runs returning ! 0)\<lparr>sn_phase := Closed\<rparr>"
    by (simp add: defs)
  then show ?thesis
    using late_prompt_not_worked_on [OF returning_reachable h rtranclp.rtrancl_refl] by simp
qed

end
