(* ===== verification/MessageStore.thy ===== *)
theory MessageStore
  imports Messages "HOL-Library.Product_Lexorder"
begin

text \<open>
  The message store (\<^verbatim>\<open>internal/engine/message/store.go\<close>): the message and part tables as lists of
  rows with distinct ids, and each statement the store issues as an operation on them. An upsert
  keeps a row's creation time, session and message id, as the statements' update clauses do. The
  schema (\<^verbatim>\<open>internal/storage/migrations/0001_init.sql\<close>, foreign keys on) makes a message reference
  its session and a part its message, and deletes cascade: a statement that would break a
  reference fails and leaves the tables as they are, the value \<open>None\<close>.
\<close>

subsection \<open>Tables\<close>

record message_row =
  mr_id :: string
  mr_session :: string
  mr_info :: info
  mr_created :: int

record part_row =
  pw_id :: string
  pw_message :: string
  pw_session :: string
  pw_part :: part

record msg_store =
  ms_sessions :: "string list"
  ms_messages :: "message_row list"
  ms_parts :: "part_row list"

definition NewStore :: "string list \<Rightarrow> msg_store" where
  "NewStore sids = \<lparr>ms_sessions = sids, ms_messages = [], ms_parts = []\<rparr>"

definition infoCreated :: "info \<Rightarrow> int" where
  "infoCreated i = (case i of IUser u \<Rightarrow> um_created u | IAssistant a \<Rightarrow> am_created a | INone \<Rightarrow> 0)"

definition sessionOf :: "info \<Rightarrow> string" where
  "sessionOf i = (case i of IUser u \<Rightarrow> um_session u | IAssistant a \<Rightarrow> am_session a | INone \<Rightarrow> '''')"

text \<open>\<^verbatim>\<open>INSERT ... ON CONFLICT(id) DO UPDATE\<close>: the row is replaced by \<open>upd\<close> of it, or added.\<close>

definition upsert :: "('r \<Rightarrow> string) \<Rightarrow> 'r \<Rightarrow> ('r \<Rightarrow> 'r) \<Rightarrow> 'r list \<Rightarrow> 'r list" where
  "upsert key new upd rows =
     (if list_ex (\<lambda>r. key r = key new) rows
      then map (\<lambda>r. if key r = key new then upd r else r) rows
      else rows @ [new])"

definition has_key :: "('r \<Rightarrow> string) \<Rightarrow> string \<Rightarrow> 'r list \<Rightarrow> bool" where
  "has_key key k rows = list_ex (\<lambda>r. key r = k) rows"

definition PutMessage :: "int \<Rightarrow> info \<Rightarrow> msg_store \<Rightarrow> msg_store option" where
  "PutMessage t i s =
     (let created = (if infoCreated i = 0 then t else infoCreated i)
      in if i = INone \<or> (\<not> has_key mr_id (info_id i) (ms_messages s) \<and> sessionOf i \<notin> set (ms_sessions s)) then None
      else Some (s\<lparr>ms_messages := upsert mr_id
             \<lparr>mr_id = info_id i, mr_session = sessionOf i, mr_info = i, mr_created = created\<rparr>
             (\<lambda>r. r\<lparr>mr_info := i\<rparr>) (ms_messages s)\<rparr>))"

definition PutPart :: "part \<Rightarrow> msg_store \<Rightarrow> msg_store option" where
  "PutPart p s =
     (if \<not> has_key pw_id (part_id p) (ms_parts s) \<and> \<not> has_key mr_id (pb_message (base_of p)) (ms_messages s) then None
      else Some (s\<lparr>ms_parts := upsert pw_id
         \<lparr>pw_id = part_id p, pw_message = pb_message (base_of p), pw_session = pb_session (base_of p), pw_part = p\<rparr>
         (\<lambda>r. r\<lparr>pw_part := p\<rparr>) (ms_parts s)\<rparr>))"

definition DeletePart :: "string \<Rightarrow> msg_store \<Rightarrow> bool \<times> msg_store" where
  "DeletePart pid s =
     (list_ex (\<lambda>r. pw_id r = pid) (ms_parts s), s\<lparr>ms_parts := filter (\<lambda>r. pw_id r \<noteq> pid) (ms_parts s)\<rparr>)"

text \<open>
  \<^verbatim>\<open>DeleteMessage\<close> deletes the parts of the message in the session, then the message row; when that
  row goes, the schema removes whatever parts still refer to it.
\<close>

definition drop_messages :: "(message_row \<Rightarrow> bool) \<Rightarrow> msg_store \<Rightarrow> msg_store" where
  \<comment> \<open>\<^verbatim>\<open>part.message_id REFERENCES message(id) ON DELETE CASCADE\<close>\<close>
  "drop_messages gone s =
     (let ids = map mr_id (filter gone (ms_messages s))
      in s\<lparr>ms_messages := filter (\<lambda>r. \<not> gone r) (ms_messages s),
           ms_parts := filter (\<lambda>r. pw_message r \<notin> set ids) (ms_parts s)\<rparr>)"

definition DeleteMessage :: "string \<Rightarrow> string \<Rightarrow> msg_store \<Rightarrow> bool \<times> msg_store" where
  "DeleteMessage sid mid s =
     (let gone = (\<lambda>r. mr_id r = mid \<and> mr_session r = sid);
          s1 = s\<lparr>ms_parts := filter (\<lambda>r. \<not> (pw_message r = mid \<and> pw_session r = sid)) (ms_parts s)\<rparr>
      in (list_ex gone (ms_messages s), drop_messages gone s1))"

definition GetPart :: "string \<Rightarrow> msg_store \<Rightarrow> part option" where
  "GetPart pid s = map_option pw_part (find (\<lambda>r. pw_id r = pid) (ms_parts s))"

definition Parts :: "string \<Rightarrow> msg_store \<Rightarrow> part list" where
  "Parts mid s = map pw_part (sort_key pw_id (filter (\<lambda>r. pw_message r = mid) (ms_parts s)))"

definition GetMessage :: "string \<Rightarrow> string \<Rightarrow> msg_store \<Rightarrow> with_parts option" where
  "GetMessage sid mid s =
     map_option (\<lambda>r. \<lparr>wp_info = mr_info r, wp_parts = Parts mid s\<rparr>)
       (find (\<lambda>r. mr_id r = mid \<and> mr_session r = sid) (ms_messages s))"

definition ordered_rows :: "string \<Rightarrow> msg_store \<Rightarrow> message_row list" where
  \<comment> \<open>\<^verbatim>\<open>ORDER BY time_created, id\<close>\<close>
  "ordered_rows sid s =
     sort_key (\<lambda>r. (mr_created r, mr_id r)) (filter (\<lambda>r. mr_session r = sid) (ms_messages s))"

definition load :: "string \<Rightarrow> bool \<Rightarrow> msg_store \<Rightarrow> with_parts list" where
  "load sid asc s =
     map (\<lambda>r. \<lparr>wp_info = mr_info r, wp_parts = Parts (mr_id r) s\<rparr>)
       (if asc then ordered_rows sid s else rev (ordered_rows sid s))"

definition st_List :: "string \<Rightarrow> msg_store \<Rightarrow> with_parts list" where
  "st_List sid s = load sid True s"

definition st_Stream :: "string \<Rightarrow> msg_store \<Rightarrow> with_parts list" where
  "st_Stream sid s = load sid False s"

subsection \<open>What the tables keep\<close>

definition store_ok :: "msg_store \<Rightarrow> bool" where
  "store_ok s =
     (distinct (map mr_id (ms_messages s)) \<and> distinct (map pw_id (ms_parts s)) \<and>
      list_all (\<lambda>r. info_id (mr_info r) = mr_id r \<and> mr_session r \<in> set (ms_sessions s)) (ms_messages s) \<and>
      list_all (\<lambda>q. part_id (pw_part q) = pw_id q \<and> has_key mr_id (pw_message q) (ms_messages s)) (ms_parts s))"

lemma has_key_iff: "has_key key k rows \<longleftrightarrow> k \<in> key ` set rows"
  by (auto simp: has_key_def list_ex_iff)

lemma upsert_has: "list_ex (\<lambda>r. key r = key new) rows = has_key key (key new) rows"
  by (simp add: has_key_def)

lemma upsert_keys:
  "(\<And>r. key (upd r) = key r) \<Longrightarrow> distinct (map key rows) \<Longrightarrow> distinct (map key (upsert key new upd rows))"
  by (auto simp: upsert_def list_ex_iff comp_def if_distrib cong: if_cong)

lemma upsert_key_set:
  "(\<And>r. key (upd r) = key r) \<Longrightarrow>
   has_key key k (upsert key new upd rows) \<longleftrightarrow> k = key new \<or> has_key key k rows"
proof -
  assume "\<And>r. key (upd r) = key r"
  then have "map key (map (\<lambda>r. if key r = key new then upd r else r) rows) = map key rows" by auto
  then have "key ` set (map (\<lambda>r. if key r = key new then upd r else r) rows) = key ` set rows"
    by (metis set_map)
  then show ?thesis
    by (auto simp: upsert_def has_key_iff list_ex_iff simp del: set_map) (metis image_eqI)
qed

lemma upsert_all:
  "list_all P rows \<Longrightarrow> (\<not> has_key key (key new) rows \<Longrightarrow> P new) \<Longrightarrow>
   (\<And>r. r \<in> set rows \<Longrightarrow> P r \<Longrightarrow> key r = key new \<Longrightarrow> P (upd r)) \<Longrightarrow> list_all P (upsert key new upd rows)"
  by (auto simp: upsert_def has_key_def list_all_iff list_ex_iff)

lemma NewStore_ok: "store_ok (NewStore sids)"
  by (simp add: store_ok_def NewStore_def)

lemma PutMessage_ok:
  assumes "store_ok s" "PutMessage t i s = Some s'"
  shows "store_ok s'"
proof -
  let ?new = "\<lparr>mr_id = info_id i, mr_session = sessionOf i, mr_info = i,
    mr_created = if infoCreated i = 0 then t else infoCreated i\<rparr>"
  let ?rows = "upsert mr_id ?new (\<lambda>r. r\<lparr>mr_info := i\<rparr>) (ms_messages s)"
  have s': "s' = s\<lparr>ms_messages := ?rows\<rparr>"
    and fk: "\<not> has_key mr_id (info_id i) (ms_messages s) \<Longrightarrow> sessionOf i \<in> set (ms_sessions s)"
    using assms(2) by (auto simp: PutMessage_def Let_def split: if_splits)
  have "list_all (\<lambda>r. info_id (mr_info r) = mr_id r \<and> mr_session r \<in> set (ms_sessions s)) ?rows"
    using assms(1) fk by (intro upsert_all) (auto simp: store_ok_def list_all_iff)
  moreover have "has_key mr_id k ?rows" if "has_key mr_id k (ms_messages s)" for k
    using that by (simp add: upsert_key_set)
  ultimately show ?thesis
    using assms(1) by (auto simp: s' store_ok_def upsert_keys list_all_iff)
qed

lemma PutPart_ok:
  assumes "store_ok s" "PutPart p s = Some s'"
  shows "store_ok s'"
proof -
  let ?new = "\<lparr>pw_id = part_id p, pw_message = pb_message (base_of p), pw_session = pb_session (base_of p), pw_part = p\<rparr>"
  let ?rows = "upsert pw_id ?new (\<lambda>r. r\<lparr>pw_part := p\<rparr>) (ms_parts s)"
  have s': "s' = s\<lparr>ms_parts := ?rows\<rparr>"
    and fk: "\<not> has_key pw_id (part_id p) (ms_parts s) \<Longrightarrow> has_key mr_id (pb_message (base_of p)) (ms_messages s)"
    using assms(2) by (auto simp: PutPart_def split: if_splits)
  have "list_all (\<lambda>q. part_id (pw_part q) = pw_id q \<and> has_key mr_id (pw_message q) (ms_messages s)) ?rows"
    using assms(1) fk by (intro upsert_all) (auto simp: store_ok_def list_all_iff)
  then show ?thesis
    using assms(1) by (auto simp: s' store_ok_def upsert_keys)
qed

lemma drop_messages_ok: "store_ok s \<Longrightarrow> store_ok (drop_messages gone s)"
  unfolding store_ok_def drop_messages_def Let_def has_key_iff list_all_iff
  by (simp add: distinct_map inj_on_def) blast

lemma part_filter_ok: "store_ok s \<Longrightarrow> store_ok (s\<lparr>ms_parts := filter P (ms_parts s)\<rparr>)"
  by (auto simp: store_ok_def list_all_iff distinct_map inj_on_def)

lemma Delete_ok:
  "store_ok s \<Longrightarrow> store_ok (snd (DeletePart pid s))"
  "store_ok s \<Longrightarrow> store_ok (snd (DeleteMessage sid mid s))"
  by (simp_all add: DeletePart_def DeleteMessage_def Let_def part_filter_ok drop_messages_ok)

subsection \<open>The tables over time\<close>

datatype statement = SPutMessage int info | SPutPart part | SDeletePart string | SDeleteMessage string string

definition run_statement :: "statement \<Rightarrow> msg_store \<Rightarrow> msg_store" where
  \<comment> \<open>a failing statement changes nothing\<close>
  "run_statement st s =
     (case st of
        SPutMessage t i \<Rightarrow> (case PutMessage t i s of Some s' \<Rightarrow> s' | None \<Rightarrow> s)
      | SPutPart p \<Rightarrow> (case PutPart p s of Some s' \<Rightarrow> s' | None \<Rightarrow> s)
      | SDeletePart pid \<Rightarrow> snd (DeletePart pid s)
      | SDeleteMessage sid mid \<Rightarrow> snd (DeleteMessage sid mid s))"

lemma statement_ok: "store_ok s \<Longrightarrow> store_ok (run_statement st s)"
  unfolding run_statement_def
  by (cases st; simp add: Delete_ok split: option.split) (blast intro: PutMessage_ok PutPart_ok)+

lemma statements_ok: "store_ok s \<Longrightarrow> store_ok (fold run_statement sts s)"
  by (induction sts arbitrary: s) (auto intro: statement_ok)

lemma find_map_key:
  "(\<And>r. key (upd r) = key r) \<Longrightarrow>
   find (\<lambda>r. key r = k) (map (\<lambda>r. if key r = k' then upd r else r) rows)
     = map_option (\<lambda>r. if k = k' then upd r else r) (find (\<lambda>r. key r = k) rows)"
  by (induction rows) auto

lemma find_snoc:
  "find P (rows @ [x]) = (case find P rows of Some r \<Rightarrow> Some r | None \<Rightarrow> if P x then Some x else None)"
  by (induction rows) auto

lemma find_upsert:
  assumes "\<And>r. key (upd r) = key r"
  shows "find (\<lambda>r. key r = k) (upsert key new upd rows) =
     (if k = key new then Some (case find (\<lambda>r. key r = k) rows of Some r \<Rightarrow> upd r | None \<Rightarrow> new)
      else find (\<lambda>r. key r = k) rows)"
proof (cases "find (\<lambda>r. key r = key new) rows")
  case None
  then have "\<not> list_ex (\<lambda>r. key r = key new) rows" by (auto simp: find_None_iff list_ex_iff)
  with None show ?thesis
    by (auto simp: upsert_def find_snoc split: option.split)
next
  case (Some r)
  then have "list_ex (\<lambda>r. key r = key new) rows" by (auto simp: find_Some_iff list_ex_iff)
  with Some assms show ?thesis
    by (simp add: upsert_def find_map_key option.map_ident)
qed

lemma GetPart_put:
  "PutPart p s = Some s' \<Longrightarrow> GetPart pid s' = (if pid = part_id p then Some p else GetPart pid s)"
  by (auto simp: GetPart_def PutPart_def find_upsert split: option.split if_splits)

lemma sort_key_map: "sort_key k (map f xs) = map f (sort_key (k \<circ> f) xs)"
proof -
  have "insort_key k (f x) (map f ys) = map f (insort_key (k \<circ> f) x ys)" for x ys
    by (induction ys) auto
  then show ?thesis by (induction xs) auto
qed

lemma ordered_ids:
  "store_ok s \<Longrightarrow> r \<in> set (ordered_rows sid s) \<Longrightarrow> info_id (mr_info r) = mr_id r"
  by (auto simp: ordered_rows_def store_ok_def list_all_iff)

lemma PutMessage_update:
  assumes "has_key mr_id (info_id i) (ms_messages s)" "i \<noteq> INone"
  shows "PutMessage t i s =
    Some (s\<lparr>ms_messages := map (\<lambda>r. if mr_id r = info_id i then r\<lparr>mr_info := i\<rparr> else r) (ms_messages s)\<rparr>)"
  using assms by (simp add: PutMessage_def Let_def upsert_def has_key_def)

lemma ordered_update:
  "ordered_rows sid (s\<lparr>ms_messages := map (\<lambda>r. if mr_id r = info_id i then r\<lparr>mr_info := i\<rparr> else r) (ms_messages s)\<rparr>) =
    map (\<lambda>r. if mr_id r = info_id i then r\<lparr>mr_info := i\<rparr> else r) (ordered_rows sid s)"
proof -
  let ?f = "\<lambda>r. if mr_id r = info_id i then r\<lparr>mr_info := i\<rparr> else r"
  have filt: "filter (\<lambda>r. mr_session r = sid) (map ?f rows) = map ?f (filter (\<lambda>r. mr_session r = sid) rows)" for rows
    by (induction rows) auto
  have key: "(\<lambda>r. (mr_created r, mr_id r)) \<circ> ?f = (\<lambda>r. (mr_created r, mr_id r))" by auto
  have msgs: "ms_messages (s\<lparr>ms_messages := map ?f (ms_messages s)\<rparr>) = map ?f (ms_messages s)" by simp
  show ?thesis unfolding ordered_rows_def msgs filt sort_key_map key ..
qed

lemma load_update:
  assumes "store_ok s" "has_key mr_id (info_id i) (ms_messages s)" "PutMessage t i s = Some s'"
  shows "load sid asc s' = map (\<lambda>m. if wp_id m = info_id i then m\<lparr>wp_info := i\<rparr> else m) (load sid asc s)"
proof -
  have "i \<noteq> INone" using assms(3) by (auto simp: PutMessage_def)
  from PutMessage_update [OF assms(2) this, of t] assms(3)
  have s': "s' = s\<lparr>ms_messages := map (\<lambda>r. if mr_id r = info_id i then r\<lparr>mr_info := i\<rparr> else r) (ms_messages s)\<rparr>"
    by simp
  have parts: "Parts mid s' = Parts mid s" for mid
    by (simp add: Parts_def s')
  have rows: "ordered_rows sid s' = map (\<lambda>r. if mr_id r = info_id i then r\<lparr>mr_info := i\<rparr> else r) (ordered_rows sid s)"
    unfolding s' by (rule ordered_update)
  show ?thesis
    using ordered_ids [OF assms(1)]
    by (auto simp: load_def rows parts rev_map wp_id_def)
qed

text \<open>
  The history is stable under updates: writing a message the store already has, as the engine
  does each time a turn progresses, changes that message's data in its place and nothing else,
  in the order of the history, its parts and the other messages, oldest first or newest first;
  and the newest-first stream is the reverse of the list.
\<close>

theorem history_updated_in_place:
  assumes "store_ok s" "has_key mr_id (info_id i) (ms_messages s)" "PutMessage t i s = Some s'"
  shows "st_List sid s' = map (\<lambda>m. if wp_id m = info_id i then m\<lparr>wp_info := i\<rparr> else m) (st_List sid s) \<and>
    st_Stream sid s' = map (\<lambda>m. if wp_id m = info_id i then m\<lparr>wp_info := i\<rparr> else m) (st_Stream sid s) \<and>
    st_Stream sid s = rev (st_List sid s)"
  using load_update [OF assms] by (simp add: st_List_def st_Stream_def) (simp add: load_def rev_map)

definition demo_store :: msg_store where
  "demo_store = run_statement (SPutMessage 5 (IUser (demo_user ''m1''))) (NewStore [''s''])"

definition demo_edit :: info where
  "demo_edit = IUser ((demo_user ''m1'')\<lparr>um_agent := ''plan''\<rparr>)"

lemma demo_store_ok: "store_ok demo_store"
  by (simp add: demo_store_def statement_ok NewStore_ok)

lemma demo_store_value:
  "demo_store = \<lparr>ms_sessions = [''s''], ms_messages = [\<lparr>mr_id = ''m1'', mr_session = ''s'',
     mr_info = IUser (demo_user ''m1''), mr_created = 5\<rparr>], ms_parts = []\<rparr>"
  by (simp add: demo_store_def run_statement_def PutMessage_def NewStore_def upsert_def has_key_def info_id_def
    sessionOf_def infoCreated_def demo_user_def)

theorem history_updated_in_place_witness:
  "st_Stream ''s'' (the (PutMessage 9 demo_edit demo_store))
     = map (\<lambda>m. if wp_id m = info_id demo_edit then m\<lparr>wp_info := demo_edit\<rparr> else m) (st_Stream ''s'' demo_store)"
proof -
  have key: "has_key mr_id (info_id demo_edit) (ms_messages demo_store)"
    by (simp add: demo_store_value demo_edit_def has_key_def info_id_def demo_user_def)
  moreover have "PutMessage 9 demo_edit demo_store = Some (the (PutMessage 9 demo_edit demo_store))"
    using PutMessage_update [OF key, of 9] by (simp add: demo_edit_def)
  ultimately show ?thesis
    using history_updated_in_place [OF demo_store_ok, of demo_edit 9 _ "''s''"] by blast
qed

subsection \<open>Deleting\<close>

lemma GetMessage_gone: "\<not> has_key mr_id mid (ms_messages s) \<Longrightarrow> GetMessage sid mid s = None"
  by (auto simp: GetMessage_def has_key_def list_ex_iff find_None_iff)

text \<open>
  C31. Deleting leaves nothing behind: whatever statements the store has run, failing ones included,
  every message belongs to a session, every part to a stored message, and ids are unique; and after
  \<^verbatim>\<open>DeleteMessage\<close> reports success the message cannot be read and none of its parts remains, while
  every other message of any session reads as before.
\<close>

theorem deleted_message_leaves_nothing:
  assumes "s = fold run_statement sts (NewStore sids)" "DeleteMessage sid mid s = (True, s')"
  shows "store_ok s \<and> store_ok s' \<and> GetMessage sid' mid s' = None \<and> Parts mid s' = [] \<and>
    (mid' \<noteq> mid \<longrightarrow> GetMessage sid' mid' s' = GetMessage sid' mid' s)"
proof -
  have ok: "store_ok s" using statements_ok [OF NewStore_ok] assms(1) by simp
  then have ok': "store_ok s'" using Delete_ok(2) assms(2) by (metis snd_conv)
  let ?gone = "\<lambda>r. mr_id r = mid \<and> mr_session r = sid"
  from assms(2) have s': "s' = s\<lparr>ms_messages := filter (\<lambda>r. \<not> ?gone r) (ms_messages s),
      ms_parts := filter (\<lambda>r. pw_message r \<notin> set (map mr_id (filter ?gone (ms_messages s))))
        (filter (\<lambda>r. \<not> (pw_message r = mid \<and> pw_session r = sid)) (ms_parts s))\<rparr>"
    and "list_ex ?gone (ms_messages s)"
    by (auto simp: DeleteMessage_def Let_def drop_messages_def)
  then obtain r where r: "r \<in> set (ms_messages s)" "mr_id r = mid" "mr_session r = sid"
    by (auto simp: list_ex_iff)
  have "inj_on mr_id (set (ms_messages s))"
    using ok by (simp add: store_ok_def distinct_map)
  then have only: "r' = r" if "r' \<in> set (ms_messages s)" "mr_id r' = mid" for r'
    using that r by (metis inj_onD)
  have "\<not> (\<exists>r' \<in> set (ms_messages s). mr_id r' = mid \<and> \<not> ?gone r')"
    using only r(3) by blast
  then have "\<not> has_key mr_id mid (ms_messages s')"
    by (simp add: s' has_key_def list_ex_iff) blast
  then have none: "GetMessage sid' mid s' = None" by (rule GetMessage_gone)
  have ids: "set (map mr_id (filter ?gone (ms_messages s))) = {mid}" using r by auto
  have parts: "filter (\<lambda>q. pw_message q = k) (ms_parts s') =
      (if k = mid then [] else filter (\<lambda>q. pw_message q = k) (ms_parts s))" for k
    unfolding s' ids by (auto simp: filter_empty_conv intro: filter_cong)
  have other: "GetMessage sid' mid' s' = GetMessage sid' mid' s" if "mid' \<noteq> mid"
  proof -
    have rows: "find (\<lambda>r. mr_id r = mid' \<and> mr_session r = sid') (filter (\<lambda>r. \<not> ?gone r) rows) =
        find (\<lambda>r. mr_id r = mid' \<and> mr_session r = sid') rows" for rows
      using that by (induction rows) auto
    have "ms_messages s' = filter (\<lambda>r. \<not> ?gone r) (ms_messages s)" by (simp add: s')
    then have found: "find (\<lambda>r. mr_id r = mid' \<and> mr_session r = sid') (ms_messages s') =
        find (\<lambda>r. mr_id r = mid' \<and> mr_session r = sid') (ms_messages s)"
      by (simp only: rows)
    have "Parts mid' s' = Parts mid' s" unfolding Parts_def parts if_not_P [OF that] ..
    then show ?thesis unfolding GetMessage_def found by (rule arg_cong)
  qed
  from ok ok' none other show ?thesis by (simp add: Parts_def parts)
qed

theorem deleted_message_leaves_nothing_witness:
  "GetMessage ''s'' ''m1'' (snd (DeleteMessage ''s'' ''m1'' demo_store)) = None"
proof -
  have "demo_store = fold run_statement [SPutMessage 5 (IUser (demo_user ''m1''))] (NewStore [''s''])"
    by (simp add: demo_store_def)
  moreover have "DeleteMessage ''s'' ''m1'' demo_store = (True, snd (DeleteMessage ''s'' ''m1'' demo_store))"
    by (simp add: demo_store_value DeleteMessage_def Let_def)
  ultimately show ?thesis using deleted_message_leaves_nothing by blast
qed

end
