(* ===== verification/GoLib.thy ===== *)
theory GoLib
  imports Prelude
begin

text \<open>
  The parts of Go's standard library the tools and the terminal code use: splitting and replacing
  strings, numerals, 64-bit integers, slash-separated paths, and the decoding of a tool's input map
  into a parameter struct (\<^verbatim>\<open>json.Marshal\<close> of the map, \<^verbatim>\<open>json.Unmarshal\<close> into the struct).
\<close>

subsection \<open>64-bit integers\<close>

definition wrap64 :: "int \<Rightarrow> int" where
  "wrap64 x = (x + 2 ^ 63) mod 2 ^ 64 - 2 ^ 63"

definition max64 :: int where
  "max64 = 2 ^ 63 - 1"

lemma wrap64_id: "- (2 ^ 63) \<le> x \<Longrightarrow> x \<le> max64 \<Longrightarrow> wrap64 x = x"
  by (simp add: wrap64_def max64_def)

lemma wrap64_range: "- (2 ^ 63) \<le> wrap64 x \<and> wrap64 x \<le> max64"
proof -
  have "0 \<le> (x + 2 ^ 63) mod 2 ^ 64" "(x + 2 ^ 63) mod 2 ^ 64 < 2 ^ 64" by simp_all
  then show ?thesis unfolding wrap64_def max64_def by simp
qed

subsection \<open>Splitting, counting and replacing\<close>

text \<open>\<^verbatim>\<open>strings.Split\<close> on a one-byte separator.\<close>

fun split_on :: "char \<Rightarrow> string \<Rightarrow> string list" where
  "split_on c [] = [[]]"
| "split_on c (x # xs) =
     (if x = c then [] # split_on c xs
      else (case split_on c xs of [] \<Rightarrow> [[x]] | y # ys \<Rightarrow> (x # y) # ys))"

lemma split_on_nonempty [simp]: "split_on c s \<noteq> []"
  by (induction c s rule: split_on.induct) (auto split: list.splits)

lemma split_on_plain: "c \<notin> set s \<Longrightarrow> split_on c s = [s]"
  by (induction s) auto

lemma split_on_append: "c \<notin> set s \<Longrightarrow> split_on c (s @ c # t) = s # split_on c t"
  by (induction s) (auto split: list.splits)

lemma join_split: "str_join (split_on c s) [c] = s"
proof (induction c s rule: split_on.induct)
  case (2 c x xs)
  then show ?case
    by (cases "split_on c xs" rule: remdups_adj.cases) (auto split: list.splits)
qed simp

lemma split_join:
  "ls \<noteq> [] \<Longrightarrow> list_all (\<lambda>l. c \<notin> set l) ls \<Longrightarrow> split_on c (str_join ls [c]) = ls"
  by (induction ls "[c]" rule: str_join.induct) (auto simp: split_on_plain split_on_append)

text \<open>\<^verbatim>\<open>strings.Count\<close>, \<^verbatim>\<open>strings.ReplaceAll\<close> and \<^verbatim>\<open>strings.Replace\<close> once, for a non-empty old string.\<close>

function count_str :: "string \<Rightarrow> string \<Rightarrow> nat" where
  "count_str [] p = 0"
| "count_str (c # s) p =
     (if p \<noteq> [] \<and> has_prefix (c # s) p then Suc (count_str (drop (length p) (c # s)) p) else count_str s p)"
  by pat_completeness auto
termination by (relation "measure (\<lambda>(s, p). length s)") auto

function replace_all :: "string \<Rightarrow> string \<Rightarrow> string \<Rightarrow> string" where
  "replace_all [] p q = []"
| "replace_all (c # s) p q =
     (if p \<noteq> [] \<and> has_prefix (c # s) p then q @ replace_all (drop (length p) (c # s)) p q
      else c # replace_all s p q)"
  by pat_completeness auto
termination by (relation "measure (\<lambda>(s, p, q). length s)") auto

fun replace_first :: "string \<Rightarrow> string \<Rightarrow> string \<Rightarrow> string" where
  "replace_first [] p q = []"
| "replace_first (c # s) p q =
     (if has_prefix (c # s) p then q @ drop (length p) (c # s) else c # replace_first s p q)"

lemma count_zero: "p \<noteq> [] \<Longrightarrow> count_str s p = 0 \<longleftrightarrow> \<not> str_contains s p"
  by (induction s p rule: count_str.induct) auto

lemma replace_absent: "p \<noteq> [] \<Longrightarrow> \<not> str_contains s p \<Longrightarrow> replace_all s p q = s"
  by (induction s p q rule: replace_all.induct) auto

lemma replace_first_splits:
  "p \<noteq> [] \<Longrightarrow> count_str s p = Suc n \<Longrightarrow>
   \<exists>a b. s = a @ p @ b \<and> replace_first s p q = a @ q @ b \<and> replace_all s p q = a @ q @ replace_all b p q
     \<and> count_str b p = n"
proof (induction s)
  case (Cons c s)
  show ?case
  proof (cases "has_prefix (c # s) p")
    case True
    then obtain b where b: "c # s = p @ b" by (auto simp: has_prefix_iff)
    from b have d: "drop (length p) (c # s) = b" by simp
    have "count_str b p = n"
      using Cons.prems True unfolding count_str.simps(2) d by simp
    moreover have "replace_first (c # s) p q = [] @ q @ b"
      using True unfolding replace_first.simps(2) d by simp
    moreover have "replace_all (c # s) p q = [] @ q @ replace_all b p q"
      using True Cons.prems(1) unfolding replace_all.simps(2) d by simp
    moreover have "c # s = [] @ p @ b" using b by simp
    ultimately show ?thesis by blast
  next
    case False
    then have "count_str s p = Suc n" using Cons.prems by simp
    with Cons.IH Cons.prems(1) obtain a b where ab: "s = a @ p @ b" "replace_first s p q = a @ q @ b"
        "replace_all s p q = a @ q @ replace_all b p q" "count_str b p = n"
      by blast
    then have "c # s = (c # a) @ p @ b \<and> replace_first (c # s) p q = (c # a) @ q @ b \<and>
        replace_all (c # s) p q = (c # a) @ q @ replace_all b p q \<and> count_str b p = n"
      using False by simp
    then show ?thesis by blast
  qed
qed simp

lemma replace_once_is_all:
  assumes "p \<noteq> []" "count_str s p = 1"
  shows "replace_all s p q = replace_first s p q"
proof -
  from replace_first_splits [OF assms(1), of s 0 q] assms(2) obtain a b where
    ab: "replace_first s p q = a @ q @ b" "replace_all s p q = a @ q @ replace_all b p q" "count_str b p = 0"
    by auto
  then have "\<not> str_contains b p" using count_zero [OF assms(1)] by simp
  then show ?thesis using ab replace_absent [OF assms(1)] by simp
qed

subsection \<open>Numerals\<close>

definition is_digit :: "char \<Rightarrow> bool" where
  "is_digit c = (48 \<le> (of_char c :: nat) \<and> (of_char c :: nat) \<le> 57)"

definition digit_val :: "char \<Rightarrow> nat" where
  "digit_val c = of_char c - 48"

definition num_val :: "string \<Rightarrow> nat" where
  "num_val ds = foldl (\<lambda>n c. 10 * n + digit_val c) 0 ds"

text \<open>\<^verbatim>\<open>strconv.Atoi\<close> of a digit string, whose error the callers ignore: out of range is the bound.\<close>

definition atoi_digits :: "string \<Rightarrow> int" where
  "atoi_digits ds = min max64 (int (num_val ds))"

text \<open>\<^verbatim>\<open>strconv.Atoi\<close>; \<open>None\<close> is its error.\<close>

definition atoi :: "string \<Rightarrow> int option" where
  "atoi s =
     (let neg = (s \<noteq> [] \<and> hd s = CHR ''-'');
          ds = (if s \<noteq> [] \<and> (hd s = CHR ''-'' \<or> hd s = CHR ''+'') then tl s else s);
          n = (if neg then - int (num_val ds) else int (num_val ds))
      in if ds = [] \<or> \<not> list_all is_digit ds \<or> n > max64 \<or> n < - (2 ^ 63) then None else Some n)"

lemma digit_char:
  assumes "n < 10"
  shows "is_digit (char_of (48 + n))" "digit_val (char_of (48 + n)) = n"
proof -
  have "(of_char (char_of (48 + n) :: char) :: nat) = 48 + n"
    using assms by (simp add: of_char_of)
  then show "is_digit (char_of (48 + n))" "digit_val (char_of (48 + n)) = n"
    using assms by (simp_all add: is_digit_def digit_val_def)
qed

lemma num_val_snoc: "num_val (ds @ [d]) = 10 * num_val ds + digit_val d"
  by (simp add: num_val_def)

lemma itoa_digits: "list_all is_digit (itoa n) \<and> itoa n \<noteq> [] \<and> num_val (itoa n) = n"
proof (induction n rule: itoa.induct)
  case (1 n)
  show ?case
  proof (cases "n < 10")
    case True
    then show ?thesis
      using digit_char [OF True] by (simp add: itoa.simps [of n] num_val_def)
  next
    case False
    then have "n mod 10 < 10" by simp
    from digit_char [OF this] 1 [OF False] False show ?thesis
      by (simp add: itoa.simps [of n] num_val_snoc)
  qed
qed

subsection \<open>Paths\<close>

text \<open>
  \<^verbatim>\<open>filepath.Clean\<close>, \<^verbatim>\<open>IsAbs\<close>, \<^verbatim>\<open>Join\<close> and \<^verbatim>\<open>Rel\<close> on a system whose separator is the slash. Paths
  are worked on as lists of components; \<open>norm_comps\<close> drops empty and dot components and lets
  \<^verbatim>\<open>..\<close> remove the component before it, which at the root is nothing.
\<close>

definition is_abs :: "string \<Rightarrow> bool" where
  "is_abs p = has_prefix p ''/''"

fun norm_comps :: "bool \<Rightarrow> string list \<Rightarrow> string list \<Rightarrow> string list" where
  "norm_comps rooted acc [] = rev acc"
| "norm_comps rooted acc (c # cs) =
     (if c = '''' \<or> c = ''.'' then norm_comps rooted acc cs
      else if c = ''..'' then
        (case acc of
           a # as \<Rightarrow> if a = ''..'' then norm_comps rooted (''..'' # acc) cs else norm_comps rooted as cs
         | [] \<Rightarrow> if rooted then norm_comps rooted [] cs else norm_comps rooted [''..''] cs)
      else norm_comps rooted (c # acc) cs)"

definition path_clean :: "string \<Rightarrow> string" where
  "path_clean p =
     (let body = str_join (norm_comps (is_abs p) [] (split_on (CHR ''/'') p)) ''/''
      in if is_abs p then ''/'' @ body else if body = '''' then ''.'' else body)"

definition path_join :: "string \<Rightarrow> string \<Rightarrow> string" where
  \<comment> \<open>empty elements are left out\<close>
  "path_join a b =
     (if a = '''' \<and> b = '''' then ''''
      else if a = '''' then path_clean b
      else if b = '''' then path_clean a
      else path_clean (a @ ''/'' @ b))"

fun strip_common :: "string list \<Rightarrow> string list \<Rightarrow> string list \<times> string list" where
  "strip_common (a # as) (b # bs) = (if a = b then strip_common as bs else (a # as, b # bs))"
| "strip_common as bs = (as, bs)"

definition comps :: "string \<Rightarrow> string list" where
  "comps p = norm_comps (is_abs p) [] (split_on (CHR ''/'') p)"

definition path_rel :: "string \<Rightarrow> string \<Rightarrow> string option" where
  \<comment> \<open>\<open>None\<close> is the error: no relative path can be known\<close>
  "path_rel base targ =
     (if is_abs base \<noteq> is_abs targ then None
      else (case strip_common (comps base) (comps targ) of (b, t) \<Rightarrow>
        if ''..'' \<in> set b then None
        else (let r = str_join (map (\<lambda>_. ''..'') b @ t) ''/'' in Some (if r = '''' then ''.'' else r))))"

subsection \<open>Decoding a tool's input\<close>

text \<open>
  The input map goes through \<^verbatim>\<open>json.Marshal\<close>, which sorts the keys, and \<^verbatim>\<open>json.Unmarshal\<close>, which sets
  a struct field from every key equal to its name up to case, in that order, so that the last one
  counts; \<^verbatim>\<open>null\<close> leaves a field alone, a value of another type is an error. The long s and the
  Kelvin sign fold to their ASCII letters, as the decoder folds them.
\<close>

fun fold_name :: "string \<Rightarrow> string" where
  "fold_name (a # b # c # s) =
     (if a = CHR 0xE2 \<and> b = CHR 0x84 \<and> c = CHR 0xAA then ''k'' @ fold_name s
      else if a = CHR 0xC5 \<and> b = CHR 0xBF then ''s'' @ fold_name (c # s)
      else to_lower_c a # fold_name (b # c # s))"
| "fold_name [a, b] = (if a = CHR 0xC5 \<and> b = CHR 0xBF then ''s'' else [to_lower_c a, to_lower_c b])"
| "fold_name [a] = [to_lower_c a]"
| "fold_name [] = []"

definition field_values :: "string \<Rightarrow> jmap option \<Rightarrow> json list" where
  "field_values name inp =
     (case inp of None \<Rightarrow> []
      | Some kvs \<Rightarrow> map snd (filter (\<lambda>kv. fold_name (fst kv) = fold_name name) (sort_key fst kvs)))"

fun decode_field :: "(json \<Rightarrow> 'a option) \<Rightarrow> 'a \<Rightarrow> json list \<Rightarrow> 'a option" where
  "decode_field conv a [] = Some a"
| "decode_field conv a (v # vs) =
     (if v = JNull then decode_field conv a vs
      else case conv v of None \<Rightarrow> None | Some b \<Rightarrow> decode_field conv b vs)"

definition as_string :: "json \<Rightarrow> string option" where
  "as_string v = (case v of JStr s \<Rightarrow> Some s | _ \<Rightarrow> None)"

definition as_bool :: "json \<Rightarrow> bool option" where
  "as_bool v = (case v of JBool b \<Rightarrow> Some b | _ \<Rightarrow> None)"

definition as_int :: "json \<Rightarrow> int option" where
  "as_int v =
     (case v of
        JNum q \<Rightarrow> (let n = \<lfloor>q\<rfloor> in if of_int n = q \<and> - (2 ^ 63) \<le> n \<and> n \<le> max64 then Some n else None)
      | _ \<Rightarrow> None)"

definition dec_string :: "string \<Rightarrow> jmap option \<Rightarrow> string option" where
  "dec_string name inp = decode_field as_string '''' (field_values name inp)"

definition dec_bool :: "string \<Rightarrow> jmap option \<Rightarrow> bool option" where
  "dec_bool name inp = decode_field as_bool False (field_values name inp)"

definition dec_int :: "string \<Rightarrow> jmap option \<Rightarrow> int option" where
  "dec_int name inp = decode_field as_int 0 (field_values name inp)"

lemma dec_single:
  "field_values name inp = [JStr s] \<Longrightarrow> dec_string name inp = Some s"
  by (simp add: dec_string_def as_string_def)

end
