(* ===== verification/Sessions.thy ===== *)
theory Sessions
  imports MessageStore Ids GoLib
begin

text \<open>
  Sessions (\<^verbatim>\<open>internal/session/session.go\<close>, \<^verbatim>\<open>internal/worktree/worktree.go\<close>): the session and project
  tables beside the message tables, every operation of the session store, and the events it publishes. The
  schema makes a session reference its project and a message its session; deleting a session
  cascades to its messages and their parts.
\<close>

subsection \<open>Titles\<close>

definition titlePrefix :: string where
  "titlePrefix = ''New session - ''"

text \<open>The calendar fields of a reading of the clock in UTC.\<close>

record calendar =
  cal_year :: nat
  cal_month :: nat
  cal_day :: nat
  cal_hour :: nat
  cal_minute :: nat
  cal_second :: nat
  cal_milli :: nat

definition pad0 :: "nat \<Rightarrow> nat \<Rightarrow> string" where
  "pad0 w n = replicate (w - length (itoa n)) CHR ''0'' @ itoa n"

text \<open>\<^verbatim>\<open>Format("2006-01-02T15:04:05.000Z")\<close>.\<close>

definition stamp :: "calendar \<Rightarrow> string" where
  "stamp c =
     pad0 4 (cal_year c) @ ''-'' @ pad0 2 (cal_month c) @ ''-'' @ pad0 2 (cal_day c) @ ''T'' @
     pad0 2 (cal_hour c) @ '':'' @ pad0 2 (cal_minute c) @ '':'' @ pad0 2 (cal_second c) @ ''.'' @
     pad0 3 (cal_milli c) @ ''Z''"

text \<open>The pattern of \<^verbatim>\<open>defaultTitleRe\<close> after the prefix; \<open>d\<close> stands for a digit.\<close>

definition stamp_pattern :: string where
  "stamp_pattern = ''dddd-dd-ddTdd:dd:dd.dddZ''"

definition pattern_char :: "char \<Rightarrow> char \<Rightarrow> bool" where
  "pattern_char p c = (if p = CHR ''d'' then is_digit c else c = p)"

definition IsDefaultTitle :: "string \<Rightarrow> bool" where
  "IsDefaultTitle title =
     (has_prefix title titlePrefix \<and> list_all2 pattern_char stamp_pattern (drop (length titlePrefix) title))"

text \<open>
  \<^verbatim>\<open>forkedTitleRe\<close>: a non-empty first line, the suffix and a number. The suffix stands at the end of the
  text, so the match is found from there.
\<close>

definition fork_mark :: string where
  "fork_mark = '' (fork #''"

definition fork_match :: "string \<Rightarrow> (string \<times> string) option" where
  "fork_match title =
     (case rev title of
        [] \<Rightarrow> None
      | c # r \<Rightarrow>
          (let ds = rev (takeWhile is_digit r); front = rev (dropWhile is_digit r);
               base = take (length front - length fork_mark) front
           in if c = CHR '')'' \<and> ds \<noteq> [] \<and> has_suffix front fork_mark \<and> base \<noteq> [] \<and> CHR 0x0A \<notin> set base
              then Some (base, ds) else None))"

text \<open>\<^verbatim>\<open>fmt.Sscanf("%d")\<close> of digits into a zero \<^verbatim>\<open>int\<close>, its error ignored: a number out of range leaves zero.\<close>

definition scan_int :: "string \<Rightarrow> int" where
  "scan_int ds = (if int (num_val ds) \<le> max64 then int (num_val ds) else 0)"

definition forkedTitle :: "string \<Rightarrow> string" where
  "forkedTitle title =
     (case fork_match title of
        Some (base, ds) \<Rightarrow> base @ fork_mark @ itoa_int (wrap64 (scan_int ds + 1)) @ '')''
      | None \<Rightarrow> title @ '' (fork #1)'')"

definition slugAlphabet :: string where
  "slugAlphabet = ''abcdefghijklmnopqrstuvwxyz0123456789''"

definition randomSlug :: "nat list \<Rightarrow> string" where
  \<comment> \<open>of the random bytes\<close>
  "randomSlug buf = map (\<lambda>b. slugAlphabet ! (b mod length slugAlphabet)) buf"

subsection \<open>Worktrees\<close>

text \<open>
  Directories are absolute, clean paths. \<open>has_git\<close> tells whether a path exists; the components of a
  path are given from its end.
\<close>

fun git_root :: "(string \<Rightarrow> bool) \<Rightarrow> string list \<Rightarrow> string" where
  "git_root has_git [] = ''/''"
| "git_root has_git (c # cs) =
     (let dir = ''/'' @ str_join (rev (c # cs)) ''/''
      in if has_git (dir @ ''/.git'') then dir else git_root has_git cs)"

definition Root :: "(string \<Rightarrow> bool) \<Rightarrow> string \<Rightarrow> string" where
  "Root has_git dir = git_root has_git (rev (comps dir))"

definition RelPath :: "string \<Rightarrow> string \<Rightarrow> string" where
  "RelPath wt dir =
     (case path_rel wt dir of None \<Rightarrow> dir | Some rel \<Rightarrow> if rel = ''.'' then [] else rel)"

definition projectID :: "string \<Rightarrow> string" where
  "projectID wt = (if wt = ''/'' then ''global'' else wt)"

subsection \<open>The tables\<close>

record session_info =
  si_id :: string
  si_slug :: string
  si_project :: string
  si_dir :: string
  si_path :: string
  si_parent :: string
  si_title :: string
  si_agent :: string
  si_version :: string
  si_cost :: f64
  si_input :: f64
  si_output :: f64
  si_reasoning :: f64
  si_cache_read :: f64
  si_cache_write :: f64
  si_created :: int
  si_updated :: int
  si_archived :: "int option"

text \<open>A row: the columns the store writes and reads; an empty path or parent is stored as \<^verbatim>\<open>NULL\<close>.\<close>

record session_row =
  sr_id :: string
  sr_project :: string
  sr_slug :: string
  sr_dir :: string
  sr_path :: "string option"
  sr_parent :: "string option"
  sr_title :: string
  sr_version :: string
  sr_cost :: f64
  sr_input :: f64
  sr_output :: f64
  sr_reasoning :: f64
  sr_cache_read :: f64
  sr_cache_write :: f64
  sr_created :: int
  sr_updated :: int
  sr_archived :: "int option"

definition nullString :: "string \<Rightarrow> string option" where
  "nullString s = (if s = [] then None else Some s)"

definition null_value :: "string option \<Rightarrow> string" where
  "null_value x = (case x of None \<Rightarrow> [] | Some s \<Rightarrow> s)"

definition scan_row :: "session_row \<Rightarrow> session_info" where
  "scan_row r =
     \<lparr>si_id = sr_id r, si_slug = sr_slug r, si_project = sr_project r, si_dir = sr_dir r, si_path = null_value (sr_path r),
      si_parent = null_value (sr_parent r), si_title = sr_title r, si_agent = [], si_version = sr_version r,
      si_cost = sr_cost r, si_input = sr_input r, si_output = sr_output r, si_reasoning = sr_reasoning r,
      si_cache_read = sr_cache_read r, si_cache_write = sr_cache_write r, si_created = sr_created r,
      si_updated = sr_updated r, si_archived = sr_archived r\<rparr>"

record sess_db =
  sb_projects :: "(string \<times> string) list"
  sb_rows :: "session_row list"
  sb_msgs :: msg_store

definition empty_db :: sess_db where
  "empty_db = \<lparr>sb_projects = [], sb_rows = [], sb_msgs = NewStore []\<rparr>"

datatype sess_error = NotFound | InsertFailed

text \<open>The environment: the existence of paths, the wire version and whether a directory has a bus.\<close>

record sess_env =
  en_has_git :: "string \<Rightarrow> bool"
  en_version :: string
  en_bus :: "string \<Rightarrow> bool"

text \<open>What a creation reads besides its identifier: the clock, the calendar and the slug's bytes.\<close>

record sess_reading =
  rd_now :: int
  rd_calendar :: calendar
  rd_slug :: "nat list"

text \<open>An event: the directory of the bus it goes to, its type and the session it carries.\<close>

type_synonym sess_event = "string \<times> string \<times> session_info"

definition sess_publish :: "sess_env \<Rightarrow> string \<Rightarrow> session_info \<Rightarrow> sess_event list" where
  "sess_publish env typ i = (if en_bus env (si_dir i) then [(si_dir i, typ, i)] else [])"

definition publishCreated :: "sess_env \<Rightarrow> session_info \<Rightarrow> sess_event list" where
  "publishCreated env i = sess_publish env ''session.created'' i @ sess_publish env ''session.updated'' i"

text \<open>\<^verbatim>\<open>INSERT OR IGNORE\<close> of the project, then the session; the second fails when the id is taken.\<close>

definition insert_session :: "session_info \<Rightarrow> string \<Rightarrow> sess_db \<Rightarrow> bool \<times> sess_db" where
  "insert_session i wt db =
     (let db1 = (if si_project i \<in> set (map fst (sb_projects db)) then db
                 else db\<lparr>sb_projects := sb_projects db @ [(si_project i, wt)]\<rparr>)
      in if list_ex (\<lambda>r. sr_id r = si_id i) (sb_rows db1) then (False, db1)
         else (True, db1\<lparr>
           sb_rows := sb_rows db1 @
             [\<lparr>sr_id = si_id i, sr_project = si_project i, sr_slug = si_slug i, sr_dir = si_dir i,
               sr_path = nullString (si_path i), sr_parent = nullString (si_parent i), sr_title = si_title i,
               sr_version = si_version i, sr_cost = 0, sr_input = 0, sr_output = 0, sr_reasoning = 0, sr_cache_read = 0,
               sr_cache_write = 0, sr_created = si_created i, sr_updated = si_updated i, sr_archived = None\<rparr>],
           sb_msgs := (sb_msgs db1)\<lparr>ms_sessions := ms_sessions (sb_msgs db1) @ [si_id i]\<rparr>\<rparr>))"

definition find_row :: "string \<Rightarrow> sess_db \<Rightarrow> session_row option" where
  "find_row sid db = find (\<lambda>r. sr_id r = sid) (sb_rows db)"

definition Get :: "string \<Rightarrow> sess_db \<Rightarrow> sess_error + session_info" where
  "Get sid db = (case find_row sid db of None \<Rightarrow> Inl NotFound | Some r \<Rightarrow> Inr (scan_row r))"

definition session_title :: "string \<Rightarrow> sess_db \<Rightarrow> sess_error + string" where
  "session_title sid db = map_sum (\<lambda>e. e) si_title (Get sid db)"

subsection \<open>Operations\<close>

definition new_info :: "sess_env \<Rightarrow> sess_reading \<Rightarrow> string \<Rightarrow> string \<Rightarrow> string \<Rightarrow> session_info" where
  "new_info env rd sid dir parent =
     (let wt = Root (en_has_git env) dir
      in \<lparr>si_id = sid, si_slug = randomSlug (rd_slug rd), si_project = projectID wt, si_dir = dir,
          si_path = RelPath wt dir, si_parent = parent, si_title = titlePrefix @ stamp (rd_calendar rd), si_agent = [],
          si_version = en_version env, si_cost = 0, si_input = 0, si_output = 0, si_reasoning = 0, si_cache_read = 0,
          si_cache_write = 0, si_created = rd_now rd, si_updated = rd_now rd, si_archived = None\<rparr>)"

definition insert_publish ::
  "sess_env \<Rightarrow> session_info \<Rightarrow> string \<Rightarrow> sess_db \<Rightarrow> (sess_error + session_info) \<times> sess_db \<times> sess_event list"
where
  "insert_publish env i wt db =
     (case insert_session i wt db of
        (False, db1) \<Rightarrow> (Inl InsertFailed, db1, [])
      | (True, db1) \<Rightarrow> (Inr i, db1, publishCreated env i))"

definition CreateChild ::
  "sess_env \<Rightarrow> sess_reading \<Rightarrow> string \<Rightarrow> string \<Rightarrow> string \<Rightarrow> sess_db \<Rightarrow>
     (sess_error + session_info) \<times> sess_db \<times> sess_event list"
where
  "CreateChild env rd sid dir parent db =
     insert_publish env (new_info env rd sid dir parent) (Root (en_has_git env) dir) db"

definition Create ::
  "sess_env \<Rightarrow> sess_reading \<Rightarrow> string \<Rightarrow> string \<Rightarrow> sess_db \<Rightarrow>
     (sess_error + session_info) \<times> sess_db \<times> sess_event list"
where
  "Create env rd sid dir db = insert_publish env (new_info env rd sid dir []) (Root (en_has_git env) dir) db"

definition Fork ::
  "sess_env \<Rightarrow> sess_reading \<Rightarrow> string \<Rightarrow> string \<Rightarrow> sess_db \<Rightarrow>
     (sess_error + session_info) \<times> sess_db \<times> sess_event list"
where
  "Fork env rd sid parent db =
     (case Get parent db of
        Inl e \<Rightarrow> (Inl e, db, [])
      | Inr p \<Rightarrow>
          insert_publish env
            \<lparr>si_id = sid, si_slug = randomSlug (rd_slug rd), si_project = si_project p, si_dir = si_dir p, si_path = si_path p,
             si_parent = [], si_title = forkedTitle (si_title p), si_agent = [], si_version = en_version env, si_cost = 0,
             si_input = 0, si_output = 0, si_reasoning = 0, si_cache_read = 0, si_cache_write = 0, si_created = rd_now rd,
             si_updated = rd_now rd, si_archived = None\<rparr> (Root (en_has_git env) (si_dir p)) db)"

definition update_rows :: "string \<Rightarrow> (session_row \<Rightarrow> session_row) \<Rightarrow> sess_db \<Rightarrow> bool \<times> sess_db" where
  "update_rows sid f db =
     (list_ex (\<lambda>r. sr_id r = sid) (sb_rows db),
      db\<lparr>sb_rows := map (\<lambda>r. if sr_id r = sid then f r else r) (sb_rows db)\<rparr>)"

definition SetTitle :: "sess_env \<Rightarrow> int \<Rightarrow> string \<Rightarrow> string \<Rightarrow> sess_db \<Rightarrow> sess_db \<times> sess_event list" where
  "SetTitle env now sid title db =
     (case update_rows sid (\<lambda>r. r\<lparr>sr_title := title, sr_updated := now\<rparr>) db of
        (False, db1) \<Rightarrow> (db1, [])
      | (True, db1) \<Rightarrow>
          (db1, (case Get sid db1 of Inl e \<Rightarrow> [] | Inr i \<Rightarrow> sess_publish env ''session.updated'' i)))"

record update_params =
  up_title :: "string option"
  up_archived :: "int option"

definition apply_params :: "update_params \<Rightarrow> session_row \<Rightarrow> session_row" where
  "apply_params p r =
     (let r1 = (case up_title p of None \<Rightarrow> r | Some t \<Rightarrow> r\<lparr>sr_title := t\<rparr>)
      in case up_archived p of None \<Rightarrow> r1 | Some a \<Rightarrow> r1\<lparr>sr_archived := Some a\<rparr>)"

definition Update ::
  "sess_env \<Rightarrow> string \<Rightarrow> update_params \<Rightarrow> sess_db \<Rightarrow> (sess_error + session_info) \<times> sess_db \<times> sess_event list"
where
  "Update env sid p db =
     (let touched = (up_title p \<noteq> None \<or> up_archived p \<noteq> None) in
      case (if touched then update_rows sid (apply_params p) db else (True, db)) of
        (False, db1) \<Rightarrow> (Inl NotFound, db1, [])
      | (True, db1) \<Rightarrow>
          (case Get sid db1 of
             Inl e \<Rightarrow> (Inl e, db1, [])
           | Inr i \<Rightarrow> (Inr i, db1, (if touched then sess_publish env ''session.updated'' i else []))))"

definition newest_first :: "session_row list \<Rightarrow> session_row list" where
  \<comment> \<open>\<^verbatim>\<open>ORDER BY time_updated DESC, id DESC\<close>\<close>
  "newest_first rows = rev (sort_key (\<lambda>r. (sr_updated r, sr_id r)) rows)"

definition session_List :: "sess_db \<Rightarrow> session_info list" where
  "session_List db = map scan_row (take 100 (newest_first (sb_rows db)))"

definition session_Children :: "string \<Rightarrow> sess_db \<Rightarrow> session_info list" where
  "session_Children sid db = map scan_row (newest_first (filter (\<lambda>r. sr_parent r = Some sid) (sb_rows db)))"

definition Delete :: "sess_env \<Rightarrow> string \<Rightarrow> sess_db \<Rightarrow> bool \<times> sess_db \<times> sess_event list" where
  "Delete env sid db =
     (let found = list_ex (\<lambda>r. sr_id r = sid) (sb_rows db);
          msgs = drop_messages (\<lambda>r. mr_session r = sid) (sb_msgs db);
          db1 = db\<lparr>sb_rows := filter (\<lambda>r. sr_id r \<noteq> sid) (sb_rows db),
                   sb_msgs := msgs\<lparr>ms_sessions := filter (\<lambda>k. k \<noteq> sid) (ms_sessions msgs)\<rparr>\<rparr>
      in (found, db1,
          (case Get sid db of Inl e \<Rightarrow> [] | Inr i \<Rightarrow> if found then sess_publish env ''session.deleted'' i else [])))"

subsection \<open>Runs of the store\<close>

text \<open>Operations one after another; the statements of the message store run on the same tables.\<close>

datatype sess_op =
    OpCreate sess_reading string string
  | OpChild sess_reading string string string
  | OpFork sess_reading string string
  | OpTitle int string string
  | OpUpdate string update_params
  | OpDelete string
  | OpMessages statement

definition run_op :: "sess_env \<Rightarrow> sess_op \<Rightarrow> sess_db \<Rightarrow> sess_db \<times> sess_event list" where
  "run_op env op db =
     (case op of
        OpCreate rd sid dir \<Rightarrow> snd (Create env rd sid dir db)
      | OpChild rd sid dir parent \<Rightarrow> snd (CreateChild env rd sid dir parent db)
      | OpFork rd sid parent \<Rightarrow> snd (Fork env rd sid parent db)
      | OpTitle now sid title \<Rightarrow> SetTitle env now sid title db
      | OpUpdate sid p \<Rightarrow> snd (Update env sid p db)
      | OpDelete sid \<Rightarrow> snd (Delete env sid db)
      | OpMessages st \<Rightarrow> (db\<lparr>sb_msgs := run_statement st (sb_msgs db)\<rparr>, []))"

abbreviation db_after :: "sess_env \<Rightarrow> sess_op list \<Rightarrow> sess_db" where
  "db_after env ops \<equiv> fold (\<lambda>op db. fst (run_op env op db)) ops empty_db"

text \<open>The three operations that add a session are one insertion.\<close>

lemma insert_cases:
  obtains "snd (insert_publish env i wt db) = (snd (insert_session i wt db), [])" "\<not> fst (insert_session i wt db)"
  | "snd (insert_publish env i wt db) = (snd (insert_session i wt db), publishCreated env i)" "fst (insert_session i wt db)"
  by (cases "insert_session i wt db"; cases "fst (insert_session i wt db)") (auto simp: insert_publish_def)

lemma creates:
  "snd (Create env rd sid dir db) = snd (insert_publish env (new_info env rd sid dir []) (Root (en_has_git env) dir) db)"
  "snd (CreateChild env rd sid dir parent db) =
     snd (insert_publish env (new_info env rd sid dir parent) (Root (en_has_git env) dir) db)"
  by (simp_all add: Create_def CreateChild_def)

lemma fork_cases:
  obtains "snd (Fork env rd sid parent db) = (db, [])"
  | i wt where "snd (Fork env rd sid parent db) = snd (insert_publish env i wt db)" "si_archived i = None" "si_agent i = []"
      "si_cost i = 0" "si_input i = 0" "si_output i = 0" "si_reasoning i = 0" "si_cache_read i = 0" "si_cache_write i = 0"
  by (cases "Get parent db") (auto simp: Fork_def)

lemma null_value [simp]: "null_value (nullString s) = s"
  by (simp add: nullString_def null_value_def)

lemma find_app_new: "\<not> list_ex P xs \<Longrightarrow> P x \<Longrightarrow> find P (xs @ [x]) = Some x"
  by (induction xs) auto

text \<open>What was inserted is what is read back.\<close>

definition blank_info :: "session_info \<Rightarrow> bool" where
  "blank_info i = (si_archived i = None \<and> si_agent i = [] \<and> si_cost i = 0 \<and> si_input i = 0 \<and> si_output i = 0 \<and>
     si_reasoning i = 0 \<and> si_cache_read i = 0 \<and> si_cache_write i = 0)"

lemma insert_read_back:
  assumes "fst (insert_session i wt db)" "blank_info i"
  shows "Get (si_id i) (snd (insert_session i wt db)) = Inr i"
  using assms
  by (auto simp: insert_session_def Get_def find_row_def find_app_new scan_row_def blank_info_def Let_def split: if_splits)

lemma blank_new: "blank_info (new_info env rd sid dir parent)"
  by (simp add: blank_info_def new_info_def Let_def)

lemma find_after_map:
  "(\<And>r. sr_id (f r) = sr_id r) \<Longrightarrow>
   find (\<lambda>r. sr_id r = k) (map (\<lambda>r. if sr_id r = sid then f r else r) rows) =
     map_option (\<lambda>r. if k = sid then f r else r) (find (\<lambda>r. sr_id r = k) rows)"
  by (induction rows) auto

lemma find_after_filter:
  "find (\<lambda>r. sr_id r = k) (filter (\<lambda>r. sr_id r \<noteq> sid) rows) = (if k = sid then None else find (\<lambda>r. sr_id r = k) rows)"
  by (induction rows) auto

lemma Get_id: "Get sid db = Inr i \<Longrightarrow> si_id i = sid"
  by (auto simp: Get_def find_row_def scan_row_def find_Some_iff split: option.splits)

definition event_ok :: "sess_env \<Rightarrow> sess_db \<Rightarrow> sess_db \<Rightarrow> sess_event \<Rightarrow> bool" where
  "event_ok env db db' e =
     (case e of (dir, typ, i) \<Rightarrow>
        dir = si_dir i \<and> en_bus env dir \<and>
        (if typ = ''session.deleted'' then Get (si_id i) db = Inr i \<and> Get (si_id i) db' = Inl NotFound
         else typ \<in> set [''session.created'', ''session.updated''] \<and> Get (si_id i) db' = Inr i))"

lemma publish_ok:
  "Get (si_id i) db' = Inr i \<Longrightarrow> list_all (event_ok env db db') (sess_publish env ''session.updated'' i)"
  "Get (si_id i) db' = Inr i \<Longrightarrow> list_all (event_ok env db db') (publishCreated env i)"
  by (simp_all add: sess_publish_def publishCreated_def event_ok_def)

lemma insert_events_ok:
  "blank_info i \<Longrightarrow> snd (insert_publish env i wt db) = (db', evs) \<Longrightarrow> list_all (event_ok env db db') evs"
  by (cases rule: insert_cases [of env i wt db]) (auto intro: publish_ok insert_read_back)

text \<open>
  Events tell what the tables hold: whatever operation runs, each event it publishes goes to the bus
  of the session's directory and carries the whole session, exactly as a read right after the operation
  returns it; a deletion's event carries the session as it was, which a read no longer finds.
\<close>

theorem events_carry_stored_session:
  "case run_op env op db of (db', evs) \<Rightarrow> list_all (event_ok env db db') evs"
proof (cases op)
  case (OpCreate rd sid dir)
  then show ?thesis using insert_events_ok [OF blank_new] by (auto simp: run_op_def creates split: prod.split)
next
  case (OpChild rd sid dir parent)
  then show ?thesis using insert_events_ok [OF blank_new] by (auto simp: run_op_def creates split: prod.split)
next
  case (OpFork rd sid parent)
  show ?thesis
  proof (cases rule: fork_cases [of env rd sid parent db])
    case (2 i wt)
    then have "blank_info i" by (simp add: blank_info_def)
    then show ?thesis using 2(1) OpFork insert_events_ok by (auto simp: run_op_def split: prod.split)
  qed (use OpFork in \<open>simp add: run_op_def\<close>)
next
  case (OpTitle now sid title)
  then show ?thesis
    by (auto simp: run_op_def SetTitle_def update_rows_def dest: Get_id intro!: publish_ok split: sum.split bool.split)
next
  case (OpUpdate sid p)
  then show ?thesis
    by (auto simp: run_op_def Update_def update_rows_def Let_def dest: Get_id intro!: publish_ok
        split: sum.split bool.split prod.split if_splits)
next
  case (OpDelete sid)
  show ?thesis
  proof (cases "Get sid db")
    case (Inr i)
    have "Get sid (fst (snd (Delete env sid db))) = Inl NotFound"
      by (simp add: Delete_def Let_def Get_def find_row_def find_after_filter)
    then show ?thesis using Inr Get_id [OF Inr] OpDelete
      by (simp add: run_op_def Delete_def Let_def sess_publish_def event_ok_def)
  qed (use OpDelete in \<open>simp add: run_op_def Delete_def Let_def\<close>)
next
  case (OpMessages st)
  then show ?thesis by (simp add: run_op_def)
qed

subsection \<open>Deleting a session\<close>

definition db_ok :: "sess_db \<Rightarrow> bool" where
  "db_ok db =
     (distinct (map sr_id (sb_rows db)) \<and> ms_sessions (sb_msgs db) = map sr_id (sb_rows db) \<and>
      list_all (\<lambda>r. sr_project r \<in> set (map fst (sb_projects db))) (sb_rows db) \<and> store_ok (sb_msgs db))"

lemma store_ok_sessions:
  "store_ok s \<Longrightarrow> set (ms_sessions s) \<subseteq> set ids \<Longrightarrow> store_ok (s\<lparr>ms_sessions := ids\<rparr>)"
  by (auto simp: store_ok_def list_all_iff)

lemma statement_sessions [simp]: "ms_sessions (run_statement st s) = ms_sessions s"
  by (auto simp: run_statement_def PutMessage_def PutPart_def DeletePart_def DeleteMessage_def drop_messages_def Let_def
      split: statement.split option.split)

lemma insert_db_ok: "db_ok db \<Longrightarrow> db_ok (snd (insert_session i wt db))"
  by (auto simp: db_ok_def insert_session_def Let_def list_all_iff list_ex_iff intro!: store_ok_sessions)

lemma insert_publish_ok: "db_ok db \<Longrightarrow> db_ok (fst (snd (insert_publish env i wt db)))"
  using insert_db_ok [of db i wt] by (cases rule: insert_cases [of env i wt db]) auto

lemma update_db_ok:
  "(\<And>r. sr_id (f r) = sr_id r \<and> sr_project (f r) = sr_project r) \<Longrightarrow> db_ok db \<Longrightarrow> db_ok (snd (update_rows sid f db))"
  by (auto simp: db_ok_def update_rows_def list_all_iff comp_def if_distrib cong: if_cong)

lemma drop_session_ok:
  assumes "store_ok s"
  shows "store_ok (drop_messages (\<lambda>r. mr_session r = sid) s\<lparr>ms_sessions := filter (\<lambda>k. k \<noteq> sid) (ms_sessions s)\<rparr>)"
proof -
  have "store_ok (drop_messages (\<lambda>r. mr_session r = sid) s)" using assms by (rule drop_messages_ok)
  moreover have "list_all (\<lambda>r. mr_session r \<noteq> sid) (ms_messages (drop_messages (\<lambda>r. mr_session r = sid) s))"
    by (simp add: drop_messages_def Let_def list_all_iff)
  moreover have "ms_sessions (drop_messages (\<lambda>r. mr_session r = sid) s) = ms_sessions s"
    by (simp add: drop_messages_def Let_def)
  ultimately show ?thesis by (auto simp: store_ok_def list_all_iff)
qed

lemma Delete_db_ok: "db_ok db \<Longrightarrow> db_ok (fst (snd (Delete env sid db)))"
  using drop_session_ok [of "sb_msgs db" sid]
  by (auto simp: db_ok_def Delete_def Let_def drop_messages_def list_all_iff distinct_map inj_on_def filter_map comp_def)

lemma run_op_ok: "db_ok db \<Longrightarrow> db_ok (fst (run_op env op db))"
proof (cases op)
  case (OpFork rd sid parent)
  assume "db_ok db"
  then show ?thesis using OpFork
    by (cases rule: fork_cases [of env rd sid parent db]) (simp_all add: run_op_def insert_publish_ok)
next
  case (OpTitle now sid title)
  assume "db_ok db"
  then have "db_ok (snd (update_rows sid (\<lambda>r. r\<lparr>sr_title := title, sr_updated := now\<rparr>) db))" by (simp add: update_db_ok)
  then show ?thesis using OpTitle by (auto simp: run_op_def SetTitle_def split: prod.split bool.split)
next
  case (OpUpdate sid p)
  assume ok: "db_ok db"
  have "sr_id (apply_params p r) = sr_id r \<and> sr_project (apply_params p r) = sr_project r" for r
    by (simp add: apply_params_def split: option.split)
  then have "db_ok (snd (update_rows sid (apply_params p) db))" using ok by (intro update_db_ok)
  then show ?thesis using OpUpdate ok
    by (auto simp: run_op_def Update_def Let_def split: prod.split bool.split sum.split if_splits)
next
  case (OpMessages st)
  assume "db_ok db"
  then show ?thesis using OpMessages by (simp add: run_op_def db_ok_def statement_ok)
qed (simp_all add: run_op_def creates insert_publish_ok Delete_db_ok)

lemma db_after_ok: "db_ok (db_after env ops)"
proof -
  have "db_ok db \<Longrightarrow> db_ok (fold (\<lambda>op db. fst (run_op env op db)) ops db)" for db
    by (induction ops arbitrary: db) (simp_all add: run_op_ok)
  moreover have "db_ok empty_db" using NewStore_ok [of "[]"] by (simp add: db_ok_def empty_db_def NewStore_def)
  ultimately show ?thesis by blast
qed

text \<open>The history of another session does not change.\<close>

lemma drop_other_history:
  assumes "store_ok s" "sid \<noteq> sid'"
  shows "st_List sid' (drop_messages (\<lambda>r. mr_session r = sid) s\<lparr>ms_sessions := ids\<rparr>) = st_List sid' s"
proof -
  let ?s = "drop_messages (\<lambda>r. mr_session r = sid) s\<lparr>ms_sessions := ids\<rparr>"
  let ?gone = "map mr_id (filter (\<lambda>r. mr_session r = sid) (ms_messages s))"
  have rows: "ordered_rows sid' ?s = ordered_rows sid' s"
    using assms(2) by (simp add: ordered_rows_def drop_messages_def Let_def) (metis (mono_tags, lifting))
  have "Parts (mr_id r) ?s = Parts (mr_id r) s" if "r \<in> set (ordered_rows sid' s)" for r
  proof -
    have "r \<in> set (ms_messages s)" "mr_session r = sid'" using that by (auto simp: ordered_rows_def)
    then have "mr_id r \<notin> set ?gone" using assms by (auto simp: store_ok_def distinct_map inj_on_def)
    then have "filter (\<lambda>p. pw_message p = mr_id r) (filter (\<lambda>p. pw_message p \<notin> set ?gone) (ms_parts s)) =
        filter (\<lambda>p. pw_message p = mr_id r) (ms_parts s)"
      by (simp only: filter_filter) (rule filter_cong [OF refl], metis)
    then show ?thesis by (simp add: Parts_def drop_messages_def Let_def)
  qed
  then show ?thesis unfolding st_List_def load_def rows by simp
qed

lemma drop_own_history: "st_List sid (drop_messages (\<lambda>r. mr_session r = sid) s\<lparr>ms_sessions := ids\<rparr>) = []"
  by (simp add: st_List_def load_def ordered_rows_def drop_messages_def Let_def filter_filter)

text \<open>
  C36. A deleted session is gone with everything in it, and nothing else is: after any sequence of
  operations on sessions and messages, deleting a session leaves tables in which every reference is met,
  the session is not found and has no history, and another session keeps its row and its history.
\<close>

theorem deleted_session_leaves_nothing:
  assumes "other \<noteq> sid"
  shows "case Delete env sid (db_after env ops) of (found, db', evs) \<Rightarrow>
     db_ok db' \<and> found = (sid \<in> set (map sr_id (sb_rows (db_after env ops)))) \<and> Get sid db' = Inl NotFound \<and>
     st_List sid (sb_msgs db') = [] \<and> sid \<notin> set (ms_sessions (sb_msgs db')) \<and>
     Get other db' = Get other (db_after env ops) \<and> st_List other (sb_msgs db') = st_List other (sb_msgs (db_after env ops))"
proof -
  let ?db = "db_after env ops"
  have ok: "db_ok ?db" "store_ok (sb_msgs ?db)" using db_after_ok [of env ops] by (simp_all add: db_ok_def)
  show ?thesis
    using Delete_db_ok [OF ok(1), of env sid] drop_other_history [OF ok(2) assms [symmetric]] drop_own_history assms
    by (auto simp: Delete_def Let_def Get_def find_row_def find_after_filter list_ex_iff)
qed

lemma deleted_session_leaves_nothing_witness:
  defines "env \<equiv> \<lparr>en_has_git = (\<lambda>p. p = ''/w/.git''), en_version = ''1'', en_bus = (\<lambda>d. True)\<rparr>"
    and "rd \<equiv> \<lparr>rd_now = 5, rd_calendar = \<lparr>cal_year = 2025, cal_month = 1, cal_day = 2, cal_hour = 3, cal_minute = 4,
      cal_second = 5, cal_milli = 6\<rparr>, rd_slug = [0]\<rparr>"
  shows "let db = db_after env [OpCreate rd ''ses_1'' ''/w'', OpCreate rd ''ses_2'' ''/w/a''];
             db' = fst (snd (Delete env ''ses_1'' db))
         in Get ''ses_1'' db' = Inl NotFound \<and> Get ''ses_2'' db' = Get ''ses_2'' db \<and> db_ok db'"
  using deleted_session_leaves_nothing [of "''ses_2''" "''ses_1''" env "[OpCreate rd ''ses_1'' ''/w'', OpCreate rd ''ses_2'' ''/w/a'']"]
  by (auto simp: Let_def split: prod.splits)


subsection \<open>Titles of new and forked sessions\<close>

lemma pad0_length: "length (itoa n) \<le> w \<Longrightarrow> length (pad0 w n) = w"
  by (simp add: pad0_def)

lemma pad0_digits: "list_all is_digit (pad0 w n)"
  using itoa_digits [of n] by (auto simp: pad0_def list_all_iff set_replicate_conv_if is_digit_def)

lemma itoa_length: "n < 10 ^ Suc w \<Longrightarrow> length (itoa n) \<le> Suc w"
proof (induction w arbitrary: n)
  case (Suc w)
  show ?case
  proof (cases "n < 10")
    case False
    then have "length (itoa (n div 10)) \<le> Suc w" using Suc.prems by (intro Suc.IH) (simp add: less_mult_imp_div_less)
    then show ?thesis using False by (simp add: itoa.simps [of n])
  qed (simp add: itoa.simps)
qed (simp add: itoa.simps)

lemma digits_match: "list_all is_digit s \<Longrightarrow> list_all2 pattern_char (replicate (length s) CHR ''d'') s"
  by (induction s) (simp_all add: pattern_char_def)

lemma pad0_matches: "n < 10 ^ Suc w \<Longrightarrow> Suc w = k \<Longrightarrow> list_all2 pattern_char (replicate k CHR ''d'') (pad0 k n)"
  using digits_match [OF pad0_digits, of k n] pad0_length [OF itoa_length, of n w] by simp

definition calendar_ok :: "calendar \<Rightarrow> bool" where
  "calendar_ok c =
     (cal_year c < 10000 \<and> cal_month c < 100 \<and> cal_day c < 100 \<and> cal_hour c < 100 \<and> cal_minute c < 100 \<and>
      cal_second c < 100 \<and> cal_milli c < 1000)"

lemma stamp_matches:
  assumes "calendar_ok c"
  shows "list_all2 pattern_char stamp_pattern (stamp c)"
proof -
  have parts: "stamp_pattern =
      replicate 4 CHR ''d'' @ ''-'' @ replicate 2 CHR ''d'' @ ''-'' @ replicate 2 CHR ''d'' @ ''T'' @
      replicate 2 CHR ''d'' @ '':'' @ replicate 2 CHR ''d'' @ '':'' @ replicate 2 CHR ''d'' @ ''.'' @
      replicate 3 CHR ''d'' @ ''Z''"
    by (simp add: stamp_pattern_def numeral_eq_Suc)
  have lit: "list_all2 pattern_char [x] [x]" if "x \<noteq> CHR ''d''" for x using that by (simp add: pattern_char_def)
  have four: "n < 10000 \<Longrightarrow> list_all2 pattern_char (replicate 4 CHR ''d'') (pad0 4 n)"
    and two: "n < 100 \<Longrightarrow> list_all2 pattern_char (replicate 2 CHR ''d'') (pad0 2 n)"
    and three: "n < 1000 \<Longrightarrow> list_all2 pattern_char (replicate 3 CHR ''d'') (pad0 3 n)" for n
    using pad0_matches [of n 3 4] pad0_matches [of n 1 2] pad0_matches [of n 2 3] by simp_all
  show ?thesis
    unfolding parts stamp_def using assms unfolding calendar_ok_def
    by (intro list_all2_appendI lit four two three) simp_all
qed

lemma default_last: "IsDefaultTitle title \<Longrightarrow> last title = CHR ''Z''"
proof -
  assume d: "IsDefaultTitle title"
  then obtain s where s: "title = titlePrefix @ s" "list_all2 pattern_char stamp_pattern s"
    by (auto simp: IsDefaultTitle_def has_prefix_iff)
  obtain ps where "stamp_pattern = ps @ [CHR ''Z'']" by (simp add: stamp_pattern_def)
  with s(2) have "list_all2 pattern_char (ps @ [CHR ''Z'']) s" by simp
  then obtain us vs where "s = us @ vs" "list_all2 pattern_char [CHR ''Z''] vs" unfolding list_all2_append1 by blast
  then obtain us where "s = us @ [CHR ''Z'']" by (auto simp: list_all2_Cons1 pattern_char_def)
  then show ?thesis using s(1) by simp
qed

lemma fork_last: "last (forkedTitle title) = CHR '')''"
  by (simp add: forkedTitle_def split: option.split prod.split)

text \<open>
  A session starts with a default title, which a generated title may replace, and a fork never has
  one, so its title is never generated over.
\<close>

theorem fresh_title_is_default:
  assumes "calendar_ok (rd_calendar rd)"
  shows "IsDefaultTitle (si_title (new_info env rd sid dir parent)) \<and> \<not> IsDefaultTitle (forkedTitle title)"
proof
  show "IsDefaultTitle (si_title (new_info env rd sid dir parent))"
    using stamp_matches [OF assms] by (simp add: new_info_def IsDefaultTitle_def has_prefix_iff Let_def)
  show "\<not> IsDefaultTitle (forkedTitle title)" using default_last fork_last by fastforce
qed

lemma fresh_title_is_default_witness:
  "IsDefaultTitle (si_title (new_info \<lparr>en_has_git = (\<lambda>p. False), en_version = ''1'', en_bus = (\<lambda>d. True)\<rparr>
     \<lparr>rd_now = 5, rd_calendar = \<lparr>cal_year = 2025, cal_month = 1, cal_day = 2, cal_hour = 3, cal_minute = 4, cal_second = 5,
       cal_milli = 6\<rparr>, rd_slug = [0]\<rparr> ''ses_1'' ''/w'' []))"
  by (rule fresh_title_is_default [THEN conjunct1]) (simp add: calendar_ok_def)

lemma fork_match_forked:
  assumes "t \<noteq> []" "CHR 0x0A \<notin> set t"
  shows "fork_match (t @ fork_mark @ itoa n @ '')'') = Some (t, itoa n)"
proof -
  have dig: "\<forall>c \<in> set (rev (itoa n)). is_digit c" "itoa n \<noteq> []" using itoa_digits [of n] by (auto simp: list_all_iff)
  have stop: "\<not> is_digit CHR ''#''" by (simp add: is_digit_def)
  have "takeWhile is_digit (rev (itoa n) @ rev fork_mark @ rev t) = rev (itoa n)"
    "dropWhile is_digit (rev (itoa n) @ rev fork_mark @ rev t) = rev fork_mark @ rev t"
    using takeWhile_append2 [of "rev (itoa n)" is_digit] dropWhile_append2 [of "rev (itoa n)" is_digit] dig(1) stop
    by (simp_all add: fork_mark_def)
  moreover have "rev (t @ fork_mark @ itoa n @ '')'') = CHR '')'' # (rev (itoa n) @ rev fork_mark @ rev t)" by simp
  ultimately have "fork_match (t @ fork_mark @ itoa n @ '')'') =
      (let ds = itoa n; front = t @ fork_mark; base = take (length front - length fork_mark) front
       in if ds \<noteq> [] \<and> has_suffix front fork_mark \<and> base \<noteq> [] \<and> CHR 0x0A \<notin> set base then Some (base, ds) else None)"
    unfolding fork_match_def by (simp only: list.case rev_append rev_rev_ident Let_def) simp
  then show ?thesis using assms dig(2) by (simp add: has_suffix_def has_prefix_iff Let_def)
qed

lemma forked_again:
  assumes "t \<noteq> []" "CHR 0x0A \<notin> set t" "int n < max64"
  shows "forkedTitle (t @ fork_mark @ itoa n @ '')'') = t @ fork_mark @ itoa (Suc n) @ '')''"
proof -
  have "wrap64 (int n + 1) = int n + 1" using assms(3) by (intro wrap64_id) auto
  moreover have "nat (int n + 1) = Suc n" by simp
  ultimately show ?thesis
    using assms(3) itoa_digits [of n]
    by (simp add: forkedTitle_def fork_match_forked [OF assms(1,2)] scan_int_def itoa_int_def)
qed

text \<open>
  Forks are counted: forking the fork of a session again and again numbers the titles one up each
  time, as long as the number fits a machine integer.
\<close>

theorem forks_are_counted:
  assumes "t \<noteq> []" "CHR 0x0A \<notin> set t" "fork_match t = None" "0 < n" "int n \<le> max64"
  shows "(forkedTitle ^^ n) t = t @ '' (fork #'' @ itoa n @ '')''"
  using assms(4,5)
proof (induction n rule: nat_induct_non_zero)
  case 1
  have "itoa 1 = ''1''" by code_simp
  then show ?case using assms(3) by (simp add: forkedTitle_def)
next
  case (Suc n)
  then have "(forkedTitle ^^ n) t = t @ fork_mark @ itoa n @ '')''" by (simp add: fork_mark_def)
  then show ?case using forked_again [OF assms(1,2), of n] Suc.prems by (simp add: fork_mark_def)
qed

lemma forks_are_counted_witness: "(forkedTitle ^^ 12) ''Fix the parser'' = ''Fix the parser (fork #12)''"
proof -
  have "fork_match ''Fix the parser'' = None" by code_simp
  moreover have "itoa 12 = ''12''" by code_simp
  ultimately show ?thesis using forks_are_counted [of "''Fix the parser''" 12] by (simp add: max64_def)
qed


subsection \<open>The list of sessions\<close>

definition row_key :: "session_row \<Rightarrow> int \<times> string" where
  "row_key r = (sr_updated r, sr_id r)"

lemma newest_first_set: "set (newest_first rows) = set rows" "length (newest_first rows) = length rows"
  by (simp_all add: newest_first_def)

lemma newest_first_sorted:
  assumes "distinct (map sr_id rows)"
  shows "sorted_wrt (\<lambda>a b. row_key b < row_key a) (newest_first rows)"
proof -
  let ?s = "sort_key row_key rows"
  have "distinct (map sr_id ?s)" using assms by (simp add: distinct_map)
  then have "distinct (map row_key ?s)" by (auto simp: distinct_map inj_on_def row_key_def)
  moreover have "sorted (map row_key ?s)" by simp
  ultimately have "sorted_wrt (<) (map row_key ?s)" by (simp add: strict_sorted_iff)
  then have "sorted_wrt (\<lambda>a b. row_key a < row_key b) ?s" by (simp add: sorted_wrt_map)
  then show ?thesis by (simp add: newest_first_def row_key_def [abs_def] sorted_wrt_rev)
qed

definition info_key :: "session_info \<Rightarrow> int \<times> string" where
  "info_key i = (si_updated i, si_id i)"

lemma info_key_scan [simp]: "info_key (scan_row r) = row_key r"
  by (simp add: info_key_def row_key_def scan_row_def)

text \<open>
  Listing returns the hundred sessions updated last, latest first: the list is strictly descending by
  the time of the update and then the id, and a stored session that is not on it comes after all
  that are.
\<close>

theorem session_list_newest:
  "let db = db_after env ops in
     length (session_List db) = min 100 (length (sb_rows db)) \<and>
     sorted_wrt (\<lambda>a b. info_key b < info_key a) (session_List db) \<and>
     list_all (\<lambda>r. scan_row r \<in> set (session_List db) \<or> list_all (\<lambda>i. row_key r < info_key i) (session_List db)) (sb_rows db)"
proof -
  let ?db = "db_after env ops" and ?n = "newest_first (sb_rows (db_after env ops))"
  have sorted: "sorted_wrt (\<lambda>a b. row_key b < row_key a) (take 100 ?n @ drop 100 ?n)"
    using newest_first_sorted db_after_ok [of env ops] by (simp add: db_ok_def)
  have "scan_row r \<in> set (session_List ?db) \<or> list_all (\<lambda>i. row_key r < info_key i) (session_List ?db)"
    if "r \<in> set (sb_rows ?db)" for r
  proof (cases "r \<in> set (take 100 ?n)")
    case True
    then show ?thesis by (simp add: session_List_def)
  next
    case False
    have "r \<in> set (take 100 ?n @ drop 100 ?n)" using that unfolding append_take_drop_id newest_first_set .
    then have "r \<in> set (drop 100 ?n)" using False unfolding set_append by blast
    then have "\<forall>x \<in> set (take 100 ?n). row_key r < row_key x" using sorted unfolding sorted_wrt_append by blast
    then show ?thesis by (auto simp: session_List_def list_all_iff)
  qed
  moreover have "sorted_wrt (\<lambda>a b. row_key b < row_key a) (take 100 ?n)" using sorted unfolding sorted_wrt_append by blast
  then have "sorted_wrt (\<lambda>a b. info_key b < info_key a) (session_List ?db)"
    unfolding session_List_def sorted_wrt_map info_key_scan .
  ultimately show ?thesis unfolding Let_def list_all_iff
    by (simp add: session_List_def newest_first_set min.commute)
qed

text \<open>
  Sessions of one millisecond are listed the wrong way round: identifiers descend over time while
  ties are broken by the larger identifier, so of two sessions created in the same millisecond the older
  one comes first, whereas a session created later comes before.
\<close>

theorem same_millisecond_older_first:
  assumes "id_run True ''ses'' [(t, r1), (t, r2)] init_id_state = [i1, i2]" "0 < t"
    "rd_now rd1 = t" "rd_now rd2 = t" "t < rd_now rd3"
  shows "map si_id (session_List (db_after env [OpCreate rd1 i1 d1, OpCreate rd2 i2 d2])) = [i1, i2] \<and>
    map si_id (session_List (db_after env [OpCreate rd1 i1 d1, OpCreate rd3 i2 d3])) = [i2, i1]"
proof -
  have "i2 < i1" using descending_ids_sort [of "[(t, r1), (t, r2)]" "''ses''"] assms(1,2) by simp
  then have ne: "i2 \<noteq> i1" by simp
  have rows: "map row_key (sb_rows (db_after env [OpCreate rd1 i1 d1, OpCreate rd i2 d])) = [(rd_now rd1, i1), (rd_now rd, i2)]" for rd d
    using ne by (simp add: run_op_def Create_def insert_publish_def insert_session_def empty_db_def new_info_def row_key_def Let_def)
  have keys: "map si_id (session_List db) = map snd (take 100 (rev (sort (map row_key (sb_rows db)))))" for db
  proof -
    have "sort (map row_key rows) = map row_key (sort_key row_key rows)" for rows
      using sort_key_map [of "\<lambda>x. x" row_key rows] by (simp add: comp_def)
    then show ?thesis
      by (simp add: session_List_def newest_first_def row_key_def [abs_def] comp_def take_map rev_map scan_row_def)
  qed
  show ?thesis unfolding keys rows using assms(3-5) \<open>i2 < i1\<close> by (auto dest: leD)
qed

lemma same_millisecond_older_first_witness:
  defines "env \<equiv> \<lparr>en_has_git = (\<lambda>p. False), en_version = ''1'', en_bus = (\<lambda>d. True)\<rparr>"
    and "rd \<equiv> \<lambda>t. \<lparr>rd_now = t, rd_calendar = \<lparr>cal_year = 2025, cal_month = 1, cal_day = 2, cal_hour = 3, cal_minute = 4,
      cal_second = 5, cal_milli = 6\<rparr>, rd_slug = [0]\<rparr>"
  shows "\<exists>i1 i2. id_run True ''ses'' [(1717000000000, [1]), (1717000000000, [0])] init_id_state = [i1, i2] \<and>
    map si_id (session_List (db_after env [OpCreate (rd 1717000000000) i1 ''/a'', OpCreate (rd 1717000000000) i2 ''/b''])) = [i1, i2]"
proof -
  obtain i1 i2 where ids: "id_run True ''ses'' [(1717000000000, [1]), (1717000000000, [0])] init_id_state = [i1, i2]"
    by (auto simp: case_prod_beta)
  from same_millisecond_older_first [OF ids, of "rd 1717000000000" "rd 1717000000000" "rd 1717000000001" env "''/a''" "''/b''"]
  show ?thesis using ids by (auto simp: rd_def)
qed

end
