(* ===== verification/FileTools.thy ===== *)
theory FileTools
  imports Processor GoLib
begin

text \<open>
  The built-in tools that read and change files (\<^verbatim>\<open>internal/engine/tool\<close>: \<^verbatim>\<open>files.go\<close>, \<^verbatim>\<open>patch.go\<close>,
  \<^verbatim>\<open>paths.go\<close>), the todo list (\<^verbatim>\<open>todo.go\<close>) and the time limit of \<^verbatim>\<open>bash.go\<close>. The file system is the
  map of the readable files' contents; which paths can be written is an argument. An operation that
  indexes a slice out of range is the value \<open>ToolPanic\<close>, as no caller recovers from it.
\<close>

subsection \<open>Results\<close>

datatype tool_error =
    InvalidInput
  | Missing string
  | ReadFailed string
  | WriteFailed string
  | OldStringAbsent
  | OldStringAmbiguous nat
  | NoFileHeaders
  | ContextMismatch int
  | HunkOverrun int
  | OtherError string

datatype 'a tool_out = ToolOk 'a | ToolErr tool_error | ToolPanic

fun tool_bind :: "'a tool_out \<Rightarrow> ('a \<Rightarrow> 'b tool_out) \<Rightarrow> 'b tool_out" where
  "tool_bind (ToolOk a) f = f a"
| "tool_bind (ToolErr e) f = ToolErr e"
| "tool_bind ToolPanic f = ToolPanic"

type_synonym files = "string \<rightharpoonup> string"

record tool_ctx =
  tx_session :: string
  tx_directory :: string

definition num_json :: "nat \<Rightarrow> json" where
  "num_json n = JNum (of_nat n)"

definition result_of :: "string \<Rightarrow> string \<Rightarrow> jmap \<Rightarrow> tool_result" where
  "result_of title output meta =
     \<lparr>tr_output = output, tr_title = title, tr_meta = Some meta, tr_attachments = []\<rparr>"

definition resolve :: "tool_ctx \<Rightarrow> string \<Rightarrow> string" where
  "resolve tx p =
     (if is_abs p then path_clean p
      else path_join (if tx_directory tx = '''' then ''.'' else tx_directory tx) p)"

definition relTitle :: "tool_ctx \<Rightarrow> string \<Rightarrow> string" where
  "relTitle tx p =
     (if tx_directory tx = '''' then p
      else (case path_rel (tx_directory tx) p of
              Some rel \<Rightarrow> if has_prefix rel ''..'' then p else rel
            | None \<Rightarrow> p))"

subsection \<open>Reading\<close>

definition defaultReadLimit :: int where
  "defaultReadLimit = 2000"

definition newline :: char where
  "newline = CHR 0x0A"

text \<open>The loop from \<open>i\<close> to \<open>stop\<close>; a negative index panics at its first round.\<close>

fun number_lines :: "nat \<Rightarrow> string list \<Rightarrow> string" where
  "number_lines i [] = ''''"
| "number_lines i (l # ls) = itoa (Suc i) @ [CHR 0x09] @ l @ [newline] @ number_lines (Suc i) ls"

definition read_window :: "int \<Rightarrow> int \<Rightarrow> string list \<Rightarrow> string tool_out" where
  "read_window offset limit0 lines =
     (let limit = (if limit0 \<le> 0 then defaultReadLimit else limit0);
          stop = (if wrap64 (offset + limit) > int (length lines) then int (length lines) else wrap64 (offset + limit))
      in if offset < stop \<and> offset < 0 then ToolPanic
         else if offset < stop then ToolOk (number_lines (nat offset) (take (nat (stop - offset)) (drop (nat offset) lines)))
         else ToolOk '''')"

definition Read_Run :: "files \<Rightarrow> jmap option \<Rightarrow> tool_ctx \<Rightarrow> tool_result tool_out" where
  "Read_Run fs inp tx =
     (case (dec_string ''filePath'' inp, dec_int ''offset'' inp, dec_int ''limit'' inp) of
        (Some filePath, Some offset, Some limit) \<Rightarrow>
          if filePath = '''' then ToolErr (Missing ''filePath'')
          else
            (let path = resolve tx filePath
             in case fs path of
                  None \<Rightarrow> ToolErr (ReadFailed path)
                | Some dat \<Rightarrow>
                    (let lines = split_on newline dat
                     in tool_bind (read_window offset limit lines)
                          (\<lambda>out. ToolOk (result_of (relTitle tx path) out
                             [(''path'', JStr path), (''lines'', num_json (length lines))]))))
      | _ \<Rightarrow> ToolErr InvalidInput)"

subsection \<open>Writing and editing\<close>

definition write_file :: "(string \<Rightarrow> bool) \<Rightarrow> string \<Rightarrow> string \<Rightarrow> files \<Rightarrow> files tool_out" where
  "write_file can path content fs = (if can path then ToolOk (fs(path \<mapsto> content)) else ToolErr (WriteFailed path))"

definition Write_Run ::
  "(string \<Rightarrow> bool) \<Rightarrow> files \<Rightarrow> jmap option \<Rightarrow> tool_ctx \<Rightarrow> (tool_result \<times> files) tool_out" where
  "Write_Run can fs inp tx =
     (case (dec_string ''filePath'' inp, dec_string ''content'' inp) of
        (Some filePath, Some content) \<Rightarrow>
          if filePath = '''' then ToolErr (Missing ''filePath'')
          else
            (let path = resolve tx filePath
             in tool_bind (write_file can path content fs)
                  (\<lambda>fs'. ToolOk (result_of (relTitle tx path)
                     (''Wrote '' @ itoa (length content) @ '' bytes to '' @ path)
                     [(''path'', JStr path), (''bytes'', num_json (length content))], fs')))
      | _ \<Rightarrow> ToolErr InvalidInput)"

definition replaced :: "nat \<Rightarrow> bool \<Rightarrow> nat" where
  "replaced n all = (if all then n else 1)"

definition edit_text :: "bool \<Rightarrow> string \<Rightarrow> string \<Rightarrow> string \<Rightarrow> (nat \<times> string) tool_out" where
  "edit_text all old new content =
     (let found = count_str content old
      in if found = 0 then ToolErr OldStringAbsent
         else if 1 < found \<and> \<not> all then ToolErr (OldStringAmbiguous found)
         else ToolOk (replaced found all,
                if all then replace_all content old new else replace_first content old new))"

definition Edit_Run ::
  "(string \<Rightarrow> bool) \<Rightarrow> files \<Rightarrow> jmap option \<Rightarrow> tool_ctx \<Rightarrow> (tool_result \<times> files) tool_out" where
  "Edit_Run can fs inp tx =
     (case (dec_string ''filePath'' inp, dec_string ''oldString'' inp, dec_string ''newString'' inp,
            dec_bool ''replaceAll'' inp) of
        (Some filePath, Some old, Some new, Some all) \<Rightarrow>
          if filePath = '''' \<or> old = '''' then ToolErr (Missing ''filePath and oldString'')
          else
            (let path = resolve tx filePath
             in case fs path of
                  None \<Rightarrow> ToolErr (ReadFailed path)
                | Some content \<Rightarrow>
                    tool_bind (edit_text all old new content) (\<lambda>(n, updated).
                      tool_bind (write_file can path updated fs) (\<lambda>fs'.
                        ToolOk (result_of (relTitle tx path)
                          (''Replaced '' @ itoa n @ '' occurrence(s) in '' @ path)
                          [(''path'', JStr path), (''replacements'', num_json n)], fs'))))
      | _ \<Rightarrow> ToolErr InvalidInput)"

subsection \<open>Patches\<close>

definition trim_prefix :: "string \<Rightarrow> string \<Rightarrow> string" where
  "trim_prefix s p = (if has_prefix s p then drop (length p) s else s)"

definition stripDiffPrefix :: "string \<Rightarrow> string" where
  "stripDiffPrefix p = trim_prefix (trim_prefix (trim_space p) ''a/'') ''b/''"

fun split_diff :: "string list \<Rightarrow> string \<Rightarrow> (string, string list) gomap \<Rightarrow> (string, string list) gomap" where
  "split_diff [] cur out = out"
| "split_diff (line # ls) cur out =
     (if has_prefix line ''--- '' then split_diff ls cur out
      else if has_prefix line ''+++ '' then split_diff ls (stripDiffPrefix (trim_prefix line ''+++ '')) out
      else if cur \<noteq> '''' then
        split_diff ls cur (gm_put cur ((case gm_get out cur of None \<Rightarrow> [] | Some hs \<Rightarrow> hs) @ [line]) out)
      else split_diff ls cur out)"

definition splitDiffByFile :: "string \<Rightarrow> (string, string list) gomap" where
  "splitDiffByFile diff = split_diff (split_on newline diff) '''' []"

text \<open>
  The header \<^verbatim>\<open>@@ -a,b +c,d @@\<close>: the regular expression's first group, the digits of \<^verbatim>\<open>a\<close>. After
  the digits only a comma or the following text can match, so reading it from left to right is
  the expression's match.
\<close>

definition opt_count :: "string \<Rightarrow> string" where
  \<comment> \<open>past \<^verbatim>\<open>(?:,(\d+))?\<close>\<close>
  "opt_count s =
     (case s of
        c # t \<Rightarrow> if c = CHR '','' \<and> takeWhile is_digit t \<noteq> [] then dropWhile is_digit t else s
      | [] \<Rightarrow> s)"

definition hunk_start :: "string \<Rightarrow> string option" where
  "hunk_start line =
     (if \<not> has_prefix line ''@@ -'' then None
      else
        (let s = drop 4 line; ds = takeWhile is_digit s; s1 = opt_count (dropWhile is_digit s)
         in if ds = [] \<or> \<not> has_prefix s1 '' +'' then None
            else
              (let t = drop 2 s1; es = takeWhile is_digit t; t1 = opt_count (dropWhile is_digit t)
               in if es = [] \<or> \<not> has_prefix t1 '' @@'' then None else Some ds)))"

record hunk_body =
  hb_replacement :: "string list"
  hb_consumed :: int

text \<open>The inner loop: the lines of one hunk, up to the next header, and the lines left.\<close>

fun hunk_lines ::
  "string list \<Rightarrow> int \<Rightarrow> string list \<Rightarrow> hunk_body \<Rightarrow> (hunk_body \<times> string list) tool_out" where
  "hunk_lines result pos [] b = ToolOk (b, [])"
| "hunk_lines result pos (hl # hls) b =
     (if hunk_start hl \<noteq> None then ToolOk (b, hl # hls)
      else if has_prefix hl ''+'' then
        hunk_lines result pos hls (b\<lparr>hb_replacement := hb_replacement b @ [tl hl]\<rparr>)
      else if has_prefix hl ''-'' \<or> has_prefix hl '' '' then
        (let idx = wrap64 (pos + hb_consumed b)
         in if idx \<ge> int (length result) then ToolErr (ContextMismatch (wrap64 (idx + 1)))
            else if idx < 0 then ToolPanic
            else if result ! nat idx \<noteq> tl hl then ToolErr (ContextMismatch (wrap64 (idx + 1)))
            else if has_prefix hl ''-'' then hunk_lines result pos hls (b\<lparr>hb_consumed := hb_consumed b + 1\<rparr>)
            else hunk_lines result pos hls
                   (b\<lparr>hb_replacement := hb_replacement b @ [result ! nat idx], hb_consumed := hb_consumed b + 1\<rparr>))
      else hunk_lines result pos hls b)"

lemma hunk_lines_shorter:
  "hunk_lines result pos hls b = ToolOk (b', rest) \<Longrightarrow> length rest \<le> length hls"
  by (induction result pos hls b rule: hunk_lines.induct) (auto simp: Let_def split: if_splits)

definition splice :: "string list \<Rightarrow> int \<Rightarrow> hunk_body \<Rightarrow> string list tool_out" where
  \<comment> \<open>\<^verbatim>\<open>result[:pos]\<close>, the replacement, \<^verbatim>\<open>result[pos+consumed:]\<close>\<close>
  "splice result pos b =
     (let stop = wrap64 (pos + hb_consumed b)
      in if stop > int (length result) then ToolErr (HunkOverrun stop)
         else if stop < 0 \<or> pos < 0 \<or> pos > int (length result) then ToolPanic
         else ToolOk (take (nat pos) result @ hb_replacement b @ drop (nat stop) result))"

function apply_from :: "string list \<Rightarrow> int \<Rightarrow> string list \<Rightarrow> string list tool_out" where
  "apply_from result offset [] = ToolOk result"
| "apply_from result offset (hl # hls) =
     (case hunk_start hl of
        None \<Rightarrow> apply_from result offset hls
      | Some ds \<Rightarrow>
          (let pos = wrap64 (wrap64 (atoi_digits ds - 1) + offset)
           in case hunk_lines result pos hls \<lparr>hb_replacement = [], hb_consumed = 0\<rparr> of
                ToolErr e \<Rightarrow> ToolErr e
              | ToolPanic \<Rightarrow> ToolPanic
              | ToolOk (b, rest) \<Rightarrow>
                  (case splice result pos b of
                     ToolErr e \<Rightarrow> ToolErr e
                   | ToolPanic \<Rightarrow> ToolPanic
                   | ToolOk result' \<Rightarrow>
                       apply_from result' (offset + int (length (hb_replacement b)) - hb_consumed b) rest)))"
  by pat_completeness auto
termination
  by (relation "measure (\<lambda>(result, offset, hls). length hls)")
    (auto dest!: hunk_lines_shorter)

declare apply_from.simps [simp del]

definition applyHunks :: "string list \<Rightarrow> string list \<Rightarrow> string list tool_out" where
  "applyHunks lines hls = apply_from lines 0 hls"

fun patch_files ::
  "(string \<Rightarrow> bool) \<Rightarrow> tool_ctx \<Rightarrow> (string, string list) gomap \<Rightarrow> string list \<Rightarrow> string list \<Rightarrow> files
   \<Rightarrow> string list tool_out \<times> files"
where
  "patch_files can tx hunks [] changed fs = (ToolOk changed, fs)"
| "patch_files can tx hunks (path # ps) changed fs =
     (let full = resolve tx path in
      case fs full of
        None \<Rightarrow> (ToolErr (ReadFailed full), fs)
      | Some dat \<Rightarrow>
          (case applyHunks (split_on newline dat) (case gm_get hunks path of None \<Rightarrow> [] | Some hs \<Rightarrow> hs) of
             ToolErr e \<Rightarrow> (ToolErr e, fs)
           | ToolPanic \<Rightarrow> (ToolPanic, fs)
           | ToolOk updated \<Rightarrow>
               if can full
               then patch_files can tx hunks ps (changed @ [path]) (fs(full \<mapsto> str_join updated [newline]))
               else (ToolErr (WriteFailed full), fs)))"

text \<open>
  The files are patched one after the other, in the order \<open>ord\<close> in which the map is ranged over;
  an error in one leaves those before it changed.
\<close>

definition Patch_Run ::
  "(string list \<Rightarrow> string list) \<Rightarrow> (string \<Rightarrow> bool) \<Rightarrow> files \<Rightarrow> jmap option \<Rightarrow> tool_ctx
   \<Rightarrow> tool_result tool_out \<times> files"
where
  "Patch_Run ord can fs inp tx =
     (case dec_string ''patch'' inp of
        None \<Rightarrow> (ToolErr InvalidInput, fs)
      | Some diff \<Rightarrow>
          if trim_space diff = '''' then (ToolErr (Missing ''patch''), fs)
          else
            (let hunks = splitDiffByFile diff
             in if hunks = [] then (ToolErr NoFileHeaders, fs)
                else (case patch_files can tx hunks (ord (gm_keys hunks)) [] fs of (r, fs') \<Rightarrow>
                  (tool_bind r (\<lambda>changed. ToolOk (result_of ''patch''
                     (''Patched '' @ itoa (length changed) @ '' file(s): '' @ str_join changed '', '')
                     [(''files'', JArr (map JStr changed))])), fs'))))"

subsection \<open>The todo list\<close>

record todo_item =
  td_id :: string
  td_content :: string
  td_status :: string
  td_priority :: string

type_synonym todo_store = "(string, todo_item list) gomap"

definition NewTodoStore :: todo_store where
  "NewTodoStore = []"

definition todo_Set :: "string \<Rightarrow> todo_item list \<Rightarrow> todo_store \<Rightarrow> todo_store" where
  "todo_Set sid items st = gm_put sid items st"

definition todo_Get :: "string \<Rightarrow> todo_store \<Rightarrow> todo_item list" where
  "todo_Get sid st = (case gm_get st sid of None \<Rightarrow> [] | Some items \<Rightarrow> items)"

definition todo_text :: "todo_item list \<Rightarrow> string" where
  "todo_text items =
     concat (map (\<lambda>i. ''- ['' @ td_status i @ ''] '' @ td_content i @ [newline]) items)"

subsection \<open>The time limit of a command\<close>

text \<open>Durations are 64-bit counts of nanoseconds.\<close>

definition defaultBashTimeout :: int where
  "defaultBashTimeout = 60 * 10 ^ 9"

definition maxBashTimeout :: int where
  "maxBashTimeout = 600 * 10 ^ 9"

definition bash_timeout :: "int \<Rightarrow> int" where
  "bash_timeout ms =
     (if ms > 0
      then (let t = wrap64 (ms * 10 ^ 6) in if t > maxBashTimeout then maxBashTimeout else t)
      else defaultBashTimeout)"

subsection \<open>Editing\<close>

text \<open>
  An edit without \<^verbatim>\<open>replaceAll\<close> that succeeds found its old string exactly once, and the new
  text is the old one with that occurrence replaced and nothing else changed; with \<^verbatim>\<open>replaceAll\<close>
  the same text results when there is one occurrence. It fails only when the string is absent or
  occurs more than once.
\<close>

theorem edit_replaces_unique:
  assumes "old \<noteq> ''''"
  shows "case edit_text False old new content of
      ToolOk (n, updated) \<Rightarrow> n = 1 \<and> count_str content old = 1 \<and> edit_text True old new content = ToolOk (1, updated) \<and>
        (\<exists>a b. content = a @ old @ b \<and> updated = a @ new @ b \<and> \<not> str_contains b old)
    | ToolErr OldStringAbsent \<Rightarrow> \<not> str_contains content old
    | ToolErr e \<Rightarrow> e = OldStringAmbiguous (count_str content old) \<and> 1 < count_str content old
    | ToolPanic \<Rightarrow> False"
proof -
  consider "count_str content old = 0" | "count_str content old = 1" | "1 < count_str content old"
    by linarith
  then show ?thesis
  proof cases
    case 1
    then show ?thesis using count_zero [OF assms] by (simp add: edit_text_def)
  next
    case 2
    with replace_first_splits [OF assms, of content 0 new] obtain a b where
      "content = a @ old @ b" "replace_first content old new = a @ new @ b" "count_str b old = 0"
      by auto
    moreover from this have "\<not> str_contains b old" using count_zero [OF assms] by simp
    ultimately show ?thesis
      using 2 replace_once_is_all [OF assms 2] by (auto simp: edit_text_def replaced_def Let_def)
  next
    case 3
    then show ?thesis by (simp add: edit_text_def)
  qed
qed

theorem edit_replaces_unique_witness:
  "edit_text True ''b'' ''x'' ''abc'' = ToolOk (1, ''axc'')"
proof -
  have "edit_text False ''b'' ''x'' ''abc'' = ToolOk (1, ''axc'')"
    by (simp add: edit_text_def replaced_def)
  then show ?thesis
    using edit_replaces_unique [where old = "''b''" and new = "''x''" and content = "''abc''"] by simp
qed

subsection \<open>Patches as unified diffs\<close>

text \<open>
  A diff between two files as segments: lines left alone, then a hunk of kept, deleted and added
  lines. \<open>diff_text\<close> is the unified diff of the segments, \<open>n\<close> and \<open>m\<close> the lines before them in
  the two files; as the format prescribes, an empty side is given by the line before it.
\<close>

datatype diff_line = Same string | Del string | Add string

type_synonym segment = "string list \<times> diff_line list"

fun render_line :: "diff_line \<Rightarrow> string" where
  "render_line (Same l) = '' '' @ l"
| "render_line (Del l) = ''-'' @ l"
| "render_line (Add l) = ''+'' @ l"

fun old_side :: "diff_line list \<Rightarrow> string list" where
  "old_side [] = []"
| "old_side (Add l # ls) = old_side ls"
| "old_side (Same l # ls) = l # old_side ls"
| "old_side (Del l # ls) = l # old_side ls"

fun new_side :: "diff_line list \<Rightarrow> string list" where
  "new_side [] = []"
| "new_side (Del l # ls) = new_side ls"
| "new_side (Same l # ls) = l # new_side ls"
| "new_side (Add l # ls) = l # new_side ls"

definition range_text :: "nat \<Rightarrow> string list \<Rightarrow> string" where
  "range_text before ls = itoa (if ls = [] then before else Suc before) @ '','' @ itoa (length ls)"

definition hunk_header :: "nat \<Rightarrow> nat \<Rightarrow> diff_line list \<Rightarrow> string" where
  "hunk_header n m body =
     ''@@ -'' @ range_text n (old_side body) @ '' +'' @ range_text m (new_side body) @ '' @@''"

fun diff_text :: "nat \<Rightarrow> nat \<Rightarrow> segment list \<Rightarrow> string list" where
  "diff_text n m [] = []"
| "diff_text n m ((gap, body) # segs) =
     hunk_header (n + length gap) (m + length gap) body # map render_line body @
     diff_text (n + length gap + length (old_side body)) (m + length gap + length (new_side body)) segs"

fun old_file :: "segment list \<Rightarrow> string list \<Rightarrow> string list" where
  "old_file [] rest = rest"
| "old_file ((gap, body) # segs) rest = gap @ old_side body @ old_file segs rest"

fun new_file :: "segment list \<Rightarrow> string list \<Rightarrow> string list" where
  "new_file [] rest = rest"
| "new_file ((gap, body) # segs) rest = gap @ new_side body @ new_file segs rest"

lemma take_digits:
  assumes "list_all is_digit ds" "t = [] \<or> \<not> is_digit (hd t)"
  shows "takeWhile is_digit (ds @ t) = ds" "dropWhile is_digit (ds @ t) = t"
  using assms by (induction ds) (cases t; auto)+

lemma opt_count_itoa: "t = [] \<or> \<not> is_digit (hd t) \<Longrightarrow> opt_count ('','' @ itoa n @ t) = t"
  using itoa_digits [of n] take_digits [of "itoa n" t] by (simp add: opt_count_def)

lemma no_digits: "\<not> is_digit (CHR '','')" "\<not> is_digit (CHR '' '')"
  by (simp_all add: is_digit_def)

lemma hunk_start_header: "hunk_start (hunk_header n m body) = Some (itoa (if old_side body = [] then n else Suc n))"
proof -
  let ?a = "itoa (if old_side body = [] then n else Suc n)"
  let ?c = "itoa (if new_side body = [] then m else Suc m)"
  let ?b = "itoa (length (old_side body))" and ?d = "itoa (length (new_side body))"
  have digits: "list_all is_digit ?a" "list_all is_digit ?c" "?a \<noteq> []" "?c \<noteq> []"
    using itoa_digits by blast+
  have h: "hunk_header n m body = ''@@ -'' @ ?a @ '','' @ ?b @ '' +'' @ ?c @ '','' @ ?d @ '' @@''"
    by (simp add: hunk_header_def range_text_def)
  have 1: "takeWhile is_digit (?a @ '','' @ ?b @ '' +'' @ ?c @ '','' @ ?d @ '' @@'') = ?a"
    "dropWhile is_digit (?a @ '','' @ ?b @ '' +'' @ ?c @ '','' @ ?d @ '' @@'') = '','' @ ?b @ '' +'' @ ?c @ '','' @ ?d @ '' @@''"
    using take_digits [OF digits(1), of "'','' @ ?b @ '' +'' @ ?c @ '','' @ ?d @ '' @@''"] no_digits by auto
  have 2: "opt_count ('','' @ ?b @ '' +'' @ ?c @ '','' @ ?d @ '' @@'') = '' +'' @ ?c @ '','' @ ?d @ '' @@''"
    by (rule opt_count_itoa) (simp add: no_digits)
  have 3: "takeWhile is_digit (?c @ '','' @ ?d @ '' @@'') = ?c"
    "dropWhile is_digit (?c @ '','' @ ?d @ '' @@'') = '','' @ ?d @ '' @@''"
    using take_digits [OF digits(2), of "'','' @ ?d @ '' @@''"] no_digits by auto
  have 4: "opt_count ('','' @ ?d @ '' @@'') = '' @@''"
    by (rule opt_count_itoa) (simp add: no_digits)
  have "drop 4 (''@@ -'' @ t) = t" "drop 2 ('' +'' @ t) = t" for t :: string by simp_all
  then show ?thesis
    unfolding hunk_start_def h Let_def
    by (simp only: 1 2 3 4 has_prefix_iff digits append_assoc) simp
qed

lemma hunk_start_body: "hunk_start (render_line l) = None"
  by (cases l) (simp_all add: hunk_start_def)

definition no_body :: "string list \<Rightarrow> bool" where
  "no_body tail = (tail = [] \<or> hunk_start (hd tail) \<noteq> None)"

lemma hunk_lines_body:
  assumes "pos + hb_consumed b = int (length pre)" "0 \<le> hb_consumed b"
    "result = pre @ old_side body @ post" "int (length result) < 2 ^ 62" "no_body tail"
  shows "hunk_lines result pos (map render_line body @ tail) b =
    ToolOk (b\<lparr>hb_replacement := hb_replacement b @ new_side body,
              hb_consumed := hb_consumed b + int (length (old_side body))\<rparr>, tail)"
  using assms
proof (induction body arbitrary: b pre)
  case Nil
  then show ?case by (cases tail) (auto simp: no_body_def)
next
  case (Cons l body)
  have step: ?case if l: "l = Same x \<or> l = Del x" for x
  proof -
    have len: "length pre < length result" using Cons.prems(3) l by auto
    then have idx: "wrap64 (pos + hb_consumed b) = int (length pre)"
      using Cons.prems(1,4) by (simp add: wrap64_id max64_def)
    have at: "result ! length pre = x" using Cons.prems(3) l by (auto simp: nth_append)
    let ?b = "b\<lparr>hb_replacement := hb_replacement b @ (if l = Same x then [x] else []), hb_consumed := hb_consumed b + 1\<rparr>"
    have "hunk_lines result pos (map render_line body @ tail) ?b =
      ToolOk (?b\<lparr>hb_replacement := hb_replacement ?b @ new_side body,
              hb_consumed := hb_consumed ?b + int (length (old_side body))\<rparr>, tail)"
      by (rule Cons.IH [of _ "pre @ [x]"]) (use Cons.prems l in auto)
    with l idx at len show ?thesis
      using hunk_start_body [of l] by (auto simp: Let_def add.assoc)
  qed
  show ?case
  proof (cases l)
    case (Add x)
    let ?b = "b\<lparr>hb_replacement := hb_replacement b @ [x]\<rparr>"
    have "hunk_lines result pos (map render_line body @ tail) ?b =
      ToolOk (?b\<lparr>hb_replacement := hb_replacement ?b @ new_side body,
              hb_consumed := hb_consumed ?b + int (length (old_side body))\<rparr>, tail)"
      by (rule Cons.IH) (use Cons.prems Add in auto)
    then show ?thesis using hunk_start_body [of l] Add by simp
  qed (use step in blast)+
qed

lemma no_body_diff: "no_body (diff_text n m segs)"
  by (cases segs) (auto simp: no_body_def hunk_start_header)

lemma apply_diff:
  assumes "list_all (\<lambda>(gap, body). old_side body \<noteq> []) segs"
    "int (length acc + length (old_file segs rest) + length (new_file segs rest)) < 2 ^ 62"
    "int (n + length (old_file segs rest)) < 2 ^ 62"
  shows "apply_from (acc @ old_file segs rest) (int (length acc) - int n) (diff_text n m segs) =
    ToolOk (acc @ new_file segs rest)"
  using assms
proof (induction segs arbitrary: acc n m)
  case Nil
  then show ?case by (simp add: apply_from.simps)
next
  case (Cons seg segs)
  obtain gap body where seg: "seg = (gap, body)" by (cases seg)
  have ne: "old_side body \<noteq> []" using Cons.prems(1) seg by simp
  let ?pre = "acc @ gap" and ?post = "old_file segs rest" and ?n = "n + length gap"
  let ?result = "?pre @ old_side body @ ?post"
  let ?tail = "diff_text (?n + length (old_side body)) (m + length gap + length (new_side body)) segs"
  have len: "int (length ?result) < 2 ^ 62" "int (Suc ?n) < 2 ^ 62"
    using Cons.prems(2,3) seg ne by (simp_all, cases "old_side body") auto
  have start: "atoi_digits (itoa (Suc ?n)) = int (Suc ?n)"
    using itoa_digits len(2) by (simp add: atoi_digits_def max64_def)
  have pos: "wrap64 (wrap64 (atoi_digits (itoa (Suc ?n)) - 1) + (int (length acc) - int n)) = int (length ?pre)"
    using len Cons.prems(2) unfolding start by (simp add: wrap64_id max64_def)
  let ?b = "\<lparr>hb_replacement = new_side body, hb_consumed = int (length (old_side body))\<rparr>"
  have body: "hunk_lines ?result (int (length ?pre)) (map render_line body @ ?tail) \<lparr>hb_replacement = [], hb_consumed = 0\<rparr>
      = ToolOk (?b, ?tail)"
    using hunk_lines_body [of "int (length ?pre)" "\<lparr>hb_replacement = [], hb_consumed = 0\<rparr>" ?pre ?result body ?post ?tail]
      len no_body_diff by simp
  have stop: "wrap64 (int (length ?pre) + int (length (old_side body))) = int (length (?pre @ old_side body))"
    using len by (simp add: wrap64_id max64_def)
  have splice: "splice ?result (int (length ?pre)) ?b = ToolOk (?pre @ new_side body @ ?post)"
    by (simp add: splice_def stop Let_def del: length_append of_nat_add) simp
  have "apply_from ((?pre @ new_side body) @ ?post)
      (int (length (?pre @ new_side body)) - int (?n + length (old_side body))) ?tail
    = ToolOk ((?pre @ new_side body) @ new_file segs rest)"
    by (rule Cons.IH) (use Cons.prems seg in auto)
  then have "apply_from (?pre @ new_side body @ ?post)
      (int (length acc) - int n + int (length (new_side body)) - int (length (old_side body))) ?tail
    = ToolOk (?pre @ new_side body @ new_file segs rest)"
    by (simp add: algebra_simps)
  then have "apply_from ?result (int (length acc) - int n)
      (hunk_header ?n (m + length gap) body # map render_line body @ ?tail) = ToolOk (?pre @ new_side body @ new_file segs rest)"
    unfolding apply_from.simps(2) hunk_start_header using ne
    by (simp only: if_False option.case Let_def pos body tool_out.case prod.case splice hunk_body.simps)
  then show ?case by (simp add: seg)
qed

lemma apply_diff_file:
  assumes "list_all (\<lambda>(gap, body). old_side body \<noteq> []) segs"
    "length (old_file segs rest) + length (new_file segs rest) < 2 ^ 62"
  shows "applyHunks (old_file segs rest) (diff_text 0 0 segs) = ToolOk (new_file segs rest)"
proof -
  have "int (length (old_file segs rest) + length (new_file segs rest)) < 2 ^ 62"
    using assms(2) by (simp only: of_nat_less_numeral_power_cancel_iff)
  then show ?thesis
    using apply_diff [OF assms(1), of "[]" rest 0 0] by (simp add: applyHunks_def)
qed

text \<open>What must hold of the lines for a textual diff to carry them.\<close>

definition plain_line :: "string \<Rightarrow> bool" where
  "plain_line l = (newline \<notin> set l \<and> \<not> has_prefix l ''--- '' \<and> \<not> has_prefix l ''+++ '')"

definition plain_segs :: "segment list \<Rightarrow> bool" where
  "plain_segs segs = list_all (\<lambda>(gap, body). list_all (\<lambda>l. plain_line (render_line l)) body) segs"

lemma split_diff_plain:
  assumes "cur \<noteq> ''''"
  shows "list_all plain_line ls \<Longrightarrow> ls \<noteq> [] \<Longrightarrow> split_diff ls cur [] = [(cur, ls)]"
    "list_all plain_line ls \<Longrightarrow> split_diff ls cur [(cur, hs)] = [(cur, hs @ ls)]"
proof -
  show more: "split_diff ls cur [(cur, hs)] = [(cur, hs @ ls)]" if "list_all plain_line ls" for ls hs
    using that assms by (induction ls arbitrary: hs) (auto simp: plain_line_def)
  show "split_diff ls cur [] = [(cur, ls)]" if "list_all plain_line ls" "ls \<noteq> []" for ls
    using that assms more by (cases ls) (auto simp: plain_line_def)
qed

lemma digits_no_newline: "list_all is_digit ds \<Longrightarrow> newline \<notin> set ds"
  by (induction ds) (auto simp: is_digit_def newline_def)

lemma header_plain: "plain_line (hunk_header n m body)"
proof -
  have "newline \<notin> set (itoa k)" for k
    using itoa_digits [of k] digits_no_newline by blast
  then show ?thesis
    unfolding plain_line_def hunk_header_def range_text_def by (auto simp: newline_def)
qed

lemma diff_text_plain: "plain_segs segs \<Longrightarrow> list_all plain_line (diff_text n m segs)"
  by (induction n m segs rule: diff_text.induct) (auto simp: plain_segs_def header_plain list_all_iff)

definition diff_file :: "string \<Rightarrow> segment list \<Rightarrow> string" where
  "diff_file f segs = str_join ((''--- a/'' @ f) # (''+++ b/'' @ f) # diff_text 0 0 segs) [newline]"

lemma split_diff_file:
  assumes "newline \<notin> set f" "f \<noteq> ''''" "stripDiffPrefix (''b/'' @ f) = f" "plain_segs segs" "segs \<noteq> []"
  shows "splitDiffByFile (diff_file f segs) = [(f, diff_text 0 0 segs)]"
proof -
  have "list_all (\<lambda>l. newline \<notin> set l) ((''--- a/'' @ f) # (''+++ b/'' @ f) # diff_text 0 0 segs)"
    using diff_text_plain [OF assms(4), of 0 0] assms(1)
    by (auto simp: list_all_iff plain_line_def newline_def)
  from split_join [OF _ this] have "split_on newline (diff_file f segs)
      = (''--- a/'' @ f) # (''+++ b/'' @ f) # diff_text 0 0 segs"
    by (simp add: diff_file_def)
  moreover have "diff_text 0 0 segs \<noteq> []" using assms(5) by (cases segs) auto
  ultimately show ?thesis
    using split_diff_plain(1) [OF assms(2) diff_text_plain [OF assms(4), of 0 0]] assms(3)
    by (simp add: splitDiffByFile_def trim_prefix_def)
qed

lemma strip_one_suffix: "strip_one qs s = Some t \<Longrightarrow> \<exists>q \<in> set qs. s = q @ t"
  by (induction qs) (auto simp: has_prefix_iff split: if_splits)

lemma trim_seqs_keeps:
  "list_all (\<lambda>q. c \<notin> set q) qs \<Longrightarrow> c \<in> set s \<Longrightarrow> c \<in> set (trim_seqs qs s)"
proof (induction qs s rule: trim_seqs.induct)
  case (1 qs s)
  show ?case
  proof (cases "strip_one qs s")
    case None
    then show ?thesis using "1.prems" by (simp add: trim_seqs.simps [of qs s])
  next
    case (Some t)
    then obtain q where "q \<in> set qs" "s = q @ t" using strip_one_suffix by blast
    then have "c \<in> set t" using "1.prems" by (auto simp: list_all_iff)
    then show ?thesis using "1.IH" [OF Some] "1.prems"(1) Some by (simp add: trim_seqs.simps [of qs s])
  qed
qed

lemma trim_space_dash: "CHR ''-'' \<in> set s \<Longrightarrow> trim_space s \<noteq> ''''"
proof -
  assume s: "CHR ''-'' \<in> set s"
  have seqs: "list_all (\<lambda>q. CHR ''-'' \<notin> set q) space_seqs" by (simp add: space_seqs_def)
  then have "list_all (\<lambda>q. CHR ''-'' \<notin> set q) (map rev space_seqs)" by (simp add: list_all_iff)
  from trim_seqs_keeps [OF this, of "rev (trim_seqs space_seqs s)"] trim_seqs_keeps [OF seqs s]
  have "CHR ''-'' \<in> set (trim_space s)" by (simp add: trim_space_def)
  then show ?thesis by auto
qed

lemma dec_patch: "dec_string ''patch'' (Some [(''patch'', JStr d)]) = Some d"
  by (rule dec_single) (simp add: field_values_def)


definition demo_ctx :: tool_ctx where
  "demo_ctx = \<lparr>tx_session = ''s'', tx_directory = ''/w''\<rparr>"

definition demo_segs :: "segment list" where
  "demo_segs = [([''a''], [Del ''b'', Add ''x'', Add ''y'']), ([''c''], [Same ''d'', Add ''z''])]"


text \<open>
  A hunk that only inserts, without context, is put one line too early, and at the start of a
  file it crashes: the range of an empty side names the line before it, and \<^verbatim>\<open>applyHunks\<close> takes it
  for the line at which the hunk starts.
\<close>

theorem insertion_hunk_misplaced:
  assumes "length gap + length rest < 2 ^ 62"
  shows "applyHunks (gap @ rest) (diff_text 0 0 [(gap, [Add x])]) =
    (if gap = [] then ToolPanic else ToolOk (butlast gap @ x # last gap # rest))"
proof -
  have len: "int (length gap) + int (length rest) < 2 ^ 62"
    using assms by (metis of_nat_add of_nat_less_numeral_power_cancel_iff)
  have start: "atoi_digits (itoa (length gap)) = int (length gap)"
    using itoa_digits len by (simp add: atoi_digits_def max64_def)
  have pos: "wrap64 (wrap64 (atoi_digits (itoa (length gap)) - 1) + 0) = int (length gap) - 1"
    unfolding start using len by (simp add: wrap64_id max64_def)
  have stop: "wrap64 (int (length gap) - 1 + 0) = int (length gap) - 1"
    using len by (simp add: wrap64_id max64_def)
  have hunk: "hunk_lines (gap @ rest) (int (length gap) - 1) [render_line (Add x)] \<lparr>hb_replacement = [], hb_consumed = 0\<rparr>
      = ToolOk (\<lparr>hb_replacement = [x], hb_consumed = 0\<rparr>, [])"
    using hunk_start_body [of "Add x"] by simp
  have splice: "splice (gap @ rest) (int (length gap) - 1) \<lparr>hb_replacement = [x], hb_consumed = 0\<rparr> =
      (if gap = [] then ToolPanic else ToolOk (butlast gap @ x # last gap # rest))"
    unfolding splice_def hunk_body.simps stop Let_def by (cases gap rule: rev_cases) auto
  have diff: "diff_text 0 0 [(gap, [Add x])] = hunk_header (length gap) (length gap) [Add x] # [render_line (Add x)]"
    by simp
  have none: "(old_side [Add x] = []) = True" by simp
  show ?thesis
    unfolding applyHunks_def diff apply_from.simps(2) hunk_start_header
    by (simp only: none if_True option.case Let_def pos hunk tool_out.case prod.case splice hunk_body.simps)
      (simp add: apply_from.simps(1))
qed

theorem insertion_hunk_misplaced_witness:
  "applyHunks ([''a'', ''b''] @ []) (diff_text 0 0 [([''a'', ''b''], [Add ''x''])]) = ToolOk [''a'', ''x'', ''b'']"
  by (subst insertion_hunk_misplaced) simp_all

text \<open>
  A deleted line that starts with two dashes and a space, a comment in SQL or Lua, is taken for a
  file header: the patch that deletes it reports success and leaves the file as it was.
\<close>

theorem deleted_comment_kept:
  assumes "newline \<notin> set x"
  shows "Patch_Run id (\<lambda>_. True) [''/w/f'' \<mapsto> ''-- '' @ x] (Some [(''patch'', JStr (diff_file ''f'' [([], [Del (''-- '' @ x)])]))])
      demo_ctx =
    (ToolOk (result_of ''patch'' ''Patched 1 file(s): f'' [(''files'', JArr [JStr ''f''])]),
     [''/w/f'' \<mapsto> ''-- '' @ x])"
proof -
  let ?diff = "diff_file ''f'' [([], [Del (''-- '' @ x)])]"
  have "itoa 0 = ''0''" "itoa 1 = ''1''" by code_simp+
  then have hd: "hunk_header 0 0 [Del y] = ''@@ -1,1 +0,0 @@''" for y
    by (simp add: hunk_header_def range_text_def)
  have "split_on newline ?diff = [''--- a/f'', ''+++ b/f'', ''@@ -1,1 +0,0 @@'', ''--- '' @ x]"
    unfolding diff_file_def by (subst split_join) (use assms in \<open>simp_all add: hd newline_def\<close>)
  moreover have "stripDiffPrefix ''b/f'' = ''f''" by code_simp
  ultimately have split: "splitDiffByFile ?diff = [(''f'', [''@@ -1,1 +0,0 @@''])]"
    by (simp add: splitDiffByFile_def trim_prefix_def)
  have "trim_space ?diff \<noteq> ''''"
    by (rule trim_space_dash) (simp add: diff_file_def)
  moreover have "split_on newline (''-- '' @ x) = [''-- '' @ x]"
    by (rule split_on_plain) (use assms in \<open>auto simp: newline_def\<close>)
  moreover have "applyHunks [''-- '' @ x] [''@@ -1,1 +0,0 @@''] = ToolOk [''-- '' @ x]"
  proof -
    have "hunk_start ''@@ -1,1 +0,0 @@'' = Some ''1''" "wrap64 (wrap64 (atoi_digits ''1'' - 1) + 0) = 0" "wrap64 0 = 0"
      by code_simp+
    then show ?thesis by (simp add: applyHunks_def apply_from.simps splice_def Let_def)
  qed
  moreover have "resolve demo_ctx ''f'' = ''/w/f''" "itoa 1 = ''1''" by code_simp+
  ultimately show ?thesis
    unfolding Patch_Run_def dec_patch option.case split Let_def by (simp add: gm_keys_def)
qed

theorem deleted_comment_kept_witness:
  "snd (Patch_Run id (\<lambda>_. True) [''/w/f'' \<mapsto> ''-- '' @ ''drop''] (Some [(''patch'', JStr (diff_file ''f'' [([], [Del (''-- '' @ ''drop'')])]))])
      demo_ctx) ''/w/f'' = Some ''-- drop''"
  by (subst deleted_comment_kept) (simp_all add: newline_def)

subsection \<open>Reading and time limits\<close>

text \<open>
  Reading returns the requested window of numbered lines, and crashes exactly when the offset,
  which the model chooses, is negative.
\<close>

theorem read_window_lines:
  assumes "lines \<noteq> []" "- (2 ^ 63) \<le> offset" "offset + (if limit \<le> 0 then 2000 else limit) \<le> max64" "limit \<le> max64"
  shows "read_window offset limit lines =
    (if offset < 0 then ToolPanic
     else ToolOk (number_lines (nat offset) (take (nat (if limit \<le> 0 then 2000 else limit)) (drop (nat offset) lines))))"
proof -
  let ?l = "if limit \<le> 0 then 2000 else limit"
  have w: "wrap64 (offset + ?l) = offset + ?l"
    by (rule wrap64_id) (use assms in \<open>auto simp: max64_def\<close>)
  have pos: "0 < ?l" by simp
  have ne: "0 < length lines" using assms(1) by simp
  show ?thesis
  proof (cases "offset < 0")
    case True
    then show ?thesis
      using pos ne w by (auto simp: read_window_def defaultReadLimit_def Let_def)
  next
    case False
    have "take (nat (int (length lines) - offset)) (drop (nat offset) lines) = take (nat ?l) (drop (nat offset) lines)"
      if "offset + ?l > int (length lines)"
      using that False by simp
    moreover have "drop (nat offset) lines = []" if "\<not> offset < int (length lines)"
      using that by simp
    ultimately show ?thesis
      using False pos w by (auto simp: read_window_def defaultReadLimit_def Let_def)
  qed
qed

theorem read_window_lines_witness:
  "read_window (- 1) 0 [''a''] = ToolPanic"
  by (subst read_window_lines) (simp_all add: max64_def)

lemma bash_timeout_bounds: "ms \<le> 9223372036854 \<Longrightarrow> 0 < bash_timeout ms \<and> bash_timeout ms \<le> maxBashTimeout"
  by (auto simp: bash_timeout_def defaultBashTimeout_def maxBashTimeout_def wrap64_id max64_def Let_def)

lemma bash_timeout_wraps: "bash_timeout 9223372036855 < 0"
  by (simp add: bash_timeout_def wrap64_def maxBashTimeout_def)

lemma todo_get_set: "todo_Get sid' (todo_Set sid items st) = (if sid' = sid then items else todo_Get sid' st)"
  by (simp add: todo_Get_def todo_Set_def)

end
