(* ===== verification/Registry.thy ===== *)
theory Registry
  imports FileTools Permission
begin

text \<open>
  The tool registry (\<^verbatim>\<open>internal/engine/registry\<close>): which tools a model is offered, the executor that
  asks for permission and runs a call, and the system prompt. A tool is its description and a
  function on the world \<open>'w\<close> its effects change; the asker is a function on the same world, so
  that the permission manager and the file system of the other theories can stand behind it. The
  plugin host and the connected MCP servers are arguments.
\<close>

subsection \<open>The registry\<close>

record 'w tool =
  tool_id :: string
  tool_description :: string
  tool_params :: jmap
  tool_run :: "jmap option \<Rightarrow> tool_ctx \<Rightarrow> 'w \<Rightarrow> tool_result tool_out \<times> 'w"

record reg_flags =
  fl_websearch :: bool
  fl_lsp :: bool

record 'w registry =
  rg_builtin :: "(string, 'w tool) gomap"
  rg_dynamic :: "(string, 'w tool) gomap"
  rg_order :: "string list"

fun reg_add :: "'w tool \<Rightarrow> 'w registry \<Rightarrow> 'w registry" where
  "reg_add t r =
     r\<lparr>rg_order := (if gm_has (rg_builtin r) (tool_id t) then rg_order r else rg_order r @ [tool_id t]),
       rg_builtin := gm_put (tool_id t) t (rg_builtin r)\<rparr>"

definition reg_New :: "'w tool list \<Rightarrow> 'w registry" where
  "reg_New builtins = fold reg_add builtins \<lparr>rg_builtin = [], rg_dynamic = [], rg_order = []\<rparr>"

definition RegisterDynamic :: "'w tool \<Rightarrow> 'w registry \<Rightarrow> 'w registry" where
  "RegisterDynamic t r = r\<lparr>rg_dynamic := gm_put (tool_id t) t (rg_dynamic r)\<rparr>"

definition reg_Get :: "string \<Rightarrow> 'w registry \<Rightarrow> 'w tool option" where
  "reg_Get i r = (case gm_get (rg_dynamic r) i of Some t \<Rightarrow> Some t | None \<Rightarrow> gm_get (rg_builtin r) i)"

definition usePatch :: "string \<Rightarrow> bool" where
  "usePatch modelID =
     (let i = to_lower modelID
      in str_contains i ''gpt-'' \<and> \<not> str_contains i ''oss'' \<and> \<not> str_contains i ''gpt-4'')"

definition offered :: "string \<Rightarrow> reg_flags \<Rightarrow> string \<Rightarrow> bool" where
  \<comment> \<open>the switch of \<open>active\<close>\<close>
  "offered modelID flags i =
     (if i = ''patch'' then usePatch modelID
      else if i = ''edit'' \<or> i = ''write'' then \<not> usePatch modelID
      else if i = ''websearch'' then fl_websearch flags
      else if i = ''lsp'' then fl_lsp flags
      else True)"

definition active :: "string \<Rightarrow> reg_flags \<Rightarrow> 'w registry \<Rightarrow> string list" where
  "active modelID flags r =
     filter (offered modelID flags) (rg_order r) @
     sort (filter (\<lambda>i. \<not> gm_has (rg_builtin r) i) (gm_keys (rg_dynamic r)))"

definition Definitions :: "string \<Rightarrow> reg_flags \<Rightarrow> 'w registry \<Rightarrow> tool_def list" where
  "Definitions modelID flags r =
     List.map_filter
       (\<lambda>i. map_option (\<lambda>t. \<lparr>td_name = tool_id t, td_description = tool_description t, td_schema = tool_params t\<rparr>)
         (reg_Get i r))
       (active modelID flags r)"

subsection \<open>Executing a call\<close>

record 'w plugin_hooks =
  ph_before :: "tool_call \<Rightarrow> jmap option \<Rightarrow> jmap option"
  ph_after :: "tool_call \<Rightarrow> jmap option \<Rightarrow> string \<times> string \<times> jmap option \<Rightarrow> string \<times> string \<times> jmap option"

record 'w mcp_caller =
  mcp_has :: "string \<Rightarrow> 'w \<Rightarrow> bool"
  mcp_call :: "string \<Rightarrow> jmap option \<Rightarrow> 'w \<Rightarrow> (string + string) \<times> 'w"

record 'w executor =
  ex_registry :: "'w registry"
  ex_asker :: "(ask_input \<Rightarrow> 'w \<Rightarrow> string option \<times> 'w) option"
  ex_directory :: string
  ex_rulesets :: "ruleset list"
  ex_mcp :: "'w mcp_caller option"
  ex_structured :: string
  ex_plugins :: "'w plugin_hooks option"

definition input_str :: "jmap option \<Rightarrow> string \<Rightarrow> string" where
  "input_str input key =
     (case input of
        None \<Rightarrow> ''''
      | Some kvs \<Rightarrow> (case map_of kvs key of Some (JStr s) \<Rightarrow> s | _ \<Rightarrow> ''''))"

definition permKeyPattern :: "string \<Rightarrow> jmap option \<Rightarrow> string \<times> string" where
  "permKeyPattern name input =
     (if name = ''bash'' then (''bash'', input_str input ''command'')
      else if name = ''read'' then (''read'', input_str input ''filePath'')
      else if name = ''edit'' \<or> name = ''write'' \<or> name = ''patch'' then (''edit'', input_str input ''filePath'')
      else if name = ''glob'' then (''glob'', input_str input ''pattern'')
      else if name = ''grep'' then (''grep'', input_str input ''pattern'')
      else if name = ''lsp'' then (''lsp'', ''*'')
      else if name = ''webfetch'' then (''webfetch'', input_str input ''url'')
      else if name = ''websearch'' then (''websearch'', input_str input ''query'')
      else if name = ''task'' then (''task'', input_str input ''agent'')
      else if name = ''skill'' then (''skill'', input_str input ''name'')
      else if name = ''question'' then (''question'', '''')
      else if name = ''todowrite'' then (''todowrite'', '''')
      else ('''', ''''))"

definition triggerToolBefore :: "'w executor \<Rightarrow> tool_call \<Rightarrow> jmap option" where
  "triggerToolBefore e call =
     (case ex_plugins e of
        None \<Rightarrow> kc_input call
      | Some h \<Rightarrow> (case ph_before h call (kc_input call) of None \<Rightarrow> kc_input call | Some args \<Rightarrow> Some args))"

definition triggerToolAfter :: "'w executor \<Rightarrow> tool_call \<Rightarrow> jmap option \<Rightarrow> tool_result \<Rightarrow> tool_result" where
  "triggerToolAfter e call args res =
     (case ex_plugins e of
        None \<Rightarrow> res
      | Some h \<Rightarrow>
          (case ph_after h call args (tr_title res, tr_output res, tr_meta res) of (title, output, meta) \<Rightarrow>
            res\<lparr>tr_title := title, tr_output := output, tr_meta := meta\<rparr>))"

definition gate_input :: "'w executor \<Rightarrow> tool_call \<Rightarrow> string \<Rightarrow> string \<Rightarrow> ask_input" where
  "gate_input e call key pattern =
     \<lparr>ai_session = kc_session call, ai_permission = key, ai_patterns = [pattern],
      ai_metadata = [(''tool'', JStr (kc_name call)), (''sessionID'', JStr (kc_session call))],
      ai_always = [pattern], ai_rulesets = ex_rulesets e, ai_tool = kc_name call\<rparr>"

definition gate :: "'w executor \<Rightarrow> tool_call \<Rightarrow> string \<Rightarrow> string \<Rightarrow> 'w \<Rightarrow> string option \<times> 'w" where
  \<comment> \<open>the permission check before a run: an error, or none\<close>
  "gate e call key pattern w =
     (case ex_asker e of None \<Rightarrow> (None, w)
      | Some ask \<Rightarrow> if key = '''' then (None, w) else ask (gate_input e call key pattern) w)"

definition execute_mcp :: "'w executor \<Rightarrow> 'w mcp_caller \<Rightarrow> tool_call \<Rightarrow> 'w \<Rightarrow> tool_result tool_out \<times> 'w" where
  "execute_mcp e mcp call w =
     (let args = triggerToolBefore e call
      in case (case ex_asker e of None \<Rightarrow> (None, w) | Some ask \<Rightarrow> ask (gate_input e call (kc_name call) ''*'') w) of
           (Some err, w1) \<Rightarrow> (ToolErr (OtherError err), w1)
         | (None, w1) \<Rightarrow>
             (case mcp_call mcp (kc_name call) args w1 of
                (Inl err, w2) \<Rightarrow> (ToolErr (OtherError err), w2)
              | (Inr out, w2) \<Rightarrow>
                  (ToolOk (triggerToolAfter e call args
                     \<lparr>tr_output = out, tr_title = kc_name call, tr_meta = None, tr_attachments = []\<rparr>), w2)))"

definition Execute :: "'w executor \<Rightarrow> tool_call \<Rightarrow> 'w \<Rightarrow> tool_result tool_out \<times> 'w" where
  "Execute e call w =
     (if ex_structured e \<noteq> '''' \<and> kc_name call = ex_structured e
      then (ToolOk \<lparr>tr_output = ''Structured output captured successfully.'', tr_title = ''Structured Output'',
              tr_meta = Some [(''valid'', JBool True)], tr_attachments = []\<rparr>, w)
      else (case reg_Get (kc_name call) (ex_registry e) of
        None \<Rightarrow>
          (case ex_mcp e of
             Some mcp \<Rightarrow>
               if mcp_has mcp (kc_name call) w then execute_mcp e mcp call w
               else (ToolErr (OtherError (''unknown tool: '' @ kc_name call)), w)
           | None \<Rightarrow> (ToolErr (OtherError (''unknown tool: '' @ kc_name call)), w))
      | Some t \<Rightarrow>
          (let args = triggerToolBefore e call;
               kp = permKeyPattern (kc_name call) args
           in case gate e call (fst kp) (snd kp) w of
                (Some err, w1) \<Rightarrow> (ToolErr (OtherError err), w1)
              | (None, w1) \<Rightarrow>
                  (case tool_run t args \<lparr>tx_session = kc_session call, tx_directory = ex_directory e\<rparr> w1 of
                     (r, w2) \<Rightarrow> (tool_bind r (\<lambda>res. ToolOk (triggerToolAfter e call args res)), w2)))))"

subsection \<open>The system prompt\<close>

definition systemPromptVariant :: "string \<Rightarrow> string" where
  "systemPromptVariant modelID =
     (let i = to_lower modelID
      in if str_contains i ''gpt'' \<or> has_prefix i ''o1'' \<or> has_prefix i ''o3'' then ''gpt''
         else if str_contains i ''gemini-'' then ''gemini''
         else if str_contains i ''claude'' then ''anthropic''
         else ''default'')"

definition SystemPrompt :: "(string \<rightharpoonup> string) \<Rightarrow> string \<Rightarrow> string" where
  \<comment> \<open>the embedded files are an argument\<close>
  "SystemPrompt prompts modelID =
     trim_space (case prompts (''prompts/'' @ systemPromptVariant modelID @ ''.txt'') of
                   Some s \<Rightarrow> s
                 | None \<Rightarrow> (case prompts ''prompts/default.txt'' of Some s \<Rightarrow> s | None \<Rightarrow> ''''))"

record env_info =
  ei_model :: string
  ei_working_dir :: string
  ei_workspace_root :: string
  ei_is_git :: bool
  ei_today :: string
  ei_platform :: string

definition line :: "string \<Rightarrow> string" where
  "line s = s @ [newline]"

definition Environment :: "env_info \<Rightarrow> string" where
  "Environment i =
     line ''<env>'' @
     line (''Working directory: '' @ ei_working_dir i) @
     (if ei_workspace_root i \<noteq> '''' \<and> ei_workspace_root i \<noteq> ei_working_dir i
      then line (''Workspace root: '' @ ei_workspace_root i) else '''') @
     line (''Platform: '' @ ei_platform i) @
     line (''Is a git repository: '' @ (if ei_is_git i then ''true'' else ''false'')) @
     line (''Today's date: '' @ ei_today i) @
     (if ei_model i \<noteq> '''' then line (''Model: '' @ ei_model i) else '''') @
     ''</env>''"

definition BuildSystem :: "(string \<rightharpoonup> string) \<Rightarrow> string \<Rightarrow> env_info \<Rightarrow> string list \<Rightarrow> string list" where
  "BuildSystem prompts modelID i instructions =
     [SystemPrompt prompts modelID, Environment i] @ filter (\<lambda>s. trim_space s \<noteq> '''') instructions"

subsection \<open>What is offered can be run\<close>

definition reg_ok :: "'w registry \<Rightarrow> bool" where
  "reg_ok r =
     (distinct (rg_order r) \<and> set (rg_order r) = set (gm_keys (rg_builtin r)) \<and> gm_wf (rg_dynamic r) \<and>
      (\<forall>i t. gm_get (rg_builtin r) i = Some t \<longrightarrow> tool_id t = i) \<and>
      (\<forall>i t. gm_get (rg_dynamic r) i = Some t \<longrightarrow> tool_id t = i))"

lemma keys_get: "i \<in> set (gm_keys m) \<longleftrightarrow> gm_get m i \<noteq> None"
  by (force simp: gm_keys_def map_of_eq_None_iff)

lemma reg_add_ok: "reg_ok r \<Longrightarrow> reg_ok (reg_add t r)"
  by (auto simp: reg_ok_def gm_has_def keys_get set_eq_iff split: if_splits)

lemma reg_New_ok: "reg_ok (reg_New ts)"
proof -
  have "reg_ok r \<Longrightarrow> reg_ok (fold reg_add ts r)" for r :: "'a registry"
    by (induction ts arbitrary: r) (auto intro: reg_add_ok simp del: reg_add.simps)
  moreover have "reg_ok \<lparr>rg_builtin = [], rg_dynamic = [], rg_order = []\<rparr>"
    by (simp add: reg_ok_def gm_keys_def)
  ultimately show ?thesis by (simp add: reg_New_def)
qed

lemma RegisterDynamic_ok: "reg_ok r \<Longrightarrow> reg_ok (RegisterDynamic t r)"
  by (auto simp: reg_ok_def RegisterDynamic_def)

lemma registry_ok: "reg_ok (fold RegisterDynamic dyn (reg_New ts))"
proof -
  have "reg_ok r \<Longrightarrow> reg_ok (fold RegisterDynamic dyn r)" for r :: "'a registry"
    by (induction dyn arbitrary: r) (auto intro: RegisterDynamic_ok)
  then show ?thesis using reg_New_ok by blast
qed

lemma active_ids:
  assumes "reg_ok r"
  shows "distinct (active m fl r)" "i \<in> set (active m fl r) \<Longrightarrow> \<exists>t. reg_Get i r = Some t \<and> tool_id t = i"
proof -
  have "distinct (gm_keys (rg_dynamic r))" using assms by (simp add: reg_ok_def gm_wf_def gm_keys_def)
  then show "distinct (active m fl r)"
    using assms by (auto simp: active_def reg_ok_def distinct_sort gm_has_def keys_get)
  show "\<exists>t. reg_Get i r = Some t \<and> tool_id t = i" if "i \<in> set (active m fl r)"
    using that assms by (fastforce simp: active_def reg_ok_def reg_Get_def keys_get split: option.split)
qed

lemma Definitions_map:
  assumes "reg_ok r"
  shows "map td_name (Definitions m fl r) = active m fl r"
proof -
  have "map td_name (List.map_filter (\<lambda>i. map_option (\<lambda>t. \<lparr>td_name = tool_id t, td_description = tool_description t,
      td_schema = tool_params t\<rparr>) (reg_Get i r)) is) = is"
    if "\<forall>i \<in> set is. \<exists>t. reg_Get i r = Some t \<and> tool_id t = i" for "is"
    using that by (induction "is") (auto simp: List.map_filter_def)
  then show ?thesis using active_ids(2) [OF assms] by (simp add: Definitions_def)
qed

text \<open>
  What a model is offered it can call, and only once under each name: in a registry built from
  any tools, later ones replacing earlier ones of the same id, and any dynamic tools, the offered
  names are distinct and each is the id of the tool the executor finds under it; and a model is
  never offered both \<^verbatim>\<open>patch\<close> and \<^verbatim>\<open>edit\<close> as built-in tools.
\<close>

theorem offered_tools_resolve:
  assumes "r = fold RegisterDynamic dyn (reg_New ts)"
  shows "distinct (map td_name (Definitions m fl r)) \<and>
    list_all (\<lambda>d. map_option tool_id (reg_Get (td_name d) r) = Some (td_name d)) (Definitions m fl r) \<and>
    (gm_has (rg_builtin r) ''patch'' \<longrightarrow> gm_has (rg_builtin r) ''edit'' \<longrightarrow>
      \<not> {''patch'', ''edit''} \<subseteq> td_name ` set (Definitions m fl r))"
proof -
  have ok: "reg_ok r" unfolding assms by (rule registry_ok)
  have names: "map td_name (Definitions m fl r) = active m fl r" by (rule Definitions_map [OF ok])
  have "map_option tool_id (reg_Get (td_name d) r) = Some (td_name d)" if "d \<in> set (Definitions m fl r)" for d
  proof -
    have "td_name d \<in> set (active m fl r)" using that names by (metis imageI set_map)
    then show ?thesis using active_ids(2) [OF ok] by fastforce
  qed
  moreover have "\<not> {''patch'', ''edit''} \<subseteq> set (active m fl r)"
    if "gm_has (rg_builtin r) ''patch''" "gm_has (rg_builtin r) ''edit''"
    using that by (simp add: active_def offered_def)
  ultimately show ?thesis
    using active_ids(1) [OF ok, of m fl] unfolding names [symmetric] list_all_iff set_map by blast
qed

definition demo_reg_tool :: "string \<Rightarrow> unit tool" where
  "demo_reg_tool i = \<lparr>tool_id = i, tool_description = i, tool_params = [],
     tool_run = (\<lambda>_ _ w. (ToolErr InvalidInput, w))\<rparr>"

theorem offered_tools_resolve_witness:
  "distinct (map td_name (Definitions ''gpt-5'' \<lparr>fl_websearch = True, fl_lsp = False\<rparr>
     (fold RegisterDynamic [demo_reg_tool ''x''] (reg_New [demo_reg_tool ''patch'', demo_reg_tool ''edit'']))))"
  using offered_tools_resolve [OF refl] by blast

end
