(* ===== verification/Workspace.thy ===== *)
theory Workspace
  imports Registry
begin

text \<open>
  The executor, the permission manager and the file tools together. The world the executor's
  operations change is the manager's state and the files; what the executor relies on of its asker
  is the locale \<open>gatekeeper\<close>, interpreted on the permission manager with any user behind it.
\<close>

subsection \<open>What a refusal means\<close>

locale gatekeeper =
  fixes ask :: "ask_input \<Rightarrow> 'w \<Rightarrow> string option \<times> 'w"
    and files_of :: "'w \<Rightarrow> files"
    and denies :: "ask_input \<Rightarrow> 'w \<Rightarrow> bool"
    and grants :: "ask_input \<Rightarrow> 'w \<Rightarrow> bool"
  assumes ask_files: "files_of (snd (ask inp w)) = files_of w"
    and ask_denies: "denies inp w \<Longrightarrow> fst (ask inp w) \<noteq> None"
    and ask_grants: "grants inp w \<Longrightarrow> ask inp w = (None, w)"
begin

lemma denied_call:
  assumes "ex_asker e = Some ask" "ex_structured e = ''''" "reg_Get (kc_name call) (ex_registry e) = Some t"
    "permKeyPattern (kc_name call) (triggerToolBefore e call) = (key, pat)" "key \<noteq> ''''"
    "denies (gate_input e call key pat) w"
  shows "(\<exists>msg. fst (Execute e call w) = ToolErr (OtherError msg)) \<and> files_of (snd (Execute e call w)) = files_of w"
proof -
  obtain msg w1 where ask: "ask (gate_input e call key pat) w = (Some msg, w1)"
    using ask_denies [OF assms(6)] by (cases "ask (gate_input e call key pat) w") auto
  then have "Execute e call w = (ToolErr (OtherError msg), w1)"
    using assms by (simp add: Execute_def gate_def Let_def)
  moreover have "files_of w1 = files_of w" using ask_files ask by (metis snd_conv)
  ultimately show ?thesis by simp
qed

lemma granted_call:
  assumes "ex_asker e = Some ask" "ex_structured e = ''''" "ex_plugins e = None"
    "reg_Get (kc_name call) (ex_registry e) = Some t"
    "permKeyPattern (kc_name call) (kc_input call) = (key, pat)" "key \<noteq> ''''" "grants (gate_input e call key pat) w"
  shows "Execute e call w =
    tool_run t (kc_input call) \<lparr>tx_session = kc_session call, tx_directory = ex_directory e\<rparr> w"
proof -
  have "tool_bind r (\<lambda>res. ToolOk (triggerToolAfter e call args res)) = r" for r args
    using assms(3) by (cases r) (simp_all add: triggerToolAfter_def)
  then show ?thesis
    using assms ask_grants [OF assms(7)]
    by (simp add: Execute_def gate_def triggerToolBefore_def Let_def split: prod.split)
qed

end

subsection \<open>The world\<close>

record world =
  wd_perms :: perm_manager
  wd_files :: files

text \<open>
  A blocked ask waits for the user's reply, or for the cancellation of the context when there is
  none; \<open>fresh\<close> is the id of the request.
\<close>

definition ask_world ::
  "(string list \<Rightarrow> string list) \<Rightarrow> (perm_manager \<Rightarrow> string) \<Rightarrow> (perm_request \<Rightarrow> string option)
   \<Rightarrow> ask_input \<Rightarrow> world \<Rightarrow> string option \<times> world"
where
  "ask_world ord fresh user inp w =
     (case Ask (fresh (wd_perms w)) inp (wd_perms w) of
        (AskDone Granted, m) \<Rightarrow> (None, w\<lparr>wd_perms := m\<rparr>)
      | (AskDone (Denied perm), m) \<Rightarrow> (Some (''permission denied: '' @ perm), w\<lparr>wd_perms := m\<rparr>)
      | (AskBlocked rid, m) \<Rightarrow>
          (case user (pp_req (new_pending rid inp)) of
             None \<Rightarrow> (Some ''context canceled'', w\<lparr>wd_perms := ask_cancel rid m\<rparr>)
           | Some reply \<Rightarrow>
               (let m' = snd (Reply ord rid reply m)
                in case ask_result rid m' of
                     Some Granted \<Rightarrow> (None, w\<lparr>wd_perms := m'\<rparr>)
                   | Some (Denied perm) \<Rightarrow> (Some (''permission denied: '' @ perm), w\<lparr>wd_perms := m'\<rparr>)
                   | None \<Rightarrow> (Some ''context canceled'', w\<lparr>wd_perms := m'\<rparr>))))"

definition rules_deny :: "ask_input \<Rightarrow> world \<Rightarrow> bool" where
  "rules_deny inp w = list_ex (\<lambda>p. pattern_action (wd_perms w) inp p = ActionDeny) (ai_patterns inp)"

definition rules_grant :: "ask_input \<Rightarrow> world \<Rightarrow> bool" where
  "rules_grant inp w =
     (ai_patterns inp \<noteq> [] \<and> list_all (\<lambda>p. pattern_action (wd_perms w) inp p = ActionAllow) (ai_patterns inp))"

interpretation perm: gatekeeper "ask_world ord fresh user" wd_files rules_deny rules_grant
proof
  fix inp w
  show "wd_files (snd (ask_world ord fresh user inp w)) = wd_files w"
    by (auto simp: ask_world_def Let_def split: prod.split ask_outcome.split perm_result.split option.split)
  show "fst (ask_world ord fresh user inp w) \<noteq> None" if "rules_deny inp w"
    using that by (auto simp: ask_world_def rules_deny_def ask_decision list_ex_iff)
  show "ask_world ord fresh user inp w = (None, w)" if "rules_grant inp w"
    using that by (auto simp: ask_world_def rules_grant_def ask_decision list_all_iff)
qed

subsection \<open>The file tools as tools\<close>

definition obj :: "(string \<times> jmap) list \<Rightarrow> string list \<Rightarrow> jmap" where
  "obj props required =
     [(''type'', JStr ''object''), (''properties'', JObj (map (\<lambda>(k, v). (k, JObj v)) props))] @
     (if required \<noteq> [] then [(''required'', JArr (map JStr required))] else [])"

definition strProp :: "string \<Rightarrow> jmap" where
  "strProp desc = [(''type'', JStr ''string''), (''description'', JStr desc)]"

definition numProp :: "string \<Rightarrow> jmap" where
  "numProp desc = [(''type'', JStr ''number''), (''description'', JStr desc)]"

definition boolProp :: "string \<Rightarrow> jmap" where
  "boolProp desc = [(''type'', JStr ''boolean''), (''description'', JStr desc)]"

definition on_files :: "(files \<Rightarrow> (tool_result \<times> files) tool_out) \<Rightarrow> world \<Rightarrow> tool_result tool_out \<times> world" where
  "on_files f w =
     (case f (wd_files w) of
        ToolOk (r, fs) \<Rightarrow> (ToolOk r, w\<lparr>wd_files := fs\<rparr>)
      | ToolErr e \<Rightarrow> (ToolErr e, w)
      | ToolPanic \<Rightarrow> (ToolPanic, w))"

definition read_tool :: "world tool" where
  "read_tool =
     \<lparr>tool_id = ''read'',
      tool_description = ''Read a file's contents (optionally a line window), returned with line numbers.'',
      tool_params = obj
        [(''filePath'', strProp ''Path to the file (absolute or relative to the working directory).''),
         (''offset'', numProp ''0-based line to start from.''),
         (''limit'', numProp ''Maximum number of lines to return.'')] [''filePath''],
      tool_run = (\<lambda>inp tx w. (Read_Run (wd_files w) inp tx, w))\<rparr>"

definition write_tool :: "(string \<Rightarrow> bool) \<Rightarrow> world tool" where
  "write_tool can =
     \<lparr>tool_id = ''write'',
      tool_description = ''Write content to a file, creating it (and parent directories) or overwriting it.'',
      tool_params = obj
        [(''filePath'', strProp ''Path to the file (absolute or relative to the working directory).''),
         (''content'', strProp ''The full content to write.'')] [''filePath'', ''content''],
      tool_run = (\<lambda>inp tx. on_files (\<lambda>fs. Write_Run can fs inp tx))\<rparr>"

definition edit_tool :: "(string \<Rightarrow> bool) \<Rightarrow> world tool" where
  "edit_tool can =
     \<lparr>tool_id = ''edit'',
      tool_description = ''Replace an exact string in a file. Fails if oldString is absent, or not unique unless replaceAll.'',
      tool_params = obj
        [(''filePath'', strProp ''Path to the file.''),
         (''oldString'', strProp ''The exact text to replace.''),
         (''newString'', strProp ''The replacement text.''),
         (''replaceAll'', boolProp ''Replace all occurrences instead of requiring a unique match.'')]
        [''filePath'', ''oldString'', ''newString''],
      tool_run = (\<lambda>inp tx. on_files (\<lambda>fs. Edit_Run can fs inp tx))\<rparr>"

definition patch_tool :: "(string list \<Rightarrow> string list) \<Rightarrow> (string \<Rightarrow> bool) \<Rightarrow> world tool" where
  "patch_tool ord can =
     \<lparr>tool_id = ''patch'',
      tool_description = ''Apply a unified diff (--- / +++ / @@ hunks) to files in the working directory.'',
      tool_params = obj [(''patch'', strProp ''The unified diff to apply.'')] [''patch''],
      tool_run = (\<lambda>inp tx w. case Patch_Run ord can (wd_files w) inp tx of (r, fs) \<Rightarrow> (r, w\<lparr>wd_files := fs\<rparr>))\<rparr>"

definition file_tools :: "(string list \<Rightarrow> string list) \<Rightarrow> (string \<Rightarrow> bool) \<Rightarrow> world tool list" where
  "file_tools ord can = [read_tool, write_tool can, edit_tool can, patch_tool ord can]"

subsection \<open>Path rules\<close>

definition file_executor ::
  "(string list \<Rightarrow> string list) \<Rightarrow> (perm_manager \<Rightarrow> string) \<Rightarrow> (perm_request \<Rightarrow> string option) \<Rightarrow> (string \<Rightarrow> bool)
   \<Rightarrow> ruleset list \<Rightarrow> string \<Rightarrow> world executor"
where
  "file_executor ord fresh user can rules dir =
     \<lparr>ex_registry = reg_New (file_tools ord can), ex_asker = Some (ask_world ord fresh user), ex_directory = dir,
      ex_rulesets = rules, ex_mcp = None, ex_structured = '''', ex_plugins = None\<rparr>"

lemma file_executor_fields [simp]:
  "ex_asker (file_executor ord fresh user can rules dir) = Some (ask_world ord fresh user)"
  "ex_structured (file_executor ord fresh user can rules dir) = ''''"
  "ex_plugins (file_executor ord fresh user can rules dir) = None"
  "ex_directory (file_executor ord fresh user can rules dir) = dir"
  "triggerToolBefore (file_executor ord fresh user can rules dir) call = kc_input call"
  by (simp_all add: file_executor_def triggerToolBefore_def)

lemma file_executor_tools:
  "reg_Get ''write'' (ex_registry (file_executor ord fresh user can rules dir)) = Some (write_tool can)"
  "reg_Get ''edit'' (ex_registry (file_executor ord fresh user can rules dir)) = Some (edit_tool can)"
  "reg_Get ''patch'' (ex_registry (file_executor ord fresh user can rules dir)) = Some (patch_tool ord can)"
  by (simp_all add: file_executor_def file_tools_def reg_New_def reg_Get_def read_tool_def write_tool_def
    edit_tool_def patch_tool_def)

text \<open>
  A rule that denies editing the path a call names protects the files: a write or edit call whose
  \<^verbatim>\<open>filePath\<close> evaluates to deny returns an error and no file changes.
\<close>

theorem denied_write_changes_nothing:
  assumes "e = file_executor ord fresh user can rules dir" "kc_name call = ''write'' \<or> kc_name call = ''edit''"
    "pat = input_str (kc_input call) ''filePath''"
    "pattern_action (wd_perms w) (gate_input e call ''edit'' pat) pat = ActionDeny"
  shows "(\<exists>msg. fst (Execute e call w) = ToolErr (OtherError msg)) \<and> wd_files (snd (Execute e call w)) = wd_files w"
proof -
  have "rules_deny (gate_input e call ''edit'' pat) w"
    using assms(4) by (simp add: rules_deny_def gate_input_def)
  moreover have "permKeyPattern (kc_name call) (triggerToolBefore e call) = (''edit'', pat)"
    using assms(1-3) by (auto simp: permKeyPattern_def)
  moreover obtain t where "reg_Get (kc_name call) (ex_registry e) = Some t"
    using assms(1,2) file_executor_tools by metis
  ultimately show ?thesis
    using perm.denied_call [of e ord fresh user call _ "''edit''" pat w] assms(1) by simp
qed

definition deny_secret :: "ruleset list" where
  "deny_secret = [[\<lparr>r_permission = ''edit'', r_pattern = ''*'', r_action = ActionAllow\<rparr>,
                   \<lparr>r_permission = ''edit'', r_pattern = ''secret*'', r_action = ActionDeny\<rparr>]]"

definition demo_world :: world where
  "demo_world = \<lparr>wd_perms = NewManager False, wd_files = [''/w/secret'' \<mapsto> ''a'']\<rparr>"

definition demo_executor :: "world executor" where
  "demo_executor = file_executor (\<lambda>ks. ks) (\<lambda>_. ''per_1'') (\<lambda>_. None) (\<lambda>_. True) deny_secret ''/w''"

definition file_call :: "string \<Rightarrow> jmap \<Rightarrow> tool_call" where
  "file_call name input =
     \<lparr>kc_call = ''c'', kc_name = name, kc_input = Some input, kc_session = ''s'', kc_message = ''m''\<rparr>"

lemma demo_rules:
  "r_action (Evaluate ''edit'' ''secret'' deny_secret) = ActionDeny"
  "r_action (Evaluate ''edit'' ''ok'' deny_secret) = ActionAllow"
  "r_action (Evaluate ''edit'' '''' deny_secret) = ActionAllow"
  by code_simp+

lemma demo_action:
  "pattern_action (wd_perms demo_world) (gate_input demo_executor call ''edit'' pat) pat =
     r_action (Evaluate ''edit'' pat deny_secret)"
  by (simp add: pattern_action_def gate_input_def demo_executor_def file_executor_def demo_world_def rulesetsFor_def
    approved_for_def NewManager_def)

theorem denied_write_changes_nothing_witness:
  "wd_files (snd (Execute demo_executor
     (file_call ''write'' [(''filePath'', JStr ''secret''), (''content'', JStr ''b'')]) demo_world)) = wd_files demo_world"
proof -
  let ?call = "file_call ''write'' [(''filePath'', JStr ''secret''), (''content'', JStr ''b'')]"
  have "input_str (kc_input ?call) ''filePath'' = ''secret''" by (simp add: file_call_def input_str_def)
  then show ?thesis
    using denied_write_changes_nothing [OF demo_executor_def, of ?call "''secret''" demo_world] demo_action [of ?call "''secret''"] demo_rules(1)
    by (simp add: file_call_def)
qed

text \<open>
  Path rules do not reach the patch tool: its input has no \<^verbatim>\<open>filePath\<close>, so the gate evaluates the
  empty pattern, and where that is allowed the patch is applied to whatever files the diff names,
  the ones a rule denies included.
\<close>

theorem patch_ignores_path_rules:
  assumes "e = file_executor ord fresh user can rules dir" "kc_name call = ''patch''"
    "kc_input call = Some [(''patch'', JStr diff)]"
    "pattern_action (wd_perms w) (gate_input e call ''edit'' '''') '''' = ActionAllow"
  shows "Execute e call w =
    (case Patch_Run ord can (wd_files w) (kc_input call) \<lparr>tx_session = kc_session call, tx_directory = dir\<rparr> of
       (r, fs) \<Rightarrow> (r, w\<lparr>wd_files := fs\<rparr>))"
proof -
  have "rules_grant (gate_input e call ''edit'' '''') w"
    using assms(4) by (simp add: rules_grant_def gate_input_def)
  moreover have "permKeyPattern (kc_name call) (kc_input call) = (''edit'', '''')"
    using assms(2,3) by (simp add: permKeyPattern_def input_str_def)
  moreover have "reg_Get (kc_name call) (ex_registry e) = Some (patch_tool ord can)"
    using assms(1,2) file_executor_tools by metis
  ultimately show ?thesis
    using perm.granted_call [of e ord fresh user call "patch_tool ord can" "''edit''" "''''" w] assms(1)
    by (simp add: patch_tool_def)
qed

theorem patch_ignores_path_rules_witness:
  "wd_files (snd (Execute demo_executor
     (file_call ''patch'' [(''patch'', JStr (diff_file ''secret'' [([], [Del ''a'', Add ''b''])]))]) demo_world)) ''/w/secret''
   = Some ''b''"
proof -
  let ?segs = "[([], [Del ''a'', Add ''b''])] :: segment list"
  let ?call = "file_call ''patch'' [(''patch'', JStr (diff_file ''secret'' ?segs))]"
  let ?tx = "\<lparr>tx_session = ''s'', tx_directory = ''/w''\<rparr>"
  have run: "Execute demo_executor ?call demo_world =
    (case Patch_Run (\<lambda>ks. ks) (\<lambda>_. True) (wd_files demo_world) (kc_input ?call) ?tx of (r, fs) \<Rightarrow> (r, demo_world\<lparr>wd_files := fs\<rparr>))"
    using patch_ignores_path_rules [OF demo_executor_def, of ?call "diff_file ''secret'' ?segs" demo_world]
      demo_action [of ?call "''''"] demo_rules(3)
    by (simp add: file_call_def)
  have "resolve ?tx ''secret'' = ''/w/secret''" "splitDiffByFile (diff_file ''secret'' ?segs) = [(''secret'', [''@@ -1,1 +1,1 @@'', ''-a'', ''+b''])]"
    "applyHunks [''a''] [''@@ -1,1 +1,1 @@'', ''-a'', ''+b''] = ToolOk [''b'']" "split_on newline ''a'' = [''a'']"
    by code_simp+
  moreover have "trim_space (diff_file ''secret'' ?segs) \<noteq> ''''"
    by (rule trim_space_dash) (simp add: diff_file_def)
  ultimately show ?thesis
    unfolding run by (simp add: file_call_def Patch_Run_def dec_patch gm_keys_def demo_world_def Let_def)
qed

text \<open>
  The gate and the tool can disagree on the file: the gate reads the key \<^verbatim>\<open>filePath\<close> of the map, the
  tool decodes keys up to case with the last one counting, so a call with a second key \<^verbatim>\<open>filepath\<close> is
  checked for one path and writes to the other, whatever the rules say of that one.
\<close>

theorem case_variant_escapes_gate:
  assumes "e = file_executor ord fresh user can rules dir" "kc_name call = ''write''"
    "kc_input call = Some [(''filePath'', JStr p), (''filepath'', JStr q), (''content'', JStr c)]"
    "pattern_action (wd_perms w) (gate_input e call ''edit'' p) p = ActionAllow" "q \<noteq> ''''"
    "path = resolve \<lparr>tx_session = kc_session call, tx_directory = dir\<rparr> q" "can path"
  shows "wd_files (snd (Execute e call w)) = (wd_files w)(path \<mapsto> c)"
proof -
  have "rules_grant (gate_input e call ''edit'' p) w"
    using assms(4) by (simp add: rules_grant_def gate_input_def)
  moreover have "permKeyPattern (kc_name call) (kc_input call) = (''edit'', p)"
    using assms(2,3) by (simp add: permKeyPattern_def input_str_def)
  moreover have "reg_Get (kc_name call) (ex_registry e) = Some (write_tool can)"
    using assms(1,2) file_executor_tools by metis
  ultimately have run: "Execute e call w =
      tool_run (write_tool can) (kc_input call) \<lparr>tx_session = kc_session call, tx_directory = dir\<rparr> w"
    using perm.granted_call [of e ord fresh user call "write_tool can" "''edit''" p w] assms(1) by simp
  have folded: "fold_name ''filePath'' = ''filepath''" "fold_name ''filepath'' = ''filepath''"
    "fold_name ''content'' = ''content''"
    by code_simp+
  have fields: "field_values ''filePath'' (kc_input call) = [JStr p, JStr q]" "field_values ''content'' (kc_input call) = [JStr c]"
    unfolding assms(3) field_values_def by (simp_all add: folded del: fold_name.simps)
  then have "dec_string ''filePath'' (kc_input call) = Some q" "dec_string ''content'' (kc_input call) = Some c"
    by (simp_all add: dec_string_def as_string_def)
  then show ?thesis
    using assms(5-7) by (simp add: run write_tool_def on_files_def Write_Run_def write_file_def Let_def)
qed

theorem case_variant_escapes_gate_witness:
  "wd_files (snd (Execute demo_executor
     (file_call ''write'' [(''filePath'', JStr ''ok''), (''filepath'', JStr ''secret''), (''content'', JStr ''b'')]) demo_world))
   = (wd_files demo_world)(''/w/secret'' \<mapsto> ''b'')"
proof -
  let ?call = "file_call ''write'' [(''filePath'', JStr ''ok''), (''filepath'', JStr ''secret''), (''content'', JStr ''b'')]"
  have "resolve \<lparr>tx_session = ''s'', tx_directory = ''/w''\<rparr> ''secret'' = ''/w/secret''" by code_simp
  then show ?thesis
    using case_variant_escapes_gate [OF demo_executor_def, of ?call "''ok''" "''secret''" "''b''" demo_world "''/w/secret''"]
      demo_action [of ?call "''ok''"] demo_rules(2)
    by (simp add: file_call_def)
qed

end
