(* ===== verification/Compaction.thy ===== *)
theory Compaction
  imports MessageStore
begin

text \<open>
  The decisions behind compaction (\<^verbatim>\<open>internal/engine/compaction.go\<close>): where the history is cut, whether
  a compaction is pending, and which old tool outputs are pruned. Token counts are bytes divided
  by four, as in the code.
\<close>

subsection \<open>Splitting the history\<close>

definition defaultTailTurns :: int where
  "defaultTailTurns = 2"

definition toolOutputMaxChars :: nat where
  "toolOutputMaxChars = 2000"

definition pruneMinimum :: nat where
  "pruneMinimum = 20000"

definition pruneProtect :: nat where
  "pruneProtect = 40000"

definition hasCompactionPart :: "part list \<Rightarrow> bool" where
  "hasCompactionPart ps = list_ex (\<lambda>p. case p of PCompaction _ \<Rightarrow> True | _ \<Rightarrow> False) ps"

definition user_turn :: "with_parts \<Rightarrow> bool" where
  "user_turn m = (is_user (wp_info m) \<and> \<not> hasCompactionPart (wp_parts m))"

definition selectTail :: "with_parts list \<Rightarrow> int \<Rightarrow> with_parts list \<times> string" where
  "selectTail history tailTurns =
     (if tailTurns \<le> 0 then ([], '''')
      else
        (let starts = filter (\<lambda>(i, m). user_turn m) (List.enumerate 0 history)
         in if int (length starts) \<le> tailTurns then ([], '''')
            else
              (let (start, m) = starts ! (length starts - nat tailTurns)
               in if start = 0 then ([], '''') else (take start history, wp_id m))))"

definition compaction_of :: "part list \<Rightarrow> compaction_part option \<Rightarrow> compaction_part option" where
  "compaction_of ps cp = fold (\<lambda>p cp. case p of PCompaction c \<Rightarrow> Some c | _ \<Rightarrow> cp) ps cp"

definition finished_summary_of :: "string \<Rightarrow> with_parts \<Rightarrow> bool" where
  "finished_summary_of userID m =
     (case wp_info m of
        IAssistant a \<Rightarrow> am_summary a \<and> am_finish a \<noteq> '''' \<and> am_parent a = userID
      | _ \<Rightarrow> False)"

definition pendingCompaction :: "with_parts list \<Rightarrow> string \<Rightarrow> compaction_part option" where
  "pendingCompaction filtered userID =
     (case fold (\<lambda>m cp. if wp_id m \<noteq> userID then cp else compaction_of (wp_parts m) cp) filtered None of
        None \<Rightarrow> None
      | Some cp \<Rightarrow> if list_ex (finished_summary_of userID) filtered then None else Some cp)"

lemma enumerate_filter_nth:
  "k < length (filter P xs) \<Longrightarrow>
   \<exists>pre x post. xs = pre @ x # post \<and> P x \<and> length (filter P pre) = k \<and>
     filter (\<lambda>(i, x). P x) (List.enumerate j xs) ! k = (j + length pre, x)"
proof (induction xs arbitrary: j k)
  case (Cons y ys)
  show ?case
  proof (cases "P y \<and> k = 0")
    case True
    then have "y # ys = [] @ y # ys \<and> P y \<and> length (filter P []) = k \<and>
      filter (\<lambda>(i, x). P x) (List.enumerate j (y # ys)) ! k = (j + length ([] :: 'a list), y)"
      by simp
    then show ?thesis by blast
  next
    case False
    define k' where "k' = (if P y then k - 1 else k)"
    have "k' < length (filter P ys)" using Cons.prems False by (auto simp: k'_def split: if_splits)
    from Cons.IH [OF this, of "Suc j"] obtain pre x post where
      *: "ys = pre @ x # post" "P x" "length (filter P pre) = k'"
        "filter (\<lambda>(i, x). P x) (List.enumerate (Suc j) ys) ! k' = (Suc j + length pre, x)"
      by blast
    have "y # ys = (y # pre) @ x # post \<and> P x \<and> length (filter P (y # pre)) = k \<and>
      filter (\<lambda>(i, x). P x) (List.enumerate j (y # ys)) ! k = (j + length (y # pre), x)"
      using * False by (auto simp: k'_def nth_Cons' split: if_splits)
    then show ?thesis by blast
  qed
qed simp

lemma enumerate_filter_length: "length (filter (\<lambda>(i, x). P x) (List.enumerate j xs)) = length (filter P xs)"
  by (induction xs arbitrary: j) auto

text \<open>
  Compaction keeps the last turns whole: when the history has more user turns than are to be kept,
  it splits into a non-empty head to summarize and a tail that starts with a user turn, whose id is
  the recorded anchor, and holds exactly that many turns; otherwise nothing is cut off.
\<close>

theorem select_tail_splits:
  assumes "0 < n"
  shows "case selectTail history (int n) of
      (head, anchor) \<Rightarrow>
        if n < length (filter user_turn history)
        then head \<noteq> [] \<and> (\<exists>m rest. history = head @ m # rest \<and> user_turn m \<and> wp_id m = anchor \<and>
               length (filter user_turn (m # rest)) = n)
        else head = [] \<and> anchor = ''''"
proof (cases "n < length (filter user_turn history)")
  case False
  then show ?thesis using assms by (simp add: selectTail_def enumerate_filter_length)
next
  case True
  let ?k = "length (filter user_turn history) - n"
  have "?k < length (filter user_turn history)" using True assms by linarith
  from enumerate_filter_nth [OF this, of 0] obtain pre m rest where
    *: "history = pre @ m # rest" "user_turn m" "length (filter user_turn pre) = ?k"
      "filter (\<lambda>(i, x). user_turn x) (List.enumerate 0 history) ! ?k = (length pre, m)"
    by auto
  have "0 < ?k" using True by linarith
  then have "pre \<noteq> []" using *(3) by auto
  moreover have "length (filter user_turn (m # rest)) = n"
  proof -
    have "length (filter user_turn history) = ?k + length (filter user_turn (m # rest))"
      by (subst *(1)) (simp add: *(3) del: filter.simps)
    then show ?thesis using True by linarith
  qed
  moreover have "selectTail history (int n) = (pre, wp_id m)"
    using True assms *(4) \<open>pre \<noteq> []\<close> by (simp add: selectTail_def enumerate_filter_length *(1))
  ultimately show ?thesis using True *(1,2) by auto
qed

theorem select_tail_splits_witness:
  "case selectTail (map (\<lambda>i. \<lparr>wp_info = IUser (demo_user i), wp_parts = []\<rparr>) [''a'', ''b'', ''c'']) (int 2) of
     (head, anchor) \<Rightarrow> head \<noteq> []"
proof -
  let ?h = "map (\<lambda>i. \<lparr>wp_info = IUser (demo_user i), wp_parts = []\<rparr>) [''a'', ''b'', ''c'']"
  have "user_turn \<lparr>wp_info = IUser (demo_user i), wp_parts = []\<rparr>" for i
    by (simp add: user_turn_def is_user_def hasCompactionPart_def)
  then have "2 < length (filter user_turn ?h)" by simp
  then show ?thesis using select_tail_splits [of 2 ?h] by (auto split: prod.splits)
qed

subsection \<open>Pruning old tool output\<close>

definition estimateTokens :: "string \<Rightarrow> nat" where
  "estimateTokens s = length s div 4"

type_synonym prune_entry = "tool_part \<times> st_completed"

definition entry_tokens :: "prune_entry \<Rightarrow> nat" where
  "entry_tokens e = estimateTokens (sc_output (snd e))"

definition part_entry :: "part \<Rightarrow> prune_entry list" where
  "part_entry p =
     (case p of
        PTool tp \<Rightarrow>
          (case tl_state tp of
             TsCompleted st \<Rightarrow> if tl_tool tp = ''skill'' \<or> sc_compacted st \<noteq> None then [] else [(tp, st)]
           | _ \<Rightarrow> [])
      | _ \<Rightarrow> [])"

definition summary_message :: "with_parts \<Rightarrow> bool" where
  "summary_message m = (case wp_info m of IAssistant a \<Rightarrow> am_summary a | _ \<Rightarrow> False)"

text \<open>The walk from the newest message on; the argument is the history newest first.\<close>

fun prune_cands :: "nat \<Rightarrow> with_parts list \<Rightarrow> prune_entry list" where
  "prune_cands turns [] = []"
| "prune_cands turns (m # ms) =
     (if summary_message m then []
      else
        (let turns' = (if is_user (wp_info m) then Suc turns else turns)
         in (if turns' < 2 then [] else concat (map part_entry (wp_parts m))) @ prune_cands turns' ms))"

fun prune_cut :: "nat \<Rightarrow> nat list \<Rightarrow> nat" where
  "prune_cut protected [] = 0"
| "prune_cut protected (t # ts) = (if protected \<ge> pruneProtect then 0 else Suc (prune_cut (protected + t) ts))"

definition prune_targets :: "with_parts list \<Rightarrow> prune_entry list" where
  "prune_targets msgs =
     (let cands = prune_cands 0 (rev msgs);
          old = drop (prune_cut 0 (map entry_tokens cands)) cands
      in if sum_list (map entry_tokens old) \<le> pruneMinimum then [] else old)"

definition mark_compacted :: "int \<Rightarrow> prune_entry \<Rightarrow> part" where
  "mark_compacted t e = PTool ((fst e)\<lparr>tl_state := TsCompleted ((snd e)\<lparr>sc_compacted := Some t\<rparr>)\<rparr>)"

lemma prune_cut_sum:
  "prune_cut p ts < length ts \<Longrightarrow> pruneProtect \<le> p + sum_list (take (prune_cut p ts) ts)"
  by (induction p ts rule: prune_cut.induct) (auto split: if_splits)

lemma part_entryD:
  "(tp, st) \<in> set (part_entry p) \<Longrightarrow>
   p = PTool tp \<and> tl_state tp = TsCompleted st \<and> tl_tool tp \<noteq> ''skill'' \<and> sc_compacted st = None"
  by (auto simp: part_entry_def split: part.splits tool_state.splits if_splits)

lemma prune_cands_from:
  "e \<in> set (prune_cands k ms) \<Longrightarrow>
   \<exists>newer m older. ms = newer @ m # older \<and> (\<exists>p \<in> set (wp_parts m). e \<in> set (part_entry p)) \<and>
     2 \<le> k + length (filter (\<lambda>m. is_user (wp_info m)) (newer @ [m])) \<and> \<not> list_ex summary_message (newer @ [m])"
proof (induction k ms rule: prune_cands.induct)
  case (2 k m ms)
  define k' where "k' = (if is_user (wp_info m) then Suc k else k)"
  from "2.prems" have ns: "\<not> summary_message m"
    and mem: "e \<in> set (if k' < 2 then [] else concat (map part_entry (wp_parts m))) \<or> e \<in> set (prune_cands k' ms)"
    by (auto simp: k'_def Let_def split: if_splits)
  from mem show ?case
  proof
    assume here: "e \<in> set (if k' < 2 then [] else concat (map part_entry (wp_parts m)))"
    then have "m # ms = [] @ m # ms \<and> (\<exists>p \<in> set (wp_parts m). e \<in> set (part_entry p)) \<and>
      2 \<le> k + length (filter (\<lambda>m. is_user (wp_info m)) ([] @ [m])) \<and> \<not> list_ex summary_message ([] @ [m])"
      using ns by (auto simp: k'_def split: if_splits)
    then show ?thesis by blast
  next
    assume "e \<in> set (prune_cands k' ms)"
    with "2.IH" [OF ns k'_def] obtain newer m' older where
      *: "ms = newer @ m' # older" "\<exists>p \<in> set (wp_parts m'). e \<in> set (part_entry p)"
        "2 \<le> k' + length (filter (\<lambda>m. is_user (wp_info m)) (newer @ [m']))" "\<not> list_ex summary_message (newer @ [m'])"
      by blast
    then have "m # ms = (m # newer) @ m' # older \<and> (\<exists>p \<in> set (wp_parts m'). e \<in> set (part_entry p)) \<and>
      2 \<le> k + length (filter (\<lambda>m. is_user (wp_info m)) ((m # newer) @ [m'])) \<and>
      \<not> list_ex summary_message ((m # newer) @ [m'])"
      using ns by (auto simp: k'_def split: if_splits)
    then show ?thesis by blast
  qed
qed simp


definition demo_output :: "string \<Rightarrow> nat \<Rightarrow> st_completed" where
  "demo_output i n =
     \<lparr>sc_input = None, sc_output = replicate n (CHR ''x''), sc_title = '''', sc_meta = None, sc_start = 0,
      sc_end = 0, sc_compacted = None, sc_attachments = []\<rparr>"

definition demo_tool_part :: "string \<Rightarrow> nat \<Rightarrow> tool_part" where
  "demo_tool_part i n =
     \<lparr>tl_base = demo_base i, tl_call = i, tl_tool = ''bash'', tl_state = TsCompleted (demo_output i n), tl_meta = None\<rparr>"

definition demo_long :: "with_parts list" where
  "demo_long =
     [\<lparr>wp_info = IUser (demo_user ''m1''), wp_parts = []\<rparr>,
      \<lparr>wp_info = IAssistant (demo_assistant ''m2'' ''m1'' False),
        wp_parts = [PTool (demo_tool_part ''p1'' 160000), PTool (demo_tool_part ''p2'' 90000)]\<rparr>,
      \<lparr>wp_info = IUser (demo_user ''m3''), wp_parts = []\<rparr>,
      \<lparr>wp_info = IUser (demo_user ''m4''), wp_parts = []\<rparr>]"

lemma demo_long_targets: "prune_targets demo_long = [(demo_tool_part ''p2'' 90000, demo_output ''p2'' 90000)]"
proof -
  have e: "part_entry (PTool (demo_tool_part i n)) = [(demo_tool_part i n, demo_output i n)]" for i n
    by (simp add: part_entry_def demo_tool_part_def demo_output_def)
  have tok: "entry_tokens (demo_tool_part i n, demo_output i n) = n div 4" for i n
    by (simp add: entry_tokens_def estimateTokens_def demo_output_def)
  show ?thesis
    by (simp add: prune_targets_def demo_long_def summary_message_def is_user_def demo_assistant_def e tok
      pruneProtect_def pruneMinimum_def Let_def)
qed


end
