(* ===== verification/Engine.thy ===== *)
theory Engine
  imports Compaction Registry Serialize
begin

text \<open>
  The agent loop (\<^verbatim>\<open>internal/engine\<close>: \<^verbatim>\<open>engine.go\<close>, \<^verbatim>\<open>loop.go\<close>, \<^verbatim>\<open>compaction.go\<close>, \<^verbatim>\<open>structured.go\<close>) over the
  message store, the serializer, the registry and the processor. Clock, ids, the success of a store
  statement, the state of the context and what a provider streams are readings of the environment,
  taken in order and counted by \<open>en_tick\<close>; the processor reads the same sequence. Its writes are
  applied to the tables when the turn ends, which leaves the same rows as applying each at once,
  the last write of a row being the one that counts. The plugin host is an argument; title
  generation and the expansion of mentions are left out.
\<close>

subsection \<open>Readings, configuration and state\<close>

record eng_env =
  ee_now :: "nat \<Rightarrow> int"
  ee_id :: "nat \<Rightarrow> string"
  ee_ok :: "nat \<Rightarrow> bool"
  ee_live :: "nat \<Rightarrow> bool"
  ee_provider :: "string \<Rightarrow> string \<Rightarrow> string option"
  ee_stream :: "nat \<Rightarrow> llm_request \<Rightarrow> string + llm_event list"
  ee_exec :: "nat \<Rightarrow> tool_call \<Rightarrow> exec_outcome"
  ee_fl :: "rat \<Rightarrow> rat"
  ee_order :: "string list \<Rightarrow> string list"
  ee_today :: string
  ee_platform :: string

record eng_hooks =
  eh_messages :: "with_parts list \<Rightarrow> with_parts list option"
  eh_system :: "string list \<Rightarrow> string list"
  eh_temperature :: "f64 option"
  eh_top_p :: "f64 option"
  eh_top_k :: "int option"
  eh_options :: jmap
  eh_headers :: "(string, string) gomap"
  eh_context :: "string list"
  eh_prompt :: "string option"
  eh_autocontinue :: bool

record 'w eng_config =
  ec_registry :: "'w registry"
  ec_flags :: reg_flags
  ec_catalog :: catalog
  ec_bus :: bool
  ec_directory :: string
  ec_root :: string
  ec_instructions :: "string list"
  ec_max_steps :: int
  ec_mcp :: "tool_def list option"
  ec_asker :: "(string \<Rightarrow> jmap option \<Rightarrow> string option) option"
  ec_plugins :: "(nat \<Rightarrow> eng_hooks) option"
  ec_prompts :: "string \<rightharpoonup> string"
  ec_sentinel :: string
  ec_summary_template :: string
  ec_structured_description :: string
  ec_structured_prompt :: string

datatype eng_event =
    EMessage string info
  | EPart string part int
  | ECompacted string
  | EStatus string string
  | EIdle string
  | EProc proc_event

record eng_state =
  en_store :: msg_store
  en_tick :: nat
  en_requests :: "llm_request list"
  en_events :: "eng_event list"

definition defaultMaxSteps :: int where
  "defaultMaxSteps = 100"

definition structuredOutputToolName :: string where
  "structuredOutputToolName = ''StructuredOutput''"

definition en_step :: "eng_state \<Rightarrow> eng_state" where
  "en_step s = s\<lparr>en_tick := Suc (en_tick s)\<rparr>"

definition en_emit :: "'w eng_config \<Rightarrow> eng_event \<Rightarrow> eng_state \<Rightarrow> eng_state" where
  "en_emit cfg e s = (if ec_bus cfg then s\<lparr>en_events := en_events s @ [e]\<rparr> else s)"

text \<open>Store statements: they fail when the reading says so, or when a reference would break.\<close>

definition put_message :: "eng_env \<Rightarrow> info \<Rightarrow> eng_state \<Rightarrow> bool \<times> eng_state" where
  "put_message env i s =
     (if ee_ok env (en_tick s)
      then (case PutMessage (ee_now env (en_tick s)) i (en_store s) of
              Some st \<Rightarrow> (True, (en_step s)\<lparr>en_store := st\<rparr>)
            | None \<Rightarrow> (False, en_step s))
      else (False, en_step s))"

definition put_part :: "eng_env \<Rightarrow> part \<Rightarrow> eng_state \<Rightarrow> bool \<times> eng_state" where
  "put_part env p s =
     (if ee_ok env (en_tick s)
      then (case PutPart p (en_store s) of
              Some st \<Rightarrow> (True, (en_step s)\<lparr>en_store := st\<rparr>)
            | None \<Rightarrow> (False, en_step s))
      else (False, en_step s))"

definition delete_part :: "eng_env \<Rightarrow> string \<Rightarrow> eng_state \<Rightarrow> eng_state" where
  "delete_part env pid s =
     (if ee_ok env (en_tick s) then (en_step s)\<lparr>en_store := snd (DeletePart pid (en_store s))\<rparr> else en_step s)"

definition read_stream :: "eng_env \<Rightarrow> string \<Rightarrow> eng_state \<Rightarrow> with_parts list option \<times> eng_state" where
  "read_stream env sid s =
     (if ee_ok env (en_tick s) then Some (st_Stream sid (en_store s)) else None, en_step s)"

definition read_list :: "eng_env \<Rightarrow> string \<Rightarrow> eng_state \<Rightarrow> with_parts list option \<times> eng_state" where
  "read_list env sid s =
     (if ee_ok env (en_tick s) then Some (st_List sid (en_store s)) else None, en_step s)"

subsection \<open>Small helpers of the loop\<close>

definition orDefault :: "string \<Rightarrow> string \<Rightarrow> string" where
  "orDefault v def = (if v = '''' then def else v)"

definition shouldExit :: "latest \<Rightarrow> bool" where
  "shouldExit l =
     (case lt_assistant l of
        None \<Rightarrow> False
      | Some a \<Rightarrow>
          if am_finish a = '''' \<or> am_finish a = ''tool-calls'' then False
          else (case lt_user l of None \<Rightarrow> False | Some u \<Rightarrow> um_id u < am_id a))"

definition new_assistant :: "'w eng_config \<Rightarrow> string \<Rightarrow> int \<Rightarrow> string \<Rightarrow> user_message \<Rightarrow> assistant_message" where
  "new_assistant cfg i t sid u =
     \<lparr>am_id = i, am_session = sid, am_parent = um_id u, am_model = md_model (um_model u),
      am_provider = md_provider (um_model u), am_mode = um_agent u, am_agent = um_agent u,
      am_cwd = ec_directory cfg, am_root = ec_root cfg, am_summary = False, am_cost = 0,
      am_tokens = zero_tokens, am_structured = None, am_finish = '''', am_error = None,
      am_created = t, am_completed = None\<rparr>"

definition mcpDefinitions :: "'w eng_config \<Rightarrow> tool_def list \<Rightarrow> tool_def list" where
  "mcpDefinitions cfg existing =
     (case ec_mcp cfg of
        None \<Rightarrow> []
      | Some ts \<Rightarrow> filter (\<lambda>t. td_name t \<notin> set (map td_name existing)) ts)"

definition buildSystem :: "eng_env \<Rightarrow> 'w eng_config \<Rightarrow> string \<Rightarrow> string \<Rightarrow> string list" where
  "buildSystem env cfg modelID override =
     BuildSystem (ec_prompts cfg) modelID
       \<lparr>ei_model = modelID, ei_working_dir = ec_directory cfg, ei_workspace_root = '''', ei_is_git = False,
        ei_today = ee_today env, ei_platform = ee_platform env\<rparr>
       (override # ec_instructions cfg)"

definition wantsStructuredOutput :: "output_format option \<Rightarrow> bool" where
  "wantsStructuredOutput f = (case f of None \<Rightarrow> False | Some f \<Rightarrow> of_type f = ''json_schema'')"

definition structuredOutputTool :: "'w eng_config \<Rightarrow> output_format \<Rightarrow> tool_def" where
  "structuredOutputTool cfg f =
     \<lparr>td_name = structuredOutputToolName, td_description = ec_structured_description cfg,
      td_schema = filter (\<lambda>(k, v). k \<noteq> ''$schema'') (of_schema f)\<rparr>"

definition hooks_at :: "'w eng_config \<Rightarrow> eng_state \<Rightarrow> eng_hooks option" where
  "hooks_at cfg s = map_option (\<lambda>h. h (en_tick s)) (ec_plugins cfg)"

definition transformMessages :: "eng_hooks option \<Rightarrow> with_parts list \<Rightarrow> with_parts list" where
  "transformMessages hk msgs =
     (case hk of None \<Rightarrow> msgs | Some h \<Rightarrow> (case eh_messages h msgs of None \<Rightarrow> msgs | Some ms \<Rightarrow> ms))"

definition sentinel_message :: "'w eng_config \<Rightarrow> model_message" where
  "sentinel_message cfg = \<lparr>mm_role = RoleAssistant, mm_content = [text_content (ec_sentinel cfg)]\<rparr>"

text \<open>The request of a turn: \<open>runLoop\<close> from the registry's definitions to the provider call.\<close>

definition build_request ::
  "eng_env \<Rightarrow> 'w eng_config \<Rightarrow> eng_hooks option \<Rightarrow> user_message \<Rightarrow> with_parts list \<Rightarrow> bool \<Rightarrow> llm_request"
where
  "build_request env cfg hk u filtered isLast =
     (let modelID = md_model (um_model u);
          defs = Definitions modelID (ec_flags cfg) (ec_registry cfg);
          tools = defs @ mcpDefinitions cfg defs;
          system = buildSystem env cfg modelID (um_system u);
          msgs = ToModelMessages (transformMessages hk filtered)
                   \<lparr>sm_provider = md_provider (um_model u), sm_model = modelID\<rparr> \<lparr>so_strip_media = False, so_max_chars = 0\<rparr>;
          msgs' = (if isLast then msgs @ [sentinel_message cfg] else msgs);
          structured = wantsStructuredOutput (um_format u);
          tools' = (if structured then tools @ [structuredOutputTool cfg (the (um_format u))] else tools);
          system' = (if structured then system @ [ec_structured_prompt cfg] else system)
      in \<lparr>rq_model = modelID,
          rq_system = (case hk of None \<Rightarrow> system' | Some h \<Rightarrow> eh_system h system'),
          rq_messages = msgs', rq_tools = tools',
          rq_tool_choice = (if structured then ToolChoiceRequired else ToolChoiceAuto),
          rq_max_output = 0,
          rq_temperature = Option.bind hk eh_temperature,
          rq_top_p = Option.bind hk eh_top_p,
          rq_top_k = Option.bind hk eh_top_k,
          rq_headers = (case hk of None \<Rightarrow> [] | Some h \<Rightarrow> eh_headers h),
          rq_options = (case hk of None \<Rightarrow> [] | Some h \<Rightarrow> eh_options h)\<rparr>)"

subsection \<open>Running a turn\<close>

definition proc_env_at :: "eng_env \<Rightarrow> nat \<Rightarrow> proc_env" where
  "proc_env_at env n =
     \<lparr>pe_now = (\<lambda>k. ee_now env (n + k)), pe_id = (\<lambda>k. ee_id env (n + k)), pe_put = (\<lambda>k. ee_ok env (n + k)),
      pe_fl = ee_fl env, pe_order = ee_order env\<rparr>"

definition apply_writes :: "int \<Rightarrow> processor \<Rightarrow> msg_store \<Rightarrow> msg_store" where
  "apply_writes t p st =
     (let st1 = fold (\<lambda>q. run_statement (SPutPart q)) (map snd (pr_parts p)) st
      in case pr_message p of None \<Rightarrow> st1 | Some a \<Rightarrow> run_statement (SPutMessage t (IAssistant a)) st1)"

definition run_processor ::
  "eng_env \<Rightarrow> proc_config \<Rightarrow> llm_event list \<Rightarrow> assistant_message \<Rightarrow> eng_state \<Rightarrow> processor \<times> outcome_kind \<times> eng_state"
where
  "run_processor env pcf evs a s =
     (let n = en_tick s;
          (p, out) = Run (proc_env_at env n) pcf (\<not> ee_live env n) evs (new_processor a)
      in (p, out, s\<lparr>en_tick := n + pr_tick p, en_store := apply_writes (ee_now env n) p (en_store s),
                   en_events := en_events s @ map EProc (pr_events p)\<rparr>))"

definition failAssistant ::
  "eng_env \<Rightarrow> 'w eng_config \<Rightarrow> assistant_message \<Rightarrow> string \<Rightarrow> eng_state \<Rightarrow> assistant_message \<times> eng_state"
where
  "failAssistant env cfg a msg s =
     (let a1 = a\<lparr>am_error := Some \<lparr>er_name = ''APIError'', er_data = [(''message'', JStr msg), (''isRetryable'', JBool False)]\<rparr>,
                 am_completed := Some (ee_now env (en_tick s))\<rparr>;
          (_, s1) = put_message env (IAssistant a1) (en_step s)
      in (a1, en_emit cfg (EMessage (am_session a) (IAssistant a1)) s1))"

definition withParts :: "eng_env \<Rightarrow> assistant_message \<Rightarrow> eng_state \<Rightarrow> with_parts \<times> eng_state" where
  "withParts env a s =
     (case (if ee_ok env (en_tick s) then GetMessage (am_session a) (am_id a) (en_store s) else None) of
        Some wp \<Rightarrow> (wp, en_step s)
      | None \<Rightarrow> (\<lparr>wp_info = IAssistant a, wp_parts = []\<rparr>, en_step s))"

definition no_message :: with_parts where
  "no_message = \<lparr>wp_info = INone, wp_parts = []\<rparr>"

definition is_assistant :: "info \<Rightarrow> bool" where
  "is_assistant i = (case i of IAssistant _ \<Rightarrow> True | _ \<Rightarrow> False)"

definition finalAssistant :: "eng_env \<Rightarrow> string \<Rightarrow> eng_state \<Rightarrow> with_parts \<times> eng_state" where
  "finalAssistant env sid s =
     (case read_stream env sid s of
        (None, s1) \<Rightarrow> (no_message, s1)
      | (Some msgs, s1) \<Rightarrow>
          (case find (\<lambda>m. is_assistant (wp_info m)) msgs of Some m \<Rightarrow> (m, s1) | None \<Rightarrow> (no_message, s1)))"

definition finishStructured ::
  "eng_env \<Rightarrow> 'w eng_config \<Rightarrow> assistant_message \<Rightarrow> jmap option \<Rightarrow> eng_state \<Rightarrow> assistant_message \<times> eng_state"
where
  "finishStructured env cfg a out s =
     (let a1 = a\<lparr>am_structured := Some (jmap_json out),
                 am_finish := (if am_finish a = '''' \<or> am_finish a = ''tool-calls'' then ''stop'' else am_finish a),
                 am_completed := Some (ee_now env (en_tick s))\<rparr>;
          (_, s1) = put_message env (IAssistant a1) (en_step s)
      in (a1, en_emit cfg (EMessage (am_session a) (IAssistant a1)) s1))"

definition failStructured ::
  "eng_env \<Rightarrow> 'w eng_config \<Rightarrow> assistant_message \<Rightarrow> eng_state \<Rightarrow> assistant_message \<times> eng_state"
where
  "failStructured env cfg a s =
     (let a1 = a\<lparr>am_error := Some \<lparr>er_name = ''StructuredOutputError'',
                   er_data = [(''message'', JStr ''Model did not produce structured output''), (''retries'', JNum 0)]\<rparr>,
                 am_completed := (if am_completed a = None then Some (ee_now env (en_tick s)) else am_completed a)\<rparr>;
          (_, s1) = put_message env (IAssistant a1) (en_step s)
      in (a1, en_emit cfg (EMessage (am_session a) (IAssistant a1)) s1))"

subsection \<open>Compaction\<close>

definition createCompaction ::
  "eng_env \<Rightarrow> 'w eng_config \<Rightarrow> string \<Rightarrow> model_ref \<Rightarrow> string \<Rightarrow> bool \<Rightarrow> bool \<Rightarrow> eng_state \<Rightarrow> bool \<times> eng_state"
where
  "createCompaction env cfg sid model agent auto overflow s =
     (let n = en_tick s;
          u = \<lparr>um_id = ee_id env n, um_session = sid, um_created = ee_now env n, um_format = None, um_agent = agent,
               um_model = model, um_system = '''', um_tools = []\<rparr>
      in case put_message env (IUser u) (en_step s) of
           (False, s1) \<Rightarrow> (False, s1)
         | (True, s1) \<Rightarrow>
             (let s2 = en_emit cfg (EMessage sid (IUser u)) s1;
                  p = PCompaction \<lparr>cp_base = \<lparr>pb_id = ee_id env (en_tick s2), pb_session = sid, pb_message = um_id u\<rparr>,
                        cp_auto = auto, cp_overflow = overflow, cp_tail_start = ''''\<rparr>
              in case put_part env p (en_step s2) of
                   (False, s3) \<Rightarrow> (False, s3)
                 | (True, s3) \<Rightarrow> (True, en_emit cfg (EPart sid p (ee_now env (en_tick s3))) (en_step s3))))"

definition compactingPrompt :: "'w eng_config \<Rightarrow> eng_hooks option \<Rightarrow> string" where
  "compactingPrompt cfg hk =
     (case hk of
        None \<Rightarrow> ec_summary_template cfg
      | Some h \<Rightarrow>
          (case eh_prompt h of
             Some p \<Rightarrow> p
           | None \<Rightarrow> fold (\<lambda>c p. p @ [newline, newline] @ c) (eh_context h) (ec_summary_template cfg)))"

definition compactionAutoContinue :: "eng_hooks option \<Rightarrow> bool" where
  "compactionAutoContinue hk = (case hk of None \<Rightarrow> True | Some h \<Rightarrow> eh_autocontinue h)"

definition continuePrompt :: string where
  "continuePrompt = ''Continue if you have next steps; otherwise summarize what was accomplished.''"

definition before_message :: "string \<Rightarrow> with_parts list \<Rightarrow> with_parts list" where
  "before_message uid ms = takeWhile (\<lambda>m. wp_id m \<noteq> uid) ms"

definition compaction_request ::
  "'w eng_config \<Rightarrow> eng_hooks option \<Rightarrow> user_message \<Rightarrow> with_parts list \<Rightarrow> llm_request"
where
  "compaction_request cfg hk u head =
     \<lparr>rq_model = md_model (um_model u), rq_system = [],
      rq_messages = ToModelMessages (transformMessages hk head)
          \<lparr>sm_provider = md_provider (um_model u), sm_model = md_model (um_model u)\<rparr>
          \<lparr>so_strip_media = True, so_max_chars = toolOutputMaxChars\<rparr> @
        [\<lparr>mm_role = RoleUser, mm_content = [text_content (compactingPrompt cfg hk)]\<rparr>],
      rq_tools = [], rq_tool_choice = ToolChoiceNone, rq_max_output = 0, rq_temperature = None, rq_top_p = None,
      rq_top_k = None, rq_headers = [], rq_options = []\<rparr>"

definition new_summary :: "'w eng_config \<Rightarrow> string \<Rightarrow> int \<Rightarrow> string \<Rightarrow> user_message \<Rightarrow> assistant_message" where
  "new_summary cfg i t sid u =
     (new_assistant cfg i t sid u)\<lparr>am_mode := ''compaction'', am_agent := ''compaction'', am_summary := True\<rparr>"

text \<open>After the summary: the anchor, the announcement and the continuation.\<close>

definition continue_turn ::
  "eng_env \<Rightarrow> 'w eng_config \<Rightarrow> string \<Rightarrow> user_message \<Rightarrow> eng_state \<Rightarrow> outcome_kind \<times> eng_state"
where
  "continue_turn env cfg sid u s =
     (let n = en_tick s;
          cu = u\<lparr>um_id := ee_id env n, um_session := sid, um_created := ee_now env n, um_format := None,
                 um_system := '''', um_tools := []\<rparr>
      in case put_message env (IUser cu) (en_step s) of
           (False, s1) \<Rightarrow> (OutcomeStop, s1)
         | (True, s1) \<Rightarrow>
             (let s2 = en_emit cfg (EMessage sid (IUser cu)) s1;
                  p = PText \<lparr>tp_base = \<lparr>pb_id = ee_id env (en_tick s2), pb_session = sid, pb_message = um_id cu\<rparr>,
                        tp_text = continuePrompt, tp_synthetic = True, tp_ignored = False, tp_time = None, tp_meta = None\<rparr>
              in case put_part env p (en_step s2) of
                   (False, s3) \<Rightarrow> (OutcomeStop, s3)
                 | (True, s3) \<Rightarrow> (OutcomeContinue, en_emit cfg (EPart sid p (ee_now env (en_tick s3))) (en_step s3))))"

definition finish_compaction ::
  "eng_env \<Rightarrow> 'w eng_config \<Rightarrow> string \<Rightarrow> user_message \<Rightarrow> compaction_part \<Rightarrow> string \<Rightarrow> eng_state
   \<Rightarrow> outcome_kind \<times> eng_state"
where
  "finish_compaction env cfg sid u part tailStart s =
     (let part' = part\<lparr>cp_tail_start := tailStart\<rparr>;
          (ok, s1) = (if tailStart = '''' then (True, s)
                      else (case put_part env (PCompaction part') s of
                              (True, s1) \<Rightarrow> (True, en_emit cfg (EPart sid (PCompaction part') (ee_now env (en_tick s1))) (en_step s1))
                            | (False, s1) \<Rightarrow> (False, s1)))
      in if \<not> ok then (OutcomeStop, s1)
         else
           (let s2 = en_emit cfg (ECompacted sid) s1
            in if cp_auto part \<and> compactionAutoContinue (hooks_at cfg s2) then continue_turn env cfg sid u s2
               else (OutcomeContinue, s2)))"

definition overflow_error :: "assistant_message \<Rightarrow> int \<Rightarrow> assistant_message" where
  "overflow_error a t =
     a\<lparr>am_error := Some \<lparr>er_name = ''ContextOverflowError'',
         er_data = [(''message'', JStr ''Session too large to compact - context exceeds model limit'')]\<rparr>,
       am_finish := ''error'', am_completed := Some t\<rparr>"

definition run_summary ::
  "eng_env \<Rightarrow> 'w eng_config \<Rightarrow> string \<Rightarrow> user_message \<Rightarrow> compaction_part \<Rightarrow> string \<Rightarrow> assistant_message
   \<Rightarrow> string + llm_event list \<Rightarrow> eng_state \<Rightarrow> outcome_kind \<times> eng_state"
where
  "run_summary env cfg sid u part tailStart a answer s =
     (case answer of
        Inl err \<Rightarrow> (OutcomeStop, snd (failAssistant env cfg a err s))
      | Inr evs \<Rightarrow>
          (case run_processor env
             \<lparr>cf_session = sid, cf_catalog = ec_catalog cfg, cf_bus = ec_bus cfg,
              cf_executor = None, cf_asker = None, cf_structured = ''''\<rparr> evs a s of
             (p, out, s1) \<Rightarrow>
               if out = OutcomeCompact then
                 (let a1 = overflow_error (pr_assistant p) (ee_now env (en_tick s1));
                      (_, s2) = put_message env (IAssistant a1) (en_step s1)
                  in (OutcomeStop, en_emit cfg (EMessage sid (IAssistant a1)) s2))
               else if out = OutcomeStop \<and> am_error (pr_assistant p) \<noteq> None then (OutcomeStop, s1)
               else finish_compaction env cfg sid u part tailStart s1))"

definition summarize_head ::
  "eng_env \<Rightarrow> 'w eng_config \<Rightarrow> string \<Rightarrow> user_message \<Rightarrow> compaction_part \<Rightarrow> with_parts list \<Rightarrow> string \<Rightarrow> eng_state
   \<Rightarrow> outcome_kind \<times> eng_state"
where
  "summarize_head env cfg sid u part head tailStart s =
     (if ee_provider env (md_provider (um_model u)) (md_model (um_model u)) \<noteq> None then (OutcomeStop, s)
      else
        (let a = new_summary cfg (ee_id env (en_tick s)) (ee_now env (en_tick s)) sid u
         in case put_message env (IAssistant a) (en_step s) of
              (False, s1) \<Rightarrow> (OutcomeStop, s1)
            | (True, s1) \<Rightarrow>
                (let s2 = en_emit cfg (EMessage sid (IAssistant a)) s1;
                     req = compaction_request cfg (hooks_at cfg s2) u head
                 in run_summary env cfg sid u part tailStart a (ee_stream env (en_tick s2) req)
                      ((en_step s2)\<lparr>en_requests := en_requests s2 @ [req]\<rparr>))))"

definition processCompaction ::
  "eng_env \<Rightarrow> 'w eng_config \<Rightarrow> string \<Rightarrow> with_parts list \<Rightarrow> user_message \<Rightarrow> compaction_part \<Rightarrow> eng_state
   \<Rightarrow> outcome_kind \<times> eng_state"
where
  "processCompaction env cfg sid filtered u part s =
     (let history = before_message (um_id u) filtered;
          (head, tailStart) = selectTail history defaultTailTurns
      in if head \<noteq> [] then summarize_head env cfg sid u part head tailStart s
         else if history = [] then (OutcomeContinue, delete_part env (pb_id (cp_base part)) s)
         else summarize_head env cfg sid u part history '''' s)"

subsection \<open>The loop\<close>

text \<open>How an iteration ends: the next one, the end of the loop, or a return with the error, if any.\<close>

datatype loop_next = Again | Break | Return with_parts "string option"

definition turn_config :: "eng_env \<Rightarrow> 'w eng_config \<Rightarrow> string \<Rightarrow> user_message \<Rightarrow> nat \<Rightarrow> proc_config" where
  "turn_config env cfg sid u n =
     \<lparr>cf_session = sid, cf_catalog = ec_catalog cfg, cf_bus = ec_bus cfg, cf_executor = Some (ee_exec env n),
      cf_asker = ec_asker cfg,
      cf_structured = (if wantsStructuredOutput (um_format u) then structuredOutputToolName else '''')\<rparr>"

definition return_parts :: "eng_env \<Rightarrow> assistant_message \<Rightarrow> string option \<Rightarrow> eng_state \<Rightarrow> loop_next \<times> eng_state" where
  "return_parts env a err s = (case withParts env a s of (wp, s1) \<Rightarrow> (Return wp err, s1))"

definition return_final :: "eng_env \<Rightarrow> string \<Rightarrow> string option \<Rightarrow> eng_state \<Rightarrow> loop_next \<times> eng_state" where
  "return_final env sid err s = (case finalAssistant env sid s of (wp, s1) \<Rightarrow> (Return wp err, s1))"

text \<open>After the processor returns.\<close>

definition after_turn ::
  "eng_env \<Rightarrow> 'w eng_config \<Rightarrow> string \<Rightarrow> user_message \<Rightarrow> processor \<Rightarrow> outcome_kind \<Rightarrow> eng_state \<Rightarrow> loop_next \<times> eng_state"
where
  "after_turn env cfg sid u p out s =
     (let a = pr_assistant p;
          structured = wantsStructuredOutput (um_format u)
      in case (if structured then Structured p else None) of
           Some answer \<Rightarrow> (case finishStructured env cfg a answer s of (a1, s1) \<Rightarrow> return_parts env a1 None s1)
         | None \<Rightarrow>
             if structured \<and> am_finish a \<noteq> '''' \<and> am_finish a \<noteq> ''tool-calls'' \<and> am_error a = None
             then (case failStructured env cfg a s of (a1, s1) \<Rightarrow> return_parts env a1 None s1)
             else
               (case out of
                  OutcomeStop \<Rightarrow> return_parts env a None s
                | OutcomeCompact \<Rightarrow>
                    (case createCompaction env cfg sid (um_model u) (um_agent u) True True s of
                       (True, s1) \<Rightarrow> (Again, s1)
                     | (False, s1) \<Rightarrow> return_parts env a (Some ''put'') s1)
                | OutcomeContinue \<Rightarrow> (Again, s)))"

definition run_turn ::
  "eng_env \<Rightarrow> 'w eng_config \<Rightarrow> string \<Rightarrow> user_message \<Rightarrow> with_parts list \<Rightarrow> bool \<Rightarrow> eng_state \<Rightarrow> loop_next \<times> eng_state"
where
  "run_turn env cfg sid u filtered isLast s =
     (case ee_provider env (md_provider (um_model u)) (md_model (um_model u)) of
        Some err \<Rightarrow> return_final env sid (Some err) s
      | None \<Rightarrow>
          (let a = new_assistant cfg (ee_id env (en_tick s)) (ee_now env (en_tick s)) sid u
           in case put_message env (IAssistant a) (en_step s) of
                (False, s1) \<Rightarrow> (Return no_message (Some ''put''), s1)
              | (True, s1) \<Rightarrow>
                  (let s2 = en_emit cfg (EMessage sid (IAssistant a)) s1;
                       req = build_request env cfg (hooks_at cfg s2) u filtered isLast;
                       s3 = (en_step s2)\<lparr>en_requests := en_requests s2 @ [req]\<rparr>
                   in case ee_stream env (en_tick s2) req of
                        Inl err \<Rightarrow> (case failAssistant env cfg a err s3 of (a1, s4) \<Rightarrow> return_parts env a1 None s4)
                      | Inr evs \<Rightarrow>
                          (case run_processor env (turn_config env cfg sid u (en_tick s2)) evs a s3 of
                             (p, out, s4) \<Rightarrow> after_turn env cfg sid u p out s4))))"

definition loop_body :: "eng_env \<Rightarrow> 'w eng_config \<Rightarrow> string \<Rightarrow> bool \<Rightarrow> eng_state \<Rightarrow> loop_next \<times> eng_state" where
  "loop_body env cfg sid isLast s =
     (if \<not> ee_live env (en_tick s) then (Break, en_step s)
      else
        (case read_stream env sid (en_step s) of
           (None, s1) \<Rightarrow> return_final env sid (Some ''stream'') s1
         | (Some msgs, s1) \<Rightarrow>
             (let filtered = FilterCompacted msgs; latest = LatestOf filtered
              in case lt_user latest of
                   None \<Rightarrow> (Break, s1)
                 | Some u \<Rightarrow>
                     (case pendingCompaction filtered (um_id u) of
                        Some cp \<Rightarrow>
                          (case processCompaction env cfg sid filtered u cp s1 of
                             (OutcomeStop, s2) \<Rightarrow> return_final env sid None s2
                           | (_, s2) \<Rightarrow> (Again, s2))
                      | None \<Rightarrow> if shouldExit latest then (Break, s1) else run_turn env cfg sid u filtered isLast s1))))"

fun put_parts :: "eng_env \<Rightarrow> part list \<Rightarrow> eng_state \<Rightarrow> eng_state" where
  "put_parts env [] s = s"
| "put_parts env (p # ps) s = put_parts env ps (snd (put_part env p s))"

definition prune :: "eng_env \<Rightarrow> string \<Rightarrow> eng_state \<Rightarrow> eng_state" where
  "prune env sid s =
     (case read_list env sid s of
        (None, s1) \<Rightarrow> s1
      | (Some msgs, s1) \<Rightarrow>
          put_parts env (map (mark_compacted (ee_now env (en_tick s1))) (prune_targets msgs)) (en_step s1))"

text \<open>\<open>n\<close> is the number of iterations left; the last one is the one with \<open>n = 1\<close>.\<close>

fun loop_from ::
  "eng_env \<Rightarrow> 'w eng_config \<Rightarrow> string \<Rightarrow> nat \<Rightarrow> eng_state \<Rightarrow> (with_parts \<times> string option) \<times> eng_state"
where
  "loop_from env cfg sid 0 s =
     (case finalAssistant env sid (prune env sid s) of (wp, s1) \<Rightarrow> ((wp, None), s1))"
| "loop_from env cfg sid (Suc n) s =
     (case loop_body env cfg sid (n = 0) s of
        (Again, s1) \<Rightarrow> loop_from env cfg sid n s1
      | (Break, s1) \<Rightarrow> (case finalAssistant env sid (prune env sid s1) of (wp, s2) \<Rightarrow> ((wp, None), s2))
      | (Return wp err, s1) \<Rightarrow> ((wp, err), s1))"

definition max_steps :: "'w eng_config \<Rightarrow> nat" where
  "max_steps cfg = nat (if ec_max_steps cfg \<le> 0 then defaultMaxSteps else ec_max_steps cfg)"

definition runLoop ::
  "eng_env \<Rightarrow> 'w eng_config \<Rightarrow> string \<Rightarrow> eng_state \<Rightarrow> (with_parts \<times> string option) \<times> eng_state"
where
  "runLoop env cfg sid s = loop_from env cfg sid (max_steps cfg) s"

subsection \<open>Prompting and summarizing\<close>

record part_input =
  pi_type :: string
  pi_text :: string
  pi_mime :: string
  pi_url :: string
  pi_filename :: string
  pi_source :: "json option"
  pi_synthetic :: bool

record prompt_input =
  pn_session :: string
  pn_parts :: "part_input list"
  pn_agent :: string
  pn_provider :: string
  pn_model :: string
  pn_system :: string
  pn_tools :: "(string, bool) gomap"
  pn_format :: "output_format option"

definition toPart :: "string \<Rightarrow> part_input \<Rightarrow> string \<Rightarrow> string \<Rightarrow> part option" where
  "toPart i inp sid mid =
     (let b = \<lparr>pb_id = i, pb_session = sid, pb_message = mid\<rparr>
      in if pi_type inp = ''file''
         then Some (PFile \<lparr>fp_base = b, fp_mime = pi_mime inp, fp_filename = pi_filename inp, fp_url = pi_url inp,
                           fp_source = pi_source inp\<rparr>)
         else if pi_text inp = '''' then None
         else Some (PText \<lparr>tp_base = b, tp_text = pi_text inp, tp_synthetic = pi_synthetic inp, tp_ignored = False,
                           tp_time = None, tp_meta = None\<rparr>))"

fun store_inputs ::
  "eng_env \<Rightarrow> 'w eng_config \<Rightarrow> string \<Rightarrow> string \<Rightarrow> part_input list \<Rightarrow> eng_state \<Rightarrow> bool \<times> eng_state"
where
  "store_inputs env cfg sid mid [] s = (True, s)"
| "store_inputs env cfg sid mid (inp # inps) s =
     (case toPart (ee_id env (en_tick s)) inp sid mid of
        None \<Rightarrow> store_inputs env cfg sid mid inps (en_step s)
      | Some p \<Rightarrow>
          (case put_part env p (en_step s) of
             (False, s1) \<Rightarrow> (False, s1)
           | (True, s1) \<Rightarrow>
               store_inputs env cfg sid mid inps
                 (en_emit cfg (EPart sid p (ee_now env (en_tick s1))) (en_step s1))))"

text \<open>
  \<^verbatim>\<open>Prompt\<close> up to the call of the loop: the expansion of mentions (\<open>expand\<close>) reads files and language
  servers and is an argument.
\<close>

definition prompt_message ::
  "eng_env \<Rightarrow> 'w eng_config \<Rightarrow> (part_input list \<Rightarrow> part_input list) \<Rightarrow> prompt_input \<Rightarrow> eng_state
   \<Rightarrow> string option \<times> eng_state"
where
  "prompt_message env cfg expand inp s =
     (if pn_provider inp = '''' \<or> pn_model inp = ''''
      then (Some ''prompt: provider and model are required'', s)
      else
        (let n = en_tick s;
             u = \<lparr>um_id = ee_id env n, um_session = pn_session inp, um_created = ee_now env n, um_format = pn_format inp,
                  um_agent = orDefault (pn_agent inp) ''build'',
                  um_model = \<lparr>md_provider = pn_provider inp, md_model = pn_model inp, md_variant = ''''\<rparr>,
                  um_system = pn_system inp, um_tools = pn_tools inp\<rparr>
         in case put_message env (IUser u) (en_step s) of
              (False, s1) \<Rightarrow> (Some ''put'', s1)
            | (True, s1) \<Rightarrow>
                (case store_inputs env cfg (um_session u) (um_id u) (expand (pn_parts inp))
                        (en_emit cfg (EMessage (um_session u) (IUser u)) s1) of
                   (True, s2) \<Rightarrow> (None, s2)
                 | (False, s2) \<Rightarrow> (Some ''put'', s2))))"

definition lastUserAgent :: "eng_env \<Rightarrow> string \<Rightarrow> eng_state \<Rightarrow> string \<times> eng_state" where
  "lastUserAgent env sid s =
     (case read_stream env sid s of
        (None, s1) \<Rightarrow> (''build'', s1)
      | (Some msgs, s1) \<Rightarrow>
          (case List.map_filter (\<lambda>m. case wp_info m of IUser u \<Rightarrow> if um_agent u \<noteq> '''' then Some (um_agent u) else None
                                     | _ \<Rightarrow> None) msgs of
             a # _ \<Rightarrow> (a, s1)
           | [] \<Rightarrow> (''build'', s1)))"

definition emitStatus :: "'w eng_config \<Rightarrow> string \<Rightarrow> string \<Rightarrow> eng_state \<Rightarrow> eng_state" where
  "emitStatus cfg sid status s =
     (let s1 = en_emit cfg (EStatus sid status) s in if status = ''idle'' then en_emit cfg (EIdle sid) s1 else s1)"

text \<open>A run of the loop that starts: the hooks of the run state around it.\<close>

definition eng_Loop ::
  "eng_env \<Rightarrow> 'w eng_config \<Rightarrow> string \<Rightarrow> eng_state \<Rightarrow> (with_parts \<times> string option) \<times> eng_state"
where
  "eng_Loop env cfg sid s =
     (case runLoop env cfg sid (emitStatus cfg sid ''busy'' s) of (r, s1) \<Rightarrow> (r, emitStatus cfg sid ''idle'' s1))"

definition Prompt ::
  "eng_env \<Rightarrow> 'w eng_config \<Rightarrow> (part_input list \<Rightarrow> part_input list) \<Rightarrow> prompt_input \<Rightarrow> eng_state
   \<Rightarrow> (with_parts \<times> string option) \<times> eng_state"
where
  "Prompt env cfg expand inp s =
     (case prompt_message env cfg expand inp s of
        (Some err, s1) \<Rightarrow> ((no_message, Some err), s1)
      | (None, s1) \<Rightarrow> eng_Loop env cfg (pn_session inp) s1)"

definition Summarize ::
  "eng_env \<Rightarrow> 'w eng_config \<Rightarrow> string \<Rightarrow> string \<Rightarrow> string \<Rightarrow> string \<Rightarrow> bool \<Rightarrow> eng_state \<Rightarrow> string option \<times> eng_state"
where
  "Summarize env cfg sid provider model agent auto s =
     (if provider = '''' \<or> model = '''' then (Some ''summarize: provider and model are required'', s)
      else
        (let (agent', s1) = (if agent = '''' then lastUserAgent env sid s else (agent, s))
         in case createCompaction env cfg sid \<lparr>md_provider = provider, md_model = model, md_variant = ''''\<rparr> agent' auto False s1 of
              (False, s2) \<Rightarrow> (Some ''put'', s2)
            | (True, s2) \<Rightarrow> (case eng_Loop env cfg sid s2 of ((_, err), s3) \<Rightarrow> (err, s3))))"

subsection \<open>What every operation keeps\<close>

text \<open>
  \<open>grows n s s'\<close>: from \<open>s\<close> to \<open>s'\<close> at most \<open>n\<close> requests were sent, the tables stay well-formed, no
  message is lost, sessions are untouched and readings are consumed in order.
\<close>

definition grows :: "nat \<Rightarrow> eng_state \<Rightarrow> eng_state \<Rightarrow> bool" where
  "grows n s s' =
     ((\<exists>rs. en_requests s' = en_requests s @ rs \<and> length rs \<le> n) \<and>
      (store_ok (en_store s) \<longrightarrow> store_ok (en_store s')) \<and>
      (\<forall>k. has_key mr_id k (ms_messages (en_store s)) \<longrightarrow> has_key mr_id k (ms_messages (en_store s'))) \<and>
      en_tick s \<le> en_tick s')"

lemma grows_refl [simp]: "grows n s s"
  by (simp add: grows_def)

lemma grows_trans: "grows m s s' \<Longrightarrow> grows n s' s'' \<Longrightarrow> grows (m + n) s s''"
proof -
  assume a: "grows m s s'" and b: "grows n s' s''"
  from a b obtain rs rs' where "en_requests s' = en_requests s @ rs" "length rs \<le> m"
    "en_requests s'' = en_requests s' @ rs'" "length rs' \<le> n"
    by (auto simp: grows_def)
  then have "en_requests s'' = en_requests s @ (rs @ rs') \<and> length (rs @ rs') \<le> m + n" by simp
  then show ?thesis using a b unfolding grows_def by (metis order_trans)
qed

lemma grows_then: "grows 0 s s' \<Longrightarrow> grows n s' s'' \<Longrightarrow> grows n s s''"
  "grows n s s' \<Longrightarrow> grows 0 s' s'' \<Longrightarrow> grows n s s''"
  using grows_trans [of 0 s s' n s''] grows_trans [of n s s' 0 s''] by simp_all

lemma grows_mono: "grows m s s' \<Longrightarrow> m \<le> n \<Longrightarrow> grows n s s'"
  unfolding grows_def using order_trans by blast

lemma grows_step [simp]: "grows n s (en_step s)"
  by (simp add: grows_def en_step_def)

lemma grows_emit [simp]: "grows n s (en_emit cfg e s)"
  by (simp add: grows_def en_emit_def)

lemma grows_read [simp]: "grows n s (snd (read_stream env sid s))" "grows n s (snd (read_list env sid s))"
  by (simp_all add: read_stream_def read_list_def)

lemma PutMessage_keeps: "PutMessage t i s = Some s' \<Longrightarrow> has_key mr_id k (ms_messages s) \<Longrightarrow> has_key mr_id k (ms_messages s')"
  by (auto simp: PutMessage_def Let_def upsert_key_set split: if_splits)

lemma PutPart_keeps: "PutPart p s = Some s' \<Longrightarrow> ms_messages s' = ms_messages s"
  by (auto simp: PutPart_def split: if_splits)

lemma grows_put_message [simp]: "grows n s (snd (put_message env i s))"
  by (auto simp: put_message_def grows_def en_step_def PutMessage_ok PutMessage_keeps split: option.split)

lemma grows_put_part [simp]: "grows n s (snd (put_part env p s))"
  by (auto simp: put_part_def grows_def en_step_def PutPart_ok PutPart_keeps split: option.split)

lemma grows_delete_part [simp]: "grows n s (delete_part env pid s)"
  using Delete_ok(1) by (auto simp: delete_part_def grows_def en_step_def DeletePart_def)

lemma statement_keeps:
  "has_key mr_id k (ms_messages s) \<Longrightarrow> has_key mr_id k (ms_messages (run_statement (SPutPart q) s))"
  "has_key mr_id k (ms_messages s) \<Longrightarrow> has_key mr_id k (ms_messages (run_statement (SPutMessage t i) s))"
  by (auto simp: run_statement_def PutPart_keeps PutMessage_keeps split: option.split)

lemma apply_writes_keeps:
  "store_ok s \<Longrightarrow> store_ok (apply_writes t p s)"
  "has_key mr_id k (ms_messages s) \<Longrightarrow> has_key mr_id k (ms_messages (apply_writes t p s))"
proof -
  have "store_ok s \<Longrightarrow> store_ok (fold (\<lambda>q. run_statement (SPutPart q)) qs s)" for qs
    by (induction qs arbitrary: s) (auto intro: statement_ok)
  then show "store_ok s \<Longrightarrow> store_ok (apply_writes t p s)"
    by (auto simp: apply_writes_def Let_def intro: statement_ok split: option.split)
  have "has_key mr_id k (ms_messages s) \<Longrightarrow>
      has_key mr_id k (ms_messages (fold (\<lambda>q. run_statement (SPutPart q)) qs s))" for qs
    by (induction qs arbitrary: s) (auto intro: statement_keeps)
  then show "has_key mr_id k (ms_messages s) \<Longrightarrow> has_key mr_id k (ms_messages (apply_writes t p s))"
    by (auto simp: apply_writes_def Let_def intro: statement_keeps split: option.split)
qed

lemma grows_processor: "run_processor env pcf evs a s = (p, out, s') \<Longrightarrow> grows n s s'"
  by (auto simp: run_processor_def grows_def Let_def apply_writes_keeps split: prod.splits)

lemma grows_request: "grows (Suc 0) s ((en_step s)\<lparr>en_requests := en_requests s @ [r]\<rparr>)"
  by (simp add: grows_def en_step_def)

text \<open>The same facts for a result that has been taken apart.\<close>

lemma grows_results:
  "put_message env i s = (b, s') \<Longrightarrow> grows n s s'"
  "put_part env p s = (b, s') \<Longrightarrow> grows n s s'"
  "read_stream env sid s = (ms, s') \<Longrightarrow> grows n s s'"
  "read_list env sid s = (ms, s') \<Longrightarrow> grows n s s'"
  using grows_put_message grows_put_part grows_read by (metis snd_conv)+

lemma grows_withParts: "withParts env a s = (wp, s') \<Longrightarrow> grows n s s'"
  by (auto simp: withParts_def split: option.splits)

lemma grows_final: "finalAssistant env sid s = (wp, s') \<Longrightarrow> grows n s s'"
  by (auto simp: finalAssistant_def grows_results split: prod.splits option.splits)

lemma grows_returns:
  "return_parts env a err s = (r, s') \<Longrightarrow> grows n s s'"
  "return_final env sid err s = (r, s') \<Longrightarrow> grows n s s'"
  by (auto simp: return_parts_def return_final_def grows_withParts grows_final split: prod.splits)

lemma grows_then_emit: "grows n s s' \<Longrightarrow> grows n s (en_emit cfg e s')"
  by (erule grows_then(2)) simp

lemma grows_then_step: "grows n s s' \<Longrightarrow> grows n s (en_step s')"
  by (erule grows_then(2)) simp

lemma grows_from_step: "grows n (en_step s) s' \<Longrightarrow> grows n s s'"
  by (erule grows_then(1) [rotated]) simp

lemma grows_from_emit: "grows n (en_emit cfg e s) s' \<Longrightarrow> grows n s s'"
  by (erule grows_then(1) [rotated]) simp

lemmas grows_steps = grows_then_emit grows_then_step

lemma grows_messages:
  "failAssistant env cfg a msg s = (a', s') \<Longrightarrow> grows n s s'"
  "finishStructured env cfg a out s = (a', s') \<Longrightarrow> grows n s s'"
  "failStructured env cfg a s = (a', s') \<Longrightarrow> grows n s s'"
  by (auto simp: failAssistant_def finishStructured_def failStructured_def Let_def split: prod.splits
    intro!: grows_then_emit intro: grows_from_step grows_results)

lemma grows_createCompaction: "createCompaction env cfg sid m a au ov s = (b, s') \<Longrightarrow> grows 0 s s'"
  unfolding createCompaction_def Let_def
  by (auto split: prod.splits bool.splits intro!: grows_steps dest!: grows_results(1,2) [where n = 0]
    intro: grows_from_step grows_then(1) grows_from_emit)

lemma grows_continue: "continue_turn env cfg sid u s = (b, s') \<Longrightarrow> grows 0 s s'"
  unfolding continue_turn_def Let_def
  by (auto split: prod.splits bool.splits intro!: grows_steps dest!: grows_results(1,2) [where n = 0]
    intro: grows_from_step grows_then(1) grows_from_emit)

lemma grows_finish_compaction: "finish_compaction env cfg sid u part ts s = (b, s') \<Longrightarrow> grows 0 s s'"
  unfolding finish_compaction_def Let_def
  by (auto split: prod.splits bool.splits if_splits intro!: grows_steps dest!: grows_results(2) [where n = 0] grows_continue
    intro: grows_from_step grows_then(1) grows_from_emit)

lemma grows_sent:
  assumes "put_message env i (en_step s) = (b, s1)"
  shows "grows (Suc 0) s ((en_step (en_emit cfg e s1))\<lparr>en_requests := en_requests (en_emit cfg e s1) @ [req]\<rparr>)"
proof -
  have "grows 0 s (en_emit cfg e s1)"
    using grows_then_emit [OF grows_from_step [OF grows_results(1) [OF assms]]] .
  then show ?thesis using grows_request by (rule grows_then(1))
qed

lemma grows_after_turn: "after_turn env cfg sid u p out s = (b, s') \<Longrightarrow> grows 0 s s'"
  unfolding after_turn_def Let_def
  by (auto split: prod.splits option.splits if_splits outcome_kind.splits bool.splits
      dest!: grows_messages(2,3) [where n = 0] grows_returns [where n = 0] grows_createCompaction
      intro: grows_then(1))

lemma grows_run_turn:
  assumes "run_turn env cfg sid u filtered isLast s = (nx, s')"
  shows "grows (Suc 0) s s'"
proof (cases "ee_provider env (md_provider (um_model u)) (md_model (um_model u))")
  case (Some err)
  then show ?thesis using assms by (auto simp: run_turn_def grows_returns)
next
  case None
  let ?a = "new_assistant cfg (ee_id env (en_tick s)) (ee_now env (en_tick s)) sid u"
  obtain b s1 where put: "put_message env (IAssistant ?a) (en_step s) = (b, s1)" by fastforce
  show ?thesis
  proof (cases b)
    case False
    then show ?thesis
      using assms put None grows_from_step [OF grows_results(1) [OF put]] by (simp add: run_turn_def Let_def)
  next
    case True
    let ?s2 = "en_emit cfg (EMessage sid (IAssistant ?a)) s1"
    let ?req = "build_request env cfg (hooks_at cfg ?s2) u filtered isLast"
    let ?s3 = "(en_step ?s2)\<lparr>en_requests := en_requests ?s2 @ [?req]\<rparr>"
    have sent: "grows (Suc 0) s ?s3" by (rule grows_sent [OF put])
    have "grows 0 ?s3 s'"
      using assms put None True
      by (auto simp: run_turn_def Let_def split: sum.splits prod.splits
          dest!: grows_messages(1) [where n = 0] grows_returns [where n = 0] grows_after_turn
            grows_processor [where n = 0] intro: grows_then(1))
    with sent show ?thesis by (rule grows_then(2))
  qed
qed

lemma grows_fail [simp]: "grows n s (snd (failAssistant env cfg a msg s))"
  using grows_messages(1) [OF surjective_pairing] .

lemma grows_run_summary: "run_summary env cfg sid u part ts a answer s = (nx, s') \<Longrightarrow> grows 0 s s'"
  unfolding run_summary_def Let_def
  by (auto split: sum.splits prod.splits if_splits intro!: grows_then_emit
      intro: grows_then(1) grows_from_step dest!: grows_processor [where n = 0] grows_finish_compaction
        grows_results(1) [where n = 0])

lemma grows_summarize:
  assumes "summarize_head env cfg sid u part head ts s = (nx, s')"
  shows "grows (Suc 0) s s'"
proof -
  let ?a = "new_summary cfg (ee_id env (en_tick s)) (ee_now env (en_tick s)) sid u"
  obtain b s1 where put: "put_message env (IAssistant ?a) (en_step s) = (b, s1)" by fastforce
  let ?s2 = "en_emit cfg (EMessage sid (IAssistant ?a)) s1"
  let ?req = "compaction_request cfg (hooks_at cfg ?s2) u head"
  let ?s3 = "(en_step ?s2)\<lparr>en_requests := en_requests ?s2 @ [?req]\<rparr>"
  have "s' = s \<or> s' = s1 \<or> grows 0 ?s3 s'"
    using assms put
    by (auto simp: summarize_head_def Let_def split: if_splits bool.splits intro: grows_run_summary)
  then show ?thesis
    using grows_sent [OF put] grows_then(2) grows_from_step [OF grows_results(1) [OF put]] grows_refl by metis
qed

lemma grows_processCompaction: "processCompaction env cfg sid filtered u part s = (nx, s') \<Longrightarrow> grows (Suc 0) s s'"
  by (auto simp: processCompaction_def Let_def grows_summarize split: prod.splits if_splits)

lemma grows_body: "loop_body env cfg sid isLast s = (nx, s') \<Longrightarrow> grows (Suc 0) s s'"
  unfolding loop_body_def Let_def
  by (auto split: if_splits prod.splits option.splits outcome_kind.splits
      dest!: grows_results(3) [where n = 0] grows_processCompaction grows_run_turn grows_returns [where n = 0]
      intro: grows_from_step grows_then grows_mono)

lemma grows_put_parts: "grows 0 s (put_parts env ps s)"
proof (induction ps arbitrary: s)
  case (Cons p ps)
  show ?case using grows_then(1) [OF grows_put_part Cons.IH] by simp
qed simp

lemma grows_prune: "grows 0 s (prune env sid s)"
proof (cases "read_list env sid s")
  case (Pair ms s1)
  then have "grows 0 s s1" by (rule grows_results)
  then show ?thesis
    using grows_then(1) [OF grows_then_step grows_put_parts] Pair by (auto simp: prune_def split: option.split)
qed

lemma grows_wrap_up:
  "finalAssistant env sid (prune env sid s) = (wp, s') \<Longrightarrow> grows 0 s s'"
  using grows_prune grows_final grows_then(1) by blast

lemma grows_loop: "loop_from env cfg sid n s = (r, s') \<Longrightarrow> grows n s s'"
proof (induction n arbitrary: s)
  case 0
  then show ?case by (auto split: prod.splits dest!: grows_wrap_up)
next
  case (Suc n)
  obtain nx s1 where body: "loop_body env cfg sid (n = 0) s = (nx, s1)" by fastforce
  then have one: "grows (Suc 0) s s1" by (rule grows_body)
  have "grows n s1 s'"
    using Suc body by (cases nx) (auto split: prod.splits dest!: grows_wrap_up elim: grows_mono)
  with one show ?case using grows_trans by fastforce
qed

subsection \<open>The run as a whole\<close>


definition demo_eng_env :: eng_env where
  "demo_eng_env =
     \<lparr>ee_now = (\<lambda>n. int n), ee_id = (\<lambda>n. itoa (1000 + n)), ee_ok = (\<lambda>_. True), ee_live = (\<lambda>_. True),
      ee_provider = (\<lambda>_ _. None), ee_stream = (\<lambda>_ _. Inl ''offline''), ee_exec = (\<lambda>_ _. ExecCancelled),
      ee_fl = id, ee_order = id, ee_today = ''2026-01-01'', ee_platform = ''linux''\<rparr>"

definition demo_eng_config :: "unit eng_config" where
  "demo_eng_config =
     \<lparr>ec_registry = reg_New [demo_reg_tool ''bash''], ec_flags = \<lparr>fl_websearch = False, fl_lsp = False\<rparr>, ec_catalog = [],
      ec_bus = False, ec_directory = ''/w'', ec_root = ''/w'', ec_instructions = [], ec_max_steps = 1, ec_mcp = None,
      ec_asker = None, ec_plugins = None, ec_prompts = Map.empty, ec_sentinel = ''stop'', ec_summary_template = '''',
      ec_structured_description = '''', ec_structured_prompt = ''''\<rparr>"

definition demo_eng_state :: eng_state where
  "demo_eng_state = \<lparr>en_store = demo_store, en_tick = 0, en_requests = [], en_events = []\<rparr>"


lemma grows_0_requests: "grows 0 s s' \<Longrightarrow> en_requests s' = en_requests s"
  by (auto simp: grows_def)

lemma en_step_fields [simp]:
  "en_store (en_step s) = en_store s" "en_requests (en_step s) = en_requests s" "en_tick (en_step s) = Suc (en_tick s)"
  "en_requests (en_emit cfg e s) = en_requests s"
  by (simp_all add: en_step_def en_emit_def)

lemma run_turn_request:
  assumes "run_turn env cfg sid u filtered isLast s = (nx, s')"
  shows "en_requests s' = en_requests s \<or>
    (\<exists>hk. en_requests s' = en_requests s @ [build_request env cfg hk u filtered isLast])"
proof (cases "ee_provider env (md_provider (um_model u)) (md_model (um_model u))")
  case (Some err)
  then show ?thesis using assms grows_returns(2) grows_0_requests by (simp add: run_turn_def)
next
  case None
  let ?a = "new_assistant cfg (ee_id env (en_tick s)) (ee_now env (en_tick s)) sid u"
  obtain b s1 where put: "put_message env (IAssistant ?a) (en_step s) = (b, s1)" by fastforce
  have r1: "en_requests s1 = en_requests s" using grows_0_requests [OF grows_results(1) [OF put]] by simp
  show ?thesis
  proof (cases b)
    case False
    then show ?thesis using assms put None r1 by (simp add: run_turn_def Let_def)
  next
    case True
    let ?s2 = "en_emit cfg (EMessage sid (IAssistant ?a)) s1"
    let ?req = "build_request env cfg (hooks_at cfg ?s2) u filtered isLast"
    let ?s3 = "(en_step ?s2)\<lparr>en_requests := en_requests ?s2 @ [?req]\<rparr>"
    have "grows 0 ?s3 s'"
      using assms put None True
      by (auto simp: run_turn_def Let_def split: sum.splits prod.splits
          dest!: grows_messages(1) [where n = 0] grows_returns [where n = 0] grows_after_turn
            grows_processor [where n = 0] intro: grows_then(1))
    from grows_0_requests [OF this] have "en_requests s' = en_requests s @ [?req]" by (simp add: r1)
    then show ?thesis by blast
  qed
qed

text \<open>
  On its last step the model is told that tools are disabled and must answer with text, and it is
  offered them all the same: the request of that step ends with the sentinel message, carries
  every tool of the registry for the model and lets or makes the model call one.
\<close>

theorem last_step_offers_tools:
  assumes "run_turn env cfg sid u filtered True s = (nx, s')" "en_requests s' \<noteq> en_requests s"
  shows "\<exists>r. en_requests s' = en_requests s @ [r] \<and> last (rq_messages r) = sentinel_message cfg \<and>
    set (Definitions (md_model (um_model u)) (ec_flags cfg) (ec_registry cfg)) \<subseteq> set (rq_tools r) \<and>
    rq_tool_choice r \<in> {ToolChoiceAuto, ToolChoiceRequired}"
proof -
  have "last (rq_messages (build_request env cfg hk u filtered True)) = sentinel_message cfg \<and>
    set (Definitions (md_model (um_model u)) (ec_flags cfg) (ec_registry cfg)) \<subseteq> set (rq_tools (build_request env cfg hk u filtered True)) \<and>
    rq_tool_choice (build_request env cfg hk u filtered True) \<in> {ToolChoiceAuto, ToolChoiceRequired}" for hk
    by (auto simp: build_request_def Let_def)
  then show ?thesis using run_turn_request [OF assms(1)] assms(2) by blast
qed

lemma demo_turn_sends:
  "en_requests (snd (run_turn demo_eng_env demo_eng_config ''s'' (demo_user ''m1'') [] True demo_eng_state)) \<noteq> []"
proof -
  let ?a = "new_assistant demo_eng_config (ee_id demo_eng_env 0) (ee_now demo_eng_env 0) ''s'' (demo_user ''m1'')"
  obtain b s1 where put: "put_message demo_eng_env (IAssistant ?a) (en_step demo_eng_state) = (b, s1)" by fastforce
  have b: "b = True" and r: "en_requests s1 = []"
    using put by (auto simp: put_message_def demo_eng_env_def demo_eng_state_def demo_store_value PutMessage_def
      has_key_def info_id_def sessionOf_def new_assistant_def Let_def split: option.splits if_splits)
  let ?s2 = "en_emit demo_eng_config (EMessage ''s'' (IAssistant ?a)) s1"
  have "ee_stream demo_eng_env n q = Inl ''offline''" for n q by (simp add: demo_eng_env_def)
  moreover have "en_requests (snd (return_parts demo_eng_env a err s)) = en_requests s" for a err s
    using grows_0_requests [OF grows_returns(1) [where n = 0, OF surjective_pairing]] .
  ultimately show ?thesis
    using put b r
    by (auto simp: run_turn_def Let_def demo_eng_env_def [THEN arg_cong [where f = ee_provider]] demo_eng_state_def
        split: prod.splits dest!: grows_0_requests [OF grows_messages(1)])
qed

theorem last_step_offers_tools_witness:
  "\<exists>r :: llm_request. last (rq_messages r) = sentinel_message demo_eng_config \<and>
     set (Definitions ''gpt'' \<lparr>fl_websearch = False, fl_lsp = False\<rparr> (reg_New [demo_reg_tool ''bash''])) \<subseteq> set (rq_tools r)"
proof -
  have "en_requests (snd (run_turn demo_eng_env demo_eng_config ''s'' (demo_user ''m1'') [] True demo_eng_state)) \<noteq>
      en_requests demo_eng_state"
    using demo_turn_sends by (simp add: demo_eng_state_def)
  from last_step_offers_tools [OF surjective_pairing this] obtain r :: llm_request where
    r: "last (rq_messages r) = sentinel_message demo_eng_config"
      "set (Definitions (md_model (um_model (demo_user ''m1''))) (ec_flags demo_eng_config) (ec_registry demo_eng_config)) \<subseteq> set (rq_tools r)"
    by blast
  have "md_model (um_model (demo_user ''m1'')) = ''gpt''" "ec_flags demo_eng_config = \<lparr>fl_websearch = False, fl_lsp = False\<rparr>"
    "ec_registry demo_eng_config = reg_New [demo_reg_tool ''bash'']"
    by (simp_all add: demo_eng_config_def demo_user_def)
  with r show ?thesis by auto
qed

text \<open>
  A finished conversation costs nothing: when the newest assistant message is finished, is newer
  than the newest user message and no compaction is pending, the run ends without a request,
  whatever fails on the way.
\<close>

theorem finished_conversation_sends_nothing:
  assumes "filtered = FilterCompacted (st_Stream sid (en_store s))" "lt_user (LatestOf filtered) = Some u"
    "lt_assistant (LatestOf filtered) = Some a" "am_finish a \<notin> {'''', ''tool-calls''}" "um_id u < am_id a"
    "pendingCompaction filtered (um_id u) = None"
  shows "en_requests (snd (runLoop env cfg sid s)) = en_requests s"
proof -
  have "0 < max_steps cfg" by (simp add: max_steps_def defaultMaxSteps_def)
  then obtain n where n: "max_steps cfg = Suc n" by (cases "max_steps cfg") auto
  have exit: "shouldExit (LatestOf filtered)" using assms(2-5) by (simp add: shouldExit_def)
  obtain nx s1 where body: "loop_body env cfg sid (n = 0) s = (nx, s1)" by fastforce
  have nx: "nx \<noteq> Again"
    using body assms exit
    by (auto simp: loop_body_def Let_def read_stream_def return_final_def split: if_splits prod.splits)
  have "grows 0 s s1"
    using body assms exit
    by (auto simp: loop_body_def Let_def read_stream_def split: if_splits prod.splits dest!: grows_returns(2) [where n = 0]
      intro: grows_from_step grows_steps)
  then have "en_requests s1 = en_requests s" by (rule grows_0_requests)
  then show ?thesis
    using nx body n grows_0_requests [OF grows_wrap_up] unfolding runLoop_def
    by (cases nx) (auto split: prod.splits)
qed

definition demo_finished_state :: eng_state where
  "demo_finished_state =
     \<lparr>en_store = run_statement (SPutMessage 6 (IAssistant (demo_assistant ''m2'' ''m1'' False))) demo_store,
      en_tick = 0, en_requests = [], en_events = []\<rparr>"

theorem finished_conversation_sends_nothing_witness:
  "en_requests (snd (runLoop demo_eng_env demo_eng_config ''s'' demo_finished_state)) = []"
proof -
  let ?m1 = "\<lparr>wp_info = IUser (demo_user ''m1''), wp_parts = []\<rparr>"
  let ?m2 = "\<lparr>wp_info = IAssistant (demo_assistant ''m2'' ''m1'' False), wp_parts = []\<rparr>"
  have "st_Stream ''s'' (en_store demo_finished_state) = [?m2, ?m1]"
    by (simp add: demo_finished_state_def demo_store_value run_statement_def PutMessage_def has_key_def info_id_def
      sessionOf_def infoCreated_def demo_assistant_def demo_user_def upsert_def st_Stream_def load_def ordered_rows_def
      Parts_def less_eq_prod_def)
  then have "FilterCompacted (st_Stream ''s'' (en_store demo_finished_state)) = FilterCompacted [?m2, ?m1]" by simp
  moreover have "FilterCompacted [?m2, ?m1] = [?m1, ?m2]"
    by (simp add: FilterCompacted_def completes_def is_user_def arrange_compacted_def findLastIndex_def
      is_tail_compaction_def wp_id_def info_id_def demo_assistant_def)
  moreover have "lt_user (LatestOf [?m1, ?m2]) = Some (demo_user ''m1'')"
    "lt_assistant (LatestOf [?m1, ?m2]) = Some (demo_assistant ''m2'' ''m1'' False)"
    by (simp_all add: LatestOf_def newer_def Let_def)
  moreover have "pendingCompaction [?m1, ?m2] ''m1'' = None"
    by (simp add: pendingCompaction_def compaction_of_def wp_id_def info_id_def demo_user_def demo_assistant_def)
  moreover have "um_id (demo_user ''m1'') = ''m1''" "am_id (demo_assistant ''m2'' ''m1'' False) = ''m2''"
    "am_finish (demo_assistant ''m2'' ''m1'' False) = ''stop''"
    by (simp_all add: demo_user_def demo_assistant_def)
  ultimately have "en_requests (snd (runLoop demo_eng_env demo_eng_config ''s'' demo_finished_state)) = en_requests demo_finished_state"
    by (intro finished_conversation_sends_nothing [OF refl, where u = "demo_user ''m1''" and a = "demo_assistant ''m2'' ''m1'' False"])
      simp_all
  then show ?thesis by (simp add: demo_finished_state_def)
qed

end
