(* ===== verification/PtyText.thy ===== *)
theory PtyText
  imports Utf8
begin

text \<open>
  How a terminal's raw output becomes text (\<^verbatim>\<open>internal/pty/pty.go\<close>): an incomplete rune at the end of
  a read is held back for the next one, every other byte is emitted, invalid ones as U+FFFD. Bytes
  are characters; the masks are bit operations on their codes.
\<close>

unbundle bit_operations_syntax

subsection \<open>Holding back an incomplete rune\<close>

definition isContinuationByte :: "char \<Rightarrow> bool" where
  "isContinuationByte c = (byte_of c AND 0xC0 = (0x80 :: nat))"

definition leadRuneLen :: "char \<Rightarrow> nat" where
  "leadRuneLen c =
     (if byte_of c AND 0x80 = (0x00 :: nat) then 1
      else if byte_of c AND 0xE0 = (0xC0 :: nat) then 2
      else if byte_of c AND 0xF0 = (0xE0 :: nat) then 3
      else if byte_of c AND 0xF8 = (0xF0 :: nat) then 4
      else 0)"

definition allContinuation :: "string \<Rightarrow> bool" where
  "allContinuation b = list_all isContinuationByte b"

text \<open>
  The loop over \<open>back\<close> reads the bytes from the last one on, at most \<^verbatim>\<open>utf8.UTFMax-1\<close> of them; \<open>seen\<close>
  are the bytes after the one it is at.
\<close>

fun tail_scan :: "nat \<Rightarrow> string \<Rightarrow> string \<Rightarrow> nat" where
  "tail_scan back [] seen = 0"
| "tail_scan back (lead # before) seen =
     (if back > 3 then 0
      else if isContinuationByte lead then tail_scan (Suc back) before (lead # seen)
      else if leadRuneLen lead > back \<and> allContinuation seen then back
      else 0)"

definition incompleteTrailingLen :: "string \<Rightarrow> nat" where
  "incompleteTrailingLen b = tail_scan 1 (rev b) []"

definition decodeValidUTF8 :: "string \<Rightarrow> string" where
  "decodeValidUTF8 b = (if utf8_valid b then b else string_of_runes (runes_of b))"

definition splitValidUTF8 :: "string \<Rightarrow> string \<times> string" where
  "splitValidUTF8 b =
     (if b = [] then ([], [])
      else
        (let hold = incompleteTrailingLen b
         in if hold > 0 then (decodeValidUTF8 (take (length b - hold) b), drop (length b - hold) b)
            else (decodeValidUTF8 b, [])))"

text \<open>The text of a read, and the bytes carried to the next one.\<close>

definition take_read :: "string \<Rightarrow> string \<Rightarrow> string \<times> string" where
  "take_read partial raw = splitValidUTF8 (partial @ raw)"

fun take_reads :: "string \<Rightarrow> string list \<Rightarrow> string list \<times> string" where
  "take_reads partial [] = ([], partial)"
| "take_reads partial (raw # raws) =
     (case take_read partial raw of (text, partial') \<Rightarrow>
        (case take_reads partial' raws of (texts, partial'') \<Rightarrow> (text # texts, partial'')))"

subsection \<open>Bytes and masks\<close>

lemma byte_lt: "byte_of c < (256 :: nat)"
  by (rule nat_of_char_less_256)

lemma and_high_bits: "n AND push_bit k (mask m) = 2 ^ k * (n div 2 ^ k mod 2 ^ m)" for n :: nat
proof -
  have "n AND push_bit k (mask m) = push_bit k (take_bit m (drop_bit k n))"
    by (rule bit_eqI) (auto simp: bit_simps)
  then show ?thesis by (simp add: push_bit_eq_mult take_bit_eq_mod drop_bit_eq_div mult.commute)
qed

lemma high_bits_are:
  fixes n :: nat
  assumes "n < 2 ^ (k + m)"
  shows "n AND push_bit k (mask m) = 2 ^ k * v \<longleftrightarrow> 2 ^ k * v \<le> n \<and> n < 2 ^ k * Suc v"
proof -
  have "n div 2 ^ k < 2 ^ m"
    using assms by (simp add: less_mult_imp_div_less power_add mult.commute)
  then have "n AND push_bit k (mask m) = 2 ^ k * (n div 2 ^ k)" by (simp add: and_high_bits)
  moreover have "n div 2 ^ k = v \<longleftrightarrow> 2 ^ k * v \<le> n \<and> n < 2 ^ k * Suc v"
    using div_nat_eqI [of "2 ^ k" v n] dividend_less_times_div [of "2 ^ k" n] times_div_less_eq_dividend [of "2 ^ k" n]
    by (auto simp: mult.commute)
  ultimately show ?thesis by simp
qed

lemma masks:
  assumes "(n :: nat) < 256"
  shows "(n AND 0xC0 = 0x80) = (128 \<le> n \<and> n < 192)" "(n AND 0x80 = 0) = (n < 128)"
    "(n AND 0xE0 = 0xC0) = (192 \<le> n \<and> n < 224)" "(n AND 0xF0 = 0xE0) = (224 \<le> n \<and> n < 240)"
    "(n AND 0xF8 = 0xF0) = (240 \<le> n \<and> n < 248)"
  using assms high_bits_are [of n 6 2 2] high_bits_are [of n 7 1 0] high_bits_are [of n 5 3 6]
    high_bits_are [of n 4 4 14] high_bits_are [of n 3 5 30]
  by (simp_all add: mask_eq_exp_minus_1 push_bit_eq_mult)

lemma continuation_range: "isContinuationByte c \<longleftrightarrow> is_cont c"
  by (simp add: isContinuationByte_def masks [OF byte_lt] is_cont_def in_range_def) linarith

lemma lead_len: "rune_len (byte_of c) \<noteq> 0 \<Longrightarrow> leadRuneLen c = rune_len (byte_of c) \<and> \<not> is_cont c"
  by (auto simp: leadRuneLen_def masks [OF byte_lt] rune_len_def is_cont_def in_range_def split: if_splits)

subsection \<open>Complete runes\<close>

definition whole_rune :: "string \<Rightarrow> bool" where
  "whole_rune c = (c \<noteq> [] \<and> full_rune c \<noteq> None \<and> length c = rune_len (byte_of (hd c)))"

lemma second_cont: "second_ok b c \<Longrightarrow> is_cont c"
  by (auto simp: second_ok_def second_range_def is_cont_def in_range_def split: if_splits)

text \<open>The four shapes of a complete rune at the start of a string.\<close>

lemma full_rune_cases:
  assumes "full_rune s = Some r"
  obtains c0 t where "s = c0 # t" "rune_len (byte_of c0) = 1"
  | c0 c1 t where "s = c0 # c1 # t" "rune_len (byte_of c0) = 2" "is_cont c1"
  | c0 c1 c2 t where "s = c0 # c1 # c2 # t" "rune_len (byte_of c0) = 3" "second_ok (byte_of c0) c1" "is_cont c2"
  | c0 c1 c2 c3 t where "s = c0 # c1 # c2 # c3 # t" "rune_len (byte_of c0) = 4"
      "second_ok (byte_of c0) c1" "is_cont c2" "is_cont c3"
proof -
  from assms obtain c0 cs where s: "s = c0 # cs" by (cases s) auto
  let ?n = "rune_len (byte_of c0)"
  from full_rune_len_pos [OF assms] s have "1 \<le> ?n" by simp
  moreover have "?n \<le> 4" by (simp add: rune_len_def)
  ultimately consider "?n = 1" | "?n = 2" | "?n = 3" | "?n = 4" by linarith
  then show thesis
  proof cases
    case 1
    then show thesis using s that(1) by blast
  next
    case 2
    with assms s obtain c1 t where "cs = c1 # t" "is_cont c1" by (cases cs) (auto split: if_splits)
    then show thesis using 2 s that(2) by blast
  next
    case 3
    with assms s obtain c1 c2 t where "cs = c1 # c2 # t" "second_ok (byte_of c0) c1" "is_cont c2"
      by (cases cs; cases "tl cs") (auto simp: Let_def split: if_splits)
    then show thesis using 3 s that(3) by blast
  next
    case 4
    with assms s obtain c1 c2 c3 t where
      "cs = c1 # c2 # c3 # t" "second_ok (byte_of c0) c1" "is_cont c2" "is_cont c3"
      by (cases cs; cases "tl cs"; cases "tl (tl cs)") (auto simp: Let_def split: if_splits)
    then show thesis using 4 s that(4) by blast
  qed
qed

lemma whole_rune_shape:
  "whole_rune c \<Longrightarrow>
   \<exists>lead cs. c = lead # cs \<and> list_all is_cont cs \<and> rune_len (byte_of lead) = Suc (length cs) \<and> length cs \<le> 3"
proof -
  assume c: "whole_rune c"
  then obtain r where r: "full_rune c = Some r" and len: "length c = rune_len (byte_of (hd c))"
    by (auto simp: whole_rune_def)
  from r show ?thesis by (cases rule: full_rune_cases) (use len in \<open>auto dest: second_cont\<close>)
qed

lemma full_rune_take:
  "full_rune s = Some r \<Longrightarrow> full_rune (take (rune_len (byte_of (hd s))) s) = Some r"
  by (frule full_rune_cases) (auto simp: Let_def)

lemma first_rune:
  assumes "utf8_valid s" "s \<noteq> []"
  shows "\<exists>c t. s = c @ t \<and> whole_rune c \<and> utf8_valid t"
proof -
  let ?k = "rune_len (byte_of (hd s))"
  from assms obtain r where r: "full_rune s = Some r" "utf8_valid (drop ?k s)"
    by (subst (asm) utf8_valid.simps) (auto split: option.splits)
  have k: "1 \<le> ?k" "?k \<le> length s" using full_rune_len_pos full_rune_len_le r(1) by blast+
  have "whole_rune (take ?k s)"
    using full_rune_take [OF r(1)] k assms(2) by (auto simp: whole_rune_def min_def)
  then show ?thesis using r(2) by (metis append_take_drop_id)
qed

lemma whole_rune_valid: "whole_rune c \<Longrightarrow> utf8_valid c"
  by (auto simp: whole_rune_def utf8_valid.simps [of c] split: option.split)

lemma last_rune:
  "utf8_valid s \<Longrightarrow> s \<noteq> [] \<Longrightarrow> \<exists>v c. s = v @ c \<and> whole_rune c \<and> utf8_valid v"
proof (induction "length s" arbitrary: s rule: less_induct)
  case less
  from first_rune [OF less.prems] obtain c t where c: "s = c @ t" "whole_rune c" "utf8_valid t" by blast
  show ?case
  proof (cases "t = []")
    case True
    then have "s = [] @ c \<and> whole_rune c \<and> utf8_valid []" using c by simp
    then show ?thesis by blast
  next
    case False
    have "length t < length s" using c whole_rune_shape by fastforce
    from less.hyps [OF this c(3) False] obtain v d where "t = v @ d" "whole_rune d" "utf8_valid v" by blast
    then have "s = (c @ v) @ d \<and> whole_rune d \<and> utf8_valid (c @ v)"
      using c utf8_valid_append [OF whole_rune_valid [OF c(2)], of v] by simp
    then show ?thesis by blast
  qed
qed

text \<open>An encoded rune is one.\<close>

lemma byte_of_char: "n < 256 \<Longrightarrow> byte_of (char_of n) = n" for n :: nat
  by (simp add: of_char_of)

lemma encode_whole: "whole_rune (encode_rune r)"
proof -
  have "r div 4096 = r div 64 div 64" "r div 262144 = r div 4096 div 64" by (simp_all add: div_mult2_eq [symmetric])
  then have digits_64: "r = 64 * (r div 64) + r mod 64" "r div 64 = 64 * (r div 4096) + r div 64 mod 64"
    "r div 4096 = 64 * (r div 262144) + r div 4096 mod 64" "r mod 64 < 64" "r div 64 mod 64 < 64" "r div 4096 mod 64 < 64"
    by simp_all
  consider "r < 0x80" | "0x80 \<le> r" "r < 0x800" | "0x800 \<le> r" "r < 0xD800" | "0xD800 \<le> r" "r \<le> 0xDFFF"
    | "0xDFFF < r" "r < 0x10000" | "0x10000 \<le> r" "r \<le> 0x10FFFF" | "0x10FFFF < r" by linarith
  then show ?thesis
  proof cases
    case 1
    then show ?thesis by (simp add: encode_rune_def whole_rune_def byte_of_char rune_len_def)
  next
    case 2
    then have b: "2 \<le> r div 64" "r div 64 < 32" by (simp_all add: less_eq_div_iff_mult_less_eq div_less_iff_less_mult)
    then show ?thesis using 2
      by (simp add: encode_rune_def whole_rune_def byte_of_char rune_len_def is_cont_def in_range_def)
  next
    case 3
    then have b: "r div 4096 < 14" "r div 4096 = 0 \<Longrightarrow> 32 \<le> r div 64 mod 64" "r div 4096 = 13 \<Longrightarrow> r div 64 mod 64 < 32"
      using digits_64 by linarith+
    then show ?thesis using 3 digits_64(4-6)
      by (auto simp: encode_rune_def whole_rune_def byte_of_char rune_len_def is_cont_def in_range_def second_ok_def
          second_range_def Let_def)
  next
    case 4
    then show ?thesis
      by (simp add: encode_rune_def whole_rune_def byte_of_char rune_len_def is_cont_def in_range_def second_ok_def
          second_range_def)
  next
    case 5
    then have b: "14 \<le> r div 4096" "r div 4096 < 16" by (simp_all add: less_eq_div_iff_mult_less_eq div_less_iff_less_mult)
    then show ?thesis using 5 digits_64(4-6)
      by (auto simp: encode_rune_def whole_rune_def byte_of_char rune_len_def is_cont_def in_range_def second_ok_def
          second_range_def Let_def)
  next
    case 6
    then have b: "r div 262144 < 5" "r div 262144 = 0 \<Longrightarrow> 16 \<le> r div 4096 mod 64"
      "r div 262144 = 4 \<Longrightarrow> r div 4096 mod 64 < 16"
      using digits_64 by linarith+
    then show ?thesis using 6 digits_64(4-6)
      by (auto simp: encode_rune_def whole_rune_def byte_of_char rune_len_def is_cont_def in_range_def second_ok_def
          second_range_def Let_def)
  next
    case 7
    then show ?thesis
      by (simp add: encode_rune_def whole_rune_def byte_of_char rune_len_def is_cont_def in_range_def second_ok_def
          second_range_def)
  qed
qed


lemma string_of_runes_valid: "utf8_valid (string_of_runes rs)"
  by (induction rs)
    (simp_all add: string_of_runes_def utf8_valid_append [OF whole_rune_valid [OF encode_whole]])

text \<open>Where a cut through valid text falls: after a rune, or inside one.\<close>

lemma valid_cut:
  "utf8_valid (d @ f) \<Longrightarrow>
   \<exists>v p. d = v @ p \<and> utf8_valid v \<and> (p = [] \<and> utf8_valid f \<or> (\<exists>q. p \<noteq> [] \<and> q \<noteq> [] \<and> whole_rune (p @ q)))"
proof (induction "length d" arbitrary: d rule: less_induct)
  case less
  show ?case
  proof (cases "d = []")
    case True
    then show ?thesis using less.prems by auto
  next
    case False
    from first_rune [OF less.prems] False obtain c t where c: "d @ f = c @ t" "whole_rune c" "utf8_valid t" by auto
    show ?thesis
    proof (cases "length c \<le> length d")
      case True
      then obtain d' where d': "d = c @ d'" "t = d' @ f"
        using c(1) append_eq_append_conv2 [of d f c t] by auto
      have "length d' < length d" using d'(1) c(2) whole_rune_shape by fastforce
      from less.hyps [OF this] c(3) d'(2) obtain v p where
        vp: "d' = v @ p" "utf8_valid v" "p = [] \<and> utf8_valid f \<or> (\<exists>q. p \<noteq> [] \<and> q \<noteq> [] \<and> whole_rune (p @ q))"
        by blast
      have "d = (c @ v) @ p" "utf8_valid (c @ v)"
        using d'(1) vp(1,2) utf8_valid_append [OF whole_rune_valid [OF c(2)]] by simp_all
      then show ?thesis using vp(3) by blast
    next
      case False
      then obtain q where q: "c = d @ q" "q \<noteq> []"
        using c(1) by (metis append_eq_append_conv2 append_Nil2 length_append linorder_not_le le_add1 not_less)
      then have "d = [] @ d \<and> utf8_valid [] \<and> (\<exists>q. d \<noteq> [] \<and> q \<noteq> [] \<and> whole_rune (d @ q))"
        using c(2) \<open>d \<noteq> []\<close> by auto
      then show ?thesis by blast
    qed
  qed
qed

lemma tail_scan_conts:
  "list_all is_cont cs \<Longrightarrow> \<not> is_cont lead \<Longrightarrow> list_all is_cont seen \<Longrightarrow>
   tail_scan k (rev cs @ lead # before) seen =
     (if k + length cs > 3 then 0 else if leadRuneLen lead > k + length cs then k + length cs else 0)"
proof (induction cs arbitrary: k seen rule: rev_induct)
  case Nil
  then show ?case by (simp add: continuation_range allContinuation_def list_all_iff)
next
  case (snoc c cs)
  then show ?case using snoc.IH [of "c # seen" "Suc k"] by (auto simp: continuation_range)
qed

lemma hold_none: "utf8_valid v \<Longrightarrow> incompleteTrailingLen v = 0"
proof (cases "v = []")
  case False
  assume "utf8_valid v"
  from last_rune [OF this False] obtain w c where "v = w @ c" "whole_rune c" by blast
  moreover from whole_rune_shape [OF this(2)] obtain lead cs where
    "c = lead # cs" "list_all is_cont cs" "rune_len (byte_of lead) = Suc (length cs)" by blast
  ultimately show ?thesis
    using tail_scan_conts [of cs lead "[]" 1 "rev w"] lead_len [of lead] by (simp add: incompleteTrailingLen_def)
qed (simp add: incompleteTrailingLen_def)

lemma hold_partial:
  assumes "p \<noteq> []" "q \<noteq> []" "whole_rune (p @ q)"
  shows "incompleteTrailingLen (v @ p) = length p"
proof -
  from whole_rune_shape [OF assms(3)] obtain lead cs where
    c: "p @ q = lead # cs" "list_all is_cont cs" "rune_len (byte_of lead) = Suc (length cs)" "length cs \<le> 3" by blast
  then obtain ps where ps: "p = lead # ps" "cs = ps @ q" using assms(1) by (cases p) auto
  have "0 < length q" using assms(2) by simp
  moreover have "length cs = length ps + length q" using ps(2) by simp
  ultimately have "length ps < length cs" "length ps < 3" using c(4) by linarith+
  moreover have "list_all is_cont ps" using c(2) ps(2) by simp
  ultimately show ?thesis
    using tail_scan_conts [of ps lead "[]" 1 "rev v"] lead_len [of lead] c(3) ps(1)
    by (simp add: incompleteTrailingLen_def)
qed

definition held_back :: "string \<Rightarrow> bool" where
  "held_back p = (p = [] \<or> (\<exists>q. q \<noteq> [] \<and> whole_rune (p @ q)))"

lemma held_back_short: "held_back p \<Longrightarrow> length p \<le> 3"
proof (cases "p = []")
  case False
  assume "held_back p"
  with False obtain q where q: "q \<noteq> []" "whole_rune (p @ q)" by (auto simp: held_back_def)
  from whole_rune_shape [OF q(2)] obtain lead cs where "p @ q = lead # cs" "length cs \<le> 3" by blast
  then have "length (p @ q) \<le> 4" by (simp del: length_append)
  moreover from q(1) have "0 < length q" by simp
  ultimately show ?thesis unfolding length_append by linarith
qed simp

lemma held_back_invalid: "held_back p \<Longrightarrow> utf8_valid p \<Longrightarrow> p = []"
proof (rule ccontr)
  assume p: "held_back p" "utf8_valid p" "p \<noteq> []"
  then obtain q where q: "q \<noteq> []" "whole_rune (p @ q)" by (auto simp: held_back_def)
  from first_rune [OF p(2,3)] obtain c t where c: "p = c @ t" "whole_rune c" by blast
  then have "rune_len (byte_of (hd p)) \<le> length p" by (auto simp: whole_rune_def)
  moreover have "length (p @ q) = rune_len (byte_of (hd p))" using q(2) p(3) by (simp add: whole_rune_def)
  moreover have "0 < length q" using q(1) by simp
  ultimately show False by (metis length_append add_le_same_cancel1 not_le)
qed

lemma take_read_valid:
  assumes "utf8_valid (partial @ raw @ future)" "take_read partial raw = (text, rest)"
  shows "partial @ raw = text @ rest \<and> utf8_valid text \<and> utf8_valid (rest @ future) \<and> held_back rest"
proof -
  have v: "utf8_valid ((partial @ raw) @ future)" using assms(1) by simp
  from valid_cut [OF this] obtain w p where
    wp: "partial @ raw = w @ p" "utf8_valid w" "p = [] \<and> utf8_valid future \<or> (\<exists>q. p \<noteq> [] \<and> q \<noteq> [] \<and> whole_rune (p @ q))"
    by blast
  have hold: "incompleteTrailingLen (w @ p) = length p"
    using wp(2,3) hold_none hold_partial by fastforce
  have "take_read partial raw = (w, p)"
    using hold wp(2) by (auto simp: take_read_def splitValidUTF8_def wp(1) decodeValidUTF8_def Let_def)
  moreover have "utf8_valid (p @ future)"
    using v wp(1,2) utf8_valid_append by simp
  moreover have "held_back p" using wp(3) by (auto simp: held_back_def)
  ultimately show ?thesis using assms(2) wp by simp
qed


lemma take_reads_hold:
  "utf8_valid (partial @ concat raws @ future) \<Longrightarrow> take_reads partial raws = (texts, rest) \<Longrightarrow> held_back partial \<Longrightarrow>
   partial @ concat raws = concat texts @ rest \<and> list_all utf8_valid texts \<and> utf8_valid (rest @ future) \<and>
     held_back rest"
proof (induction raws arbitrary: partial texts)
  case (Cons raw raws)
  obtain t1 held where r: "take_read partial raw = (t1, held)" by force
  then obtain texts' where t: "take_reads held raws = (texts', rest)" "texts = t1 # texts'"
    using Cons.prems(2) by (auto split: prod.splits)
  have read: "partial @ raw = t1 @ held" "utf8_valid t1" "utf8_valid (held @ concat raws @ future)" "held_back held"
    using take_read_valid [of partial raw "concat raws @ future"] Cons.prems(1) r by auto
  have "partial @ concat (raw # raws) = t1 @ held @ concat raws" using read(1) by simp
  then show ?case using Cons.IH [OF read(3) t(1) read(4)] t(2) read(2) by simp
qed simp

text \<open>
  C28. However a terminal's output is cut into reads, no rune is lost or corrupted: for valid UTF-8 the
  texts of the reads so far, followed by the bytes held back, are exactly the bytes read, every
  text is itself valid, and what is held back is the beginning of a rune whose rest is still to
  come: at most three bytes, and none where the output ends.
\<close>

theorem reads_reassemble:
  assumes "utf8_valid (concat raws @ future)" "take_reads [] raws = (texts, held)"
  shows "concat texts @ held = concat raws \<and> list_all utf8_valid texts \<and> utf8_valid (held @ future) \<and>
    length held \<le> 3 \<and> (held = [] \<or> future \<noteq> [])"
proof -
  have "held_back []" by (simp add: held_back_def)
  from take_reads_hold [OF _ assms(2) this, of future] assms(1) have
    r: "concat raws = concat texts @ held" "list_all utf8_valid texts" "utf8_valid (held @ future)" "held_back held"
    by simp_all
  then show ?thesis using held_back_short held_back_invalid [of held] by auto
qed

text \<open>The euro sign cut inside its three bytes, twice.\<close>

lemma reads_reassemble_witness:
  "\<exists>texts held.
     take_reads [] [''a'' @ [char_of (0xE2 :: nat)], [char_of (0x82 :: nat)], [char_of (0xAC :: nat)] @ ''b''] = (texts, held) \<and>
     texts = [''a'', [], [char_of (0xE2 :: nat), char_of (0x82 :: nat), char_of (0xAC :: nat)] @ ''b''] \<and>
     held = [] \<and> concat texts @ held = ''a'' @ [char_of (0xE2 :: nat), char_of (0x82 :: nat), char_of (0xAC :: nat)] @ ''b''"
proof -
  let ?raws = "[''a'' @ [char_of (0xE2 :: nat)], [char_of (0x82 :: nat)], [char_of (0xAC :: nat)] @ ''b'']"
  have v: "utf8_valid (concat ?raws @ [])" by code_simp
  obtain texts held where t: "take_reads [] ?raws = (texts, held)" by force
  moreover have "take_reads [] ?raws =
      ([''a'', [], [char_of (0xE2 :: nat), char_of (0x82 :: nat), char_of (0xAC :: nat)] @ ''b''], [])" by code_simp
  ultimately show ?thesis using reads_reassemble [OF v t] by auto
qed

end
