(* ===== verification/Title.thy ===== *)
theory Title
  imports Engine PtyText
begin

text \<open>
  Session titles (\<^verbatim>\<open>internal/engine/title.go\<close>): at the first step of a run the title agent is asked for a
  title, while the session still has its default one. The session's title store is an argument.
\<close>

definition hasRealPart :: "part list \<Rightarrow> bool" where
  "hasRealPart ps =
     list_ex (\<lambda>p. case p of PText tp \<Rightarrow> \<not> tp_synthetic tp \<and> trim_space (tp_text tp) \<noteq> [] | _ \<Rightarrow> False) ps"

fun firstRealUser :: "with_parts list \<Rightarrow> nat option" where
  "firstRealUser [] = None"
| "firstRealUser (m # ms) =
     (if is_user (wp_info m) \<and> hasRealPart (wp_parts m) then Some 0 else map_option Suc (firstRealUser ms))"

definition titleContext :: "with_parts list \<Rightarrow> with_parts list" where
  "titleContext history = (case firstRealUser history of None \<Rightarrow> [] | Some i \<Rightarrow> take (Suc i) history)"

fun titleModel :: "(string \<times> string) option \<Rightarrow> with_parts list \<Rightarrow> string \<times> string" where
  "titleModel (Some pm) history = pm"
| "titleModel None [] = ('''', '''')"
| "titleModel None (m # ms) =
     (case wp_info m of
        IUser u \<Rightarrow> (md_provider (um_model u), md_model (um_model u))
      | _ \<Rightarrow> titleModel None ms)"

subsection \<open>Cleaning the answer\<close>

text \<open>\<open>after p s\<close> is what follows the first \<open>p\<close> in \<open>s\<close>.\<close>

fun after_str :: "string \<Rightarrow> string \<Rightarrow> string option" where
  "after_str p [] = (if p = [] then Some [] else None)"
| "after_str p (c # s) = (if has_prefix (c # s) p then Some (drop (length p) (c # s)) else after_str p s)"

lemma after_str_shorter: "after_str p s = Some t \<Longrightarrow> length t \<le> length s"
  by (induction p s rule: after_str.induct) (auto split: if_splits)

definition re_space :: "char \<Rightarrow> bool" where
  \<comment> \<open>\<^verbatim>\<open>\s\<close> of a Go regular expression\<close>
  "re_space c = (c \<in> set [CHR 0x09, CHR 0x0A, CHR 0x0C, CHR 0x0D, CHR '' ''])"

text \<open>\<^verbatim>\<open>thinkTagRe.ReplaceAllString\<close> with the empty string: the shortest match at the leftmost place, repeatedly.\<close>

function strip_think :: "string \<Rightarrow> string" where
  "strip_think [] = []"
| "strip_think (c # s) =
     (case (if has_prefix (c # s) ''<think>'' then after_str ''</think>'' (drop 6 s) else None) of
        Some t \<Rightarrow> strip_think (dropWhile re_space t)
      | None \<Rightarrow> c # strip_think s)"
  by pat_completeness auto
termination
proof (relation "measure length")
  fix c s t
  assume "(if has_prefix (c # s) ''<think>'' then after_str ''</think>'' (drop 6 s) else None) = Some t"
  then have "length t \<le> length (drop 6 s)" using after_str_shorter [of _ "drop 6 s"] by (auto split: if_splits)
  then have "length (dropWhile re_space t) \<le> length s"
    using length_dropWhile_le [of re_space t] by simp
  then show "(dropWhile re_space t, c # s) \<in> measure length" by simp
qed simp_all

definition cleanTitle :: "string \<Rightarrow> string" where
  "cleanTitle s =
     (case filter (\<lambda>l. l \<noteq> []) (map trim_space (split_on newline (strip_think s))) of
        [] \<Rightarrow> []
      | l # _ \<Rightarrow>
          (let r = runes_of l
           in if length r > 100 then string_of_runes (take 97 r) @ ''...'' else l))"

subsection \<open>Asking for a title\<close>

text \<open>
  \<open>te_title\<close> is the stored title, \<open>None\<close> when reading it fails; \<open>te_model\<close> the configured title model;
  \<open>te_stream\<close> what the provider streams.
\<close>

record title_env =
  te_title :: "string option"
  te_default :: "string \<Rightarrow> bool"
  te_model :: "(string \<times> string) option"
  te_provider :: "string \<Rightarrow> string \<Rightarrow> string option"
  te_prompt :: string
  te_stream :: "llm_request \<Rightarrow> string + llm_event list"

definition title_request :: "title_env \<Rightarrow> string \<Rightarrow> string \<Rightarrow> with_parts list \<Rightarrow> llm_request" where
  "title_request te providerID modelID history =
     \<lparr>rq_model = modelID, rq_system = [te_prompt te],
      rq_messages =
        \<lparr>mm_role = RoleUser, mm_content = [text_content (''Generate a title for this conversation:'' @ [newline])]\<rparr> #
        ToModelMessages (titleContext history) \<lparr>sm_provider = providerID, sm_model = modelID\<rparr>
          \<lparr>so_strip_media = False, so_max_chars = 0\<rparr>,
      rq_tools = [], rq_tool_choice = ToolChoiceNone, rq_max_output = 0, rq_temperature = None, rq_top_p = None,
      rq_top_k = None, rq_headers = [], rq_options = []\<rparr>"

definition streamed_text :: "llm_event list \<Rightarrow> string" where
  "streamed_text evs = concat (map (\<lambda>e. case e of EvTextDelta i t m \<Rightarrow> t | _ \<Rightarrow> []) evs)"

text \<open>The title to store, if any.\<close>

definition generateTitle :: "title_env \<Rightarrow> with_parts list \<Rightarrow> string option" where
  "generateTitle te history =
     (case titleModel (te_model te) history of (providerID, modelID) \<Rightarrow>
        if providerID = [] \<or> modelID = [] then None
        else if te_provider te providerID modelID \<noteq> None then None
        else
          (case te_stream te (title_request te providerID modelID history) of
             Inl err \<Rightarrow> None
           | Inr evs \<Rightarrow>
               (let title = cleanTitle (streamed_text evs) in if title = [] then None else Some title)))"

definition maybeGenerateTitle :: "title_env option \<Rightarrow> with_parts list \<Rightarrow> string option" where
  "maybeGenerateTitle titles history =
     (case titles of
        None \<Rightarrow> None
      | Some te \<Rightarrow>
          if firstRealUser history \<noteq> Some 0 then None
          else (case te_title te of
                  None \<Rightarrow> None
                | Some title \<Rightarrow> if te_default te title then generateTitle te history else None))"


lemma runes_of_whole: "whole_rune c \<Longrightarrow> \<exists>r. runes_of c = [r]"
  by (auto simp: whole_rune_def decode_rune_def runes_of.simps [of c])

lemma runes_of_encoded: "length (runes_of (string_of_runes rs)) = length rs"
proof (induction rs)
  case (Cons r rs)
  have "runes_of (encode_rune r @ string_of_runes rs) = runes_of (encode_rune r) @ runes_of (string_of_runes rs)"
    by (rule runes_of_append [OF whole_rune_valid [OF encode_whole]])
  then show ?case using Cons runes_of_whole [OF encode_whole, of r] by (auto simp: string_of_runes_def)
qed (simp add: string_of_runes_def)

text \<open>
  A title is one line of at most 100 characters, and there is one exactly when the answer, less its
  thinking blocks, has a line that is not blank.
\<close>

theorem clean_title_bounded:
  "length (runes_of (cleanTitle s)) \<le> 100 \<and>
   (cleanTitle s = [] \<longleftrightarrow> list_all (\<lambda>l. trim_space l = []) (split_on newline (strip_think s)))"
proof -
  let ?ls = "filter (\<lambda>l. l \<noteq> []) (map trim_space (split_on newline (strip_think s)))"
  have empty: "?ls = [] \<longleftrightarrow> list_all (\<lambda>l. trim_space l = []) (split_on newline (strip_think s))"
    by (simp add: filter_empty_conv list_all_iff)
  have dots: "utf8_valid (string_of_runes rs)" "runes_of ''...'' = map byte_of ''...''" for rs
    by (rule string_of_runes_valid) (rule runes_of_ascii, simp add: is_ascii_def)
  show ?thesis
  proof (cases ?ls)
    case Nil
    then show ?thesis using empty by (simp add: cleanTitle_def)
  next
    case (Cons l ls)
    then have "l \<noteq> []" by (auto simp: filter_eq_Cons_iff)
    moreover have "length (runes_of (string_of_runes (take 97 (runes_of l)) @ ''...'')) \<le> 100"
      by (simp add: runes_of_append [OF dots(1)] runes_of_encoded dots(2))
    ultimately show ?thesis using empty Cons by (auto simp: cleanTitle_def Let_def)
  qed
qed

text \<open>
  A conversation whose first message has no text of its own, a file alone for instance, never gets a
  title: the first real user turn is then not the first message, whatever follows.
\<close>

lemma file_first_never_titled: "\<not> hasRealPart (wp_parts m) \<Longrightarrow> maybeGenerateTitle te (m # ms) = None"
  by (simp add: maybeGenerateTitle_def split: option.split)

text \<open>The check for the first turn also holds on every later one; only the stored default title stops it.\<close>

lemma later_turns_pass_check:
  "is_user (wp_info m) \<Longrightarrow> hasRealPart (wp_parts m) \<Longrightarrow>
   maybeGenerateTitle (Some te) (m # ms) =
     (case te_title te of None \<Rightarrow> None | Some t \<Rightarrow> if te_default te t then generateTitle te (m # ms) else None)"
  by (simp add: maybeGenerateTitle_def)

end
