(* ===== verification/Pty.thy ===== *)
theory Pty
  imports PtyText EventBus GoLib "HOL-Library.Word"
begin

text \<open>
  Terminal sessions (\<^verbatim>\<open>internal/pty\<close>): a ring buffer over a shell's output, replay and live
  fan-out to subscribers, the manager that owns the sessions, and the one-time connect
  tickets. Offsets count UTF-16 code units. The operating system's side of a terminal is what the
  code does to it: the writes to the master, whether it is open, the last size, whether
  the process was killed. Offsets are naturals: none can reach \<open>2 ^ 63\<close>.
\<close>

subsection \<open>Data\<close>

definition bufferLimit :: nat where
  "bufferLimit = 2 * 1024 * 1024"

definition bufferChunk :: nat where
  "bufferChunk = 64 * 1024"

record pty_info =
  pi_id :: string
  pi_title :: string
  pi_command :: string
  pi_args :: "string list"
  pi_cwd :: string
  pi_status :: string
  pi_pid :: nat

record pty_create =
  pc_command :: string
  pc_args :: "string list"
  pc_cwd :: string
  pc_title :: string
  pc_env :: "(string, string) gomap"

type_synonym pty_size = "16 word \<times> 16 word"

record pty_update =
  pu_title :: string
  pu_size :: "pty_size option"

record pty_frame =
  fr_binary :: bool
  fr_data :: string

text \<open>
  The subscribers are a \<open>fanout\<close>: live channels by key, the closed ones a reader still drains,
  and the next key.
\<close>

record pty_session =
  ps_info :: pty_info
  ps_open :: bool
  ps_input :: "string list"
  ps_size :: "pty_size option"
  ps_killed :: bool
  ps_buffer :: "nat list"
  ps_bufCur :: nat
  ps_cursor :: nat
  ps_partial :: string
  ps_fan :: "pty_frame fanout"

definition pty_subBuffer :: nat where
  "pty_subBuffer = 256"

definition start_session :: "pty_info \<Rightarrow> pty_session" where
  "start_session info =
     \<lparr>ps_info = info, ps_open = True, ps_input = [], ps_size = None, ps_killed = False, ps_buffer = [],
      ps_bufCur = 0, ps_cursor = 0, ps_partial = [], ps_fan = new_fanout\<rparr>"

subsection \<open>UTF-16\<close>

definition text_units :: "string \<Rightarrow> nat list" where
  "text_units t = utf16_units (runes_of t)"

definition is_high :: "nat \<Rightarrow> bool" where
  "is_high u = (0xD800 \<le> u \<and> u < 0xDC00)"

definition is_low :: "nat \<Rightarrow> bool" where
  "is_low u = (0xDC00 \<le> u \<and> u < 0xE000)"

text \<open>\<^verbatim>\<open>utf16.Decode\<close>: an unpaired surrogate is U+FFFD.\<close>

fun utf16_decode :: "nat list \<Rightarrow> rune list" where
  "utf16_decode [] = []"
| "utf16_decode [u] = [if is_high u \<or> is_low u then rune_error else u]"
| "utf16_decode (u # v # us) =
     (if is_high u \<and> is_low v then ((u - 0xD800) * 1024 + (v - 0xDC00) + 0x10000) # utf16_decode us
      else (if is_high u \<or> is_low u then rune_error else u) # utf16_decode (v # us))"

definition utf16ToString :: "nat list \<Rightarrow> string" where
  "utf16ToString us = string_of_runes (utf16_decode us)"

subsection \<open>A session\<close>

definition fan_text :: "pty_frame \<Rightarrow> pty_frame fanout \<Rightarrow> pty_frame fanout" where
  \<comment> \<open>a subscriber with a full channel is dropped and its channel closed\<close>
  "fan_text f b =
     b\<lparr>subs := map (\<lambda>(k, q). (k, q @ [f])) (filter (\<lambda>(k, q). length q < pty_subBuffer) (subs b)),
       closed := filter (\<lambda>(k, q). \<not> length q < pty_subBuffer) (subs b) @ closed b\<rparr>"

definition trim_buffer :: "pty_session \<Rightarrow> pty_session" where
  "trim_buffer s =
     (if length (ps_buffer s) > bufferLimit
      then (let excess = length (ps_buffer s) - bufferLimit
            in s\<lparr>ps_buffer := drop excess (ps_buffer s), ps_bufCur := ps_bufCur s + excess\<rparr>)
      else s)"

definition onData :: "string \<Rightarrow> pty_session \<Rightarrow> pty_session" where
  "onData raw s =
     (case take_read (ps_partial s) raw of (tx, rest) \<Rightarrow>
        (let s = s\<lparr>ps_partial := rest\<rparr>
         in if tx = [] then s
            else
              (let units = text_units tx
               in trim_buffer
                    (s\<lparr>ps_cursor := ps_cursor s + length units,
                       ps_fan := fan_text \<lparr>fr_binary = False, fr_data = tx\<rparr> (ps_fan s),
                       ps_buffer := ps_buffer s @ units\<rparr>))))"

definition onExit :: "pty_session \<Rightarrow> pty_session" where
  "onExit s =
     (if pi_status (ps_info s) = ''exited'' then s
      else s\<lparr>ps_info := (ps_info s)\<lparr>pi_status := ''exited''\<rparr>,
             ps_fan := (ps_fan s)\<lparr>subs := [], closed := subs (ps_fan s) @ closed (ps_fan s)\<rparr>,
             ps_open := False\<rparr>)"

definition pty_kill :: "pty_session \<Rightarrow> pty_session" where
  "pty_kill s = s\<lparr>ps_killed := True, ps_open := False\<rparr>"

definition pty_write :: "string \<Rightarrow> pty_session \<Rightarrow> pty_session" where
  \<comment> \<open>the error of a write to a closed master is ignored\<close>
  "pty_write p s =
     (if pi_status (ps_info s) = ''running'' \<and> ps_open s then s\<lparr>ps_input := ps_input s @ [p]\<rparr> else s)"

definition meta :: "nat \<Rightarrow> string" where
  "meta cursor = char_of (0 :: nat) # ''{\"cursor\":'' @ itoa cursor @ ''}''"

subsection \<open>Attaching a subscriber\<close>

definition connect_from :: "int \<Rightarrow> pty_session \<Rightarrow> int" where
  "connect_from c s = (if c = -1 then int (ps_cursor s) else if c \<ge> 0 then c else 0)"

definition connect_replay :: "int \<Rightarrow> pty_session \<Rightarrow> nat list" where
  "connect_replay c s =
     (let from = connect_from c s
      in if ps_buffer s \<noteq> [] \<and> from < int (ps_cursor s)
         then
           (let offset = nat (from - int (ps_bufCur s))
            in if offset < length (ps_buffer s) then drop offset (ps_buffer s) else [])
         else [])"

text \<open>The replay in slices of \<open>n\<close> units.\<close>

function slices :: "nat \<Rightarrow> nat list \<Rightarrow> nat list list" where
  "slices n us = (if us = [] \<or> n = 0 then [] else take n us # slices n (drop n us))"
  by pat_completeness auto
termination
  by (relation "measure (\<lambda>(n, us). length us)") auto

declare slices.simps [simp del]

definition replay_frames :: "nat list \<Rightarrow> pty_frame list" where
  "replay_frames us = map (\<lambda>c. \<lparr>fr_binary = False, fr_data = utf16ToString c\<rparr>) (slices bufferChunk us)"

definition pty_connect :: "int \<Rightarrow> pty_session \<Rightarrow> pty_frame list \<times> nat \<times> pty_session" where
  "pty_connect c s =
     (case fo_subscribe (ps_fan s) of (key, fan) \<Rightarrow>
        (replay_frames (connect_replay c s) @ [\<lparr>fr_binary = True, fr_data = meta (ps_cursor s)\<rparr>],
         key, s\<lparr>ps_fan := fan\<rparr>))"

definition conn_close :: "nat \<Rightarrow> pty_session \<Rightarrow> pty_session" where
  "conn_close key s = s\<lparr>ps_fan := fo_unsubscribe key (ps_fan s)\<rparr>"

definition conn_receive :: "nat \<Rightarrow> pty_session \<Rightarrow> (unit + pty_frame) option \<times> pty_session" where
  "conn_receive key s = (case fo_receive key (ps_fan s) of (r, fan) \<Rightarrow> (r, s\<lparr>ps_fan := fan\<rparr>))"

text \<open>The \<^verbatim>\<open>?cursor=\<close> of a connect request (\<^verbatim>\<open>server/pty_ws.go\<close>).\<close>

definition parseCursor :: "string \<Rightarrow> int" where
  "parseCursor raw =
     (if raw = [] then 0
      else (case atoi raw of None \<Rightarrow> 0 | Some n \<Rightarrow> if n < -1 then 0 else n))"


subsection \<open>Connect tickets\<close>

text \<open>Times in nanoseconds.\<close>

definition ticketTTL :: int where
  "ticketTTL = 60 * 1000000000"

record pty_ticket =
  tk_pty :: string
  tk_expires :: int

type_synonym pty_tickets = "(string, pty_ticket) gomap"

definition hex_digit :: "nat \<Rightarrow> char" where
  "hex_digit n = ''0123456789abcdef'' ! n"

definition hexEncode :: "string \<Rightarrow> string" where
  "hexEncode bs = concat (map (\<lambda>c. [hex_digit (byte_of c div 16), hex_digit (byte_of c mod 16)]) bs)"

definition purgeLocked :: "int \<Rightarrow> pty_tickets \<Rightarrow> pty_tickets" where
  "purgeLocked now ts = filter (\<lambda>(k, e). \<not> now > tk_expires e) ts"

text \<open>
  \<open>raw\<close> is what \<^verbatim>\<open>rand.Read\<close> gives, \<open>Inl\<close> its error. The clock is read twice, for the purge and for
  the expiry.
\<close>

definition IssueTicket ::
  "string + string \<Rightarrow> int \<Rightarrow> int \<Rightarrow> string \<Rightarrow> pty_tickets \<Rightarrow> (string + string) \<times> pty_tickets" where
  "IssueTicket raw now now' ptyID ts =
     (case raw of
        Inl err \<Rightarrow> (Inl err, ts)
      | Inr bytes \<Rightarrow>
          (let token = hexEncode bytes
           in (Inr token,
               gm_put token \<lparr>tk_pty = ptyID, tk_expires = now' + ticketTTL\<rparr> (purgeLocked now ts))))"

definition ConsumeTicket :: "string \<Rightarrow> string \<Rightarrow> int \<Rightarrow> pty_tickets \<Rightarrow> bool \<times> pty_tickets" where
  "ConsumeTicket token ptyID now ts =
     (case gm_get ts token of
        None \<Rightarrow> (False, ts)
      | Some e \<Rightarrow>
          if tk_pty e = ptyID \<and> now < tk_expires e then (True, gm_del token ts) else (False, ts))"

subsection \<open>The manager\<close>

text \<open>
  A session outlives its entry in the map: its reader and its subscribers hold it. \<open>pm_objs\<close> are the
  sessions ever created, \<open>pm_sessions\<close> the keys of the map.
\<close>

record pty_manager =
  pm_dir :: string
  pm_configShell :: string
  pm_objs :: "(string, pty_session) gomap"
  pm_sessions :: "string list"
  pm_tickets :: pty_tickets

definition NewPtyManager :: "string \<Rightarrow> string \<Rightarrow> pty_manager" where
  "NewPtyManager dir configShell =
     \<lparr>pm_dir = dir, pm_configShell = configShell, pm_objs = [], pm_sessions = [], pm_tickets = []\<rparr>"

text \<open>The process environment and platform a manager runs in; \<open>po_start\<close> spawns a terminal: its error or the process id.\<close>

record pty_os =
  po_environ :: "string list"
  po_shell :: string
  po_darwin :: bool
  po_start :: "string \<Rightarrow> string list \<Rightarrow> string \<Rightarrow> string list \<Rightarrow> string + nat"

definition PreferredShell :: "pty_os \<Rightarrow> string \<Rightarrow> string" where
  "PreferredShell os configShell =
     (if configShell \<noteq> [] then configShell
      else if po_shell os \<noteq> [] then po_shell os
      else if po_darwin os then ''/bin/zsh'' else ''/bin/sh'')"

definition loginShells :: "string list" where
  "loginShells = [''bash'', ''dash'', ''fish'', ''ksh'', ''sh'', ''zsh'']"

definition file_base :: "string \<Rightarrow> string" where
  \<comment> \<open>\<^verbatim>\<open>filepath.Base\<close>\<close>
  "file_base p =
     (if p = [] then ''.''
      else
        (let q = rev (dropWhile (\<lambda>c. c = CHR ''/'') (rev p))
         in if q = [] then ''/'' else rev (takeWhile (\<lambda>c. c \<noteq> CHR ''/'') (rev q))))"

definition isLoginShell :: "string \<Rightarrow> bool" where
  "isLoginShell file = (file_base file \<in> set loginShells)"

definition candidateShells :: "string list" where
  "candidateShells = [''/bin/bash'', ''/bin/zsh'', ''/bin/sh'']"

definition ListShells :: "(string \<Rightarrow> bool) \<Rightarrow> string list" where
  "ListShells exists = filter exists candidateShells"

definition environ_map :: "string list \<Rightarrow> (string, string) gomap" where
  "environ_map kvs =
     fold (\<lambda>kv env. case index_byte kv (CHR ''='') of
             None \<Rightarrow> env | Some i \<Rightarrow> gm_put (take i kv) (drop (Suc i) kv) env) kvs []"

definition buildEnv :: "string list \<Rightarrow> (string, string) gomap \<Rightarrow> string list" where
  \<comment> \<open>in Go's own order of the map, which may be any\<close>
  "buildEnv environ extra =
     (let env = fold (\<lambda>(k, v). gm_put k v) extra (environ_map environ);
          env = gm_put ''OPENCODE_TERMINAL'' ''1'' (gm_put ''TERM'' ''xterm-256color'' env)
      in map (\<lambda>(k, v). k @ ''='' @ v) env)"

definition lastN :: "string \<Rightarrow> nat \<Rightarrow> string" where
  "lastN s n = (if length s \<le> n then s else drop (length s - n) s)"

definition pty_lookup :: "string \<Rightarrow> pty_manager \<Rightarrow> pty_session option" where
  "pty_lookup k m = (if k \<in> set (pm_sessions m) then gm_get (pm_objs m) k else None)"

definition pty_Create :: "pty_os \<Rightarrow> string \<Rightarrow> pty_create \<Rightarrow> pty_manager \<Rightarrow> (string + pty_info) \<times> pty_manager" where
  "pty_Create os ptyID inp m =
     (let command = (if pc_command inp = [] then PreferredShell os (pm_configShell m) else pc_command inp);
          args = pc_args inp @ (if isLoginShell command then [''-l''] else []);
          cwd = (if pc_cwd inp = [] then pm_dir m else pc_cwd inp)
      in case po_start os command args cwd (buildEnv (po_environ os) (pc_env inp)) of
           Inl err \<Rightarrow> (Inl (''spawn pty: '' @ err), m)
         | Inr pid \<Rightarrow>
             (let title = (if pc_title inp = [] then ''Terminal '' @ lastN ptyID 4 else pc_title inp);
                  info = \<lparr>pi_id = ptyID, pi_title = title, pi_command = command, pi_args = args,
                          pi_cwd = cwd, pi_status = ''running'', pi_pid = pid\<rparr>
              in (Inr info,
                  m\<lparr>pm_objs := gm_put ptyID (start_session info) (pm_objs m),
                    pm_sessions := List.insert ptyID (pm_sessions m)\<rparr>)))"

text \<open>Go's map order, a rearrangement of the keys, is the argument \<open>ord\<close>.\<close>

definition pty_List :: "(string list \<Rightarrow> string list) \<Rightarrow> pty_manager \<Rightarrow> pty_info list" where
  "pty_List ord m = map ps_info (List.map_filter (gm_get (pm_objs m)) (ord (pm_sessions m)))"

definition pty_Get :: "string \<Rightarrow> pty_manager \<Rightarrow> pty_info option" where
  \<comment> \<open>\<open>None\<close> is \<^verbatim>\<open>ErrNotFound\<close>, here and below\<close>
  "pty_Get k m = map_option ps_info (pty_lookup k m)"

definition pty_Update :: "string \<Rightarrow> pty_update \<Rightarrow> pty_manager \<Rightarrow> pty_info option \<times> pty_manager" where
  "pty_Update k inp m =
     (case pty_lookup k m of
        None \<Rightarrow> (None, m)
      | Some s \<Rightarrow>
          (let s = (if pu_title inp \<noteq> [] then s\<lparr>ps_info := (ps_info s)\<lparr>pi_title := pu_title inp\<rparr>\<rparr> else s);
               s = (if pu_size inp \<noteq> None \<and> pi_status (ps_info s) = ''running'' \<and> ps_open s
                    then s\<lparr>ps_size := pu_size inp\<rparr> else s)
           in (Some (ps_info s), m\<lparr>pm_objs := gm_put k s (pm_objs m)\<rparr>)))"

definition pty_Remove :: "string \<Rightarrow> pty_manager \<Rightarrow> bool \<times> pty_manager" where
  "pty_Remove k m =
     (case pty_lookup k m of
        None \<Rightarrow> (False, m)
      | Some s \<Rightarrow>
          (True, m\<lparr>pm_sessions := removeAll k (pm_sessions m), pm_objs := gm_put k (pty_kill s) (pm_objs m)\<rparr>))"

definition pty_Shutdown :: "pty_manager \<Rightarrow> pty_manager" where
  "pty_Shutdown m =
     m\<lparr>pm_objs := map (\<lambda>(k, s). (k, if k \<in> set (pm_sessions m) then pty_kill s else s)) (pm_objs m),
       pm_sessions := []\<rparr>"

text \<open>
  What a session's reader and its connections do to the session they hold; the reader's end,
  the process having exited or the master being closed, also removes it from the map.
\<close>

definition on_session :: "string \<Rightarrow> (pty_session \<Rightarrow> pty_session) \<Rightarrow> pty_manager \<Rightarrow> pty_manager" where
  "on_session k f m =
     (case gm_get (pm_objs m) k of None \<Rightarrow> m | Some s \<Rightarrow> m\<lparr>pm_objs := gm_put k (f s) (pm_objs m)\<rparr>)"

definition session_exited :: "string \<Rightarrow> pty_manager \<Rightarrow> pty_manager" where
  "session_exited k m =
     (case gm_get (pm_objs m) k of
        None \<Rightarrow> m
      | Some s \<Rightarrow>
          if pi_status (ps_info s) = ''exited'' then m
          else m\<lparr>pm_objs := gm_put k (onExit s) (pm_objs m), pm_sessions := removeAll k (pm_sessions m)\<rparr>)"

definition pty_Connect ::
  "string \<Rightarrow> int \<Rightarrow> pty_manager \<Rightarrow> (pty_frame list \<times> nat) option \<times> pty_manager" where
  "pty_Connect k c m =
     (case pty_lookup k m of
        None \<Rightarrow> (None, m)
      | Some s \<Rightarrow>
          (case pty_connect c s of (frames, key, s') \<Rightarrow>
             (Some (frames, key), m\<lparr>pm_objs := gm_put k s' (pm_objs m)\<rparr>)))"


subsection \<open>The life of a session\<close>

datatype pty_event =
  PData string | PExit | PKill | PWrite string | PConnect int | PClose nat | PReceive nat

fun pty_step :: "pty_event \<Rightarrow> pty_session \<Rightarrow> pty_session" where
  "pty_step (PData raw) s = onData raw s"
| "pty_step PExit s = onExit s"
| "pty_step PKill s = pty_kill s"
| "pty_step (PWrite p) s = pty_write p s"
| "pty_step (PConnect c) s = snd (snd (pty_connect c s))"
| "pty_step (PClose k) s = conn_close k s"
| "pty_step (PReceive k) s = snd (conn_receive k s)"

definition pty_run :: "pty_event list \<Rightarrow> pty_session \<Rightarrow> pty_session" where
  "pty_run es s = fold pty_step es s"

lemma pty_run_simps [simp]:
  "pty_run [] s = s" "pty_run (e # es) s = pty_run es (pty_step e s)"
  "pty_run (es @ es') s = pty_run es' (pty_run es s)"
  by (simp_all add: pty_run_def)

fun reads_of :: "pty_event list \<Rightarrow> string list" where
  "reads_of [] = []"
| "reads_of (PData raw # es) = raw # reads_of es"
| "reads_of (_ # es) = reads_of es"

text \<open>Everything a terminal has shown: the specification a session's ring buffer is a window on.\<close>

definition output_log :: "string list \<Rightarrow> nat list" where
  "output_log raws = concat (map text_units (fst (take_reads [] raws)))"

definition window_of :: "nat list \<Rightarrow> pty_session \<Rightarrow> bool" where
  "window_of out s =
     (ps_cursor s = length out \<and> ps_bufCur s = length out - bufferLimit \<and>
      ps_buffer s = drop (length out - bufferLimit) out)"

lemma text_units_nil [simp]: "text_units [] = []"
  by (simp add: text_units_def utf16_units_def)

lemma window_onData:
  assumes "window_of out s" "take_read (ps_partial s) raw = (tx, rest)"
  shows "window_of (out @ text_units tx) (onData raw s) \<and> ps_partial (onData raw s) = rest"
proof -
  have "length out - bufferLimit + (length out - (length out - bufferLimit) + length (text_units tx) - bufferLimit) =
      length out + length (text_units tx) - bufferLimit" by linarith
  then show ?thesis
    using assms
    by (cases "tx = []")
      (auto simp: window_of_def onData_def trim_buffer_def Let_def drop_append add.commute)
qed

lemma other_events_frame:
  assumes "\<forall>raw. e \<noteq> PData raw"
  shows "ps_cursor (pty_step e s) = ps_cursor s" "ps_bufCur (pty_step e s) = ps_bufCur s"
    "ps_buffer (pty_step e s) = ps_buffer s" "ps_partial (pty_step e s) = ps_partial s"
  using assms
  by (cases e; simp add: onExit_def pty_kill_def pty_write_def pty_connect_def conn_close_def conn_receive_def
        split: prod.split)+

lemma take_reads_append:
  "take_reads p (xs @ ys) =
     (case take_reads p xs of (ts, p') \<Rightarrow> (case take_reads p' ys of (us, p'') \<Rightarrow> (ts @ us, p'')))"
  by (induction xs arbitrary: p) (auto split: prod.splits)

lemma window_run:
  "window_of out s \<Longrightarrow> take_reads (ps_partial s) (reads_of es) = (texts, held) \<Longrightarrow>
   window_of (out @ concat (map text_units texts)) (pty_run es s) \<and> ps_partial (pty_run es s) = held"
proof (induction es arbitrary: s out texts)
  case (Cons e es)
  show ?case
  proof (cases "\<exists>raw. e = PData raw")
    case True
    then obtain raw where e: "e = PData raw" by blast
    obtain tx rest where r: "take_read (ps_partial s) raw = (tx, rest)" by force
    with Cons.prems(2) e obtain texts' where "texts = tx # texts'" "take_reads rest (reads_of es) = (texts', held)"
      by (auto split: prod.splits)
    then show ?thesis
      using Cons.IH [of "out @ text_units tx" "onData raw s"] window_onData [OF Cons.prems(1) r] e by simp
  next
    case False
    then have "reads_of (e # es) = reads_of es" by (cases e) auto
    then show ?thesis
      using Cons.IH [of out "pty_step e s" texts] Cons.prems other_events_frame [of e s] False
      by (simp add: window_of_def)
  qed
qed simp

lemma window_start [simp]: "window_of [] (start_session info)" "ps_partial (start_session info) = []"
  by (simp_all add: window_of_def start_session_def)

lemma session_window:
  "window_of (output_log (reads_of es)) (pty_run es (start_session info)) \<and>
   ps_partial (pty_run es (start_session info)) = snd (take_reads [] (reads_of es))"
  using window_run [of "[]" "start_session info" es] by (cases "take_reads [] (reads_of es)") (simp add: output_log_def)

text \<open>
  C12. The ring buffer implements the whole output: after any sequence of reads, connects, receives,
  writes, closes and the exit, the cursor is the length of everything the terminal has shown,
  the buffer is its last \<^verbatim>\<open>bufferLimit\<close> units, its offset is where they start, and the bytes held
  back are those that complete no rune yet.
\<close>

theorem buffer_refines_output:
  "window_of (output_log (reads_of es)) (pty_run es (start_session info)) \<and>
   ps_partial (pty_run es (start_session info)) = snd (take_reads [] (reads_of es))"
  by (rule session_window)

text \<open>What a connect replays, in terms of the output.\<close>

lemma replay_of_log:
  assumes "window_of out s"
  shows "connect_replay c s = drop (nat (max (connect_from c s) (int (length out - bufferLimit)))) out"
proof -
  let ?from = "connect_from c s" and ?st = "length out - bufferLimit"
  have w: "ps_cursor s = length out" "ps_bufCur s = ?st" "ps_buffer s = drop ?st out"
    using assms by (simp_all add: window_of_def)
  show ?thesis
  proof (cases "?from < int (length out) \<and> out \<noteq> []")
    case True
    then have pos: "?from < int (length out)" "0 < length out" by simp_all
    have "0 < bufferLimit" by (simp add: bufferLimit_def)
    with pos have "?st < length out" by linarith
    with pos have "nat (?from - int ?st) < length out - ?st" by linarith
    moreover have "nat (?from - int ?st) + ?st = nat (max ?from (int ?st))" by linarith
    ultimately show ?thesis using pos w \<open>?st < length out\<close> by (simp add: connect_replay_def Let_def)
  next
    case False
    then show ?thesis using w by (auto simp: connect_replay_def Let_def)
  qed
qed

lemma output_log_append:
  assumes "take_reads [] (reads_of es) = (ts, p)" "take_reads p (reads_of es') = (us, q)"
  shows "output_log (reads_of (es @ es')) = output_log (reads_of es) @ concat (map text_units us)"
proof -
  have "reads_of (es @ es') = reads_of es @ reads_of es'"
    by (induction es rule: reads_of.induct) simp_all
  then show ?thesis using assms by (simp add: output_log_def take_reads_append)
qed

lemma units_ascii: "(\<forall>n \<in> set ns. n < 0x80) \<Longrightarrow> utf16_units ns = ns"
  by (induction ns) (simp_all add: utf16_units_def utf16_of_rune_def)

lemma text_units_ascii: "is_ascii s \<Longrightarrow> text_units s = map byte_of s"
  by (simp add: text_units_def runes_of_ascii units_ascii is_ascii_def list_all_iff)

subsection \<open>Every subscriber sees the output once\<close>

text \<open>The frames a subscriber has received in a run, and those still in its channel.\<close>

fun received :: "nat \<Rightarrow> pty_event list \<Rightarrow> pty_session \<Rightarrow> pty_frame list" where
  "received k [] s = []"
| "received k (e # es) s =
     (case (e, conn_receive k s) of
        (PReceive k', Some (Inr f), _) \<Rightarrow> (if k' = k then [f] else [])
      | _ \<Rightarrow> []) @ received k es (pty_step e s)"


definition live_frames :: "string list \<Rightarrow> pty_frame list" where
  "live_frames texts = map (\<lambda>t. \<lparr>fr_binary = False, fr_data = t\<rparr>) (filter (\<lambda>t. t \<noteq> []) texts)"

definition live_queue :: "nat \<Rightarrow> pty_session \<Rightarrow> pty_frame list option" where
  "live_queue k s = gm_get (subs (ps_fan s)) k"


definition fan_ok :: "pty_frame fanout \<Rightarrow> bool" where
  "fan_ok b = (gm_wf (subs b) \<and> (\<forall>k q. gm_get (subs b) k = Some q \<longrightarrow> k < next_key b))"

definition fan_clear :: "pty_frame fanout \<Rightarrow> pty_frame fanout" where
  "fan_clear b = b\<lparr>subs := [], closed := subs b @ closed b\<rparr>"

lemma step_fan:
  "ps_fan (pty_step (PData raw) s) =
     (let t = fst (take_read (ps_partial s) raw)
      in if t = [] then ps_fan s else fan_text \<lparr>fr_binary = False, fr_data = t\<rparr> (ps_fan s))"
  "ps_fan (pty_step PExit s) = (if pi_status (ps_info s) = ''exited'' then ps_fan s else fan_clear (ps_fan s))"
  "ps_fan (pty_step PKill s) = ps_fan s"
  "ps_fan (pty_step (PWrite p) s) = ps_fan s"
  "ps_fan (pty_step (PConnect c) s) = snd (fo_subscribe (ps_fan s))"
  "ps_fan (pty_step (PClose k) s) = fo_unsubscribe k (ps_fan s)"
  "ps_fan (pty_step (PReceive k) s) = snd (fo_receive k (ps_fan s))"
  by (simp_all add: onData_def trim_buffer_def onExit_def pty_kill_def pty_write_def pty_connect_def conn_close_def
      conn_receive_def fan_clear_def Let_def split: prod.split)

lemma partial_onData: "ps_partial (pty_step (PData raw) s) = snd (take_read (ps_partial s) raw)"
  by (simp add: onData_def trim_buffer_def Let_def split: prod.split)

lemma fan_get:
  "gm_wf m \<Longrightarrow>
   gm_get (map (\<lambda>(k, q). (k, q @ [f])) (filter (\<lambda>(k, q). length q < pty_subBuffer) m)) k =
     (case gm_get m k of None \<Rightarrow> None | Some q \<Rightarrow> if length q < pty_subBuffer then Some (q @ [f]) else None)"
proof (induction m)
  case (Cons p m)
  then have "gm_get m (fst p) = None" by (simp add: gm_wf_def map_of_eq_None_iff)
  then show ?case using Cons by (cases p) (auto simp: gm_wf_def split: option.splits)
qed simp

lemma fan_text_get:
  "fan_ok b \<Longrightarrow>
   gm_get (subs (fan_text f b)) k =
     (case gm_get (subs b) k of None \<Rightarrow> None | Some q \<Rightarrow> if length q < pty_subBuffer then Some (q @ [f]) else None)"
  by (simp add: fan_text_def fan_get fan_ok_def)


lemma fan_ok_text: "fan_ok b \<Longrightarrow> fan_ok (fan_text f b)"
proof -
  assume ok: "fan_ok b"
  have "gm_wf (subs (fan_text f b))"
    using ok by (simp add: fan_ok_def fan_text_def gm_wf_def comp_def split_beta distinct_map_filter)
  then show ?thesis
    using ok fan_text_get [OF ok] by (auto simp: fan_ok_def fan_text_def split: option.splits if_splits)
qed

lemma fan_ok_others:
  "fan_ok b \<Longrightarrow> fan_ok (fan_clear b)" "fan_ok b \<Longrightarrow> fan_ok (snd (fo_subscribe b))"
  "fan_ok b \<Longrightarrow> fan_ok (fo_unsubscribe k b)" "fan_ok b \<Longrightarrow> fan_ok (snd (fo_receive k b))"
  by (auto simp: fan_ok_def fan_clear_def fo_subscribe_def fo_unsubscribe_def fo_receive_def Let_def less_Suc_eq
      split: option.splits list.splits if_splits)

lemma fan_ok_step: "fan_ok (ps_fan s) \<Longrightarrow> fan_ok (ps_fan (pty_step e s))"
  by (cases e) (simp_all add: step_fan fan_ok_text fan_ok_others Let_def del: pty_step.simps)

lemma fan_ok_run: "fan_ok (ps_fan s) \<Longrightarrow> fan_ok (ps_fan (pty_run es s))"
  by (induction es arbitrary: s) (simp_all add: fan_ok_step del: pty_step.simps)

lemma next_key_step: "next_key (ps_fan s) \<le> next_key (ps_fan (pty_step e s))"
  by (cases e) (auto simp: step_fan fan_text_def fan_clear_def fo_subscribe_def fo_unsubscribe_def fo_receive_def Let_def
      simp del: pty_step.simps split: option.splits list.splits)

text \<open>A key handed out once and no longer live stays so: keys are not reused.\<close>

lemma gone_step:
  assumes "fan_ok (ps_fan s)" "k < next_key (ps_fan s)" "live_queue k s = None"
  shows "live_queue k (pty_step e s) = None"
  using assms
  by (cases e)
    (auto simp: live_queue_def step_fan fan_text_get fan_clear_def fo_subscribe_def fo_unsubscribe_def fo_receive_def Let_def
      simp del: pty_step.simps split: option.splits list.splits)

lemma gone_run:
  "fan_ok (ps_fan s) \<Longrightarrow> k < next_key (ps_fan s) \<Longrightarrow> live_queue k s = None \<Longrightarrow> live_queue k (pty_run es s) = None"
proof (induction es arbitrary: s)
  case (Cons e es)
  then show ?case
    using gone_step fan_ok_step next_key_step by (simp del: pty_step.simps) (meson less_le_trans)
qed simp

lemma step_queue:
  assumes "fan_ok (ps_fan s)" "live_queue k s = Some q" "live_queue k (pty_step e s) = Some q'"
    "take_reads (ps_partial s) (reads_of [e]) = (texts, held)"
  shows "received k [e] s @ q' = q @ live_frames texts"
  using assms
  by (cases e)
    (auto simp: live_queue_def step_fan fan_text_get fan_clear_def fo_subscribe_def fo_unsubscribe_def fo_receive_def
      conn_receive_def live_frames_def fan_ok_def Let_def simp del: pty_step.simps
      split: option.splits list.splits if_splits prod.splits)


lemma queue_run:
  "fan_ok (ps_fan s) \<Longrightarrow> k < next_key (ps_fan s) \<Longrightarrow> live_queue k s = Some q \<Longrightarrow>
   live_queue k (pty_run es s) = Some q' \<Longrightarrow> take_reads (ps_partial s) (reads_of es) = (texts, held) \<Longrightarrow>
   received k es s @ q' = q @ live_frames texts"
proof (induction es arbitrary: s q texts)
  case Nil
  then show ?case by (simp add: live_frames_def)
next
  case (Cons e es)
  let ?s = "pty_step e s"
  note ok = fan_ok_step [OF Cons.prems(1), of e]
  have k: "k < next_key (ps_fan ?s)" using next_key_step Cons.prems(2) less_le_trans by blast
  obtain q1 where q1: "live_queue k ?s = Some q1"
    using gone_run [OF ok k, of es] Cons.prems(4) by (cases "live_queue k ?s") auto
  have "reads_of (e # es) = reads_of [e] @ reads_of es" by (cases e) simp_all
  then obtain t1 p t2 where t: "take_reads (ps_partial s) (reads_of [e]) = (t1, p)"
      "take_reads p (reads_of es) = (t2, held)" "texts = t1 @ t2"
    using Cons.prems(5) by (auto simp: take_reads_append split: prod.splits)
  have p: "ps_partial ?s = p"
    using t(1) other_events_frame(4) [of e s]
    by (cases e) (auto simp: onData_def trim_buffer_def Let_def split: prod.splits)
  have "received k es ?s @ q' = q1 @ live_frames t2"
    using Cons.IH [OF ok k q1] Cons.prems(4) t(2) p by simp
  moreover have "received k [e] s @ q1 = q @ live_frames t1"
    using step_queue [OF Cons.prems(1,3) q1 t(1)] .
  moreover have "received k (e # es) s = received k [e] s @ received k es ?s" by simp
  ultimately show ?case using t(3) by (simp add: live_frames_def)
qed

lemma connect_state:
  assumes "fan_ok (ps_fan s)" "pty_connect c s = (frames, key, s')"
  shows "fan_ok (ps_fan s')" "key < next_key (ps_fan s')" "live_queue key s' = Some []" "ps_partial s' = ps_partial s"
    "window_of out s' = window_of out s"
proof -
  have s': "s' = s\<lparr>ps_fan := snd (fo_subscribe (ps_fan s))\<rparr>" "key = next_key (ps_fan s)"
    using assms(2) by (auto simp: pty_connect_def fo_subscribe_def Let_def)
  show "fan_ok (ps_fan s')" using fan_ok_others(2) [OF assms(1)] s' by simp
  show "key < next_key (ps_fan s')" "live_queue key s' = Some []" "ps_partial s' = ps_partial s"
    "window_of out s' = window_of out s"
    using s' by (simp_all add: live_queue_def fo_subscribe_def window_of_def Let_def)
qed

lemma live_units: "concat (map (\<lambda>f. text_units (fr_data f)) (live_frames ts)) = concat (map text_units ts)"
  by (induction ts) (auto simp: live_frames_def)



definition demo_info :: pty_info where
  "demo_info =
     \<lparr>pi_id = ''pty_1'', pi_title = ''Terminal'', pi_command = ''/bin/sh'', pi_args = [''-l''], pi_cwd = ''/repo'',
      pi_status = ''running'', pi_pid = 7\<rparr>"

lemma demo_reads: "take_read [] ''ab'' = (''ab'', [])" "take_read [] ''cd'' = (''cd'', [])" "take_read [] ''e'' = (''e'', [])"
  by code_simp+


subsection \<open>Frames are valid text\<close>

lemma take_read_text_valid: "take_read p raw = (t, rest) \<Longrightarrow> utf8_valid t"
  by (auto simp: take_read_def splitValidUTF8_def decodeValidUTF8_def Let_def string_of_runes_valid split: if_splits)

definition frame_ok :: "pty_frame \<Rightarrow> bool" where
  "frame_ok f = (fr_binary f \<or> utf8_valid (fr_data f))"

definition queues_ok :: "pty_frame fanout \<Rightarrow> bool" where
  "queues_ok b = list_all (\<lambda>(k, q). list_all frame_ok q) (subs b @ closed b)"

lemma queues_put: "list_all (\<lambda>(k, q). list_all frame_ok q) m \<Longrightarrow> list_all frame_ok q \<Longrightarrow>
    list_all (\<lambda>(k, q). list_all frame_ok q) (gm_put k q m)"
  by (induction m) auto

lemma queues_del: "list_all (\<lambda>(k, q). list_all frame_ok q) m \<Longrightarrow> list_all (\<lambda>(k, q). list_all frame_ok q) (gm_del k m)"
  by (auto simp: list_all_iff AList.delete_eq)

lemma queues_get: "list_all (\<lambda>(k, q). list_all frame_ok q) m \<Longrightarrow> gm_get m k = Some q \<Longrightarrow> list_all frame_ok q"
  by (auto simp: list_all_iff dest!: map_of_SomeD)

lemma queues_ok_others:
  "queues_ok b \<Longrightarrow> queues_ok (fan_clear b)" "queues_ok b \<Longrightarrow> queues_ok (snd (fo_subscribe b))"
  "queues_ok b \<Longrightarrow> queues_ok (fo_unsubscribe k b)" "queues_ok b \<Longrightarrow> queues_ok (snd (fo_receive k b))"
  "queues_ok b \<Longrightarrow> frame_ok f \<Longrightarrow> queues_ok (fan_text f b)"
proof -
  show "queues_ok b \<Longrightarrow> queues_ok (fan_clear b)" by (simp add: queues_ok_def fan_clear_def)
  show "queues_ok b \<Longrightarrow> queues_ok (snd (fo_subscribe b))"
    by (simp add: queues_ok_def fo_subscribe_def Let_def queues_put)
  show "queues_ok b \<Longrightarrow> queues_ok (fo_unsubscribe k b)"
    by (auto simp: queues_ok_def fo_unsubscribe_def queues_put queues_del queues_get split: option.split)
  show "queues_ok b \<Longrightarrow> queues_ok (snd (fo_receive k b))"
    by (auto simp: queues_ok_def fo_receive_def intro!: queues_put dest: queues_get split: option.split list.split)
  show "queues_ok b \<Longrightarrow> frame_ok f \<Longrightarrow> queues_ok (fan_text f b)"
    by (fastforce simp: queues_ok_def fan_text_def list_all_iff)
qed

lemma queues_ok_run: "queues_ok (ps_fan s) \<Longrightarrow> queues_ok (ps_fan (pty_run es s))"
proof (induction es arbitrary: s)
  case (Cons e es)
  have "queues_ok (ps_fan (pty_step e s))"
  proof (cases e)
    case (PData raw)
    obtain t rest where "take_read (ps_partial s) raw = (t, rest)" by force
    moreover from take_read_text_valid [OF this] have "frame_ok \<lparr>fr_binary = False, fr_data = t\<rparr>"
      by (simp add: frame_ok_def)
    ultimately show ?thesis using Cons.prems PData by (simp add: step_fan queues_ok_others Let_def del: pty_step.simps)
  qed (use Cons.prems in \<open>simp_all add: step_fan queues_ok_others del: pty_step.simps\<close>)
  then show ?case using Cons.IH by simp
qed simp

lemma replay_frames_ok: "list_all frame_ok (replay_frames us)"
  by (simp add: replay_frames_def list_all_iff frame_ok_def utf16ToString_def string_of_runes_valid)

text \<open>
  Every text frame is valid UTF-8, whatever bytes the terminal has written and wherever the reads
  and the replay cut them: those queued for a subscriber and those a connect sends at once.
\<close>

theorem text_frames_valid:
  "queues_ok (ps_fan (pty_run es (start_session info))) \<and>
   list_all frame_ok (fst (pty_connect c (pty_run es (start_session info))))"
proof
  show "queues_ok (ps_fan (pty_run es (start_session info)))"
    by (rule queues_ok_run) (simp add: start_session_def new_fanout_def queues_ok_def)
  show "list_all frame_ok (fst (pty_connect c (pty_run es (start_session info))))"
    by (simp add: pty_connect_def replay_frames_ok frame_ok_def split: prod.split)
qed

subsection \<open>A pair at the edge of a replay chunk\<close>

lemma decode_high_end: "us \<noteq> [] \<Longrightarrow> is_high (last us) \<Longrightarrow> \<exists>p. utf16_decode us = p @ [rune_error]"
proof (induction us rule: utf16_decode.induct)
  case (3 u v us)
  show ?case
  proof (cases "is_high u \<and> is_low v")
    case True
    then have "us \<noteq> []" using "3.prems" by (auto simp: is_high_def is_low_def)
    then show ?thesis using "3.IH"(1) [OF True] "3.prems" True by auto
  next
    case False
    then show ?thesis using "3.IH"(2) [OF False] "3.prems" by auto
  qed
qed simp_all

lemma decode_low_start: "is_low u \<Longrightarrow> \<exists>p. utf16_decode (u # us) = rune_error # p"
  by (cases us) (auto simp: is_low_def is_high_def)

lemma slices_step: "us \<noteq> [] \<Longrightarrow> 0 < n \<Longrightarrow> slices n us = take n us # slices n (drop n us)"
  by (subst slices.simps) simp

text \<open>
  The replay is cut every 65536 units without regard to surrogate pairs: a character outside
  the basic plane that lies across a cut is sent as U+FFFD at the end of one frame and U+FFFD at
  the start of the next, although the same character was sent whole to the live subscribers.
\<close>

theorem replay_splits_pair:
  assumes "connect_replay c s = before @ [hi, lo] @ after" "length before = 65535" "is_high hi" "is_low lo"
  shows "\<exists>t1 t2 more. fst (pty_connect c s) =
      \<lparr>fr_binary = False, fr_data = t1 @ encode_rune rune_error\<rparr> #
      \<lparr>fr_binary = False, fr_data = encode_rune rune_error @ t2\<rparr> # more"
proof -
  have n: "bufferChunk = Suc (length before)" using assms(2) by (simp add: bufferChunk_def)
  have "slices bufferChunk (before @ [hi, lo] @ after) = (before @ [hi]) # slices bufferChunk (lo # after)"
    unfolding n by (simp add: slices_step)
  moreover have "\<exists>as more. slices bufferChunk (lo # after) = (lo # as) # more"
    unfolding n by (simp add: slices_step)
  ultimately obtain as more where
    sl: "slices bufferChunk (before @ [hi, lo] @ after) = (before @ [hi]) # (lo # as) # more" by auto
  obtain p where p: "utf16_decode (before @ [hi]) = p @ [rune_error]"
    using decode_high_end [of "before @ [hi]"] assms(3) by auto
  obtain r where r: "utf16_decode (lo # as) = rune_error # r" using decode_low_start [OF assms(4)] by blast
  have "replay_frames (before @ [hi, lo] @ after) =
      \<lparr>fr_binary = False, fr_data = string_of_runes p @ encode_rune rune_error\<rparr> #
      \<lparr>fr_binary = False, fr_data = encode_rune rune_error @ string_of_runes r\<rparr> # replay_frames_of more"
    if "replay_frames_of = map (\<lambda>c. \<lparr>fr_binary = False, fr_data = utf16ToString c\<rparr>)" for replay_frames_of
    using that by (simp only: replay_frames_def sl list.map utf16ToString_def p r) (simp add: string_of_runes_def)
  then show ?thesis using assms(1) by (auto simp: pty_connect_def split: prod.split)
qed


lemma ascii_valid: "is_ascii s \<Longrightarrow> utf8_valid s"
proof (induction s)
  case (Cons c s)
  then have "full_rune (c # s) = Some (byte_of c)" "rune_len (byte_of c) = 1"
    by (simp_all add: is_ascii_def rune_len_def)
  then show ?case using Cons by (simp add: utf8_valid.simps [of "c # s"] is_ascii_def)
qed simp

lemma valid_output: "utf8_valid raw \<Longrightarrow> output_log [raw] = text_units raw"
proof -
  assume v: "utf8_valid raw"
  obtain ts held where t: "take_reads [] [raw] = (ts, held)" by force
  then obtain x where x: "ts = [x]" by (auto split: prod.splits)
  have "held_back []" by (simp add: held_back_def)
  from take_reads_hold [OF _ t this, of "[]"] v have "raw = x @ held" "utf8_valid held" "held_back held"
    using x by simp_all
  then show ?thesis using held_back_invalid [of held] t x by (simp add: output_log_def)
qed

definition grin :: string where
  "grin = map char_of [0xF0 :: nat, 0x9F, 0x98, 0x80]"

lemma grin: "utf8_valid grin" "text_units grin = [0xD83D, 0xDE00]"
proof -
  have r: "full_rune grin = Some 0x1F600" "length grin = 4" "rune_len (byte_of (hd grin)) = 4"
    by (simp_all add: grin_def byte_of_char rune_len_def is_cont_def in_range_def second_ok_def second_range_def)
  then show "utf8_valid grin" by (simp add: utf8_valid.simps [of grin])
  have "grin \<noteq> []" using r(2) by auto
  then have "runes_of grin = [0x1F600]" using r by (simp add: runes_of.simps [of grin] decode_rune_def)
  then show "text_units grin = [0xD83D, 0xDE00]" by (simp add: text_units_def utf16_units_def utf16_of_rune_def)
qed

lemma replay_splits_pair_witness:
  "\<exists>t1 t2 more.
     fst (pty_connect 0 (pty_run [PData (replicate 65535 (CHR ''a'') @ grin)] (start_session demo_info))) =
       \<lparr>fr_binary = False, fr_data = t1 @ encode_rune rune_error\<rparr> #
       \<lparr>fr_binary = False, fr_data = encode_rune rune_error @ t2\<rparr> # more"
proof -
  let ?as = "replicate 65535 (CHR ''a'')"
  let ?s = "pty_run [PData (?as @ grin)] (start_session demo_info)"
  have a: "is_ascii ?as" by (simp add: is_ascii_def list_all_iff)
  have units: "text_units (?as @ grin) = replicate 65535 97 @ [0xD83D, 0xDE00]"
    using grin(2) text_units_ascii [OF a]
    by (simp add: text_units_def runes_of_append [OF ascii_valid [OF a]] utf16_units_def)
  have "utf8_valid (?as @ grin)" using utf8_valid_append [OF ascii_valid [OF a]] grin(1) by simp
  from valid_output [OF this] have out: "output_log (reads_of [PData (?as @ grin)]) = replicate 65535 97 @ [0xD83D, 0xDE00]"
    using units by simp
  have "connect_replay 0 ?s = replicate 65535 97 @ [0xD83D, 0xDE00] @ []"
    using replay_of_log [OF conjunct1 [OF session_window], of 0 "[PData (?as @ grin)]" demo_info] unfolding out
    by (simp add: connect_from_def bufferLimit_def)
  from replay_splits_pair [OF this] show ?thesis by (simp add: is_high_def is_low_def)
qed

subsection \<open>Tickets are used once\<close>

datatype ticket_event = TIssue "string + string" int int string | TConsume string string int

fun ticket_step :: "ticket_event \<Rightarrow> pty_tickets \<Rightarrow> pty_tickets" where
  "ticket_step (TIssue raw now now' k) ts = snd (IssueTicket raw now now' k ts)"
| "ticket_step (TConsume token k now) ts = snd (ConsumeTicket token k now ts)"

fun reissued :: "string \<Rightarrow> ticket_event \<Rightarrow> bool" where
  "reissued token (TIssue (Inr bytes) now now' k) = (hexEncode bytes = token)"
| "reissued token _ = False"

lemma purge_get: "gm_wf ts \<Longrightarrow> gm_get (purgeLocked now ts) k =
    (case gm_get ts k of None \<Rightarrow> None | Some e \<Rightarrow> if now > tk_expires e then None else Some e)"
proof (induction ts)
  case (Cons p ts)
  then have "gm_get ts (fst p) = None" by (simp add: gm_wf_def map_of_eq_None_iff)
  then show ?case using Cons by (cases p) (auto simp: purgeLocked_def gm_wf_def split: option.splits)
qed (simp add: purgeLocked_def)

lemma purge_wf: "gm_wf ts \<Longrightarrow> gm_wf (purgeLocked now ts)"
  by (simp add: gm_wf_def purgeLocked_def distinct_map_filter)

lemma tickets_wf_step: "gm_wf ts \<Longrightarrow> gm_wf (ticket_step e ts)"
  by (cases e) (auto simp: IssueTicket_def ConsumeTicket_def Let_def purge_wf split: sum.split option.split)

lemma ticket_kept_or_gone:
  assumes "gm_wf ts" "\<not> reissued token e" "gm_get (ticket_step e ts) token = Some t"
  shows "gm_get ts token = Some t"
  using assms
  by (cases e)
    (auto simp: IssueTicket_def ConsumeTicket_def Let_def purge_get split: sum.splits option.splits if_splits)

lemma ticket_run_gone:
  "gm_wf ts \<Longrightarrow> list_all (\<lambda>e. \<not> reissued token e) es \<Longrightarrow> gm_get ts token = None \<Longrightarrow>
   gm_get (fold ticket_step es ts) token = None"
proof (induction es arbitrary: ts)
  case (Cons e es)
  then have "gm_get (ticket_step e ts) token = None"
    using ticket_kept_or_gone [of ts token e] by (cases "gm_get (ticket_step e ts) token") auto
  then show ?case using Cons tickets_wf_step by simp
qed simp

lemma ticket_run_kept:
  "gm_wf ts \<Longrightarrow> list_all (\<lambda>e. \<not> reissued token e) es \<Longrightarrow> gm_get (fold ticket_step es ts) token = Some t \<Longrightarrow>
   gm_get ts token = Some t"
proof (induction es arbitrary: ts)
  case (Cons e es)
  then show ?case using ticket_kept_or_gone [of ts token e] tickets_wf_step by simp
qed simp

lemma tickets_wf_run: "gm_wf ts \<Longrightarrow> gm_wf (fold ticket_step es ts)"
  by (induction es arbitrary: ts) (simp_all add: tickets_wf_step)

text \<open>
  A connect ticket opens one connection: after a ticket is issued, whatever other tickets are
  issued and probed, a successful use is for its own terminal and within 60 seconds, and no
  later use of it succeeds.
\<close>

theorem ticket_single_use:
  assumes "gm_wf ts" "IssueTicket (Inr bytes) t0 t1 k ts = (Inr token, ts')"
    "list_all (\<lambda>e. \<not> reissued token e) (es @ es')"
    "ConsumeTicket token k' now (fold ticket_step es ts') = (True, ts'')"
  shows "k' = k \<and> now < t1 + 60 * 1000000000 \<and>
    fst (ConsumeTicket token k2 now2 (fold ticket_step es' ts'')) = False"
proof -
  have ts': "gm_wf ts'" "gm_get ts' token = Some \<lparr>tk_pty = k, tk_expires = t1 + ticketTTL\<rparr>"
    using assms(1,2) by (auto simp: IssueTicket_def Let_def purge_wf)
  let ?m = "fold ticket_step es ts'"
  from assms(4) obtain e where e: "gm_get ?m token = Some e" "tk_pty e = k'" "now < tk_expires e" "ts'' = gm_del token ?m"
    by (auto simp: ConsumeTicket_def split: option.splits if_splits)
  from ticket_run_kept [OF ts'(1) _ e(1)] assms(3) ts'(2) have "e = \<lparr>tk_pty = k, tk_expires = t1 + ticketTTL\<rparr>"
    by simp
  moreover have "gm_wf ts''" using tickets_wf_run [OF ts'(1)] e(4) by simp
  from ticket_run_gone [OF this, of token es'] have "gm_get (fold ticket_step es' ts'') token = None"
    using assms(3) e(4) by simp
  ultimately show ?thesis using e(2,3) by (auto simp: ConsumeTicket_def ticketTTL_def)
qed

lemma ticket_single_use_witness:
  "\<exists>ts' ts''. IssueTicket (Inr ''ab'') 0 5 ''pty_1'' [] = (Inr ''6162'', ts') \<and>
     ConsumeTicket ''6162'' ''pty_1'' 9 (fold ticket_step [TConsume ''6162'' ''pty_2'' 8] ts') = (True, ts'') \<and>
     fst (ConsumeTicket ''6162'' ''pty_1'' 10 (fold ticket_step [] ts'')) = False"
proof -
  obtain ts' where i: "IssueTicket (Inr ''ab'') 0 5 ''pty_1'' [] = (Inr ''6162'', ts')"
    and t: "ts' = [(''6162'', \<lparr>tk_pty = ''pty_1'', tk_expires = 60000000005\<rparr>)]"
    by (simp add: IssueTicket_def hexEncode_def hex_digit_def purgeLocked_def ticketTTL_def Let_def)
  obtain ts'' where c: "ConsumeTicket ''6162'' ''pty_1'' 9 (fold ticket_step [TConsume ''6162'' ''pty_2'' 8] ts') = (True, ts'')"
    unfolding t by (simp add: ConsumeTicket_def)
  show ?thesis using i c ticket_single_use [OF gm_wf_nil i _ c, of "[]" "''pty_1''" 10] by auto
qed

end
