(* ===== verification/ScrollRegion.thy ===== *)
theory ScrollRegion
  imports Prelude
begin

text \<open>
  The tail-anchored viewport (\<^verbatim>\<open>scrollregion/scrollregion.go\<close>, \<^verbatim>\<open>scrollregion/keys.go\<close>) and the keys of the
  terminal client that move it (\<^verbatim>\<open>internal/tui/model.go\<close>, \<^verbatim>\<open>internal/tui/tui_events.go\<close>). The offset is
  the number of lines hidden below the viewport; no sequence of key presses reaches \<open>2 ^ 63\<close>.
\<close>

record region =
  Offset :: int

definition Back :: "int \<Rightarrow> region \<Rightarrow> region" where
  "Back n r = (if n > 0 then r\<lparr>Offset := Offset r + n\<rparr> else r)"

definition Forward :: "int \<Rightarrow> region \<Rightarrow> region" where
  "Forward n r =
     (if n > 0
      then (let r = r\<lparr>Offset := Offset r - n\<rparr> in if Offset r < 0 then r\<lparr>Offset := 0\<rparr> else r)
      else r)"

definition ToTail :: "region \<Rightarrow> region" where
  "ToTail r = r\<lparr>Offset := 0\<rparr>"

definition AtTail :: "region \<Rightarrow> bool" where
  "AtTail r = (Offset r \<le> 0)"

definition MaxOffset :: "int \<Rightarrow> int \<Rightarrow> int" where
  "MaxOffset tot height = (if tot - height > 0 then tot - height else 0)"

definition Clamp :: "int \<Rightarrow> int \<Rightarrow> region \<Rightarrow> region" where
  "Clamp tot height r =
     (let hi = MaxOffset tot height;
          r = (if Offset r > hi then r\<lparr>Offset := hi\<rparr> else r)
      in if Offset r < 0 then r\<lparr>Offset := 0\<rparr> else r)"

definition ToTop :: "int \<Rightarrow> int \<Rightarrow> region \<Rightarrow> region" where
  "ToTop tot height r = r\<lparr>Offset := MaxOffset tot height\<rparr>"

text \<open>A slice expression; \<open>None\<close> is the run-time panic of bounds out of range.\<close>

definition go_slice :: "'a list \<Rightarrow> int \<Rightarrow> int \<Rightarrow> 'a list option" where
  "go_slice ls lo hi =
     (if 0 \<le> lo \<and> lo \<le> hi \<and> hi \<le> int (length ls) then Some (take (nat (hi - lo)) (drop (nat lo) ls)) else None)"

definition Window :: "'a list \<Rightarrow> 'a \<Rightarrow> int \<Rightarrow> region \<Rightarrow> 'a list option" where
  \<comment> \<open>the second argument is the empty line\<close>
  "Window ls blank height r =
     (let height = (if height < 1 then 1 else height)
      in if int (length ls) \<le> height then Some (ls @ replicate (nat height - length ls) blank)
         else
           (let off = Offset r;
                hi = int (length ls) - height;
                off = (if off > hi then hi else off);
                off = (if off < 0 then 0 else off);
                end = int (length ls) - off
            in go_slice ls (end - height) end))"

subsection \<open>Keys\<close>

datatype action = NoAction | Up | Down | PageUp | PageDown | Top | Bottom

definition Decode :: "string \<Rightarrow> action" where
  "Decode key =
     (if key = ''up'' then Up
      else if key = ''down'' then Down
      else if key = ''pgup'' then PageUp
      else if key = ''pgdown'' \<or> key = ''pgdn'' then PageDown
      else if key = ''home'' then Top
      else if key = ''end'' then Bottom
      else NoAction)"

definition Apply :: "action \<Rightarrow> int \<Rightarrow> int \<Rightarrow> region \<Rightarrow> region" where
  "Apply a step page r =
     (case a of
        Up \<Rightarrow> Back step r
      | Down \<Rightarrow> Forward step r
      | PageUp \<Rightarrow> Back page r
      | PageDown \<Rightarrow> Forward page r
      | Top \<Rightarrow> r\<lparr>Offset := 2 ^ 30\<rparr>
      | Bottom \<Rightarrow> ToTail r
      | NoAction \<Rightarrow> r)"

text \<open>
  What the stream view does with a scroll key: \<open>step\<close> is \<^verbatim>\<open>scrollLines\<close>, \<open>body\<close> is \<^verbatim>\<open>scrollBodyHeight\<close>;
  \<open>None\<close> is a key that is not one of these.
\<close>

definition stream_key :: "string \<Rightarrow> int \<Rightarrow> int \<Rightarrow> region \<Rightarrow> region option" where
  "stream_key key step body r =
     (if key = ''ctrl+up'' \<or> key = ''pgup'' then Some (Back step r)
      else if key = ''ctrl+down'' \<or> key = ''pgdown'' \<or> key = ''pgdn'' then Some (Forward step r)
      else if key = ''ctrl+alt+u'' then Some (Back (body div 4) r)
      else if key = ''ctrl+alt+d'' then Some (Forward (body div 4) r)
      else if key = ''home'' \<or> key = ''ctrl+g'' then Some (Apply Top 0 0 r)
      else if key = ''end'' \<or> key = ''ctrl+alt+g'' then Some (Apply Bottom 0 0 r)
      else None)"

text \<open>The commands of the client's event stream that scroll.\<close>

definition stream_command :: "string \<Rightarrow> int \<Rightarrow> int \<Rightarrow> region \<Rightarrow> region option" where
  "stream_command cmd step page r =
     (if cmd = ''session.page.up'' then Some (Back page r)
      else if cmd = ''session.page.down'' then Some (Forward page r)
      else if cmd = ''session.line.up'' then Some (Back step r)
      else if cmd = ''session.line.down'' then Some (Forward step r)
      else if cmd = ''session.half.page.up'' then Some (Back (page div 2) r)
      else if cmd = ''session.half.page.down'' then Some (Forward (page div 2) r)
      else if cmd = ''session.first'' then Some (r\<lparr>Offset := 2 ^ 30\<rparr>)
      else if cmd = ''session.last'' then Some (ToTail r)
      else None)"

subsection \<open>What is shown\<close>

lemma clamped_bounds: "0 \<le> Offset (Clamp t h r)" "Offset (Clamp t h r) \<le> MaxOffset t h"
  by (simp_all add: Clamp_def MaxOffset_def Let_def)

text \<open>
  C29. The viewport always shows exactly its height: a body that fits is shown whole and padded with
  empty lines, a longer one by the lines between those above and the clamped offset of those
  below, and clamping first changes nothing.
\<close>

theorem window_shows:
  assumes "1 \<le> h"
  shows "\<exists>w. Window ls blank h r = Some w \<and> length w = nat h \<and>
    Window ls blank h (Clamp (int (length ls)) h r) = Some w \<and>
    (if int (length ls) \<le> h then \<exists>k. w = ls @ replicate k blank
     else \<exists>above below. ls = above @ w @ below \<and> int (length below) = Offset (Clamp (int (length ls)) h r))"
proof (cases "int (length ls) \<le> h")
  case True
  then show ?thesis using assms by (auto simp: Window_def)
next
  case False
  define off where "off = Offset (Clamp (int (length ls)) h r)"
  have hi: "MaxOffset (int (length ls)) h = int (length ls) - h" using False by (simp add: MaxOffset_def)
  have off: "0 \<le> off" "off \<le> int (length ls) - h" using clamped_bounds hi unfolding off_def by metis+
  define k where "k = nat (int (length ls) - off - h)"
  have k: "k + nat h + nat off = length ls" "int k = int (length ls) - off - h" using off assms by (simp_all add: k_def)
  have slice: "go_slice ls (int (length ls) - off - h) (int (length ls) - off) = Some (take (nat h) (drop k ls))"
    using off assms by (simp add: go_slice_def k_def)
  have w: "Window ls blank h r = Some (take (nat h) (drop k ls))"
    "Window ls blank h (Clamp (int (length ls)) h r) = Some (take (nat h) (drop k ls))"
    using False assms hi slice by (auto simp: Window_def Let_def off_def Clamp_def split: if_splits)
  have "ls = take k ls @ take (nat h) (drop k ls) @ drop (k + nat h) ls"
    by (metis append_take_drop_id drop_drop add.commute)
  moreover have "int (length (drop (k + nat h) ls)) = off" using k off(1) assms by simp
  ultimately have "\<exists>above below. ls = above @ take (nat h) (drop k ls) @ below \<and> int (length below) = off" by blast
  moreover have "length (take (nat h) (drop k ls)) = nat h" using k off(1) assms by simp
  ultimately show ?thesis using False w unfolding off_def by simp
qed

lemma window_shows_witness:
  "\<exists>w. Window ''abcde'' (CHR ''-'') 2 \<lparr>Offset = 9\<rparr> = Some w \<and> w = ''ab'' \<and> length w = 2"
  using window_shows [of 2 "''abcde''" "CHR ''-''" "\<lparr>Offset = 9\<rparr>"] by (simp add: Window_def go_slice_def)

text \<open>
  After the jump to the first message, scrolling down does not move the view: the jump sets the
  offset to a large value that is never brought back to the body's, so the view stays at the
  oldest line until the steps down add up to that value, about a billion lines.
\<close>

theorem first_message_sticks:
  assumes "1 \<le> h" "h < int (length ls)" "1 \<le> step" "int k * step + int (length ls) - h \<le> 2 ^ 30"
  shows "Window ls blank h (((\<lambda>r. the (stream_key ''ctrl+down'' step body r)) ^^ k) (the (stream_key ''home'' step body r))) =
    Some (take (nat h) ls)"
proof -
  have steps: "((\<lambda>r. the (stream_key ''ctrl+down'' step body r)) ^^ k) (the (stream_key ''home'' step body r)) =
      r\<lparr>Offset := 2 ^ 30 - int k * step\<rparr>"
    using assms(4)
  proof (induction k)
    case (Suc k)
    then have "int k * step + int (length ls) - h \<le> 2 ^ 30" using assms(3) by (simp add: algebra_simps)
    from Suc.IH [OF this] show ?case
      using Suc.prems assms(2,3) by (simp add: stream_key_def Forward_def Let_def algebra_simps)
  qed (simp add: stream_key_def Apply_def)
  show ?thesis unfolding steps using assms(1,2,4) by (auto simp: Window_def go_slice_def Let_def)
qed

lemma first_message_sticks_witness:
  "Window ''abcde'' (CHR ''-'') 2 (((\<lambda>r. the (stream_key ''ctrl+down'' 3 20 r)) ^^ 1000) (the (stream_key ''home'' 3 20 \<lparr>Offset = 0\<rparr>))) = Some ''ab''"
  using first_message_sticks [of 2 "''abcde''" 3 1000 "CHR ''-''" 20 "\<lparr>Offset = 0\<rparr>"] by simp

end
