(* ===== verification/Fuzzy.thy ===== *)
theory Fuzzy
  imports Utf8 GoLib "HOL-Library.Sublist" "HOL-Library.Multiset" "HOL-Library.List_Lexorder" "HOL-Library.Char_ord"
begin

text \<open>
  The file finder (\<^verbatim>\<open>internal/server/find_handlers.go\<close>, \<^verbatim>\<open>internal/server/fuzzy.go\<close>): which paths of a
  project are offered, and how they are ranked against a query. \<open>lw\<close> is \<^verbatim>\<open>unicode.ToLower\<close>, a table
  of the standard library. A slice index out of range is \<open>None\<close>.
\<close>

subsection \<open>Scoring\<close>

definition goToLower :: "(rune \<Rightarrow> rune) \<Rightarrow> string \<Rightarrow> string" where
  \<comment> \<open>\<^verbatim>\<open>strings.ToLower\<close>; \<^verbatim>\<open>strings.Map\<close> writes U+FFFD for an invalid byte\<close>
  "goToLower lw s = (if is_ascii s then to_lower s else string_of_runes (map lw (runes_of s)))"

definition basenameBonus :: int where
  "basenameBonus = 30"

definition is_upper :: "char \<Rightarrow> bool" where
  "is_upper c = in_range 65 90 c"

definition is_lower :: "char \<Rightarrow> bool" where
  "is_lower c = in_range 97 122 c"

definition isBoundary :: "string \<Rightarrow> nat \<Rightarrow> bool option" where
  "isBoundary s i =
     (if i = 0 then Some True
      else if i - 1 \<ge> length s then None
      else
        (let prev = s ! (i - 1)
         in if prev \<in> set [CHR ''/'', CHR 0x5C, CHR ''.'', CHR ''-'', CHR ''_'', CHR '' ''] then Some True
            else if i \<ge> length s then None
            else Some (is_upper (s ! i) \<and> is_lower prev)))"

text \<open>
  The loop: \<open>ti\<close> is the index of the first of the remaining bytes of the lowered text, \<open>q\<close> what is left of the
  query; the result is the score and what remains unmatched.
\<close>

fun subseq_loop :: "string \<Rightarrow> nat \<Rightarrow> string \<Rightarrow> string \<Rightarrow> int \<Rightarrow> int \<Rightarrow> (int \<times> string) option" where
  "subseq_loop tx ti [] q score prevMatch = Some (score, q)"
| "subseq_loop tx ti (c # cs) [] score prevMatch = Some (score, [])"
| "subseq_loop tx ti (c # cs) (x # q) score prevMatch =
     (if c \<noteq> x then subseq_loop tx (Suc ti) cs (x # q) score prevMatch
      else
        (case isBoundary tx ti of
           None \<Rightarrow> None
         | Some b \<Rightarrow>
             subseq_loop tx (Suc ti) cs q
               (score + 1 + (if int ti = prevMatch + 1 then 5 else 0) + (if b then 8 else 0)) (int ti)))"

text \<open>\<open>Some None\<close> is no match.\<close>

definition subseqScore :: "(rune \<Rightarrow> rune) \<Rightarrow> string \<Rightarrow> string \<Rightarrow> int option option" where
  "subseqScore lw query tx =
     (case subseq_loop tx 0 (goToLower lw tx) query 0 (-2) of
        None \<Rightarrow> None
      | Some (score, q) \<Rightarrow> Some (if q = [] then Some score else None))"

definition after_last_slash :: "string \<Rightarrow> string" where
  "after_last_slash s = rev (takeWhile (\<lambda>c. c \<noteq> CHR ''/'') (rev s))"

definition fuzzyScore :: "(rune \<Rightarrow> rune) \<Rightarrow> string \<Rightarrow> string \<Rightarrow> int option option" where
  "fuzzyScore lw query target =
     (if query = [] then Some (Some 0)
      else
        (case subseqScore lw query (after_last_slash target) of
           None \<Rightarrow> None
         | Some r1 \<Rightarrow>
             (case subseqScore lw query target of
                None \<Rightarrow> None
              | Some r2 \<Rightarrow>
                  (let best = map_option (\<lambda>s. s + basenameBonus) r1;
                       best = (case (r2, best) of
                                 (Some s, None) \<Rightarrow> Some s
                               | (Some s, Some b) \<Rightarrow> if s > b then Some s else Some b
                               | (None, b) \<Rightarrow> b)
                   in Some (map_option (\<lambda>b. b - int (length target div 8)) best)))))"

subsection \<open>Ranking\<close>

text \<open>A match and its score; the order is the comparison the sort is given.\<close>

datatype scored = Scored (sc_item: string) (sc_score: int)

instantiation scored :: linorder
begin

definition less_scored :: "scored \<Rightarrow> scored \<Rightarrow> bool" where
  "less_scored a b =
     (if sc_score a \<noteq> sc_score b then sc_score a > sc_score b
      else if length (sc_item a) \<noteq> length (sc_item b) then length (sc_item a) < length (sc_item b)
      else sc_item a < sc_item b)"

definition less_eq_scored :: "scored \<Rightarrow> scored \<Rightarrow> bool" where
  "less_eq_scored a b = (a = b \<or> a < b)"

instance
proof
  fix a b c :: scored
  show "(a < b) = (a \<le> b \<and> \<not> b \<le> a)" "a \<le> a"
    by (auto simp: less_eq_scored_def less_scored_def split: if_splits)
  show "a \<le> b \<Longrightarrow> b \<le> c \<Longrightarrow> a \<le> c"
    by (auto simp: less_eq_scored_def less_scored_def split: if_splits)
  show "a \<le> b \<Longrightarrow> b \<le> a \<Longrightarrow> a = b"
    by (auto simp: less_eq_scored_def less_scored_def split: if_splits)
  show "a \<le> b \<or> b \<le> a"
    by (cases a; cases b) (auto simp: less_eq_scored_def less_scored_def split: if_splits)
qed

end

text \<open>The items that match, with their scores, in the order given.\<close>

fun score_all :: "(rune \<Rightarrow> rune) \<Rightarrow> string \<Rightarrow> string list \<Rightarrow> scored list option" where
  "score_all lw q [] = Some []"
| "score_all lw q (it # its) =
     (case fuzzyScore lw q it of
        None \<Rightarrow> None
      | Some r \<Rightarrow>
          (case score_all lw q its of
             None \<Rightarrow> None
           | Some ms \<Rightarrow> Some (case r of None \<Rightarrow> ms | Some s \<Rightarrow> Scored it s # ms)))"

text \<open>\<open>limit\<close> is positive here: the handler refuses the others.\<close>

definition rankFuzzy :: "(rune \<Rightarrow> rune) \<Rightarrow> string \<Rightarrow> string list \<Rightarrow> nat \<Rightarrow> string list option" where
  "rankFuzzy lw query items limit =
     map_option (\<lambda>ms. map sc_item (take limit (sort ms))) (score_all lw (goToLower lw query) items)"


subsection \<open>A match is a subsequence\<close>

lemma loop_matches:
  "subseq_loop tx ti cs q sc pm = Some (s, r) \<Longrightarrow> r = [] \<longleftrightarrow> subseq q cs"
  by (induction tx ti cs q sc pm rule: subseq_loop.induct) (auto split: if_splits option.splits)

lemma boundary_in_range: "i < length s \<Longrightarrow> isBoundary s i \<noteq> None"
  by (auto simp: isBoundary_def Let_def)

lemma loop_in_range: "ti + length cs \<le> length tx \<Longrightarrow> subseq_loop tx ti cs q sc pm \<noteq> None"
proof (induction tx ti cs q sc pm rule: subseq_loop.induct)
  case (3 tx ti c cs x q score prevMatch)
  then show ?case using boundary_in_range [of ti tx] by (auto split: option.split)
qed simp_all

lemma lower_ascii: "is_ascii s \<Longrightarrow> goToLower lw s = to_lower s"
  by (simp add: goToLower_def)

lemma subseqScore_ascii:
  assumes "is_ascii tx"
  shows "\<exists>r. subseqScore lw q tx = Some r \<and> (r \<noteq> None \<longleftrightarrow> subseq q (to_lower tx))"
proof -
  have "subseq_loop tx 0 (to_lower tx) q 0 (-2) \<noteq> None" by (rule loop_in_range) (simp add: to_lower_def)
  then obtain s r where "subseq_loop tx 0 (to_lower tx) q 0 (-2) = Some (s, r)" by auto
  then show ?thesis using loop_matches lower_ascii [OF assms] by (simp add: subseqScore_def)
qed

lemma base_suffix: "\<exists>d. s = d @ after_last_slash s"
proof -
  have "s = rev (dropWhile (\<lambda>c. c \<noteq> CHR ''/'') (rev s)) @ after_last_slash s"
    by (simp add: after_last_slash_def flip: rev_append)
  then show ?thesis by blast
qed

definition matches_path :: "string \<Rightarrow> string \<Rightarrow> bool" where
  "matches_path q t = subseq q (to_lower t)"

lemma fuzzy_matches_aux:
  assumes "is_ascii target"
  shows "\<exists>r. fuzzyScore lw q target = Some r \<and> (r \<noteq> None \<longleftrightarrow> matches_path q target)"
proof (cases "q = []")
  case True
  then show ?thesis by (simp add: fuzzyScore_def matches_path_def)
next
  case False
  let ?b = "after_last_slash target"
  obtain d where d: "target = d @ ?b" using base_suffix by blast
  have "is_ascii ?b" using assms by (subst (asm) d) (simp add: is_ascii_def)
  from subseqScore_ascii [OF this] obtain r1 where
    r1: "subseqScore lw q ?b = Some r1" "r1 \<noteq> None \<longleftrightarrow> subseq q (to_lower ?b)" by blast
  from subseqScore_ascii [OF assms] obtain r2 where
    r2: "subseqScore lw q target = Some r2" "r2 \<noteq> None \<longleftrightarrow> subseq q (to_lower target)" by blast
  have "to_lower target = to_lower d @ to_lower ?b" by (subst d) (simp add: to_lower_def)
  then have "r1 \<noteq> None \<Longrightarrow> r2 \<noteq> None" using r1(2) r2(2) by (simp add: list_emb_append2)
  then show ?thesis
    using False r1(1) r2 by (cases r1; cases r2) (auto simp: fuzzyScore_def matches_path_def Let_def)
qed

text \<open>
  A path matches exactly when the query, in lower case, is a subsequence of it: the greedy scan
  never misses one, and over ASCII paths it never reads out of range.
\<close>

theorem fuzzy_matches_subsequences:
  assumes "is_ascii target"
  shows "\<exists>r. fuzzyScore lw q target = Some r \<and> (r \<noteq> None \<longleftrightarrow> matches_path q target)"
  by (rule fuzzy_matches_aux [OF assms])

lemma fuzzy_matches_subsequences_witness:
  "\<exists>r. fuzzyScore (\<lambda>r. r) ''sgo'' ''cmd/Server.go'' = Some r \<and> r \<noteq> None"
proof -
  have "is_ascii ''cmd/Server.go''" "matches_path ''sgo'' ''cmd/Server.go''" by code_simp+
  then show ?thesis using fuzzy_matches_subsequences [of "''cmd/Server.go''" "\<lambda>r. r" "''sgo''"] by blast
qed

subsection \<open>The best matches first\<close>

definition path_rank :: "(rune \<Rightarrow> rune) \<Rightarrow> string \<Rightarrow> string \<Rightarrow> scored" where
  "path_rank lw q it = Scored it (case fuzzyScore lw q it of Some (Some s) \<Rightarrow> s | _ \<Rightarrow> 0)"

lemma score_all_ascii:
  "list_all is_ascii items \<Longrightarrow> score_all lw q items = Some (map (path_rank lw q) (filter (matches_path q) items))"
proof (induction items)
  case (Cons it items)
  from Cons.prems have "is_ascii it" by simp
  from fuzzy_matches_aux [OF this, of lw q] Cons show ?case by (auto simp: path_rank_def split: option.splits)
qed simp

text \<open>
  The finder returns the best matches, best first: as many as match, at most the limit, in the
  order of rank, and no match it leaves out ranks before one it returns.
\<close>

theorem rank_fuzzy_best:
  assumes "list_all is_ascii items" "is_ascii query" "q = to_lower query"
  shows "\<exists>out rest. rankFuzzy lw query items limit = Some out \<and>
    mset (out @ rest) = mset (filter (matches_path q) items) \<and>
    length out = min limit (length (filter (matches_path q) items)) \<and>
    sorted (map (path_rank lw q) (out @ rest))"
proof -
  let ?ms = "map (path_rank lw q) (filter (matches_path q) items)"
  have "path_rank lw q (sc_item m) = m" if "m \<in> set ?ms" for m
    using that by (auto simp: path_rank_def)
  then have ranks: "map (path_rank lw q) (map sc_item (sort ?ms)) = sort ?ms"
    by (auto intro!: map_idI)
  have "map sc_item ?ms = filter (matches_path q) items" by (simp add: path_rank_def comp_def)
  then have items: "mset (map sc_item (sort ?ms)) = mset (filter (matches_path q) items)"
    by (metis mset_map mset_sort)
  have "rankFuzzy lw query items limit = Some (take limit (map sc_item (sort ?ms)))"
    using score_all_ascii [OF assms(1), of lw q] assms(2,3) by (simp add: rankFuzzy_def lower_ascii take_map)
  moreover have "sorted (map (path_rank lw q) (map sc_item (sort ?ms)))" unfolding ranks by simp
  ultimately show ?thesis
    using items by (intro exI [of _ "take limit (map sc_item (sort ?ms))"] exI [of _ "drop limit (map sc_item (sort ?ms))"])
      (simp only: append_take_drop_id length_take length_map length_sort min.commute simp_thms)
qed


lemma rank_fuzzy_best_witness:
  "\<exists>out rest. rankFuzzy (\<lambda>r. r) ''go'' [''a/go.go'', ''b.c'', ''cargo''] 1 = Some out \<and>
     mset (out @ rest) = mset [''a/go.go'', ''cargo''] \<and> length out = 1"
proof -
  let ?items = "[''a/go.go'', ''b.c'', ''cargo'']"
  have a: "list_all is_ascii ?items" "is_ascii ''go''" "''go'' = to_lower ''go''"
    "filter (matches_path ''go'') ?items = [''a/go.go'', ''cargo'']" by code_simp+
  show ?thesis using rank_fuzzy_best [OF a(1-3), of "\<lambda>r. r" 1] unfolding a(4) by auto
qed

text \<open>
  A file name that is not valid UTF-8 breaks the search: lowering it makes it longer, and the check
  for a word boundary then indexes the shorter original out of range, which panics.
\<close>

theorem fuzzy_invalid_name_panics:
  assumes "lw 0xFFFD = 0xFFFD" "lw 98 = 98"
  shows "rankFuzzy lw ''b'' ([CHR 0xFF, CHR 0xFF, CHR ''b''] # items) limit = None"
proof -
  let ?t = "[CHR 0xFF, CHR 0xFF, CHR ''b'']"
  have "runes_of ?t = [0xFFFD, 0xFFFD, 98]"
    by (simp add: runes_of.simps [of ?t] runes_of.simps [of "[CHR 0xFF, CHR ''b'']"] runes_of.simps [of "[CHR ''b'']"]
        decode_rune_def rune_len_def rune_error_def)
  then have low: "goToLower lw ?t = [CHR 0xEF, CHR 0xBF, CHR 0xBD, CHR 0xEF, CHR 0xBF, CHR 0xBD, CHR ''b'']"
    using assms by (simp add: goToLower_def is_ascii_def string_of_runes_def encode_rune_def char_of_def bit_Suc_0_iff)
  have "after_last_slash ?t = ?t" by (simp add: after_last_slash_def)
  moreover have "subseqScore lw ''b'' ?t = None" unfolding subseqScore_def low by (simp add: isBoundary_def)
  ultimately have "fuzzyScore lw ''b'' ?t = None" by (simp add: fuzzyScore_def)
  moreover have "goToLower lw ''b'' = ''b''" by (simp add: goToLower_def is_ascii_def to_lower_def to_lower_c_def Let_def)
  ultimately show ?thesis by (simp add: rankFuzzy_def)
qed

lemma fuzzy_invalid_name_panics_witness: "rankFuzzy (\<lambda>r. r) ''b'' [[CHR 0xFF, CHR 0xFF, CHR ''b''], ''b.go''] 10 = None"
  using fuzzy_invalid_name_panics [of "\<lambda>r. r" "[''b.go'']" 10] by simp

subsection \<open>The paths of a project\<close>

text \<open>
  A directory's entries in the order \<^verbatim>\<open>filepath.WalkDir\<close> visits them; a directory that cannot be read has
  none. Paths are relative, with forward slashes.
\<close>

datatype entry = FileEntry string | DirEntry string "entry list"

definition findSkipDirs :: "string list" where
  "findSkipDirs = [''.git'', ''node_modules'', ''vendor'', ''.opcode42'']"

definition hidden :: "string \<Rightarrow> bool" where
  "hidden name = has_prefix name ''.''"

definition under :: "string \<Rightarrow> string \<Rightarrow> string" where
  "under dir name = (if dir = [] then name else dir @ ''/'' @ name)"

fun walk_entry :: "string \<Rightarrow> entry \<Rightarrow> string list" where
  "walk_entry dir (FileEntry name) = (if hidden name then [] else [under dir name])"
| "walk_entry dir (DirEntry name es) =
     (if name \<in> set findSkipDirs \<or> hidden name then [] else concat (map (walk_entry (under dir name)) es))"

definition pathDir :: "string \<Rightarrow> string" where
  "pathDir p = (if CHR ''/'' \<in> set p then butlast (rev (dropWhile (\<lambda>c. c \<noteq> CHR ''/'') (rev p))) else [])"

lemma pathDir_shorter: "pathDir p \<noteq> [] \<Longrightarrow> length (pathDir p) < length p"
proof -
  assume "pathDir p \<noteq> []"
  moreover have "length (dropWhile (\<lambda>c. c \<noteq> CHR ''/'') (rev p)) \<le> length p"
    using length_dropWhile_le [of _ "rev p"] by simp
  ultimately show ?thesis by (cases p) (auto simp: pathDir_def split: if_splits)
qed

function parents :: "string \<Rightarrow> string list" where
  "parents p = (if p = [] then [] else p # parents (pathDir p))"
  by pat_completeness auto
termination
proof (relation "measure length")
  show "p \<noteq> [] \<Longrightarrow> (pathDir p, p) \<in> measure length" for p
    using pathDir_shorter [of p] by (cases "pathDir p = []") simp_all
qed simp

declare parents.simps [simp del]

text \<open>The loop of the walk over a file's parents, with the directories already seen.\<close>

definition add_dirs :: "string \<Rightarrow> string list \<Rightarrow> string list" where
  "add_dirs rel dirs =
     fold (\<lambda>parent dirs. if parent @ ''/'' \<in> set dirs then dirs else dirs @ [parent @ ''/'']) (parents (pathDir rel)) dirs"

definition walkProject :: "string \<Rightarrow> entry list \<Rightarrow> string list \<times> string list" where
  "walkProject dir es =
     (if dir = [] then ([], [])
      else (let files = concat (map (walk_entry []) es) in (files, fold add_dirs files [])))"

datatype findKind = kindAll | kindFile | kindDir

definition resolveFindKind :: "string \<Rightarrow> string \<Rightarrow> findKind option" where
  "resolveFindKind typ dirs =
     (if typ = ''file'' then Some kindFile
      else if typ = ''directory'' then Some kindDir
      else if typ \<noteq> [] then None
      else if dirs = ''false'' then Some kindFile
      else if dirs = ''true'' \<or> dirs = [] then Some kindAll
      else None)"

definition capSlice :: "'a list \<Rightarrow> nat \<Rightarrow> 'a list" where
  "capSlice s limit = (if length s > limit then take limit s else s)"

definition findPaths ::
  "(rune \<Rightarrow> rune) \<Rightarrow> string \<Rightarrow> entry list \<Rightarrow> string \<Rightarrow> findKind \<Rightarrow> nat \<Rightarrow> string list option"
where
  "findPaths lw dir es query kind limit =
     (case walkProject dir es of (files, dirs) \<Rightarrow>
        (let items = (case kind of kindFile \<Rightarrow> files | kindDir \<Rightarrow> dirs | kindAll \<Rightarrow> files @ dirs)
         in if query = [] then Some (capSlice (sort items) limit) else rankFuzzy lw query items limit))"

datatype find_response = FindBad string | FindPaths "string list"

definition findLimitDefault :: nat where
  "findLimitDefault = 100"

definition findLimitMax :: int where
  "findLimitMax = 200"

definition find_limit :: "string \<Rightarrow> nat option" where
  "find_limit raw =
     (if raw = [] then Some findLimitDefault
      else (case atoi raw of
              None \<Rightarrow> None
            | Some n \<Rightarrow> if n < 1 \<or> n > findLimitMax then None else Some (nat n)))"

text \<open>The handler: \<open>query\<close> is \<open>None\<close> when the parameter is absent; the panic of the ranking ends the request.\<close>

definition find_file ::
  "(rune \<Rightarrow> rune) \<Rightarrow> string \<Rightarrow> entry list \<Rightarrow> string option \<Rightarrow> string \<Rightarrow> string \<Rightarrow> string \<Rightarrow> find_response option"
where
  "find_file lw dir es query limit typ dirs =
     (case query of
        None \<Rightarrow> Some (FindBad ''query is required'')
      | Some q \<Rightarrow>
          (case find_limit limit of
             None \<Rightarrow> Some (FindBad ''limit must be between 1 and 200'')
           | Some n \<Rightarrow>
               (case resolveFindKind typ dirs of
                  None \<Rightarrow> Some (FindBad ''type must be file|directory and dirs must be true|false'')
                | Some kind \<Rightarrow> map_option FindPaths (findPaths lw dir es (trim_space q) kind n))))"

lemma add_dirs_set:
  "set (fold (\<lambda>parent dirs. if parent @ ''/'' \<in> set dirs then dirs else dirs @ [parent @ ''/'']) ps dirs) =
     set dirs \<union> (\<lambda>p. p @ ''/'') ` set ps \<and>
   (distinct dirs \<longrightarrow>
      distinct (fold (\<lambda>parent dirs. if parent @ ''/'' \<in> set dirs then dirs else dirs @ [parent @ ''/'']) ps dirs))"
  by (induction ps arbitrary: dirs) auto

lemma walk_dirs:
  "set (fold add_dirs files dirs) = set dirs \<union> (\<Union>f \<in> set files. (\<lambda>p. p @ ''/'') ` set (parents (pathDir f))) \<and>
   (distinct dirs \<longrightarrow> distinct (fold add_dirs files dirs))"
  by (induction files arbitrary: dirs) (auto simp: add_dirs_def add_dirs_set)

text \<open>
  The directories offered are exactly those above an offered file, at any depth, each once; so an
  empty or a skipped directory is never offered.
\<close>

lemma walk_project_dirs:
  "walkProject dir es = (files, dirs) \<Longrightarrow>
   distinct dirs \<and> set dirs = (\<Union>f \<in> set files. (\<lambda>p. p @ ''/'') ` set (parents (pathDir f)))"
  using walk_dirs [of files "[]"] by (auto simp: walkProject_def Let_def split: if_splits)

text \<open>
  A directory never gets the bonus of a match inside the last segment, since its path ends in a slash
  and its last segment is empty.
\<close>

lemma directory_no_bonus: "q \<noteq> [] \<Longrightarrow> subseqScore lw q (after_last_slash (d @ ''/'')) = Some None"
  by (simp add: subseqScore_def after_last_slash_def goToLower_def is_ascii_def to_lower_def)

lemma exact_directory_behind_file:
  "rankFuzzy lw ''src'' [''src/'', ''a/srcs.go''] 1 = Some [''a/srcs.go'']"
proof -
  have "fuzzyScore lw ''src'' ''src/'' = Some (Some 21)" "fuzzyScore lw ''src'' ''a/srcs.go'' = Some (Some 50)"
    "goToLower lw ''src'' = ''src''"
    by code_simp+
  then show ?thesis by (simp add: rankFuzzy_def less_eq_scored_def less_scored_def)
qed

end
