(* ===== verification/TuiStore.thy ===== *)
theory TuiStore
  imports Prelude Llm "HOL-Library.List_Lexorder" "HOL-Library.Char_ord"
begin

text \<open>
  The terminal client's mirror of the daemon (\<^verbatim>\<open>internal/tui/store.go\<close>): view models in slices sorted by
  id, and the reducer that applies one event of the stream. An event is given decoded; one whose
  properties do not decode, and one of another type, only counts.
\<close>

subsection \<open>View models\<close>

record tui_session =
  ss_id :: string
  ss_parent :: string
  ss_title :: string
  ss_directory :: string
  ss_cost :: f64
  ss_input :: int
  ss_output :: int
  ss_cache_read :: int
  ss_cache_write :: int
  ss_share :: "string option"

definition session_total :: "tui_session \<Rightarrow> int" where
  "session_total s = ss_input s + ss_output s + ss_cache_read s + ss_cache_write s"

record tui_msg_error =
  me_name :: string
  me_message :: string

definition tui_error_text :: "tui_msg_error \<Rightarrow> string" where
  "tui_error_text e = (if me_message e \<noteq> [] then me_message e else me_name e)"

record msg_tokens =
  mt_input :: f64
  mt_output :: f64
  mt_reasoning :: f64
  mt_cache_read :: f64
  mt_cache_write :: f64

definition message_total :: "msg_tokens \<Rightarrow> f64" where
  "message_total t = mt_input t + mt_output t + mt_reasoning t + mt_cache_read t + mt_cache_write t"

record tui_message =
  tm_id :: string
  tm_session :: string
  tm_role :: string
  tm_error :: "tui_msg_error option"
  tm_tokens :: msg_tokens

record tui_part =
  tq_id :: string
  tq_message :: string
  tq_session :: string
  tq_type :: string
  tq_text :: string
  tq_tool :: string
  tq_call :: string
  tq_state :: "json option"
  tq_start :: int
  tq_end :: int
  tq_mime :: string
  tq_url :: string
  tq_filename :: string

definition part_done :: "tui_part \<Rightarrow> bool" where
  "part_done p = (tq_end p \<noteq> 0)"

definition part_duration :: "tui_part \<Rightarrow> int" where
  "part_duration p = (if tq_end p = 0 \<or> tq_end p < tq_start p then 0 else tq_end p - tq_start p)"

record tui_permission =
  tr_id :: string
  tr_session :: string
  tr_permission :: string
  tr_metadata :: "json option"
  tr_tool :: "json option"
  tr_patterns :: "string list"
  tr_always :: "string list"

record question_option =
  qo_label :: string
  qo_description :: string

record question_info =
  qi_question :: string
  qi_header :: string
  qi_options :: "question_option list"
  qi_multiple :: bool
  qi_custom :: bool

record tui_question =
  tu_id :: string
  tu_session :: string
  tu_questions :: "question_info list"

record answered_question =
  aq_id :: string
  aq_session :: string
  aq_skipped :: bool
  aq_answers :: "string list list"
  aq_questions :: "question_info list"

record tui_store =
  st_sessions :: "tui_session list"
  st_messages :: "(string, tui_message list) gomap"
  st_parts :: "(string, tui_part list) gomap"
  st_permissions :: "tui_permission list"
  st_questions :: "tui_question list"
  st_answered :: "(string, answered_question list) gomap"
  st_version :: nat

definition newStore :: tui_store where
  "newStore =
     \<lparr>st_sessions = [], st_messages = [], st_parts = [], st_permissions = [], st_questions = [], st_answered = [],
      st_version = 0\<rparr>"

definition gm_list :: "('k, 'v list) gomap \<Rightarrow> 'k \<Rightarrow> 'v list" where
  \<comment> \<open>a missing key reads as the nil slice\<close>
  "gm_list m k = (case gm_get m k of None \<Rightarrow> [] | Some xs \<Rightarrow> xs)"

subsection \<open>Sorted slices\<close>

text \<open>\<^verbatim>\<open>sort.Search\<close>: the loop between \<open>i\<close> and \<open>j\<close>.\<close>

function search_loop :: "(nat \<Rightarrow> bool) \<Rightarrow> nat \<Rightarrow> nat \<Rightarrow> nat" where
  "search_loop f i j =
     (if i < j then (let h = (i + j) div 2 in if \<not> f h then search_loop f (Suc h) j else search_loop f i h) else i)"
  by pat_completeness auto
termination
  by (relation "measure (\<lambda>(f, i, j). j - i)") auto

declare search_loop.simps [simp del]

definition go_search :: "nat \<Rightarrow> (nat \<Rightarrow> bool) \<Rightarrow> nat" where
  "go_search n f = search_loop f 0 n"

definition upsertByID :: "('a \<Rightarrow> string) \<Rightarrow> 'a list \<Rightarrow> 'a \<Rightarrow> 'a list" where
  "upsertByID idf items v =
     (let i = go_search (length items) (\<lambda>i. idf (items ! i) \<ge> idf v)
      in if i < length items \<and> idf (items ! i) = idf v then items[i := v]
         else take i items @ v # drop i items)"

fun removeByID :: "('a \<Rightarrow> string) \<Rightarrow> 'a list \<Rightarrow> string \<Rightarrow> 'a list" where
  "removeByID idf [] key = []"
| "removeByID idf (x # xs) key = (if idf x = key then xs else x # removeByID idf xs key)"

subsection \<open>The reducer\<close>

fun upgrade_answered :: "answered_question \<Rightarrow> answered_question list \<Rightarrow> answered_question list option" where
  "upgrade_answered aq [] = None"
| "upgrade_answered aq (x # xs) =
     (if aq_id x = aq_id aq
      then Some ((if \<not> aq_skipped aq \<and> aq_answers aq \<noteq> [] then aq else x) # xs)
      else map_option (Cons x) (upgrade_answered aq xs))"

definition recordAnsweredQuestion :: "answered_question \<Rightarrow> tui_store \<Rightarrow> tui_store" where
  "recordAnsweredQuestion aq s =
     (if aq_id aq = [] then s
      else
        (let old = gm_list (st_answered s) (aq_session aq)
         in case upgrade_answered aq old of
              Some new \<Rightarrow> s\<lparr>st_answered := gm_put (aq_session aq) new (st_answered s)\<rparr>
            | None \<Rightarrow> s\<lparr>st_answered := gm_put (aq_session aq) (old @ [aq]) (st_answered s)\<rparr>))"

datatype tui_event =
    SessionUpdated tui_session
  | SessionDeleted string
  | MessageUpdated tui_message
  | PartUpdated tui_part
  | PartDelta string string string string
  | MessageRemoved string string
  | PartRemoved string string
  | PermissionAsked tui_permission
  | PermissionReplied string
  | QuestionAsked tui_question
  | QuestionReplied string
  | QuestionRejected string
  | OtherEvent

fun add_delta :: "string \<Rightarrow> string \<Rightarrow> tui_part list \<Rightarrow> tui_part list" where
  "add_delta pid delta [] = []"
| "add_delta pid delta (p # ps) =
     (if tq_id p = pid then p\<lparr>tq_text := tq_text p @ delta\<rparr> # ps else p # add_delta pid delta ps)"

definition finish_question :: "string \<Rightarrow> bool \<Rightarrow> tui_store \<Rightarrow> tui_store" where
  "finish_question rid skipped s =
     (let s1 = (case find (\<lambda>q. tu_id q = rid) (st_questions s) of
                  None \<Rightarrow> s
                | Some q \<Rightarrow>
                    recordAnsweredQuestion
                      \<lparr>aq_id = tu_id q, aq_session = tu_session q, aq_skipped = skipped, aq_answers = [],
                       aq_questions = tu_questions q\<rparr> s)
      in s1\<lparr>st_questions := removeByID tu_id (st_questions s1) rid\<rparr>)"

definition apply_event :: "tui_event \<Rightarrow> tui_store \<Rightarrow> tui_store" where
  "apply_event ev s =
     (case ev of
        SessionUpdated i \<Rightarrow> if ss_id i \<noteq> [] then s\<lparr>st_sessions := upsertByID ss_id (st_sessions s) i\<rparr> else s
      | SessionDeleted sid \<Rightarrow> s\<lparr>st_sessions := removeByID ss_id (st_sessions s) sid\<rparr>
      | MessageUpdated m \<Rightarrow>
          if tm_id m \<noteq> []
          then s\<lparr>st_messages := gm_put (tm_session m)
                   (upsertByID tm_id (gm_list (st_messages s) (tm_session m)) m) (st_messages s)\<rparr>
          else s
      | PartUpdated p \<Rightarrow>
          if tq_id p \<noteq> []
          then s\<lparr>st_parts := gm_put (tq_message p)
                   (upsertByID tq_id (gm_list (st_parts s) (tq_message p)) p) (st_parts s)\<rparr>
          else s
      | PartDelta mid pid field delta \<Rightarrow>
          if field = ''text''
          then (case gm_get (st_parts s) mid of
                  None \<Rightarrow> s | Some ps \<Rightarrow> s\<lparr>st_parts := gm_put mid (add_delta pid delta ps) (st_parts s)\<rparr>)
          else s
      | MessageRemoved sid mid \<Rightarrow>
          s\<lparr>st_messages := gm_put sid (removeByID tm_id (gm_list (st_messages s) sid) mid) (st_messages s),
            st_parts := gm_del mid (st_parts s)\<rparr>
      | PartRemoved mid pid \<Rightarrow>
          s\<lparr>st_parts := gm_put mid (removeByID tq_id (gm_list (st_parts s) mid) pid) (st_parts s)\<rparr>
      | PermissionAsked p \<Rightarrow>
          if tr_id p \<noteq> [] then s\<lparr>st_permissions := upsertByID tr_id (st_permissions s) p\<rparr> else s
      | PermissionReplied rid \<Rightarrow> s\<lparr>st_permissions := removeByID tr_id (st_permissions s) rid\<rparr>
      | QuestionAsked q \<Rightarrow> if tu_id q \<noteq> [] then s\<lparr>st_questions := upsertByID tu_id (st_questions s) q\<rparr> else s
      | QuestionReplied rid \<Rightarrow> finish_question rid False s
      | QuestionRejected rid \<Rightarrow> finish_question rid True s
      | OtherEvent \<Rightarrow> s)"

definition Reduce :: "tui_event \<Rightarrow> tui_store \<Rightarrow> tui_store" where
  "Reduce ev s = (let s1 = apply_event ev s in s1\<lparr>st_version := Suc (st_version s1)\<rparr>)"


subsection \<open>Sorted slices are maps\<close>

definition asc :: "('a \<Rightarrow> string) \<Rightarrow> 'a list \<Rightarrow> bool" where
  "asc idf xs = sorted_wrt (<) (map idf xs)"

definition by_id :: "('a \<Rightarrow> string) \<Rightarrow> 'a list \<Rightarrow> string \<Rightarrow> 'a option" where
  "by_id idf xs = map_of (map (\<lambda>x. (idf x, x)) xs)"

lemma search_loop_bounds:
  assumes "\<And>k l. f k \<Longrightarrow> k \<le> l \<Longrightarrow> l < n \<Longrightarrow> f l"
  shows "i \<le> j \<Longrightarrow> j \<le> n \<Longrightarrow> \<forall>k < i. \<not> f k \<Longrightarrow> \<forall>k. j \<le> k \<and> k < n \<longrightarrow> f k \<Longrightarrow>
    search_loop f i j \<le> n \<and> (\<forall>k < search_loop f i j. \<not> f k) \<and> (\<forall>k. search_loop f i j \<le> k \<and> k < n \<longrightarrow> f k)"
proof (induction "j - i" arbitrary: i j rule: less_induct)
  case less
  show ?case
  proof (cases "i < j")
    case True
    define h where "h = (i + j) div 2"
    have h: "i \<le> h" "h < j" using True by (auto simp: h_def)
    show ?thesis
    proof (cases "f h")
      case f: True
      have "search_loop f i j = search_loop f i h"
        using True f by (simp add: search_loop.simps [of f i j] Let_def flip: h_def)
      moreover have "\<forall>k. h \<le> k \<and> k < n \<longrightarrow> f k" using assms [OF f] by blast
      moreover have "h - i < j - i" "h \<le> n" using h less.prems(2) by linarith+
      ultimately show ?thesis using less.hyps [of h i] less.prems(3) h(1) by metis
    next
      case f: False
      have "search_loop f i j = search_loop f (Suc h) j"
        using True f by (simp add: search_loop.simps [of f i j] Let_def flip: h_def)
      moreover have "\<forall>k < Suc h. \<not> f k" using assms [of _ h] f h less.prems(2) by (metis less_Suc_eq_le order.strict_trans2)
      moreover have "j - Suc h < j - i" "Suc h \<le> j" using h by linarith+
      ultimately show ?thesis using less.hyps [of j "Suc h"] less.prems(2,4) by metis
    qed
  next
    case False
    then have "search_loop f i j = i" "i = j"
      using less.prems(1) by (simp_all add: search_loop.simps [of f i j] search_loop.simps [of f j j])
    then show ?thesis using less.prems by metis
  qed
qed

lemma asc_nth: "asc idf xs \<Longrightarrow> i \<le> j \<Longrightarrow> j < length xs \<Longrightarrow> idf (xs ! i) \<le> idf (xs ! j)"
  by (cases "i = j") (simp_all add: asc_def sorted_wrt_iff_nth_less less_imp_le)

text \<open>In a sorted slice the search finds the place of a key: all before it are smaller, all from it on are not.\<close>

lemma go_search_asc:
  assumes "asc idf xs" "i = go_search (length xs) (\<lambda>i. idf (xs ! i) \<ge> key)"
  shows "i \<le> length xs" "k < i \<Longrightarrow> idf (xs ! k) < key" "i \<le> k \<Longrightarrow> k < length xs \<Longrightarrow> key \<le> idf (xs ! k)"
proof -
  let ?f = "\<lambda>i. idf (xs ! i) \<ge> key"
  have "?f l" if "?f k" "k \<le> l" "l < length xs" for k l
    using asc_nth [OF assms(1) that(2,3)] that(1) by (rule order.trans [rotated])
  then have "search_loop ?f 0 (length xs) \<le> length xs \<and> (\<forall>k < search_loop ?f 0 (length xs). \<not> ?f k) \<and>
      (\<forall>k. search_loop ?f 0 (length xs) \<le> k \<and> k < length xs \<longrightarrow> ?f k)"
    by (rule search_loop_bounds) (auto dest: leD)
  then have "i \<le> length xs \<and> (\<forall>k < i. \<not> ?f k) \<and> (\<forall>k. i \<le> k \<and> k < length xs \<longrightarrow> ?f k)"
    unfolding assms(2) go_search_def .
  then show "i \<le> length xs" "k < i \<Longrightarrow> idf (xs ! k) < key" "i \<le> k \<Longrightarrow> k < length xs \<Longrightarrow> key \<le> idf (xs ! k)"
    by (simp_all add: not_le)
qed

lemma asc_append: "asc idf (xs @ ys) \<longleftrightarrow> asc idf xs \<and> asc idf ys \<and> (\<forall>x \<in> set xs. \<forall>y \<in> set ys. idf x < idf y)"
  by (auto simp: asc_def sorted_wrt_append)

lemma asc_simps [simp]: "asc idf []" "asc idf (x # xs) \<longleftrightarrow> (\<forall>y \<in> set xs. idf x < idf y) \<and> asc idf xs"
  by (auto simp: asc_def)

text \<open>Upserting splits the slice at the key: smaller before, the new element, larger after.\<close>

lemma upsert_split:
  assumes "asc idf xs"
  obtains as bs where "upsertByID idf xs v = as @ v # bs" "\<forall>x \<in> set as. idf x < idf v" "\<forall>x \<in> set bs. idf v < idf x"
    "asc idf as" "asc idf bs" "by_id idf xs = (\<lambda>k. if k = idf v then by_id idf xs k else by_id idf (as @ bs) k)"
proof -
  define i where "i = go_search (length xs) (\<lambda>i. idf (xs ! i) \<ge> idf v)"
  note place = go_search_asc [OF assms i_def]
  have pre: "\<forall>x \<in> set (take i xs). idf x < idf v"
    unfolding all_set_conv_all_nth using place(2) by simp
  show thesis
  proof (cases "i < length xs \<and> idf (xs ! i) = idf v")
    case True
    then have xs: "xs = take i xs @ xs ! i # drop (Suc i) xs" by (simp add: id_take_nth_drop)
    have "upsertByID idf xs v = take i xs @ v # drop (Suc i) xs"
      using True by (simp add: upsertByID_def Let_def upd_conv_take_nth_drop flip: i_def)
    moreover have "asc idf (take i xs)" "asc idf (drop (Suc i) xs)" "\<forall>x \<in> set (drop (Suc i) xs). idf v < idf x"
    proof -
      have "asc idf (take i xs @ xs ! i # drop (Suc i) xs)" using assms xs by metis
      then show "asc idf (take i xs)" "asc idf (drop (Suc i) xs)" "\<forall>x \<in> set (drop (Suc i) xs). idf v < idf x"
        using True unfolding asc_append asc_simps by metis+
    qed
    moreover have "by_id idf xs = (\<lambda>k. if k = idf v then by_id idf xs k else by_id idf (take i xs @ drop (Suc i) xs) k)"
    proof
      fix k
      have "by_id idf xs k = by_id idf (take i xs @ drop (Suc i) xs) k" if "k \<noteq> idf v"
        using that True by (subst xs) (simp add: by_id_def map_add_def split: option.split)
      then show "by_id idf xs k = (if k = idf v then by_id idf xs k else by_id idf (take i xs @ drop (Suc i) xs) k)"
        by simp
    qed
    ultimately show thesis using that pre by blast
  next
    case False
    have "upsertByID idf xs v = take i xs @ v # drop i xs"
      using False by (auto simp: upsertByID_def Let_def simp flip: i_def)
    moreover have "\<forall>x \<in> set (drop i xs). idf v < idf x"
    proof
      fix x assume "x \<in> set (drop i xs)"
      then obtain k where k: "x = xs ! k" "i \<le> k" "k < length xs" by (auto simp: in_set_conv_nth)
      have "idf v \<noteq> idf (xs ! i)" "idf v \<le> idf (xs ! i)" using False k place(3) [of i] by auto
      moreover have "idf (xs ! i) \<le> idf (xs ! k)" by (rule asc_nth [OF assms k(2,3)])
      ultimately show "idf v < idf x" unfolding k(1) by order
    qed
    moreover have "asc idf (take i xs @ drop i xs)" using assms by simp
    then have "asc idf (take i xs)" "asc idf (drop i xs)" unfolding asc_append by blast+
    moreover have "by_id idf xs = (\<lambda>k. if k = idf v then by_id idf xs k else by_id idf (take i xs @ drop i xs) k)"
      unfolding append_take_drop_id if_cancel ..
    ultimately show thesis using that pre by blast
  qed
qed

lemma asc_upsert: "asc idf xs \<Longrightarrow> asc idf (upsertByID idf xs v)"
  by (erule upsert_split [where v = v]) (auto simp: asc_append intro: less_trans)

lemma by_id_upsert: "asc idf xs \<Longrightarrow> by_id idf (upsertByID idf xs v) = (by_id idf xs)(idf v \<mapsto> v)"
proof (erule upsert_split [where v = v], rule ext)
  fix as bs k
  assume u: "upsertByID idf xs v = as @ v # bs" "\<forall>x \<in> set as. idf x < idf v"
    "by_id idf xs = (\<lambda>k. if k = idf v then by_id idf xs k else by_id idf (as @ bs) k)"
  have none: "by_id idf as (idf v) = None" using u(2) by (auto simp: by_id_def map_of_eq_None_iff)
  show "by_id idf (upsertByID idf xs v) k = ((by_id idf xs)(idf v \<mapsto> v)) k"
    by (subst u(3)) (use none in \<open>auto simp: u(1) by_id_def map_add_def split: option.split\<close>)
qed

lemma set_remove: "set (removeByID idf xs key) \<subseteq> set xs"
  by (induction xs) auto

lemma asc_remove: "asc idf xs \<Longrightarrow> asc idf (removeByID idf xs key)"
  using set_remove by (induction xs) fastforce+

lemma by_id_remove: "asc idf xs \<Longrightarrow> by_id idf (removeByID idf xs key) = (by_id idf xs)(key := None)"
proof (induction xs)
  case (Cons x xs)
  have "by_id idf xs (idf x) = None" using Cons.prems by (auto simp: by_id_def map_of_eq_None_iff)
  then show ?case using Cons by (auto simp: by_id_def fun_eq_iff)
qed (simp add: by_id_def fun_eq_iff)


subsection \<open>The specification: maps\<close>

record view_maps =
  vm_sessions :: "string \<Rightarrow> tui_session option"
  vm_messages :: "string \<Rightarrow> string \<Rightarrow> tui_message option"
  vm_parts :: "string \<Rightarrow> string \<Rightarrow> tui_part option"
  vm_permissions :: "string \<Rightarrow> tui_permission option"
  vm_questions :: "string \<Rightarrow> tui_question option"

definition view_of :: "tui_store \<Rightarrow> view_maps" where
  "view_of s =
     \<lparr>vm_sessions = by_id ss_id (st_sessions s), vm_messages = (\<lambda>k. by_id tm_id (gm_list (st_messages s) k)),
      vm_parts = (\<lambda>k. by_id tq_id (gm_list (st_parts s) k)), vm_permissions = by_id tr_id (st_permissions s),
      vm_questions = by_id tu_id (st_questions s)\<rparr>"

definition empty_view :: view_maps where
  "empty_view =
     \<lparr>vm_sessions = Map.empty, vm_messages = (\<lambda>k. Map.empty), vm_parts = (\<lambda>k. Map.empty), vm_permissions = Map.empty,
      vm_questions = Map.empty\<rparr>"

fun view_event :: "tui_event \<Rightarrow> view_maps \<Rightarrow> view_maps" where
  "view_event (SessionUpdated i) v =
     (if ss_id i \<noteq> [] then v\<lparr>vm_sessions := (vm_sessions v)(ss_id i \<mapsto> i)\<rparr> else v)"
| "view_event (SessionDeleted k) v = v\<lparr>vm_sessions := (vm_sessions v)(k := None)\<rparr>"
| "view_event (MessageUpdated m) v =
     (if tm_id m \<noteq> []
      then v\<lparr>vm_messages := (vm_messages v)(tm_session m := (vm_messages v (tm_session m))(tm_id m \<mapsto> m))\<rparr> else v)"
| "view_event (PartUpdated p) v =
     (if tq_id p \<noteq> []
      then v\<lparr>vm_parts := (vm_parts v)(tq_message p := (vm_parts v (tq_message p))(tq_id p \<mapsto> p))\<rparr> else v)"
| "view_event (PartDelta mid pid field delta) v =
     (if field = ''text''
      then v\<lparr>vm_parts := (vm_parts v)(mid :=
             (vm_parts v mid)(pid := map_option (\<lambda>p. p\<lparr>tq_text := tq_text p @ delta\<rparr>) (vm_parts v mid pid)))\<rparr>
      else v)"
| "view_event (MessageRemoved sid mid) v =
     v\<lparr>vm_messages := (vm_messages v)(sid := (vm_messages v sid)(mid := None)), vm_parts := (vm_parts v)(mid := Map.empty)\<rparr>"
| "view_event (PartRemoved mid pid) v = v\<lparr>vm_parts := (vm_parts v)(mid := (vm_parts v mid)(pid := None))\<rparr>"
| "view_event (PermissionAsked p) v =
     (if tr_id p \<noteq> [] then v\<lparr>vm_permissions := (vm_permissions v)(tr_id p \<mapsto> p)\<rparr> else v)"
| "view_event (PermissionReplied k) v = v\<lparr>vm_permissions := (vm_permissions v)(k := None)\<rparr>"
| "view_event (QuestionAsked q) v =
     (if tu_id q \<noteq> [] then v\<lparr>vm_questions := (vm_questions v)(tu_id q \<mapsto> q)\<rparr> else v)"
| "view_event (QuestionReplied k) v = v\<lparr>vm_questions := (vm_questions v)(k := None)\<rparr>"
| "view_event (QuestionRejected k) v = v\<lparr>vm_questions := (vm_questions v)(k := None)\<rparr>"
| "view_event OtherEvent v = v"

definition store_sorted :: "tui_store \<Rightarrow> bool" where
  "store_sorted s =
     (asc ss_id (st_sessions s) \<and> asc tr_id (st_permissions s) \<and> asc tu_id (st_questions s) \<and>
      (\<forall>k. asc tm_id (gm_list (st_messages s) k)) \<and> (\<forall>k. asc tq_id (gm_list (st_parts s) k)))"

lemma gm_list_put [simp]: "gm_list (gm_put k xs m) = (gm_list m)(k := xs)"
  by (simp add: gm_list_def fun_eq_iff)

lemma gm_list_del [simp]: "gm_list (gm_del k m) = (gm_list m)(k := [])"
  by (simp add: gm_list_def fun_eq_iff)

lemma ids_delta [simp]: "map tq_id (add_delta pid d ps) = map tq_id ps"
  by (induction ps) auto

lemma asc_delta: "asc tq_id (add_delta pid d ps) = asc tq_id ps"
  by (simp add: asc_def)

lemma by_id_delta:
  "asc tq_id ps \<Longrightarrow> by_id tq_id (add_delta pid d ps) =
     (by_id tq_id ps)(pid := map_option (\<lambda>p. p\<lparr>tq_text := tq_text p @ d\<rparr>) (by_id tq_id ps pid))"
proof (induction ps)
  case (Cons p ps)
  have "by_id tq_id ps (tq_id p) = None" using Cons.prems by (auto simp: by_id_def map_of_eq_None_iff)
  then show ?case using Cons by (auto simp: by_id_def fun_eq_iff)
qed (simp add: by_id_def fun_eq_iff)

lemma record_frame [simp]:
  "st_sessions (recordAnsweredQuestion aq s) = st_sessions s" "st_messages (recordAnsweredQuestion aq s) = st_messages s"
  "st_parts (recordAnsweredQuestion aq s) = st_parts s" "st_permissions (recordAnsweredQuestion aq s) = st_permissions s"
  "st_questions (recordAnsweredQuestion aq s) = st_questions s" "st_version (recordAnsweredQuestion aq s) = st_version s"
  by (simp_all add: recordAnsweredQuestion_def Let_def split: option.split)

lemma finish_frame [simp]:
  "st_sessions (finish_question k b s) = st_sessions s" "st_messages (finish_question k b s) = st_messages s"
  "st_parts (finish_question k b s) = st_parts s" "st_permissions (finish_question k b s) = st_permissions s"
  "st_questions (finish_question k b s) = removeByID tu_id (st_questions s) k" "st_version (finish_question k b s) = st_version s"
  by (simp_all add: finish_question_def Let_def split: option.split)

lemma view_step:
  assumes "store_sorted s"
  shows "store_sorted (Reduce ev s) \<and> view_of (Reduce ev s) = view_event ev (view_of s)"
proof -
  have delta: "gm_get (st_parts s) mid = Some ps \<Longrightarrow> gm_list (st_parts s) mid = ps"
    "gm_get (st_parts s) mid = None \<Longrightarrow> gm_list (st_parts s) mid = []" for mid ps
    by (simp_all add: gm_list_def)
  have nil: "(\<lambda>k. by_id tq_id (if k = m then [] else f k)) = (\<lambda>k. by_id tq_id (f k))(m := Map.empty)" for f m
    by (auto simp: by_id_def fun_eq_iff)
  show ?thesis
  proof (cases ev)
    case (PartDelta mid pid field d)
    then show ?thesis
      using assms delta [of mid]
      by (cases "gm_get (st_parts s) mid")
        (auto simp: Reduce_def apply_event_def store_sorted_def view_of_def asc_delta by_id_delta Let_def fun_eq_iff
          by_id_def [of _ "[]"])
  qed (use assms nil in \<open>auto simp: Reduce_def apply_event_def store_sorted_def view_of_def asc_upsert asc_remove
      by_id_upsert by_id_remove Let_def fun_eq_iff by_id_def [of _ "[]"]\<close>)
qed


text \<open>
  C33. The sorted slices implement maps: after any sequence of events every slice is strictly sorted by
  id, and looking up an id in it gives what the specification, which sets and clears entries of
  maps, holds, text deltas included; the version counts the events.
\<close>

theorem store_mirrors_maps:
  "store_sorted (fold Reduce evs newStore) \<and>
   view_of (fold Reduce evs newStore) = fold view_event evs empty_view \<and> st_version (fold Reduce evs newStore) = length evs"
proof -
  have start: "store_sorted newStore" "view_of newStore = empty_view"
    by (auto simp: store_sorted_def newStore_def gm_list_def view_of_def empty_view_def by_id_def)
  have "store_sorted s \<Longrightarrow> store_sorted (fold Reduce evs s) \<and> view_of (fold Reduce evs s) = fold view_event evs (view_of s)" for s
    by (induction evs arbitrary: s) (simp_all add: view_step)
  moreover have "st_version (fold Reduce evs s) = st_version s + length evs" for s
    by (induction evs arbitrary: s)
      (simp_all add: Reduce_def apply_event_def Let_def split: tui_event.split option.split)
  ultimately show ?thesis using start by (simp add: newStore_def)
qed

subsection \<open>Answered questions\<close>

lemma upgrade_ids: "upgrade_answered aq xs = Some ys \<Longrightarrow> map aq_id ys = map aq_id xs"
  by (induction xs arbitrary: ys) (auto split: if_splits)

lemma upgrade_none: "upgrade_answered aq xs = None \<longleftrightarrow> aq_id aq \<notin> set (map aq_id xs)"
  by (induction xs) auto

text \<open>A request is on a session's list of answered questions at most once, whoever records it and how often.\<close>

lemma answered_once:
  "distinct (map aq_id (gm_list (st_answered s) k)) \<Longrightarrow>
   distinct (map aq_id (gm_list (st_answered (recordAnsweredQuestion aq s)) k))"
  using upgrade_ids [of aq] upgrade_none [of aq]
  by (auto simp: recordAnsweredQuestion_def Let_def split: option.split)

text \<open>
  A rejected question can turn into an answered one: a record that carries answers replaces the
  record of the same request even when that one says it was skipped, against the comment that
  a reject never becomes a reply.
\<close>

theorem skipped_record_replaced:
  assumes "gm_list (st_answered s) (aq_session aq) = before @ old # after" "aq_id old = aq_id aq" "aq_id aq \<noteq> []"
    "aq_id aq \<notin> set (map aq_id before)" "aq_skipped old" "\<not> aq_skipped aq" "aq_answers aq \<noteq> []"
  shows "gm_list (st_answered (recordAnsweredQuestion aq s)) (aq_session aq) = before @ aq # after"
proof -
  have "upgrade_answered aq (before @ old # after) = Some (before @ aq # after)"
    using assms(2,4,6,7) by (induction before) auto
  then show ?thesis using assms(1,3) by (simp add: recordAnsweredQuestion_def)
qed

lemma skipped_record_replaced_witness:
  "gm_list (st_answered (recordAnsweredQuestion
      \<lparr>aq_id = ''q'', aq_session = ''s'', aq_skipped = False, aq_answers = [[''a'']], aq_questions = []\<rparr>
      (recordAnsweredQuestion
        \<lparr>aq_id = ''q'', aq_session = ''s'', aq_skipped = True, aq_answers = [], aq_questions = []\<rparr> newStore))) ''s'' =
    [\<lparr>aq_id = ''q'', aq_session = ''s'', aq_skipped = False, aq_answers = [[''a'']], aq_questions = []\<rparr>]"
proof -
  let ?old = "\<lparr>aq_id = ''q'', aq_session = ''s'', aq_skipped = True, aq_answers = [], aq_questions = []\<rparr>"
  let ?new = "\<lparr>aq_id = ''q'', aq_session = ''s'', aq_skipped = False, aq_answers = [[''a'']], aq_questions = []\<rparr>"
  have "gm_list (st_answered (recordAnsweredQuestion ?old newStore)) (aq_session ?new) = [] @ ?old # []"
    by (simp add: recordAnsweredQuestion_def newStore_def gm_list_def)
  from skipped_record_replaced [OF this] show ?thesis by simp
qed

end
