(* ===== verification/Panels.thy ===== *)
theory Panels
  imports TuiStore Utf8
begin

text \<open>
  The question panel of the terminal client (\<^verbatim>\<open>internal/tui/question_state.go\<close> and its key handler in
  \<^verbatim>\<open>question.go\<close>): a state machine over keys, where a key may emit a reply to the daemon.
\<close>

text \<open>A key: its name, the text it types and its code.\<close>

record key =
  k_name :: string
  k_text :: string
  k_code :: int

definition drop_last_rune :: "string \<Rightarrow> string" where
  "drop_last_rune s = string_of_runes (butlast (runes_of s))"

subsection \<open>The question panel\<close>

record question_body =
  qb_request :: string
  qb_tab :: int
  qb_answers :: "string list list"
  qb_custom :: "string list"
  qb_selected :: int
  qb_editing :: bool
  qb_replying :: bool
  qb_rejecting :: bool

definition newQuestionBodyState :: "string \<Rightarrow> question_body" where
  "newQuestionBodyState rid =
     \<lparr>qb_request = rid, qb_tab = 0, qb_answers = [], qb_custom = [], qb_selected = 0, qb_editing = False,
      qb_replying = False, qb_rejecting = False\<rparr>"

definition questionSync :: "question_body \<Rightarrow> string \<Rightarrow> question_body" where
  "questionSync s rid = (if qb_request s = rid then s else newQuestionBodyState rid)"

definition questionSingle :: "tui_question \<Rightarrow> bool" where
  "questionSingle q = (length (tu_questions q) = 1 \<and> \<not> qi_multiple (hd (tu_questions q)))"

definition questionTabs :: "tui_question \<Rightarrow> int" where
  "questionTabs q = (if questionSingle q then 1 else int (length (tu_questions q)) + 1)"

definition questionConfirm :: "tui_question \<Rightarrow> question_body \<Rightarrow> bool" where
  "questionConfirm q s = (\<not> questionSingle q \<and> qb_tab s = int (length (tu_questions q)))"

definition questionInfo :: "tui_question \<Rightarrow> question_body \<Rightarrow> question_info option" where
  "questionInfo q s =
     (if qb_tab s < 0 \<or> qb_tab s \<ge> int (length (tu_questions q)) then None
      else Some (tu_questions q ! nat (qb_tab s)))"

definition questionCustom :: "tui_question \<Rightarrow> question_body \<Rightarrow> bool" where
  "questionCustom q s = (case questionInfo q s of None \<Rightarrow> True | Some i \<Rightarrow> qi_custom i)"

definition questionInput :: "question_body \<Rightarrow> string" where
  "questionInput s =
     (if qb_tab s < 0 \<or> qb_tab s \<ge> int (length (qb_custom s)) then [] else qb_custom s ! nat (qb_tab s))"

text \<open>The answers of a tab: none beyond the slice.\<close>

definition tab_answers :: "question_body \<Rightarrow> string list" where
  "tab_answers s = (if qb_tab s < int (length (qb_answers s)) then qb_answers s ! nat (qb_tab s) else [])"

definition questionPicked :: "question_body \<Rightarrow> bool" where
  "questionPicked s =
     (let v = questionInput s in v \<noteq> [] \<and> 0 \<le> qb_tab s \<and> v \<in> set (tab_answers s))"

definition questionOther :: "tui_question \<Rightarrow> question_body \<Rightarrow> bool" where
  "questionOther q s =
     (case questionInfo q s of
        None \<Rightarrow> False
      | Some i \<Rightarrow> qi_custom i \<and> qb_selected s = int (length (qi_options i)))"

definition questionTotal :: "tui_question \<Rightarrow> question_body \<Rightarrow> int" where
  "questionTotal q s =
     (case questionInfo q s of
        None \<Rightarrow> 0
      | Some i \<Rightarrow> int (length (qi_options i)) + (if questionCustom q s then 1 else 0))"

definition questionSetTab :: "question_body \<Rightarrow> int \<Rightarrow> question_body" where
  "questionSetTab s tab = s\<lparr>qb_tab := tab, qb_selected := 0, qb_editing := False\<rparr>"

definition questionSetSelected :: "question_body \<Rightarrow> int \<Rightarrow> question_body" where
  "questionSetSelected s sel = s\<lparr>qb_selected := sel\<rparr>"

definition questionSetEditing :: "question_body \<Rightarrow> bool \<Rightarrow> question_body" where
  "questionSetEditing s e = s\<lparr>qb_editing := e\<rparr>"

definition questionSetReplying :: "question_body \<Rightarrow> bool \<Rightarrow> bool \<Rightarrow> question_body" where
  "questionSetReplying s replying rejecting = s\<lparr>qb_replying := replying, qb_rejecting := rejecting\<rparr>"

definition put_at :: "'a \<Rightarrow> nat \<Rightarrow> 'a \<Rightarrow> 'a list \<Rightarrow> 'a list" where
  \<comment> \<open>write at an index, growing the slice with \<open>d\<close> up to it\<close>
  "put_at d i x xs = (xs @ replicate (Suc i - length xs) d)[i := x]"

definition questionStoreCustom :: "question_body \<Rightarrow> int \<Rightarrow> string \<Rightarrow> question_body" where
  "questionStoreCustom s tab t = s\<lparr>qb_custom := put_at [] (nat tab) t (qb_custom s)\<rparr>"

definition questionStoreAnswers :: "question_body \<Rightarrow> int \<Rightarrow> string list \<Rightarrow> question_body" where
  "questionStoreAnswers s tab ls = s\<lparr>qb_answers := put_at [] (nat tab) ls (qb_answers s)\<rparr>"

definition questionMove :: "question_body \<Rightarrow> tui_question \<Rightarrow> int \<Rightarrow> question_body" where
  "questionMove s q dir =
     (let tot = questionTotal q s
      in if tot = 0 then s else questionSetSelected s ((qb_selected s + dir + tot) mod tot))"

definition questionToggle :: "question_body \<Rightarrow> string \<Rightarrow> question_body" where
  "questionToggle s answer =
     (let ls = tab_answers s
      in questionStoreAnswers s (qb_tab s) (if answer \<in> set ls then remove1 answer ls else ls @ [answer]))"

definition questionPick :: "question_body \<Rightarrow> tui_question \<Rightarrow> string \<Rightarrow> bool \<Rightarrow> question_body \<times> string list list option" where
  "questionPick s q answer isCustom =
     (let next = s\<lparr>qb_answers := put_at [] (nat (qb_tab s)) [answer] (qb_answers s), qb_editing := False\<rparr>;
          next = (if isCustom then next\<lparr>qb_custom := put_at [] (nat (qb_tab s)) answer (qb_custom s)\<rparr> else next)
      in if questionSingle q then (next, Some [[answer]])
         else (questionSetTab next ((qb_tab s + 1) mod questionTabs q), None))"

definition questionSelect :: "question_body \<Rightarrow> tui_question \<Rightarrow> question_body \<times> string list list option" where
  "questionSelect s q =
     (case questionInfo q s of
        None \<Rightarrow> (s, None)
      | Some i \<Rightarrow>
          if questionOther q s then
            (if \<not> qi_multiple i then (questionSetEditing s True, None)
             else if questionInput s \<noteq> [] \<and> questionPicked s then (questionToggle s (questionInput s), None)
             else (questionSetEditing s True, None))
          else if qb_selected s < 0 \<or> qb_selected s \<ge> int (length (qi_options i)) then (s, None)
          else
            (let label = qo_label (qi_options i ! nat (qb_selected s))
             in if qi_multiple i then (questionToggle s label, None) else questionPick s q label False))"

definition is_blank :: "char \<Rightarrow> bool" where
  "is_blank c = (c \<in> set [CHR '' '', CHR 0x09, CHR 0x0A, CHR 0x0D])"

definition trimSpace :: "string \<Rightarrow> string" where
  "trimSpace s = trim_right is_blank (trim_left is_blank s)"

definition questionSave :: "question_body \<Rightarrow> tui_question \<Rightarrow> question_body \<times> string list list option" where
  "questionSave s q =
     (case questionInfo q s of
        None \<Rightarrow> (s, None)
      | Some i \<Rightarrow>
          (let prev = (if qb_tab s < int (length (qb_custom s)) then qb_custom s ! nat (qb_tab s) else []);
               val = trimSpace prev
           in if val = [] then
                (if prev = [] then (questionSetEditing s False, None)
                 else
                   (let next = questionStoreCustom s (qb_tab s) [];
                        next = questionStoreAnswers next (qb_tab s) (filter (\<lambda>a. a \<noteq> prev) (tab_answers s))
                    in (questionSetEditing next False, None)))
              else if qi_multiple i then
                (let answers = (if prev \<noteq> [] then remove1 prev (tab_answers s) else tab_answers s);
                     answers = (if val \<in> set answers then answers else answers @ [val]);
                     next = questionStoreAnswers (questionStoreCustom s (qb_tab s) val) (qb_tab s) answers
                 in (questionSetEditing next False, None))
              else questionPick s q val True))"

definition questionSubmit :: "tui_question \<Rightarrow> question_body \<Rightarrow> string list list" where
  "questionSubmit q s =
     map (\<lambda>i. if i < length (qb_answers s) then qb_answers s ! i else []) [0..<length (tu_questions q)]"

subsection \<open>Keys of the question panel\<close>

datatype question_cmd = ReplyQuestion string "string list list" | RejectQuestion string

definition digitKey :: "key \<Rightarrow> int option" where
  "digitKey k =
     (case runes_of (k_text k) of
        [r] \<Rightarrow> if 49 \<le> r \<and> r \<le> 57 then Some (int r - 48) else None
      | _ \<Rightarrow> None)"

definition emit_answers ::
  "tui_question \<Rightarrow> question_body \<times> string list list option \<Rightarrow> question_body \<times> question_cmd option"
where
  "emit_answers q r =
     (case r of
        (s, None) \<Rightarrow> (s, None)
      | (s, Some answers) \<Rightarrow> (questionSetReplying s True False, Some (ReplyQuestion (tu_id q) answers)))"

definition handleQuestionEditingKey :: "key \<Rightarrow> tui_question \<Rightarrow> question_body \<Rightarrow> question_body \<times> question_cmd option" where
  "handleQuestionEditingKey k q s =
     (if k_name k = ''enter'' then emit_answers q (questionSave s q)
      else if k_name k = ''esc'' then (questionSetEditing s False, None)
      else if k_name k = ''backspace'' \<or> k_name k = ''backspace2'' then
        (if questionInput s \<noteq> [] then (questionStoreCustom s (qb_tab s) (drop_last_rune (questionInput s)), None)
         else (s, None))
      else if k_text k \<noteq> [] \<and> k_code k \<ge> 32 then (questionStoreCustom s (qb_tab s) (questionInput s @ k_text k), None)
      else (s, None))"

definition questionChoose :: "tui_question \<Rightarrow> int \<Rightarrow> question_body \<Rightarrow> question_body \<times> question_cmd option" where
  "questionChoose q sel s = emit_answers q (questionSelect (questionSetSelected s sel) q)"

definition list_key :: "key \<Rightarrow> tui_question \<Rightarrow> question_body \<Rightarrow> question_body \<times> question_cmd option" where
  "list_key k q s =
     (if k_name k = ''up'' \<or> k_name k = ''k'' then (questionMove s q (-1), None)
      else if k_name k = ''down'' \<or> k_name k = ''j'' then (questionMove s q 1, None)
      else if k_name k = ''enter'' then emit_answers q (questionSelect s q)
      else if k_name k = ''esc'' then (questionSetReplying s True True, Some (RejectQuestion (tu_id q)))
      else (s, None))"

definition handleQuestionKey :: "key \<Rightarrow> tui_question \<Rightarrow> question_body \<Rightarrow> question_body \<times> question_cmd option" where
  "handleQuestionKey k q s0 =
     (if qb_replying s0 then (s0, None)
      else
        (let s = questionSync s0 (tu_id q); tabs = questionTabs q
         in if qb_editing s then handleQuestionEditingKey k q s
            else if \<not> questionSingle q \<and> k_name k \<in> set [''tab'', ''right'', ''l'']
            then (questionSetTab s ((qb_tab s + 1) mod tabs), None)
            else if \<not> questionSingle q \<and> k_name k \<in> set [''shift+tab'', ''left'', ''h'']
            then (questionSetTab s ((qb_tab s - 1 + tabs) mod tabs), None)
            else if questionConfirm q s then
              (if k_name k = ''enter''
               then (questionSetReplying s True False, Some (ReplyQuestion (tu_id q) (questionSubmit q s)))
               else if k_name k = ''esc'' then (questionSetReplying s True True, Some (RejectQuestion (tu_id q)))
               else (s, None))
            else
              (case digitKey k of
                 Some d \<Rightarrow>
                   if 1 \<le> d \<and> d \<le> min (questionTotal q s) 9 then questionChoose q (d - 1) s else list_key k q s
               | None \<Rightarrow> list_key k q s)))"


subsection \<open>The panel stays in range\<close>

definition answers_ok :: "tui_question \<Rightarrow> string list list \<Rightarrow> bool" where
  "answers_ok q as =
     (\<forall>i < length as. i < length (tu_questions q) \<and> \<not> qi_multiple (tu_questions q ! i) \<longrightarrow> length (as ! i) \<le> 1)"

definition panel_ok :: "tui_question \<Rightarrow> question_body \<Rightarrow> bool" where
  "panel_ok q s =
     (qb_request s = tu_id q \<and> 0 \<le> qb_tab s \<and> qb_tab s < questionTabs q \<and> 0 \<le> qb_selected s \<and>
      answers_ok q (qb_answers s))"

lemma put_at_nth:
  "j < length (put_at d i x xs) \<Longrightarrow> put_at d i x xs ! j = (if j = i then x else if j < length xs then xs ! j else d)"
  by (auto simp: put_at_def nth_append nth_list_update)

lemma answers_put:
  "answers_ok q as \<Longrightarrow> (i < length (tu_questions q) \<Longrightarrow> \<not> qi_multiple (tu_questions q ! i) \<Longrightarrow> length x \<le> 1) \<Longrightarrow>
   answers_ok q (put_at [] i x as)"
  by (auto simp: answers_ok_def put_at_nth)

lemma info_Some:
  "questionInfo q s = Some i \<longleftrightarrow> 0 \<le> qb_tab s \<and> qb_tab s < int (length (tu_questions q)) \<and> i = tu_questions q ! nat (qb_tab s)"
  by (auto simp: questionInfo_def)

lemma tabs_pos: "0 < questionTabs q"
  by (simp add: questionTabs_def)

lemma tab_answers_short:
  assumes "panel_ok q s" "questionInfo q s = Some i" "\<not> qi_multiple i"
  shows "length (tab_answers s) \<le> 1"
  using assms by (auto simp: panel_ok_def answers_ok_def info_Some tab_answers_def)

lemma panel_setters:
  "panel_ok q s \<Longrightarrow> panel_ok q (questionSetEditing s e)" "panel_ok q s \<Longrightarrow> panel_ok q (questionSetReplying s a b)"
  "panel_ok q s \<Longrightarrow> panel_ok q (questionStoreCustom s t x)"
  "panel_ok q s \<Longrightarrow> 0 \<le> sel \<Longrightarrow> panel_ok q (questionSetSelected s sel)"
  "panel_ok q s \<Longrightarrow> panel_ok q (questionSetTab s (t mod questionTabs q))"
  using tabs_pos [of q]
  by (simp_all add: panel_ok_def questionSetEditing_def questionSetReplying_def questionStoreCustom_def
      questionSetSelected_def questionSetTab_def)

lemma panel_answers:
  assumes "panel_ok q s" "questionInfo q s = Some i" "\<not> qi_multiple i \<Longrightarrow> length ls \<le> 1"
  shows "panel_ok q (questionStoreAnswers s (qb_tab s) ls)"
  using assms by (auto simp: panel_ok_def questionStoreAnswers_def info_Some intro: answers_put)

lemma info_setters [simp]:
  "questionInfo q (questionStoreCustom s t x) = questionInfo q s" "qb_tab (questionStoreCustom s t x) = qb_tab s"
  "questionInfo q (questionSetEditing s e) = questionInfo q s"
  by (simp_all add: questionInfo_def questionStoreCustom_def questionSetEditing_def)

lemma panel_move: "panel_ok q s \<Longrightarrow> panel_ok q (questionMove s q dir)"
proof -
  assume ok: "panel_ok q s"
  have "0 \<le> questionTotal q s" by (simp add: questionTotal_def split: option.split)
  then show ?thesis using ok by (auto simp: questionMove_def Let_def intro: panel_setters)
qed

lemma panel_toggle:
  "panel_ok q s \<Longrightarrow> questionInfo q s = Some i \<Longrightarrow> qi_multiple i \<Longrightarrow> panel_ok q (questionToggle s answer)"
  by (auto simp: questionToggle_def Let_def intro: panel_answers)

text \<open>What an operation that may emit returns: a good state, and answers of the right shape.\<close>

definition reply_ok :: "tui_question \<Rightarrow> string list list \<Rightarrow> bool" where
  "reply_ok q answers = (length answers = length (tu_questions q) \<and> answers_ok q answers)"

definition emits_ok :: "tui_question \<Rightarrow> question_body \<times> string list list option \<Rightarrow> bool" where
  "emits_ok q r = (panel_ok q (fst r) \<and> (\<forall>answers. snd r = Some answers \<longrightarrow> reply_ok q answers))"

lemma panel_pick:
  assumes "panel_ok q s"
  shows "emits_ok q (questionPick s q answer isCustom)"
proof -
  let ?n = "s\<lparr>qb_answers := put_at [] (nat (qb_tab s)) [answer] (qb_answers s), qb_editing := False\<rparr>"
  have n: "panel_ok q ?n" "panel_ok q (?n\<lparr>qb_custom := c\<rparr>)" for c
    using assms by (auto simp: panel_ok_def intro: answers_put)
  have "questionSingle q \<Longrightarrow> reply_ok q [[answer]]"
    by (auto simp: questionSingle_def reply_ok_def answers_ok_def)
  then show ?thesis using n by (auto simp: questionPick_def emits_ok_def Let_def intro: panel_setters)
qed

lemma panel_select: "panel_ok q s \<Longrightarrow> emits_ok q (questionSelect s q)"
  using panel_pick panel_toggle
  by (auto simp: questionSelect_def Let_def emits_ok_def intro: panel_setters split: option.split)

lemma panel_save:
  assumes "panel_ok q s"
  shows "emits_ok q (questionSave s q)"
proof (cases "questionInfo q s")
  case None
  then show ?thesis using assms by (simp add: questionSave_def emits_ok_def)
next
  case (Some i)
  let ?c = "\<lambda>x. questionStoreCustom s (qb_tab s) x"
  have stored: "panel_ok q (questionStoreAnswers (?c x) (qb_tab s) ls)" if "\<not> qi_multiple i \<Longrightarrow> length ls \<le> 1" for x ls
    using panel_answers [of q "?c x" i ls] panel_setters(3) [OF assms] Some that by simp
  have "length (filter P (tab_answers s)) \<le> 1" if "\<not> qi_multiple i" for P
    using tab_answers_short [OF assms Some that] length_filter_le [of P "tab_answers s"] by linarith
  then show ?thesis
    using stored panel_pick [OF assms] assms Some
    by (auto simp: questionSave_def Let_def emits_ok_def intro!: panel_setters(1))
qed

definition cmd_ok :: "tui_question \<Rightarrow> question_cmd \<Rightarrow> bool" where
  "cmd_ok q c = (case c of ReplyQuestion i answers \<Rightarrow> i = tu_id q \<and> reply_ok q answers | RejectQuestion i \<Rightarrow> i = tu_id q)"

definition key_ok :: "tui_question \<Rightarrow> question_body \<times> question_cmd option \<Rightarrow> bool" where
  "key_ok q r =
     (panel_ok q (fst r) \<and> (\<forall>c. snd r = Some c \<longrightarrow> cmd_ok q c \<and> qb_replying (fst r)))"

lemma emit_key_ok: "emits_ok q r \<Longrightarrow> key_ok q (emit_answers q r)"
  by (auto simp: emits_ok_def emit_answers_def key_ok_def cmd_ok_def questionSetReplying_def panel_ok_def
      split: prod.split option.split)

lemma submit_ok: "panel_ok q s \<Longrightarrow> reply_ok q (questionSubmit q s)"
  by (auto simp: reply_ok_def questionSubmit_def answers_ok_def panel_ok_def)

lemma reject_ok: "panel_ok q s \<Longrightarrow> key_ok q (questionSetReplying s True True, Some (RejectQuestion (tu_id q)))"
  by (simp add: key_ok_def panel_setters cmd_ok_def questionSetReplying_def panel_ok_def)

lemma silent_ok: "panel_ok q s \<Longrightarrow> key_ok q (s, None)"
  by (simp add: key_ok_def)

lemma key_ok_if: "(c \<Longrightarrow> key_ok q a) \<Longrightarrow> key_ok q b \<Longrightarrow> key_ok q (if c then a else b)"
  by simp

lemma list_key_ok: "panel_ok q s \<Longrightarrow> key_ok q (list_key k q s)"
  using reject_ok by (auto simp: list_key_def intro: silent_ok panel_move emit_key_ok panel_select)

lemma key_keeps_panel:
  assumes "panel_ok q s"
  shows "key_ok q (handleQuestionKey k q s)"
proof -
  have sync: "questionSync s (tu_id q) = s" using assms by (simp add: panel_ok_def questionSync_def)
  have "key_ok q (handleQuestionEditingKey k q s)"
    using assms by (auto simp: handleQuestionEditingKey_def intro: silent_ok emit_key_ok panel_save panel_setters)
  moreover have "key_ok q (questionSetReplying s True False, Some (ReplyQuestion (tu_id q) (questionSubmit q s)))"
    using assms submit_ok [OF assms]
    by (simp add: key_ok_def panel_setters cmd_ok_def questionSetReplying_def panel_ok_def)
  moreover have "key_ok q (questionChoose q (d - 1) s)" if "1 \<le> d" for d
    using that assms by (auto simp: questionChoose_def intro!: emit_key_ok panel_select panel_setters)
  ultimately show ?thesis
    unfolding handleQuestionKey_def sync Let_def
    by (cases "digitKey k")
      (use assms reject_ok [OF assms] list_key_ok [OF assms] in \<open>simp_all add: key_ok_if silent_ok panel_setters(5)\<close>)
qed


text \<open>A run of the panel over keys, with the commands it emits.\<close>

fun panel_keys :: "key list \<Rightarrow> tui_question \<Rightarrow> question_body \<Rightarrow> question_body \<times> question_cmd list" where
  "panel_keys [] q s = (s, [])"
| "panel_keys (k # ks) q s =
     (case handleQuestionKey k q s of (s1, c) \<Rightarrow>
        (case panel_keys ks q s1 of (s2, cs) \<Rightarrow> (s2, (case c of None \<Rightarrow> cs | Some c \<Rightarrow> c # cs))))"

lemma replying_silent: "qb_replying s \<Longrightarrow> panel_keys ks q s = (s, [])"
  by (induction ks) (simp_all add: handleQuestionKey_def)

lemma panel_keys_ok:
  "panel_ok q s \<Longrightarrow> panel_keys ks q s = (s', cs) \<Longrightarrow> panel_ok q s' \<and> length cs \<le> 1 \<and> list_all (cmd_ok q) cs"
proof (induction ks arbitrary: s cs)
  case (Cons k ks)
  obtain s1 c where h: "handleQuestionKey k q s = (s1, c)" by force
  have k: "panel_ok q s1" "\<And>d. c = Some d \<Longrightarrow> cmd_ok q d \<and> qb_replying s1"
    using key_keeps_panel [OF Cons.prems(1), of k] h by (auto simp: key_ok_def)
  show ?case
  proof (cases c)
    case None
    then show ?thesis using Cons.IH [OF k(1)] Cons.prems(2) h by (auto split: prod.splits)
  next
    case (Some d)
    then have "s1 = s'" "cs = [d]" using k Cons.prems(2) h by (auto simp: replying_silent)
    then show ?thesis using k Some by simp
  qed
qed simp


subsection \<open>Clearing a typed answer\<close>

definition named :: "string \<Rightarrow> key" where
  "named n = \<lparr>k_name = n, k_text = [], k_code = 0\<rparr>"

lemma drop_last_ascii: "is_ascii s \<Longrightarrow> drop_last_rune s = butlast s"
proof -
  assume a: "is_ascii s"
  have "string_of_runes (map byte_of t) = t" if "is_ascii t" for t
    using that by (induction t) (auto simp: string_of_runes_def encode_rune_def is_ascii_def)
  moreover have "is_ascii (butlast s)" using a by (auto simp: is_ascii_def list_all_iff dest: in_set_butlastD)
  ultimately show ?thesis using a by (simp add: drop_last_rune_def runes_of_ascii flip: map_butlast)
qed

lemma editing_input: "questionInput (questionSetEditing s b) = questionInput s"
  "qb_answers (questionSetEditing s b) = qb_answers s"
  by (simp_all add: questionSetEditing_def questionInput_def)

lemma input_stored: "0 \<le> qb_tab s \<Longrightarrow> questionInput (questionStoreCustom s (qb_tab s) x) = x"
  by (auto simp: questionInput_def questionStoreCustom_def put_at_def nth_list_update nth_append)

lemma backspaces:
  "is_ascii t \<Longrightarrow> questionInput s = t \<Longrightarrow> qb_editing s \<Longrightarrow> \<not> qb_replying s \<Longrightarrow> qb_request s = tu_id q \<Longrightarrow> 0 \<le> qb_tab s \<Longrightarrow>
   \<exists>s'. panel_keys (replicate (length t) (named ''backspace'') @ ks) q s = panel_keys ks q s' \<and>
     questionInput s' = [] \<and> qb_answers s' = qb_answers s \<and> qb_editing s' \<and> \<not> qb_replying s' \<and>
     qb_request s' = tu_id q \<and> qb_tab s' = qb_tab s"
proof (induction t arbitrary: s rule: rev_induct)
  case Nil
  then show ?case by (intro exI [of _ s]) simp
next
  case (snoc c t)
  let ?s = "questionStoreCustom s (qb_tab s) t"
  have "drop_last_rune (t @ [c]) = t" using drop_last_ascii [OF snoc.prems(1)] by simp
  then have "handleQuestionKey (named ''backspace'') q s = (?s, None)"
    using snoc.prems by (simp add: handleQuestionKey_def handleQuestionEditingKey_def questionSync_def named_def Let_def)
  then have step: "panel_keys (replicate (length (t @ [c])) (named ''backspace'') @ ks) q s =
      panel_keys (replicate (length t) (named ''backspace'') @ ks) q ?s"
    by (simp split: prod.split)
  have "is_ascii t" using snoc.prems(1) by (simp add: is_ascii_def)
  moreover have "questionInput ?s = t" by (rule input_stored [OF snoc.prems(6)])
  moreover have "qb_answers ?s = qb_answers s" "qb_editing ?s" "\<not> qb_replying ?s" "qb_request ?s = tu_id q" "qb_tab ?s = qb_tab s"
    using snoc.prems by (simp_all add: questionStoreCustom_def)
  ultimately show ?case using snoc.IH [of ?s] snoc.prems(6) step by auto
qed

text \<open>
  Deleting a typed answer does not withdraw it: with the whole text of a custom answer deleted,
  saving the empty text leaves the answer that was recorded for the question as it was, and the
  confirmation then sends it, against the comment that an empty save cancels the custom answer.
\<close>

theorem cleared_answer_still_sent:
  assumes "qb_editing s" "\<not> qb_replying s" "qb_request s = tu_id q" "questionInfo q s = Some i"
    "questionInput s = t" "is_ascii t"
  shows "\<exists>s'. panel_keys (replicate (length t) (named ''backspace'') @ [named ''enter'']) q s = (s', []) \<and>
    questionInput s' = [] \<and> \<not> qb_editing s' \<and> questionSubmit q s' = questionSubmit q s"
proof -
  have tab: "0 \<le> qb_tab s" using assms(4) by (simp add: info_Some)
  from backspaces [OF assms(6,5,1,2,3) tab, of "[named ''enter'']"] obtain s' where
    s': "panel_keys (replicate (length t) (named ''backspace'') @ [named ''enter'']) q s = panel_keys [named ''enter''] q s'"
      "questionInput s' = []" "qb_answers s' = qb_answers s" "qb_editing s'" "\<not> qb_replying s'" "qb_request s' = tu_id q"
      "qb_tab s' = qb_tab s" by blast
  have "questionInfo q s' = Some i" using assms(4) s'(7) by (simp only: info_Some)
  moreover have "(if qb_tab s' < int (length (qb_custom s')) then qb_custom s' ! nat (qb_tab s') else []) = []"
    using s'(2,7) tab by (auto simp: questionInput_def split: if_splits)
  ultimately have "questionSave s' q = (questionSetEditing s' False, None)"
    by (simp add: questionSave_def Let_def trimSpace_def trim_left_def trim_right_def)
  then have "handleQuestionKey (named ''enter'') q s' = (questionSetEditing s' False, None)"
    using s'(4-6) by (simp add: handleQuestionKey_def handleQuestionEditingKey_def questionSync_def named_def emit_answers_def Let_def)
  then show ?thesis
    using s' by (intro exI [of _ "questionSetEditing s' False"])
      (simp add: questionSubmit_def editing_input, simp add: questionSetEditing_def)
qed

definition demo_request :: tui_question where
  "demo_request =
     \<lparr>tu_id = ''que_1'', tu_session = ''s'',
      tu_questions = replicate 2 \<lparr>qi_question = ''Which?'', qi_header = '''', qi_options = [], qi_multiple = False, qi_custom = True\<rparr>\<rparr>"

text \<open>Type an answer and save it, go back, edit it.\<close>

definition demo_keys :: "key list" where
  "demo_keys = [named ''enter'', \<lparr>k_name = ''x'', k_text = ''x'', k_code = 120\<rparr>, named ''enter'', named ''shift+tab'', named ''enter'']"

lemma demo_editing:
  "panel_keys demo_keys demo_request (newQuestionBodyState ''que_1'') =
     (\<lparr>qb_request = ''que_1'', qb_tab = 0, qb_answers = [[''x'']], qb_custom = [''x''], qb_selected = 0, qb_editing = True,
       qb_replying = False, qb_rejecting = False\<rparr>, [])"
  by code_simp

lemma cleared_answer_still_sent_witness:
  "\<exists>s'. panel_keys [named ''backspace'', named ''enter''] demo_request
      (fst (panel_keys demo_keys demo_request (newQuestionBodyState ''que_1''))) = (s', []) \<and>
    questionInput s' = [] \<and> questionSubmit demo_request s' = [[''x''], []]"
proof -
  let ?s = "\<lparr>qb_request = ''que_1'', qb_tab = 0, qb_answers = [[''x'']], qb_custom = [''x''], qb_selected = 0, qb_editing = True,
       qb_replying = False, qb_rejecting = False\<rparr>"
  have h: "qb_editing ?s" "\<not> qb_replying ?s" "qb_request ?s = tu_id demo_request" "questionInput ?s = ''x''" "is_ascii ''x''"
    "questionInfo demo_request ?s = Some (hd (tu_questions demo_request))"
    "questionSubmit demo_request ?s = [[''x''], []]"
    by (simp_all add: demo_request_def questionInput_def is_ascii_def questionInfo_def questionSubmit_def upt_rec numeral_2_eq_2)
  show ?thesis using cleared_answer_still_sent [OF h(1,2,3,6,4,5)] h(7)
    by (auto simp: demo_editing simp del: panel_keys.simps)
qed

end
