(* ===== verification/Prompts.thy ===== *)
theory Prompts
  imports Panels
begin

text \<open>
  The prompts that block the terminal client until they are answered: the permission panel
  (\<^verbatim>\<open>internal/tui/permission_state.go\<close>, \<^verbatim>\<open>permission.go\<close>), the choice of the pending request that is shown,
  and the messages of \<^verbatim>\<open>model.go\<close> that concern them: keys, results of replies, reconciled lists and
  events of the stream. Redrawing and the status line are left out.
\<close>

subsection \<open>The permission panel\<close>

datatype permStage = permStagePermission | permStageAlways | permStageReject

datatype permOption = permOptOnce | permOptAlways | permOptReject | permOptConfirm | permOptCancel

definition permOptLabel :: "permOption \<Rightarrow> string" where
  "permOptLabel o' =
     (case o' of
        permOptOnce \<Rightarrow> ''Allow once''
      | permOptAlways \<Rightarrow> ''Allow always''
      | permOptReject \<Rightarrow> ''Reject''
      | permOptConfirm \<Rightarrow> ''Confirm''
      | permOptCancel \<Rightarrow> ''Cancel'')"

definition permStageOptions :: "permStage \<Rightarrow> permOption list" where
  "permStageOptions stage =
     (case stage of
        permStagePermission \<Rightarrow> [permOptOnce, permOptAlways, permOptReject]
      | permStageAlways \<Rightarrow> [permOptConfirm, permOptCancel]
      | permStageReject \<Rightarrow> [])"

record perm_state =
  ps_stage :: permStage
  ps_selected :: permOption
  ps_message :: string
  ps_replying :: bool

definition newPermissionState :: perm_state where
  "newPermissionState =
     \<lparr>ps_stage = permStagePermission, ps_selected = permOptOnce, ps_message = [], ps_replying = False\<rparr>"

fun option_index :: "permOption \<Rightarrow> permOption list \<Rightarrow> nat option" where
  "option_index x [] = None"
| "option_index x (y # ys) = (if y = x then Some 0 else map_option Suc (option_index x ys))"

definition permShift :: "perm_state \<Rightarrow> int \<Rightarrow> perm_state" where
  "permShift s dir =
     (let opts = permStageOptions (ps_stage s); n = int (length opts);
          idx = (case option_index (ps_selected s) opts of None \<Rightarrow> 0 | Some i \<Rightarrow> int i)
      in if opts = [] then s else s\<lparr>ps_selected := opts ! nat ((idx + dir + n) mod n)\<rparr>)"

definition permRun :: "perm_state \<Rightarrow> permOption \<Rightarrow> perm_state \<times> string" where
  "permRun s opt =
     (if ps_replying s then (s, [])
      else
        (case (ps_stage s, opt) of
           (permStagePermission, permOptAlways) \<Rightarrow>
             (\<lparr>ps_stage = permStageAlways, ps_selected = permOptConfirm, ps_message = ps_message s, ps_replying = False\<rparr>, [])
         | (permStagePermission, permOptReject) \<Rightarrow>
             (\<lparr>ps_stage = permStageReject, ps_selected = permOptReject, ps_message = ps_message s, ps_replying = False\<rparr>, [])
         | (permStagePermission, permOptOnce) \<Rightarrow> (s, ''once'')
         | (permStageAlways, permOptCancel) \<Rightarrow>
             (\<lparr>ps_stage = permStagePermission, ps_selected = permOptAlways, ps_message = ps_message s, ps_replying = False\<rparr>, [])
         | (permStageAlways, permOptConfirm) \<Rightarrow> (s, ''always'')
         | _ \<Rightarrow> (s, [])))"

definition permCancelReject :: "perm_state \<Rightarrow> perm_state" where
  "permCancelReject s = s\<lparr>ps_stage := permStagePermission, ps_selected := permOptReject\<rparr>"

definition permEscape :: "perm_state \<Rightarrow> perm_state" where
  "permEscape s =
     (case ps_stage s of
        permStageAlways \<Rightarrow>
          \<lparr>ps_stage = permStagePermission, ps_selected = permOptAlways, ps_message = ps_message s, ps_replying = False\<rparr>
      | permStageReject \<Rightarrow> permCancelReject s
      | permStagePermission \<Rightarrow>
          \<lparr>ps_stage = permStageReject, ps_selected = permOptReject, ps_message = ps_message s, ps_replying = False\<rparr>)"

definition permSetMessage :: "perm_state \<Rightarrow> string \<Rightarrow> perm_state" where
  "permSetMessage s msg = s\<lparr>ps_message := msg\<rparr>"

definition permSetReplying :: "perm_state \<Rightarrow> bool \<Rightarrow> perm_state" where
  "permSetReplying s r = s\<lparr>ps_replying := r\<rparr>"

definition permAlwaysLines :: "string list \<Rightarrow> string \<Rightarrow> string list" where
  "permAlwaysLines always permission =
     (if always = [''*''] then [''This will allow '' @ permission @ '' until OpenCode is restarted.'']
      else ''This will allow the following patterns until OpenCode is restarted.'' # map (\<lambda>p. ''- '' @ p) always)"

subsection \<open>The prompts of the client\<close>

text \<open>
  The part of the client's model that the prompts read and write. A stream event is decoded; a
  \<^verbatim>\<open>session.status\<close> event only triggers a reconciliation.
\<close>

datatype stream_event = StoreEvent tui_event | SessionStatus string string

record prompts =
  pm_store :: tui_store
  pm_on_session :: bool
  pm_session :: string
  pm_auto :: bool
  pm_perm :: perm_state
  pm_perm_request :: string
  pm_question :: question_body
  pm_deferred :: "tui_event option"

definition newPrompts :: "bool \<Rightarrow> prompts" where
  "newPrompts auto =
     \<lparr>pm_store = newStore, pm_on_session = False, pm_session = [], pm_auto = auto, pm_perm = newPermissionState,
      pm_perm_request = [], pm_question = newQuestionBodyState [], pm_deferred = None\<rparr>"

definition childrenOf :: "tui_store \<Rightarrow> string \<Rightarrow> tui_session list" where
  "childrenOf s sid = (if sid = [] then [] else filter (\<lambda>c. ss_parent c = sid) (st_sessions s))"

definition pendingScopeIDs :: "prompts \<Rightarrow> string list" where
  "pendingScopeIDs m =
     (if \<not> pm_on_session m \<or> pm_session m = [] then []
      else
        (case find (\<lambda>s. ss_id s = pm_session m) (st_sessions (pm_store m)) of
           None \<Rightarrow> []
         | Some s \<Rightarrow>
             if ss_parent s \<noteq> [] then []
             else pm_session m # map ss_id (childrenOf (pm_store m) (pm_session m))))"

definition pendingPermission :: "prompts \<Rightarrow> tui_permission option" where
  "pendingPermission m = find (\<lambda>p. tr_session p \<in> set (pendingScopeIDs m)) (st_permissions (pm_store m))"

definition pendingQuestion :: "prompts \<Rightarrow> tui_question option" where
  "pendingQuestion m = find (\<lambda>q. tu_session q \<in> set (pendingScopeIDs m)) (st_questions (pm_store m))"

definition questionID :: "tui_question option \<Rightarrow> string" where
  "questionID q = (case q of None \<Rightarrow> [] | Some q \<Rightarrow> tu_id q)"

datatype prompt_cmd =
    SendPermission string string "string option"
  | SendQuestion question_cmd
  | ReconcilePending

text \<open>The message is left out of the reply when it is blank.\<close>

definition replyPermissionCmd :: "string \<Rightarrow> string \<Rightarrow> string \<Rightarrow> prompt_cmd" where
  "replyPermissionCmd rid reply message =
     SendPermission rid reply (if trim_space message \<noteq> [] then Some (trim_space message) else None)"

definition permissionConfirm :: "tui_permission \<Rightarrow> permOption \<Rightarrow> prompts \<Rightarrow> prompts \<times> prompt_cmd list" where
  "permissionConfirm p opt m =
     (case permRun (pm_perm m) opt of (next, reply) \<Rightarrow>
        if reply = [] then (m\<lparr>pm_perm := next\<rparr>, [])
        else (m\<lparr>pm_perm := permSetReplying next True\<rparr>, [replyPermissionCmd (tr_id p) reply []]))"

definition handlePermissionRejectKey :: "key \<Rightarrow> tui_permission \<Rightarrow> prompts \<Rightarrow> prompts \<times> prompt_cmd list" where
  "handlePermissionRejectKey k p m =
     (let s = pm_perm m in
      if k_name k = ''enter'' then
        (m\<lparr>pm_perm := permSetReplying s True\<rparr>, [replyPermissionCmd (tr_id p) ''reject'' (ps_message s)])
      else if k_name k = ''esc'' then (m\<lparr>pm_perm := permCancelReject s\<rparr>, [])
      else if k_name k = ''backspace'' \<or> k_name k = ''backspace2'' then
        (if ps_message s \<noteq> [] then m\<lparr>pm_perm := permSetMessage s (drop_last_rune (ps_message s))\<rparr> else m, [])
      else if k_text k \<noteq> [] \<and> k_code k \<ge> 32 then (m\<lparr>pm_perm := permSetMessage s (ps_message s @ k_text k)\<rparr>, [])
      else (m, []))"

text \<open>The state of the panel is for one request; another one starts from a new state.\<close>

definition permissionSync :: "tui_permission \<Rightarrow> prompts \<Rightarrow> prompts" where
  "permissionSync p m =
     (if tr_id p \<noteq> pm_perm_request m then m\<lparr>pm_perm := newPermissionState, pm_perm_request := tr_id p\<rparr> else m)"

definition handlePermissionKey :: "key \<Rightarrow> prompts \<Rightarrow> prompts \<times> prompt_cmd list" where
  "handlePermissionKey k m0 =
     (case pendingPermission m0 of
        None \<Rightarrow> (m0, [])
      | Some p \<Rightarrow>
          if ps_replying (pm_perm m0) then (m0, [])
          else
            (let m = permissionSync p m0; s = pm_perm m
             in if ps_stage s = permStageReject then handlePermissionRejectKey k p m
                else if k_name k = ''tab'' then (m\<lparr>pm_perm := permShift s 1\<rparr>, [])
                else if k_name k = ''shift+tab'' then (m\<lparr>pm_perm := permShift s (-1)\<rparr>, [])
                else if k_name k \<in> set [''left'', ''h''] then (m\<lparr>pm_perm := permShift s (-1)\<rparr>, [])
                else if k_name k \<in> set [''right'', ''l''] then (m\<lparr>pm_perm := permShift s 1\<rparr>, [])
                else if k_name k = ''enter'' then permissionConfirm p (ps_selected s) m
                else if k_name k = ''esc'' then (m\<lparr>pm_perm := permEscape s\<rparr>, [])
                else (m, [])))"

text \<open>
  Keys: a pending permission takes every key, then a pending question. Keys for the rest of the client
  do nothing here.
\<close>

definition prompt_key :: "key \<Rightarrow> prompts \<Rightarrow> prompts \<times> prompt_cmd list" where
  "prompt_key k m =
     (if pendingPermission m \<noteq> None then handlePermissionKey k m
      else
        (case pendingQuestion m of
           None \<Rightarrow> (m, [])
         | Some q \<Rightarrow>
             (case handleQuestionKey k q (pm_question m) of (s, c) \<Rightarrow>
                (m\<lparr>pm_question := s\<rparr>, (case c of None \<Rightarrow> [] | Some c \<Rightarrow> [SendQuestion c])))))"

definition bump :: "tui_store \<Rightarrow> tui_store" where
  "bump s = s\<lparr>st_version := Suc (st_version s)\<rparr>"

definition isHTTPNotFound :: "string option \<Rightarrow> bool" where
  "isHTTPNotFound err = (case err of None \<Rightarrow> False | Some e \<Rightarrow> str_contains e ''status 404'')"

definition permissionReplied :: "string \<Rightarrow> string option \<Rightarrow> prompts \<Rightarrow> prompts" where
  "permissionReplied rid err m0 =
     (let m = m0\<lparr>pm_perm := permSetReplying (pm_perm m0) False\<rparr> in
      if err \<noteq> None \<and> \<not> isHTTPNotFound err then m
      else m\<lparr>pm_perm := newPermissionState, pm_perm_request := [],
             pm_store := bump ((pm_store m)\<lparr>st_permissions := removeByID tr_id (st_permissions (pm_store m)) rid\<rparr>)\<rparr>)"

definition resetQuestion :: "prompts \<Rightarrow> prompts" where
  "resetQuestion m = m\<lparr>pm_question := newQuestionBodyState []\<rparr>"

definition recordLocalAnsweredQuestion :: "string \<Rightarrow> prompts \<Rightarrow> prompts" where
  "recordLocalAnsweredQuestion rid m =
     (case find (\<lambda>q. tu_id q = rid) (st_questions (pm_store m)) of
        None \<Rightarrow> m
      | Some q \<Rightarrow>
          m\<lparr>pm_store := bump (recordAnsweredQuestion
              \<lparr>aq_id = tu_id q, aq_session = tu_session q, aq_skipped = qb_rejecting (pm_question m),
               aq_answers = (if qb_rejecting (pm_question m) then [] else questionSubmit q (pm_question m)),
               aq_questions = tu_questions q\<rparr> (pm_store m))\<rparr>)"

definition apply_deferred :: "prompts \<Rightarrow> prompts" where
  "apply_deferred m =
     (case pm_deferred m of
        None \<Rightarrow> m | Some ev \<Rightarrow> m\<lparr>pm_store := Reduce ev (pm_store m), pm_deferred := None\<rparr>)"

definition drop_question :: "string \<Rightarrow> prompts \<Rightarrow> prompts" where
  "drop_question rid m =
     m\<lparr>pm_store := bump ((pm_store m)\<lparr>st_questions := removeByID tu_id (st_questions (pm_store m)) rid\<rparr>)\<rparr>"

definition questionReplied :: "string \<Rightarrow> string option \<Rightarrow> prompts \<Rightarrow> prompts" where
  "questionReplied rid err m0 =
     (let m = m0\<lparr>pm_question := questionSetReplying (pm_question m0) False (qb_rejecting (pm_question m0))\<rparr> in
      if err \<noteq> None then
        (if isHTTPNotFound err then resetQuestion (drop_question rid (apply_deferred m))
         else m\<lparr>pm_deferred := None\<rparr>)
      else resetQuestion (drop_question rid (apply_deferred (recordLocalAnsweredQuestion rid m))))"

definition permissionsReconciled :: "tui_permission list option \<Rightarrow> prompts \<Rightarrow> prompts" where
  \<comment> \<open>\<open>None\<close>: the list could not be fetched\<close>
  "permissionsReconciled ps m =
     (case ps of None \<Rightarrow> m | Some ps \<Rightarrow> m\<lparr>pm_store := bump ((pm_store m)\<lparr>st_permissions := ps\<rparr>)\<rparr>)"

definition questionsReconciled :: "tui_question list option \<Rightarrow> prompts \<Rightarrow> prompts" where
  "questionsReconciled qs m =
     (case qs of
        None \<Rightarrow> m
      | Some qs \<Rightarrow>
          (let prev = questionID (pendingQuestion m);
               m1 = m\<lparr>pm_store := bump ((pm_store m)\<lparr>st_questions := qs\<rparr>)\<rparr>
           in if questionID (pendingQuestion m1) \<noteq> prev then resetQuestion m1 else m1))"

text \<open>An event that finishes the question whose reply is in flight waits for the result of the reply.\<close>

fun finishes :: "stream_event \<Rightarrow> string option" where
  "finishes (StoreEvent (QuestionReplied rid)) = Some rid"
| "finishes (StoreEvent (QuestionRejected rid)) = Some rid"
| "finishes _ = None"

definition deferred_event :: "stream_event \<Rightarrow> prompts \<Rightarrow> bool" where
  "deferred_event ev m =
     (qb_replying (pm_question m) \<and> qb_request (pm_question m) \<noteq> [] \<and> finishes ev = Some (qb_request (pm_question m)))"

fun store_event :: "stream_event \<Rightarrow> tui_event" where
  "store_event (StoreEvent ev) = ev"
| "store_event (SessionStatus sid status) = OtherEvent"

definition isSessionIdleFor :: "stream_event \<Rightarrow> string \<Rightarrow> bool" where
  "isSessionIdleFor ev sid = (case ev of SessionStatus s t \<Rightarrow> s = sid \<and> t = ''idle'' | _ \<Rightarrow> False)"

text \<open>With automatic permissions every request that is asked is answered once, by the id of its event.\<close>

definition auto_reply :: "stream_event \<Rightarrow> prompts \<Rightarrow> prompt_cmd list" where
  "auto_reply ev m =
     (case ev of
        StoreEvent (PermissionAsked p) \<Rightarrow>
          if pm_auto m \<and> tr_id p \<noteq> [] then [replyPermissionCmd (tr_id p) ''once'' []] else []
      | _ \<Rightarrow> [])"

definition stream_message :: "stream_event \<Rightarrow> prompts \<Rightarrow> prompts \<times> prompt_cmd list" where
  "stream_message ev m =
     (if deferred_event ev m then (m\<lparr>pm_deferred := Some (store_event ev)\<rparr>, [])
      else
        (let prev = questionID (pendingQuestion m);
             m1 = m\<lparr>pm_store := Reduce (store_event ev) (pm_store m)\<rparr>;
             m2 = (if questionID (pendingQuestion m1) \<noteq> prev \<and> \<not> qb_replying (pm_question m1) then resetQuestion m1 else m1)
         in (m2, (if pm_session m2 \<noteq> [] \<and> isSessionIdleFor ev (pm_session m2) then [ReconcilePending] else []) @
                 auto_reply ev m2)))"

text \<open>Navigation sets the screen and the open session; how it is chosen does not matter here.\<close>

datatype prompt_msg =
    PromptKey key
  | PermissionRepliedMsg string "string option"
  | QuestionRepliedMsg string "string option"
  | PermissionsReconciledMsg "tui_permission list option"
  | QuestionsReconciledMsg "tui_question list option"
  | StreamMsg stream_event
  | Navigate bool string

definition prompt_step :: "prompt_msg \<Rightarrow> prompts \<Rightarrow> prompts \<times> prompt_cmd list" where
  "prompt_step msg m =
     (case msg of
        PromptKey k \<Rightarrow> prompt_key k m
      | PermissionRepliedMsg rid err \<Rightarrow> (permissionReplied rid err m, [])
      | QuestionRepliedMsg rid err \<Rightarrow> (questionReplied rid err m, [])
      | PermissionsReconciledMsg ps \<Rightarrow> (permissionsReconciled ps m, [])
      | QuestionsReconciledMsg qs \<Rightarrow> (questionsReconciled qs m, [])
      | StreamMsg ev \<Rightarrow> stream_message ev m
      | Navigate on sid \<Rightarrow> (m\<lparr>pm_on_session := on, pm_session := sid\<rparr>, []))"

fun prompt_run :: "prompt_msg list \<Rightarrow> prompts \<Rightarrow> prompts \<times> prompt_cmd list" where
  "prompt_run [] m = (m, [])"
| "prompt_run (msg # msgs) m =
     (case prompt_step msg m of (m1, cs1) \<Rightarrow>
        (case prompt_run msgs m1 of (m2, cs2) \<Rightarrow> (m2, cs1 @ cs2)))"

abbreviation prompts_after :: "prompt_msg list \<Rightarrow> prompts \<Rightarrow> prompts" where
  "prompts_after msgs m \<equiv> fst (prompt_run msgs m)"

subsection \<open>Allowing always takes two confirmations\<close>

lemma run_append:
  "prompt_run (as @ bs) m =
     (prompts_after bs (prompts_after as m), snd (prompt_run as m) @ snd (prompt_run bs (prompts_after as m)))"
  by (induction as arbitrary: m) (simp_all split: prod.split)

lemma run_snoc:
  "prompts_after (ms @ [e]) m = fst (prompt_step e (prompts_after ms m))"
  "snd (prompt_run (ms @ [e]) m) = snd (prompt_run ms m) @ snd (prompt_step e (prompts_after ms m))"
  by (simp_all add: run_append split: prod.split)

text \<open>Enter on an option of a stage, while the panel shows the request.\<close>

definition chooses :: "permStage \<Rightarrow> permOption \<Rightarrow> string \<Rightarrow> prompt_msg \<Rightarrow> prompts \<Rightarrow> bool" where
  "chooses stage opt rid msg m =
     (map_option tr_id (pendingPermission m) = Some rid \<and> pm_perm_request m = rid \<and> ps_stage (pm_perm m) = stage \<and>
      ps_selected (pm_perm m) = opt \<and> (case msg of PromptKey k \<Rightarrow> k_name k = ''enter'' | _ \<Rightarrow> False))"

lemma stage_moves [simp]:
  "ps_stage (permShift s dir) = ps_stage s" "ps_stage (permCancelReject s) = permStagePermission"
  "ps_stage (permSetMessage s t) = ps_stage s" "ps_stage (permSetReplying s b) = ps_stage s"
  "ps_stage newPermissionState = permStagePermission" "ps_selected newPermissionState = permOptOnce"
  by (simp_all add: permShift_def permCancelReject_def permSetMessage_def permSetReplying_def newPermissionState_def Let_def)

lemma stage_escape [simp]: "ps_stage (permEscape s) \<noteq> permStageAlways"
  by (simp add: permEscape_def permCancelReject_def split: permStage.split)

lemma stage_run:
  "ps_stage (fst (permRun s opt)) = permStageAlways \<Longrightarrow> ps_stage s = permStageAlways \<or> ps_stage s = permStagePermission \<and> opt = permOptAlways"
  by (auto simp: permRun_def split: if_splits permStage.splits permOption.splits)

lemma run_reply:
  "snd (permRun s opt) = ''always'' \<Longrightarrow> ps_stage s = permStageAlways \<and> opt = permOptConfirm"
  by (auto simp: permRun_def split: if_splits permStage.splits permOption.splits)

lemma sync_cases:
  obtains "pm_perm_request m = tr_id p" "permissionSync p m = m"
  | "pm_perm (permissionSync p m) = newPermissionState" "pm_perm_request m \<noteq> tr_id p"
  by (cases "tr_id p = pm_perm_request m") (auto simp: permissionSync_def)

lemma key_always:
  assumes "ps_stage (pm_perm (fst (handlePermissionKey k m))) = permStageAlways"
  shows "pm_perm_request (fst (handlePermissionKey k m)) = pm_perm_request m \<and>
    (ps_stage (pm_perm m) = permStageAlways \<or> chooses permStagePermission permOptAlways (pm_perm_request m) (PromptKey k) m)"
proof (cases "pendingPermission m")
  case None
  then show ?thesis using assms by (simp add: handlePermissionKey_def)
next
  case (Some p)
  let ?s = "pm_perm (permissionSync p m)"
  show ?thesis
  proof (cases "ps_replying (pm_perm m)")
    case True
    then show ?thesis using assms Some by (simp add: handlePermissionKey_def)
  next
    case False
    have sel: "k_name k = ''enter'' \<and> ps_stage ?s = permStagePermission \<and> ps_selected ?s = permOptAlways \<or> ps_stage ?s = permStageAlways"
      using assms False Some stage_run [of ?s "ps_selected ?s"]
      by (auto simp: handlePermissionKey_def handlePermissionRejectKey_def permissionConfirm_def Let_def
          split: if_splits prod.splits)
    show ?thesis
    proof (cases rule: sync_cases [of m p])
      case 1
      then have "pm_perm_request (fst (handlePermissionKey k m)) = pm_perm_request m"
        using Some by (simp add: handlePermissionKey_def handlePermissionRejectKey_def permissionConfirm_def Let_def split: prod.split)
      then show ?thesis using 1 sel Some by (auto simp: chooses_def)
    qed (use sel in simp)
  qed
qed

lemma key_sends_always:
  assumes "SendPermission rid ''always'' msg \<in> set (snd (handlePermissionKey k m))"
  shows "chooses permStageAlways permOptConfirm rid (PromptKey k) m"
proof (cases "pendingPermission m")
  case None
  then show ?thesis using assms by (simp add: handlePermissionKey_def)
next
  case (Some p)
  let ?s = "pm_perm (permissionSync p m)"
  have "k_name k = ''enter'' \<and> ps_stage ?s = permStageAlways \<and> ps_selected ?s = permOptConfirm \<and> rid = tr_id p"
    using assms Some run_reply [of ?s "ps_selected ?s"]
    by (auto simp: handlePermissionKey_def handlePermissionRejectKey_def permissionConfirm_def replyPermissionCmd_def Let_def
        split: if_splits prod.splits)
  then show ?thesis using Some by (cases rule: sync_cases [of m p]) (simp_all add: chooses_def)
qed

lemma frames [simp]:
  "pm_perm (resetQuestion m) = pm_perm m" "pm_perm_request (resetQuestion m) = pm_perm_request m"
  "pm_perm (recordLocalAnsweredQuestion r m) = pm_perm m" "pm_perm_request (recordLocalAnsweredQuestion r m) = pm_perm_request m"
  "pm_perm (apply_deferred m) = pm_perm m" "pm_perm_request (apply_deferred m) = pm_perm_request m"
  "pm_perm (drop_question r m) = pm_perm m" "pm_perm_request (drop_question r m) = pm_perm_request m"
  "pm_perm (questionReplied r err m) = pm_perm m" "pm_perm_request (questionReplied r err m) = pm_perm_request m"
  "pm_perm (permissionsReconciled ps m) = pm_perm m" "pm_perm_request (permissionsReconciled ps m) = pm_perm_request m"
  "pm_perm (questionsReconciled qs m) = pm_perm m" "pm_perm_request (questionsReconciled qs m) = pm_perm_request m"
  "pm_perm (fst (stream_message ev m)) = pm_perm m" "pm_perm_request (fst (stream_message ev m)) = pm_perm_request m"
  by (simp_all add: resetQuestion_def recordLocalAnsweredQuestion_def apply_deferred_def drop_question_def
      questionReplied_def permissionsReconciled_def questionsReconciled_def stream_message_def Let_def split: option.split)

lemma step_always:
  assumes "ps_stage (pm_perm (fst (prompt_step e m))) = permStageAlways"
  shows "pm_perm_request (fst (prompt_step e m)) = pm_perm_request m \<and>
    (ps_stage (pm_perm m) = permStageAlways \<or> chooses permStagePermission permOptAlways (pm_perm_request m) e m)"
proof (cases e)
  case (PromptKey k)
  show ?thesis
  proof (cases "pendingPermission m = None")
    case True
    then show ?thesis using assms PromptKey
      by (auto simp: prompt_step_def prompt_key_def split: option.splits prod.splits)
  next
    case False
    then show ?thesis using assms key_always [of k m] PromptKey by (simp add: prompt_step_def prompt_key_def)
  qed
next
  case (PermissionRepliedMsg rid err)
  then show ?thesis using assms
    by (auto simp: prompt_step_def permissionReplied_def Let_def split: if_splits)
qed (use assms in \<open>simp_all add: prompt_step_def\<close>)

lemma step_sends_always:
  assumes "SendPermission rid ''always'' msg \<in> set (snd (prompt_step e m))"
  shows "chooses permStageAlways permOptConfirm rid e m"
proof (cases e)
  case (PromptKey k)
  show ?thesis
  proof (cases "pendingPermission m = None")
    case True
    then show ?thesis using assms PromptKey
      by (auto simp: prompt_step_def prompt_key_def split: option.splits prod.splits)
  next
    case False
    then show ?thesis using assms key_sends_always [of rid msg k m] PromptKey by (simp add: prompt_step_def prompt_key_def)
  qed
qed (use assms in \<open>auto simp: prompt_step_def stream_message_def auto_reply_def replyPermissionCmd_def Let_def
    split: if_splits stream_event.splits tui_event.splits\<close>)

text \<open>Whenever the confirmation stage is up, the user chose Allow always for that request before.\<close>

lemma confirmation_asked_for:
  assumes "ps_stage (pm_perm (prompts_after ms (newPrompts auto))) = permStageAlways"
  shows "\<exists>ms1 e ms2. ms = ms1 @ e # ms2 \<and>
    chooses permStagePermission permOptAlways (pm_perm_request (prompts_after ms (newPrompts auto))) e
      (prompts_after ms1 (newPrompts auto))"
  using assms
proof (induction ms rule: rev_induct)
  case Nil
  then show ?case by (simp add: newPrompts_def newPermissionState_def)
next
  case (snoc e ms)
  let ?m = "prompts_after ms (newPrompts auto)"
  note step = step_always [OF snoc.prems [unfolded run_snoc]]
  show ?case
  proof (cases "ps_stage (pm_perm ?m) = permStageAlways")
    case True
    from snoc.IH [OF True] obtain ms1 e1 ms2 where "ms = ms1 @ e1 # ms2"
      "chooses permStagePermission permOptAlways (pm_perm_request ?m) e1 (prompts_after ms1 (newPrompts auto))" by blast
    then show ?thesis using step unfolding run_snoc
      by (intro exI [of _ ms1] exI [of _ e1] exI [of _ "ms2 @ [e]"]) simp
  next
    case False
    then show ?thesis using step unfolding run_snoc by (intro exI [of _ ms] exI [of _ e] exI [of _ "[]"]) simp
  qed
qed

text \<open>
  C34. A permission is granted for good only after two choices: whenever the client sends the reply
  always for a request, the user first pressed enter on Allow always while the panel showed that request, and
  later enter on Confirm in the confirmation stage of the same request, whatever other keys, replies,
  events and navigation came between.
\<close>

theorem always_needs_confirmation:
  assumes "SendPermission rid ''always'' msg \<in> set (snd (prompt_run ms (newPrompts auto)))"
  shows "\<exists>ms1 e1 ms2 e2 ms3. ms = ms1 @ e1 # ms2 @ e2 # ms3 \<and>
    chooses permStagePermission permOptAlways rid e1 (prompts_after ms1 (newPrompts auto)) \<and>
    chooses permStageAlways permOptConfirm rid e2 (prompts_after (ms1 @ e1 # ms2) (newPrompts auto))"
  using assms
proof (induction ms rule: rev_induct)
  case (snoc e ms)
  show ?case
  proof (cases "SendPermission rid ''always'' msg \<in> set (snd (prompt_run ms (newPrompts auto)))")
    case True
    from snoc.IH [OF True] obtain ms1 e1 ms2 e2 ms3 where "ms = ms1 @ e1 # ms2 @ e2 # ms3"
      "chooses permStagePermission permOptAlways rid e1 (prompts_after ms1 (newPrompts auto))"
      "chooses permStageAlways permOptConfirm rid e2 (prompts_after (ms1 @ e1 # ms2) (newPrompts auto))" by blast
    then show ?thesis
      by (intro exI [of _ ms1] exI [of _ e1] exI [of _ ms2] exI [of _ e2] exI [of _ "ms3 @ [e]"]) simp
  next
    case False
    let ?m = "prompts_after ms (newPrompts auto)"
    have c: "chooses permStageAlways permOptConfirm rid e ?m"
      using snoc.prems False unfolding run_snoc by (simp add: step_sends_always)
    then have "ps_stage (pm_perm ?m) = permStageAlways" "pm_perm_request ?m = rid" by (simp_all add: chooses_def)
    from confirmation_asked_for [OF this(1), unfolded this(2)] obtain ms1 e1 ms2 where "ms = ms1 @ e1 # ms2"
      "chooses permStagePermission permOptAlways rid e1 (prompts_after ms1 (newPrompts auto))" by blast
    then show ?thesis using c
      by (intro exI [of _ ms1] exI [of _ e1] exI [of _ ms2] exI [of _ e] exI [of _ "[]"]) simp
  qed
qed simp

lemma always_needs_confirmation_witness:
  defines "p \<equiv> \<lparr>tr_id = ''per_1'', tr_session = ''ses_1'', tr_permission = ''bash'', tr_metadata = None, tr_tool = None,
      tr_patterns = [''ls''], tr_always = [''*'']\<rparr>"
    and "ses \<equiv> \<lparr>ss_id = ''ses_1'', ss_parent = [], ss_title = [], ss_directory = [], ss_cost = 0, ss_input = 0,
      ss_output = 0, ss_cache_read = 0, ss_cache_write = 0, ss_share = None\<rparr>"
  shows "\<exists>ms1 e1 ms2 e2 ms3.
    [StreamMsg (StoreEvent (SessionUpdated ses)), StreamMsg (StoreEvent (PermissionAsked p)), Navigate True ''ses_1'',
       PromptKey (named ''right''), PromptKey (named ''enter''), PromptKey (named ''enter'')] =
      ms1 @ e1 # ms2 @ e2 # ms3 \<and>
    chooses permStagePermission permOptAlways ''per_1'' e1 (prompts_after ms1 (newPrompts False)) \<and>
    chooses permStageAlways permOptConfirm ''per_1'' e2 (prompts_after (ms1 @ e1 # ms2) (newPrompts False))"
proof -
  have "SendPermission ''per_1'' ''always'' None \<in> set (snd (prompt_run
      [StreamMsg (StoreEvent (SessionUpdated ses)), StreamMsg (StoreEvent (PermissionAsked p)), Navigate True ''ses_1'',
       PromptKey (named ''right''), PromptKey (named ''enter''), PromptKey (named ''enter'')] (newPrompts False)))"
    unfolding p_def ses_def by code_simp
  from always_needs_confirmation [OF this] show ?thesis .
qed


subsection \<open>One reply in flight\<close>

fun is_perm_reply :: "prompt_cmd \<Rightarrow> bool" where
  "is_perm_reply (SendPermission _ _ _) = True"
| "is_perm_reply _ = False"

fun is_perm_result :: "prompt_msg \<Rightarrow> bool" where
  "is_perm_result (PermissionRepliedMsg _ _) = True"
| "is_perm_result _ = False"

fun is_perm_asked :: "prompt_msg \<Rightarrow> bool" where
  "is_perm_asked (StreamMsg (StoreEvent (PermissionAsked _))) = True"
| "is_perm_asked _ = False"

abbreviation count_of :: "('a \<Rightarrow> bool) \<Rightarrow> 'a list \<Rightarrow> nat" where
  "count_of P xs \<equiv> length (filter P xs)"

definition in_flight :: "prompts \<Rightarrow> nat" where
  "in_flight m = (if ps_replying (pm_perm m) then 1 else 0)"

lemma replying_moves [simp]:
  "ps_replying (permShift s dir) = ps_replying s" "ps_replying (permCancelReject s) = ps_replying s"
  "ps_replying (permSetMessage s t) = ps_replying s" "ps_replying (permSetReplying s b) = b"
  "\<not> ps_replying newPermissionState"
  by (simp_all add: permShift_def permCancelReject_def permSetMessage_def permSetReplying_def newPermissionState_def Let_def)

lemma key_in_flight:
  "count_of is_perm_reply (snd (handlePermissionKey k m)) + in_flight m \<le> in_flight (fst (handlePermissionKey k m))"
proof (cases "pendingPermission m")
  case (Some p)
  then show ?thesis
    by (auto simp: handlePermissionKey_def handlePermissionRejectKey_def permissionConfirm_def in_flight_def
        replyPermissionCmd_def Let_def split: prod.split)
qed (simp add: handlePermissionKey_def)

lemma auto_moves [simp]:
  "pm_auto (resetQuestion m) = pm_auto m" "pm_auto (recordLocalAnsweredQuestion r m) = pm_auto m"
  "pm_auto (apply_deferred m) = pm_auto m" "pm_auto (drop_question r m) = pm_auto m"
  "pm_auto (permissionsReconciled ps m) = pm_auto m" "pm_auto (questionsReconciled qs m) = pm_auto m"
  "pm_auto (permissionReplied r err m) = pm_auto m" "pm_auto (fst (stream_message ev m)) = pm_auto m"
  "pm_auto (permissionSync p m) = pm_auto m" "pm_auto (fst (handlePermissionRejectKey k p m)) = pm_auto m"
  "pm_auto (fst (permissionConfirm p opt m)) = pm_auto m"
  by (simp_all add: resetQuestion_def recordLocalAnsweredQuestion_def apply_deferred_def drop_question_def
      permissionsReconciled_def questionsReconciled_def permissionReplied_def stream_message_def permissionSync_def
      handlePermissionRejectKey_def permissionConfirm_def Let_def split: option.split prod.split)

lemma auto_key [simp]: "pm_auto (fst (handlePermissionKey k m)) = pm_auto m"
  by (simp add: handlePermissionKey_def Let_def split: option.split)

lemma auto_kept [simp]: "pm_auto (fst (prompt_step e m)) = pm_auto m"
  by (cases e) (simp_all add: prompt_step_def prompt_key_def questionReplied_def Let_def split: option.split prod.split)

lemma stream_replies:
  "filter is_perm_reply (snd (stream_message ev m)) = (if deferred_event ev m then [] else filter is_perm_reply (auto_reply ev m))"
proof -
  let ?m1 = "m\<lparr>pm_store := Reduce (store_event ev) (pm_store m)\<rparr>"
  have "auto_reply ev ?m1 = auto_reply ev m" "auto_reply ev (resetQuestion ?m1) = auto_reply ev m"
    by (simp_all add: auto_reply_def split: stream_event.split tui_event.split)
  then show ?thesis by (simp add: stream_message_def Let_def)
qed

lemma step_in_flight:
  "count_of is_perm_reply (snd (prompt_step e m)) + in_flight m
     \<le> in_flight (fst (prompt_step e m)) + count_of is_perm_result [e] + (if pm_auto m then count_of is_perm_asked [e] else 0)"
proof (cases e)
  case (PromptKey k)
  then show ?thesis using key_in_flight [of k m]
    by (cases "pendingPermission m = None")
      (auto simp: prompt_step_def prompt_key_def in_flight_def split: option.split prod.split)
next
  case (PermissionRepliedMsg rid err)
  then show ?thesis by (simp add: prompt_step_def in_flight_def)
next
  case (StreamMsg ev)
  have "count_of is_perm_reply (snd (stream_message ev m)) \<le> (if pm_auto m then count_of is_perm_asked [e] else 0)"
    using StreamMsg by (auto simp: stream_replies auto_reply_def replyPermissionCmd_def split: stream_event.split tui_event.split)
  then show ?thesis using StreamMsg by (simp add: prompt_step_def in_flight_def)
qed (simp_all add: prompt_step_def in_flight_def)

text \<open>
  One permission reply at a time: in any run of the client the replies it has sent outnumber the
  results that came back by at most one, apart from the automatic replies, of which there is at
  most one for each request asked while they are on.
\<close>

theorem one_permission_reply_in_flight:
  "count_of is_perm_reply (snd (prompt_run ms (newPrompts auto)))
     \<le> 1 + count_of is_perm_result ms + (if auto then count_of is_perm_asked ms else 0)"
proof -
  have "count_of is_perm_reply (snd (prompt_run ms m)) + in_flight m
      \<le> 1 + count_of is_perm_result ms + (if pm_auto m then count_of is_perm_asked ms else 0)" for m
  proof (induction ms arbitrary: m)
    case (Cons e ms)
    then show ?case using step_in_flight [of e m] Cons.IH [of "fst (prompt_step e m)"]
      by (auto split: prod.split if_splits)
  qed (simp add: in_flight_def)
  from this [of "newPrompts auto"] show ?thesis by (simp add: newPrompts_def)
qed

lemma gm_put_same: "gm_get m k = Some v \<Longrightarrow> gm_put k v m = m"
  by (induction m) (auto split: if_splits)

subsection \<open>A reply and its own event\<close>

lemma find_removed: "asc idf xs \<Longrightarrow> find (\<lambda>x. idf x = k) (removeByID idf xs k) = None"
  by (induction xs) (auto simp: find_None_iff)

lemma remove_absent: "find (\<lambda>x. idf x = k) xs = None \<Longrightarrow> removeByID idf xs k = xs"
  by (induction xs) (auto split: if_splits)

lemma upgrade_same:
  "aq_skipped b \<or> aq_answers b = [] \<Longrightarrow> aq_id b \<in> set (map aq_id xs) \<Longrightarrow> upgrade_answered b xs = Some xs"
  by (induction xs) auto

lemma upgrade_mem: "upgrade_answered a xs = Some ys \<Longrightarrow> aq_id a \<in> set (map aq_id ys)"
  using upgrade_ids [of a xs ys] upgrade_none [of a xs] by auto

lemma record_twice:
  assumes "aq_id b = aq_id a" "aq_session b = aq_session a" "aq_skipped b \<or> aq_answers b = []"
  shows "recordAnsweredQuestion b (bump (recordAnsweredQuestion a s)) = bump (recordAnsweredQuestion a s)"
proof (cases "aq_id a = []")
  case True
  then show ?thesis by (simp add: recordAnsweredQuestion_def assms(1))
next
  case False
  let ?s = "bump (recordAnsweredQuestion a s)"
  have ids: "aq_id b \<in> set (map aq_id (gm_list (st_answered ?s) (aq_session b)))"
    using False assms(1,2) upgrade_mem [of a]
    by (auto simp: recordAnsweredQuestion_def bump_def Let_def split: option.split)
  then have "gm_get (st_answered ?s) (aq_session b) = Some (gm_list (st_answered ?s) (aq_session b))"
    by (cases "gm_get (st_answered ?s) (aq_session b)") (simp_all add: gm_list_def)
  then show ?thesis using upgrade_same [OF assms(3) ids] False assms(1)
    by (simp add: recordAnsweredQuestion_def gm_put_same)
qed

lemma record_answers:
  "\<not> aq_skipped a \<Longrightarrow> aq_answers a \<noteq> [] \<Longrightarrow> aq_id a \<noteq> [] \<Longrightarrow>
   a \<in> set (gm_list (st_answered (recordAnsweredQuestion a s)) (aq_session a))"
proof -
  assume a: "\<not> aq_skipped a" "aq_answers a \<noteq> []" "aq_id a \<noteq> []"
  have "upgrade_answered a xs = Some ys \<Longrightarrow> a \<in> set ys" for xs ys
    using a by (induction xs arbitrary: ys) (auto split: if_splits)
  then show ?thesis using a by (auto simp: recordAnsweredQuestion_def Let_def split: option.split)
qed

definition local_card :: "string \<Rightarrow> tui_question \<Rightarrow> question_body \<Rightarrow> answered_question" where
  "local_card rid q s =
     \<lparr>aq_id = rid, aq_session = tu_session q, aq_skipped = qb_rejecting s,
      aq_answers = (if qb_rejecting s then [] else questionSubmit q s), aq_questions = tu_questions q\<rparr>"

lemma found_id: "find (\<lambda>q. tu_id q = rid) qs = Some q \<Longrightarrow> tu_id q = rid"
  by (auto simp: find_Some_iff)

lemma bump_frame [simp]: "st_questions (bump s) = st_questions s" "st_answered (bump s) = st_answered s"
  "st_sessions (bump s) = st_sessions s"
  by (simp_all add: bump_def)

text \<open>What the finishing event does to a store that has no pending question of that id, or has recorded it.\<close>

lemma finish_event:
  assumes "finishes (StoreEvent ev) = Some rid"
  obtains sk where "\<And>s. Reduce ev s = bump (finish_question rid sk s)"
  using assms by (cases ev) (auto simp: Reduce_def apply_event_def bump_def Let_def)

lemma record_local:
  "recordLocalAnsweredQuestion rid m =
     (case find (\<lambda>q. tu_id q = rid) (st_questions (pm_store m)) of
        None \<Rightarrow> m
      | Some q \<Rightarrow> m\<lparr>pm_store := bump (recordAnsweredQuestion (local_card rid q (pm_question m)) (pm_store m))\<rparr>)"
proof (cases "find (\<lambda>q. tu_id q = rid) (st_questions (pm_store m))")
  case (Some q)
  then show ?thesis using found_id [OF Some] by (simp add: recordLocalAnsweredQuestion_def local_card_def)
qed (simp add: recordLocalAnsweredQuestion_def)

lemma local_questions [simp]:
  "st_questions (pm_store (recordLocalAnsweredQuestion rid m)) = st_questions (pm_store m)"
  by (simp add: record_local split: option.split)

lemma finish_after_record:
  "finish_question rid sk (pm_store (recordLocalAnsweredQuestion rid m)) =
    (pm_store (recordLocalAnsweredQuestion rid m))\<lparr>st_questions := removeByID tu_id (st_questions (pm_store m)) rid\<rparr>"
proof (cases "find (\<lambda>q. tu_id q = rid) (st_questions (pm_store m))")
  case None
  then show ?thesis by (simp add: finish_question_def record_local Let_def)
next
  case (Some q)
  let ?r = "bump (recordAnsweredQuestion (local_card rid q (pm_question m)) (pm_store m))"
  have "recordAnsweredQuestion \<lparr>aq_id = tu_id q, aq_session = tu_session q, aq_skipped = sk, aq_answers = [], aq_questions = tu_questions q\<rparr> ?r = ?r"
    by (rule record_twice) (simp_all add: local_card_def found_id [OF Some])
  then show ?thesis using Some by (simp add: finish_question_def record_local)
qed

lemma card_replying [simp]: "local_card rid q (questionSetReplying s b (qb_rejecting s)) = local_card rid q s"
  by (simp add: local_card_def questionSetReplying_def questionSubmit_def)

lemma local_replying:
  "recordLocalAnsweredQuestion rid (m\<lparr>pm_question := questionSetReplying (pm_question m) b (qb_rejecting (pm_question m))\<rparr>) =
    m\<lparr>pm_question := questionSetReplying (pm_question m) b (qb_rejecting (pm_question m)),
      pm_store := pm_store (recordLocalAnsweredQuestion rid m)\<rparr>"
  by (simp add: record_local card_replying split: option.split)

text \<open>What is left once the reply has been recorded and the question dropped.\<close>

definition settled :: "string \<Rightarrow> prompts \<Rightarrow> prompts" where
  "settled rid m =
     m\<lparr>pm_store := bump (bump ((pm_store (recordLocalAnsweredQuestion rid m))
         \<lparr>st_questions := removeByID tu_id (st_questions (pm_store m)) rid\<rparr>)),
       pm_question := newQuestionBodyState [], pm_deferred := None\<rparr>"

lemma replied_deferred:
  assumes "asc tu_id (st_questions (pm_store m))" "finishes (StoreEvent ev) = Some rid" "pm_deferred m = Some ev"
  shows "questionReplied rid None m = settled rid m"
proof -
  from finish_event [OF assms(2)] obtain sk where ev: "\<And>s. Reduce ev s = bump (finish_question rid sk s)" by blast
  have gone: "removeByID tu_id (removeByID tu_id (st_questions (pm_store m)) rid) rid = removeByID tu_id (st_questions (pm_store m)) rid"
    by (rule remove_absent [OF find_removed [OF assms(1)]])
  let ?m = "m\<lparr>pm_question := questionSetReplying (pm_question m) False (qb_rejecting (pm_question m)),
      pm_store := pm_store (recordLocalAnsweredQuestion rid m)\<rparr>"
  let ?s = "(pm_store (recordLocalAnsweredQuestion rid m))\<lparr>st_questions := removeByID tu_id (st_questions (pm_store m)) rid\<rparr>"
  have a: "apply_deferred ?m = ?m\<lparr>pm_store := bump ?s, pm_deferred := None\<rparr>"
    by (simp add: apply_deferred_def assms(3) ev finish_after_record)
  have "questionReplied rid None m = resetQuestion (drop_question rid (apply_deferred ?m))"
    by (simp add: questionReplied_def local_replying)
  also have "\<dots> = settled rid m"
    unfolding a by (simp add: drop_question_def resetQuestion_def settled_def gone bump_def)
  finally show ?thesis .
qed

lemma replied_plain:
  "pm_deferred m = None \<Longrightarrow>
   questionReplied rid None m =
     m\<lparr>pm_store := bump ((pm_store (recordLocalAnsweredQuestion rid m))\<lparr>st_questions := removeByID tu_id (st_questions (pm_store m)) rid\<rparr>),
       pm_question := newQuestionBodyState []\<rparr>"
  by (simp add: questionReplied_def local_replying apply_deferred_def drop_question_def resetQuestion_def)

lemma finish_absent: "find (\<lambda>q. tu_id q = rid) (st_questions s) = None \<Longrightarrow> finish_question rid sk s = s"
  by (simp add: finish_question_def remove_absent)

text \<open>
  The order in which the result of the client's own reply and the event that announces it arrive
  does not matter: both leave the same state, with the question gone and the panel reset, and a
  question answered here is recorded with the answers chosen here.
\<close>

theorem own_reply_order_immaterial:
  assumes "qb_replying (pm_question m)" "qb_request (pm_question m) = rid" "rid \<noteq> []" "pm_deferred m = None"
    "asc tu_id (st_questions (pm_store m))" "finishes (StoreEvent ev) = Some rid"
  shows "prompt_run [StreamMsg (StoreEvent ev), QuestionRepliedMsg rid None] m = (settled rid m, []) \<and>
    prompt_run [QuestionRepliedMsg rid None, StreamMsg (StoreEvent ev)] m = (settled rid m, []) \<and>
    (case find (\<lambda>q. tu_id q = rid) (st_questions (pm_store m)) of
       None \<Rightarrow> True
     | Some q \<Rightarrow> tu_questions q = [] \<or> qb_rejecting (pm_question m) \<or>
         local_card rid q (pm_question m) \<in> set (gm_list (st_answered (pm_store (settled rid m))) (tu_session q)))"
proof (intro conjI)
  have df: "deferred_event (StoreEvent ev) m" using assms(1-3,6) by (simp add: deferred_event_def)
  have "settled rid (m\<lparr>pm_deferred := Some ev\<rparr>) = settled rid m" by (simp add: settled_def record_local split: option.split)
  then show "prompt_run [StreamMsg (StoreEvent ev), QuestionRepliedMsg rid None] m = (settled rid m, [])"
    using replied_deferred [of "m\<lparr>pm_deferred := Some ev\<rparr>" ev rid] assms(5,6)
    by (simp add: prompt_step_def stream_message_def df)
next
  from finish_event [OF assms(6)] obtain sk where ev: "\<And>s. Reduce ev s = bump (finish_question rid sk s)" by blast
  let ?m = "questionReplied rid None m"
  have "find (\<lambda>q. tu_id q = rid) (st_questions (pm_store ?m)) = None"
    by (simp add: replied_plain [OF assms(4)] find_removed [OF assms(5)])
  then have red: "Reduce ev (pm_store ?m) = bump (pm_store ?m)" by (simp add: ev finish_absent)
  have "\<not> deferred_event (StoreEvent ev) ?m"
    by (simp add: replied_plain [OF assms(4)] deferred_event_def newQuestionBodyState_def)
  moreover have "auto_reply (StoreEvent ev) m' = []" for m' using assms(6) by (cases ev) (simp_all add: auto_reply_def)
  moreover have "resetQuestion (settled rid m) = settled rid m"
    by (simp add: settled_def resetQuestion_def)
  moreover have "?m\<lparr>pm_store := bump (pm_store ?m)\<rparr> = settled rid m"
    using assms(4) by (simp add: replied_plain settled_def)
  ultimately show "prompt_run [QuestionRepliedMsg rid None, StreamMsg (StoreEvent ev)] m = (settled rid m, [])"
    by (simp add: prompt_step_def stream_message_def red isSessionIdleFor_def Let_def)
next
  show "case find (\<lambda>q. tu_id q = rid) (st_questions (pm_store m)) of
       None \<Rightarrow> True
     | Some q \<Rightarrow> tu_questions q = [] \<or> qb_rejecting (pm_question m) \<or>
         local_card rid q (pm_question m) \<in> set (gm_list (st_answered (pm_store (settled rid m))) (tu_session q))"
  proof (cases "find (\<lambda>q. tu_id q = rid) (st_questions (pm_store m))")
    case (Some q)
    then show ?thesis
      using record_answers [of "local_card rid q (pm_question m)" "pm_store m"] assms(3)
      by (auto simp: settled_def record_local local_card_def questionSubmit_def bump_def)
  qed simp
qed

lemma own_reply_order_immaterial_witness:
  defines "q \<equiv> \<lparr>tu_id = ''que_1'', tu_session = ''ses_1'',
      tu_questions = [\<lparr>qi_question = ''Which?'', qi_header = [], qi_options = [], qi_multiple = False, qi_custom = True\<rparr>]\<rparr>"
  shows "\<exists>m. pm_question m = \<lparr>qb_request = ''que_1'', qb_tab = 0, qb_answers = [[''x'']], qb_custom = [''x''], qb_selected = 0,
        qb_editing = False, qb_replying = True, qb_rejecting = False\<rparr> \<and> st_questions (pm_store m) = [q] \<and>
     prompt_run [StreamMsg (StoreEvent (QuestionReplied ''que_1'')), QuestionRepliedMsg ''que_1'' None] m =
       prompt_run [QuestionRepliedMsg ''que_1'' None, StreamMsg (StoreEvent (QuestionReplied ''que_1''))] m \<and>
     local_card ''que_1'' q (pm_question m) \<in> set (gm_list (st_answered (pm_store (settled ''que_1'' m))) ''ses_1'')"
proof -
  let ?m = "(newPrompts False)\<lparr>pm_store := newStore\<lparr>st_questions := [q]\<rparr>, pm_question := \<lparr>qb_request = ''que_1'', qb_tab = 0,
      qb_answers = [[''x'']], qb_custom = [''x''], qb_selected = 0, qb_editing = False, qb_replying = True, qb_rejecting = False\<rparr>\<rparr>"
  have "qb_replying (pm_question ?m)" "qb_request (pm_question ?m) = ''que_1''" "''que_1'' \<noteq> []" "pm_deferred ?m = None"
    "asc tu_id (st_questions (pm_store ?m))" "finishes (StoreEvent (QuestionReplied ''que_1'')) = Some ''que_1''"
    by (simp_all add: newPrompts_def)
  from own_reply_order_immaterial [OF this] show ?thesis
    by (intro exI [of _ ?m]) (simp add: q_def)
qed


subsection \<open>Reconciled lists are not sorted\<close>

text \<open>A fetched list that is sorted keeps the store's slices sorted.\<close>

lemma reconcile_sorted:
  "store_sorted (pm_store m) \<Longrightarrow> asc tr_id ps \<Longrightarrow> store_sorted (pm_store (permissionsReconciled (Some ps) m))"
  by (simp add: store_sorted_def permissionsReconciled_def bump_def)

text \<open>
  The reducer searches the pending permissions by bisection, but reconciling replaces them by the
  list of the daemon, which is in the order of a map iteration: after a list out of order, an
  event that asks for a permission already on it adds it a second time, and the event that it was
  answered takes only one of the two away, so the answered permission stays pending.
\<close>

theorem reconciled_permission_stays_pending:
  assumes "tr_id p < tr_id q" "tr_id p \<noteq> []"
  shows "st_permissions (pm_store (prompts_after [PermissionsReconciledMsg (Some [q, p])] m)) = [q, p] \<and>
    st_permissions (pm_store (prompts_after [PermissionsReconciledMsg (Some [q, p]), StreamMsg (StoreEvent (PermissionAsked p))] m))
      = [p, q, p] \<and>
    st_permissions (pm_store (prompts_after [PermissionsReconciledMsg (Some [q, p]), StreamMsg (StoreEvent (PermissionAsked p)),
        StreamMsg (StoreEvent (PermissionReplied (tr_id p)))] m)) = [q, p]"
proof -
  have search: "go_search (length [q, p]) (\<lambda>i. tr_id ([q, p] ! i) \<ge> tr_id p) = 0"
    using assms(1) by (simp add: go_search_def search_loop.simps less_imp_le)
  have up: "upsertByID tr_id [q, p] p = [p, q, p]"
    using assms(1) unfolding upsertByID_def search by (simp add: Let_def)
  have st: "st_permissions (pm_store (fst (stream_message (StoreEvent ev) m'))) = st_permissions (Reduce ev (pm_store m'))"
    if "finishes (StoreEvent ev) = None" for ev m'
    using that by (simp add: stream_message_def deferred_event_def resetQuestion_def Let_def)
  have cons: "prompts_after (e # es) m' = prompts_after es (fst (prompt_step e m'))" for e es m'
    by (simp split: prod.split)
  show ?thesis
    using assms by (simp add: cons prompt_step_def st permissionsReconciled_def bump_def Reduce_def apply_event_def up Let_def
        del: prompt_run.simps(2))
qed

lemma reconciled_permission_stays_pending_witness:
  defines "p \<equiv> \<lambda>i. \<lparr>tr_id = i, tr_session = ''ses_1'', tr_permission = ''bash'', tr_metadata = None, tr_tool = None,
      tr_patterns = [''ls''], tr_always = [''*'']\<rparr>"
  shows "st_permissions (pm_store (prompts_after [PermissionsReconciledMsg (Some [p ''per_2'', p ''per_1'']),
      StreamMsg (StoreEvent (PermissionAsked (p ''per_1''))), StreamMsg (StoreEvent (PermissionReplied ''per_1''))]
      (newPrompts False))) = [p ''per_2'', p ''per_1'']"
proof -
  have "tr_id (p ''per_1'') < tr_id (p ''per_2'')" "tr_id (p ''per_1'') \<noteq> []" unfolding p_def by code_simp+
  from reconciled_permission_stays_pending [OF this, of "newPrompts False"] show ?thesis by (simp add: p_def)
qed

end
