(* ===== verification/Config.thy ===== *)
theory Config
  imports Sessions
begin

text \<open>
  The daemon's configuration (\<^verbatim>\<open>internal/config/config.go\<close>, \<^verbatim>\<open>lsp.go\<close>): the files that are read and their
  order, the deep merge of their layers, the defaults, and the typed views of the server and language
  server blocks. Reading a file, standardizing JSON with comments (a third-party parser) and decoding
  the result are fields of the environment. The lemmas say which layer decides a setting and what
  every loaded configuration contains.
\<close>

subsection \<open>Merging\<close>

text \<open>
  A decoded object has distinct keys, so the order in which Go ranges over the source map does not
  show: each key is merged on its own. A slice that stays nil encodes as null.
\<close>

definition string_of :: "json \<Rightarrow> string option" where
  "string_of v = (case v of JStr s \<Rightarrow> Some s | _ \<Rightarrow> None)"

fun add_items :: "json list \<Rightarrow> string list \<times> json list \<Rightarrow> string list \<times> json list" where
  "add_items [] (seen, out) = (seen, out)"
| "add_items (it # items) (seen, out) =
     (case string_of it of
        Some s \<Rightarrow> if s \<in> set seen then add_items items (seen, out) else add_items items (s # seen, out @ [it])
      | None \<Rightarrow> add_items items (seen, out @ [it]))"

definition items_of :: "json option \<Rightarrow> json list" where
  "items_of v = (case v of Some (JArr xs) \<Rightarrow> xs | _ \<Rightarrow> [])"

definition concatInstructions :: "json option \<Rightarrow> json option \<Rightarrow> json" where
  "concatInstructions dst src =
     (case add_items (items_of src) (add_items (items_of dst) ([], [])) of
        (seen, out) \<Rightarrow> if out = [] then JNull else JArr out)"

fun mergeInto :: "jmap \<Rightarrow> jmap \<Rightarrow> jmap"
  and merge_value :: "json option \<Rightarrow> json \<Rightarrow> json" where
  "mergeInto dst [] = dst"
| "mergeInto dst ((k, sv) # src) =
     mergeInto
       (gm_put k (if k = ''instructions'' then concatInstructions (gm_get dst k) (Some sv)
                  else merge_value (gm_get dst k) sv) dst) src"
| "merge_value (Some (JObj dm)) (JObj sm) = JObj (mergeInto dm sm)"
| "merge_value _ sv = sv"

definition deprecatedKeys :: "string list" where
  "deprecatedKeys = [''theme'', ''keybinds'', ''tui'']"

subsection \<open>Loading\<close>

datatype file_read = FileText string | FileMissing | FileError string

record config_env =
  ce_getenv :: "string \<Rightarrow> string"
  ce_home :: "string option"
  ce_user :: "string option"
  ce_has_git :: "string \<Rightarrow> bool"
  ce_read :: "string \<Rightarrow> file_read"
  ce_standardize :: "string \<Rightarrow> string + string"
  ce_decode :: "string \<Rightarrow> string + json"

definition parseJSONC :: "config_env \<Rightarrow> string \<Rightarrow> string \<Rightarrow> string + jmap" where
  "parseJSONC env data source =
     (case ce_standardize env data of
        Inl err \<Rightarrow> Inl (''parse config '' @ source @ '': '' @ err)
      | Inr std \<Rightarrow>
          (case ce_decode env std of
             Inl err \<Rightarrow> Inl (''decode config '' @ source @ '': '' @ err)
           | Inr (JObj layer) \<Rightarrow> Inr (fold gm_del deprecatedKeys layer)
           | Inr JNull \<Rightarrow> Inr []
           | Inr _ \<Rightarrow> Inl (''decode config '' @ source @ '': json: cannot unmarshal into map'')))"

definition mergeFile :: "config_env \<Rightarrow> string \<Rightarrow> jmap \<Rightarrow> string + jmap" where
  "mergeFile env path result =
     (case ce_read env path of
        FileMissing \<Rightarrow> Inr result
      | FileError err \<Rightarrow> Inl (''read config '' @ path @ '': '' @ err)
      | FileText data \<Rightarrow>
          (case parseJSONC env data path of
             Inl err \<Rightarrow> Inl err
           | Inr layer \<Rightarrow> Inr (mergeInto result layer)))"

fun mergeFiles :: "config_env \<Rightarrow> string list \<Rightarrow> jmap \<Rightarrow> string + jmap" where
  "mergeFiles env [] result = Inr result"
| "mergeFiles env (p # ps) result =
     (case mergeFile env p result of Inl err \<Rightarrow> Inl err | Inr r \<Rightarrow> mergeFiles env ps r)"

definition configHome :: "config_env \<Rightarrow> string" where
  "configHome env =
     (if ce_getenv env ''XDG_CONFIG_HOME'' \<noteq> [] then path_join (ce_getenv env ''XDG_CONFIG_HOME'') ''opencode''
      else (case ce_home env of
              None \<Rightarrow> ''.config/opencode''
            | Some home \<Rightarrow> path_join home ''.config/opencode''))"

text \<open>The ancestors of a directory, given by its components from the end, up to the worktree's root.\<close>

fun config_chain :: "string \<Rightarrow> string list \<Rightarrow> string list" where
  "config_chain wt [] = [''/'']"
| "config_chain wt (c # cs) =
     (let cur = ''/'' @ str_join (rev (c # cs)) ''/''
      in cur # (if cur = wt then [] else config_chain wt cs))"

definition projectConfigFiles :: "config_env \<Rightarrow> string \<Rightarrow> string list" where
  "projectConfigFiles env dir =
     concat (map (\<lambda>d. [path_join d ''opencode.json'', path_join d ''opencode.jsonc''])
       (rev (config_chain (Root (ce_has_git env) dir) (rev (comps dir)))))"

definition systemUsername :: "config_env \<Rightarrow> string" where
  "systemUsername env = (case ce_user env of Some u \<Rightarrow> if u \<noteq> [] then u else ''user'' | None \<Rightarrow> ''user'')"

definition default_key :: "string \<Rightarrow> json \<Rightarrow> jmap \<Rightarrow> jmap" where
  "default_key k v cfg = (if gm_has cfg k then cfg else gm_put k v cfg)"

definition schemaURL :: string where
  "schemaURL = ''https://opencode.ai/config.json''"

definition postProcess :: "config_env \<Rightarrow> jmap \<Rightarrow> jmap" where
  "postProcess env cfg =
     (let cfg = default_key ''$schema'' (JStr schemaURL) cfg;
          cfg = default_key ''username'' (JStr (systemUsername env)) cfg;
          cfg = fold (\<lambda>k. default_key k (JObj [])) [''agent'', ''command'', ''mode''] cfg
      in default_key ''plugin'' (JArr []) cfg)"

text \<open>The steps of \<open>Load\<close>: the files it reads, in its order, and the text of the environment last.\<close>

definition global_files :: "config_env \<Rightarrow> string list" where
  "global_files env = map (path_join (configHome env)) [''config.json'', ''opencode.json'', ''opencode.jsonc'']"

definition config_files :: "config_env \<Rightarrow> string \<Rightarrow> string list" where
  "config_files env dir =
     global_files env
     @ (if ce_getenv env ''OPENCODE_CONFIG'' \<noteq> [] then [ce_getenv env ''OPENCODE_CONFIG''] else [])
     @ (if ce_getenv env ''OPENCODE_DISABLE_PROJECT_CONFIG'' = [] \<and> dir \<noteq> [] then projectConfigFiles env dir else [])
     @ (let d = ce_getenv env ''OPENCODE_CONFIG_DIR''
        in if d \<noteq> [] then map (path_join d) [''opencode.json'', ''opencode.jsonc''] else [])"

definition mergeContent :: "config_env \<Rightarrow> jmap \<Rightarrow> string + jmap" where
  "mergeContent env result =
     (let content = ce_getenv env ''OPENCODE_CONFIG_CONTENT''
      in if content = [] then Inr result
         else (case parseJSONC env content ''OPENCODE_CONFIG_CONTENT'' of
                 Inl err \<Rightarrow> Inl err
               | Inr layer \<Rightarrow> Inr (mergeInto result layer)))"

definition Load :: "config_env \<Rightarrow> string \<Rightarrow> string + jmap" where
  "Load env dir =
     (case mergeFiles env (config_files env dir) [] of
        Inl err \<Rightarrow> Inl err
      | Inr result \<Rightarrow>
          (case mergeContent env result of
             Inl err \<Rightarrow> Inl err
           | Inr cfg \<Rightarrow> Inr (postProcess env cfg)))"

subsection \<open>Which layer decides\<close>

text \<open>The value at a path of keys, and whether a layer has a say there: a value, or something that is not an object on the way.\<close>

fun jget :: "json \<Rightarrow> string list \<Rightarrow> json option" where
  "jget v [] = Some v"
| "jget (JObj m) (k # ks) = (case gm_get m k of None \<Rightarrow> None | Some v \<Rightarrow> jget v ks)"
| "jget _ (k # ks) = None"

fun touches :: "json \<Rightarrow> string list \<Rightarrow> bool" where
  "touches v [] = True"
| "touches (JObj m) (k # ks) = (case gm_get m k of None \<Rightarrow> False | Some v \<Rightarrow> touches v ks)"
| "touches _ (k # ks) = True"

fun json_wf :: "json \<Rightarrow> bool" where
  "json_wf (JObj m) = (gm_wf m \<and> list_all (\<lambda>(k, v). json_wf v) m)"
| "json_wf (JArr xs) = list_all json_wf xs"
| "json_wf _ = True"

definition is_object :: "json \<Rightarrow> bool" where
  "is_object v = (case v of JObj m \<Rightarrow> True | _ \<Rightarrow> False)"

lemma is_object_simps [simp]:
  "is_object (JObj m)" "\<not> is_object JNull" "\<not> is_object (JBool b)" "\<not> is_object (JNum q)"
  "\<not> is_object (JStr s)" "\<not> is_object (JArr xs)"
  by (simp_all add: is_object_def)

lemma is_object_iff: "is_object v \<longleftrightarrow> (\<exists>m. v = JObj m)"
  by (cases v) simp_all

lemma wf_member: "json_wf (JObj m) \<Longrightarrow> gm_get m k = Some v \<Longrightarrow> json_wf v"
  by (auto simp: list_all_iff dest: map_of_SomeD)

lemma touches_nonobject: "\<not> is_object v \<Longrightarrow> touches v p"
  by (cases p; cases v) simp_all

lemma untouched_absent: "\<not> touches v p \<Longrightarrow> jget v p = None"
  by (induction v p rule: touches.induct) (auto split: option.splits)

lemma jget_nonobject: "\<not> is_object v \<Longrightarrow> p \<noteq> [] \<Longrightarrow> jget v p = None"
  by (cases p; cases v) simp_all

lemma merge_value_plain: "\<not> (is_object sv \<and> (\<exists>dm. dv = Some (JObj dm))) \<Longrightarrow> merge_value dv sv = sv"
  by (cases "(dv, sv)" rule: merge_value.cases) auto

lemma mergeInto_get:
  assumes "gm_wf src"
  shows "gm_get (mergeInto dst src) k =
    (case gm_get src k of
       None \<Rightarrow> gm_get dst k
     | Some sv \<Rightarrow> Some (if k = ''instructions'' then concatInstructions (gm_get dst k) (Some sv)
                          else merge_value (gm_get dst k) sv))"
  using assms
proof (induction src arbitrary: dst)
  case (Cons p src)
  obtain j sv where p: "p = (j, sv)" by (cases p)
  have "gm_wf src" "gm_get src j = None"
    using Cons.prems by (simp_all add: p gm_wf_def map_of_eq_None_iff)
  then show ?case by (auto simp: p Cons.IH split: option.splits)
qed simp

lemma merge_value_object:
  "merge_value dv (JObj sm) = (case dv of Some (JObj dm) \<Rightarrow> JObj (mergeInto dm sm) | _ \<Rightarrow> JObj sm)"
  by (cases "(dv, JObj sm)" rule: merge_value.cases) auto

lemma merge_wins:
  assumes "json_wf (JObj src)" "''instructions'' \<notin> set p" "jget (JObj src) p = Some v" "\<not> is_object v"
  shows "jget (JObj (mergeInto dst src)) p = Some v"
  using assms
proof (induction p arbitrary: dst src)
  case (Cons k ks)
  then obtain sv where sv: "gm_get src k = Some sv" "jget sv ks = Some v" by (auto split: option.splits)
  have got: "gm_get (mergeInto dst src) k = Some (merge_value (gm_get dst k) sv)"
    using Cons.prems sv by (auto simp: mergeInto_get)
  show ?case
  proof (cases "is_object sv")
    case True
    then obtain sm where sm: "sv = JObj sm" by (auto simp: is_object_iff)
    have "json_wf (JObj sm)" using wf_member [OF Cons.prems(1) sv(1)] sm by simp
    then show ?thesis using Cons.IH [of sm] Cons.prems sv got
      by (auto simp: sm merge_value_object split: option.splits json.splits)
  qed (use got sv in \<open>simp add: merge_value_plain\<close>)
qed auto

lemma merge_keeps:
  assumes "json_wf (JObj src)" "''instructions'' \<notin> set p" "\<not> touches (JObj src) p"
  shows "jget (JObj (mergeInto dst src)) p = jget (JObj dst) p"
  using assms
proof (induction p arbitrary: dst src)
  case (Cons k ks)
  show ?case
  proof (cases "gm_get src k")
    case None
    then show ?thesis using Cons.prems by (simp add: mergeInto_get)
  next
    case (Some sv)
    then have nt: "\<not> touches sv ks" using Cons.prems by simp
    then obtain sm where sm: "sv = JObj sm" using touches_nonobject by (auto simp: is_object_iff)
    have wf: "json_wf (JObj sm)" using wf_member [OF Cons.prems(1) Some] sm by simp
    have ks: "ks \<noteq> []" using nt by auto
    have got: "gm_get (mergeInto dst src) k = Some (merge_value (gm_get dst k) sv)"
      using Cons.prems Some by (auto simp: mergeInto_get)
    show ?thesis
    proof (cases "\<exists>dm. gm_get dst k = Some (JObj dm)")
      case True
      then show ?thesis using got Cons.IH [OF wf] Cons.prems nt sm by auto
    next
      case False
      have "jget (JObj sm) ks = None" using untouched_absent nt sm by blast
      moreover have "jget dv ks = None" if "gm_get dst k = Some dv" for dv
        using False that jget_nonobject [OF _ ks] by (auto simp: is_object_iff)
      ultimately show ?thesis using False got sm by (auto simp: merge_value_plain split: option.splits)
    qed
  qed
qed simp

definition layer_of :: "config_env \<Rightarrow> string \<Rightarrow> jmap option" where
  "layer_of env p =
     (case ce_read env p of FileText data \<Rightarrow> (case parseJSONC env data p of Inr l \<Rightarrow> Some l | Inl _ \<Rightarrow> None) | _ \<Rightarrow> None)"

definition content_layer :: "config_env \<Rightarrow> jmap list" where
  "content_layer env =
     (let content = ce_getenv env ''OPENCODE_CONFIG_CONTENT''
      in if content = [] then []
         else (case parseJSONC env content ''OPENCODE_CONFIG_CONTENT'' of Inr l \<Rightarrow> [l] | Inl _ \<Rightarrow> []))"

definition config_layers :: "config_env \<Rightarrow> string \<Rightarrow> jmap list" where
  "config_layers env dir = List.map_filter (layer_of env) (config_files env dir) @ content_layer env"

definition merge_layers :: "jmap list \<Rightarrow> jmap" where
  "merge_layers ls = fold (\<lambda>l r. mergeInto r l) ls []"

lemma mergeFiles_layers:
  "mergeFiles env ps r = Inr r' \<Longrightarrow> r' = fold (\<lambda>l r. mergeInto r l) (List.map_filter (layer_of env) ps) r"
  by (induction ps arbitrary: r)
    (auto simp: mergeFile_def layer_of_def map_filter_simps split: file_read.splits sum.splits)

lemma Load_layers:
  assumes "Load env dir = Inr cfg"
  shows "cfg = postProcess env (merge_layers (config_layers env dir))"
  using assms
  by (auto simp: Load_def mergeContent_def config_layers_def merge_layers_def content_layer_def Let_def
      split: sum.splits if_splits dest!: mergeFiles_layers)

definition decodes_wf :: "config_env \<Rightarrow> bool" where
  "decodes_wf env = (\<forall>s v. ce_decode env s = Inr v \<longrightarrow> json_wf v)"

lemma gm_del_filter: "gm_del k m = filter (\<lambda>kv. fst kv \<noteq> k) m"
  by (simp add: AList.delete_eq case_prod_beta' eq_commute)

lemma wf_gm_del: "json_wf (JObj m) \<Longrightarrow> json_wf (JObj (gm_del k m))"
  by (auto simp: gm_del_filter list_all_iff gm_wf_def distinct_map_filter)

lemma wf_layer:
  assumes "decodes_wf env" "parseJSONC env data source = Inr l"
  shows "json_wf (JObj l) \<and> (\<forall>k \<in> set deprecatedKeys. gm_get l k = None)"
proof -
  consider "l = []" | layer where "json_wf (JObj layer)" "l = fold gm_del deprecatedKeys layer"
    using assms by (fastforce simp: parseJSONC_def decodes_wf_def simp del: json_wf.simps split: sum.splits json.splits)
  then show ?thesis
  proof cases
    case 2
    then show ?thesis by (simp add: deprecatedKeys_def wf_gm_del del: json_wf.simps)
  qed simp
qed

lemma map_filter_mem: "x \<in> set (List.map_filter f xs) \<longleftrightarrow> (\<exists>y \<in> set xs. f y = Some x)"
  by (force simp: map_filter_def)

lemma layer_of_Some: "layer_of env p = Some l \<Longrightarrow> \<exists>data. parseJSONC env data p = Inr l"
  by (auto simp: layer_of_def split: file_read.splits sum.splits)

lemma content_layer_parsed: "l \<in> set (content_layer env) \<Longrightarrow> \<exists>data src. parseJSONC env data src = Inr l"
  by (auto simp: content_layer_def Let_def split: sum.splits if_splits)

lemma wf_layers:
  assumes "decodes_wf env" "l \<in> set (config_layers env dir)"
  shows "json_wf (JObj l) \<and> (\<forall>k \<in> set deprecatedKeys. gm_get l k = None)"
proof -
  from assms(2) obtain data source where "parseJSONC env data source = Inr l"
    using layer_of_Some content_layer_parsed by (fastforce simp: config_layers_def map_filter_mem)
  with wf_layer [OF assms(1)] show ?thesis by blast
qed

lemma default_key_get: "gm_get (default_key k v cfg) j = (if j = k then Some (case gm_get cfg k of None \<Rightarrow> v | Some w \<Rightarrow> w) else gm_get cfg j)"
  by (simp add: default_key_def gm_has_def split: option.split)

lemma postProcess_old: "gm_get cfg k = Some v \<Longrightarrow> gm_get (postProcess env cfg) k = Some v"
  by (cases "k = ''$schema''"; cases "k = ''username''"; cases "k = ''agent''"; cases "k = ''command''";
      cases "k = ''mode''"; cases "k = ''plugin''")
    (simp_all add: postProcess_def Let_def default_key_get)

lemma postProcess_other:
  "k \<notin> set [''$schema'', ''username'', ''agent'', ''command'', ''mode'', ''plugin''] \<Longrightarrow>
   gm_get (postProcess env cfg) k = gm_get cfg k"
  by (simp add: postProcess_def Let_def default_key_get)

lemma postProcess_keeps: "jget (JObj cfg) p = Some v \<Longrightarrow> p \<noteq> [] \<Longrightarrow> jget (JObj (postProcess env cfg)) p = Some v"
  by (cases p) (auto simp: postProcess_old split: option.splits)

text \<open>
  C25. The last layer that has a say decides a setting: whatever the layers before it hold, a value that
  is not an object is what the loaded configuration has at its path, unless a later layer holds
  something there or replaces an object on the way. The layers are the files in the order of
  \<open>config_files\<close> and the text of the environment last.
\<close>

theorem last_layer_decides:
  assumes "Load env dir = Inr cfg" "decodes_wf env" "config_layers env dir = pre @ l # post"
    "jget (JObj l) p = Some v" "\<not> is_object v" "''instructions'' \<notin> set p"
    "\<forall>l' \<in> set post. \<not> touches (JObj l') p"
  shows "jget (JObj cfg) p = Some v"
proof -
  have wf: "json_wf (JObj l')" if "l' \<in> set (pre @ l # post)" for l'
    using wf_layers [OF assms(2)] that assms(3) by metis
  have p: "p \<noteq> []" using assms(4,5) by auto
  have "jget (JObj (fold (\<lambda>l r. mergeInto r l) post r)) p = jget (JObj r) p" for r
  proof -
    have "\<forall>l' \<in> set post. json_wf (JObj l') \<and> \<not> touches (JObj l') p" using assms(7) wf by auto
    then show ?thesis
    proof (induction post arbitrary: r)
      case (Cons l' post)
      then show ?case using merge_keeps [of l' p r] assms(6) by simp
    qed simp
  qed
  then have "jget (JObj (merge_layers (config_layers env dir))) p = Some v"
    using merge_wins [OF _ assms(6,4,5)] wf by (simp add: assms(3) merge_layers_def)
  then show ?thesis using Load_layers [OF assms(1)] postProcess_keeps [OF _ p] by simp
qed

subsection \<open>Instructions\<close>

definition instruction_strings :: "jmap \<Rightarrow> string list" where
  "instruction_strings l = List.map_filter string_of (items_of (gm_get l ''instructions''))"

definition plain_instructions :: "jmap \<Rightarrow> bool" where
  "plain_instructions l = list_all (\<lambda>v. string_of v \<noteq> None) (items_of (gm_get l ''instructions''))"

text \<open>The first occurrences.\<close>

definition firsts :: "'a list \<Rightarrow> 'a list" where
  "firsts xs = rev (remdups (rev xs))"

lemma firsts_snoc: "firsts (xs @ [x]) = (if x \<in> set xs then firsts xs else firsts xs @ [x])"
  by (simp add: firsts_def)

lemma firsts_set [simp]: "set (firsts xs) = set xs"
  by (simp add: firsts_def)

lemma string_of_Some: "string_of v = Some s \<longleftrightarrow> v = JStr s"
  by (cases v) (simp_all add: string_of_def)

lemma add_items_firsts:
  assumes "list_all (\<lambda>v. string_of v \<noteq> None) items" "set seen = set before"
  shows "\<exists>seen'. add_items items (seen, map JStr (firsts before)) =
      (seen', map JStr (firsts (before @ List.map_filter string_of items))) \<and>
    set seen' = set (before @ List.map_filter string_of items)"
  using assms
proof (induction items arbitrary: seen before)
  case (Cons it items)
  then obtain s where s: "it = JStr s" by (auto simp: string_of_Some)
  have step: "string_of (JStr s) = Some s" by (simp add: string_of_def)
  have rest: "list_all (\<lambda>v. string_of v \<noteq> None) items" using Cons.prems by simp
  show ?case
  proof (cases "s \<in> set seen")
    case True
    then show ?thesis using Cons.IH [OF rest, of seen "before @ [s]"] Cons.prems(2)
      by (simp add: s step firsts_snoc insert_absorb map_filter_simps)
  next
    case False
    then show ?thesis using Cons.IH [OF rest, of "s # seen" "before @ [s]"] Cons.prems(2)
      by (simp add: s step firsts_snoc map_filter_simps)
  qed
qed (simp add: map_filter_simps)

lemma string_items: "list_all (\<lambda>v. string_of v \<noteq> None) (map JStr xs)" "List.map_filter string_of (map JStr xs) = xs"
  by (induction xs) (simp_all add: map_filter_def string_of_def)

definition instruction_value :: "string list \<Rightarrow> json" where
  "instruction_value xs = (if xs = [] then JNull else JArr (map JStr xs))"

lemma items_of_value: "items_of (Some (instruction_value xs)) = map JStr xs"
  by (simp add: instruction_value_def items_of_def)

lemma firsts_firsts: "firsts (firsts xs @ ys) = firsts (xs @ ys)"
  by (induction ys rule: rev_induct) (simp_all add: firsts_snoc flip: append_assoc, simp add: firsts_def)

lemma firsts_nil [simp]: "firsts [] = []" "firsts xs = [] \<longleftrightarrow> xs = []"
  by (auto simp: firsts_def)

lemma concat_instructions:
  assumes "list_all (\<lambda>v. string_of v \<noteq> None) (items_of dv)" "list_all (\<lambda>v. string_of v \<noteq> None) (items_of sv)"
  shows "concatInstructions dv sv =
    instruction_value (firsts (List.map_filter string_of (items_of dv) @ List.map_filter string_of (items_of sv)))"
proof -
  from add_items_firsts [OF assms(1), of "[]" "[]"] obtain seen where
    s: "add_items (items_of dv) ([], []) = (seen, map JStr (firsts (List.map_filter string_of (items_of dv))))"
      "set seen = set (List.map_filter string_of (items_of dv))" by auto
  from add_items_firsts [OF assms(2) s(2)] show ?thesis
    by (auto simp: concatInstructions_def s(1) instruction_value_def)
qed

text \<open>
  Instructions add up: when every layer lists strings, the loaded configuration lists the
  instructions of all layers in their order, each at its first occurrence, and a key with nothing
  to list becomes null.
\<close>

theorem instructions_add_up:
  assumes "Load env dir = Inr cfg" "decodes_wf env" "\<forall>l \<in> set (config_layers env dir). plain_instructions l"
  shows "gm_get cfg ''instructions'' =
    (if \<exists>l \<in> set (config_layers env dir). gm_has l ''instructions''
     then Some (instruction_value (firsts (concat (map instruction_strings (config_layers env dir))))) else None)"
proof -
  have wf: "gm_wf l" if "l \<in> set (config_layers env dir)" for l
    using wf_layers [OF assms(2) that] by simp
  have "gm_get (merge_layers ls) ''instructions'' =
      (if \<exists>l \<in> set ls. gm_has l ''instructions''
       then Some (instruction_value (firsts (concat (map instruction_strings ls)))) else None)"
    if "\<forall>l \<in> set ls. plain_instructions l \<and> gm_wf l" for ls
    using that
  proof (induction ls rule: rev_induct)
    case (snoc l ls)
    let ?m = "merge_layers ls"
    have ih: "gm_get ?m ''instructions'' = (if \<exists>l \<in> set ls. gm_has l ''instructions''
       then Some (instruction_value (firsts (concat (map instruction_strings ls)))) else None)"
      using snoc by simp
    have nil: "concat (map instruction_strings ls) = []" if "\<not> (\<exists>l \<in> set ls. gm_has l ''instructions'')"
      using that by (auto simp: instruction_strings_def items_of_def gm_has_def map_filter_simps)
    have items: "items_of (gm_get ?m ''instructions'') = map JStr (firsts (concat (map instruction_strings ls)))"
      using nil by (auto simp: ih items_of_value) (simp_all add: items_of_def)
    have m: "merge_layers (ls @ [l]) = mergeInto ?m l" by (simp add: merge_layers_def)
    show ?case
    proof (cases "gm_get l ''instructions''")
      case None
      then have "instruction_strings l = []" by (simp add: instruction_strings_def items_of_def map_filter_simps)
      then show ?thesis using snoc.prems ih None by (simp add: m mergeInto_get gm_has_def)
    next
      case (Some sv)
      have "list_all (\<lambda>v. string_of v \<noteq> None) (items_of (Some sv))"
        using snoc.prems Some by (simp add: plain_instructions_def)
      moreover have "list_all (\<lambda>v. string_of v \<noteq> None) (items_of (gm_get ?m ''instructions''))"
        unfolding items by (rule string_items)
      ultimately have "concatInstructions (gm_get ?m ''instructions'') (Some sv) =
          instruction_value (firsts (firsts (concat (map instruction_strings ls)) @ instruction_strings l))"
        by (simp add: concat_instructions items string_items instruction_strings_def Some)
      then show ?thesis
        using snoc.prems Some
        by (simp add: m mergeInto_get items string_items firsts_firsts gm_has_def instruction_strings_def)
    qed
  qed (simp add: merge_layers_def)
  from this [of "config_layers env dir"] assms(3) wf show ?thesis
    unfolding Load_layers [OF assms(1)] by (simp add: postProcess_other)
qed

definition demo_env :: config_env where
  "demo_env =
     \<lparr>ce_getenv = (\<lambda>v. if v = ''OPENCODE_CONFIG'' then ''/x.json'' else ''''), ce_home = Some ''/h'', ce_user = Some ''u'',
      ce_has_git = (\<lambda>p. False),
      ce_read = (\<lambda>p. if p = ''/h/.config/opencode/opencode.json'' then FileText ''a''
                       else if p = ''/x.json'' then FileText ''b'' else FileMissing),
      ce_standardize = Inr,
      ce_decode = (\<lambda>s. if s = ''a'' then Inr (JObj [(''instructions'', JArr [JStr ''one'', JStr ''two'']),
                                                   (''server'', JObj [(''port'', JNum 1), (''mdns'', JBool True)])])
                       else if s = ''b'' then Inr (JObj [(''instructions'', JArr [JStr ''two'', JStr ''three'']),
                                                        (''server'', JObj [(''port'', JNum 2)])])
                       else Inl ''eof'')\<rparr>"

lemma demo_files: "config_files demo_env '''' =
    [''/h/.config/opencode/config.json'', ''/h/.config/opencode/opencode.json'', ''/h/.config/opencode/opencode.jsonc'', ''/x.json'']"
  by (simp add: config_files_def global_files_def configHome_def demo_env_def) code_simp

lemma demo_layers: "config_layers demo_env '''' =
    [[(''instructions'', JArr [JStr ''one'', JStr ''two'']), (''server'', JObj [(''port'', JNum 1), (''mdns'', JBool True)])],
     [(''instructions'', JArr [JStr ''two'', JStr ''three'']), (''server'', JObj [(''port'', JNum 2)])]]"
  unfolding config_layers_def demo_files
  by (simp add: map_filter_simps layer_of_def demo_env_def parseJSONC_def deprecatedKeys_def content_layer_def)

lemma demo_decodes: "decodes_wf demo_env"
  by (auto simp: decodes_wf_def demo_env_def gm_wf_def split: if_splits)

lemma demo_load: "\<exists>cfg. Load demo_env '''' = Inr cfg"
  unfolding Load_def demo_files
  by (simp add: mergeFile_def demo_env_def parseJSONC_def deprecatedKeys_def mergeContent_def)

lemma last_layer_decides_witness:
  "\<exists>cfg. Load demo_env '''' = Inr cfg \<and> jget (JObj cfg) [''server'', ''mdns''] = Some (JBool True)"
proof -
  obtain cfg where cfg: "Load demo_env '''' = Inr cfg" using demo_load by blast
  from last_layer_decides [OF cfg demo_decodes, unfolded demo_layers, of "[]" _ _ "[''server'', ''mdns'']" "JBool True"]
  show ?thesis using cfg by simp
qed

lemma instructions_add_up_witness:
  "\<exists>cfg. Load demo_env '''' = Inr cfg \<and>
     gm_get cfg ''instructions'' = Some (JArr [JStr ''one'', JStr ''two'', JStr ''three''])"
proof -
  obtain cfg where cfg: "Load demo_env '''' = Inr cfg" using demo_load by blast
  from instructions_add_up [OF cfg demo_decodes, unfolded demo_layers]
  show ?thesis using cfg
    by (simp add: plain_instructions_def items_of_def string_of_def instruction_strings_def map_filter_simps
        gm_has_def instruction_value_def firsts_def)
qed

text \<open>Every loaded configuration has the default keys and none of the deprecated ones.\<close>

lemma loaded_keys:
  assumes "Load env dir = Inr cfg" "decodes_wf env"
  shows "(\<forall>k \<in> set [''$schema'', ''username'', ''agent'', ''command'', ''mode'', ''plugin'']. gm_has cfg k) \<and>
    (\<forall>k \<in> set deprecatedKeys. \<not> gm_has cfg k)"
proof -
  let ?r = "merge_layers (config_layers env dir)"
  have "gm_get (merge_layers ls) k = None"
    if "k \<in> set deprecatedKeys" "\<forall>l \<in> set ls. gm_wf l \<and> gm_get l k = None" for k ls
    using that(2) by (induction ls rule: rev_induct) (simp_all add: merge_layers_def mergeInto_get)
  then have "\<forall>k \<in> set deprecatedKeys. gm_get ?r k = None"
    using wf_layers [OF assms(2)] by (metis json_wf.simps(1))
  then show ?thesis unfolding Load_layers [OF assms(1)]
    by (auto simp: gm_has_def postProcess_other deprecatedKeys_def)
      (simp_all add: postProcess_def Let_def default_key_get)
qed

subsection \<open>The server block\<close>

text \<open>
  The block is encoded and decoded again into a struct of pointers, errors ignored: the decoder sets a
  pointer before it looks at the value, so a value of the wrong type leaves a pointer to a zero value.
\<close>

record server_settings =
  ss_port :: "int option"
  ss_hostname :: "string option"
  ss_mdns :: "bool option"
  ss_mdnsDomain :: "string option"

definition decode_ptr :: "(json \<Rightarrow> 'a option) \<Rightarrow> 'a \<Rightarrow> json list \<Rightarrow> 'a option" where
  "decode_ptr conv zero vs =
     fold (\<lambda>v old. if v = JNull then None
                    else Some (case conv v of Some x \<Rightarrow> x | None \<Rightarrow> (case old of Some x \<Rightarrow> x | None \<Rightarrow> zero))) vs None"

definition Server :: "jmap \<Rightarrow> server_settings" where
  "Server cfg =
     (let m = (case gm_get cfg ''server'' of Some (JObj m) \<Rightarrow> Some m | _ \<Rightarrow> None)
      in \<lparr>ss_port = decode_ptr as_int 0 (field_values ''port'' m),
          ss_hostname = decode_ptr as_string '''' (field_values ''hostname'' m),
          ss_mdns = decode_ptr as_bool False (field_values ''mdns'' m),
          ss_mdnsDomain = decode_ptr as_string '''' (field_values ''mdnsDomain'' m)\<rparr>)"

subsection \<open>The language server block\<close>

record lsp_entry =
  le_disabled :: bool
  le_disabledSet :: bool
  le_command :: "string list"
  le_extensions :: "string list"
  le_env :: "(string, string) gomap"
  le_initialization :: jmap

definition IsDisabled :: "lsp_entry \<Rightarrow> bool" where
  "IsDisabled e = (le_disabledSet e \<and> le_disabled e)"

text \<open>A null among strings is an empty string.\<close>

definition as_text :: "json \<Rightarrow> string option" where
  "as_text v = (case v of JStr s \<Rightarrow> Some s | JNull \<Rightarrow> Some '''' | _ \<Rightarrow> None)"

definition all_some :: "'a option list \<Rightarrow> 'a list option" where
  "all_some xs = (if None \<in> set xs then None else Some (map the xs))"

definition as_texts :: "json \<Rightarrow> string list option" where
  "as_texts v = (case v of JArr xs \<Rightarrow> all_some (map as_text xs) | _ \<Rightarrow> None)"

definition as_text_map :: "json \<Rightarrow> (string, string) gomap option" where
  "as_text_map v =
     (case v of JObj m \<Rightarrow> map_option (zip (map fst m)) (all_some (map (as_text \<circ> snd) m)) | _ \<Rightarrow> None)"

definition as_object :: "json \<Rightarrow> jmap option" where
  "as_object v = (case v of JObj m \<Rightarrow> Some m | _ \<Rightarrow> None)"

definition lsp_UnmarshalJSON :: "json \<Rightarrow> lsp_entry option" where
  \<comment> \<open>\<open>None\<close> is an error\<close>
  "lsp_UnmarshalJSON v =
     (let m = (case v of JObj m \<Rightarrow> Some m | _ \<Rightarrow> None);
          dis = field_values ''disabled'' m
      in if v \<noteq> JNull \<and> m = None then None
         else if list_ex (\<lambda>d. d \<noteq> JNull \<and> as_bool d = None) dis then None
         else (case (decode_field as_texts [] (field_values ''command'' m),
                     decode_field as_texts [] (field_values ''extensions'' m),
                     decode_field as_text_map [] (field_values ''env'' m),
                     decode_field as_object [] (field_values ''initialization'' m)) of
                 (Some cmd, Some exts, Some env, Some ini) \<Rightarrow>
                   (let d = decode_ptr as_bool False dis
                    in Some \<lparr>le_disabled = (d = Some True), le_disabledSet = (d \<noteq> None), le_command = cmd,
                             le_extensions = exts, le_env = env, le_initialization = ini\<rparr>)
               | _ \<Rightarrow> None))"

record lsp_config =
  lc_Enabled :: bool
  lc_Servers :: "(string, lsp_entry) gomap"

text \<open>The order of ranging over the servers is the argument \<open>ord\<close>; the first offending one is named.\<close>

definition ParseLSP :: "(string list \<Rightarrow> string list) \<Rightarrow> jmap \<Rightarrow> string list \<Rightarrow> string + lsp_config" where
  "ParseLSP ord cfg builtinIDs =
     (case gm_get cfg ''lsp'' of
        None \<Rightarrow> Inr \<lparr>lc_Enabled = False, lc_Servers = []\<rparr>
      | Some JNull \<Rightarrow> Inr \<lparr>lc_Enabled = False, lc_Servers = []\<rparr>
      | Some (JBool b) \<Rightarrow> Inr \<lparr>lc_Enabled = b, lc_Servers = []\<rparr>
      | Some (JObj m) \<Rightarrow>
          (case all_some (map (lsp_UnmarshalJSON \<circ> snd) m) of
             None \<Rightarrow> Inl ''decode lsp config''
           | Some entries \<Rightarrow>
               (let servers = zip (map fst m) entries;
                    bad = (\<lambda>i. case gm_get servers i of
                             None \<Rightarrow> False
                           | Some e \<Rightarrow> \<not> IsDisabled e \<and> i \<notin> set builtinIDs \<and> le_extensions e = [])
                in case filter bad (ord (gm_keys servers)) of
                     i # _ \<Rightarrow> Inl (''lsp server '' @ i @ '': extensions array is required for custom servers'')
                   | [] \<Rightarrow> Inr \<lparr>lc_Enabled = True, lc_Servers = servers\<rparr>))
      | Some _ \<Rightarrow> Inl ''decode lsp config'')"

lemma ParseLSP_active:
  assumes "order_ok ord" "ParseLSP ord cfg ids = Inr c" "gm_get (lc_Servers c) i = Some e" "\<not> IsDisabled e" "i \<notin> set ids"
  shows "le_extensions e \<noteq> []"
proof -
  have "gm_has (lc_Servers c) i" using assms(3) by (simp add: gm_has_def)
  then have "i \<in> set (ord (gm_keys (lc_Servers c)))" using assms(1) by (simp add: order_ok_set gm_has_iff)
  then show ?thesis using assms(2-)
    by (fastforce simp: ParseLSP_def Let_def filter_empty_conv split: option.splits json.splits list.splits)
qed

end
