(* ===== verification/Auth.thy ===== *)
theory Auth
  imports Config Utf8
begin

text \<open>
  Authentication of requests (\<^verbatim>\<open>internal/auth/auth.go\<close>) and the decision whether the daemon may listen
  where it is told to (\<^verbatim>\<open>auth.go\<close>, \<^verbatim>\<open>internal/mdns/mdns.go\<close>, \<^verbatim>\<open>cmd/opcoded/main.go\<close>). Base64 and the parsing of query
  strings are those of Go's standard library. The lemmas say which credentials pass and which
  hosts are refused without a password.
\<close>

subsection \<open>Base64\<close>

definition b64_alphabet :: string where
  "b64_alphabet = ''ABCDEFGHIJKLMNOPQRSTUVWXYZabcdefghijklmnopqrstuvwxyz0123456789+/''"

definition b64_val :: "char \<Rightarrow> nat option" where
  "b64_val c = index_byte b64_alphabet c"

definition b64_three :: "nat \<Rightarrow> nat \<Rightarrow> nat \<Rightarrow> nat \<Rightarrow> char list" where
  "b64_three a b c d =
     [char_of (a * 4 + b div 16), char_of (b mod 16 * 16 + c div 4), char_of (c mod 4 * 64 + d)]"

text \<open>
  \<^verbatim>\<open>base64.StdEncoding.DecodeString\<close>: line breaks are skipped, padding is required and ends the
  input, the bits that padding leaves over are not looked at.
\<close>

fun b64_quads :: "string \<Rightarrow> string option" where
  "b64_quads [] = Some []"
| "b64_quads (a # b # c # d # rest) =
     (case (b64_val a, b64_val b) of
        (Some x, Some y) \<Rightarrow>
          (if c = CHR ''='' then (if d = CHR ''='' \<and> rest = [] then Some (take 1 (b64_three x y 0 0)) else None)
           else (case b64_val c of
                   None \<Rightarrow> None
                 | Some z \<Rightarrow>
                     if d = CHR ''='' then (if rest = [] then Some (take 2 (b64_three x y z 0)) else None)
                     else (case (b64_val d, b64_quads rest) of
                             (Some w, Some bs) \<Rightarrow> Some (b64_three x y z w @ bs)
                           | _ \<Rightarrow> None)))
      | _ \<Rightarrow> None)"
| "b64_quads _ = None"

definition b64_decode :: "string \<Rightarrow> string option" where
  "b64_decode s = b64_quads (filter (\<lambda>c. c \<noteq> CHR 0x0A \<and> c \<noteq> CHR 0x0D) s)"

subsection \<open>Query strings\<close>

definition hex_val :: "char \<Rightarrow> nat option" where
  "hex_val c = index_byte ''0123456789abcdef'' (to_lower_c c)"

text \<open>\<^verbatim>\<open>url.QueryUnescape\<close> and, with \<open>query\<close> false, \<^verbatim>\<open>url.PathUnescape\<close>; \<open>None\<close> is an error.\<close>

fun unescape :: "bool \<Rightarrow> string \<Rightarrow> string option" where
  "unescape query [] = Some []"
| "unescape query (c # s) =
     (if c = CHR ''%'' then
        (case s of
           h # l # rest \<Rightarrow>
             (case (hex_val h, hex_val l, unescape query rest) of
                (Some x, Some y, Some t) \<Rightarrow> Some (char_of (16 * x + y) # t)
              | _ \<Rightarrow> None)
         | _ \<Rightarrow> None)
      else map_option ((#) (if query \<and> c = CHR ''+'' then CHR '' '' else c)) (unescape query s))"

definition query_pair :: "string \<Rightarrow> (string \<times> string) option" where
  "query_pair s =
     (if CHR '';'' \<in> set s \<or> s = [] then None
      else (case (case index_byte s (CHR ''='') of None \<Rightarrow> (s, []) | Some i \<Rightarrow> (take i s, drop (Suc i) s)) of
              (k, v) \<Rightarrow> (case (unescape True k, unescape True v) of (Some k, Some v) \<Rightarrow> Some (k, v) | _ \<Rightarrow> None)))"

definition query_get :: "string \<Rightarrow> string \<Rightarrow> string" where
  \<comment> \<open>\<^verbatim>\<open>URL.Query().Get\<close>\<close>
  "query_get raw key =
     (case gm_get (List.map_filter query_pair (split_on (CHR ''&'') raw)) key of Some v \<Rightarrow> v | None \<Rightarrow> [])"

subsection \<open>Requests and credentials\<close>

text \<open>
  What the handlers read of a request: the decoded path and, when it differs from the default
  encoding of the path, the raw one; the query; headers by their canonical name; the decoded body.
\<close>

record http_request =
  rq_method :: string
  rq_path :: string
  rq_rawpath :: string
  rq_query :: string
  rq_header :: "string \<Rightarrow> string"
  rq_body :: "json option"

record auth_config =
  au_username :: string
  au_password :: string

definition Required :: "auth_config \<Rightarrow> bool" where
  "Required c = (au_password c \<noteq> [])"

definition FromEnv :: "(string \<Rightarrow> string) \<Rightarrow> auth_config" where
  "FromEnv getenv =
     (let user = getenv ''OPENCODE_SERVER_USERNAME''
      in \<lparr>au_username = (if user = [] then ''opencode'' else user),
          au_password = getenv ''OPENCODE_SERVER_PASSWORD''\<rparr>)"

definition ptyConnectPath :: "string \<Rightarrow> string option" where
  \<comment> \<open>the part between the slashes when the path matches the regular expression\<close>
  "ptyConnectPath p =
     (let mid = take (length p - 8 - 5) (drop 5 p)
      in if p = ''/pty/'' @ mid @ ''/connect'' \<and> mid \<noteq> [] \<and> CHR ''/'' \<notin> set mid then Some mid else None)"

definition hasPtyConnectTicket :: "http_request \<Rightarrow> bool" where
  "hasPtyConnectTicket r = (ptyConnectPath (rq_path r) \<noteq> None \<and> query_get (rq_query r) ''ticket'' \<noteq> [])"

definition decodeCredential :: "string \<Rightarrow> string \<times> string" where
  "decodeCredential inp =
     (case b64_decode inp of
        None \<Rightarrow> ([], [])
      | Some s \<Rightarrow> (case index_byte s (CHR '':'') of None \<Rightarrow> ([], []) | Some i \<Rightarrow> (take i s, drop (Suc i) s)))"

text \<open>
  \<^verbatim>\<open>(?i)^Basic\s+(.+)$\<close>: the scheme up to case (the long s folds to s), spaces, and the rest, to which
  the spaces give way when nothing else is left.
\<close>

definition re_space :: "char \<Rightarrow> bool" where
  "re_space c = (c \<in> set [CHR 0x09, CHR 0x0A, CHR 0x0C, CHR 0x0D, CHR '' ''])"

definition basic_scheme :: "string \<Rightarrow> string option" where
  "basic_scheme h =
     (if to_lower (take 5 h) = ''basic'' then Some (drop 5 h)
      else if to_lower (take 6 h) = [CHR ''b'', CHR ''a'', CHR 0xC5, CHR 0xBF, CHR ''i'', CHR ''c''] then Some (drop 6 h)
      else None)"

definition basic_match :: "string \<Rightarrow> string option" where
  "basic_match h =
     (case basic_scheme h of
        None \<Rightarrow> None
      | Some rest \<Rightarrow>
          (let n = length (takeWhile re_space rest)
           in map_option (\<lambda>k. drop k rest)
                (find (\<lambda>k. drop k rest \<noteq> [] \<and> CHR 0x0A \<notin> set (drop k rest)) (rev [1 ..< Suc n]))))"

definition credentialFromRequest :: "http_request \<Rightarrow> string \<times> string" where
  "credentialFromRequest r =
     (let token = query_get (rq_query r) ''auth_token''
      in if token \<noteq> [] then decodeCredential token
         else (case basic_match (rq_header r ''Authorization'') of
                 Some m \<Rightarrow> decodeCredential m
               | None \<Rightarrow> ([], [])))"

definition authorized :: "auth_config \<Rightarrow> string \<Rightarrow> string \<Rightarrow> bool" where
  "authorized c user pass = (user = au_username c \<and> pass = au_password c)"

text \<open>\<open>refuse\<close> is the answer 401 with its challenge; \<open>next\<close> the rest of the daemon.\<close>

definition Middleware :: "auth_config \<Rightarrow> 'a \<Rightarrow> (http_request \<Rightarrow> 'a) \<Rightarrow> http_request \<Rightarrow> 'a" where
  "Middleware c refuse nxt r =
     (if \<not> Required c then nxt r
      else if hasPtyConnectTicket r then nxt r
      else (case credentialFromRequest r of
              (user, pass) \<Rightarrow> if \<not> authorized c user pass then refuse else nxt r))"

subsection \<open>Where the daemon listens\<close>

definition loopbackHosts :: "string list" where
  "loopbackHosts = [''127.0.0.1'', ''localhost'', ''::1'', '''']"

definition IsLoopbackHost :: "string \<Rightarrow> bool" where
  "IsLoopbackHost host = (to_lower (trim_space host) \<in> set loopbackHosts)"

definition CheckBindExposure :: "auth_config \<Rightarrow> string \<Rightarrow> string option" where
  \<comment> \<open>the host of the error\<close>
  "CheckBindExposure c host = (if \<not> Required c \<and> \<not> IsLoopbackHost host then Some host else None)"

definition ShouldPublish :: "bool \<Rightarrow> string \<Rightarrow> bool" where
  \<comment> \<open>\<^verbatim>\<open>mdns.IsLoopback\<close> has the same cases as the table above\<close>
  "ShouldPublish enabled hostname = (enabled \<and> \<not> IsLoopbackHost hostname)"

record daemon_options =
  do_host :: string
  do_port :: int
  do_mdns :: bool
  do_mdnsDomain :: string

definition resolveOptions :: "config_env \<Rightarrow> string list \<Rightarrow> daemon_options \<Rightarrow> daemon_options" where
  \<comment> \<open>\<open>explicit\<close> are the flags set on the command line\<close>
  "resolveOptions env explicit opts =
     (case Load env [] of
        Inl err \<Rightarrow> opts
      | Inr cfg \<Rightarrow>
          (let s = Server cfg;
               opts = (case ss_port s of
                         Some p \<Rightarrow> if ''port'' \<notin> set explicit then opts\<lparr>do_port := p\<rparr> else opts | None \<Rightarrow> opts);
               opts = (case ss_mdns s of
                         Some b \<Rightarrow> if ''mdns'' \<notin> set explicit then opts\<lparr>do_mdns := b\<rparr> else opts | None \<Rightarrow> opts);
               opts = (case ss_mdnsDomain s of
                         Some d \<Rightarrow> if ''mdns-domain'' \<notin> set explicit then opts\<lparr>do_mdnsDomain := d\<rparr> else opts
                       | None \<Rightarrow> opts)
           in if ''host'' \<in> set explicit then opts
              else (case ss_hostname s of
                      Some h \<Rightarrow> opts\<lparr>do_host := h\<rparr>
                    | None \<Rightarrow> if do_mdns opts then opts\<lparr>do_host := ''0.0.0.0''\<rparr> else opts)))"

definition JoinHostPort :: "string \<Rightarrow> string \<Rightarrow> string" where
  "JoinHostPort host port =
     (if CHR '':'' \<in> set host then ''['' @ host @ '']:'' @ port else host @ '':'' @ port)"

text \<open>The start of \<open>run\<close>: the refusal, or the address given to \<^verbatim>\<open>net.Listen\<close>.\<close>

definition run_listen :: "auth_config \<Rightarrow> daemon_options \<Rightarrow> string + string" where
  "run_listen c opts =
     (case (if \<not> Required c then CheckBindExposure c (do_host opts) else None) of
        Some h \<Rightarrow> Inl (''refusing to bind non-loopback host '' @ h @
                  '' without a password: set OPENCODE_SERVER_PASSWORD (or bind 127.0.0.1)'')
      | None \<Rightarrow> Inr (JoinHostPort (do_host opts) (itoa_int (do_port opts))))"

subsection \<open>Credentials that pass\<close>

text \<open>The encoding clients use: the specification of the decoder.\<close>

definition b64_sym :: "nat \<Rightarrow> char" where
  "b64_sym n = b64_alphabet ! n"

fun b64_encode :: "string \<Rightarrow> string" where
  "b64_encode [] = []"
| "b64_encode [a] = [b64_sym (byte_of a div 4), b64_sym (byte_of a mod 4 * 16), CHR ''='', CHR ''='']"
| "b64_encode [a, b] =
     [b64_sym (byte_of a div 4), b64_sym (byte_of a mod 4 * 16 + byte_of b div 16), b64_sym (byte_of b mod 16 * 4), CHR ''='']"
| "b64_encode (a # b # c # s) =
     [b64_sym (byte_of a div 4), b64_sym (byte_of a mod 4 * 16 + byte_of b div 16),
      b64_sym (byte_of b mod 16 * 4 + byte_of c div 64), b64_sym (byte_of c mod 64)] @ b64_encode s"

lemma b64_table:
  "list_all (\<lambda>n. b64_val (b64_sym n) = Some n \<and> b64_sym n \<notin> set [CHR ''='', CHR 0x0A, CHR 0x0D, CHR '' '']) [0..<64]"
  by code_simp

lemma b64_sym:
  assumes "n < 64"
  shows "b64_val (b64_sym n) = Some n" "b64_sym n \<noteq> CHR ''=''" "b64_sym n \<noteq> CHR 0x0A" "b64_sym n \<noteq> CHR 0x0D"
    "\<not> re_space (b64_sym n)"
proof -
  have space: "list_all (\<lambda>n. \<not> re_space (b64_sym n)) [0..<64]" by code_simp
  show "b64_val (b64_sym n) = Some n" "b64_sym n \<noteq> CHR ''=''" "b64_sym n \<noteq> CHR 0x0A" "b64_sym n \<noteq> CHR 0x0D"
    "\<not> re_space (b64_sym n)"
    using b64_table space assms by (auto simp: list_all_iff)
qed

lemma byte_bounds:
  "byte_of (c :: char) div 4 < 64" "byte_of c mod 4 * 16 + byte_of d div 16 < (64 :: nat)"
  "byte_of c mod 16 * 4 + byte_of d div 64 < (64 :: nat)" "byte_of c mod 64 < (64 :: nat)"
  "byte_of c mod 4 * 16 < (64 :: nat)" "byte_of c mod 16 * 4 < (64 :: nat)"
proof -
  have b: "byte_of c < (256 :: nat)" "byte_of d < (256 :: nat)" by simp_all
  then have q: "byte_of c div 4 < (64 :: nat)" "byte_of d div 16 < (16 :: nat)" "byte_of d div 64 < (4 :: nat)"
    by (simp_all add: less_mult_imp_div_less)
  have r: "byte_of c mod 4 < (4 :: nat)" "byte_of c mod 16 < (16 :: nat)" by simp_all
  show "byte_of c div 4 < (64 :: nat)" "byte_of c mod 4 * 16 + byte_of d div 16 < (64 :: nat)"
    "byte_of c mod 16 * 4 + byte_of d div 64 < (64 :: nat)" "byte_of c mod 64 < (64 :: nat)"
    "byte_of c mod 4 * 16 < (64 :: nat)" "byte_of c mod 16 * 4 < (64 :: nat)"
    using q r by (linarith | simp)+
qed

lemma three_bytes:
  "b64_three (byte_of a div 4) (byte_of a mod 4 * 16 + byte_of b div 16)
     (byte_of b mod 16 * 4 + byte_of c div 64) (byte_of c mod 64) = [a, b, c]"
proof -
  have low: "(k * m + r) div m = k" "(k * m + r) mod m = r" if "r < m" for k m r :: nat
    using that by simp_all
  have "byte_of b < (256 :: nat)" "byte_of c < (256 :: nat)" by simp_all
  then have "byte_of b div 16 < (16 :: nat)" "byte_of c div 64 < (4 :: nat)"
    by (simp_all add: less_mult_imp_div_less)
  then show ?thesis by (simp add: b64_three_def low div_mult_mod_eq)
qed

lemma b64_quads_encode: "b64_quads (b64_encode s) = Some s"
proof (induction s rule: b64_encode.induct)
  case (2 a)
  have "take 1 (b64_three (byte_of a div 4) (byte_of a mod 4 * 16) 0 0) = [a]"
    using three_bytes [of a "CHR 0x00" "CHR 0x00"] by (simp add: b64_three_def)
  then show ?case by (simp add: b64_sym byte_bounds)
next
  case (3 a b)
  have "take 2 (b64_three (byte_of a div 4) (byte_of a mod 4 * 16 + byte_of b div 16) (byte_of b mod 16 * 4) 0) = [a, b]"
    using three_bytes [of a b "CHR 0x00"] by (simp add: b64_three_def)
  then show ?case by (simp add: b64_sym byte_bounds)
next
  case (4 a b c s)
  then show ?case by (simp add: b64_sym byte_bounds three_bytes)
qed simp

lemma b64_encode_plain: "list_all (\<lambda>c. c \<noteq> CHR 0x0A \<and> c \<noteq> CHR 0x0D \<and> \<not> re_space c) (b64_encode s)"
proof -
  have "\<not> re_space (CHR ''='')" by (simp add: re_space_def)
  then show ?thesis by (induction s rule: b64_encode.induct) (simp_all add: b64_sym byte_bounds)
qed

lemma b64_roundtrip: "b64_decode (b64_encode s) = Some s"
proof -
  have "filter (\<lambda>c. c \<noteq> CHR 0x0A \<and> c \<noteq> CHR 0x0D) (b64_encode s) = b64_encode s"
    using b64_encode_plain [of s] by (simp add: filter_id_conv list_all_iff)
  then show ?thesis by (simp add: b64_decode_def b64_quads_encode)
qed

lemma b64_encode_nonempty: "b64_encode (a # s) \<noteq> []"
  by (cases "a # s" rule: b64_encode.cases) auto

lemma index_byte_split: "b \<notin> set u \<Longrightarrow> index_byte (u @ b # v) b = Some (length u)"
  by (induction u) auto

lemma decode_presented: "CHR '':'' \<notin> set u \<Longrightarrow> decodeCredential (b64_encode (u @ '':'' @ p)) = (u, p)"
  by (simp add: decodeCredential_def b64_roundtrip index_byte_split)

lemma basic_match_plain:
  assumes "tok \<noteq> []" "list_all (\<lambda>c. c \<noteq> CHR 0x0A \<and> \<not> re_space c) tok"
  shows "basic_match (''Basic '' @ tok) = Some tok"
proof -
  have scheme: "basic_scheme (''Basic '' @ tok) = Some (CHR '' '' # tok)"
  proof -
    have "to_lower ''Basic'' = ''basic''" by code_simp
    then show ?thesis by (simp add: basic_scheme_def)
  qed
  obtain c cs where c: "tok = c # cs" using assms(1) by (cases tok) auto
  have "takeWhile re_space (CHR '' '' # tok) = '' ''"
    using assms(2) by (simp add: c re_space_def)
  then have n: "rev [1 ..< Suc (length (takeWhile re_space (CHR '' '' # tok)))] = [1]" by simp
  have "CHR 0x0A \<notin> set tok" using assms(2) by (auto simp: list_all_iff)
  then show ?thesis unfolding basic_match_def scheme option.case Let_def n using assms(1) by simp
qed

text \<open>The header a client sends with a user name and a password.\<close>

definition basic_header :: "string \<Rightarrow> string \<Rightarrow> string" where
  "basic_header u p = ''Basic '' @ b64_encode (u @ '':'' @ p)"

lemma encoded_nonempty: "b64_encode (u @ CHR '':'' # p) \<noteq> []"
  by (cases u) (use b64_encode_nonempty in auto)

lemma header_credential:
  assumes "query_get (rq_query r) ''auth_token'' = []" "rq_header r ''Authorization'' = basic_header u p" "CHR '':'' \<notin> set u"
  shows "credentialFromRequest r = (u, p)"
proof -
  have "basic_match (basic_header u p) = Some (b64_encode (u @ '':'' @ p))"
    unfolding basic_header_def using b64_encode_plain encoded_nonempty
    by (intro basic_match_plain) (auto simp: list_all_iff)
  then show ?thesis using assms decode_presented [of u p] by (simp add: credentialFromRequest_def)
qed


definition demo_request :: http_request where
  "demo_request = \<lparr>rq_method = ''GET'', rq_path = ''/session'', rq_rawpath = [], rq_query = ''directory=%2Fw'',
     rq_header = (\<lambda>h. if h = ''Authorization'' then ''Basic b3BlbmNvZGU6cHc='' else []), rq_body = None\<rparr>"


text \<open>
  A user name with a colon locks everyone out: credentials are split at their first colon, so no
  request but a ticketed terminal connection is let through, whatever it carries.
\<close>

theorem colon_in_username_locks_out:
  assumes "Required c" "CHR '':'' \<in> set (au_username c)" "\<not> hasPtyConnectTicket r"
  shows "Middleware c refuse nxt r = refuse"
proof -
  have "CHR '':'' \<notin> set (fst (decodeCredential inp))" for inp
    by (auto simp: decodeCredential_def dest: index_byte_Some split: option.split)
  then have "CHR '':'' \<notin> set (fst (credentialFromRequest r))"
    by (auto simp: credentialFromRequest_def Let_def split: option.split)
  then show ?thesis using assms by (auto simp: Middleware_def authorized_def split: prod.split)
qed

lemma colon_in_username_locks_out_witness:
  "\<not> Middleware \<lparr>au_username = ''a:b'', au_password = ''pw''\<rparr> False (\<lambda>r. True) demo_request"
  using colon_in_username_locks_out [of "\<lparr>au_username = ''a:b'', au_password = ''pw''\<rparr>" demo_request False "\<lambda>r. True"]
  by (simp add: Required_def hasPtyConnectTicket_def demo_request_def ptyConnectPath_def)

subsection \<open>Hosts that are refused\<close>

text \<open>What \<^verbatim>\<open>net.Listen\<close> documents: an empty host, or an unspecified address, is every interface.\<close>

definition every_interface :: "string \<Rightarrow> bool" where
  "every_interface host = (host \<in> set [[], ''0.0.0.0'', ''::''])"

lemma run_listen_open:
  "\<not> Required c \<Longrightarrow> (\<exists>addr. run_listen c opts = Inr addr) \<longleftrightarrow> IsLoopbackHost (do_host opts)"
  by (simp add: run_listen_def CheckBindExposure_def)

text \<open>
  C38. A daemon without a password listens only on a host of the loopback table; but the table has the
  empty host, which stands for every interface, and a configuration whose host is not a string
  leaves the host empty, so such a daemon starts, unprotected, on the whole network.
\<close>

theorem mistyped_host_exposes:
  assumes "Load env [] = Inr cfg" "gm_get cfg ''server'' = Some (JObj m)"
    "field_values ''hostname'' (Some m) = [v]" "v \<noteq> JNull" "as_string v = None"
    "''host'' \<notin> set explicit" "\<not> Required c"
  shows "every_interface (do_host (resolveOptions env explicit opts)) \<and>
    (\<exists>addr. run_listen c (resolveOptions env explicit opts) = Inr addr)"
proof -
  have "ss_hostname (Server cfg) = Some []"
    using assms(2-5) by (simp add: Server_def Let_def decode_ptr_def)
  then have host: "do_host (resolveOptions env explicit opts) = []"
    using assms(1,6) by (simp add: resolveOptions_def Let_def)
  have "IsLoopbackHost []"
    by (simp add: IsLoopbackHost_def loopbackHosts_def trim_space_def trim_seqs.simps space_seqs_def to_lower_def)
  then show ?thesis using run_listen_open [OF assms(7)] by (simp add: host every_interface_def)
qed

definition bad_host_env :: config_env where
  "bad_host_env =
     \<lparr>ce_getenv = (\<lambda>v. if v = ''OPENCODE_CONFIG_CONTENT'' then ''x'' else []), ce_home = Some ''/h'', ce_user = None,
      ce_has_git = (\<lambda>p. False), ce_read = (\<lambda>p. FileMissing), ce_standardize = Inr,
      ce_decode = (\<lambda>s. Inr (JObj [(''server'', JObj [(''hostname'', JNum 5)])]))\<rparr>"

lemma mistyped_host_exposes_witness:
  "\<exists>addr. run_listen \<lparr>au_username = ''opencode'', au_password = []\<rparr>
     (resolveOptions bad_host_env [] \<lparr>do_host = ''127.0.0.1'', do_port = 4096, do_mdns = False, do_mdnsDomain = []\<rparr>) = Inr addr"
proof -
  have missing: "mergeFiles bad_host_env ps r = Inr r" for ps r
    by (induction ps) (simp_all add: mergeFile_def bad_host_env_def)
  obtain cfg where cfg: "Load bad_host_env [] = Inr cfg"
    and server: "gm_get cfg ''server'' = Some (JObj [(''hostname'', JNum 5)])"
    unfolding Load_def missing
    by (simp add: mergeContent_def bad_host_env_def parseJSONC_def deprecatedKeys_def postProcess_old)
  have "field_values ''hostname'' (Some [(''hostname'', JNum 5)]) = [JNum 5]" by code_simp
  from mistyped_host_exposes [OF cfg server this, of "[]" "\<lparr>au_username = ''opencode'', au_password = []\<rparr>"]
  show ?thesis by (simp add: as_string_def Required_def)
qed

end
