(* ===== verification/Daemon.thy ===== *)
theory Daemon
  imports Auth Pty Permission Questions
begin

text \<open>
  The daemon behind its authentication (\<^verbatim>\<open>internal/server\<close>: \<^verbatim>\<open>directory.go\<close>, \<^verbatim>\<open>pty_handlers.go\<close>, \<^verbatim>\<open>pty_ws.go\<close>,
  \<^verbatim>\<open>permission_handlers.go\<close>, \<^verbatim>\<open>question_handlers.go\<close>; \<^verbatim>\<open>internal/instance/instance.go\<close>): every request passes
  the middleware, is resolved to a project directory and handled on that directory's instance. Which
  handler a path belongs to is the router's (a third-party package): a function \<open>route\<close>. The lemmas say
  what a request without credentials can do.
\<close>

subsection \<open>Instances\<close>

record inst_context =
  ic_directory :: string
  ic_pty :: pty_manager
  ic_permissions :: perm_manager
  ic_questions :: q_manager

type_synonym instances = "(string, inst_context) gomap"

definition new_instance :: "string \<Rightarrow> inst_context" where
  "new_instance dir =
     \<lparr>ic_directory = dir, ic_pty = NewPtyManager dir [], ic_permissions = NewManager True,
      ic_questions = q_NewManager True\<rparr>"

definition inst_Get :: "string \<Rightarrow> instances \<Rightarrow> inst_context \<times> instances" where
  "inst_Get dir sv =
     (case gm_get sv dir of
        Some c \<Rightarrow> (c, sv)
      | None \<Rightarrow> (new_instance dir, gm_put dir (new_instance dir) sv))"

text \<open>An operation on a part of the directory's instance.\<close>

definition on_instance :: "string \<Rightarrow> (inst_context \<Rightarrow> 'a \<times> inst_context) \<Rightarrow> instances \<Rightarrow> 'a \<times> instances" where
  "on_instance dir f sv =
     (case inst_Get dir sv of (c, sv1) \<Rightarrow> (case f c of (x, c') \<Rightarrow> (x, gm_put dir c' sv1)))"

definition on_pty :: "(pty_manager \<Rightarrow> 'a \<times> pty_manager) \<Rightarrow> inst_context \<Rightarrow> 'a \<times> inst_context" where
  "on_pty f c = (case f (ic_pty c) of (x, m) \<Rightarrow> (x, c\<lparr>ic_pty := m\<rparr>))"

subsection \<open>The directory of a request\<close>

definition resolveDirParam :: "http_request \<Rightarrow> string \<Rightarrow> string" where
  "resolveDirParam r fallbackCwd =
     (let d = query_get (rq_query r) ''directory''
      in if d \<noteq> [] then d
         else (let h = rq_header r ''X-Opencode-Directory''
               in if h \<noteq> [] then (case unescape False h of Some dec \<Rightarrow> dec | None \<Rightarrow> h)
                  else fallbackCwd))"

subsection \<open>Handlers\<close>

datatype http_reply =
  HttpStatus nat
| HttpError nat string
| HttpTrue
| HttpPty pty_info
| HttpPtys "pty_info list"
| HttpShells "(string \<times> string) list"
| HttpTicket string nat
| HttpAttached "pty_frame list" nat
| HttpClosed nat
| HttpUpgradeFailed
| HttpElsewhere

text \<open>
  What a handler reads besides the request: the process environment, the order of maps, a fresh
  identifier, random bytes, the clock (twice for a new ticket), which shells exist, the decoded
  bodies, and whether the upgrade to a web socket succeeds.
\<close>

record handler_env =
  he_os :: pty_os
  he_ord :: "string list \<Rightarrow> string list"
  he_ptyID :: string
  he_rand :: "string + string"
  he_now :: int
  he_now2 :: int
  he_exists :: "string \<Rightarrow> bool"
  he_create :: "http_request \<Rightarrow> pty_create"
  he_update :: "http_request \<Rightarrow> pty_update"
  he_accept :: bool

definition ptyShells :: "handler_env \<Rightarrow> http_reply" where
  "ptyShells env = HttpShells (map (\<lambda>p. (p, file_base p)) (ListShells (he_exists env)))"

definition ptyList :: "handler_env \<Rightarrow> pty_manager \<Rightarrow> http_reply \<times> pty_manager" where
  "ptyList env m = (HttpPtys (pty_List (he_ord env) m), m)"

definition ptyCreate :: "handler_env \<Rightarrow> http_request \<Rightarrow> pty_manager \<Rightarrow> http_reply \<times> pty_manager" where
  "ptyCreate env r m =
     (case pty_Create (he_os env) (he_ptyID env) (he_create env r) m of
        (Inl err, m') \<Rightarrow> (HttpError 500 ''InternalError'', m')
      | (Inr info, m') \<Rightarrow> (HttpPty info, m'))"

definition ptyGet :: "string \<Rightarrow> pty_manager \<Rightarrow> http_reply \<times> pty_manager" where
  "ptyGet pid m =
     ((case pty_Get pid m of None \<Rightarrow> HttpError 404 ''PtyNotFoundError'' | Some info \<Rightarrow> HttpPty info), m)"

definition ptyUpdate :: "handler_env \<Rightarrow> http_request \<Rightarrow> string \<Rightarrow> pty_manager \<Rightarrow> http_reply \<times> pty_manager" where
  "ptyUpdate env r pid m =
     (case pty_Update pid (he_update env r) m of
        (None, m') \<Rightarrow> (HttpError 404 ''PtyNotFoundError'', m')
      | (Some info, m') \<Rightarrow> (HttpPty info, m'))"

definition ptyRemove :: "string \<Rightarrow> pty_manager \<Rightarrow> http_reply \<times> pty_manager" where
  "ptyRemove pid m =
     (case pty_Remove pid m of
        (False, m') \<Rightarrow> (HttpError 404 ''PtyNotFoundError'', m')
      | (True, m') \<Rightarrow> (HttpTrue, m'))"

text \<open>The header is looked at before the instance.\<close>

definition ptyConnectToken :: "handler_env \<Rightarrow> string \<Rightarrow> pty_manager \<Rightarrow> http_reply \<times> pty_manager" where
  "ptyConnectToken env pid m =
     (if pty_Get pid m = None then (HttpError 404 ''PtyNotFoundError'', m)
      else (case IssueTicket (he_rand env) (he_now env) (he_now2 env) pid (pm_tickets m) of
              (Inl err, ts) \<Rightarrow> (HttpError 500 ''InternalError'', m)
            | (Inr token, ts) \<Rightarrow> (HttpTicket token 60, m\<lparr>pm_tickets := ts\<rparr>)))"

definition token_header_ok :: "http_request \<Rightarrow> bool" where
  "token_header_ok r = (rq_header r ''X-Opencode-Ticket'' = ''1'')"

text \<open>The connection handler up to the attachment; what follows is the session's (\<open>Pty\<close>).\<close>

definition ptyConnect :: "handler_env \<Rightarrow> http_request \<Rightarrow> string \<Rightarrow> pty_manager \<Rightarrow> http_reply \<times> pty_manager" where
  "ptyConnect env r pid m =
     (if pty_Get pid m = None then (HttpStatus 404, m)
      else
        (let ticket = query_get (rq_query r) ''ticket'';
             (ok, ts) = (if ticket \<noteq> [] then ConsumeTicket ticket pid (he_now env) (pm_tickets m) else (True, pm_tickets m));
             m = m\<lparr>pm_tickets := ts\<rparr>
         in if \<not> ok then (HttpStatus 403, m)
            else if \<not> he_accept env then (HttpUpgradeFailed, m)
            else (case pty_Connect pid (parseCursor (query_get (rq_query r) ''cursor'')) m of
                    (None, m') \<Rightarrow> (HttpClosed 4404, m')
                  | (Some (frames, key), m') \<Rightarrow> (HttpAttached frames key, m'))))"

text \<open>What a reply carries in its body; \<open>None\<close> is answered with 400 before the instance is looked up.\<close>

definition permission_body :: "http_request \<Rightarrow> string option" where
  "permission_body r =
     (case rq_body r of
        Some (JObj body) \<Rightarrow>
          (case dec_string ''reply'' (Some body) of
             Some reply \<Rightarrow> if reply \<in> set [''once'', ''always'', ''reject''] then Some reply else None
           | None \<Rightarrow> None)
      | _ \<Rightarrow> None)"

definition permissionReply :: "handler_env \<Rightarrow> string \<Rightarrow> string \<Rightarrow> inst_context \<Rightarrow> http_reply \<times> inst_context" where
  "permissionReply env rid reply c =
     (case Reply (he_ord env) rid reply (ic_permissions c) of
        (Inl err, pm) \<Rightarrow> (HttpError 404 ''PermissionNotFoundError'', c\<lparr>ic_permissions := pm\<rparr>)
      | (Inr u, pm) \<Rightarrow> (HttpTrue, c\<lparr>ic_permissions := pm\<rparr>))"

definition as_answers :: "json \<Rightarrow> string list list option" where
  "as_answers v =
     (case v of
        JArr xs \<Rightarrow> all_some (map (\<lambda>x. case x of JNull \<Rightarrow> Some [] | _ \<Rightarrow> as_texts x) xs)
      | _ \<Rightarrow> None)"

definition question_reply_body :: "http_request \<Rightarrow> string list list option" where
  "question_reply_body r =
     (case rq_body r of
        Some (JObj body) \<Rightarrow> decode_field as_answers [] (field_values ''answers'' (Some body))
      | Some JNull \<Rightarrow> Some []
      | _ \<Rightarrow> None)"

definition questionReply :: "string \<Rightarrow> string list list \<Rightarrow> inst_context \<Rightarrow> http_reply \<times> inst_context" where
  "questionReply rid answers c =
     (case q_Reply rid answers (ic_questions c) of
        (Inl err, qm) \<Rightarrow> (HttpError 404 ''QuestionNotFoundError'', c\<lparr>ic_questions := qm\<rparr>)
      | (Inr u, qm) \<Rightarrow> (HttpTrue, c\<lparr>ic_questions := qm\<rparr>))"

definition questionReject :: "string \<Rightarrow> inst_context \<Rightarrow> http_reply \<times> inst_context" where
  "questionReject rid c =
     (case q_Reject rid (ic_questions c) of
        (Inl err, qm) \<Rightarrow> (HttpError 404 ''QuestionNotFoundError'', c\<lparr>ic_questions := qm\<rparr>)
      | (Inr u, qm) \<Rightarrow> (HttpTrue, c\<lparr>ic_questions := qm\<rparr>))"

subsection \<open>Serving a request\<close>

text \<open>The endpoints on an instance's terminals, permissions and questions; the others have other state.\<close>

datatype endpoint =
  EPtyShells | EPtyList | EPtyCreate | EPtyGet string | EPtyUpdate string | EPtyRemove string
| EPtyToken string | EPtyConnect string | EPermissionReply string | EQuestionReply string
| EQuestionReject string | EOther

fun early_reply :: "handler_env \<Rightarrow> http_request \<Rightarrow> endpoint \<Rightarrow> http_reply option" where
  "early_reply env r EPtyShells = Some (ptyShells env)"
| "early_reply env r EOther = Some HttpElsewhere"
| "early_reply env r (EPtyToken pid) = (if token_header_ok r then None else Some (HttpError 403 ''PtyForbiddenError''))"
| "early_reply env r (EPermissionReply rid) =
     (if permission_body r = None then Some (HttpError 400 ''BadRequest'') else None)"
| "early_reply env r (EQuestionReply rid) =
     (if question_reply_body r = None then Some (HttpError 400 ''BadRequest'') else None)"
| "early_reply env r _ = None"

fun handle_endpoint ::
  "handler_env \<Rightarrow> http_request \<Rightarrow> endpoint \<Rightarrow> inst_context \<Rightarrow> http_reply \<times> inst_context" where
  "handle_endpoint env r EPtyList c = on_pty (ptyList env) c"
| "handle_endpoint env r EPtyCreate c = on_pty (ptyCreate env r) c"
| "handle_endpoint env r (EPtyGet pid) c = on_pty (ptyGet pid) c"
| "handle_endpoint env r (EPtyUpdate pid) c = on_pty (ptyUpdate env r pid) c"
| "handle_endpoint env r (EPtyRemove pid) c = on_pty (ptyRemove pid) c"
| "handle_endpoint env r (EPtyToken pid) c = on_pty (ptyConnectToken env pid) c"
| "handle_endpoint env r (EPtyConnect pid) c = on_pty (ptyConnect env r pid) c"
| "handle_endpoint env r (EPermissionReply rid) c = permissionReply env rid (the (permission_body r)) c"
| "handle_endpoint env r (EQuestionReply rid) c = questionReply rid (the (question_reply_body r)) c"
| "handle_endpoint env r (EQuestionReject rid) c = questionReject rid c"
| "handle_endpoint env r EPtyShells c = (ptyShells env, c)"
| "handle_endpoint env r EOther c = (HttpElsewhere, c)"

definition dispatch ::
  "handler_env \<Rightarrow> http_request \<Rightarrow> string \<Rightarrow> endpoint \<Rightarrow> instances \<Rightarrow> http_reply \<times> instances" where
  "dispatch env r dir ep sv =
     (case early_reply env r ep of
        Some reply \<Rightarrow> (reply, sv)
      | None \<Rightarrow> on_instance dir (handle_endpoint env r ep) sv)"

record server_config =
  sc_auth :: auth_config
  sc_cwd :: string
  sc_resolve :: "string \<Rightarrow> string"
  sc_route :: "http_request \<Rightarrow> endpoint"

definition serve :: "server_config \<Rightarrow> handler_env \<Rightarrow> http_request \<Rightarrow> instances \<Rightarrow> http_reply \<times> instances" where
  "serve cf env r sv =
     Middleware (sc_auth cf) (HttpStatus 401, sv)
       (\<lambda>r. dispatch env r (sc_resolve cf (resolveDirParam r (sc_cwd cf))) (sc_route cf r) sv) r"

subsection \<open>Requests without credentials\<close>

text \<open>Whether a request carries the configured name and password.\<close>

definition presents :: "auth_config \<Rightarrow> http_request \<Rightarrow> bool" where
  "presents c r = (case credentialFromRequest r of (user, pass) \<Rightarrow> authorized c user pass)"

definition request_dir :: "server_config \<Rightarrow> http_request \<Rightarrow> string" where
  "request_dir cf r = sc_resolve cf (resolveDirParam r (sc_cwd cf))"

text \<open>
  What the router documents for a path without unusual escapes: a path of the form of the connect
  route belongs to the connect handler, or, for another method, to none of the handlers here.
\<close>

definition connect_routed :: "server_config \<Rightarrow> bool" where
  "connect_routed cf =
     (\<forall>r. rq_rawpath r = [] \<and> ptyConnectPath (rq_path r) \<noteq> None \<longrightarrow>
        sc_route cf r = EOther \<or> (\<exists>pid. sc_route cf r = EPtyConnect pid))"

text \<open>The instance of a directory as a request finds it.\<close>

definition instance_of :: "string \<Rightarrow> instances \<Rightarrow> inst_context" where
  "instance_of dir sv = fst (inst_Get dir sv)"

lemma instance_of_put [simp]:
  "instance_of dir (gm_put dir' c sv) = (if dir = dir' then c else instance_of dir sv)"
  by (auto simp: instance_of_def inst_Get_def split: option.split)

lemma instance_of_get [simp]: "instance_of dir' (snd (inst_Get dir sv)) = instance_of dir' sv"
  by (auto simp: instance_of_def inst_Get_def split: option.split)

lemma on_instance_result:
  assumes "on_instance dir f sv = (x, sv')"
  obtains c' where "f (instance_of dir sv) = (x, c')"
    "\<And>d. instance_of d sv' = (if d = dir then c' else instance_of d sv)"
proof -
  obtain c sv1 where g: "inst_Get dir sv = (c, sv1)" by fastforce
  obtain x' c' where f: "f c = (x', c')" by fastforce
  have sv1: "instance_of d sv1 = instance_of d sv" for d
    using instance_of_get [of d dir sv] g by simp
  have "x' = x" "sv' = gm_put dir c' sv1" using assms g f by (simp_all add: on_instance_def)
  moreover have "c = instance_of dir sv" using g by (simp add: instance_of_def)
  ultimately show ?thesis using that [of c'] f sv1 by simp
qed

lemma serve_unauthenticated:
  assumes "Required (sc_auth cf)" "\<not> presents (sc_auth cf) r" "rq_rawpath r = []" "connect_routed cf"
  shows "serve cf env r sv = (HttpStatus 401, sv) \<or> serve cf env r sv = (HttpElsewhere, sv) \<or>
    (\<exists>pid. query_get (rq_query r) ''ticket'' \<noteq> [] \<and>
       serve cf env r sv = on_instance (request_dir cf r) (on_pty (ptyConnect env r pid)) sv)"
proof (cases "hasPtyConnectTicket r")
  case False
  then show ?thesis using assms(1,2) by (auto simp: serve_def Middleware_def presents_def split: prod.splits)
next
  case True
  then have s: "serve cf env r sv = dispatch env r (request_dir cf r) (sc_route cf r) sv"
    using assms(1) by (simp add: serve_def Middleware_def request_dir_def)
  from True assms(3,4) consider "sc_route cf r = EOther" | pid where "sc_route cf r = EPtyConnect pid"
    by (auto simp: connect_routed_def hasPtyConnectTicket_def)
  then show ?thesis
  proof cases
    case 2
    moreover have "handle_endpoint env r (EPtyConnect pid) = on_pty (ptyConnect env r pid)" by (rule ext) simp
    ultimately show ?thesis using True s by (auto simp: dispatch_def hasPtyConnectTicket_def)
  qed (use s in \<open>simp add: dispatch_def\<close>)
qed

lemma ptyConnect_ticket:
  assumes "ptyConnect env r pid m = (reply, m')" "query_get (rq_query r) ''ticket'' \<noteq> []"
  shows "reply \<in> {HttpStatus 404, HttpStatus 403} \<and> m' = m \<or>
    (\<exists>e. gm_get (pm_tickets m) (query_get (rq_query r) ''ticket'') = Some e \<and> tk_pty e = pid \<and>
       he_now env < tk_expires e \<and> pm_tickets m' = gm_del (query_get (rq_query r) ''ticket'') (pm_tickets m))"
proof (cases "fst (ConsumeTicket (query_get (rq_query r) ''ticket'') pid (he_now env) (pm_tickets m))")
  case True
  then show ?thesis using assms
    by (auto simp: ptyConnect_def ConsumeTicket_def pty_Connect_def Let_def split: option.splits if_splits prod.splits)
next
  case False
  then have "ConsumeTicket (query_get (rq_query r) ''ticket'') pid (he_now env) (pm_tickets m) = (False, pm_tickets m)"
    by (auto simp: ConsumeTicket_def split: option.splits if_splits)
  then show ?thesis using assms by (auto simp: ptyConnect_def Let_def split: if_splits)
qed


subsection \<open>Where tickets come from\<close>

definition tickets_in :: "string \<Rightarrow> instances \<Rightarrow> pty_tickets" where
  "tickets_in dir sv = pm_tickets (ic_pty (instance_of dir sv))"

text \<open>The state after a run of requests from the start of the daemon.\<close>

definition served :: "server_config \<Rightarrow> (handler_env \<times> http_request) list \<Rightarrow> instances" where
  "served cf rs = fold (\<lambda>(env, r) sv. snd (serve cf env r sv)) rs []"

lemma served_snoc: "served cf (rs @ [(env, r)]) = snd (serve cf env r (served cf rs))"
  by (simp add: served_def)

definition attaches :: "server_config \<Rightarrow> string \<Rightarrow> string \<Rightarrow> handler_env \<times> http_request \<Rightarrow> instances \<Rightarrow> bool" where
  "attaches cf dir token er sv =
     (request_dir cf (snd er) = dir \<and> query_get (rq_query (snd er)) ''ticket'' = token \<and>
      (\<exists>frames key. fst (serve cf (fst er) (snd er) sv) = HttpAttached frames key))"

text \<open>The request that issued a ticket, with no connection having used it since.\<close>

definition issued_by ::
  "server_config \<Rightarrow> (handler_env \<times> http_request) list \<Rightarrow> string \<Rightarrow> string \<Rightarrow> pty_ticket \<Rightarrow> bool" where
  "issued_by cf rs dir token e =
     (\<exists>pre env r post. rs = pre @ (env, r) # post \<and> sc_route cf r = EPtyToken (tk_pty e) \<and> request_dir cf r = dir \<and>
        fst (serve cf env r (served cf pre)) = HttpTicket token 60 \<and> tk_expires e = he_now2 env + ticketTTL \<and>
        (\<forall>pre' er post'. post = pre' @ er # post' \<longrightarrow> \<not> attaches cf dir token er (served cf (pre @ (env, r) # pre'))))"

lemma issued_by_snoc:
  assumes "issued_by cf rs dir token e" "\<not> attaches cf dir token er (served cf rs)"
  shows "issued_by cf (rs @ [er]) dir token e"
proof -
  from assms(1) obtain pre env r post where i: "rs = pre @ (env, r) # post" "sc_route cf r = EPtyToken (tk_pty e)"
    "request_dir cf r = dir" "fst (serve cf env r (served cf pre)) = HttpTicket token 60"
    "tk_expires e = he_now2 env + ticketTTL"
    "\<forall>pre' er post'. post = pre' @ er # post' \<longrightarrow> \<not> attaches cf dir token er (served cf (pre @ (env, r) # pre'))"
    unfolding issued_by_def by blast
  have "\<not> attaches cf dir token er' (served cf (pre @ (env, r) # pre'))"
    if "post @ [er] = pre' @ er' # post'" for pre' er' post'
  proof (cases post' rule: rev_cases)
    case Nil
    with that have "post = pre'" "er' = er" by simp_all
    then show ?thesis using assms(2) i(1) by simp
  next
    case (snoc zs z)
    with that have "post = pre' @ er' # zs" by simp
    then show ?thesis using i(6) by blast
  qed
  then show ?thesis unfolding issued_by_def
    using i by (intro exI [of _ pre] exI [of _ env] exI [of _ r] exI [of _ "post @ [er]"]) simp
qed

lemma IssueTicket_tickets:
  assumes "gm_wf ts" "IssueTicket raw t0 t1 pid ts = (Inr token, ts')" "gm_get ts' k = Some e"
  shows "gm_get ts k = Some e \<or> k = token \<and> e = \<lparr>tk_pty = pid, tk_expires = t1 + ticketTTL\<rparr>"
  using assms by (auto simp: IssueTicket_def Let_def purge_get split: sum.splits option.splits if_splits)

lemma ptyConnect_tickets:
  assumes "ptyConnect env r pid m = (reply, m')"
  shows "pm_tickets m' = pm_tickets m \<or>
    pm_tickets m' = snd (ConsumeTicket (query_get (rq_query r) ''ticket'') pid (he_now env) (pm_tickets m))"
  using assms
  by (auto simp: ptyConnect_def pty_Connect_def Let_def split: option.splits if_splits prod.splits)

lemma pty_tickets_frame [frame]:
  "pm_tickets (snd (ptyList env m)) = pm_tickets m" "pm_tickets (snd (ptyCreate env r m)) = pm_tickets m"
  "pm_tickets (snd (ptyGet pid m)) = pm_tickets m" "pm_tickets (snd (ptyUpdate env r pid m)) = pm_tickets m"
  "pm_tickets (snd (ptyRemove pid m)) = pm_tickets m"
proof -
  have "pm_tickets (snd (pty_Create os pid inp m)) = pm_tickets m" for os pid inp
    by (simp add: pty_Create_def Let_def split: sum.split)
  then show "pm_tickets (snd (ptyCreate env r m)) = pm_tickets m"
    unfolding ptyCreate_def case_prod_beta by (simp split: sum.split)
  have "pm_tickets (snd (pty_Update pid inp m)) = pm_tickets m" for inp
    by (simp add: pty_Update_def Let_def split: option.split)
  then show "pm_tickets (snd (ptyUpdate env r pid m)) = pm_tickets m"
    unfolding ptyUpdate_def case_prod_beta by (simp split: option.split)
  show "pm_tickets (snd (ptyRemove pid m)) = pm_tickets m"
    by (simp add: ptyRemove_def pty_Remove_def split: option.split)
qed (simp_all add: ptyList_def ptyGet_def)

lemma handler_frame [frame]:
  "ic_pty (snd (permissionReply env rid reply c)) = ic_pty c" "ic_pty (snd (questionReply rid answers c)) = ic_pty c"
  "ic_pty (snd (questionReject rid c)) = ic_pty c"
  by (auto simp: permissionReply_def questionReply_def questionReject_def split: sum.splits prod.splits)

lemma on_pty_snd [simp]: "ic_pty (snd (on_pty f c)) = snd (f (ic_pty c))" "fst (on_pty f c) = fst (f (ic_pty c))"
  by (simp_all add: on_pty_def split: prod.split)

lemma ConsumeTicket_snd: "snd (ConsumeTicket token pid now ts) = ts \<or> snd (ConsumeTicket token pid now ts) = gm_del token ts"
  by (auto simp: ConsumeTicket_def split: option.split)

lemma connect_wf: "gm_wf (pm_tickets m) \<Longrightarrow> gm_wf (pm_tickets (snd (ptyConnect env r pid m)))"
  using ptyConnect_tickets [of env r pid m "fst (ptyConnect env r pid m)" "snd (ptyConnect env r pid m)"]
    ConsumeTicket_snd [of "query_get (rq_query r) ''ticket''" pid "he_now env" "pm_tickets m"]
  by (metis gm_wf_del prod.collapse)

lemma connect_old:
  "gm_get (pm_tickets (snd (ptyConnect env r pid m))) token = Some e \<Longrightarrow> gm_get (pm_tickets m) token = Some e"
  using ptyConnect_tickets [of env r pid m "fst (ptyConnect env r pid m)" "snd (ptyConnect env r pid m)"]
    ConsumeTicket_snd [of "query_get (rq_query r) ''ticket''" pid "he_now env" "pm_tickets m"]
  by (auto split: if_splits)

lemma handle_tickets:
  assumes "gm_wf (pm_tickets (ic_pty c))"
  shows "gm_wf (pm_tickets (ic_pty (snd (handle_endpoint env r ep c))))"
    and "gm_get (pm_tickets (ic_pty (snd (handle_endpoint env r ep c)))) token = Some e \<Longrightarrow>
      gm_get (pm_tickets (ic_pty c)) token = Some e \<or>
      ep = EPtyToken (tk_pty e) \<and> fst (handle_endpoint env r ep c) = HttpTicket token 60 \<and>
      tk_expires e = he_now2 env + ticketTTL"
proof -
  have token: "gm_wf (pm_tickets (snd (ptyConnectToken env pid m))) \<and>
      (gm_get (pm_tickets (snd (ptyConnectToken env pid m))) token = Some e \<longrightarrow>
       gm_get (pm_tickets m) token = Some e \<or>
       pid = tk_pty e \<and> fst (ptyConnectToken env pid m) = HttpTicket token 60 \<and> tk_expires e = he_now2 env + ticketTTL)"
    if wf: "gm_wf (pm_tickets m)" for pid m
  proof (cases "IssueTicket (he_rand env) (he_now env) (he_now2 env) pid (pm_tickets m)")
    case (Pair res ts)
    have "gm_wf ts"
      using tickets_wf_step [OF wf, of "TIssue (he_rand env) (he_now env) (he_now2 env) pid"] Pair by simp
    show ?thesis
    proof (cases "pty_Get pid m = None \<or> (\<exists>err. res = Inl err)")
      case True
      then have "snd (ptyConnectToken env pid m) = m" using Pair by (auto simp: ptyConnectToken_def)
      then show ?thesis using wf by simp
    next
      case False
      then obtain tok where tok: "res = Inr tok" by (cases res) auto
      then have t: "ptyConnectToken env pid m = (HttpTicket tok 60, m\<lparr>pm_tickets := ts\<rparr>)"
        using False Pair by (simp add: ptyConnectToken_def)
      from IssueTicket_tickets [OF wf Pair [unfolded tok], of token e] show ?thesis
        using \<open>gm_wf ts\<close> by (auto simp: t)
    qed
  qed
  show "gm_wf (pm_tickets (ic_pty (snd (handle_endpoint env r ep c))))"
    using assms token by (cases ep) (simp_all only: handle_endpoint.simps on_pty_snd snd_conv fst_conv handler_frame pty_tickets_frame connect_wf)
  show "gm_get (pm_tickets (ic_pty (snd (handle_endpoint env r ep c)))) token = Some e \<Longrightarrow>
      gm_get (pm_tickets (ic_pty c)) token = Some e \<or>
      ep = EPtyToken (tk_pty e) \<and> fst (handle_endpoint env r ep c) = HttpTicket token 60 \<and>
      tk_expires e = he_now2 env + ticketTTL"
  proof -
    assume g: "gm_get (pm_tickets (ic_pty (snd (handle_endpoint env r ep c)))) token = Some e"
    consider pid where "ep = EPtyToken pid" | pid where "ep = EPtyConnect pid" |
      "pm_tickets (ic_pty (snd (handle_endpoint env r ep c))) = pm_tickets (ic_pty c)"
      by (cases ep) (simp_all only: handle_endpoint.simps on_pty_snd snd_conv handler_frame pty_tickets_frame endpoint.inject)
    then show ?thesis
    proof cases
      case 1
      then show ?thesis using token [OF assms, of pid] g by simp
    next
      case 2
      then show ?thesis using connect_old [of env r pid "ic_pty c" token e] g by simp
    qed (use g in simp)
  qed
qed

lemma Ticket_not_connect: "fst (on_instance dir (on_pty (ptyConnect env r pid)) sv) \<noteq> HttpTicket token n"
proof -
  obtain x sv' where x: "on_instance dir (on_pty (ptyConnect env r pid)) sv = (x, sv')" by fastforce
  from on_instance_result [OF x] obtain c' where "on_pty (ptyConnect env r pid) (instance_of dir sv) = (x, c')" by blast
  then have "x = fst (ptyConnect env r pid (ic_pty (instance_of dir sv)))" by (metis fst_conv on_pty_snd(2))
  then show ?thesis using x
    by (auto simp: ptyConnect_def Let_def split: if_splits prod.splits option.splits)
qed

lemma ticket_request_presents:
  assumes "Required (sc_auth cf)" "rq_rawpath r = []" "connect_routed cf" "fst (serve cf env r sv) = HttpTicket token n"
  shows "presents (sc_auth cf) r"
proof (rule ccontr)
  assume "\<not> presents (sc_auth cf) r"
  from serve_unauthenticated [OF assms(1) this assms(2,3), of env sv] assms(4) Ticket_not_connect
  show False by (metis fst_conv http_reply.distinct(9) http_reply.distinct(95) http_reply.simps)
qed

text \<open>What serving a request does to the tickets of a directory.\<close>

lemma serve_cases:
  "snd (serve cf env r sv) = sv \<or>
    serve cf env r sv = on_instance (request_dir cf r) (handle_endpoint env r (sc_route cf r)) sv"
  by (auto simp: serve_def Middleware_def dispatch_def request_dir_def split: prod.splits option.splits if_splits)

lemma serve_tickets:
  assumes "\<forall>d. gm_wf (tickets_in d sv)"
  shows "gm_wf (tickets_in d (snd (serve cf env r sv)))"
    and "gm_get (tickets_in d (snd (serve cf env r sv))) token = Some e \<Longrightarrow>
      gm_get (tickets_in d sv) token = Some e \<or>
      d = request_dir cf r \<and> sc_route cf r = EPtyToken (tk_pty e) \<and> fst (serve cf env r sv) = HttpTicket token 60 \<and>
      tk_expires e = he_now2 env + ticketTTL"
proof -
  have "gm_wf (tickets_in d (snd (serve cf env r sv))) \<and>
    (gm_get (tickets_in d (snd (serve cf env r sv))) token = Some e \<longrightarrow>
      gm_get (tickets_in d sv) token = Some e \<or>
      d = request_dir cf r \<and> sc_route cf r = EPtyToken (tk_pty e) \<and> fst (serve cf env r sv) = HttpTicket token 60 \<and>
      tk_expires e = he_now2 env + ticketTTL)"
  proof (cases "snd (serve cf env r sv) = sv")
    case False
    then have s: "serve cf env r sv = on_instance (request_dir cf r) (handle_endpoint env r (sc_route cf r)) sv"
      using serve_cases by blast
    obtain x sv' where x: "on_instance (request_dir cf r) (handle_endpoint env r (sc_route cf r)) sv = (x, sv')" by fastforce
    from on_instance_result [OF x] obtain c' where c':
      "handle_endpoint env r (sc_route cf r) (instance_of (request_dir cf r) sv) = (x, c')"
      "\<And>d. instance_of d sv' = (if d = request_dir cf r then c' else instance_of d sv)" by blast
    have wf: "gm_wf (pm_tickets (ic_pty (instance_of (request_dir cf r) sv)))" using assms by (simp add: tickets_in_def)
    show ?thesis
    proof (cases "d = request_dir cf r")
      case True
      then show ?thesis
        using handle_tickets [OF wf, of env r "sc_route cf r"] c' s x by (simp add: tickets_in_def)
    next
      case False
      then show ?thesis using assms c'(2) s x by (simp add: tickets_in_def)
    qed
  qed (use assms in simp)
  then show "gm_wf (tickets_in d (snd (serve cf env r sv)))"
    and "gm_get (tickets_in d (snd (serve cf env r sv))) token = Some e \<Longrightarrow>
      gm_get (tickets_in d sv) token = Some e \<or>
      d = request_dir cf r \<and> sc_route cf r = EPtyToken (tk_pty e) \<and> fst (serve cf env r sv) = HttpTicket token 60 \<and>
      tk_expires e = he_now2 env + ticketTTL" by blast+
qed

lemma attach_is_connect:
  assumes "fst (serve cf env r sv) = HttpAttached frames key"
  obtains pid where "serve cf env r sv = on_instance (request_dir cf r) (on_pty (ptyConnect env r pid)) sv"
    "sc_route cf r = EPtyConnect pid"
proof -
  have early: "early_reply env r ep \<noteq> Some (HttpAttached frames key)" for ep
    by (cases ep) (simp_all add: ptyShells_def)
  have other: "\<exists>pid. ep = EPtyConnect pid" if "fst (handle_endpoint env r ep c) = HttpAttached frames key" for ep c
  proof (cases ep)
    case (EPtyUpdate pid)
    then show ?thesis using that by (auto simp: ptyUpdate_def split: prod.splits option.splits)
  next
    case (EPtyRemove pid)
    then show ?thesis using that by (auto simp: ptyRemove_def split: prod.splits bool.splits)
  next
    case (EPtyToken pid)
    then show ?thesis using that by (auto simp: ptyConnectToken_def split: prod.splits sum.splits if_splits)
  next
    case (EPermissionReply rid)
    then show ?thesis using that by (auto simp: permissionReply_def split: prod.splits sum.splits)
  next
    case (EQuestionReply rid)
    then show ?thesis using that by (auto simp: questionReply_def split: prod.splits sum.splits)
  next
    case (EQuestionReject rid)
    then show ?thesis using that by (auto simp: questionReject_def split: prod.splits sum.splits)
  next
    case EPtyCreate
    then show ?thesis using that by (auto simp: ptyCreate_def split: prod.splits sum.splits)
  qed (use that in \<open>auto simp: ptyList_def ptyGet_def ptyShells_def split: option.splits\<close>)
  have d: "serve cf env r sv = dispatch env r (request_dir cf r) (sc_route cf r) sv"
    using assms by (auto simp: serve_def Middleware_def request_dir_def split: prod.splits if_splits)
  then have s: "serve cf env r sv = on_instance (request_dir cf r) (handle_endpoint env r (sc_route cf r)) sv"
    using assms early by (auto simp: dispatch_def split: option.splits)
  obtain x sv' where x: "on_instance (request_dir cf r) (handle_endpoint env r (sc_route cf r)) sv = (x, sv')" by fastforce
  from on_instance_result [OF x] obtain c' where
    "handle_endpoint env r (sc_route cf r) (instance_of (request_dir cf r) sv) = (x, c')" by blast
  then obtain pid where pid: "sc_route cf r = EPtyConnect pid"
    using other [of "sc_route cf r" "instance_of (request_dir cf r) sv"] assms s x by auto
  have "handle_endpoint env r (EPtyConnect pid) = on_pty (ptyConnect env r pid)" by (rule ext) simp
  then show ?thesis using that s pid by simp
qed

lemma attach_burns:
  assumes "fst (serve cf env r sv) = HttpAttached frames key" "query_get (rq_query r) ''ticket'' \<noteq> []"
    "dir = request_dir cf r" "token = query_get (rq_query r) ''ticket''"
  obtains pid e where "sc_route cf r = EPtyConnect pid" "gm_get (tickets_in dir sv) token = Some e"
    "tk_pty e = pid" "he_now env < tk_expires e" "gm_get (tickets_in dir (snd (serve cf env r sv))) token = None"
proof -
  from attach_is_connect [OF assms(1)] obtain pid where
    s: "serve cf env r sv = on_instance dir (on_pty (ptyConnect env r pid)) sv" and ep: "sc_route cf r = EPtyConnect pid"
    using assms(3) by blast
  obtain x sv' where x: "on_instance dir (on_pty (ptyConnect env r pid)) sv = (x, sv')" by fastforce
  from on_instance_result [OF x] obtain c' where
    c': "on_pty (ptyConnect env r pid) (instance_of dir sv) = (x, c')"
      "\<And>d. instance_of d sv' = (if d = dir then c' else instance_of d sv)" by blast
  from c'(1) obtain m' where m': "ptyConnect env r pid (ic_pty (instance_of dir sv)) = (x, m')"
    and k: "c' = (instance_of dir sv)\<lparr>ic_pty := m'\<rparr>"
    by (auto simp: on_pty_def split: prod.splits)
  from ptyConnect_ticket [OF m' assms(2)] s x assms(1,4) obtain e where
    "gm_get (tickets_in dir sv) token = Some e" "tk_pty e = pid" "he_now env < tk_expires e"
    "pm_tickets m' = gm_del token (tickets_in dir sv)" by (auto simp: tickets_in_def)
  then show ?thesis using that [OF ep] s x c'(2) k by (simp add: tickets_in_def)
qed

lemma tickets_issued:
  "(\<forall>d. gm_wf (tickets_in d (served cf rs))) \<and>
   (\<forall>d token e. token \<noteq> [] \<longrightarrow> gm_get (tickets_in d (served cf rs)) token = Some e \<longrightarrow> issued_by cf rs d token e)"
proof (induction rs rule: rev_induct)
  case Nil
  then show ?case by (simp add: served_def tickets_in_def instance_of_def inst_Get_def new_instance_def NewPtyManager_def)
next
  case (snoc er rs)
  obtain env r where er: "er = (env, r)" by fastforce
  let ?sv = "served cf rs"
  have wf: "\<forall>d. gm_wf (tickets_in d ?sv)" using snoc by blast
  have "issued_by cf (rs @ [er]) d token e"
    if t: "token \<noteq> []" and g: "gm_get (tickets_in d (served cf (rs @ [er]))) token = Some e" for d token e
  proof -
    from serve_tickets(2) [OF wf, of d cf env r token e] g er
    consider "gm_get (tickets_in d ?sv) token = Some e" |
      "d = request_dir cf r" "sc_route cf r = EPtyToken (tk_pty e)" "fst (serve cf env r ?sv) = HttpTicket token 60"
      "tk_expires e = he_now2 env + ticketTTL" by (auto simp: served_snoc)
    then show ?thesis
    proof cases
      case 1
      then have "issued_by cf rs d token e" using snoc t by blast
      moreover have "\<not> attaches cf d token er ?sv"
      proof
        assume "attaches cf d token er ?sv"
        then obtain frames key where "fst (serve cf env r ?sv) = HttpAttached frames key" "d = request_dir cf r"
          "token = query_get (rq_query r) ''ticket''" by (auto simp: attaches_def er)
        from attach_burns [OF this(1) _ this(2,3)] t this(3) have "gm_get (tickets_in d (snd (serve cf env r ?sv))) token = None"
          by metis
        then show False using g by (simp add: er served_snoc)
      qed
      ultimately show ?thesis by (rule issued_by_snoc)
    next
      case 2
      then show ?thesis unfolding issued_by_def er
        by (intro exI [of _ rs] exI [of _ env] exI [of _ r] exI [of _ "[]"]) simp
    qed
  qed
  then show ?case using serve_tickets(1) [OF wf] by (simp add: er served_snoc)
qed


subsection \<open>An example run\<close>

definition demo_server :: server_config where
  "demo_server =
     \<lparr>sc_auth = \<lparr>au_username = ''opencode'', au_password = ''pw''\<rparr>, sc_cwd = ''/w'', sc_resolve = (\<lambda>d. d),
      sc_route = (\<lambda>r. case ptyConnectPath (rq_path r) of
                     Some pid \<Rightarrow> EPtyConnect pid
                   | None \<Rightarrow> if rq_path r = ''/pty'' then EPtyCreate
                             else if rq_path r = ''/pty/pty_1/connect-token'' then EPtyToken ''pty_1'' else EOther)\<rparr>"

definition demo_henv :: handler_env where
  "demo_henv =
     \<lparr>he_os = \<lparr>po_environ = [], po_shell = ''/bin/sh'', po_darwin = False, po_start = (\<lambda>c a d e. Inr 7)\<rparr>,
      he_ord = (\<lambda>ks. ks), he_ptyID = ''pty_1'', he_rand = Inr ''ab'', he_now = 10, he_now2 = 20, he_exists = (\<lambda>p. True),
      he_create = (\<lambda>r. \<lparr>pc_command = ''/bin/sh'', pc_args = [], pc_cwd = [], pc_title = ''t'', pc_env = []\<rparr>),
      he_update = (\<lambda>r. \<lparr>pu_title = [], pu_size = None\<rparr>), he_accept = True\<rparr>"

definition with_password :: "string \<Rightarrow> http_request" where
  "with_password path =
     \<lparr>rq_method = ''POST'', rq_path = path, rq_rawpath = [], rq_query = [],
      rq_header = (\<lambda>h. if h = ''Authorization'' then ''Basic b3BlbmNvZGU6cHc=''
                       else if h = ''X-Opencode-Ticket'' then ''1'' else []), rq_body = None\<rparr>"

definition with_ticket :: http_request where
  "with_ticket =
     \<lparr>rq_method = ''GET'', rq_path = ''/pty/pty_1/connect'', rq_rawpath = [], rq_query = ''ticket=6162&cursor=-1'',
      rq_header = (\<lambda>h. []), rq_body = None\<rparr>"

definition demo_run :: "(handler_env \<times> http_request) list" where
  "demo_run = [(demo_henv, with_password ''/pty''), (demo_henv, with_password ''/pty/pty_1/connect-token'')]"

definition attached_reply :: "http_reply \<Rightarrow> (pty_frame list \<times> nat) option" where
  "attached_reply x = (case x of HttpAttached frames key \<Rightarrow> Some (frames, key) | _ \<Rightarrow> None)"

lemma demo_routed: "connect_routed demo_server"
  by (auto simp: connect_routed_def demo_server_def)

lemma demo_required: "Required (sc_auth demo_server)" "\<not> presents (sc_auth demo_server) with_ticket"
  by code_simp+

lemma demo_attaches: "attached_reply (fst (serve demo_server demo_henv with_ticket (served demo_server demo_run))) \<noteq> None"
  by code_simp



text \<open>
  The middleware looks at the decoded path, the router at the raw one when there is one: a request for
  \<^verbatim>\<open>/pty/x%2Fconnect\<close> is taken for a terminal connection and reaches whatever handler the router picks.
\<close>

lemma escaped_path_unchallenged:
  assumes "ptyConnectPath (rq_path r) = Some pid" "query_get (rq_query r) ''ticket'' \<noteq> []"
  shows "serve cf env r sv = dispatch env r (request_dir cf r) (sc_route cf r) sv"
  using assms by (simp add: serve_def Middleware_def hasPtyConnectTicket_def request_dir_def)

end
