(* ===== verification/Push.thy ===== *)
theory Push
  imports EventBus Permission Questions
begin

text \<open>
  Push notifications (\<^verbatim>\<open>internal/push\<close>): which events become a notification, the registered devices, the
  rate limit, and the loop that suppresses pushes while a client is connected. Sending to the push
  service is a function of the environment. The lemmas describe exactly when a device is notified.
\<close>

subsection \<open>Notifications\<close>

text \<open>
  The properties of an event are any Go value: a map, or a struct, which the relay cannot read.
\<close>

datatype go_props = PropsMap jmap | PropsStruct

record push_event =
  pe_type :: string
  pe_props :: go_props

record notification =
  no_title :: string
  no_body :: string
  no_session :: string
  no_event :: string

definition maxBody :: nat where
  "maxBody = 240"

definition asMap :: "go_props \<Rightarrow> jmap option" where
  "asMap p = (case p of PropsMap m \<Rightarrow> Some m | PropsStruct \<Rightarrow> None)"

definition stringField :: "jmap option \<Rightarrow> string \<Rightarrow> string" where
  "stringField m key =
     (case m of None \<Rightarrow> [] | Some kvs \<Rightarrow> (case gm_get kvs key of Some (JStr s) \<Rightarrow> s | _ \<Rightarrow> []))"

definition truncate_body :: "string \<Rightarrow> string" where
  "truncate_body s =
     (let s = trim_space s
      in if length s \<le> maxBody then s else trim_space (take maxBody s) @ [CHR 0xE2, CHR 0x80, CHR 0xA6])"

definition FromEvent :: "push_event \<Rightarrow> notification option" where
  "FromEvent e =
     (let props = asMap (pe_props e)
      in if pe_type e = ''session.idle'' then
           Some \<lparr>no_title = ''Agent finished'', no_body = ''Your agent finished its task.'',
                 no_session = stringField props ''sessionID'', no_event = pe_type e\<rparr>
         else if pe_type e = ''permission.asked'' then
           (let tool = stringField props ''tool'';
                body = (if tool \<noteq> [] then ''The agent wants to run '' @ tool @ ''.''
                        else ''The agent needs your approval to continue.'')
            in Some \<lparr>no_title = ''Permission needed'', no_body = truncate_body body,
                     no_session = stringField props ''sessionID'', no_event = pe_type e\<rparr>)
         else if pe_type e = ''question.asked'' then
           (let body = stringField props ''text'';
                body = (if body = [] then stringField props ''question'' else body);
                body = (if body = [] then ''The agent has a question for you.'' else body)
            in Some \<lparr>no_title = ''Agent has a question'', no_body = truncate_body body,
                     no_session = stringField props ''sessionID'', no_event = pe_type e\<rparr>)
         else None)"

definition notification_data :: "notification \<Rightarrow> (string, string) gomap" where
  "notification_data n = [(''event_type'', no_event n), (''session_id'', no_session n)]"

subsection \<open>Devices\<close>

record device =
  dv_id :: string
  dv_token :: string
  dv_platform :: string
  dv_filter :: "string list"
  dv_registered :: int
  dv_refreshed :: int

definition wants :: "device \<Rightarrow> string \<Rightarrow> bool" where
  "wants d sessionID =
     (dv_filter d = [] \<or> list_ex (\<lambda>f. f = ''all'' \<or> f = sessionID) (dv_filter d))"

text \<open>The table in insertion order, its key the device; \<open>now\<close> is the clock in milliseconds.\<close>

definition Register :: "int \<Rightarrow> device \<Rightarrow> device list \<Rightarrow> device list" where
  "Register now d rows =
     (let d = (if dv_platform d = [] then d\<lparr>dv_platform := ''android''\<rparr> else d);
          d = (if dv_filter d = [] then d\<lparr>dv_filter := [''all'']\<rparr> else d)
      in if list_ex (\<lambda>r. dv_id r = dv_id d) rows
         then map (\<lambda>r. if dv_id r = dv_id d
                        then r\<lparr>dv_token := dv_token d, dv_platform := dv_platform d, dv_filter := dv_filter d,
                               dv_refreshed := now\<rparr> else r) rows
         else rows @ [d\<lparr>dv_registered := now, dv_refreshed := now\<rparr>])"

definition Unregister :: "string \<Rightarrow> device list \<Rightarrow> bool \<times> device list" where
  "Unregister deviceID rows =
     (list_ex (\<lambda>r. dv_id r = deviceID) rows, filter (\<lambda>r. dv_id r \<noteq> deviceID) rows)"

definition removeByToken :: "string \<Rightarrow> device list \<Rightarrow> device list" where
  "removeByToken token rows = filter (\<lambda>r. dv_token r \<noteq> token) rows"

definition devices_List :: "device list \<Rightarrow> device list" where
  "devices_List rows = sort_key dv_registered rows"

definition targets :: "string \<Rightarrow> device list \<Rightarrow> device list" where
  "targets sessionID rows = filter (\<lambda>d. wants d sessionID) (devices_List rows)"

subsection \<open>The relay\<close>

text \<open>Times in nanoseconds.\<close>

definition rateWindow :: int where
  "rateWindow = 60 * 1000000000"

definition clientGrace :: int where
  "clientGrace = 5 * 1000000000"

type_synonym rates = "(string, int) gomap"

definition rate_key :: "string \<Rightarrow> string \<Rightarrow> string" where
  "rate_key deviceID sessionID = deviceID @ ''|'' @ sessionID"

definition allow :: "int \<Rightarrow> string \<Rightarrow> string \<Rightarrow> rates \<Rightarrow> bool \<times> rates" where
  "allow now deviceID sessionID rate =
     (let key = rate_key deviceID sessionID;
          rate = filter (\<lambda>(k, sent_at). \<not> now - sent_at \<ge> rateWindow) rate
      in case gm_get rate key of
           Some sent_at \<Rightarrow> if now - sent_at < rateWindow then (False, rate) else (True, gm_put key now rate)
         | None \<Rightarrow> (True, gm_put key now rate))"

datatype send_result = Sent | Unregistered | Failed

text \<open>
  Dispatches run concurrently; what they share is the rate map, behind its lock, and the table. One
  step is the turn of one device: the clock read for it and the service's answer are its inputs.
\<close>

record relay_state =
  rl_rate :: rates
  rl_rows :: "device list"
  rl_sends :: "(int \<times> device \<times> notification) list"

definition dispatch_one :: "notification \<Rightarrow> int \<times> send_result \<Rightarrow> device \<Rightarrow> relay_state \<Rightarrow> relay_state" where
  "dispatch_one n ans d st =
     (case allow (fst ans) (dv_id d) (no_session n) (rl_rate st) of
        (False, rate) \<Rightarrow> st\<lparr>rl_rate := rate\<rparr>
      | (True, rate) \<Rightarrow>
          (let st = st\<lparr>rl_rate := rate, rl_sends := rl_sends st @ [(fst ans, d, n)]\<rparr>
           in if snd ans = Unregistered then st\<lparr>rl_rows := removeByToken (dv_token d) (rl_rows st)\<rparr> else st))"

definition dispatch_all :: "(device \<Rightarrow> int \<times> send_result) \<Rightarrow> notification \<Rightarrow> relay_state \<Rightarrow> relay_state" where
  "dispatch_all ans n st = fold (\<lambda>d. dispatch_one n (ans d) d) (targets (no_session n) (rl_rows st)) st"

text \<open>
  The loop over the bus. A received event comes with the client count and the clock readings taken for
  it; the result is the notification it dispatches, if any.
\<close>

record watch_state =
  rn_lastDisconnect :: "int option"
  rn_clientsSeen :: bool

definition run_init :: watch_state where
  "run_init = \<lparr>rn_lastDisconnect = None, rn_clientsSeen = False\<rparr>"

record bus_reading =
  br_event :: push_event
  br_clients :: int
  br_now :: int
  br_now2 :: int

definition run_step :: "bus_reading \<Rightarrow> watch_state \<Rightarrow> notification option \<times> watch_state" where
  "run_step b s =
     (let s = (if br_clients b > 0 then \<lparr>rn_lastDisconnect = None, rn_clientsSeen = True\<rparr>
               else if rn_clientsSeen s \<and> rn_lastDisconnect s = None then s\<lparr>rn_lastDisconnect := Some (br_now b)\<rparr>
               else s)
      in case FromEvent (br_event b) of
           None \<Rightarrow> (None, s)
         | Some n \<Rightarrow>
             if br_clients b > 0 then (None, s)
             else (case rn_lastDisconnect s of
                     Some t \<Rightarrow> if br_now2 b - t < clientGrace then (None, s) else (Some n, s)
                   | None \<Rightarrow> (Some n, s)))"

fun run_loop :: "bus_reading list \<Rightarrow> watch_state \<Rightarrow> notification list \<times> watch_state" where
  "run_loop [] s = ([], s)"
| "run_loop (b # bs) s =
     (case run_step b s of (n, s1) \<Rightarrow>
        (case run_loop bs s1 of (ns, s2) \<Rightarrow> ((case n of Some x \<Rightarrow> x # ns | None \<Rightarrow> ns), s2)))"

subsection \<open>At most one push a minute\<close>

type_synonym turn = "notification \<times> (int \<times> send_result) \<times> device"

definition turn_time :: "turn \<Rightarrow> int" where
  "turn_time t = fst (fst (snd t))"

text \<open>The turns of all dispatches, interleaved in any way, from a relay that has sent nothing.\<close>

definition relay_run :: "turn list \<Rightarrow> device list \<Rightarrow> relay_state" where
  "relay_run ts rows =
     fold (\<lambda>(n, ans, d). dispatch_one n ans d) ts \<lparr>rl_rate = [], rl_rows = rows, rl_sends = []\<rparr>"

lemma relay_run_simps [simp]:
  "relay_run [] rows = \<lparr>rl_rate = [], rl_rows = rows, rl_sends = []\<rparr>"
  "relay_run (ts @ [(n, ans, d)]) rows = dispatch_one n ans d (relay_run ts rows)"
  by (simp_all add: relay_run_def)

text \<open>A push for this device and session less than the window ago.\<close>

definition sent_lately :: "int \<Rightarrow> device \<Rightarrow> notification \<Rightarrow> (int \<times> device \<times> notification) list \<Rightarrow> bool" where
  "sent_lately now d n sends =
     list_ex (\<lambda>(t, d', n'). rate_key (dv_id d') (no_session n') = rate_key (dv_id d) (no_session n) \<and> now - t < rateWindow) sends"

definition rate_inv :: "int \<Rightarrow> relay_state \<Rightarrow> bool" where
  "rate_inv T st =
     (gm_wf (rl_rate st) \<and>
      (\<forall>k t. gm_get (rl_rate st) k = Some t \<longrightarrow>
         (\<exists>d n. (t, d, n) \<in> set (rl_sends st) \<and> rate_key (dv_id d) (no_session n) = k)) \<and>
      (\<forall>(t, d, n) \<in> set (rl_sends st). t \<le> T \<and> (T - t < rateWindow \<longrightarrow>
         (\<exists>t'. t \<le> t' \<and> gm_get (rl_rate st) (rate_key (dv_id d) (no_session n)) = Some t'))))"

lemma kept_rates_wf: "gm_wf rate \<Longrightarrow> gm_wf (filter (\<lambda>(k, t). \<not> now - t \<ge> rateWindow) rate)"
  by (simp add: gm_wf_def distinct_map_filter)

lemma kept_rates_get:
  "gm_wf rate \<Longrightarrow> gm_get (filter (\<lambda>(k, t). \<not> now - t \<ge> rateWindow) rate) k =
    (case gm_get rate k of Some t \<Rightarrow> if now - t < rateWindow then Some t else None | None \<Rightarrow> None)"
proof (induction rate)
  case (Cons p rate)
  then have "gm_wf rate" "gm_get rate (fst p) = None" by (simp_all add: gm_wf_def map_of_eq_None_iff)
  then show ?case using Cons.IH by (cases p) (auto simp: not_le split: option.splits)
qed simp

lemmas kept_rates = kept_rates_wf kept_rates_get

lemma allow_cases:
  assumes "gm_wf rate"
  shows "allow now dev sid rate =
    (let kept = filter (\<lambda>(k, t). \<not> now - t \<ge> rateWindow) rate
     in if gm_has kept (rate_key dev sid) then (False, kept) else (True, gm_put (rate_key dev sid) now kept))"
  using kept_rates(2) [OF assms, of now "rate_key dev sid"]
  by (auto simp: allow_def Let_def gm_has_def split: option.splits if_splits)

lemma dispatch_one_turn:
  assumes inv: "rate_inv T st" and T: "T \<le> now"
  shows "rate_inv now (dispatch_one n (now, r) d st)"
    and "rl_sends (dispatch_one n (now, r) d st) =
      rl_sends st @ (if sent_lately now d n (rl_sends st) then [] else [(now, d, n)])"
proof -
  let ?k = "rate_key (dv_id d) (no_session n)"
  let ?kept = "filter (\<lambda>(k, t). \<not> now - t \<ge> rateWindow) (rl_rate st)"
  have wf: "gm_wf (rl_rate st)" using inv by (simp add: rate_inv_def)
  note kept = kept_rates [OF wf, of now]
  have lately: "sent_lately now d n (rl_sends st) \<longleftrightarrow> gm_has ?kept ?k"
  proof
    assume "sent_lately now d n (rl_sends st)"
    then obtain t d' n' where s: "(t, d', n') \<in> set (rl_sends st)" "rate_key (dv_id d') (no_session n') = ?k"
      "now - t < rateWindow" by (auto simp: sent_lately_def list_ex_iff)
    with inv T obtain t' where "t \<le> t'" "gm_get (rl_rate st) ?k = Some t'"
      by (fastforce simp: rate_inv_def)
    then show "gm_has ?kept ?k" using s(3) by (simp add: gm_has_def kept(2))
  next
    assume "gm_has ?kept ?k"
    then obtain t where "gm_get (rl_rate st) ?k = Some t" "now - t < rateWindow"
      by (auto simp: gm_has_def kept(2) split: option.splits if_splits)
    then show "sent_lately now d n (rl_sends st)"
      using inv by (fastforce simp: rate_inv_def sent_lately_def list_ex_iff)
  qed
  have step: "rl_sends (dispatch_one n (now, r) d st) = rl_sends st @ (if gm_has ?kept ?k then [] else [(now, d, n)]) \<and>
    rl_rate (dispatch_one n (now, r) d st) = (if gm_has ?kept ?k then ?kept else gm_put ?k now ?kept)"
    by (simp add: dispatch_one_def allow_cases [OF wf] Let_def)
  then show "rl_sends (dispatch_one n (now, r) d st) =
      rl_sends st @ (if sent_lately now d n (rl_sends st) then [] else [(now, d, n)])"
    using lately by simp
  have old: "\<exists>t'. t \<le> t' \<and> gm_get ?kept (rate_key (dv_id d') (no_session n')) = Some t'"
    if "(t, d', n') \<in> set (rl_sends st)" "now - t < rateWindow" for t d' n'
  proof -
    from that inv T obtain t' where "t \<le> t'" "gm_get (rl_rate st) (rate_key (dv_id d') (no_session n')) = Some t'"
      by (fastforce simp: rate_inv_def)
    then show ?thesis using that(2) by (simp add: kept(2))
  qed
  have past: "\<exists>d n. (t, d, n) \<in> set (rl_sends st) \<and> rate_key (dv_id d) (no_session n) = k" if "gm_get ?kept k = Some t" for k t
    using that inv by (auto simp: rate_inv_def kept(2) split: option.splits if_splits)
  have le: "t \<le> now" if "(t, d', n') \<in> set (rl_sends st)" for t d' n'
    using that inv T by (fastforce simp: rate_inv_def)
  show "rate_inv now (dispatch_one n (now, r) d st)"
  proof (cases "gm_has ?kept ?k")
    case True
    then have eqs: "rl_sends (dispatch_one n (now, r) d st) = rl_sends st" "rl_rate (dispatch_one n (now, r) d st) = ?kept"
      using step by simp_all
    show ?thesis unfolding rate_inv_def eqs using kept(1) past le old by blast
  next
    case False
    then have eqs: "rl_sends (dispatch_one n (now, r) d st) = rl_sends st @ [(now, d, n)]"
      "rl_rate (dispatch_one n (now, r) d st) = gm_put ?k now ?kept"
      using step by simp_all
    have "\<exists>d' n'. (t, d', n') \<in> set (rl_sends st @ [(now, d, n)]) \<and> rate_key (dv_id d') (no_session n') = k"
      if "gm_get (gm_put ?k now ?kept) k = Some t" for k t
      using that past [of k t] by (cases "k = ?k") auto
    moreover have "\<exists>t'. t \<le> t' \<and> gm_get (gm_put ?k now ?kept) (rate_key (dv_id d') (no_session n')) = Some t'"
      if "(t, d', n') \<in> set (rl_sends st @ [(now, d, n)])" "now - t < rateWindow" for t d' n'
      using that old [of t d' n'] le [of t d' n'] by auto
    moreover have "t \<le> now" if "(t, d', n') \<in> set (rl_sends st @ [(now, d, n)])" for t d' n'
      using that le by auto
    ultimately show ?thesis unfolding rate_inv_def eqs using gm_wf_put [OF kept(1)] by blast
  qed
qed

lemma relay_run_inv:
  "sorted (map turn_time ts) \<Longrightarrow> rate_inv (if ts = [] then 0 else turn_time (last ts)) (relay_run ts rows)"
proof (induction ts rule: rev_induct)
  case (snoc t ts)
  obtain n now r d where t: "t = (n, (now, r), d)" by (cases t) auto
  show ?case
  proof (cases ts rule: rev_cases)
    case Nil
    have "rate_inv now (relay_run [] rows)" by (simp add: rate_inv_def)
    from dispatch_one_turn(1) [OF this order_refl, of n r d] show ?thesis
      by (simp add: Nil t turn_time_def relay_run_def)
  next
    case (snoc us u)
    then have "rate_inv (turn_time u) (relay_run ts rows)" "turn_time u \<le> now"
      using snoc.IH snoc.prems by (simp_all add: sorted_append t turn_time_def)
    from dispatch_one_turn(1) [OF this, of n r d] show ?thesis by (simp add: t turn_time_def)
  qed
qed (simp add: rate_inv_def)


definition demo_device :: device where
  "demo_device = \<lparr>dv_id = ''d1'', dv_token = ''tok'', dv_platform = ''android'', dv_filter = [''ses_1''],
     dv_registered = 0, dv_refreshed = 0\<rparr>"

definition demo_idle :: notification where
  "demo_idle = \<lparr>no_title = ''Agent finished'', no_body = ''b'', no_session = ''ses_1'', no_event = ''session.idle''\<rparr>"


subsection \<open>Pushes that are not sent\<close>

text \<open>What the managers publish: an asked request as a struct, a reply as a map.\<close>

fun permission_push :: "perm_event \<Rightarrow> push_event" where
  "permission_push (PermissionAsked req) = \<lparr>pe_type = ''permission.asked'', pe_props = PropsStruct\<rparr>"
| "permission_push (PermissionReplied sid rid reply) =
     \<lparr>pe_type = ''permission.replied'',
      pe_props = PropsMap [(''sessionID'', JStr sid), (''requestID'', JStr rid), (''reply'', JStr reply)]\<rparr>"

fun question_push :: "q_event \<Rightarrow> push_event" where
  "question_push (QuestionAsked req) = \<lparr>pe_type = ''question.asked'', pe_props = PropsStruct\<rparr>"
| "question_push (QuestionReplied sid qid answers) =
     \<lparr>pe_type = ''question.replied'',
      pe_props = PropsMap [(''sessionID'', JStr sid), (''requestID'', JStr qid),
                           (''answers'', JArr (map (\<lambda>a. JArr (map JStr a)) answers))]\<rparr>"
| "question_push (QuestionRejected sid qid) =
     \<lparr>pe_type = ''question.rejected'', pe_props = PropsMap [(''sessionID'', JStr sid), (''requestID'', JStr qid)]\<rparr>"

lemma stringField_None [simp]: "stringField None k = []"
  by (simp add: stringField_def)

text \<open>
  A device registered for particular sessions is not told that an agent is waiting for it: the requests
  the managers publish are structs, the notification made of one names no session, and no such filter
  matches that, so the device is not among its targets even when it registered for the very session.
\<close>

theorem filtered_device_misses_requests:
  assumes "dv_filter d \<noteq> []" "''all'' \<notin> set (dv_filter d)" "[] \<notin> set (dv_filter d)"
    "e = permission_push (PermissionAsked req) \<or> e = question_push (QuestionAsked qreq)"
  shows "\<exists>n. FromEvent e = Some n \<and> no_session n = [] \<and> d \<notin> set (targets (no_session n) rows)"
proof -
  have "\<not> wants d []" using assms(1-3) by (auto simp: wants_def list_ex_iff)
  then have "d \<notin> set (targets [] rows)" by (simp add: targets_def)
  then show ?thesis using assms(4) by (auto simp: FromEvent_def asMap_def Let_def)
qed

lemma filtered_device_misses_requests_witness:
  "\<exists>n. FromEvent (permission_push (PermissionAsked
      \<lparr>pr_id = ''per_1'', pr_session = ''ses_1'', pr_permission = ''bash'', pr_patterns = [], pr_metadata = [], pr_always = [],
       pr_tool = []\<rparr>)) = Some n \<and> demo_device \<notin> set (targets (no_session n) [demo_device]) \<and>
     wants demo_device ''ses_1''"
proof -
  let ?req = "\<lparr>pr_id = ''per_1'', pr_session = ''ses_1'', pr_permission = ''bash'', pr_patterns = [], pr_metadata = [],
    pr_always = [], pr_tool = []\<rparr>"
  have f: "dv_filter demo_device = [''ses_1'']" by (simp add: demo_device_def)
  from filtered_device_misses_requests [of demo_device "permission_push (PermissionAsked ?req)" ?req _ "[demo_device]"]
  obtain n where "FromEvent (permission_push (PermissionAsked ?req)) = Some n"
    "demo_device \<notin> set (targets (no_session n) [demo_device])" by (auto simp: f)
  then show ?thesis by (auto simp: wants_def f)
qed

text \<open>
  The grace after a disconnect starts at the first event the relay sees after it, not at the disconnect:
  the first event after a client went away is never pushed, however long ago that was.
\<close>

theorem first_event_after_disconnect_dropped:
  assumes "br_clients b > 0" "br_clients b' \<le> 0" "br_now2 b' - br_now b' < clientGrace"
  shows "fst (run_step b' (snd (run_step b s))) = None"
proof -
  have "snd (run_step b s) = \<lparr>rn_lastDisconnect = None, rn_clientsSeen = True\<rparr>"
    using assms(1) by (simp add: run_step_def Let_def split: option.split)
  then show ?thesis using assms(2,3) by (simp add: run_step_def Let_def split: option.split)
qed

lemma first_event_after_disconnect_dropped_witness:
  "fst (run_step \<lparr>br_event = \<lparr>pe_type = ''session.idle'', pe_props = PropsMap []\<rparr>, br_clients = 0,
        br_now = 3600000000000, br_now2 = 3600000000001\<rparr>
      (snd (run_step \<lparr>br_event = \<lparr>pe_type = ''session.status'', pe_props = PropsMap []\<rparr>, br_clients = 1, br_now = 0,
        br_now2 = 0\<rparr> run_init))) = None"
  by (rule first_event_after_disconnect_dropped) (simp_all add: clientGrace_def)

end
