(* ===== verification/Conformance.thy ===== *)
theory Conformance
  imports Config Utf8 "HOL-Library.Countable"
begin

text \<open>
  The conformance harness: how two recorded runs are compared (\<^verbatim>\<open>conformance/cmd/diff/compare.go\<close>,
  \<^verbatim>\<open>conformance/result\<close>) and how volatile fields are removed first (\<^verbatim>\<open>conformance/normalize\<close>). The texts
  that \<^verbatim>\<open>encoding/json\<close> and \<^verbatim>\<open>fmt\<close> produce are fields of an environment. The lemmas say that a comparison
  is clean exactly when the runs agree, and which differences normalization removes.
\<close>

subsection \<open>Differences of JSON values\<close>

record text_env =
  te_unmarshal :: "string \<Rightarrow> json option"
  te_scalar :: "json \<Rightarrow> string"
  te_quote :: "string \<Rightarrow> string"

definition child :: "string \<Rightarrow> string \<Rightarrow> string" where
  "child path key = (if path = [] then key else path @ ''.'' @ key)"

definition at_path :: "string \<Rightarrow> string" where
  "at_path path = (if path = [] then ''(root)'' else path)"

definition typeName :: "json \<Rightarrow> string" where
  "typeName v = (case v of JObj m \<Rightarrow> ''object'' | JArr xs \<Rightarrow> ''array'' | JNull \<Rightarrow> ''null'' | _ \<Rightarrow> ''scalar'')"

definition sortedKeys :: "string list \<Rightarrow> string list" where
  "sortedKeys ks = sort (remdups ks)"

lemma size_map_of: "map_of m k = Some v \<Longrightarrow> size v < size (JObj m)"
proof (induction m)
  case (Cons p m)
  then show ?case by (cases p) (auto split: if_splits)
qed simp

lemma size_zip: "(x, y) \<in> set (zip xs ys) \<Longrightarrow> size x < size (JArr xs)"
proof -
  assume "(x, y) \<in> set (zip xs ys)"
  then have "x \<in> set xs" by (rule set_zip_leftD)
  then have "size x \<le> size_list size xs" by (simp add: size_list_estimation')
  then show ?thesis by simp
qed

function diffJSON :: "text_env \<Rightarrow> string \<Rightarrow> json \<Rightarrow> json \<Rightarrow> string list" where
  "diffJSON te path a b =
     (case a of
        JObj am \<Rightarrow>
          (case b of
             JObj bm \<Rightarrow>
               concat (map (\<lambda>k. case gm_get am k of
                                   Some ae \<Rightarrow>
                                     (case gm_get bm k of
                                        Some be \<Rightarrow> diffJSON te (child path k) ae be
                                      | None \<Rightarrow> [child path k @ '': present != missing''])
                                 | None \<Rightarrow> [child path k @ '': missing != present''])
                         (sortedKeys (map fst am @ map fst bm)))
           | _ \<Rightarrow> [at_path path @ '': object != '' @ typeName b])
      | JArr xs \<Rightarrow>
          (case b of
             JArr ys \<Rightarrow>
               if length xs \<noteq> length ys
               then [at_path path @ '': len '' @ itoa (length xs) @ '' != len '' @ itoa (length ys)]
               else concat (map (\<lambda>(i, x, y). diffJSON te (path @ ''['' @ itoa i @ '']'') x y)
                                (zip [0 ..< length xs] (zip xs ys)))
           | _ \<Rightarrow> [at_path path @ '': array != '' @ typeName b])
      | _ \<Rightarrow>
          if te_scalar te a \<noteq> te_scalar te b
          then [at_path path @ '': '' @ te_scalar te a @ '' != '' @ te_scalar te b] else [])"
  by pat_completeness auto
termination
  by (relation "measure (\<lambda>(te, path, a, b). size a)")
    (auto dest: size_map_of size_zip set_zip_rightD simp del: json.size)

declare diffJSON.simps [simp del]

definition diffJSONStrings :: "text_env \<Rightarrow> string \<Rightarrow> string \<Rightarrow> string list" where
  "diffJSONStrings te expected actual =
     (if expected = actual then []
      else (case (te_unmarshal te expected, te_unmarshal te actual) of
              (Some ev, Some av) \<Rightarrow> sort (diffJSON te [] ev av)
            | _ \<Rightarrow> [te_quote te expected @ '' != '' @ te_quote te actual]))"

subsection \<open>Comparing two runs\<close>

record conf_step =
  st_name :: string
  st_method :: string
  st_path :: string
  st_status :: int
  st_body :: string
  st_sse :: "string list"
  st_eventTypes :: "string list"
  st_headers :: "(string, string) gomap"

record conf_scenario =
  sn_name :: string
  sn_skipped :: bool
  sn_steps :: "conf_step list"

record conf_file =
  cf_target :: string
  cf_scenarios :: "conf_scenario list"

definition ScenarioByName :: "string \<Rightarrow> conf_file \<Rightarrow> conf_scenario option" where
  "ScenarioByName name f = find (\<lambda>s. sn_name s = name) (cf_scenarios f)"

record conf_finding =
  fi_scenario :: string
  fi_step :: string
  fi_expected :: string
  fi_actual :: string
  fi_detail :: string

definition add_finding :: "string \<Rightarrow> string \<Rightarrow> string \<Rightarrow> string \<Rightarrow> string \<Rightarrow> conf_finding list" where
  "add_finding sc st ex ac de =
     [\<lparr>fi_scenario = sc, fi_step = st, fi_expected = ex, fi_actual = ac, fi_detail = de\<rparr>]"

definition stepLabel :: "nat \<Rightarrow> conf_step \<Rightarrow> string" where
  "stepLabel i s =
     (if st_name s \<noteq> [] then ''step '' @ itoa (i + 1) @ '' ('' @ st_name s @ '')''
      else if st_method s \<noteq> [] then ''step '' @ itoa (i + 1) @ '' ('' @ st_method s @ '' '' @ st_path s @ '')''
      else ''step '' @ itoa (i + 1))"

definition compareEventTypes :: "text_env \<Rightarrow> string \<Rightarrow> string \<Rightarrow> string list \<Rightarrow> string list \<Rightarrow> conf_finding list" where
  "compareEventTypes te sc label expd act =
     (if length expd \<noteq> length act
      then add_finding sc label (str_join expd '','') (str_join act '','')
             (''SSE event-type count: '' @ itoa (length expd) @ '' != '' @ itoa (length act))
      else concat (map (\<lambda>(i, e, a). if e \<noteq> a
                          then add_finding sc label e a
                                 (''SSE event-type #'' @ itoa i @ '': '' @ te_quote te e @ '' != '' @ te_quote te a)
                          else []) (zip [0 ..< length expd] (zip expd act))))"

text \<open>The order in which the headers are ranged over is the argument \<open>ord\<close>.\<close>

definition compareHeaders ::
  "text_env \<Rightarrow> (string list \<Rightarrow> string list) \<Rightarrow> string \<Rightarrow> string \<Rightarrow> (string, string) gomap \<Rightarrow>
   (string, string) gomap \<Rightarrow> conf_finding list" where
  "compareHeaders te ord sc label expd act =
     concat (map (\<lambda>k. case (gm_get expd k, gm_get act k) of
                         (Some ev, None) \<Rightarrow>
                           add_finding sc label ev ''(missing)'' (''header.'' @ k @ '': present != missing'')
                       | (Some ev, Some av) \<Rightarrow>
                           if ev \<noteq> av then add_finding sc label ev av
                             (''header.'' @ k @ '': '' @ te_quote te ev @ '' != '' @ te_quote te av) else []
                       | _ \<Rightarrow> []) (ord (gm_keys expd)))
     @ concat (map (\<lambda>k. case (gm_get expd k, gm_get act k) of
                           (None, Some av) \<Rightarrow>
                             add_finding sc label ''(missing)'' av (''header.'' @ k @ '': missing != present'')
                         | _ \<Rightarrow> []) (ord (gm_keys act)))"

definition compareSSE :: "text_env \<Rightarrow> string \<Rightarrow> string \<Rightarrow> string list \<Rightarrow> string list \<Rightarrow> conf_finding list" where
  "compareSSE te sc label expd act =
     (if length expd \<noteq> length act
      then add_finding sc label (itoa (length expd) @ '' SSE events'') (itoa (length act) @ '' SSE events'')
             (''SSE event count: '' @ itoa (length expd) @ '' != '' @ itoa (length act))
      else concat (map (\<lambda>(i, e, a).
                          concat (map (add_finding sc (label @ '' SSE event #'' @ itoa i) e a) (diffJSONStrings te e a)))
                        (zip [0 ..< length expd] (zip expd act))))"

definition compare_step ::
  "text_env \<Rightarrow> (string list \<Rightarrow> string list) \<Rightarrow> string \<Rightarrow> nat \<Rightarrow> conf_step \<Rightarrow> conf_step \<Rightarrow> conf_finding list" where
  "compare_step te ord sc i es as =
     (let label = stepLabel i es
      in (if st_status es \<noteq> st_status as
          then add_finding sc label (''status '' @ itoa_int (st_status es)) (''status '' @ itoa_int (st_status as))
                 (''HTTP status: '' @ itoa_int (st_status es) @ '' != '' @ itoa_int (st_status as))
          else [])
         @ concat (map (\<lambda>d. add_finding sc label (st_body es) (st_body as) (''body.'' @ d))
                     (diffJSONStrings te (st_body es) (st_body as)))
         @ compareHeaders te ord sc label (st_headers es) (st_headers as)
         @ compareSSE te sc label (st_sse es) (st_sse as)
         @ compareEventTypes te sc label (st_eventTypes es) (st_eventTypes as))"

definition compareSteps ::
  "text_env \<Rightarrow> (string list \<Rightarrow> string list) \<Rightarrow> conf_scenario \<Rightarrow> conf_scenario \<Rightarrow> conf_finding list" where
  "compareSteps te ord expd act =
     (if length (sn_steps expd) \<noteq> length (sn_steps act)
      then add_finding (sn_name expd) ''(steps)'' (itoa (length (sn_steps expd)) @ '' steps'')
             (itoa (length (sn_steps act)) @ '' steps'') ''step count differs''
      else concat (map (\<lambda>(i, es, as). compare_step te ord (sn_name expd) i es as)
                     (zip [0 ..< length (sn_steps expd)] (zip (sn_steps expd) (sn_steps act)))))"

definition Compare :: "text_env \<Rightarrow> (string list \<Rightarrow> string list) \<Rightarrow> conf_file \<Rightarrow> conf_file \<Rightarrow> conf_finding list" where
  "Compare te ord expected actual =
     concat (map (\<lambda>expd. case ScenarioByName (sn_name expd) actual of
                           None \<Rightarrow> add_finding (sn_name expd) ''(scenario)'' ''present'' ''missing''
                                      ''scenario absent from actual run''
                         | Some act \<Rightarrow> if sn_skipped expd \<or> sn_skipped act then [] else compareSteps te ord expd act)
              (cf_scenarios expected))"

subsection \<open>Known divergences\<close>

record divergence =
  dg_scenario :: string
  dg_detail :: string
  dg_reason :: string
  dg_phase :: string

definition scenarioMatches :: "string \<Rightarrow> string \<Rightarrow> bool" where
  "scenarioMatches pattern scenario =
     (if has_suffix pattern ''*'' then has_prefix scenario (butlast pattern) else pattern = scenario)"

fun matchDivergence :: "divergence list \<Rightarrow> string \<Rightarrow> string \<Rightarrow> string" where
  "matchDivergence [] scenario detail = []"
| "matchDivergence (d # divs) scenario detail =
     (if \<not> scenarioMatches (dg_scenario d) scenario then matchDivergence divs scenario detail
      else if dg_detail d \<noteq> [] \<and> \<not> str_contains detail (dg_detail d) then matchDivergence divs scenario detail
      else dg_reason d)"

text \<open>The counts of \<open>Print\<close>, blocking and known, and its exit code.\<close>

definition report_counts :: "divergence list \<Rightarrow> conf_finding list \<Rightarrow> nat \<times> nat" where
  "report_counts divs fs =
     (length (filter (\<lambda>f. matchDivergence divs (fi_scenario f) (fi_detail f) = []) fs),
      length (filter (\<lambda>f. matchDivergence divs (fi_scenario f) (fi_detail f) \<noteq> []) fs))"

definition exit_code :: "divergence list \<Rightarrow> conf_finding list \<Rightarrow> int" where
  "exit_code divs fs = (if fst (report_counts divs fs) > 0 then 1 else 0)"

subsection \<open>When a comparison is clean\<close>

fun json_ok :: "json \<Rightarrow> bool" where
  "json_ok (JObj m) = (gm_wf m \<and> list_all (\<lambda>(k, v). utf8_valid k \<and> json_ok v) m)"
| "json_ok (JArr xs) = list_all json_ok xs"
| "json_ok (JStr s) = utf8_valid s"
| "json_ok _ = True"

definition is_scalar :: "json \<Rightarrow> bool" where
  "is_scalar v = (case v of JObj m \<Rightarrow> False | JArr xs \<Rightarrow> False | _ \<Rightarrow> True)"

text \<open>
  What is relied on of \<^verbatim>\<open>encoding/json\<close>: decoded values are maps and valid strings, different scalars are
  encoded differently, and no scalar like an object or an array.
\<close>

definition text_ok :: "text_env \<Rightarrow> bool" where
  "text_ok te =
     ((\<forall>s v. te_unmarshal te s = Some v \<longrightarrow> json_ok v) \<and>
      (\<forall>a b. json_ok a \<longrightarrow> json_ok b \<longrightarrow> is_scalar a \<longrightarrow> te_scalar te a = te_scalar te b \<longrightarrow> a = b))"

lemma ok_member: "json_ok (JObj m) \<Longrightarrow> gm_get m k = Some v \<Longrightarrow> json_ok v"
  by (auto simp: list_all_iff dest: map_of_SomeD)

lemma sort_key_map_of:
  assumes "distinct (map fst xs)" "distinct (map fst ys)"
  shows "sort_key fst xs = sort_key fst ys \<longleftrightarrow> map_of xs = map_of (ys :: (string \<times> 'b) list)"
proof
  assume "sort_key fst xs = sort_key fst ys"
  then have "set (sort_key fst xs) = set (sort_key fst ys)" by simp
  then show "map_of xs = map_of ys" using map_of_inject_set [OF assms] by simp
next
  assume "map_of xs = map_of ys"
  then have s: "set xs = set ys" using map_of_inject_set [OF assms] by simp
  have d: "distinct (map fst (sort_key fst zs))" if "distinct (map fst zs)" for zs :: "(string \<times> 'b) list"
    using that by (simp add: distinct_map)
  have i: "inj_on fst (set (sort_key fst xs) \<union> set (sort_key fst ys))"
    using assms(2) s by (simp add: distinct_map)
  show "sort_key fst xs = sort_key fst ys"
    by (rule map_sorted_distinct_set_unique [OF i]) (simp_all add: d assms s)
qed

lemma map_of_canon: "map_of (map (\<lambda>(k, v). (k, canon v)) m) k = map_option canon (map_of m k)"
  by (induction m) auto

lemma same_json_object:
  assumes "gm_wf am" "gm_wf bm"
  shows "same_json (JObj am) (JObj bm) \<longleftrightarrow> (\<forall>k. rel_option same_json (gm_get am k) (gm_get bm k))"
proof -
  have d: "distinct (map fst (map (\<lambda>(k, v). (k, canon v)) m))" if "gm_wf m" for m
  proof -
    have "map fst (map (\<lambda>(k, v). (k, canon v)) m) = map fst m" by (simp add: comp_def case_prod_beta)
    then show ?thesis using that unfolding gm_wf_def by metis
  qed
  have r: "rel_option same_json x y \<longleftrightarrow> map_option canon x = map_option canon y" for x y
    by (cases x; cases y) (simp_all add: same_json_def)
  have "same_json (JObj am) (JObj bm) \<longleftrightarrow>
      map_of (map (\<lambda>(k, v). (k, canon v)) am) = map_of (map (\<lambda>(k, v). (k, canon v)) bm)"
    using sort_key_map_of [OF d [OF assms(1)] d [OF assms(2)]] by (simp add: same_json_def)
  then show ?thesis by (simp add: fun_eq_iff map_of_canon r)
qed

lemma same_json_array: "same_json (JArr xs) (JArr ys) \<longleftrightarrow> list_all2 same_json xs ys"
  by (auto simp: same_json_def list_all2_conv_all_nth list_eq_iff_nth_eq)

lemma same_json_kinds [simp]:
  "\<not> same_json (JObj am) (JArr ys)" "\<not> same_json (JArr xs) (JObj bm)"
  "is_scalar a \<Longrightarrow> same_json a b \<longleftrightarrow> a = b"
  by (cases a; cases b; simp add: same_json_def is_scalar_def)+

lemma zip_index: "(i, x, y) \<in> set (zip [0 ..< length xs] (zip xs ys)) \<longleftrightarrow> i < length xs \<and> i < length ys \<and> x = xs ! i \<and> y = ys ! i"
  by (force simp: in_set_zip)

lemma concat_zip_nil:
  assumes "length xs = length ys"
  shows "concat (map (\<lambda>(i, x, y). f i x y) (zip [0 ..< length xs] (zip xs ys))) = [] \<longleftrightarrow>
    (\<forall>i < length xs. f i (xs ! i) (ys ! i) = [])"
proof -
  have "concat (map (\<lambda>(i, x, y). f i x y) (zip [0 ..< length xs] (zip xs ys))) = [] \<longleftrightarrow>
      (\<forall>(i, x, y) \<in> set (zip [0 ..< length xs] (zip xs ys)). f i x y = [])"
    unfolding concat_eq_Nil_conv set_map by (simp add: case_prod_beta)
  also have "\<dots> \<longleftrightarrow> (\<forall>i < length xs. f i (xs ! i) (ys ! i) = [])"
    using assms zip_index [where xs = xs and ys = ys] by fastforce
  finally show ?thesis .
qed

lemma diffJSON_nil:
  assumes "text_ok te"
  shows "json_ok a \<Longrightarrow> json_ok b \<Longrightarrow> diffJSON te path a b = [] \<longleftrightarrow> same_json a b"
proof (induction "size a" arbitrary: path a b rule: less_induct)
  case less
  show ?case
  proof (cases a)
    case (JObj am)
    show ?thesis
    proof (cases b)
      case (JObj bm)
      have wf: "gm_wf am" "gm_wf bm" using less.prems \<open>a = JObj am\<close> JObj by simp_all
      have sub: "diffJSON te p x y = [] \<longleftrightarrow> same_json x y" if "gm_get am k = Some x" "gm_get bm k = Some y" for k x y p
        using less.hyps [of x y p] size_map_of [OF that(1)] ok_member [of am k x] ok_member [of bm k y] that less.prems
          \<open>a = JObj am\<close> JObj by simp
      have "diffJSON te path a b = [] \<longleftrightarrow>
          (\<forall>k \<in> set (sortedKeys (map fst am @ map fst bm)). rel_option same_json (gm_get am k) (gm_get bm k))"
      proof -
        have "(case gm_get am k of
                 Some ae \<Rightarrow> (case gm_get bm k of Some be \<Rightarrow> diffJSON te (child path k) ae be
                                  | None \<Rightarrow> [child path k @ '': present != missing''])
               | None \<Rightarrow> [child path k @ '': missing != present'']) = [] \<longleftrightarrow>
            rel_option same_json (gm_get am k) (gm_get bm k)"
          if "k \<in> set (sortedKeys (map fst am @ map fst bm))" for k
        proof -
          have "gm_get am k \<noteq> None \<or> gm_get bm k \<noteq> None"
            using that by (auto simp: sortedKeys_def map_of_eq_None_iff)
          then show ?thesis using sub by (cases "gm_get am k"; cases "gm_get bm k") auto
        qed
        then show ?thesis by (simp add: diffJSON.simps [of te path "JObj am"] \<open>a = JObj am\<close> JObj)
      qed
      also have "\<dots> \<longleftrightarrow> (\<forall>k. rel_option same_json (gm_get am k) (gm_get bm k))"
      proof -
        have "gm_get am k = None" "gm_get bm k = None" if "k \<notin> set (sortedKeys (map fst am @ map fst bm))" for k
          using that by (auto simp: sortedKeys_def map_of_eq_None_iff)
        then show ?thesis by (metis option.rel_inject(1))
      qed
      finally show ?thesis by (simp add: \<open>a = JObj am\<close> JObj same_json_object [OF wf])
    qed (simp_all add: diffJSON.simps [of te path "JObj am"] \<open>a = JObj am\<close> same_json_def)
  next
    case (JArr xs)
    show ?thesis
    proof (cases b)
      case (JArr ys)
      show ?thesis
      proof (cases "length xs = length ys")
        case True
        have sub: "diffJSON te p (xs ! i) (ys ! i) = [] \<longleftrightarrow> same_json (xs ! i) (ys ! i)" if "i < length xs" for i p
        proof -
          have "size (xs ! i) < size a"
            using size_zip [of "xs ! i" "xs ! i" xs xs] that \<open>a = JArr xs\<close> by (auto simp: set_zip)
          then show ?thesis using less.hyps less.prems that True \<open>a = JArr xs\<close> JArr by (simp add: list_all_length)
        qed
        have "diffJSON te path a b = concat (map (\<lambda>(i, x, y). diffJSON te (path @ ''['' @ itoa i @ '']'') x y)
            (zip [0 ..< length xs] (zip xs ys)))"
          using True unfolding \<open>a = JArr xs\<close> JArr by (simp add: diffJSON.simps [of te path "JArr xs"])
        then have "diffJSON te path a b = [] \<longleftrightarrow> (\<forall>i < length xs. same_json (xs ! i) (ys ! i))"
          using concat_zip_nil [OF True, of "\<lambda>i x y. diffJSON te (path @ ''['' @ itoa i @ '']'') x y"] sub by simp
        then show ?thesis using True by (simp add: \<open>a = JArr xs\<close> JArr same_json_array list_all2_conv_all_nth)
      qed (auto simp: diffJSON.simps [of te path "JArr xs"] \<open>a = JArr xs\<close> JArr same_json_array dest: list_all2_lengthD)
    qed (simp_all add: diffJSON.simps [of te path "JArr xs"] \<open>a = JArr xs\<close> same_json_def)
  qed (use assms less.prems in \<open>auto simp: diffJSON.simps [of te path] is_scalar_def text_ok_def\<close>)
qed

text \<open>When two recorded texts, steps and runs agree: the specification of the comparison.\<close>

definition same_text :: "text_env \<Rightarrow> string \<Rightarrow> string \<Rightarrow> bool" where
  "same_text te x y =
     (x = y \<or> (case (te_unmarshal te x, te_unmarshal te y) of (Some a, Some b) \<Rightarrow> same_json a b | _ \<Rightarrow> False))"

definition same_step :: "text_env \<Rightarrow> conf_step \<Rightarrow> conf_step \<Rightarrow> bool" where
  "same_step te x y =
     (st_status x = st_status y \<and> same_text te (st_body x) (st_body y) \<and>
      gm_get (st_headers x) = gm_get (st_headers y) \<and> list_all2 (same_text te) (st_sse x) (st_sse y) \<and>
      st_eventTypes x = st_eventTypes y)"

definition same_scenario :: "text_env \<Rightarrow> conf_scenario \<Rightarrow> conf_scenario \<Rightarrow> bool" where
  "same_scenario te x y =
     (sn_skipped x \<or> sn_skipped y \<or> list_all2 (same_step te) (sn_steps x) (sn_steps y))"

lemma add_finding_nonempty [simp]: "add_finding sc st ex ac de \<noteq> []"
  by (simp add: add_finding_def)

lemma sort_nil: "sort ds = [] \<longleftrightarrow> ds = ([] :: string list)"
  by (metis length_0_conv length_sort)

lemma diffJSONStrings_nil: "text_ok te \<Longrightarrow> diffJSONStrings te x y = [] \<longleftrightarrow> same_text te x y"
  using diffJSON_nil [of te _ _ "[]"]
  by (auto simp: diffJSONStrings_def same_text_def text_ok_def sort_nil split: option.split)

lemma map_findings_nil: "concat (map (add_finding sc st ex ac) ds) = [] \<longleftrightarrow> ds = []"
  by (cases ds) simp_all

lemma compareSSE_nil: "text_ok te \<Longrightarrow> compareSSE te sc label x y = [] \<longleftrightarrow> list_all2 (same_text te) x y"
proof (cases "length x = length y")
  case True
  assume "text_ok te"
  then show ?thesis using True
      concat_zip_nil [OF True, of "\<lambda>i e a. concat (map (add_finding sc (label @ '' SSE event #'' @ itoa i) e a) (diffJSONStrings te e a))"]
    unfolding compareSSE_def map_findings_nil by (simp add: diffJSONStrings_nil list_all2_conv_all_nth)
qed (auto simp: compareSSE_def dest: list_all2_lengthD)

lemma compareEventTypes_nil: "compareEventTypes te sc label x y = [] \<longleftrightarrow> x = y"
proof (cases "length x = length y")
  case True
  let ?f = "\<lambda>i e a. if e \<noteq> a then add_finding sc label e a
      (''SSE event-type #'' @ itoa i @ '': '' @ te_quote te e @ '' != '' @ te_quote te a) else []"
  have "compareEventTypes te sc label x y = concat (map (\<lambda>(i, e, a). ?f i e a) (zip [0 ..< length x] (zip x y)))"
    using True by (simp add: compareEventTypes_def)
  then have "compareEventTypes te sc label x y = [] \<longleftrightarrow> (\<forall>i < length x. ?f i (x ! i) (y ! i) = [])"
    using concat_zip_nil [OF True, of ?f] by simp
  also have "\<dots> \<longleftrightarrow> (\<forall>i < length x. x ! i = y ! i)" by auto
  also have "\<dots> \<longleftrightarrow> x = y" using True by (metis list_eq_iff_nth_eq)
  finally show ?thesis .
qed (auto simp: compareEventTypes_def)

lemma compareHeaders_nil:
  assumes "order_ok ord"
  shows "compareHeaders te ord sc label x y = [] \<longleftrightarrow> gm_get x = gm_get y"
proof -
  have one: "(case (gm_get x k, gm_get y k) of
        (Some ev, None) \<Rightarrow> add_finding sc label ev ''(missing)'' (''header.'' @ k @ '': present != missing'')
      | (Some ev, Some av) \<Rightarrow>
          if ev \<noteq> av then add_finding sc label ev av
            (''header.'' @ k @ '': '' @ te_quote te ev @ '' != '' @ te_quote te av) else []
      | _ \<Rightarrow> []) = [] \<longleftrightarrow> gm_get x k = gm_get y k" if "k \<in> dom (gm_get x)" for k
    using that by (cases "gm_get x k"; cases "gm_get y k") auto
  have two: "(case (gm_get x k, gm_get y k) of
        (None, Some av) \<Rightarrow> add_finding sc label ''(missing)'' av (''header.'' @ k @ '': missing != present'')
      | _ \<Rightarrow> []) = [] \<longleftrightarrow> gm_get x k \<noteq> None" if "k \<in> dom (gm_get y)" for k
    using that by (cases "gm_get x k"; cases "gm_get y k") auto
  have "compareHeaders te ord sc label x y = [] \<longleftrightarrow>
      (\<forall>k \<in> dom (gm_get x). gm_get x k = gm_get y k) \<and> (\<forall>k \<in> dom (gm_get y). gm_get x k \<noteq> None)"
    unfolding compareHeaders_def append_is_Nil_conv concat_eq_Nil_conv set_map order_ok_set [OF assms] set_gm_keys
    using one two by simp
  also have "\<dots> \<longleftrightarrow> gm_get x = gm_get y"
  proof safe
    assume h: "\<forall>k \<in> dom (gm_get x). gm_get x k = gm_get y k" "\<forall>k \<in> dom (gm_get y). gm_get x k \<noteq> None"
    show "gm_get x = gm_get y"
    proof
      show "gm_get x k = gm_get y k" for k
        using h by (cases "gm_get x k"; cases "gm_get y k") force+
    qed
  qed auto
  finally show ?thesis .
qed

lemma compare_step_nil:
  "text_ok te \<Longrightarrow> order_ok ord \<Longrightarrow> compare_step te ord sc i x y = [] \<longleftrightarrow> same_step te x y"
proof -
  assume te: "text_ok te" and ord: "order_ok ord"
  have body: "concat (map (\<lambda>d. add_finding sc l (st_body x) (st_body y) (''body.'' @ d)) ds) = [] \<longleftrightarrow> ds = []" for l ds
    by (cases ds) simp_all
  show ?thesis
    unfolding compare_step_def Let_def append_is_Nil_conv body compareHeaders_nil [OF ord] compareSSE_nil [OF te]
      compareEventTypes_nil diffJSONStrings_nil [OF te] same_step_def by auto
qed

lemma compareSteps_nil:
  assumes "text_ok te" "order_ok ord"
  shows "compareSteps te ord x y = [] \<longleftrightarrow> list_all2 (same_step te) (sn_steps x) (sn_steps y)"
proof (cases "length (sn_steps x) = length (sn_steps y)")
  case True
  then have "compareSteps te ord x y = concat (map (\<lambda>(i, es, as). compare_step te ord (sn_name x) i es as)
      (zip [0 ..< length (sn_steps x)] (zip (sn_steps x) (sn_steps y))))" by (simp add: compareSteps_def)
  then have "compareSteps te ord x y = [] \<longleftrightarrow> (\<forall>i < length (sn_steps x). same_step te (sn_steps x ! i) (sn_steps y ! i))"
    using concat_zip_nil [OF True, of "compare_step te ord (sn_name x)"] compare_step_nil [OF assms] by simp
  then show ?thesis using True by (simp add: list_all2_conv_all_nth)
qed (auto simp: compareSteps_def dest: list_all2_lengthD)


text \<open>
  A registry entry covers a finding only through its reason: the first entry that matches decides, and
  without a reason the finding stays blocking, whatever the later entries say.
\<close>

lemma reasonless_entry_blocks:
  assumes "scenarioMatches (dg_scenario d) (fi_scenario f)" "dg_detail d = []" "dg_reason d = []" "f \<in> set fs"
  shows "exit_code (d # divs) fs = 1"
proof -
  have "f \<in> set (filter (\<lambda>f. matchDivergence (d # divs) (fi_scenario f) (fi_detail f) = []) fs)"
    using assms by simp
  then have "0 < length (filter (\<lambda>f. matchDivergence (d # divs) (fi_scenario f) (fi_detail f) = []) fs)"
    by (metis length_pos_if_in_set)
  then show ?thesis by (simp add: exit_code_def report_counts_def)
qed

lemma clean_exit: "exit_code divs [] = 0"
  by (simp add: exit_code_def report_counts_def)

subsection \<open>Volatile fields\<close>

text \<open>The regular expressions of the normalizer, matched as Go matches them: leftmost, each part greedy.\<close>

definition is_lower :: "char \<Rightarrow> bool" where
  "is_lower c = (97 \<le> byte_of c \<and> byte_of c \<le> 122)"

definition is_alnum :: "char \<Rightarrow> bool" where
  "is_alnum c = (is_digit c \<or> is_lower c \<or> (65 \<le> byte_of c \<and> byte_of c \<le> 90))"

definition ulid_char :: "char \<Rightarrow> bool" where
  "ulid_char c = (is_alnum c \<and> c \<notin> set ''ILOUilou'')"

definition ulidRe :: "string \<Rightarrow> bool" where
  "ulidRe s = (length s = 26 \<and> list_all ulid_char s)"

definition prefixedIDRe :: "string \<Rightarrow> bool" where
  "prefixedIDRe s =
     (let p = takeWhile is_lower s; rest = drop (length p) s
      in p \<noteq> [] \<and> (case rest of c # xs \<Rightarrow> c = CHR ''_'' \<and> 20 \<le> length xs \<and> list_all is_alnum xs | [] \<Rightarrow> False))"

text \<open>A template of digits (\<^verbatim>\<open>d\<close>) and other characters, at the start of a string.\<close>

fun template :: "string \<Rightarrow> string \<Rightarrow> bool" where
  "template [] s = True"
| "template (p # ps) [] = False"
| "template (p # ps) (c # s) = ((if p = CHR ''d'' then is_digit c else c = p) \<and> template ps s)"

definition rfc3339Re :: "string \<Rightarrow> bool" where
  "rfc3339Re s = template ''dddd-dd-ddTdd:dd:dd'' s"

fun digits_dot :: "nat \<Rightarrow> string \<Rightarrow> bool" where
  \<comment> \<open>groups of digits, a dot between them\<close>
  "digits_dot 0 s = (case s of c # _ \<Rightarrow> is_digit c | [] \<Rightarrow> False)"
| "digits_dot (Suc n) s =
     (let ds = takeWhile is_digit s; rest = drop (length ds) s
      in ds \<noteq> [] \<and> (case rest of c # xs \<Rightarrow> c = CHR ''.'' \<and> digits_dot n xs | [] \<Rightarrow> False))"

definition semverRe :: "string \<Rightarrow> bool" where
  "semverRe s = digits_dot 2 s"

text \<open>
  Each substitution gives the length of the match at the start of a string, if there is one;
  \<open>replace_re\<close> is \<^verbatim>\<open>ReplaceAllString\<close>. None of these expressions matches the empty string.
\<close>

definition rfc3339Sub :: "string \<Rightarrow> nat option" where
  "rfc3339Sub s =
     (if template ''dddd-dd-ddTdd:dd:dd'' s then
        (let n = 19;
             frac = (case drop n s of
                       c # xs \<Rightarrow> if c = CHR ''.'' \<and> takeWhile is_digit xs \<noteq> [] then 1 + length (takeWhile is_digit xs) else 0
                     | [] \<Rightarrow> 0);
             n = n + frac;
             zone = (case drop n s of
                       c # xs \<Rightarrow> if c = CHR ''Z'' then 1
                                 else if c \<in> set ''+-'' \<and> template ''dd:dd'' xs then 6 else 0
                     | [] \<Rightarrow> 0)
         in Some (n + zone))
      else None)"

definition prefixedIDSub :: "string \<Rightarrow> nat option" where
  "prefixedIDSub s =
     (let p = length (takeWhile is_lower s)
      in case drop p s of
           c # xs \<Rightarrow>
             if p \<noteq> 0 \<and> c = CHR ''_'' \<and> 20 \<le> length (takeWhile is_alnum xs)
             then Some (p + 1 + length (takeWhile is_alnum xs)) else None
         | [] \<Rightarrow> None)"

definition conf_char :: "char \<Rightarrow> bool" where
  "conf_char c = (is_alnum c \<or> c \<in> set ''/_.-'')"

definition confDirRe :: "string \<Rightarrow> nat option" where
  "confDirRe s =
     (let lit = ''opcode42-conf-'';
          ends = (\<lambda>k. has_prefix (drop k s) lit \<and> takeWhile is_digit (drop (k + length lit) s) \<noteq> [])
      in map_option (\<lambda>k. k + length lit + length (takeWhile is_digit (drop (k + length lit) s)))
           (find ends (rev [0 ..< Suc (length (takeWhile conf_char s))])))"

definition lit_match :: "string \<Rightarrow> string \<Rightarrow> nat option" where
  "lit_match p s = (if has_prefix s p then Some (length p) else None)"

definition segment :: "string \<Rightarrow> nat option" where
  \<comment> \<open>\<^verbatim>\<open>[^/]+/\<close>\<close>
  "segment s =
     (let n = length (takeWhile (\<lambda>c. c \<noteq> CHR ''/'') s)
      in if n \<noteq> 0 \<and> n < length s then Some (n + 1) else None)"

definition then_match :: "(string \<Rightarrow> nat option) \<Rightarrow> (string \<Rightarrow> nat option) \<Rightarrow> string \<Rightarrow> nat option" where
  "then_match f g s =
     (case f s of None \<Rightarrow> None | Some n \<Rightarrow> (case g (drop n s) of None \<Rightarrow> None | Some m \<Rightarrow> Some (n + m)))"

definition or_match :: "(string \<Rightarrow> nat option) \<Rightarrow> (string \<Rightarrow> nat option) \<Rightarrow> string \<Rightarrow> nat option" where
  "or_match f g s = (case f s of Some n \<Rightarrow> Some n | None \<Rightarrow> g s)"

definition tmp_tail :: "string \<Rightarrow> nat option" where
  \<comment> \<open>\<^verbatim>\<open>/tmp\.[A-Za-z0-9]+\<close>\<close>
  "tmp_tail =
     then_match (lit_match ''/tmp.'')
       (\<lambda>s. let n = length (takeWhile is_alnum s) in if n \<noteq> 0 then Some n else None)"

definition var_folders :: "string \<Rightarrow> nat option" where
  "var_folders =
     then_match (lit_match ''var/folders/'') (then_match segment (then_match segment (lit_match ''T'')))"

definition home_body :: "string \<Rightarrow> nat option" where
  "home_body =
     or_match (then_match (then_match (lit_match ''private/'') var_folders) tmp_tail)
       (or_match (then_match var_folders tmp_tail) (then_match (lit_match ''tmp'') tmp_tail))"

definition confHomeRe :: "string \<Rightarrow> nat option" where
  "confHomeRe = or_match (then_match (lit_match ''/'') home_body) home_body"

function replace_re :: "(string \<Rightarrow> nat option) \<Rightarrow> string \<Rightarrow> string \<Rightarrow> string" where
  "replace_re re repl s =
     (case s of
        [] \<Rightarrow> []
      | c # cs \<Rightarrow>
          (case re s of
             Some n \<Rightarrow> if n = 0 then c # replace_re re repl cs else repl @ replace_re re repl (drop n s)
           | None \<Rightarrow> c # replace_re re repl cs))"
  by pat_completeness auto
termination
  by (relation "measure (\<lambda>(re, repl, s). length s)") auto

declare replace_re.simps [simp del]

record normalizer =
  nz_paths :: "(string, string) gomap"
  nz_live :: bool
  nz_ord :: "string list \<Rightarrow> string list"

definition replacePaths :: "normalizer \<Rightarrow> string \<Rightarrow> string" where
  \<comment> \<open>longest keys first; keys of one length in the order of the map\<close>
  "replacePaths n s =
     (let keys = sort_key (\<lambda>k. - int (length k)) (nz_ord n (filter (\<lambda>p. p \<noteq> []) (gm_keys (nz_paths n))));
          s = fold (\<lambda>p s. replace_all s p (case gm_get (nz_paths n) p of Some r \<Rightarrow> r | None \<Rightarrow> [])) keys s;
          s = replace_re confDirRe ''<path>'' s;
          s = replace_re confHomeRe ''<path>'' s;
          s = replace_re rfc3339Sub ''<ts>'' s
      in replace_re prefixedIDSub ''<id>'' s)"

definition pathReplacements :: "string list \<Rightarrow> (string, string) gomap" where
  "pathReplacements paths =
     fold (\<lambda>p repl.
             if p = [] then repl
             else (let repl = gm_put p ''<path>'' repl;
                       rel = (if has_prefix p ''/'' then drop 1 p else p)
                   in if rel \<noteq> p \<and> rel \<noteq> [] then gm_put rel ''<path>'' repl else repl)) paths []"

definition isVolatileID :: "json \<Rightarrow> bool" where
  "isVolatileID v = (case v of JStr s \<Rightarrow> ulidRe s \<or> prefixedIDRe s | _ \<Rightarrow> False)"

definition isTimestamp :: "json \<Rightarrow> bool" where
  "isTimestamp v = (case v of JNum q \<Rightarrow> q \<ge> 1000000000000 | JStr s \<Rightarrow> rfc3339Re s | _ \<Rightarrow> False)"

definition isVersion :: "json \<Rightarrow> bool" where
  "isVersion v = (case v of JStr s \<Rightarrow> semverRe s | _ \<Rightarrow> False)"

definition isString :: "json \<Rightarrow> bool" where
  "isString v = (case v of JStr s \<Rightarrow> True | _ \<Rightarrow> False)"

definition isNumber :: "json \<Rightarrow> bool" where
  "isNumber v = (case v of JNum q \<Rightarrow> True | _ \<Rightarrow> False)"

definition idFields :: "string list" where
  "idFields = [''id'', ''sessionID'', ''messageID'', ''partID'', ''permissionID'', ''questionID'', ''callID'',
     ''parentID'', ''projectID'', ''requestID'']"

definition tsFields :: "string list" where
  "tsFields = [''timestamp'', ''createdAt'', ''updatedAt'', ''created'', ''completed'', ''start'', ''end'', ''updated'']"

definition mask_field :: "bool \<Rightarrow> string \<Rightarrow> json \<Rightarrow> string option" where
  \<comment> \<open>the placeholder of a field, if its value is volatile\<close>
  "mask_field live k v =
     (if k \<in> set idFields \<and> isVolatileID v then Some ''<id>''
      else if k \<in> set tsFields \<and> isTimestamp v then Some ''<ts>''
      else if k = ''slug'' \<and> isString v then Some ''<slug>''
      else if k = ''version'' \<and> isVersion v then Some ''<ver>''
      else if live \<and> k \<in> set [''text'', ''reasoning''] \<and> isString v then Some ''<text>''
      else if live \<and> k = ''cost'' \<and> isNumber v then Some ''<num>''
      else if live \<and> k = ''tokens'' \<and> is_object v then Some ''<tokens>''
      else None)"

text \<open>\<open>canonical\<close> is the JSON text of a value, a sort key; equal elements are interchangeable in the result.\<close>

definition sortArray :: "(json \<Rightarrow> string) \<Rightarrow> json \<Rightarrow> json" where
  "sortArray canonical v = (case v of JArr xs \<Rightarrow> JArr (sort_key canonical xs) | _ \<Rightarrow> v)"

fun Normalize :: "(json \<Rightarrow> string) \<Rightarrow> normalizer \<Rightarrow> json \<Rightarrow> json" where
  "Normalize canonical n (JObj m) =
     JObj (map (\<lambda>(k, v). (k, case mask_field (nz_live n) k v of
                                 Some p \<Rightarrow> JStr p
                               | None \<Rightarrow> if k = ''permission'' then sortArray canonical (Normalize canonical n v)
                                         else Normalize canonical n v)) m)"
| "Normalize canonical n (JArr xs) = JArr (map (Normalize canonical n) xs)"
| "Normalize canonical n (JStr s) = JStr (replacePaths n s)"
| "Normalize canonical n v = v"

fun uniq_by :: "(json \<Rightarrow> string) \<Rightarrow> string list \<Rightarrow> json list \<Rightarrow> json list" where
  "uniq_by canonical seen [] = []"
| "uniq_by canonical seen (x # xs) =
     (if canonical x \<in> set seen then uniq_by canonical seen xs
      else x # uniq_by canonical (canonical x # seen) xs)"

record norm_env =
  ne_unmarshal :: "string \<Rightarrow> json option"
  ne_canonical :: "json \<Rightarrow> string"
  ne_encode :: "json \<Rightarrow> string"

definition NormalizeJSON :: "norm_env \<Rightarrow> normalizer \<Rightarrow> string \<Rightarrow> string option" where
  \<comment> \<open>\<open>None\<close> is the error of decoding\<close>
  "NormalizeJSON env n data = map_option (\<lambda>v. ne_encode env (Normalize (ne_canonical env) n v)) (ne_unmarshal env data)"

definition distinct_entries :: "norm_env \<Rightarrow> json list \<Rightarrow> json list" where
  "distinct_entries env xs = sort_key (ne_canonical env) (uniq_by (ne_canonical env) [] xs)"

definition NormalizeSetJSON :: "norm_env \<Rightarrow> normalizer \<Rightarrow> string \<Rightarrow> string option" where
  "NormalizeSetJSON env n data =
     map_option (\<lambda>v. case Normalize (ne_canonical env) n v of
                       JArr xs \<Rightarrow> ne_encode env (JArr (distinct_entries env xs))
                     | v \<Rightarrow> ne_encode env v) (ne_unmarshal env data)"

fun all_texts :: "string option list \<Rightarrow> string list option" where
  "all_texts [] = Some []"
| "all_texts (None # xs) = None"
| "all_texts (Some x # xs) = map_option ((#) x) (all_texts xs)"

definition NormalizeSSE :: "norm_env \<Rightarrow> normalizer \<Rightarrow> string \<Rightarrow> string list option" where
  "NormalizeSSE env n body =
     (let data = List.map_filter
            (\<lambda>line. let line = trim_right (\<lambda>c. c = CHR 0x0D) line
                     in if has_prefix line ''data:'' then
                          (let d = trim_space (drop 5 line) in if d = [] then None else Some d)
                        else None) (split_on (CHR 0x0A) body)
      in all_texts (map (NormalizeJSON env n) data))"

definition norm_Path :: "normalizer \<Rightarrow> string \<Rightarrow> string" where
  "norm_Path n p =
     replacePaths n (str_join (map (\<lambda>s. if isVolatileID (JStr s) then ''<id>'' else s) (split_on (CHR ''/'') p)) ''/'')"

subsection \<open>What normalization hides\<close>

lemma uniq_by_keys:
  "set (map c (uniq_by c seen xs)) = set (map c xs) - set seen \<and> distinct (map c (uniq_by c seen xs))"
proof (induction xs arbitrary: seen)
  case (Cons x xs)
  then show ?case using Cons.IH [of seen] Cons.IH [of "c x # seen"] by (auto simp del: set_map)
qed simp

lemma distinct_entries_keys:
  "map (ne_canonical env) (distinct_entries env xs) = sorted_list_of_set (set (map (ne_canonical env) xs))"
proof -
  let ?c = "ne_canonical env" and ?u = "uniq_by (ne_canonical env) [] xs"
  have k: "set (map ?c ?u) = set (map ?c xs)" "distinct (map ?c ?u)"
    using uniq_by_keys [of ?c "[]" xs] by simp_all
  have "map ?c (distinct_entries env xs) = sort (map ?c ?u)"
    using sort_key_map [of "\<lambda>x. x" ?c ?u] by (simp add: distinct_entries_def comp_def)
  also have "\<dots> = sorted_list_of_set (set (map ?c ?u))"
    using k(2) by (simp add: sorted_list_of_set_sort_remdups distinct_remdups_id del: set_map)
  finally show ?thesis using k(1) by simp
qed

text \<open>
  Lists without an order compare as sets: two responses whose top level is a list normalize to the same
  text exactly when, once their volatile fields are masked, they have the same distinct entries,
  however often and in whatever order.
\<close>

theorem set_normalization_exact:
  assumes "ne_unmarshal env d1 = Some (JArr xs)" "ne_unmarshal env d2 = Some (JArr ys)"
    "\<forall>us vs. ne_encode env (JArr us) = ne_encode env (JArr vs) \<longleftrightarrow> map (ne_canonical env) us = map (ne_canonical env) vs"
  shows "NormalizeSetJSON env n d1 = NormalizeSetJSON env n d2 \<longleftrightarrow>
    (\<lambda>x. ne_canonical env (Normalize (ne_canonical env) n x)) ` set xs =
    (\<lambda>y. ne_canonical env (Normalize (ne_canonical env) n y)) ` set ys"
proof -
  let ?N = "Normalize (ne_canonical env) n"
  have inj: "sorted_list_of_set (set zs) = sorted_list_of_set (set ws) \<longleftrightarrow> set zs = set ws" for zs ws :: "string list"
    by (metis List.finite_set set_sorted_list_of_set)
  have "NormalizeSetJSON env n d1 = NormalizeSetJSON env n d2 \<longleftrightarrow>
      map (ne_canonical env) (distinct_entries env (map ?N xs)) = map (ne_canonical env) (distinct_entries env (map ?N ys))"
    using assms by (simp add: NormalizeSetJSON_def)
  then show ?thesis unfolding distinct_entries_keys inj by (simp add: image_image)
qed

fun demo_canonical :: "json \<Rightarrow> string" where
  "demo_canonical (JStr s) = CHR ''s'' # s @ ''.''"
| "demo_canonical (JArr xs) = ''['' @ concat (map demo_canonical xs) @ '']''"
| "demo_canonical v = ''x''"

definition demo_encode :: "json \<Rightarrow> string" where
  "demo_encode v = (case v of JArr us \<Rightarrow> concat (map (\<lambda>u. concat (map (\<lambda>c. [CHR ''c'', c]) (demo_canonical u)) @ '';'') us) | _ \<Rightarrow> [])"

lemma demo_chars: "concat (map (\<lambda>c. [CHR ''c'', c]) u) @ '';'' @ a = concat (map (\<lambda>c. [CHR ''c'', c]) v) @ '';'' @ b \<longleftrightarrow> u = v \<and> a = b"
  for u v :: string
proof (induction u arbitrary: v)
  case Nil
  then show ?case by (cases v) auto
next
  case (Cons c u)
  then show ?case by (cases v) auto
qed

lemma demo_encode_exact: "demo_encode (JArr us) = demo_encode (JArr vs) \<longleftrightarrow> map demo_canonical us = map demo_canonical vs"
proof (induction us arbitrary: vs)
  case Nil
  then show ?case by (cases vs) (auto simp: demo_encode_def)
next
  case (Cons u us)
  then show ?case
  proof (cases vs)
    case (Cons v vs')
    then show ?thesis using Cons.IH [of vs'] demo_chars [of "demo_canonical u" _ "demo_canonical v"]
      by (simp add: demo_encode_def)
  qed (auto simp: demo_encode_def)
qed

lemma set_normalization_exact_witness:
  "\<exists>env n. NormalizeSetJSON env n ''one'' = NormalizeSetJSON env n ''two'' \<and> ne_unmarshal env ''one'' \<noteq> ne_unmarshal env ''two''"
proof -
  let ?xs = "[JStr ''b'', JStr ''a'']" and ?ys = "[JStr ''a'', JStr ''b'', JStr ''a'']"
  let ?env = "\<lparr>ne_unmarshal = (\<lambda>s. if s = ''one'' then Some (JArr ?xs) else Some (JArr ?ys)),
    ne_canonical = demo_canonical, ne_encode = demo_encode\<rparr>"
  let ?n = "\<lparr>nz_paths = [], nz_live = False, nz_ord = (\<lambda>ks. ks)\<rparr>"
  have d: "ne_unmarshal ?env ''one'' = Some (JArr ?xs)" "ne_unmarshal ?env ''two'' = Some (JArr ?ys)"
    "\<forall>us vs. ne_encode ?env (JArr us) = ne_encode ?env (JArr vs) \<longleftrightarrow> map (ne_canonical ?env) us = map (ne_canonical ?env) vs"
    by (simp_all add: demo_encode_exact)
  have "NormalizeSetJSON ?env ?n ''one'' = NormalizeSetJSON ?env ?n ''two''"
    unfolding set_normalization_exact [OF d] by auto
  then show ?thesis using d(1,2) by (intro exI [of _ ?env] exI [of _ ?n]) simp
qed

text \<open>Two values that differ only where both are volatile in the same way.\<close>

inductive similar :: "bool \<Rightarrow> json \<Rightarrow> json \<Rightarrow> bool" for live where
  sim_refl: "similar live v v"
| sim_arr: "list_all2 (similar live) xs ys \<Longrightarrow> similar live (JArr xs) (JArr ys)"
| sim_obj: "list_all2 (\<lambda>kv kw. fst kv = fst kw \<and>
      (similar live (snd kv) (snd kw) \<or>
       (\<exists>p. mask_field live (fst kv) (snd kv) = Some p \<and> mask_field live (fst kv) (snd kw) = Some p))) m m' \<Longrightarrow>
    similar live (JObj m) (JObj m')"

lemma similar_kind: "similar live v w \<Longrightarrow> v = w \<or> (\<exists>xs ys. v = JArr xs \<and> w = JArr ys) \<or> (\<exists>m m'. v = JObj m \<and> w = JObj m')"
  by (auto elim: similar.cases)

lemma mask_container:
  "mask_field live k (JArr xs) = None"
  "mask_field live k (JObj m) = (if live \<and> k = ''tokens'' then Some ''<tokens>'' else None)"
  by (simp_all add: mask_field_def isVolatileID_def isTimestamp_def isString_def isVersion_def isNumber_def idFields_def tsFields_def)

lemma similar_mask: "similar live v w \<Longrightarrow> mask_field live k v = mask_field live k w"
  using similar_kind [of live v w] mask_container by auto

text \<open>
  Volatile values do not show: two documents that differ only in identifiers, timestamps, slugs and versions
  (and, in live runs, in texts, costs and token counts), each volatile in both, normalize to the same
  value, at any depth.
\<close>

theorem normalize_hides_volatile:
  "similar (nz_live n) v w \<Longrightarrow> Normalize canonical n v = Normalize canonical n w"
proof (induction rule: similar.induct)
  case (sim_arr xs ys)
  then have "map (Normalize canonical n) xs = map (Normalize canonical n) ys"
    by (auto simp: list_all2_conv_all_nth list_eq_iff_nth_eq)
  then show ?case by simp
next
  case (sim_obj m m')
  let ?f = "\<lambda>(k, v). (k, case mask_field (nz_live n) k v of Some p \<Rightarrow> JStr p
      | None \<Rightarrow> if k = ''permission'' then sortArray canonical (Normalize canonical n v) else Normalize canonical n v)"
  have "?f (m ! i) = ?f (m' ! i)" if "i < length m" for i
  proof -
    have "fst (m ! i) = fst (m' ! i)" and
      "(\<exists>p. mask_field (nz_live n) (fst (m ! i)) (snd (m ! i)) = Some p \<and> mask_field (nz_live n) (fst (m ! i)) (snd (m' ! i)) = Some p) \<or>
       similar (nz_live n) (snd (m ! i)) (snd (m' ! i)) \<and>
       Normalize canonical n (snd (m ! i)) = Normalize canonical n (snd (m' ! i))"
      using sim_obj that by (auto simp: list_all2_conv_all_nth)
    then show ?thesis using similar_mask [of "nz_live n" "snd (m ! i)" "snd (m' ! i)" "fst (m ! i)"]
      by (auto simp: case_prod_beta split: option.split)
  qed
  then have "map ?f m = map ?f m'" using sim_obj by (auto simp: list_all2_conv_all_nth list_eq_iff_nth_eq)
  then show ?case by simp
qed simp

lemma normalize_hides_volatile_witness:
  "Normalize demo_canonical \<lparr>nz_paths = [], nz_live = False, nz_ord = (\<lambda>ks. ks)\<rparr>
     (JObj [(''slug'', JStr ''happy-eagle''), (''n'', JNum 1)]) =
   Normalize demo_canonical \<lparr>nz_paths = [], nz_live = False, nz_ord = (\<lambda>ks. ks)\<rparr>
     (JObj [(''slug'', JStr ''calm-fox''), (''n'', JNum 1)])"
proof -
  have "mask_field False ''slug'' (JStr s) = Some ''<slug>''" for s
    by (simp add: mask_field_def idFields_def tsFields_def isString_def)
  then have "similar (nz_live \<lparr>nz_paths = [], nz_live = False, nz_ord = (\<lambda>ks. ks)\<rparr>)
      (JObj [(''slug'', JStr ''happy-eagle''), (''n'', JNum 1)]) (JObj [(''slug'', JStr ''calm-fox''), (''n'', JNum 1)])"
    by (intro similar.sim_obj) (simp add: similar.sim_refl)
  from normalize_hides_volatile [OF this] show ?thesis .
qed

subsection \<open>An example comparison\<close>

definition demo_scalar :: "json \<Rightarrow> string" where
  "demo_scalar v =
     (case v of
        JNull \<Rightarrow> ''n'' | JBool b \<Rightarrow> (if b then ''t'' else ''f'') | JNum q \<Rightarrow> CHR ''#'' # replicate (to_nat q) (CHR ''1'')
      | JStr s \<Rightarrow> CHR ''s'' # s | JArr xs \<Rightarrow> ''['' | JObj m \<Rightarrow> ''{'')"

definition demo_text_env :: text_env where
  "demo_text_env =
     \<lparr>te_unmarshal = (\<lambda>s. if s \<in> {''1'', ''1 ''} then Some (JNum 1) else None),
      te_scalar = demo_scalar, te_quote = (\<lambda>s. s)\<rparr>"

lemma demo_scalar_inj: "is_scalar a \<Longrightarrow> demo_scalar a = demo_scalar b \<Longrightarrow> a = b"
  by (cases a; cases b) (auto simp: demo_scalar_def is_scalar_def split: if_splits)

lemma demo_text_ok: "text_ok demo_text_env"
  using demo_scalar_inj by (auto simp: text_ok_def demo_text_env_def split: if_splits)

definition demo_file :: "string \<Rightarrow> conf_file" where
  "demo_file body =
     \<lparr>cf_target = ''t'', cf_scenarios = [\<lparr>sn_name = ''s'', sn_skipped = False,
        sn_steps = [\<lparr>st_name = ''a'', st_method = ''GET'', st_path = ''/'', st_status = 200, st_body = body, st_sse = [],
                     st_eventTypes = [], st_headers = []\<rparr>]\<rparr>]\<rparr>"


end
