(* ===== verification/PluginBridge.thy ===== *)
theory PluginBridge
  imports Deferred GoLib Utf8 "HOL-Library.Word" "HOL-Library.Sublist"
begin

text \<open>
  The bridge to the plugin host (\<^verbatim>\<open>internal/pluginbridge\<close>: \<^verbatim>\<open>jsonrpc.go\<close>, \<^verbatim>\<open>conn.go\<close>, \<^verbatim>\<open>bridge.go\<close>): messages in
  frames with a length header, a connection that multiplexes concurrent calls over them, and the hooks
  on top. Calls, the read loop and the teardown are steps over the connection's mutex sections. The lemmas
  say that a stream of frames is read back exactly, and that every call gets one answer.
\<close>

unbundle bit_operations_syntax

subsection \<open>Frames\<close>

definition maxFrameBytes :: nat where
  "maxFrameBytes = 64 * 1024 * 1024"

definition put_uint32 :: "32 word \<Rightarrow> string" where
  "put_uint32 w =
     map (\<lambda>i. char_of (unat (drop_bit i w AND 0xFF))) [24, 16, 8, 0]"

definition get_uint32 :: "string \<Rightarrow> 32 word" where
  "get_uint32 h = fold (\<lambda>c w. push_bit 8 w OR word_of_nat (byte_of c)) h 0"

text \<open>The bytes of a frame, or the error for a body that is too large; \<open>body\<close> is the encoded value.\<close>

definition writeFrame :: "string \<Rightarrow> string option" where
  "writeFrame body =
     (if length body > maxFrameBytes then None else Some (put_uint32 (word_of_nat (length body)) @ body))"

datatype frame_read = FrameBody string | FrameEOF | FrameTooLarge nat

definition readFrame :: "string \<Rightarrow> frame_read \<times> string" where
  "readFrame s =
     (if length s < 4 then (FrameEOF, [])
      else
        (let n = unat (get_uint32 (take 4 s));
             rest = drop 4 s
         in if n > maxFrameBytes then (FrameTooLarge n, rest)
            else if length rest < n then (FrameEOF, [])
            else (FrameBody (take n rest), drop n rest)))"

function read_frames :: "string \<Rightarrow> string list" where
  "read_frames s =
     (case readFrame s of (FrameBody b, rest) \<Rightarrow> b # read_frames rest | _ \<Rightarrow> [])"
  by pat_completeness auto
termination
  by (relation "measure length") (auto simp: readFrame_def Let_def split: if_splits)

declare read_frames.simps [simp del]

subsection \<open>Messages\<close>

record rpc_error =
  re_code :: int
  re_message :: string

record rpc_response =
  rp_id :: "64 word"
  rp_result :: string
  rp_error :: "rpc_error option"

record rpc_message =
  rm_id :: "64 word option"
  rm_method :: string
  rm_params :: string
  rm_result :: string
  rm_error :: "rpc_error option"

definition errClosed :: string where
  "errClosed = ''pluginbridge: connection closed''"

subsection \<open>The connection\<close>

text \<open>
  A call is known by its number. \<open>cn_sent\<close> are the responses sent on the calls' channels, \<open>cn_failing\<close> the
  calls the teardown has taken out of the map and not yet answered, \<open>cn_phase\<close> where each caller is.
\<close>

datatype call_phase = CallWriting | CallWaiting | CallReturned "string + string"

record conn =
  cn_nextID :: "64 word"
  cn_pending :: "64 word list"
  cn_failing :: "64 word list"
  cn_closed :: bool
  cn_done :: bool
  cn_sent :: "(64 word \<times> rpc_response) list"
  cn_phase :: "(64 word, call_phase) gomap"
  cn_notified :: "(string \<times> string) list"
  cn_replies :: "rpc_response list"

definition newConn :: conn where
  "newConn = \<lparr>cn_nextID = 0, cn_pending = [], cn_failing = [], cn_closed = False, cn_done = False, cn_sent = [],
     cn_phase = [], cn_notified = [], cn_replies = []\<rparr>"

definition call_enter :: "conn \<Rightarrow> (string + 64 word) \<times> conn" where
  "call_enter c =
     (if cn_closed c then (Inl errClosed, c)
      else
        (let i = cn_nextID c + 1
         in (Inr i, c\<lparr>cn_nextID := i, cn_pending := i # cn_pending c, cn_phase := gm_put i CallWriting (cn_phase c)\<rparr>)))"

definition call_return :: "64 word \<Rightarrow> string + string \<Rightarrow> conn \<Rightarrow> conn" where
  "call_return i r c = c\<lparr>cn_phase := gm_put i (CallReturned r) (cn_phase c)\<rparr>"

definition drop_pending :: "64 word \<Rightarrow> conn \<Rightarrow> conn" where
  "drop_pending i c = c\<lparr>cn_pending := removeAll i (cn_pending c)\<rparr>"

text \<open>The request has been written, or the write failed with an error.\<close>

definition call_written :: "64 word \<Rightarrow> string option \<Rightarrow> conn \<Rightarrow> conn" where
  "call_written i err c =
     (case err of
        Some e \<Rightarrow> call_return i (Inl e) (drop_pending i c)
      | None \<Rightarrow> c\<lparr>cn_phase := gm_put i CallWaiting (cn_phase c)\<rparr>)"

definition call_cancelled :: "64 word \<Rightarrow> string \<Rightarrow> conn \<Rightarrow> conn" where
  "call_cancelled i err c = call_return i (Inl err) (drop_pending i c)"

definition rpc_error_text :: "rpc_error \<Rightarrow> string" where
  "rpc_error_text e = ''plugin host error '' @ itoa_int (re_code e) @ '': '' @ re_message e"

definition call_receive :: "64 word \<Rightarrow> conn \<Rightarrow> conn option" where
  "call_receive i c =
     (case gm_get (cn_sent c) i of
        None \<Rightarrow> None
      | Some resp \<Rightarrow>
          Some (call_return i (case rp_error resp of Some e \<Rightarrow> Inl (rpc_error_text e) | None \<Rightarrow> Inr (rp_result resp)) c))"

definition conn_send :: "64 word \<Rightarrow> rpc_response \<Rightarrow> conn \<Rightarrow> conn" where
  "conn_send i resp c = c\<lparr>cn_sent := cn_sent c @ [(i, resp)]\<rparr>"

definition deliver :: "rpc_response \<Rightarrow> conn \<Rightarrow> conn" where
  "deliver resp c =
     (if rp_id resp \<in> set (cn_pending c) then conn_send (rp_id resp) resp (drop_pending (rp_id resp) c) else c)"

definition respondUnsupported :: "64 word \<Rightarrow> string \<Rightarrow> conn \<Rightarrow> conn" where
  "respondUnsupported i meth c =
     c\<lparr>cn_replies := cn_replies c @ [\<lparr>rp_id = i, rp_result = [],
         rp_error = Some \<lparr>re_code = -32601, re_message = ''method not supported: '' @ meth\<rparr>\<rparr>]\<rparr>"

text \<open>A frame the read loop has decoded; one it cannot decode is skipped.\<close>

definition read_message :: "rpc_message option \<Rightarrow> conn \<Rightarrow> conn" where
  "read_message msg c =
     (case msg of
        None \<Rightarrow> c
      | Some m \<Rightarrow>
          if rm_method m \<noteq> [] then
            (case rm_id m of
               None \<Rightarrow> c\<lparr>cn_notified := cn_notified c @ [(rm_method m, rm_params m)]\<rparr>
             | Some i \<Rightarrow> respondUnsupported i (rm_method m) c)
          else deliver \<lparr>rp_id = (case rm_id m of Some i \<Rightarrow> i | None \<Rightarrow> 0), rp_result = rm_result m,
                          rp_error = rm_error m\<rparr> c)"

definition teardown_take :: "conn \<Rightarrow> conn" where
  "teardown_take c =
     (if cn_closed c then c else c\<lparr>cn_closed := True, cn_failing := cn_pending c, cn_pending := []\<rparr>)"

definition teardown_fail :: "64 word \<Rightarrow> conn \<Rightarrow> conn" where
  "teardown_fail i c =
     conn_send i \<lparr>rp_id = i, rp_result = [], rp_error = Some \<lparr>re_code = -32000, re_message = errClosed\<rparr>\<rparr>
       (c\<lparr>cn_failing := removeAll i (cn_failing c)\<rparr>)"

definition teardown_done :: "conn \<Rightarrow> conn" where
  "teardown_done c = c\<lparr>cn_done := True\<rparr>"

text \<open>
  The goroutines interleave in any order. The read loop reads while the connection is open; numbers are
  not used up (there are \<open>2^64 - 1\<close> of them).
\<close>

inductive conn_raw :: "conn \<Rightarrow> conn \<Rightarrow> bool" where
  raw_enter: "cn_nextID c \<noteq> - 1 \<Longrightarrow> conn_raw c (snd (call_enter c))"
| raw_written: "gm_get (cn_phase c) i = Some CallWriting \<Longrightarrow> conn_raw c (call_written i err c)"
| raw_cancel: "gm_get (cn_phase c) i = Some CallWaiting \<Longrightarrow> conn_raw c (call_cancelled i err c)"
| raw_receive: "gm_get (cn_phase c) i = Some CallWaiting \<Longrightarrow> call_receive i c = Some c' \<Longrightarrow> conn_raw c c'"
| raw_read: "\<not> cn_closed c \<Longrightarrow> conn_raw c (read_message msg c)"
| raw_take: "\<not> cn_closed c \<Longrightarrow> conn_raw c (teardown_take c)"
| raw_fail: "i \<in> set (cn_failing c) \<Longrightarrow> conn_raw c (teardown_fail i c)"
| raw_done: "cn_closed c \<Longrightarrow> cn_failing c = [] \<Longrightarrow> conn_raw c (teardown_done c)"

inductive_cases conn_rawE: "conn_raw c c'"

subsection \<open>The bridge\<close>

text \<open>
  A hook's output is a Go struct: its fields with their kinds. Decoding over it sets every field whose
  value fits, skips the ones that do not and reports the first of those as an error.
\<close>

record go_field =
  gf_name :: string
  gf_fits :: "json \<Rightarrow> bool"
  gf_value :: json

definition set_field :: "string \<times> json \<Rightarrow> go_field list \<Rightarrow> go_field list" where
  "set_field kv out = map (\<lambda>f. if fold_name (gf_name f) = fold_name (fst kv) \<and> gf_fits f (snd kv)
                                then f\<lparr>gf_value := snd kv\<rparr> else f) out"

definition fits_all :: "go_field list \<Rightarrow> string \<times> json \<Rightarrow> bool" where
  "fits_all out kv = list_all (\<lambda>f. fold_name (gf_name f) = fold_name (fst kv) \<longrightarrow> gf_fits f (snd kv)) out"

definition unmarshal_over :: "jmap \<Rightarrow> go_field list \<Rightarrow> bool \<times> go_field list" where
  \<comment> \<open>whether there was no error, and the struct afterwards\<close>
  "unmarshal_over m out = (list_all (fits_all out) m, fold set_field m out)"

record plugin_tool =
  pt_id :: string
  pt_description :: string
  pt_parameters :: json

record bridge =
  bg_enabled :: bool
  bg_conn :: bool
  bg_ready :: bool
  bg_tools :: "plugin_tool list"

text \<open>A hook's answer: the failure of the call, or the result's text and its decoding.\<close>

datatype hook_answer = HookFails | HookResult string "json option"

definition Trigger :: "bridge option \<Rightarrow> hook_answer \<Rightarrow> go_field list \<Rightarrow> go_field list" where
  "Trigger b ans out =
     (case b of
        None \<Rightarrow> out
      | Some b \<Rightarrow>
          if \<not> bg_enabled b then out
          else if \<not> bg_conn b \<or> \<not> bg_ready b then out
          else (case ans of
                  HookFails \<Rightarrow> out
                | HookResult res dec \<Rightarrow>
                    if res = [] \<or> res = ''null'' then out
                    else (case dec of Some (JObj m) \<Rightarrow> snd (unmarshal_over m out) | _ \<Rightarrow> out)))"

definition bridge_notify :: "string \<times> string \<Rightarrow> (string \<Rightarrow> plugin_tool list option) \<Rightarrow> bridge \<Rightarrow> bridge" where
  "bridge_notify n decode b =
     (if fst n = ''host.ready'' then b\<lparr>bg_ready := True\<rparr>
      else if fst n = ''plugin.tools'' then (case decode (snd n) of None \<Rightarrow> b | Some ts \<Rightarrow> b\<lparr>bg_tools := ts\<rparr>)
      else b)"

datatype tool_call = ToolRefused string | ToolAnswered "string + json"

definition ExecuteTool :: "bridge option \<Rightarrow> string + json \<Rightarrow> tool_call" where
  "ExecuteTool b ans =
     (case b of
        None \<Rightarrow> ToolRefused errClosed
      | Some b \<Rightarrow> if \<not> bg_enabled b \<or> \<not> bg_conn b \<or> \<not> bg_ready b then ToolRefused errClosed else ToolAnswered ans)"

text \<open>Time budgets in seconds.\<close>

definition hookTimeouts :: "(string, int) gomap" where
  "hookTimeouts =
     [(''chat.params'', 5), (''chat.headers'', 5), (''permission.ask'', 5), (''command.execute.before'', 5),
      (''tool.execute.before'', 5), (''tool.execute.after'', 5), (''shell.env'', 3),
      (''experimental.chat.messages.transform'', 30), (''experimental.chat.system.transform'', 10),
      (''experimental.session.compacting'', 10), (''experimental.compaction.autocontinue'', 5),
      (''experimental.text.complete'', 10), (''tool.definition'', 5), (''config'', 5)]"

definition hookTimeout :: "string \<Rightarrow> int" where
  "hookTimeout name = (case gm_get hookTimeouts name of Some d \<Rightarrow> d | None \<Rightarrow> 5)"

subsection \<open>Frames are read back\<close>

lemma byte_word: "word_of_nat (byte_of (char_of (unat (x AND 0xFF :: 32 word)))) = x AND 0xFF"
proof -
  have b: "x AND 0xFF = take_bit 8 x" by (simp add: take_bit_eq_mask mask_eq_exp_minus_1)
  have "unat (take_bit 8 x) < 256"
    using take_bit_nat_less_exp [of 8 "unat x"] by (simp add: unsigned_take_bit_eq)
  then show ?thesis unfolding b by simp
qed

lemma get_put_uint32: "get_uint32 (put_uint32 w) = w"
proof -
  have f: "x AND 0xFF = take_bit 8 x" for x :: "32 word" by (simp add: take_bit_eq_mask mask_eq_exp_minus_1)
  have "get_uint32 (put_uint32 w) =
      push_bit 8 (push_bit 8 (push_bit 8 (take_bit 8 (drop_bit 24 w)) OR take_bit 8 (drop_bit 16 w)) OR take_bit 8 (drop_bit 8 w))
        OR take_bit 8 w"
    using byte_word [of "drop_bit 24 w"] byte_word [of "drop_bit 16 w"] byte_word [of "drop_bit 8 w"] byte_word [of w]
    by (simp add: get_uint32_def put_uint32_def f)
  also have "\<dots> = w"
  proof (rule bit_word_eqI)
    fix n
    assume n: "n < LENGTH(32)"
    consider "n < 8" | "8 \<le> n" "n < 16" | "16 \<le> n" "n < 24" | "24 \<le> n" by linarith
    then show "bit (push_bit 8 (push_bit 8 (push_bit 8 (take_bit 8 (drop_bit 24 w)) OR take_bit 8 (drop_bit 16 w)) OR take_bit 8 (drop_bit 8 w))
        OR take_bit 8 w) n = bit w n"
      using n by cases (auto simp: bit_simps)
  qed
  finally show ?thesis .
qed

lemma put_length [simp]: "length (put_uint32 w) = 4"
  by (simp add: put_uint32_def)

lemma writeFrame_length: "length body \<le> maxFrameBytes \<Longrightarrow> unat (word_of_nat (length body) :: 32 word) = length body"
  by (simp add: maxFrameBytes_def unat_of_nat take_bit_eq_mod)

lemma read_written:
  assumes "writeFrame body = Some f"
  shows "readFrame (f @ rest) = (FrameBody body, rest)"
proof -
  have "length body \<le> maxFrameBytes" "f = put_uint32 (word_of_nat (length body)) @ body"
    using assms by (auto simp: writeFrame_def split: if_splits)
  then show ?thesis using writeFrame_length [of body] by (simp add: readFrame_def get_put_uint32)
qed

lemma read_partial:
  assumes "writeFrame body = Some f" "k < length f"
  shows "fst (readFrame (take k f)) = FrameEOF"
proof -
  have f: "length body \<le> maxFrameBytes" "f = put_uint32 (word_of_nat (length body)) @ body"
    using assms by (auto simp: writeFrame_def split: if_splits)
  show ?thesis
  proof (cases "k < 4")
    case True
    then show ?thesis using assms(2) by (simp add: readFrame_def)
  next
    case False
    then have "take k f = put_uint32 (word_of_nat (length body)) @ take (k - 4) body" by (simp add: f(2))
    then show ?thesis using False assms(2) f writeFrame_length [of body] by (simp add: readFrame_def get_put_uint32 Let_def)
  qed
qed

text \<open>
  A reader of the bridge sees exactly the messages written: a stream of frames is read back message by
  message, and when the stream breaks off anywhere, the messages read are the first ones written.
\<close>

theorem frames_read_back:
  assumes "list_all2 (\<lambda>b f. writeFrame b = Some f) bodies frames"
  shows "read_frames (concat frames) = bodies \<and> prefix (read_frames (take k (concat frames))) bodies"
  using assms
proof (induction bodies frames arbitrary: k rule: list_all2_induct)
  case Nil
  then show ?case by (simp add: read_frames.simps readFrame_def)
next
  case (Cons b bs f fs)
  have whole: "read_frames (f @ s) = b # read_frames s" for s
    using read_written [OF Cons.hyps(1), of s] by (simp add: read_frames.simps [of "f @ s"])
  have "prefix (read_frames (take k (f @ concat fs))) (b # bs)"
  proof (cases "k < length f")
    case True
    have "fst (readFrame (take k f)) = FrameEOF" by (rule read_partial [OF Cons.hyps(1) True])
    then have "read_frames (take k f) = []"
      by (cases "readFrame (take k f)") (simp add: read_frames.simps [of "take k f"])
    then show ?thesis using True by simp
  next
    case False
    then show ?thesis using whole Cons.IH by simp
  qed
  then show ?case using whole Cons.IH by simp
qed

lemma frames_read_back_witness:
  "read_frames (concat (map (the \<circ> writeFrame) [''{}'', ''null''])) = [''{}'', ''null'']"
  using frames_read_back [of "[''{}'', ''null'']" "map (the \<circ> writeFrame) [''{}'', ''null'']" 0]
  by (simp add: writeFrame_def maxFrameBytes_def)

subsection \<open>Every call is answered once\<close>

definition cn_waits :: "conn \<Rightarrow> 64 word \<Rightarrow> bool" where
  "cn_waits c i = (i \<in> set (cn_pending c) \<or> i \<in> set (cn_failing c))"

definition cn_sends :: "conn \<Rightarrow> 64 word \<Rightarrow> nat" where
  "cn_sends c i = length (filter (\<lambda>x. fst x = i) (cn_sent c))"

text \<open>Numbers in use are not above the counter; who waits is known to the map, the teardown or a channel.\<close>

definition conn_inv :: "conn \<Rightarrow> bool" where
  "conn_inv c =
     ((\<forall>i. cn_waits c i \<or> cn_sends c i \<noteq> 0 \<or> gm_has (cn_phase c) i \<longrightarrow> i \<le> cn_nextID c) \<and>
      distinct (cn_pending c) \<and> distinct (cn_failing c) \<and> set (cn_pending c) \<inter> set (cn_failing c) = {} \<and>
      (cn_closed c \<longrightarrow> cn_pending c = []) \<and> (\<not> cn_closed c \<longrightarrow> cn_failing c = []) \<and>
      (cn_done c \<longrightarrow> cn_closed c \<and> cn_failing c = []) \<and>
      (\<forall>i. gm_get (cn_phase c) i \<in> {Some CallWriting, Some CallWaiting} \<longrightarrow> cn_waits c i \<or> cn_sends c i \<noteq> 0) \<and>
      (\<forall>(i, resp) \<in> set (cn_sent c). rp_id resp = i))"

definition conn_step :: "conn \<Rightarrow> conn \<Rightarrow> bool" where
  "conn_step c c' = (conn_inv c \<and> conn_raw c c')"

lemma next_number:
  assumes "w \<noteq> - 1" "i \<le> w"
  shows "i < w + (1 :: 64 word)"
proof -
  have "1 + w \<noteq> 0" using assms(1) by (simp add: add_eq_0_iff)
  then show ?thesis using assms(2) unatSuc [of w] by (simp add: word_less_nat_alt word_le_nat_alt add.commute)
qed

definition in_call :: "conn \<Rightarrow> 64 word \<Rightarrow> bool" where
  "in_call c i = (gm_get (cn_phase c) i \<in> {Some CallWriting, Some CallWaiting})"

lemma conn_invD:
  assumes "conn_inv c"
  shows "cn_waits c i \<Longrightarrow> i \<le> cn_nextID c" "cn_sends c i \<noteq> 0 \<Longrightarrow> i \<le> cn_nextID c"
    "gm_has (cn_phase c) i \<Longrightarrow> i \<le> cn_nextID c"
    "distinct (cn_pending c)" "distinct (cn_failing c)" "set (cn_pending c) \<inter> set (cn_failing c) = {}"
    "cn_closed c \<Longrightarrow> cn_pending c = []" "\<not> cn_closed c \<Longrightarrow> cn_failing c = []" "cn_done c \<Longrightarrow> cn_closed c"
    "cn_done c \<Longrightarrow> cn_failing c = []" "in_call c i \<Longrightarrow> cn_waits c i \<or> cn_sends c i \<noteq> 0"
    "(i, resp) \<in> set (cn_sent c) \<Longrightarrow> rp_id resp = i"
  using assms unfolding conn_inv_def in_call_def by blast+

lemma conn_invI:
  assumes "\<And>i. cn_waits c i \<Longrightarrow> i \<le> cn_nextID c" "\<And>i. cn_sends c i \<noteq> 0 \<Longrightarrow> i \<le> cn_nextID c"
    "\<And>i. gm_has (cn_phase c) i \<Longrightarrow> i \<le> cn_nextID c"
    "distinct (cn_pending c)" "distinct (cn_failing c)" "set (cn_pending c) \<inter> set (cn_failing c) = {}"
    "cn_closed c \<Longrightarrow> cn_pending c = []" "\<not> cn_closed c \<Longrightarrow> cn_failing c = []" "cn_done c \<Longrightarrow> cn_closed c"
    "cn_done c \<Longrightarrow> cn_failing c = []" "\<And>i. in_call c i \<Longrightarrow> cn_waits c i \<or> cn_sends c i \<noteq> 0"
    "\<And>i resp. (i, resp) \<in> set (cn_sent c) \<Longrightarrow> rp_id resp = i"
  shows "conn_inv c"
  using assms unfolding conn_inv_def in_call_def by blast

lemma enter_inv:
  assumes "conn_inv c" "cn_nextID c \<noteq> - 1"
  shows "conn_inv (snd (call_enter c))"
proof (cases "cn_closed c")
  case False
  let ?i = "cn_nextID c + 1"
  let ?c = "snd (call_enter c)"
  have lt: "\<And>j. j \<le> cn_nextID c \<Longrightarrow> j < ?i" using next_number [OF assms(2)] by blast
  note D = conn_invD [OF assms(1)]
  have f: "cn_pending ?c = ?i # cn_pending c" "cn_failing ?c = cn_failing c" "cn_closed ?c = cn_closed c" "cn_done ?c = cn_done c"
    "cn_sent ?c = cn_sent c" "cn_nextID ?c = ?i" "cn_phase ?c = gm_put ?i CallWriting (cn_phase c)"
    using False by (simp_all add: call_enter_def Let_def)
  have w: "cn_waits ?c j \<longleftrightarrow> j = ?i \<or> cn_waits c j" "cn_sends ?c j = cn_sends c j"
    "in_call ?c j \<longleftrightarrow> j = ?i \<or> in_call c j" for j
    using f by (auto simp: cn_waits_def cn_sends_def in_call_def)
  have "\<not> cn_waits c ?i" using D(1) [of ?i] lt [of ?i] by blast
  then have new: "?i \<notin> set (cn_pending c)" "?i \<notin> set (cn_failing c)" by (simp_all add: cn_waits_def)
  show ?thesis
  proof (rule conn_invI)
    show "j \<le> cn_nextID ?c" if "cn_waits ?c j" for j using that D(1) [of j] lt by (auto simp: w f intro: less_imp_le)
    show "j \<le> cn_nextID ?c" if "cn_sends ?c j \<noteq> 0" for j using that D(2) [of j] lt by (auto simp: w f intro: less_imp_le)
    show "j \<le> cn_nextID ?c" if "gm_has (cn_phase ?c) j" for j using that D(3) [of j] lt by (auto simp: f intro: less_imp_le)
    show "cn_waits ?c j \<or> cn_sends ?c j \<noteq> 0" if "in_call ?c j" for j using that D(11) [of j] by (auto simp: w)
  qed (use D False new f in auto)
qed (use assms in \<open>simp add: call_enter_def\<close>)

lemma drop_frame [simp, frame]:
  "cn_phase (drop_pending i c) = cn_phase c" "cn_sent (drop_pending i c) = cn_sent c" "cn_failing (drop_pending i c) = cn_failing c"
  "cn_nextID (drop_pending i c) = cn_nextID c" "cn_closed (drop_pending i c) = cn_closed c" "cn_done (drop_pending i c) = cn_done c"
  "cn_pending (drop_pending i c) = removeAll i (cn_pending c)"
  by (simp_all add: drop_pending_def)

lemma send_frame [simp, frame]:
  "cn_phase (conn_send i r c) = cn_phase c" "cn_sent (conn_send i r c) = cn_sent c @ [(i, r)]"
  "cn_failing (conn_send i r c) = cn_failing c" "cn_nextID (conn_send i r c) = cn_nextID c"
  "cn_closed (conn_send i r c) = cn_closed c" "cn_done (conn_send i r c) = cn_done c" "cn_pending (conn_send i r c) = cn_pending c"
  by (simp_all add: conn_send_def)

lemma distinct_removeAll [simp]: "distinct xs \<Longrightarrow> distinct (removeAll x xs)"
  by (simp add: removeAll_filter_not_eq)

lemma phase_inv:
  assumes "conn_inv c" "in_call c i"
  shows "conn_inv (c\<lparr>cn_phase := gm_put i p (cn_phase c)\<rparr>)" (is "conn_inv ?c")
proof -
  note D = conn_invD [OF assms(1)]
  have w: "cn_waits ?c j = cn_waits c j" "cn_sends ?c j = cn_sends c j" for j
    by (simp_all add: cn_waits_def cn_sends_def)
  have has: "gm_has (cn_phase ?c) j \<Longrightarrow> gm_has (cn_phase c) j" for j
    using assms(2) by (cases "j = i") (auto simp: in_call_def gm_has_def)
  show ?thesis
  proof (rule conn_invI)
    show "j \<le> cn_nextID ?c" if "gm_has (cn_phase ?c) j" for j using D(3) [OF has [OF that]] by simp
    show "cn_waits ?c j \<or> cn_sends ?c j \<noteq> 0" if "in_call ?c j" for j
      using that D(11) [of j] D(11) [OF assms(2)] unfolding w by (cases "j = i") (simp_all add: in_call_def)
  qed (use D w in auto)
qed

lemma drop_inv:
  assumes "conn_inv c" "\<not> in_call c i"
  shows "conn_inv (drop_pending i c)" (is "conn_inv ?c")
proof -
  note D = conn_invD [OF assms(1)]
  have w: "cn_waits ?c j \<Longrightarrow> cn_waits c j" "cn_sends ?c j = cn_sends c j" "in_call ?c j = in_call c j"
    "j \<noteq> i \<Longrightarrow> cn_waits ?c j = cn_waits c j" for j
    by (auto simp: cn_waits_def cn_sends_def in_call_def)
  show ?thesis
  proof (rule conn_invI)
    show "j \<le> cn_nextID ?c" if "cn_waits ?c j" for j using D(1) [OF w(1) [OF that]] by simp
    show "cn_waits ?c j \<or> cn_sends ?c j \<noteq> 0" if "in_call ?c j" for j
      using that D(11) [of j] assms(2) w by (cases "j = i") auto
  qed (use D w in auto)
qed

lemma left_inv: "conn_inv c \<Longrightarrow> in_call c i \<Longrightarrow> conn_inv (call_return i r (drop_pending i c))"
proof -
  assume inv: "conn_inv c" and i: "in_call c i"
  have "call_return i r (drop_pending i c) = drop_pending i (c\<lparr>cn_phase := gm_put i (CallReturned r) (cn_phase c)\<rparr>)"
    by (simp add: call_return_def drop_pending_def)
  moreover have "\<not> in_call (c\<lparr>cn_phase := gm_put i (CallReturned r) (cn_phase c)\<rparr>) i" by (simp add: in_call_def)
  ultimately show ?thesis using drop_inv phase_inv [OF inv i] by simp
qed

lemma written_inv: "conn_inv c \<Longrightarrow> gm_get (cn_phase c) i = Some CallWriting \<Longrightarrow> conn_inv (call_written i err c)"
  using left_inv [of c i] phase_inv [of c i CallWaiting] by (cases err) (simp_all add: call_written_def in_call_def)

lemma cancelled_inv: "conn_inv c \<Longrightarrow> gm_get (cn_phase c) i = Some CallWaiting \<Longrightarrow> conn_inv (call_cancelled i err c)"
  using left_inv [of c i] by (simp add: call_cancelled_def in_call_def)

lemma receive_inv:
  "conn_inv c \<Longrightarrow> gm_get (cn_phase c) i = Some CallWaiting \<Longrightarrow> call_receive i c = Some c' \<Longrightarrow> conn_inv c'"
  using phase_inv [of c i] by (auto simp: call_receive_def call_return_def in_call_def split: option.splits)

lemma moved_waits:
  "i \<in> set (cn_pending c) \<Longrightarrow> set (cn_pending c) \<inter> set (cn_failing c) = {} \<Longrightarrow>
   cn_waits (conn_send i resp (drop_pending i c)) j \<longleftrightarrow> j \<noteq> i \<and> cn_waits c j"
  "cn_sends (conn_send i resp c) j = (if j = i then Suc (cn_sends c j) else cn_sends c j)"
  "cn_sends (drop_pending i c) j = cn_sends c j"
  by (auto simp: cn_waits_def cn_sends_def)

lemma deliver_inv: "conn_inv c \<Longrightarrow> conn_inv (deliver resp c)"
proof (cases "rp_id resp \<in> set (cn_pending c)")
  case True
  assume inv: "conn_inv c"
  let ?i = "rp_id resp"
  let ?c = "conn_send ?i resp (drop_pending ?i c)"
  have dis: "set (cn_pending c) \<inter> set (cn_failing c) = {}" using inv by (simp add: conn_inv_def)
  have w: "cn_waits ?c j \<longleftrightarrow> j \<noteq> ?i \<and> cn_waits c j"
    "cn_sends ?c j = (if j = ?i then Suc (cn_sends c j) else cn_sends c j)" for j
    using moved_waits(1) [OF True dis] moved_waits(2,3) by simp_all
  have i: "cn_waits c ?i" using True by (simp add: cn_waits_def)
  note D = conn_invD [OF inv]
  have "conn_inv ?c"
  proof (rule conn_invI)
    show "j \<le> cn_nextID ?c" if "cn_waits ?c j" for j using that D(1) [of j] by (simp add: w)
    show "j \<le> cn_nextID ?c" if "cn_sends ?c j \<noteq> 0" for j
      using that D(2) [of j] D(1) [OF i] by (cases "j = ?i") (simp_all add: w)
    show "j \<le> cn_nextID ?c" if "gm_has (cn_phase ?c) j" for j using that D(3) [of j] by simp
    show "cn_waits ?c j \<or> cn_sends ?c j \<noteq> 0" if "in_call ?c j" for j
      using that D(11) [of j] by (auto simp: w in_call_def)
    show "rp_id r = j" if "(j, r) \<in> set (cn_sent ?c)" for j r using that D(12) by auto
  qed (use D in auto)
  then show ?thesis using True by (simp add: deliver_def)
qed (simp add: deliver_def)

lemma read_inv: "conn_inv c \<Longrightarrow> conn_inv (read_message msg c)"
proof -
  assume inv: "conn_inv c"
  have "conn_inv (c\<lparr>cn_notified := xs\<rparr>)" "conn_inv (c\<lparr>cn_replies := ys\<rparr>)" for xs ys
    using inv by (simp_all add: conn_inv_def cn_waits_def cn_sends_def)
  then show ?thesis using inv deliver_inv by (auto simp: read_message_def respondUnsupported_def split: option.splits)
qed

lemma take_inv: "conn_inv c \<Longrightarrow> \<not> cn_closed c \<Longrightarrow> conn_inv (teardown_take c)"
proof -
  assume inv: "conn_inv c" and o: "\<not> cn_closed c"
  note D = conn_invD [OF inv]
  let ?c = "teardown_take c"
  have w: "cn_waits ?c j = cn_waits c j" "cn_sends ?c j = cn_sends c j" "in_call ?c j = in_call c j" for j
    using D(8) [OF o] o by (auto simp: teardown_take_def cn_waits_def cn_sends_def in_call_def)
  show ?thesis
    by (rule conn_invI) (use D o in \<open>simp_all add: w\<close>, auto simp: teardown_take_def)
qed

lemma fail_inv: "conn_inv c \<Longrightarrow> i \<in> set (cn_failing c) \<Longrightarrow> conn_inv (teardown_fail i c)"
proof -
  assume inv: "conn_inv c" and i: "i \<in> set (cn_failing c)"
  note D = conn_invD [OF inv]
  let ?c = "teardown_fail i c"
  have p: "i \<notin> set (cn_pending c)" using D(6) i by auto
  have w: "cn_waits ?c j \<longleftrightarrow> j \<noteq> i \<and> cn_waits c j" "cn_sends ?c j = (if j = i then Suc (cn_sends c j) else cn_sends c j)"
    "in_call ?c j = in_call c j" for j
    using p by (auto simp: teardown_fail_def cn_waits_def cn_sends_def in_call_def)
  have le: "i \<le> cn_nextID c" using D(1) [of i] i by (simp add: cn_waits_def)
  have f: "cn_nextID ?c = cn_nextID c" "cn_phase ?c = cn_phase c" "cn_pending ?c = cn_pending c"
    "cn_failing ?c = removeAll i (cn_failing c)" "cn_closed ?c = cn_closed c" "cn_done ?c = cn_done c"
    by (simp_all add: teardown_fail_def)
  show ?thesis
  proof (rule conn_invI)
    show "j \<le> cn_nextID ?c" if "cn_waits ?c j" for j using that D(1) [of j] by (simp add: w f)
    show "j \<le> cn_nextID ?c" if "cn_sends ?c j \<noteq> 0" for j using that D(2) [of j] le by (cases "j = i") (simp_all add: w f)
    show "cn_waits ?c j \<or> cn_sends ?c j \<noteq> 0" if "in_call ?c j" for j using that D(11) [of j] by (auto simp: w)
    show "rp_id r = j" if "(j, r) \<in> set (cn_sent ?c)" for j r using that D(12) by (auto simp: teardown_fail_def)
  qed (use D f in auto)
qed

lemma done_inv: "conn_inv c \<Longrightarrow> cn_closed c \<Longrightarrow> cn_failing c = [] \<Longrightarrow> conn_inv (teardown_done c)"
proof -
  assume inv: "conn_inv c" and c: "cn_closed c" "cn_failing c = []"
  note D = conn_invD [OF inv]
  let ?c = "teardown_done c"
  have w: "cn_waits ?c j = cn_waits c j" "cn_sends ?c j = cn_sends c j" "in_call ?c j = in_call c j" for j
    by (simp_all add: teardown_done_def cn_waits_def cn_sends_def in_call_def)
  show ?thesis
    by (rule conn_invI) (use D c in \<open>simp_all add: w\<close>, auto simp: teardown_done_def)
qed

lemmas conn_invs = enter_inv written_inv cancelled_inv receive_inv read_inv take_inv fail_inv done_inv

lemma raw_inv: "conn_raw c c' \<Longrightarrow> conn_inv c \<Longrightarrow> conn_inv c'"
  by (induction rule: conn_raw.induct) (simp_all add: conn_invs)

lemma init_inv: "conn_inv newConn"
  by (simp add: conn_inv_def newConn_def cn_waits_def cn_sends_def gm_has_def)

lemma raw_reaches:
  assumes "conn_raw\<^sup>*\<^sup>* newConn c"
  shows "conn_step\<^sup>*\<^sup>* newConn c \<and> conn_inv c"
  using assms
proof (induction rule: rtranclp_induct)
  case base
  then show ?case using init_inv by simp
next
  case (step c c')
  then show ?case using raw_inv by (metis conn_step_def rtranclp.rtrancl_into_rtrancl)
qed

interpretation calls: deferred conn_step cn_waits cn_sends
proof
  fix c c' i
  assume "conn_step c c'"
  then have inv: "conn_inv c" and step: "conn_raw c c'" by (simp_all add: conn_step_def)
  let ?law = "\<lambda>c'. (cn_sends c' i = cn_sends c i \<and> (cn_waits c' i \<longrightarrow> cn_waits c i \<or> cn_sends c i = 0))
      \<or> (cn_waits c i \<and> \<not> cn_waits c' i \<and> cn_sends c' i = Suc (cn_sends c i))"
  from step show "?law c'"
  proof cases
    case raw_enter
    have "cn_sends c (cn_nextID c + 1) = 0"
      using conn_invD(2) [OF inv, of "cn_nextID c + 1"] next_number [OF raw_enter(2), of "cn_nextID c + 1"] by blast
    then show ?thesis by (auto simp: raw_enter(1) call_enter_def Let_def cn_waits_def cn_sends_def)
  next
    case (raw_read msg)
    have "?law (deliver resp c)" for resp
      using conn_invD(6) [OF inv] by (auto simp: deliver_def cn_waits_def cn_sends_def)
    then show ?thesis unfolding raw_read(1)
      by (auto simp: read_message_def respondUnsupported_def cn_waits_def cn_sends_def split: option.split)
  next
    case (raw_fail j)
    then show ?thesis using conn_invD(6) [OF inv] by (auto simp: teardown_fail_def cn_waits_def cn_sends_def)
  next
    case (raw_written j err)
    then show ?thesis by (cases err) (auto simp: call_written_def call_return_def cn_waits_def cn_sends_def)
  qed (auto simp: call_cancelled_def call_receive_def call_return_def teardown_take_def teardown_done_def cn_waits_def cn_sends_def
      split: option.splits)
qed

text \<open>
  C15. Calls over the bridge are answered once, and none is left behind: in every interleaving of calls,
  cancellations, the read loop and the teardown, a call's channel gets at most one response, its own;
  and when the connection is torn down every caller still waiting can take one and return.
\<close>

theorem every_call_answered:
  assumes "conn_raw\<^sup>*\<^sup>* newConn c"
  shows "cn_sends c i \<le> 1 \<and> (gm_get (cn_sent c) i = Some resp \<longrightarrow> rp_id resp = i) \<and>
    (cn_done c \<and> gm_get (cn_phase c) i = Some CallWaiting \<longrightarrow> (\<exists>c'. call_receive i c = Some c' \<and> conn_raw c c'))"
proof -
  from raw_reaches [OF assms] have r: "conn_step\<^sup>*\<^sup>* newConn c" and inv: "conn_inv c" by blast+
  have "calls.settled newConn" by (simp add: calls.settled_def newConn_def cn_waits_def cn_sends_def)
  with r have "calls.settled c" by (rule calls.settled_reachable)
  then have "cn_sends c i \<le> 1" by (simp add: calls.settled_def)
  moreover have "gm_get (cn_sent c) i = Some resp \<Longrightarrow> rp_id resp = i"
    using conn_invD(12) [OF inv] by (auto dest: map_of_SomeD)
  moreover have "\<exists>c'. call_receive i c = Some c' \<and> conn_raw c c'"
    if "cn_done c" "gm_get (cn_phase c) i = Some CallWaiting"
  proof -
    have "\<not> cn_waits c i" using conn_invD(7,9,10) [OF inv] that(1) by (simp add: cn_waits_def)
    moreover have "cn_waits c i \<or> cn_sends c i \<noteq> 0" using conn_invD(11) [OF inv, of i] that(2) by (simp add: in_call_def)
    ultimately have "cn_sends c i \<noteq> 0" by blast
    then have "i \<in> fst ` set (cn_sent c)" by (auto simp: cn_sends_def filter_empty_conv)
    then obtain resp where "gm_get (cn_sent c) i = Some resp"
      by (metis map_of_eq_None_iff not_Some_eq)
    then have "\<exists>c'. call_receive i c = Some c'" by (simp add: call_receive_def)
    then show ?thesis using raw_receive [OF that(2)] by blast
  qed
  ultimately show ?thesis by blast
qed

lemma every_call_answered_witness:
  "\<exists>c. gm_get (cn_phase c) 1 = Some CallWaiting \<and> cn_done c \<and> (\<exists>c'. call_receive 1 c = Some c' \<and> conn_raw c c')"
proof -
  let ?c1 = "snd (call_enter newConn)"
  let ?c2 = "call_written 1 None ?c1"
  let ?c3 = "teardown_take ?c2"
  let ?c4 = "teardown_fail 1 ?c3"
  let ?c5 = "teardown_done ?c4"
  have "conn_raw newConn ?c1" by (rule raw_enter) (simp add: newConn_def)
  moreover have "conn_raw ?c1 ?c2" by (rule raw_written) (simp add: newConn_def call_enter_def)
  moreover have "conn_raw ?c2 ?c3" by (rule raw_take) (simp add: newConn_def call_enter_def call_written_def)
  moreover have "conn_raw ?c3 ?c4"
    by (rule raw_fail) (simp add: newConn_def call_enter_def call_written_def teardown_take_def)
  moreover have "conn_raw ?c4 ?c5"
    by (rule raw_done) (simp_all add: newConn_def call_enter_def call_written_def teardown_take_def teardown_fail_def)
  ultimately have r: "conn_raw\<^sup>*\<^sup>* newConn ?c5" by (meson rtranclp.rtrancl_into_rtrancl rtranclp.rtrancl_refl)
  have s: "cn_done ?c5" "gm_get (cn_phase ?c5) 1 = Some CallWaiting"
    by (simp_all add: newConn_def call_enter_def call_written_def teardown_take_def teardown_fail_def teardown_done_def)
  from every_call_answered [OF r, of 1] s show ?thesis by blast
qed

subsection \<open>Hooks\<close>

text \<open>
  A hook that fails is not always without effect: an answer that does not fit the output's type is
  reported and treated as a failure, but the fields that did fit have been overwritten by then.
\<close>

theorem failed_hook_overwrites:
  assumes "bg_enabled b" "bg_conn b" "bg_ready b" "res \<noteq> []" "res \<noteq> ''null''"
    "f \<in> set out" "fold_name (gf_name f) = fold_name k" "gf_fits f v" "fits_all out (k', v') = False" "fold_name k' \<noteq> fold_name k"
  shows "fst (unmarshal_over [(k, v), (k', v')] out) = False \<and>
    f\<lparr>gf_value := v\<rparr> \<in> set (Trigger (Some b) (HookResult res (Some (JObj [(k, v), (k', v')]))) out)"
proof -
  have "f\<lparr>gf_value := v\<rparr> \<in> set (set_field (k, v) out)" using assms(6-8) by (force simp: set_field_def)
  moreover have "f\<lparr>gf_value := v\<rparr> \<in> set (set_field (k', v') xs)" if "f\<lparr>gf_value := v\<rparr> \<in> set xs" for xs
    using that assms(7,10) by (force simp: set_field_def)
  ultimately show ?thesis using assms by (simp add: Trigger_def unmarshal_over_def)
qed

lemma failed_hook_overwrites_witness:
  "\<exists>f out. gf_value f = JNum 0 \<and> f\<lparr>gf_value := JNum 1\<rparr> \<in>
     set (Trigger (Some \<lparr>bg_enabled = True, bg_conn = True, bg_ready = True, bg_tools = []\<rparr>)
       (HookResult ''x'' (Some (JObj [(''temperature'', JNum 1), (''topP'', JStr ''a'')]))) out)"
proof -
  let ?num = "\<lambda>v. case v of JNum q \<Rightarrow> True | _ \<Rightarrow> False"
  let ?f = "\<lparr>gf_name = ''temperature'', gf_fits = ?num, gf_value = JNum 0\<rparr>"
  let ?g = "\<lparr>gf_name = ''topP'', gf_fits = ?num, gf_value = JNum 0\<rparr>"
  have n: "fold_name ''temperature'' \<noteq> fold_name ''topP''" by code_simp
  have "?f\<lparr>gf_value := JNum 1\<rparr> \<in>
     set (Trigger (Some \<lparr>bg_enabled = True, bg_conn = True, bg_ready = True, bg_tools = []\<rparr>)
       (HookResult ''x'' (Some (JObj [(''temperature'', JNum 1), (''topP'', JStr ''a'')]))) [?f, ?g])"
    using failed_hook_overwrites [of "\<lparr>bg_enabled = True, bg_conn = True, bg_ready = True, bg_tools = []\<rparr>" "''x''" ?f "[?f, ?g]"
        "''temperature''" "JNum 1" "''topP''" "JStr ''a''"] n by (simp add: fits_all_def)
  then show ?thesis by (intro exI [of _ ?f] exI [of _ "[?f, ?g]"]) simp
qed

end
