(* ===== verification/Agents.thy ===== *)
theory Agents
  imports Workspace Config Engine
begin

text \<open>
  The project's resources (\<^verbatim>\<open>internal/resource\<close>): where they are looked for, how a markdown file is split
  and named, the agents with their permission rules, commands, skills and instructions; and what a
  prompt makes of them (\<^verbatim>\<open>internal/server/prompt_handlers.go\<close>, \<^verbatim>\<open>subagent.go\<close>): its agent, its rules,
  its model and its system prompt. Globbing and YAML are third-party code: their results are
  fields of the environment. The lemmas say which file decides an agent, that its rules reach the
  executor, and what happens when nothing decides.
\<close>

subsection \<open>Where resources are looked for\<close>

definition res_configHome :: "config_env \<Rightarrow> string" where
  "res_configHome env =
     (if ce_getenv env ''XDG_CONFIG_HOME'' \<noteq> [] then path_join (ce_getenv env ''XDG_CONFIG_HOME'') ''opencode''
      else (case ce_home env of None \<Rightarrow> [] | Some home \<Rightarrow> path_join home ''.config/opencode''))"

fun walk_down :: "string \<Rightarrow> string list \<Rightarrow> string list" where
  "walk_down cur [] = []"
| "walk_down cur (seg # segs) = path_join cur seg # walk_down (path_join cur seg) segs"

definition ancestors :: "string \<Rightarrow> string \<Rightarrow> string list" where
  "ancestors wt dir =
     (let wt = path_clean wt; dir = path_clean dir
      in case path_rel wt dir of
           None \<Rightarrow> [dir]
         | Some rel \<Rightarrow>
             if rel = ''..'' \<or> has_prefix rel ''../'' then [dir]
             else wt # (if rel = ''.'' then [] else walk_down wt (split_on (CHR ''/'') rel)))"

definition ConfigDirs :: "config_env \<Rightarrow> string \<Rightarrow> string list" where
  "ConfigDirs env dir =
     (let home = res_configHome env
      in (if home \<noteq> [] then [home] else [])
         @ (if dir = [] then []
            else map (\<lambda>anc. path_join anc ''.opencode'') (ancestors (Root (ce_has_git env) dir) dir)))"

subsection \<open>Markdown files\<close>

abbreviation (input) cr_char :: char where
  "cr_char \<equiv> CHR 0x0D"

abbreviation (input) lf_char :: char where
  "lf_char \<equiv> CHR 0x0A"

fun scan_fence :: "string list \<Rightarrow> (string list \<times> string list) option" where
  \<comment> \<open>the lines before the closing fence and those after it\<close>
  "scan_fence [] = None"
| "scan_fence (l # lns) =
     (let l = trim_right (\<lambda>c. c = cr_char) l
      in if l = ''---'' then Some ([], lns)
         else map_option (\<lambda>(fm, rest). (l # fm, rest)) (scan_fence lns))"

definition splitFrontmatter :: "string \<Rightarrow> string \<times> string" where
  "splitFrontmatter s =
     (if \<not> has_prefix s ''---'' then ([], trim_space s)
      else (let rest = drop 3 s
            in if \<not> has_prefix rest [lf_char] \<and> \<not> has_prefix rest [cr_char, lf_char] then ([], trim_space s)
               else (case scan_fence (tl (split_on lf_char rest)) of
                       None \<Rightarrow> ([], trim_space s)
                     | Some (fm, after) \<Rightarrow> (str_join fm [lf_char], trim_space (str_join after [lf_char])))))"

definition path_ext :: "string \<Rightarrow> string" where
  \<comment> \<open>\<^verbatim>\<open>filepath.Ext\<close>\<close>
  "path_ext p =
     (let base = rev (takeWhile (\<lambda>c. c \<noteq> CHR ''/'') (rev p))
      in if CHR ''.'' \<in> set base then CHR ''.'' # rev (takeWhile (\<lambda>c. c \<noteq> CHR ''.'') (rev base)) else [])"

fun strip_prefix :: "string \<Rightarrow> string list \<Rightarrow> string" where
  "strip_prefix rel [] = rel"
| "strip_prefix rel (p # ps) = (if has_prefix rel p then drop (length p) rel else strip_prefix rel ps)"

definition entryName :: "string \<Rightarrow> string list \<Rightarrow> string" where
  "entryName rel prefixes =
     (let rel = strip_prefix rel prefixes
      in take (length rel - length (path_ext rel)) rel)"

subsection \<open>Agents\<close>

record agent =
  ag_name :: string
  ag_description :: string
  ag_mode :: string
  ag_native :: bool
  ag_hidden :: bool
  ag_topP :: "f64 option"
  ag_temperature :: "f64 option"
  ag_color :: string
  ag_permission :: "ruleset option"
  ag_model :: "(string \<times> string) option"
  ag_variant :: string
  ag_prompt :: string
  ag_options :: "jmap option"
  ag_steps :: "int option"

definition zero_agent :: agent where
  "zero_agent = \<lparr>ag_name = [], ag_description = [], ag_mode = [], ag_native = False, ag_hidden = False, ag_topP = None,
     ag_temperature = None, ag_color = [], ag_permission = None, ag_model = None, ag_variant = [], ag_prompt = [],
     ag_options = None, ag_steps = None\<rparr>"

definition allowAll :: ruleset where
  "allowAll = [\<lparr>r_permission = ''*'', r_pattern = ''*'', r_action = ActionAllow\<rparr>]"

definition native_agent :: "string \<Rightarrow> string \<Rightarrow> bool \<Rightarrow> string \<Rightarrow> string \<times> agent" where
  "native_agent n mode hidden desc =
     (n, zero_agent\<lparr>ag_name := n, ag_mode := mode, ag_native := True, ag_hidden := hidden, ag_description := desc,
                    ag_permission := Some allowAll, ag_options := Some []\<rparr>)"

definition builtinAgents :: "(string, agent) gomap" where
  "builtinAgents =
     [native_agent ''build'' ''primary'' False ''The default agent. Executes tools based on configured permissions.'',
      native_agent ''plan'' ''primary'' False ''Read-only planning agent that proposes changes without editing.'',
      native_agent ''general'' ''subagent'' False
        ''General-purpose agent for researching complex questions and multi-step tasks.'',
      native_agent ''explore'' ''subagent'' False
        ''Read-only search agent for broad fan-out searches across the codebase.'',
      native_agent ''compaction'' ''primary'' True [],
      native_agent ''title'' ''primary'' True [],
      native_agent ''summary'' ''primary'' True []]"

definition complete_agent :: "string \<Rightarrow> agent \<Rightarrow> agent" where
  "complete_agent name a =
     a\<lparr>ag_name := name,
       ag_options := (if ag_options a = None then Some [] else ag_options a),
       ag_permission := (if ag_permission a = None then Some [] else ag_permission a),
       ag_mode := (if ag_mode a = [] then ''all'' else ag_mode a)\<rparr>"

definition applyAgent :: "string \<Rightarrow> agent option \<Rightarrow> (string, agent) gomap \<Rightarrow> (string, agent) gomap" where
  "applyAgent name entry agents =
     (case entry of None \<Rightarrow> gm_del name agents | Some a \<Rightarrow> gm_put name (complete_agent name a) agents)"

text \<open>The frontmatter after YAML's decoding, whatever of it could be decoded.\<close>

record agent_frontmatter =
  af_model :: string
  af_variant :: string
  af_temperature :: "f64 option"
  af_topP :: "f64 option"
  af_prompt :: string
  af_tools :: "(string, bool) gomap"
  af_disable :: bool
  af_description :: string
  af_mode :: string
  af_hidden :: bool
  af_color :: string
  af_steps :: "int option"
  af_maxSteps :: "int option"
  af_options :: "jmap option"
  af_permission :: json

definition zero_frontmatter :: agent_frontmatter where
  "zero_frontmatter = \<lparr>af_model = [], af_variant = [], af_temperature = None, af_topP = None, af_prompt = [], af_tools = [],
     af_disable = False, af_description = [], af_mode = [], af_hidden = False, af_color = [], af_steps = None,
     af_maxSteps = None, af_options = None, af_permission = JNull\<rparr>"

definition toAction :: "json \<Rightarrow> perm_action option" where
  "toAction v =
     (case v of
        JStr s \<Rightarrow>
          if s = ''ask'' then Some ActionAsk else if s = ''allow'' then Some ActionAllow
          else if s = ''deny'' then Some ActionDeny else None
      | _ \<Rightarrow> None)"

definition key_rules :: "string \<Rightarrow> json \<Rightarrow> ruleset" where
  "key_rules key val =
     (case val of
        JStr s \<Rightarrow>
          (case toAction (JStr s) of
             Some a \<Rightarrow> [\<lparr>r_permission = key, r_pattern = ''*'', r_action = a\<rparr>] | None \<Rightarrow> [])
      | JObj pats \<Rightarrow>
          List.map_filter (\<lambda>(pat, act). map_option (\<lambda>a. \<lparr>r_permission = key, r_pattern = pat, r_action = a\<rparr>) (toAction act))
            (sort_key fst pats)
      | _ \<Rightarrow> [])"

definition parsePermissionConfig :: "json \<Rightarrow> ruleset" where
  "parsePermissionConfig v =
     (case v of
        JStr s \<Rightarrow>
          (case toAction (JStr s) of
             Some a \<Rightarrow> [\<lparr>r_permission = ''*'', r_pattern = ''*'', r_action = a\<rparr>] | None \<Rightarrow> [])
      | JObj t \<Rightarrow> concat (map (\<lambda>(key, val). key_rules key val) (sort_key fst t))
      | _ \<Rightarrow> [])"

definition parseModelRef :: "string \<Rightarrow> (string \<times> string) option" where
  \<comment> \<open>provider and model\<close>
  "parseModelRef s =
     (if s = [] then None
      else (case index_byte s (CHR ''/'') of
              Some i \<Rightarrow> Some (take i s, drop (Suc i) s)
            | None \<Rightarrow> Some ([], s)))"

definition tool_rule :: "string \<times> bool \<Rightarrow> rule" where
  "tool_rule nb =
     \<lparr>r_permission = (if fst nb = ''write'' \<or> fst nb = ''edit'' \<or> fst nb = ''patch'' then ''edit'' else fst nb),
      r_pattern = ''*'', r_action = (if snd nb then ActionAllow else ActionDeny)\<rparr>"

definition toolsToPermission :: "(string, bool) gomap \<Rightarrow> ruleset" where
  "toolsToPermission tools = map tool_rule (sort_key fst tools)"

definition parseAgent :: "(string \<Rightarrow> agent_frontmatter) \<Rightarrow> string \<Rightarrow> agent option" where
  "parseAgent yaml data =
     (case splitFrontmatter data of
        (text, body) \<Rightarrow>
          (let fm = (if text \<noteq> [] then yaml text else zero_frontmatter)
           in if af_disable fm then None
              else Some \<lparr>ag_name = [], ag_description = af_description fm, ag_mode = af_mode fm, ag_native = False,
                     ag_hidden = af_hidden fm, ag_topP = af_topP fm, ag_temperature = af_temperature fm,
                     ag_color = af_color fm,
                     ag_permission = Some (toolsToPermission (af_tools fm) @ parsePermissionConfig (af_permission fm)),
                     ag_model = parseModelRef (af_model fm), ag_variant = af_variant fm,
                     ag_prompt = (if body = [] then af_prompt fm else body), ag_options = af_options fm,
                     ag_steps = (if af_steps fm = None then af_maxSteps fm else af_steps fm)\<rparr>))"

definition json_str :: "jmap \<Rightarrow> string \<Rightarrow> string option" where
  "json_str m k = (case gm_get m k of Some (JStr s) \<Rightarrow> Some s | _ \<Rightarrow> None)"

definition json_flag :: "jmap \<Rightarrow> string \<Rightarrow> bool option" where
  "json_flag m k = (case gm_get m k of Some (JBool b) \<Rightarrow> Some b | _ \<Rightarrow> None)"

definition set_some :: "('b \<Rightarrow> 'a \<Rightarrow> 'a) \<Rightarrow> 'b option \<Rightarrow> 'a \<Rightarrow> 'a" where
  "set_some f x a = (case x of Some v \<Rightarrow> f v a | None \<Rightarrow> a)"

definition config_agent :: "string \<Rightarrow> jmap \<Rightarrow> agent option \<Rightarrow> agent" where
  "config_agent name entry old =
     (let a = (case old of
                 Some a \<Rightarrow> a
               | None \<Rightarrow> zero_agent\<lparr>ag_name := name, ag_mode := ''all'', ag_permission := Some [], ag_options := Some []\<rparr>);
          a = set_some (\<lambda>d a. a\<lparr>ag_description := d\<rparr>) (json_str entry ''description'') a;
          a = set_some (\<lambda>m a. if m \<noteq> [] then a\<lparr>ag_mode := m\<rparr> else a) (json_str entry ''mode'') a;
          a = set_some (\<lambda>h a. a\<lparr>ag_hidden := h\<rparr>) (json_flag entry ''hidden'') a
      in set_some (\<lambda>mr a. case parseModelRef mr of Some m \<Rightarrow> a\<lparr>ag_model := Some m\<rparr> | None \<Rightarrow> a)
           (json_str entry ''model'') a)"

definition merge_entry :: "string \<times> json \<Rightarrow> (string, agent) gomap \<Rightarrow> (string, agent) gomap" where
  "merge_entry e agents =
     (case snd e of
        JObj entry \<Rightarrow>
          if json_flag entry ''disable'' = Some True then gm_del (fst e) agents
          else gm_put (fst e) (config_agent (fst e) entry (gm_get agents (fst e))) agents
      | _ \<Rightarrow> agents)"

definition mergeConfigAgents :: "jmap \<Rightarrow> (string, agent) gomap \<Rightarrow> (string, agent) gomap" where
  "mergeConfigAgents cfg agents =
     (case gm_get cfg ''agent'' of Some (JObj raw) \<Rightarrow> fold merge_entry raw agents | _ \<Rightarrow> agents)"

subsection \<open>Loading\<close>

text \<open>
  What a load reads: the configuration's environment, the files a pattern matches in a directory,
  which paths are directories and which are files, and the YAML of each kind of frontmatter.
\<close>

record command_frontmatter =
  cm_description :: string
  cm_agent :: string
  cm_model :: string
  cm_subtask :: bool

record res_env =
  re_config :: config_env
  re_glob :: "string \<Rightarrow> string \<Rightarrow> string list option"
  re_is_dir :: "string \<Rightarrow> bool"
  re_is_file :: "string \<Rightarrow> bool"
  re_cwd :: string
  re_yaml_agent :: "string \<Rightarrow> agent_frontmatter"
  re_yaml_command :: "string \<Rightarrow> command_frontmatter"
  re_yaml_skill :: "string \<Rightarrow> string \<times> string"

definition globMarkdown :: "res_env \<Rightarrow> string \<Rightarrow> string list \<Rightarrow> string list" where
  "globMarkdown env configDir roots =
     sort (concat (map (\<lambda>r. case re_glob env configDir (r @ ''/**/*.md'') of
                              None \<Rightarrow> [] | Some ms \<Rightarrow> map (path_join configDir) ms) roots))"

definition read_file :: "res_env \<Rightarrow> string \<Rightarrow> string option" where
  "read_file env p = (case ce_read (re_config env) p of FileText data \<Rightarrow> Some data | _ \<Rightarrow> None)"

definition file_entry :: "res_env \<Rightarrow> string \<Rightarrow> string list \<Rightarrow> (string \<Rightarrow> 'a) \<Rightarrow> string \<Rightarrow> (string, 'a) gomap \<Rightarrow> (string, 'a) gomap" where
  "file_entry env configDir prefixes parse p out =
     (case read_file env p of
        None \<Rightarrow> out
      | Some data \<Rightarrow>
          gm_put (entryName (case path_rel configDir p of None \<Rightarrow> [] | Some rel \<Rightarrow> rel) prefixes) (parse data) out)"

definition loadAgentDir :: "res_env \<Rightarrow> string \<Rightarrow> (string, agent option) gomap" where
  "loadAgentDir env configDir =
     fold (file_entry env configDir [''agent/'', ''agents/''] (parseAgent (re_yaml_agent env)))
       (globMarkdown env configDir [''agent'', ''agents'']) []"

definition apply_dir :: "(string, agent option) gomap \<Rightarrow> (string, agent) gomap \<Rightarrow> (string, agent) gomap" where
  "apply_dir entries agents = fold (\<lambda>(name, entry). applyAgent name entry) entries agents"

definition agent_map :: "res_env \<Rightarrow> string \<Rightarrow> jmap \<Rightarrow> (string, agent) gomap" where
  "agent_map env dir cfg =
     fold (\<lambda>cd. apply_dir (loadAgentDir env cd)) (ConfigDirs (re_config env) dir)
       (mergeConfigAgents cfg builtinAgents)"

definition LoadAgents :: "res_env \<Rightarrow> string \<Rightarrow> jmap \<Rightarrow> agent list" where
  "LoadAgents env dir cfg = sort_key ag_name (map snd (agent_map env dir cfg))"

subsection \<open>Commands\<close>

record command =
  co_name :: string
  co_description :: string
  co_agent :: string
  co_model :: string
  co_source :: string
  co_template :: string
  co_subtask :: bool
  co_hints :: "string list"

definition parseCommand :: "(string \<Rightarrow> command_frontmatter) \<Rightarrow> string \<Rightarrow> command" where
  "parseCommand yaml data =
     (case splitFrontmatter data of
        (text, body) \<Rightarrow>
          (let fm = (if text \<noteq> [] then yaml text
                     else \<lparr>cm_description = [], cm_agent = [], cm_model = [], cm_subtask = False\<rparr>)
           in \<lparr>co_name = [], co_description = cm_description fm, co_agent = cm_agent fm, co_model = cm_model fm,
               co_source = ''command'', co_template = body, co_subtask = cm_subtask fm, co_hints = []\<rparr>))"

definition or_empty :: "string option \<Rightarrow> string" where
  "or_empty s = (case s of Some s \<Rightarrow> s | None \<Rightarrow> [])"

definition mergeConfigCommands :: "jmap \<Rightarrow> (string, command) gomap \<Rightarrow> (string, command) gomap" where
  "mergeConfigCommands cfg commands =
     (case gm_get cfg ''command'' of
        Some (JObj raw) \<Rightarrow>
          fold (\<lambda>(name, v) cs. case v of
                  JObj entry \<Rightarrow>
                    gm_put name
                      \<lparr>co_name = name, co_description = or_empty (json_str entry ''description''),
                       co_agent = or_empty (json_str entry ''agent''), co_model = or_empty (json_str entry ''model''),
                       co_source = ''command'', co_template = or_empty (json_str entry ''template''),
                       co_subtask = (json_flag entry ''subtask'' = Some True), co_hints = []\<rparr> cs
                | _ \<Rightarrow> cs) raw commands
      | _ \<Rightarrow> commands)"

definition loadCommandDir :: "res_env \<Rightarrow> string \<Rightarrow> (string, command) gomap" where
  "loadCommandDir env configDir =
     fold (file_entry env configDir [''command/'', ''commands/''] (parseCommand (re_yaml_command env)))
       (globMarkdown env configDir [''command'', ''commands'']) []"

definition LoadCommands :: "res_env \<Rightarrow> string \<Rightarrow> jmap \<Rightarrow> command list" where
  "LoadCommands env dir cfg =
     sort_key co_name (map snd
       (fold (\<lambda>cd cs. fold (\<lambda>(name, c). gm_put name (c\<lparr>co_name := name\<rparr>)) (loadCommandDir env cd) cs)
         (ConfigDirs (re_config env) dir) (mergeConfigCommands cfg [])))"

subsection \<open>Skills\<close>

record skill =
  sk_name :: string
  sk_description :: string
  sk_location :: string
  sk_content :: string

definition globIn :: "res_env \<Rightarrow> string \<Rightarrow> string \<Rightarrow> string list" where
  "globIn env base pattern =
     (case re_glob env base pattern of
        None \<Rightarrow> [] | Some ms \<Rightarrow> filter (re_is_file env) (map (path_join base) ms))"

definition globSkills :: "res_env \<Rightarrow> string \<Rightarrow> string list" where
  "globSkills env configDir =
     sort (concat (map (\<lambda>r. globIn env configDir (r @ ''/**/SKILL.md'')) [''skill'', ''skills'']))"

definition externalSkillRoots :: "res_env \<Rightarrow> string \<Rightarrow> string list" where
  "externalSkillRoots env dir =
     (let names = [''.claude'', ''.agents''];
          cfg = re_config env
      in (case ce_home cfg of None \<Rightarrow> [] | Some home \<Rightarrow> filter (re_is_dir env) (map (path_join home) names))
         @ (if dir = [] then []
            else concat (map (\<lambda>anc. filter (re_is_dir env) (map (path_join anc) names))
                   (rev (ancestors (Root (ce_has_git cfg) dir) dir)))))"

definition skill_path :: "res_env \<Rightarrow> string \<Rightarrow> json \<Rightarrow> string option" where
  "skill_path env dir v =
     (case v of
        JStr p \<Rightarrow>
          if p = [] then None
          else (let p = (if has_prefix p ''~/''
                         then (case ce_home (re_config env) of Some home \<Rightarrow> path_join home (drop 2 p) | None \<Rightarrow> p) else p);
                    p = (if \<not> is_abs p then path_join dir p else p)
                in if re_is_dir env p then Some p else None)
      | _ \<Rightarrow> None)"

definition skillPaths :: "res_env \<Rightarrow> string \<Rightarrow> jmap \<Rightarrow> string list" where
  "skillPaths env dir cfg =
     (case gm_get cfg ''skills'' of
        Some (JObj skills) \<Rightarrow>
          (case gm_get skills ''paths'' of Some (JArr raw) \<Rightarrow> List.map_filter (skill_path env dir) raw | _ \<Rightarrow> [])
      | _ \<Rightarrow> [])"

definition parse_skill :: "res_env \<Rightarrow> string \<Rightarrow> skill option" where
  "parse_skill env p =
     (case read_file env p of
        None \<Rightarrow> None
      | Some data \<Rightarrow>
          (case splitFrontmatter data of
             (text, body) \<Rightarrow>
               (case (if text \<noteq> [] then re_yaml_skill env text else ([], [])) of
                  (name, desc) \<Rightarrow>
                    if name = [] then None
                    else Some \<lparr>sk_name = name, sk_description = desc, sk_location = p, sk_content = body\<rparr>)))"

definition skill_files :: "res_env \<Rightarrow> string \<Rightarrow> jmap \<Rightarrow> string list" where
  "skill_files env dir cfg =
     concat (map (\<lambda>r. globIn env r ''skills/**/SKILL.md'') (externalSkillRoots env dir))
     @ concat (map (globSkills env) (ConfigDirs (re_config env) dir))
     @ concat (map (\<lambda>p. globIn env p ''**/SKILL.md'') (skillPaths env dir cfg))"

definition consume_skills :: "res_env \<Rightarrow> string list \<Rightarrow> (string, skill) gomap \<Rightarrow> (string, skill) gomap" where
  "consume_skills env files byName =
     fold (\<lambda>p m. case parse_skill env p of None \<Rightarrow> m | Some s \<Rightarrow> gm_put (sk_name s) s m) files byName"

definition LoadSkills :: "res_env \<Rightarrow> string \<Rightarrow> jmap \<Rightarrow> skill list" where
  "LoadSkills env dir cfg = sort_key sk_name (map snd (consume_skills env (skill_files env dir cfg) []))"

definition SkillContent :: "res_env \<Rightarrow> string \<Rightarrow> jmap \<Rightarrow> string \<Rightarrow> string option" where
  "SkillContent env dir cfg name = map_option sk_content (find (\<lambda>s. sk_name s = name) (LoadSkills env dir cfg))"

subsection \<open>Instructions\<close>

definition instructionFilenames :: "string list" where
  "instructionFilenames = [''AGENTS.md'', ''CLAUDE.md'', ''CONTEXT.md'']"

definition globalInstructionFiles :: "res_env \<Rightarrow> string list" where
  "globalInstructionFiles env =
     path_join (res_configHome (re_config env)) ''AGENTS.md''
     # (case ce_home (re_config env) of Some home \<Rightarrow> [path_join home ''.claude/CLAUDE.md''] | None \<Rightarrow> [])"

definition findUp :: "res_env \<Rightarrow> string \<Rightarrow> string \<Rightarrow> string \<Rightarrow> string list" where
  "findUp env name dir wt = filter (re_is_file env) (map (\<lambda>anc. path_join anc name) (rev (ancestors wt dir)))"

definition configInstructions :: "jmap \<Rightarrow> string list" where
  "configInstructions cfg =
     (case gm_get cfg ''instructions'' of
        Some (JArr xs) \<Rightarrow> List.map_filter (\<lambda>v. case v of JStr s \<Rightarrow> if s \<noteq> [] then Some s else None | _ \<Rightarrow> None) xs
      | _ \<Rightarrow> [])"

text \<open>\<^verbatim>\<open>filepath.Dir\<close> and \<^verbatim>\<open>filepath.Base\<close> of a path that is not empty.\<close>

definition path_dir :: "string \<Rightarrow> string" where
  "path_dir p = path_clean (rev (dropWhile (\<lambda>c. c \<noteq> CHR ''/'') (rev p)))"

definition path_base :: "string \<Rightarrow> string" where
  "path_base p =
     (let q = trim_right (\<lambda>c. c = CHR ''/'') p
      in if q = [] then ''/'' else rev (takeWhile (\<lambda>c. c \<noteq> CHR ''/'') (rev q)))"

definition globInstruction :: "res_env \<Rightarrow> string \<Rightarrow> string \<Rightarrow> string list" where
  "globInstruction env inst dir =
     (if is_abs inst then globIn env (path_dir inst) (path_base inst)
      else concat (map (\<lambda>anc. globIn env anc inst) (rev (ancestors (Root (ce_has_git (re_config env)) dir) dir))))"

definition abs_path :: "res_env \<Rightarrow> string \<Rightarrow> string" where
  "abs_path env p = (if is_abs p then path_clean p else path_join (re_cwd env) p)"

definition add_path :: "res_env \<Rightarrow> string \<Rightarrow> string list \<Rightarrow> string list" where
  "add_path env p paths = (let a = abs_path env p in if a \<in> set paths then paths else paths @ [a])"

definition instruction_candidates :: "res_env \<Rightarrow> string \<Rightarrow> jmap \<Rightarrow> string list" where
  "instruction_candidates env dir cfg =
     (let ce = re_config env
      in take 1 (filter (re_is_file env) (globalInstructionFiles env))
         @ (if ce_getenv ce ''OPENCODE_DISABLE_PROJECT_CONFIG'' = [] \<and> dir \<noteq> []
            then concat (take 1 (filter (\<lambda>ms. ms \<noteq> [])
                   (map (\<lambda>name. findUp env name dir (Root (ce_has_git ce) dir)) instructionFilenames)))
            else [])
         @ concat (map (\<lambda>raw.
             if has_prefix raw ''http://'' \<or> has_prefix raw ''https://'' then []
             else globInstruction env
                    (if has_prefix raw ''~/''
                     then (case ce_home ce of Some home \<Rightarrow> path_join home (drop 2 raw) | None \<Rightarrow> raw) else raw) dir)
             (configInstructions cfg)))"

definition instruction_block :: "res_env \<Rightarrow> string \<Rightarrow> string option" where
  "instruction_block env p =
     (case read_file env p of
        None \<Rightarrow> None
      | Some b \<Rightarrow> if trim_space b = [] then None else Some (''Instructions from: '' @ p @ [lf_char] @ b))"

definition SystemInstructions :: "res_env \<Rightarrow> string \<Rightarrow> jmap \<Rightarrow> string list" where
  "SystemInstructions env dir cfg =
     List.map_filter (instruction_block env) (fold (add_path env) (instruction_candidates env dir cfg) [])"

subsection \<open>Prompts\<close>

definition loadConfig :: "res_env \<Rightarrow> string \<Rightarrow> jmap" where
  "loadConfig env dir = (case Load (re_config env) dir of Inl _ \<Rightarrow> [] | Inr cfg \<Rightarrow> cfg)"

definition allowAllRulesets :: "ruleset list" where
  "allowAllRulesets = [[\<lparr>r_permission = ''*'', r_pattern = ''*'', r_action = ActionAllow\<rparr>]]"

definition resolveAgent :: "res_env \<Rightarrow> string \<Rightarrow> string \<Rightarrow> agent" where
  "resolveAgent env dir name =
     (let name = (if name = [] then ''build'' else name);
          agents = LoadAgents env dir (loadConfig env dir)
      in case find (\<lambda>a. ag_name a = name) agents of
           Some a \<Rightarrow> a
         | None \<Rightarrow>
             (case find (\<lambda>a. ag_name a = ''build'') (rev agents) of Some a \<Rightarrow> a | None \<Rightarrow> zero_agent))"

definition agentRulesets :: "agent \<Rightarrow> ruleset list" where
  "agentRulesets a =
     (if ag_name a = [] then allowAllRulesets
      else [case ag_permission a of Some rs \<Rightarrow> rs | None \<Rightarrow> []])"

definition agentMaxSteps :: "agent \<Rightarrow> int" where
  "agentMaxSteps a = (case ag_steps a of Some n \<Rightarrow> n | None \<Rightarrow> 0)"

record prompt_body =
  qb_message :: string
  qb_provider :: string
  qb_model :: string
  qb_agent :: string
  qb_noReply :: bool
  qb_system :: string
  qb_tools :: "(string, bool) gomap"
  qb_format :: "output_format option"
  qb_parts :: "part_input list"

definition toInput :: "string \<Rightarrow> prompt_body \<Rightarrow> prompt_input" where
  "toInput sid b =
     \<lparr>pn_session = sid, pn_parts = map (\<lambda>p. p\<lparr>pi_synthetic := False\<rparr>) (qb_parts b), pn_agent = qb_agent b,
      pn_provider = qb_provider b, pn_model = qb_model b, pn_system = qb_system b, pn_tools = qb_tools b,
      pn_format = qb_format b\<rparr>"

text \<open>What \<open>buildEngine\<close> is given for a run that depends on the resources, and what the run is asked.\<close>

record run_request =
  rr_rulesets :: "ruleset list"
  rr_max_steps :: int
  rr_instructions :: "string list"
  rr_subagent :: "(string \<times> string) option"
  rr_titles :: bool
  rr_input :: prompt_input

definition buildEngine ::
  "res_env \<Rightarrow> string \<Rightarrow> agent \<Rightarrow> (string \<times> string) option \<Rightarrow> bool \<Rightarrow> prompt_input \<Rightarrow> run_request"
where
  "buildEngine env dir a sub titles inp =
     \<lparr>rr_rulesets = agentRulesets a, rr_max_steps = agentMaxSteps a,
      rr_instructions = SystemInstructions env dir (loadConfig env dir), rr_subagent = sub, rr_titles = titles,
      rr_input = inp\<rparr>"

datatype prompt_answer = PromptRefused nat string | PromptRun run_request

definition promptHandler ::
  "res_env \<Rightarrow> string \<Rightarrow> sess_db \<Rightarrow> string \<Rightarrow> prompt_body option \<Rightarrow> prompt_answer"
where
  "promptHandler env dir db sid decoded =
     (case Get sid db of
        Inl NotFound \<Rightarrow> PromptRefused 404 ''NotFound''
      | Inl _ \<Rightarrow> PromptRefused 500 ''StorageError''
      | Inr _ \<Rightarrow>
          (case decoded of
             None \<Rightarrow> PromptRefused 400 ''BadRequest''
           | Some b \<Rightarrow>
               (let a = resolveAgent env dir (qb_agent b);
                    b = (case ag_model a of
                           Some (p, m) \<Rightarrow> if qb_provider b = [] then b\<lparr>qb_provider := p, qb_model := m\<rparr> else b
                         | None \<Rightarrow> b)
                in if qb_provider b = [] \<or> qb_model b = [] then PromptRefused 400 ''BadRequest''
                   else (let b = (if qb_system b = [] then b\<lparr>qb_system := ag_prompt a\<rparr> else b)
                         in PromptRun (buildEngine env dir a (Some (qb_provider b, qb_model b)) True (toInput sid b))))))"

subsection \<open>Subagents\<close>

definition agentNameOrDefault :: "string \<Rightarrow> string" where
  "agentNameOrDefault name = (if name = [] then ''build'' else name)"

definition child_run :: "res_env \<Rightarrow> string \<Rightarrow> string \<times> string \<Rightarrow> string \<Rightarrow> string \<Rightarrow> string \<Rightarrow> run_request" where
  \<comment> \<open>the run a task call starts in its child session\<close>
  "child_run env dir parent child agent prompt =
     (let a = resolveAgent env dir agent;
          (provider, mdl) = (case ag_model a of
                               Some (p, m) \<Rightarrow> if p \<noteq> [] \<and> m \<noteq> [] then (p, m) else parent
                             | None \<Rightarrow> parent)
      in buildEngine env dir a None False
           \<lparr>pn_session = child,
            pn_parts = [\<lparr>pi_type = ''text'', pi_text = prompt, pi_mime = [], pi_url = [], pi_filename = [],
                         pi_source = None, pi_synthetic = False\<rparr>],
            pn_agent = agentNameOrDefault (ag_name a), pn_provider = provider, pn_model = mdl,
            pn_system = ag_prompt a, pn_tools = [], pn_format = None\<rparr>)"

definition lastText :: "with_parts \<Rightarrow> string" where
  "lastText w =
     (case List.map_filter (\<lambda>p. case p of PText t \<Rightarrow> Some (tp_text t) | _ \<Rightarrow> None) (rev (wp_parts w)) of
        [] \<Rightarrow> [] | t # _ \<Rightarrow> t)"

definition wrapTaskResult :: "string \<Rightarrow> string \<Rightarrow> string" where
  "wrapTaskResult sessionID body =
     str_join [''<task id='' @ [CHR 0x22] @ sessionID @ [CHR 0x22] @ '' state='' @ [CHR 0x22] @ ''completed'' @ [CHR 0x22] @ ''>'',
               ''<task_result>'', body, ''</task_result>'', ''</task>''] [lf_char]"

subsection \<open>Which file decides an agent\<close>

definition named :: "(string, agent) gomap \<Rightarrow> bool" where
  "named m = (gm_wf m \<and> list_all (\<lambda>(k, a). ag_name a = k) m)"

lemma namedI: "gm_wf m \<Longrightarrow> (\<And>k a. (k, a) \<in> set m \<Longrightarrow> ag_name a = k) \<Longrightarrow> named m"
  by (auto simp: named_def list_all_iff)

lemma named_get: "named m \<Longrightarrow> gm_get m k = Some a \<Longrightarrow> ag_name a = k"
  by (auto simp: named_def list_all_iff dest: map_of_SomeD)

lemma named_put: "named m \<Longrightarrow> ag_name a = k \<Longrightarrow> named (gm_put k a m)"
  by (rule namedI)
    (auto simp: named_def list_all_iff gm_wf_put simp flip: gm_get_mem [OF gm_wf_put] split: if_splits dest: map_of_SomeD)

lemma named_del:
  assumes "named m"
  shows "named (gm_del k m)"
proof (rule namedI)
  show "ag_name a = j" if "(j, a) \<in> set (gm_del k m)" for j a
    using that assms by (auto simp: gm_del_filter named_def list_all_iff)
qed (use assms in \<open>simp add: named_def\<close>)

lemma find_unique:
  assumes "distinct (map f xs)"
  shows "find (\<lambda>a. f a = n) xs = Some a \<longleftrightarrow> a \<in> set xs \<and> f a = n"
  using assms by (induction xs) force+

lemma find_named:
  assumes "named m"
  shows "find (\<lambda>a. ag_name a = n) (sort_key ag_name (map snd m)) = gm_get m n"
proof -
  have names: "map ag_name (map snd m) = map fst m"
    using assms by (auto simp: named_def list_all_iff)
  have "distinct (map ag_name (map snd m))"
    using assms unfolding names by (simp add: named_def gm_wf_def)
  then have d: "distinct (map ag_name (sort_key ag_name (map snd m)))"
    unfolding distinct_map [of ag_name] by simp
  have "find (\<lambda>a. ag_name a = n) (sort_key ag_name (map snd m)) = Some a \<longleftrightarrow> gm_get m n = Some a" for a
  proof -
    have "a \<in> snd ` set m \<and> ag_name a = n \<longleftrightarrow> (n, a) \<in> set m"
      using assms by (force simp: named_def list_all_iff)
    then show ?thesis using assms by (simp add: find_unique [OF d] named_def gm_get_mem)
  qed
  then show ?thesis by (metis not_Some_eq)
qed

lemma named_builtin: "named builtinAgents"
  by (simp add: named_def gm_wf_def builtinAgents_def native_agent_def)

lemma set_some_names:
  "ag_name (set_some (\<lambda>d a. a\<lparr>ag_description := d\<rparr>) x a) = ag_name a"
  "ag_name (set_some (\<lambda>m a. if m \<noteq> [] then a\<lparr>ag_mode := m\<rparr> else a) y a) = ag_name a"
  "ag_name (set_some (\<lambda>h a. a\<lparr>ag_hidden := h\<rparr>) z a) = ag_name a"
  "ag_name (set_some (\<lambda>mr a. case parseModelRef mr of Some m \<Rightarrow> a\<lparr>ag_model := Some m\<rparr> | None \<Rightarrow> a) y a) = ag_name a"
  by (simp_all add: set_some_def split: option.split)

lemma config_agent_name:
  assumes "\<And>a. old = Some a \<Longrightarrow> ag_name a = n"
  shows "ag_name (config_agent n entry old) = n"
proof -
  have "ag_name (config_agent n entry old) =
      ag_name (case old of Some a \<Rightarrow> a | None \<Rightarrow> zero_agent\<lparr>ag_name := n, ag_mode := ''all'',
        ag_permission := Some [], ag_options := Some []\<rparr>)"
    by (simp only: config_agent_def Let_def set_some_names)
  then show ?thesis using assms by (cases old) simp_all
qed

lemma named_entry: "named m \<Longrightarrow> named (merge_entry e m)"
  by (auto simp: merge_entry_def named_del intro!: named_put config_agent_name dest: named_get split: json.split)

lemma named_config: "named m \<Longrightarrow> named (mergeConfigAgents cfg m)"
proof -
  have "named m \<Longrightarrow> named (fold merge_entry raw m)" for raw m
    by (induction raw arbitrary: m) (simp_all add: named_entry)
  then show "named m \<Longrightarrow> named (mergeConfigAgents cfg m)"
    by (simp add: mergeConfigAgents_def split: option.split json.split)
qed

lemma named_apply: "named m \<Longrightarrow> named (applyAgent n entry m)"
  by (auto simp: applyAgent_def complete_agent_def intro!: named_put named_del split: option.split)

lemma named_dir: "named m \<Longrightarrow> named (apply_dir entries m)"
  unfolding apply_dir_def by (induction entries arbitrary: m) (auto simp: named_apply split: prod.split)

lemma apply_dir_simps:
  "apply_dir [] m = m" "apply_dir ((k, e) # es) m = apply_dir es (applyAgent k e m)"
  by (simp_all add: apply_dir_def)

lemma apply_dir_get:
  assumes "gm_wf entries"
  shows "gm_get (apply_dir entries m) n =
    (case gm_get entries n of None \<Rightarrow> gm_get m n | Some e \<Rightarrow> map_option (complete_agent n) e)"
  using assms
proof (induction entries arbitrary: m)
  case (Cons p entries)
  obtain k e where p: "p = (k, e)" by (cases p)
  have "gm_wf entries" "gm_get entries k = None"
    using Cons.prems by (simp_all add: p gm_wf_def map_of_eq_None_iff)
  then have IH: "gm_get (apply_dir entries m) n =
      (case gm_get entries n of None \<Rightarrow> gm_get m n | Some e \<Rightarrow> map_option (complete_agent n) e)" for m
    using Cons.IH by blast
  show ?case using \<open>gm_get entries k = None\<close> IH
    by (cases "n = k"; cases e; cases "gm_get entries n") (simp_all add: p apply_dir_simps applyAgent_def)
qed (simp add: apply_dir_simps)

lemma wf_entries: "gm_wf out \<Longrightarrow> gm_wf (fold (file_entry env cd pre parse) ps out)"
  by (induction ps arbitrary: out) (auto simp: file_entry_def split: option.split)

lemma wf_loadAgentDir: "gm_wf (loadAgentDir env cd)"
  by (simp add: loadAgentDir_def wf_entries)

lemma named_dirs: "named m \<Longrightarrow> named (fold (\<lambda>cd. apply_dir (loadAgentDir env cd)) cds m)"
  by (induction cds arbitrary: m) (simp_all add: named_dir)

lemma dirs_skip:
  "\<forall>cd \<in> set cds. gm_get (loadAgentDir env cd) n = None \<Longrightarrow>
   gm_get (fold (\<lambda>cd. apply_dir (loadAgentDir env cd)) cds m) n = gm_get m n"
  by (induction cds arbitrary: m) (simp_all add: apply_dir_get [OF wf_loadAgentDir])

lemma loaded_agent:
  "find (\<lambda>a. ag_name a = n) (LoadAgents env dir cfg) = gm_get (agent_map env dir cfg) n"
  unfolding LoadAgents_def agent_map_def
  by (rule find_named) (intro named_dirs named_config named_builtin)

lemma decided_by_file:
  assumes "ConfigDirs (re_config env) dir = pre @ cd # post" "gm_get (loadAgentDir env cd) n = Some entry"
    "\<forall>d \<in> set post. gm_get (loadAgentDir env d) n = None"
  shows "gm_get (agent_map env dir cfg) n = map_option (complete_agent n) entry"
  using assms by (simp add: agent_map_def dirs_skip apply_dir_get [OF wf_loadAgentDir])

lemma decided_by_none:
  assumes "\<forall>d \<in> set (ConfigDirs (re_config env) dir). gm_get (loadAgentDir env d) n = None"
  shows "gm_get (agent_map env dir cfg) n = gm_get (mergeConfigAgents cfg builtinAgents) n"
  using assms by (simp add: agent_map_def dirs_skip)

lemma resolved_name:
  "resolveAgent env dir n =
    (case gm_get (agent_map env dir (loadConfig env dir)) (if n = [] then ''build'' else n) of
       Some a \<Rightarrow> a
     | None \<Rightarrow> (case gm_get (agent_map env dir (loadConfig env dir)) ''build'' of Some a \<Rightarrow> a | None \<Rightarrow> zero_agent))"
proof -
  let ?m = "agent_map env dir (loadConfig env dir)"
  have nm: "named ?m" unfolding agent_map_def by (intro named_dirs named_config named_builtin)
  have rev_find: "find (\<lambda>a. f a = n) (rev xs) = find (\<lambda>a. f a = n) xs" if "distinct (map f xs)" for f :: "agent \<Rightarrow> string" and xs n
  proof -
    have "find (\<lambda>a. f a = n) (rev xs) = Some a \<longleftrightarrow> find (\<lambda>a. f a = n) xs = Some a" for a
      using that find_unique [of f xs n a] find_unique [of f "rev xs" n a] by (simp flip: rev_map)
    then show ?thesis by (metis not_Some_eq)
  qed
  have "map ag_name (map snd ?m) = map fst ?m" using nm by (auto simp: named_def list_all_iff)
  with nm have "distinct (map ag_name (map snd ?m))" by (simp only: named_def gm_wf_def)
  then have "distinct (map ag_name (LoadAgents env dir (loadConfig env dir)))"
    unfolding LoadAgents_def distinct_map [of ag_name] by simp
  then have "find (\<lambda>a. ag_name a = ''build'') (rev (LoadAgents env dir (loadConfig env dir))) = gm_get ?m ''build''"
    by (simp add: rev_find loaded_agent)
  then show ?thesis by (simp only: resolveAgent_def Let_def loaded_agent)
qed

text \<open>
  The nearest agent file decides: an agent is what its file in the last of the searched directories that
  has one says, whatever the files before it, the configuration and the built-in agents say of that
  name; a file that disables it removes it. Nothing is merged from the earlier ones.
\<close>

theorem nearest_agent_file_decides:
  assumes "ConfigDirs (re_config env) dir = pre @ cd # post" "gm_get (loadAgentDir env cd) n = Some entry"
    "\<forall>d \<in> set post. gm_get (loadAgentDir env d) n = None"
  shows "find (\<lambda>a. ag_name a = n) (LoadAgents env dir cfg) = map_option (complete_agent n) entry"
  using decided_by_file [OF assms] by (simp add: loaded_agent)

subsection \<open>The rules of an agent\<close>

lemma prompt_run:
  assumes "promptHandler env dir db sid (Some b) = PromptRun r"
  shows "rr_rulesets r = agentRulesets (resolveAgent env dir (qb_agent b))"
  using assms
  by (auto simp: promptHandler_def buildEngine_def Let_def split: sum.splits sess_error.splits if_splits option.splits)

lemma complete_fields:
  "ag_name (complete_agent n a) = n"
  "ag_permission (complete_agent n a) = Some (case ag_permission a of Some rs \<Rightarrow> rs | None \<Rightarrow> [])"
  by (auto simp: complete_agent_def split: option.split)

lemma scan_append: "scan_rules perm pat m (rs @ rs') = scan_rules perm pat (scan_rules perm pat m rs) rs'"
  by (induction rs arbitrary: m) simp_all

lemma scan_unmatched: "\<forall>r \<in> set rs. \<not> rule_matches perm pat r \<Longrightarrow> scan_rules perm pat m rs = m"
  by (induction rs) simp_all

lemma unapproved_action:
  assumes "\<forall>rule \<in> set (approved_for m (ai_session inp)). \<not> rule_matches (ai_permission inp) pat rule"
  shows "pattern_action m inp pat = r_action (Evaluate (ai_permission inp) pat (ai_rulesets inp))"
proof -
  have "scan_rulesets perm pat x (rss @ [rs]) = scan_rules perm pat (scan_rulesets perm pat x rss) rs" for perm x rss rs
    by (induction rss arbitrary: x) simp_all
  then show ?thesis
    using assms by (simp add: pattern_action_def rulesetsFor_def Evaluate_def Let_def scan_unmatched)
qed

lemma matches_star: "rule_matches perm pat \<lparr>r_permission = ''*'', r_pattern = ''*'', r_action = a\<rparr>"
  by (simp add: rule_matches_def wildcardMatch_def)

lemma allow_all_allows: "r_action (Evaluate perm pat [allowAll]) = ActionAllow"
  by (simp add: Evaluate_def allowAll_def matches_star)


text \<open>A project with one agent file, which denies edits.\<close>

definition demo_file :: string where
  "demo_file = ''---'' @ [lf_char] @ ''permission: {edit: deny}'' @ [lf_char] @ ''---'' @ [lf_char] @ ''Be careful.''"

definition demo_res :: res_env where
  "demo_res =
     \<lparr>re_config = \<lparr>ce_getenv = (\<lambda>_. []), ce_home = None, ce_user = None, ce_has_git = (\<lambda>p. p = ''/p/.git''),
        ce_read = (\<lambda>p. if p = ''/p/.opencode/agent/safe.md'' then FileText demo_file else FileMissing),
        ce_standardize = Inr, ce_decode = (\<lambda>_. Inr JNull)\<rparr>,
      re_glob = (\<lambda>base pat. if base = ''/p/.opencode'' \<and> pat = ''agent/**/*.md'' then Some [''agent/safe.md''] else Some []),
      re_is_dir = (\<lambda>_. False), re_is_file = (\<lambda>_. False), re_cwd = ''/'',
      re_yaml_agent = (\<lambda>_. zero_frontmatter\<lparr>af_permission := JObj [(''edit'', JStr ''deny'')]\<rparr>),
      re_yaml_command = (\<lambda>_. \<lparr>cm_description = [], cm_agent = [], cm_model = [], cm_subtask = False\<rparr>),
      re_yaml_skill = (\<lambda>_. ([], []))\<rparr>"

definition demo_session :: sess_db where
  "demo_session = empty_db\<lparr>sb_rows :=
     [\<lparr>sr_id = ''s'', sr_project = [], sr_slug = [], sr_dir = ''/p'', sr_path = None, sr_parent = None, sr_title = [],
       sr_version = [], sr_cost = 0, sr_input = 0, sr_output = 0, sr_reasoning = 0, sr_cache_read = 0,
       sr_cache_write = 0, sr_created = 0, sr_updated = 0, sr_archived = None\<rparr>]\<rparr>"

definition demo_prompt :: "string \<Rightarrow> prompt_body" where
  "demo_prompt n = \<lparr>qb_message = [], qb_provider = ''x'', qb_model = ''m'', qb_agent = n, qb_noReply = False, qb_system = [],
     qb_tools = [], qb_format = None, qb_parts = []\<rparr>"

definition demo_agent :: agent where
  "demo_agent = zero_agent\<lparr>ag_prompt := ''Be careful.'',
     ag_permission := Some [\<lparr>r_permission = ''edit'', r_pattern = ''*'', r_action = ActionDeny\<rparr>]\<rparr>"

lemma demo_dirs: "ConfigDirs (re_config demo_res) ''/p'' = [''/p/.opencode'']"
  by code_simp

lemma demo_dir: "loadAgentDir demo_res ''/p/.opencode'' = [(''safe'', Some demo_agent)]"
  by code_simp

lemma demo_map: "gm_get (agent_map demo_res ''/p'' cfg) ''safe'' = Some (complete_agent ''safe'' demo_agent)"
  using decided_by_file [of demo_res "''/p''" "[]" "''/p/.opencode''" "[]" "''safe''"] by (simp add: demo_dirs demo_dir)

theorem nearest_agent_file_decides_witness:
  "find (\<lambda>a. ag_name a = ''safe'') (LoadAgents demo_res ''/p'' []) = Some (complete_agent ''safe'' demo_agent)"
  using nearest_agent_file_decides [of demo_res "''/p''" "[]" "''/p/.opencode''" "[]" "''safe''" "Some demo_agent" "[]"]
  by (simp add: demo_dirs demo_dir)

lemma demo_prompt_runs: "\<exists>r. promptHandler demo_res ''/p'' demo_session ''s'' (Some (demo_prompt ''safe'')) = PromptRun r"
proof -
  have found: "Get ''s'' demo_session = Inr (scan_row (hd (sb_rows demo_session)))"
    by (simp add: Get_def demo_session_def find_row_def)
  show ?thesis
    by (simp add: promptHandler_def found demo_prompt_def Let_def resolved_name demo_map complete_agent_def demo_agent_def
        zero_agent_def)
qed


lemma config_absent:
  assumes "\<And>raw. gm_get cfg ''agent'' = Some (JObj raw) \<Longrightarrow> gm_get raw n = None"
  shows "gm_get (mergeConfigAgents cfg m) n = gm_get m n"
proof -
  have "gm_get raw n = None \<Longrightarrow> gm_get (fold merge_entry raw m) n = gm_get m n" for raw m
    by (induction raw arbitrary: m) (auto simp: merge_entry_def split: json.split if_splits)
  then show ?thesis using assms by (simp add: mergeConfigAgents_def split: option.split json.split)
qed

lemma builtin_get:
  assumes "n \<in> {''build'', ''plan'', ''general'', ''explore''}"
  shows "\<exists>a. gm_get builtinAgents n = Some a \<and> ag_name a = n \<and> ag_permission a = Some allowAll"
  using assms by (auto simp: builtinAgents_def native_agent_def)

text \<open>
  C40. The planning and the search agent are described as read-only, and nothing makes them so: with no file and
  no configuration of its own, a run under either is given rules that allow every edit and every
  command, the rules of the default agent.
\<close>

theorem plan_agent_may_edit:
  assumes "qb_agent b = ''plan'' \<or> qb_agent b = ''explore''"
    "\<forall>d \<in> set (ConfigDirs (re_config env) dir). gm_get (loadAgentDir env d) (qb_agent b) = None"
    "\<And>raw. gm_get (loadConfig env dir) ''agent'' = Some (JObj raw) \<Longrightarrow> gm_get raw (qb_agent b) = None"
    "promptHandler env dir db sid (Some b) = PromptRun r"
  shows "r_action (Evaluate perm pat (rr_rulesets r)) = ActionAllow"
proof -
  obtain a where a: "gm_get builtinAgents (qb_agent b) = Some a" "ag_name a = qb_agent b" "ag_permission a = Some allowAll"
    using builtin_get [of "qb_agent b"] assms(1) by auto
  have "resolveAgent env dir (qb_agent b) = a"
    using decided_by_none [OF assms(2)] config_absent [OF assms(3)] a assms(1) by (auto simp: resolved_name)
  then have "rr_rulesets r = [allowAll]"
    using prompt_run [OF assms(4)] a assms(1) by (auto simp: agentRulesets_def)
  then show ?thesis by (simp add: allow_all_allows)
qed

text \<open>
  Without the default agent a prompt that names no agent, or one that does not exist, is given every
  permission; and so is a task.
\<close>

lemma no_agent_allows_all:
  assumes "gm_get (agent_map env dir (loadConfig env dir)) ''build'' = None"
    "n = [] \<or> gm_get (agent_map env dir (loadConfig env dir)) n = None"
  shows "r_action (Evaluate perm pat (agentRulesets (resolveAgent env dir n))) = ActionAllow"
proof -
  have "resolveAgent env dir n = zero_agent"
    unfolding resolved_name by (cases "n = []") (use assms in simp_all)
  then show ?thesis
    by (simp add: agentRulesets_def zero_agent_def allowAllRulesets_def allow_all_allows flip: allowAll_def)
qed

text \<open>A child run has the rules of its own agent, not those of the run that started it, and starts no further ones.\<close>

lemma child_rules:
  "rr_rulesets (child_run env dir parent child n p) = agentRulesets (resolveAgent env dir n) \<and>
   rr_subagent (child_run env dir parent child n p) = None"
  by (simp add: child_run_def buildEngine_def Let_def split: option.split prod.split)

lemma demo_prompt_plan: "\<exists>r. promptHandler demo_res ''/p'' demo_session ''s'' (Some (demo_prompt ''plan'')) = PromptRun r"
proof -
  have found: "Get ''s'' demo_session = Inr (scan_row (hd (sb_rows demo_session)))"
    by (simp add: Get_def demo_session_def find_row_def)
  have "gm_get (loadConfig demo_res ''/p'') ''agent'' = Some (JObj [])" by code_simp
  then have "gm_get (mergeConfigAgents (loadConfig demo_res ''/p'') builtinAgents) ''plan'' = gm_get builtinAgents ''plan''"
    by (intro config_absent) simp
  then have "gm_get (agent_map demo_res ''/p'' (loadConfig demo_res ''/p'')) ''plan'' = gm_get builtinAgents ''plan''"
    by (subst decided_by_none) (simp_all add: demo_dirs demo_dir)
  then show ?thesis
    by (simp add: promptHandler_def found demo_prompt_def Let_def resolved_name builtinAgents_def native_agent_def zero_agent_def)
qed

theorem plan_agent_may_edit_witness:
  "\<exists>r. promptHandler demo_res ''/p'' demo_session ''s'' (Some (demo_prompt ''plan'')) = PromptRun r \<and>
     r_action (Evaluate ''edit'' ''/p/a'' (rr_rulesets r)) = ActionAllow"
proof -
  obtain r where r: "promptHandler demo_res ''/p'' demo_session ''s'' (Some (demo_prompt ''plan'')) = PromptRun r"
    using demo_prompt_plan by blast
  have "gm_get (loadConfig demo_res ''/p'') ''agent'' = Some (JObj [])" by code_simp
  then show ?thesis
    using plan_agent_may_edit [OF _ _ _ r, of "''edit''" "''/p/a''"] r by (simp add: demo_prompt_def demo_dirs demo_dir)
qed

subsection \<open>Permission blocks\<close>

lemma wf_sort_key: "gm_wf kvs \<Longrightarrow> map_of (sort_key fst kvs) = map_of (kvs :: (string \<times> 'b) list)"
proof -
  assume wf: "gm_wf kvs"
  then have "distinct (map fst (sort_key fst kvs))" by (simp add: gm_wf_def distinct_map)
  then show ?thesis using wf by (intro map_of_inject_set [THEN iffD2]) (simp_all add: gm_wf_def)
qed

lemma toAction_canon: "toAction (canon v) = toAction v"
  by (cases v) (simp_all add: toAction_def)

lemma canon_pairs: "map (\<lambda>(k, v). (k, canon v)) m = map (apsnd canon) m"
  by (simp add: apsnd_def map_prod_def)

lemma sort_canon: "sort_key fst (sort_key fst (map (apsnd canon) m)) = map (apsnd canon) (sort_key fst (m :: jmap))"
proof -
  have "fst \<circ> apsnd canon = (fst :: string \<times> json \<Rightarrow> string)" by (simp add: fun_eq_iff)
  then have "sort_key fst (map (apsnd canon) m) = map (apsnd canon) (sort_key fst m)" for m :: jmap
    by (simp add: sort_key_map)
  moreover have "sort_key fst (sort_key fst xs) = sort_key fst xs" for xs :: jmap
    by (rule properties_for_sort_key) simp_all
  ultimately show ?thesis by metis
qed

lemma key_rules_canon: "key_rules k (canon v) = key_rules k v"
proof (cases v)
  case (JObj pats)
  have "List.map_filter (\<lambda>(pat, act). map_option (\<lambda>a. \<lparr>r_permission = k, r_pattern = pat, r_action = a\<rparr>) (toAction act))
          (map (apsnd canon) m) =
        List.map_filter (\<lambda>(pat, act). map_option (\<lambda>a. \<lparr>r_permission = k, r_pattern = pat, r_action = a\<rparr>) (toAction act)) m" for m
    by (induction m) (auto simp: map_filter_simps toAction_canon split: option.split)
  then show ?thesis by (simp add: JObj key_rules_def canon_pairs sort_canon del: sort_key_simps)
qed (simp_all add: key_rules_def)

lemma rules_canon: "parsePermissionConfig (canon v) = parsePermissionConfig v"
proof (cases v)
  case (JObj t)
  have "concat (map (\<lambda>(key, val). key_rules key val) (map (apsnd canon) m)) =
        concat (map (\<lambda>(key, val). key_rules key val) m)" for m
    by (induction m) (auto simp: key_rules_canon)
  then show ?thesis by (simp add: JObj parsePermissionConfig_def canon_pairs sort_canon)
qed (simp_all add: parsePermissionConfig_def)

text \<open>
  The order in which permissions are written does not count: blocks with the same entries give the same
  rules, in the order of their keys, so the last rule that matches is not the last one written.
\<close>

theorem written_order_lost:
  assumes "same_json v w"
  shows "parsePermissionConfig v = parsePermissionConfig w"
  using assms rules_canon by (metis same_json_def)

text \<open>So an exception written after the rule it is an exception to can lose to it.\<close>

theorem written_order_lost_witness:
  "(let v = JObj [(''bash'', JObj [(''git*'', JStr ''deny''), (''git push'', JStr ''allow'')])];
        w = JObj [(''bash'', JObj [(''git push'', JStr ''allow''), (''git*'', JStr ''deny'')])]
    in parsePermissionConfig v = parsePermissionConfig w \<and>
       r_action (Evaluate ''bash'' ''git push'' [parsePermissionConfig v]) = ActionDeny)"
proof -
  let ?v = "JObj [(''bash'', JObj [(''git*'', JStr ''deny''), (''git push'', JStr ''allow'')])]"
  let ?w = "JObj [(''bash'', JObj [(''git push'', JStr ''allow''), (''git*'', JStr ''deny'')])]"
  have "same_json ?v ?w" by code_simp
  moreover have "r_action (Evaluate ''bash'' ''git push'' [parsePermissionConfig ?v]) = ActionDeny" by code_simp
  ultimately show ?thesis using written_order_lost [of ?v ?w] by (simp only: Let_def)
qed

subsection \<open>Front matter\<close>

definition fm_line :: "string \<Rightarrow> bool" where
  "fm_line l = (lf_char \<notin> set l \<and> trim_right (\<lambda>c. c = cr_char) l = l \<and> l \<noteq> ''---'')"

lemma scan_fence_read:
  "list_all fm_line fm \<Longrightarrow> scan_fence (fm @ ''---'' # after) = Some (fm, after)"
  by (induction fm) (simp_all add: fm_line_def Let_def trim_right_def)

lemma split_lines: "list_all (\<lambda>l. lf_char \<notin> set l) ls \<Longrightarrow>
  split_on lf_char (concat (map (\<lambda>l. l @ [lf_char]) ls) @ s) = ls @ split_on lf_char s"
  by (induction ls) (simp_all add: split_on_append)

text \<open>
  The front matter of a resource comes out as it was put in: of a file that is a fence, lines, a fence and a
  body, the lines are what YAML is given and the trimmed body is the prompt; and a file without a
  closing fence is all body.
\<close>

theorem front_matter_read_back:
  assumes "list_all fm_line fm"
  shows "splitFrontmatter (''---'' @ [lf_char] @ concat (map (\<lambda>l. l @ [lf_char]) fm) @ ''---'' @ [lf_char] @ body) =
      (str_join fm [lf_char], trim_space body) \<and>
    splitFrontmatter (''---'' @ [lf_char] @ str_join fm [lf_char]) =
      ([], trim_space (''---'' @ [lf_char] @ str_join fm [lf_char]))"
proof
  let ?rest = "[lf_char] @ concat (map (\<lambda>l. l @ [lf_char]) fm) @ ''---'' @ [lf_char] @ body"
  have nl: "list_all (\<lambda>l. lf_char \<notin> set l) (fm @ [''---''])"
    using assms by (auto simp: fm_line_def list_all_iff)
  have "split_on lf_char ?rest = [] # fm @ ''---'' # split_on lf_char body"
    using split_lines [OF nl, of body] by simp
  then have "scan_fence (tl (split_on lf_char ?rest)) = Some (fm, split_on lf_char body)"
    by (simp add: scan_fence_read [OF assms])
  then show "splitFrontmatter (''---'' @ ?rest) = (str_join fm [lf_char], trim_space body)"
    by (simp add: splitFrontmatter_def join_split)
next
  have none: "scan_fence ls = None" if "list_all fm_line ls" for ls
    using that by (induction ls) (simp_all add: fm_line_def Let_def)
  have "list_all fm_line (split_on lf_char (str_join fm [lf_char]))"
  proof (cases "fm = []")
    case True
    then show ?thesis by (simp add: fm_line_def trim_right_def)
  next
    case False
    then show ?thesis using assms split_join [of fm lf_char] by (simp add: fm_line_def list_all_iff)
  qed
  then have "scan_fence (split_on lf_char (str_join fm [lf_char])) = None" by (rule none)
  then show "splitFrontmatter (''---'' @ [lf_char] @ str_join fm [lf_char]) =
      ([], trim_space (''---'' @ [lf_char] @ str_join fm [lf_char]))"
    by (simp add: splitFrontmatter_def)
qed

theorem front_matter_read_back_witness:
  "splitFrontmatter (''---'' @ [lf_char] @ ''mode: all'' @ [lf_char] @ ''---'' @ [lf_char] @ ''Hi.'') = (''mode: all'', trim_space ''Hi.'')"
proof -
  have "list_all fm_line [''mode: all'']" by (simp add: fm_line_def trim_right_def)
  from front_matter_read_back [OF this, of "''Hi.''"] show ?thesis by simp
qed

subsection \<open>Skills and instructions\<close>

text \<open>The last file of the scan that has a skill of a name is the one the skill tool reads.\<close>

lemma consume_append: "consume_skills env (xs @ ys) m = consume_skills env ys (consume_skills env xs m)"
  by (simp add: consume_skills_def)

lemma consume_skip:
  "\<forall>q \<in> set qs. \<forall>s. parse_skill env q = Some s \<longrightarrow> sk_name s \<noteq> n \<Longrightarrow>
   gm_get (consume_skills env qs m) n = gm_get m n"
  unfolding consume_skills_def by (induction qs arbitrary: m) (auto split: option.split)

lemma skill_last_file_wins:
  assumes "skill_files env dir cfg = pre @ p # post" "parse_skill env p = Some s" "sk_name s = n"
    "\<forall>q \<in> set post. \<forall>s'. parse_skill env q = Some s' \<longrightarrow> sk_name s' \<noteq> n"
  shows "gm_get (consume_skills env (skill_files env dir cfg) []) n = Some s"
proof -
  have "consume_skills env (pre @ p # post) [] = consume_skills env post (gm_put n s (consume_skills env pre []))"
    using assms(2,3) by (simp add: consume_append consume_skills_def)
  then show ?thesis using assms by (simp add: consume_skip)
qed

text \<open>No instruction file is given twice.\<close>

lemma instructions_once: "distinct (fold (add_path env) ps [])"
proof -
  have "distinct acc \<Longrightarrow> distinct (fold (add_path env) ps acc)" for acc
    by (induction ps arbitrary: acc) (simp_all add: add_path_def Let_def)
  then show ?thesis by simp
qed

subsection \<open>Ancestors\<close>

text \<open>
  The configuration files and the resources are looked for by two different walks: one goes up from the
  directory, the other down along the relative path from the worktree. They visit the same directories.
\<close>

definition proper_comp :: "string \<Rightarrow> bool" where
  "proper_comp c = (c \<noteq> [] \<and> c \<noteq> ''.'' \<and> c \<noteq> ''..'' \<and> CHR ''/'' \<notin> set c)"

abbreviation abs_dir :: "string list \<Rightarrow> string" where
  "abs_dir cs \<equiv> CHR ''/'' # str_join cs ''/''"

lemma improper [simp]: "\<not> proper_comp ''..''" "\<not> proper_comp ''.''" "\<not> proper_comp []"
  by (simp_all add: proper_comp_def)

lemma split_slashless: "x \<in> set (split_on c s) \<Longrightarrow> c \<notin> set x"
  by (induction c s arbitrary: x rule: split_on.induct) (auto split: if_splits list.splits)

lemma norm_proper:
  "list_all proper_comp acc \<Longrightarrow> list_all (\<lambda>c. CHR ''/'' \<notin> set c) cs \<Longrightarrow> list_all proper_comp (norm_comps True acc cs)"
proof (induction cs arbitrary: acc)
  case (Cons c cs)
  have up: "list_all proper_comp (norm_comps True acc (''..'' # cs))"
    using Cons.prems Cons.IH [of "tl acc"] Cons.IH [of "[]"] by (cases acc) auto
  consider "c = []" | "c = ''.''" | "c = ''..''" | "proper_comp c" "c \<noteq> []" "c \<noteq> ''.''" "c \<noteq> ''..''"
    using Cons.prems(2) by (auto simp: proper_comp_def)
  then show ?case
    by cases (use Cons.prems Cons.IH up in simp_all)
qed simp

lemma norm_id: "list_all proper_comp cs \<Longrightarrow> norm_comps True acc cs = rev acc @ cs"
  by (induction cs arbitrary: acc) (auto simp: proper_comp_def)

lemma norm_empty: "norm_comps True acc ([] # cs) = norm_comps True acc cs"
  by simp

lemma comps_proper: "is_abs p \<Longrightarrow> list_all proper_comp (comps p)"
proof -
  assume "is_abs p"
  have "list_all (\<lambda>c. CHR ''/'' \<notin> set c) (split_on (CHR ''/'') p)" by (auto simp: list_all_iff dest: split_slashless)
  then show ?thesis using norm_proper [of "[]"] \<open>is_abs p\<close> by (simp add: comps_def)
qed

lemma split_proper: "list_all proper_comp cs \<Longrightarrow> cs \<noteq> [] \<Longrightarrow> split_on (CHR ''/'') (str_join cs ''/'') = cs"
  by (rule split_join) (auto simp: proper_comp_def list_all_iff)

lemma comps_abs_dir: "list_all proper_comp cs \<Longrightarrow> comps (abs_dir cs) = cs"
proof (cases "cs = []")
  case False
  assume "list_all proper_comp cs"
  then show ?thesis using False split_on_append [of "CHR ''/''" "[]" "str_join cs ''/''"]
    by (simp add: comps_def is_abs_def split_proper norm_id)
qed (simp add: comps_def is_abs_def)

lemma abs_dir_inj: "list_all proper_comp xs \<Longrightarrow> list_all proper_comp ys \<Longrightarrow> abs_dir xs = abs_dir ys \<longleftrightarrow> xs = ys"
  by (metis comps_abs_dir)

lemma clean_abs: "is_abs p \<Longrightarrow> path_clean p = abs_dir (comps p)"
  by (simp add: path_clean_def comps_def Let_def)

lemma join_abs:
  assumes "list_all proper_comp xs" "proper_comp c"
  shows "path_join (abs_dir xs) c = abs_dir (xs @ [c])"
proof -
  have "split_on (CHR ''/'') (abs_dir xs @ ''/'' @ c) = [] # (if xs = [] then [[]] else xs) @ [c]"
  proof (cases "xs = []")
    case True
    then show ?thesis using assms(2) split_on_append [of "CHR ''/''" "[]"]
      by (simp add: proper_comp_def split_on_plain)
  next
    case False
    have "str_join xs ''/'' @ ''/'' @ c = str_join (xs @ [c]) ''/''"
      using False by (induction xs "''/''" rule: str_join.induct) simp_all
    then show ?thesis using assms False split_proper [of "xs @ [c]"] split_on_append [of "CHR ''/''" "[]"] by simp
  qed
  then have "comps (abs_dir xs @ ''/'' @ c) = xs @ [c]"
    using assms norm_id [of "xs @ [c]" "[]"] norm_id [of "[c]" "[]"]
    by (simp only: comps_def is_abs_def norm_empty if_split) (simp add: norm_empty)
  then show ?thesis using assms(2) clean_abs [of "abs_dir xs @ ''/'' @ c"]
    by (simp add: path_join_def proper_comp_def is_abs_def)
qed

lemma git_root_take:
  "list_all proper_comp cs \<Longrightarrow> \<exists>k \<le> length cs. git_root g (rev cs) = abs_dir (take k cs)"
proof (induction cs rule: rev_induct)
  case (snoc c cs)
  then obtain k where k: "k \<le> length cs" "git_root g (rev cs) = abs_dir (take k cs)" by auto
  show ?case
  proof (cases "g (abs_dir (cs @ [c]) @ ''/.git'')")
    case True
    then show ?thesis by (intro exI [of _ "Suc (length cs)"]) (simp add: Let_def)
  next
    case False
    then show ?thesis using k by (intro exI [of _ k]) (simp add: Let_def)
  qed
qed simp

lemma strip_take: "strip_common (take k cs) cs = ([], drop k cs)"
  by (induction cs arbitrary: k) (simp_all add: take_Cons split: nat.split)

lemma walk_down_dirs:
  "list_all proper_comp xs \<Longrightarrow> list_all proper_comp ys \<Longrightarrow>
   walk_down (abs_dir xs) ys = map (\<lambda>j. abs_dir (xs @ take j ys)) [1..<Suc (length ys)]"
proof (induction ys arbitrary: xs)
  case (Cons y ys)
  have shift: "[Suc 0..<Suc (Suc n)] = Suc 0 # map Suc [Suc 0..<Suc n]" for n
    by (simp add: upt_conv_Cons map_Suc_upt del: upt_Suc)
  show ?case
    using Cons.prems Cons.IH [of "xs @ [y]"] by (simp add: join_abs shift comp_def del: upt_Suc)
qed simp

lemma chain_dirs:
  "list_all proper_comp cs \<Longrightarrow> k \<le> length cs \<Longrightarrow>
   rev (config_chain (abs_dir (take k cs)) (rev cs)) = map (\<lambda>j. abs_dir (take j cs)) [k..<Suc (length cs)]"
proof (induction cs rule: rev_induct)
  case (snoc c cs)
  show ?case
  proof (cases "k = Suc (length cs)")
    case True
    then show ?thesis by (simp add: Let_def)
  next
    case False
    then have k: "k \<le> length cs" using snoc.prems by simp
    then have "abs_dir (cs @ [c]) \<noteq> abs_dir (take k cs)"
      using snoc.prems abs_dir_inj [of "cs @ [c]" "take k cs"]
      by (metis (no_types, lifting) append_eq_conv_conj length_append_singleton length_take min.absorb2 n_not_Suc_n
          list_all_append append_take_drop_id not_less_eq_eq take_all_iff length_Cons nat_le_linear)
    then show ?thesis using k snoc by (simp add: Let_def)
  qed
qed simp

lemma rel_inside:
  assumes "list_all proper_comp (c # cs)"
  shows "str_join (c # cs) ''/'' \<noteq> ''.'' \<and> str_join (c # cs) ''/'' \<noteq> ''..'' \<and> \<not> has_prefix (str_join (c # cs) ''/'') ''../''
    \<and> str_join (c # cs) ''/'' \<noteq> []"
proof -
  have s: "split_on (CHR ''/'') (str_join (c # cs) ''/'') = c # cs" using split_proper [OF assms] by simp
  have "False" if pre: "has_prefix (str_join (c # cs) ''/'') ''../''"
  proof -
    obtain t where "str_join (c # cs) ''/'' = ''../'' @ t" using pre unfolding has_prefix_iff by blast
    then have "str_join (c # cs) ''/'' = ''..'' @ CHR ''/'' # t" by simp
    then have "hd (split_on (CHR ''/'') (str_join (c # cs) ''/'')) = ''..''"
      using split_on_append [of "CHR ''/''" "''..''" t] by simp
    then show False using s assms by simp
  qed
  moreover have "str_join (c # cs) ''/'' \<noteq> x" if "split_on (CHR ''/'') x = [x]" "\<not> proper_comp x" for x
    using that s assms by auto
  moreover have "split_on (CHR ''/'') x = [x]" if "x = [] \<or> x = ''.'' \<or> x = ''..''" for x
    using that by (auto intro!: split_on_plain)
  ultimately show ?thesis using improper by blast
qed

text \<open>
  Resources are looked for beside the configuration: the directories from the worktree down to a directory,
  whose resources are loaded, are exactly those whose configuration files are read, in the same order,
  so for both the nearest one comes last.
\<close>

theorem resources_beside_config:
  assumes "is_abs dir"
  shows "ancestors (Root g dir) dir = rev (config_chain (Root g dir) (rev (comps dir)))"
proof -
  let ?cs = "comps dir"
  have p: "list_all proper_comp ?cs" by (rule comps_proper [OF assms])
  obtain k where k: "k \<le> length ?cs" "Root g dir = abs_dir (take k ?cs)"
    using git_root_take [OF p, of g] unfolding Root_def by blast
  have pk: "list_all proper_comp (take k ?cs)" "list_all proper_comp (drop k ?cs)"
    using p by (metis append_take_drop_id list_all_append)+
  have wt: "path_clean (abs_dir (take k ?cs)) = abs_dir (take k ?cs)"
    using clean_abs [of "abs_dir (take k ?cs)"] comps_abs_dir [OF pk(1)] by (simp add: is_abs_def)
  have d: "path_clean dir = abs_dir ?cs" by (rule clean_abs [OF assms])
  have dots: "''..'' \<notin> set ([] :: string list)" by simp
  have rel: "path_rel (abs_dir (take k ?cs)) (abs_dir ?cs) =
      Some (if str_join (drop k ?cs) ''/'' = [] then ''.'' else str_join (drop k ?cs) ''/'')"
    by (simp add: path_rel_def is_abs_def comps_abs_dir [OF pk(1)] comps_abs_dir [OF p] strip_take Let_def)
  have dirs: "map (\<lambda>j. abs_dir (take j ?cs)) [k..<Suc (length ?cs)] =
      abs_dir (take k ?cs) # map (\<lambda>j. abs_dir (take k ?cs @ take j (drop k ?cs))) [1..<Suc (length (drop k ?cs))]"
  proof -
    have "[k..<Suc (length ?cs)] = map (\<lambda>i. i + k) [0..<Suc (length ?cs) - k]"
      using k(1) by (simp add: map_add_upt del: upt_Suc)
    also have "\<dots> = map (\<lambda>i. k + i) [0..<Suc (length ?cs) - k]" by (simp only: add.commute)
    also have "[0..<Suc (length ?cs) - k] = 0 # [1..<Suc (length (drop k ?cs))]"
      using k(1) by (simp add: upt_conv_Cons Suc_diff_le del: upt_Suc)
    finally show ?thesis using k(1) by (simp add: take_add del: upt_Suc)
  qed
  show ?thesis
  proof (cases "drop k ?cs")
    case Nil
    then show ?thesis using dirs rel chain_dirs [OF p k(1)] wt by (simp add: ancestors_def k(2) d Let_def)
  next
    case (Cons c cs)
    have ri: "list_all proper_comp (c # cs)" using pk(2) by (simp add: Cons)
    have "walk_down (abs_dir (take k ?cs)) (drop k ?cs) =
        map (\<lambda>j. abs_dir (take k ?cs @ take j (drop k ?cs))) [1..<Suc (length (drop k ?cs))]"
      by (rule walk_down_dirs [OF pk])
    then show ?thesis
      using dirs rel chain_dirs [OF p k(1)] rel_inside [OF ri] split_proper [OF ri]
      by (simp add: ancestors_def k(2) wt d Cons del: upt_Suc str_join.simps)
  qed
qed

theorem resources_beside_config_witness:
  "ancestors (Root (\<lambda>p. p = ''/a/.git'') ''/a/b'') ''/a/b'' = [''/a'', ''/a/b'']"
proof -
  have "rev (config_chain (Root (\<lambda>p. p = ''/a/.git'') ''/a/b'') (rev (comps ''/a/b''))) = [''/a'', ''/a/b'']" by code_simp
  then show ?thesis using resources_beside_config [of "''/a/b''" "\<lambda>p. p = ''/a/.git''"] by (simp add: is_abs_def)
qed

end
