(* ===== verification/Credentials.thy ===== *)
theory Credentials
  imports Config Catalog
begin

text \<open>
  The two files of secrets and what reads them: provider credentials (\<^verbatim>\<open>internal/credstore/credstore.go\<close>), the
  tokens of MCP servers (\<^verbatim>\<open>internal/mcp/authstore.go\<close>) and the provider list
  (\<^verbatim>\<open>internal/resource/provider.go\<close>). A file is taken as what decoding makes of it: nothing, something that
  is no map, or a map; every operation reads it, changes the map and writes the whole of it back under
  one lock. What both stores promise is the locale \<open>secret_store\<close>, interpreted on each.
\<close>

subsection \<open>A file of secrets\<close>

datatype 'v secret_file = NoFile | Unreadable | Garbled | Holding "(string, 'v) gomap"

definition decoded :: "'v secret_file \<Rightarrow> (string, 'v) gomap" where
  "decoded f = (case f of Holding m \<Rightarrow> m | _ \<Rightarrow> [])"

text \<open>
  Writing: the directory, a temporary file, its mode, its bytes, closing it, renaming it. Each step may
  fail, and the process may die between any two; \<open>write_stages\<close> lists what the disk then holds.
\<close>

record 'v disk =
  dk_store :: "'v secret_file"
  dk_temp :: "'v secret_file"
  dk_private :: bool

definition write_stages :: "(string, 'v) gomap \<Rightarrow> 'v disk \<Rightarrow> 'v disk list" where
  "write_stages m d =
     [d,
      d\<lparr>dk_temp := Garbled\<rparr>,
      d\<lparr>dk_temp := Garbled\<rparr>,
      d\<lparr>dk_temp := Holding m\<rparr>,
      d\<lparr>dk_temp := Holding m\<rparr>,
      d\<lparr>dk_store := Holding m, dk_temp := NoFile, dk_private := True\<rparr>]"

definition write_store :: "nat option \<Rightarrow> (string, 'v) gomap \<Rightarrow> 'v disk \<Rightarrow> bool \<times> 'v disk" where
  \<comment> \<open>the step that fails, if any; what was written of the temporary file is removed\<close>
  "write_store failing m d =
     (case failing of
        Some i \<Rightarrow> if i < 6 then (False, d\<lparr>dk_temp := NoFile\<rparr>) else (True, last (write_stages m d))
      | None \<Rightarrow> (True, last (write_stages m d)))"

text \<open>At no point does the store hold anything but its old content or the whole new one.\<close>

lemma store_never_partial:
  "d' \<in> set (write_stages m d) \<Longrightarrow> dk_store d' = dk_store d \<or> dk_store d' = Holding m \<and> dk_private d'"
  by (auto simp: write_stages_def)

lemma write_store_result:
  "write_store failing m d = (ok, d') \<Longrightarrow> dk_store d' = (if ok then Holding m else dk_store d)"
  by (auto simp: write_store_def write_stages_def split: option.splits if_splits)

subsection \<open>What a store promises\<close>

locale secret_store =
  fixes entries :: "'s \<Rightarrow> (string, 'v) gomap"
    and rewrite :: "nat option \<Rightarrow> ((string, 'v) gomap \<Rightarrow> (string, 'v) gomap) \<Rightarrow> 's \<Rightarrow> bool \<times> 's"
  assumes rewritten: "rewrite failing f s = (True, s') \<Longrightarrow> entries s' = f (entries s)"
    and kept: "rewrite failing f s = (False, s') \<Longrightarrow> entries s' = entries s"
begin

lemma put_get:
  assumes "rewrite failing (gm_put k v) s = (True, s')"
  shows "gm_get (entries s') j = (if j = k then Some v else gm_get (entries s) j)"
  using rewritten [OF assms] by simp

lemma del_get:
  assumes "rewrite failing (gm_del k) s = (True, s')"
  shows "gm_get (entries s') j = (if j = k then None else gm_get (entries s) j)"
  using rewritten [OF assms] by simp

lemma update_get:
  assumes "rewrite failing (\<lambda>m. gm_put k (f (gm_get m k)) m) s = (True, s')"
  shows "gm_get (entries s') j = (if j = k then Some (f (gm_get (entries s) k)) else gm_get (entries s) j)"
  using rewritten [OF assms] by simp

end

subsection \<open>Provider credentials\<close>

text \<open>
  A record is kept as the JSON it came as. \<open>override\<close> is what \<^verbatim>\<open>OPENCODE_AUTH_CONTENT\<close> decodes to; unset or
  empty it is \<open>NoFile\<close>.
\<close>

definition cred_load :: "json secret_file \<Rightarrow> json disk \<Rightarrow> (string, json) gomap" where
  "cred_load override d = (if override \<noteq> NoFile then decoded override else decoded (dk_store d))"

definition normalize_id :: "string \<Rightarrow> string" where
  "normalize_id i = trim_right (\<lambda>c. c = CHR ''/'') i"

definition cred_rewrite ::
  "json secret_file \<Rightarrow> nat option \<Rightarrow> ((string, json) gomap \<Rightarrow> (string, json) gomap) \<Rightarrow> json disk \<Rightarrow> bool \<times> json disk"
where
  "cred_rewrite override failing f d = write_store failing (f (cred_load override d)) d"

definition cred_Set :: "json secret_file \<Rightarrow> nat option \<Rightarrow> string \<Rightarrow> json \<Rightarrow> json disk \<Rightarrow> bool \<times> json disk" where
  "cred_Set override failing provider record = cred_rewrite override failing (gm_put (normalize_id provider) record)"

definition cred_Remove :: "json secret_file \<Rightarrow> nat option \<Rightarrow> string \<Rightarrow> json disk \<Rightarrow> bool \<times> json disk" where
  "cred_Remove override failing provider = cred_rewrite override failing (gm_del (normalize_id provider))"

definition TypeOf :: "json \<Rightarrow> string" where
  "TypeOf r =
     (case r of
        JObj kvs \<Rightarrow> fold (\<lambda>(k, v) t. if fold_name k = ''type'' then (case v of JStr s \<Rightarrow> s | _ \<Rightarrow> t) else t) kvs []
      | _ \<Rightarrow> [])"

definition storePath :: "config_env \<Rightarrow> string" where
  "storePath env =
     (if ce_getenv env ''XDG_DATA_HOME'' \<noteq> [] then path_join (ce_getenv env ''XDG_DATA_HOME'') ''opencode/auth.json''
      else (case ce_home env of
              None \<Rightarrow> ''auth.json'' | Some home \<Rightarrow> path_join home ''.local/share/opencode/auth.json''))"

interpretation creds: secret_store "cred_load NoFile" "cred_rewrite NoFile"
  by unfold_locales (auto simp: cred_rewrite_def cred_load_def decoded_def dest: write_store_result)


definition demo_disk :: "json disk" where
  "demo_disk = \<lparr>dk_store = Holding [(''openai'', JStr ''k'')], dk_temp = NoFile, dk_private = True\<rparr>"


text \<open>
  A set or a removal makes the file what it read, changed in one place, and it reads less than the file has: with the
  override of the environment, or with a file that cannot be read or decoded, the write succeeds and
  every credential the file had and the reading had not is gone.
\<close>

theorem unseen_credentials_lost:
  assumes "cred_Set override failing p r d = (True, d')" "gm_get (cred_load override d) k = None" "k \<noteq> normalize_id p"
  shows "dk_store d' = Holding (gm_put (normalize_id p) r (cred_load override d)) \<and> gm_get (decoded (dk_store d')) k = None"
  using assms by (auto simp: cred_Set_def cred_rewrite_def decoded_def dest!: write_store_result)

theorem unseen_credentials_lost_witness:
  "(let d' = snd (cred_Set (Holding [(''x'', JStr ''1'')]) None ''y'' (JStr ''2'') demo_disk)
    in gm_get (decoded (dk_store demo_disk)) ''openai'' = Some (JStr ''k'') \<and> gm_get (decoded (dk_store d')) ''openai'' = None) \<and>
   (let d' = snd (cred_Set NoFile None ''y'' (JStr ''2'') (demo_disk\<lparr>dk_store := Garbled\<rparr>))
    in dk_store d' = Holding [(''y'', JStr ''2'')])"
proof
  let ?o = "Holding [(''x'', JStr ''1'')]"
  let ?s = "cred_Set ?o None ''y'' (JStr ''2'') demo_disk"
  have "?s = (True, snd ?s)" by (simp add: cred_Set_def cred_rewrite_def write_store_def)
  from unseen_credentials_lost [OF this, of "''openai''"]
  show "let d' = snd ?s in gm_get (decoded (dk_store demo_disk)) ''openai'' = Some (JStr ''k'') \<and>
      gm_get (decoded (dk_store d')) ''openai'' = None"
    by (simp add: Let_def cred_load_def decoded_def demo_disk_def normalize_id_def trim_right_def)
  let ?g = "demo_disk\<lparr>dk_store := Garbled\<rparr>"
  let ?t = "cred_Set NoFile None ''y'' (JStr ''2'') ?g"
  have "?t = (True, snd ?t)" by (simp add: cred_Set_def cred_rewrite_def write_store_def)
  from unseen_credentials_lost [OF this, of "''z''"]
  show "let d' = snd ?t in dk_store d' = Holding [(''y'', JStr ''2'')]"
    by (simp add: Let_def cred_load_def decoded_def normalize_id_def trim_right_def)
qed

subsection \<open>Tokens of MCP servers\<close>

record auth_tokens =
  tk_access :: string
  tk_refresh :: string
  tk_expiresAt :: f64
  tk_scope :: string

record auth_client =
  ci_id :: string
  ci_secret :: string

record auth_entry =
  ae_tokens :: "auth_tokens option"
  ae_client :: "auth_client option"
  ae_verifier :: string
  ae_state :: string
  ae_serverURL :: string

definition zero_entry :: auth_entry where
  "zero_entry = \<lparr>ae_tokens = None, ae_client = None, ae_verifier = [], ae_state = [], ae_serverURL = []\<rparr>"

definition loadAuthData :: "auth_entry disk \<Rightarrow> (string, auth_entry) gomap" where
  "loadAuthData d = decoded (dk_store d)"

definition auth_rewrite ::
  "nat option \<Rightarrow> ((string, auth_entry) gomap \<Rightarrow> (string, auth_entry) gomap) \<Rightarrow> auth_entry disk \<Rightarrow> bool \<times> auth_entry disk"
where
  "auth_rewrite failing f d = write_store failing (f (loadAuthData d)) d"

interpretation tokens: secret_store loadAuthData auth_rewrite
  by unfold_locales (auto simp: auth_rewrite_def loadAuthData_def decoded_def dest: write_store_result)

definition getAuthEntry :: "string \<Rightarrow> auth_entry disk \<Rightarrow> auth_entry option" where
  "getAuthEntry name d = gm_get (loadAuthData d) name"

definition mutateAuthEntry :: "nat option \<Rightarrow> string \<Rightarrow> (auth_entry \<Rightarrow> auth_entry) \<Rightarrow> auth_entry disk \<Rightarrow> bool \<times> auth_entry disk" where
  "mutateAuthEntry failing name f =
     auth_rewrite failing (\<lambda>m. gm_put name (f (case gm_get m name of Some e \<Rightarrow> e | None \<Rightarrow> zero_entry)) m)"

definition removeAuthEntry :: "nat option \<Rightarrow> string \<Rightarrow> auth_entry disk \<Rightarrow> bool \<times> auth_entry disk" where
  "removeAuthEntry failing name = auth_rewrite failing (gm_del name)"

definition hasStoredTokens :: "string \<Rightarrow> auth_entry disk \<Rightarrow> bool" where
  "hasStoredTokens name d =
     (case getAuthEntry name d of
        None \<Rightarrow> False
      | Some e \<Rightarrow> (case ae_tokens e of None \<Rightarrow> False | Some t \<Rightarrow> tk_access t \<noteq> []))"

record mcp_token =
  mt_access :: string
  mt_type :: string
  mt_refresh :: string
  mt_scope :: string
  mt_expiresIn :: int
  mt_expiresAt :: "int option"  \<comment> \<open>Unix seconds; \<open>None\<close> is the zero time\<close>

definition GetToken :: "string \<Rightarrow> string \<Rightarrow> auth_entry disk \<Rightarrow> mcp_token option" where
  \<comment> \<open>\<open>None\<close> is \<^verbatim>\<open>ErrNoToken\<close>\<close>
  "GetToken name serverURL d =
     (case getAuthEntry name d of
        None \<Rightarrow> None
      | Some e \<Rightarrow>
          (case ae_tokens e of
             None \<Rightarrow> None
           | Some t \<Rightarrow>
               if tk_access t = [] then None
               else if ae_serverURL e \<noteq> [] \<and> ae_serverURL e \<noteq> serverURL then None
               else Some \<lparr>mt_access = tk_access t, mt_type = ''Bearer'', mt_refresh = tk_refresh t, mt_scope = tk_scope t,
                      mt_expiresIn = 0, mt_expiresAt = (if tk_expiresAt t > 0 then Some \<lfloor>tk_expiresAt t\<rfloor> else None)\<rparr>))"

definition SaveToken :: "nat option \<Rightarrow> int \<Rightarrow> string \<Rightarrow> string \<Rightarrow> mcp_token \<Rightarrow> auth_entry disk \<Rightarrow> bool \<times> auth_entry disk" where
  \<comment> \<open>the second argument is the time in Unix seconds\<close>
  "SaveToken failing now name serverURL token =
     mutateAuthEntry failing name (\<lambda>e.
       let t = \<lparr>tk_access = mt_access token, tk_refresh = mt_refresh token,
                tk_expiresAt = (case mt_expiresAt token of
                                  Some ex \<Rightarrow> of_int ex
                                | None \<Rightarrow> if mt_expiresIn token > 0 then of_int (now + mt_expiresIn token) else 0),
                tk_scope = mt_scope token\<rparr>
       in e\<lparr>ae_tokens := Some t, ae_serverURL := serverURL\<rparr>)"

definition persistClientInfo :: "nat option \<Rightarrow> string \<Rightarrow> string \<Rightarrow> string \<Rightarrow> string \<Rightarrow> auth_entry disk \<Rightarrow> bool \<times> auth_entry disk" where
  "persistClientInfo failing name serverURL clientID clientSecret =
     mutateAuthEntry failing name (\<lambda>e. e\<lparr>ae_client := Some \<lparr>ci_id = clientID, ci_secret = clientSecret\<rparr>,
                                         ae_serverURL := serverURL\<rparr>)"

definition persist_flow :: "nat option \<Rightarrow> string \<Rightarrow> string \<Rightarrow> string \<Rightarrow> string \<Rightarrow> auth_entry disk \<Rightarrow> bool \<times> auth_entry disk" where
  "persist_flow failing name verifier state serverURL =
     mutateAuthEntry failing name (\<lambda>e. e\<lparr>ae_verifier := verifier, ae_state := state, ae_serverURL := serverURL\<rparr>)"

lemma mutated_entry:
  assumes "mutateAuthEntry failing name f d = (True, d')"
  shows "getAuthEntry j d' =
    (if j = name then Some (f (case getAuthEntry name d of Some e \<Rightarrow> e | None \<Rightarrow> zero_entry)) else getAuthEntry j d)"
  using tokens.rewritten [OF assms [unfolded mutateAuthEntry_def]] by (auto simp: getAuthEntry_def)

text \<open>
  A token is for the server it was saved for: after it is saved, the same name and address get it back, with the
  expiry to the second, another address gets none, and the tokens of other names are unchanged.
\<close>

theorem saved_token_returned:
  assumes "SaveToken failing now name url t d = (True, d')" "mt_access t \<noteq> []" "url \<noteq> []"
    "\<forall>ex. mt_expiresAt t = Some ex \<longrightarrow> ex > 0" "now > 0"
  shows "GetToken n u d' =
    (if n \<noteq> name then GetToken n u d
     else if u \<noteq> url then None
     else Some (t\<lparr>mt_type := ''Bearer'', mt_expiresIn := 0,
            mt_expiresAt := (case mt_expiresAt t of
                               Some ex \<Rightarrow> Some ex
                             | None \<Rightarrow> if mt_expiresIn t > 0 then Some (now + mt_expiresIn t) else None)\<rparr>))"
proof (cases "n = name")
  case True
  then show ?thesis
    using assms(2-5) mutated_entry [OF assms(1) [unfolded SaveToken_def], of n]
    by (auto simp: GetToken_def Let_def split: option.splits)
next
  case False
  then show ?thesis
    using mutated_entry [OF assms(1) [unfolded SaveToken_def], of n] by (simp add: GetToken_def)
qed

definition demo_token :: mcp_token where
  "demo_token = \<lparr>mt_access = ''a'', mt_type = ''Bearer'', mt_refresh = ''r'', mt_scope = [], mt_expiresIn = 60, mt_expiresAt = None\<rparr>"

definition empty_disk :: "'v disk" where
  "empty_disk = \<lparr>dk_store = NoFile, dk_temp = NoFile, dk_private = False\<rparr>"

theorem saved_token_returned_witness:
  "(let d' = snd (SaveToken None 1000 ''s'' ''https://a'' demo_token empty_disk)
    in GetToken ''s'' ''https://a'' d' = Some (demo_token\<lparr>mt_expiresIn := 0, mt_expiresAt := Some 1060\<rparr>) \<and>
       GetToken ''s'' ''https://b'' d' = None)"
proof -
  let ?s = "SaveToken None 1000 ''s'' ''https://a'' demo_token empty_disk"
  have "?s = (True, snd ?s)" by (simp add: SaveToken_def mutateAuthEntry_def auth_rewrite_def write_store_def)
  from saved_token_returned [OF this, of "''s''" "''https://a''"] saved_token_returned [OF this, of "''s''" "''https://b''"]
  show ?thesis by (simp add: demo_token_def Let_def)
qed

text \<open>
  C39. Starting to authorize a server at a new address hands it the old one's token: the address is overwritten when the
  flow starts, or when a client is registered, while the tokens stay; so a token that was refused to the
  new address before is returned for it from then on, before anybody has authorized anything.
\<close>

theorem started_flow_releases_token:
  assumes "getAuthEntry name d = Some e" "ae_tokens e = Some t" "tk_access t \<noteq> []" "ae_serverURL e \<noteq> []" "ae_serverURL e \<noteq> url"
    "persist_flow failing name verifier state url d = (True, d') \<or> persistClientInfo failing name url cid csecret d = (True, d')"
  shows "GetToken name url d = None \<and>
    (\<exists>tok. GetToken name (ae_serverURL e) d = Some tok \<and> GetToken name url d' = Some tok \<and> mt_access tok = tk_access t)"
proof -
  have "\<exists>f. mutateAuthEntry failing name f d = (True, d') \<and> (\<forall>x. ae_tokens (f x) = ae_tokens x \<and> ae_serverURL (f x) = url)"
    using assms(6)
  proof
    assume "persist_flow failing name verifier state url d = (True, d')"
    then show ?thesis unfolding persist_flow_def
      by (intro exI [of _ "\<lambda>e. e\<lparr>ae_verifier := verifier, ae_state := state, ae_serverURL := url\<rparr>"]) simp
  next
    assume "persistClientInfo failing name url cid csecret d = (True, d')"
    then show ?thesis unfolding persistClientInfo_def
      by (intro exI [of _ "\<lambda>e. e\<lparr>ae_client := Some \<lparr>ci_id = cid, ci_secret = csecret\<rparr>, ae_serverURL := url\<rparr>"]) simp
  qed
  then obtain f where f: "mutateAuthEntry failing name f d = (True, d')" "ae_tokens (f e) = ae_tokens e" "ae_serverURL (f e) = url"
    by blast
  show ?thesis
    using assms(1-5) mutated_entry [OF f(1), of name] f(2,3) by (simp add: GetToken_def)
qed

theorem started_flow_releases_token_witness:
  "(let d = snd (SaveToken None 1000 ''s'' ''https://a'' demo_token empty_disk);
        d' = snd (persist_flow None ''s'' ''v'' ''x'' ''https://evil'' d)
    in GetToken ''s'' ''https://evil'' d = None \<and> (\<exists>tok. GetToken ''s'' ''https://evil'' d' = Some tok \<and> mt_access tok = ''a''))"
proof -
  let ?d = "snd (SaveToken None 1000 ''s'' ''https://a'' demo_token empty_disk)"
  let ?p = "persist_flow None ''s'' ''v'' ''x'' ''https://evil'' ?d"
  have s: "SaveToken None 1000 ''s'' ''https://a'' demo_token empty_disk = (True, ?d)"
    by (simp add: SaveToken_def mutateAuthEntry_def auth_rewrite_def write_store_def)
  have p: "?p = (True, snd ?p)" by (simp add: persist_flow_def mutateAuthEntry_def auth_rewrite_def write_store_def)
  obtain e t where e: "getAuthEntry ''s'' ?d = Some e" "ae_tokens e = Some t" "tk_access t = ''a''" "ae_serverURL e = ''https://a''"
    using mutated_entry [OF s [unfolded SaveToken_def], of "''s''"] by (auto simp: Let_def demo_token_def SaveToken_def)
  show ?thesis
    using started_flow_releases_token [OF e(1,2), of "''https://evil''" None "''v''" "''x''" "snd ?p"] e(3,4) p
    by (auto simp: Let_def)
qed

subsection \<open>The provider list\<close>

record wire_model =
  wm_id :: string
  wm_provider :: string
  wm_name :: string
  wm_family :: string
  wm_api_url :: string
  wm_api_npm :: string
  wm_status :: string
  wm_cost :: cost
  wm_limit :: limit
  wm_temperature :: bool
  wm_reasoning :: bool
  wm_attachment :: bool
  wm_toolcall :: bool
  wm_input :: "string list"
  wm_output :: "string list"
  wm_release :: string

text \<open>The modality flags are given as the list of those that are set.\<close>

definition modalityFlags :: "modalities option \<Rightarrow> bool \<Rightarrow> string list" where
  "modalityFlags m input =
     (case m of
        None \<Rightarrow> []
      | Some mo \<Rightarrow> filter (\<lambda>v. v \<in> set (if input then mo_input mo else mo_output mo))
                    [''text'', ''audio'', ''image'', ''video'', ''pdf''])"

definition toWireModel :: "cat_provider \<Rightarrow> model \<Rightarrow> wire_model" where
  "toWireModel p m =
     \<lparr>wm_id = mo_id m, wm_provider = pv_id p, wm_name = mo_name m, wm_family = mo_family m, wm_api_url = pv_api p,
      wm_api_npm = (if pv_npm p = [] then ''@ai-sdk/openai-compatible'' else pv_npm p),
      wm_status = (if mo_status m = [] then ''active'' else mo_status m),
      wm_cost = (case mo_cost m of
                   Some c \<Rightarrow> c | None \<Rightarrow> \<lparr>co_input = 0, co_output = 0, co_cache_read = 0, co_cache_write = 0\<rparr>),
      wm_limit = mo_limit m, wm_temperature = mo_temperature m, wm_reasoning = mo_reasoning m,
      wm_attachment = mo_attachment m, wm_toolcall = mo_tool_call m, wm_input = modalityFlags (mo_modalities m) True,
      wm_output = modalityFlags (mo_modalities m) False, wm_release = mo_release m\<rparr>"

definition toWireModels :: "cat_provider \<Rightarrow> (string, wire_model) gomap" where
  "toWireModels p = map (apsnd (toWireModel p)) (pv_models p)"

record wire_provider =
  wr_id :: string
  wr_name :: string
  wr_source :: string
  wr_env :: "string list"
  wr_models :: "(string, wire_model) gomap"

record provider_list =
  pl_all :: "wire_provider list"
  pl_default :: "(string, string) gomap"
  pl_connected :: "string list"

definition stringSet :: "json option \<Rightarrow> string list option" where
  "stringSet v =
     (case v of
        Some (JArr xs) \<Rightarrow> Some (List.map_filter (\<lambda>x. case x of JStr s \<Rightarrow> Some s | _ \<Rightarrow> None) xs)
      | _ \<Rightarrow> None)"

definition configProviderKeys :: "jmap \<Rightarrow> string list" where
  "configProviderKeys cfg = (case gm_get cfg ''provider'' of Some (JObj raw) \<Rightarrow> gm_keys raw | _ \<Rightarrow> [])"

definition envAny :: "(string \<Rightarrow> string) \<Rightarrow> string list \<Rightarrow> bool" where
  "envAny getenv names = list_ex (\<lambda>n. getenv n \<noteq> []) names"

definition lowestModelID :: "(string, model) gomap \<Rightarrow> string" where
  "lowestModelID ms = (case sort (gm_keys ms) of [] \<Rightarrow> [] | i # _ \<Rightarrow> i)"

definition authSource :: "json \<Rightarrow> string" where
  "authSource r = (if TypeOf r = ''api'' then ''api'' else ''env'')"

definition listed :: "jmap \<Rightarrow> string \<Rightarrow> bool" where
  "listed cfg i =
     (\<not> (case stringSet (gm_get cfg ''disabled_providers'') of Some ds \<Rightarrow> i \<in> set ds | None \<Rightarrow> False) \<and>
      (case stringSet (gm_get cfg ''enabled_providers'') of Some es \<Rightarrow> i \<in> set es | None \<Rightarrow> True))"

definition provider_source ::
  "(string \<Rightarrow> string) \<Rightarrow> (string, json) gomap \<Rightarrow> jmap \<Rightarrow> string \<Rightarrow> cat_provider \<Rightarrow> string \<times> bool"
where
  "provider_source getenv auth cfg i p =
     (let (source, con) = (''env'', envAny getenv (pv_env p));
          (source, con) = (case gm_get auth i of Some r \<Rightarrow> (authSource r, True) | None \<Rightarrow> (source, con))
      in if i \<in> set (configProviderKeys cfg) then (''config'', True) else (source, con))"

definition BuildProviderList ::
  "(string \<Rightarrow> string) \<Rightarrow> (string, json) gomap \<Rightarrow> catalog \<Rightarrow> jmap \<Rightarrow> provider_list"
where
  "BuildProviderList getenv auth cat cfg =
     (let shown = filter (\<lambda>(i, p). listed cfg i) cat
      in \<lparr>pl_all = sort_key wr_id (map (\<lambda>(i, p).
              \<lparr>wr_id = i, wr_name = pv_name p, wr_source = fst (provider_source getenv auth cfg i p), wr_env = pv_env p,
               wr_models = toWireModels p\<rparr>) shown),
          pl_default = map (\<lambda>(i, p). (i, lowestModelID (pv_models p)))
                         (filter (\<lambda>(i, p). lowestModelID (pv_models p) \<noteq> []) shown),
          pl_connected = sort (map fst (filter (\<lambda>(i, p). snd (provider_source getenv auth cfg i p)) shown))\<rparr>)"

lemma sorted_sources:
  "distinct (map fst xs) \<Longrightarrow> set (sort (map fst (filter (\<lambda>(i, p). Q i p) xs))) = {i. \<exists>p. (i, p) \<in> set xs \<and> Q i p}"
  by force

text \<open>
  A provider is connected exactly when it is shown and has credentials: an environment variable that is set, a stored
  record, or a place in the configuration; the connected ones are among those listed, each listed once
  in the order of ids, and the default of each is its lowest model.
\<close>

theorem connected_providers_exact:
  assumes "gm_wf cat"
  shows "set (pl_connected (BuildProviderList getenv auth cat cfg)) =
      {i. \<exists>p. gm_get cat i = Some p \<and> listed cfg i \<and>
         ((\<exists>n \<in> set (pv_env p). getenv n \<noteq> []) \<or> gm_has auth i \<or> i \<in> set (configProviderKeys cfg))} \<and>
    set (pl_connected (BuildProviderList getenv auth cat cfg)) \<subseteq> set (map wr_id (pl_all (BuildProviderList getenv auth cat cfg))) \<and>
    sorted (map wr_id (pl_all (BuildProviderList getenv auth cat cfg))) \<and>
    distinct (map wr_id (pl_all (BuildProviderList getenv auth cat cfg)))"
proof -
  let ?shown = "filter (\<lambda>(i, p). listed cfg i) cat"
  let ?pl = "BuildProviderList getenv auth cat cfg"
  have con: "snd (provider_source getenv auth cfg i p) \<longleftrightarrow>
      (\<exists>n \<in> set (pv_env p). getenv n \<noteq> []) \<or> gm_has auth i \<or> i \<in> set (configProviderKeys cfg)" for i p
    by (auto simp: provider_source_def envAny_def list_ex_iff gm_has_def Let_def split: option.split)
  have set: "set (pl_connected ?pl) = {i. \<exists>p. (i, p) \<in> set ?shown \<and> snd (provider_source getenv auth cfg i p)}"
    by (force simp: BuildProviderList_def Let_def)
  have ids: "map wr_id (map (\<lambda>(i, p).
              \<lparr>wr_id = i, wr_name = pv_name p, wr_source = fst (provider_source getenv auth cfg i p), wr_env = pv_env p,
               wr_models = toWireModels p\<rparr>) xs) = map fst xs" for xs
    by (induction xs) auto
  have "distinct (map fst ?shown)" using assms by (simp add: gm_wf_def distinct_map_filter)
  then have "distinct (map wr_id (pl_all ?pl))"
    unfolding BuildProviderList_def Let_def provider_list.simps
    using ids [of ?shown] by (metis (no_types, lifting) distinct_map distinct_sort set_sort)
  moreover have "sorted (map wr_id (pl_all ?pl))" by (simp add: BuildProviderList_def Let_def)
  moreover have "set (pl_connected ?pl) =
      {i. \<exists>p. gm_get cat i = Some p \<and> listed cfg i \<and>
         ((\<exists>n \<in> set (pv_env p). getenv n \<noteq> []) \<or> gm_has auth i \<or> i \<in> set (configProviderKeys cfg))}"
    unfolding set con using assms by (auto simp: gm_get_mem)
  moreover have "set (pl_connected ?pl) \<subseteq> fst ` set ?shown" unfolding set by force
  moreover have "set (map wr_id (pl_all ?pl)) = fst ` set ?shown"
    unfolding BuildProviderList_def Let_def provider_list.simps using arg_cong [OF ids [of ?shown], of set] by (simp add: image_image)
  ultimately show ?thesis by simp
qed

theorem connected_providers_exact_witness:
  "pl_connected (BuildProviderList (\<lambda>n. if n = ''KEY'' then ''k'' else []) [(''b'', JObj [(''type'', JStr ''api'')])]
     [(''c'', \<lparr>pv_id = ''c'', pv_name = [], pv_api = [], pv_npm = [], pv_env = [''NONE''], pv_models = []\<rparr>),
      (''b'', \<lparr>pv_id = ''b'', pv_name = [], pv_api = [], pv_npm = [], pv_env = [], pv_models = []\<rparr>),
      (''a'', \<lparr>pv_id = ''a'', pv_name = [], pv_api = [], pv_npm = [], pv_env = [''KEY''], pv_models = []\<rparr>)] []) = [''a'', ''b'']"
proof -
  let ?cat = "[(''c'', \<lparr>pv_id = ''c'', pv_name = [], pv_api = [], pv_npm = [], pv_env = [''NONE''], pv_models = []\<rparr>),
      (''b'', \<lparr>pv_id = ''b'', pv_name = [], pv_api = [], pv_npm = [], pv_env = [], pv_models = []\<rparr>),
      (''a'', \<lparr>pv_id = ''a'', pv_name = [], pv_api = [], pv_npm = [], pv_env = [''KEY''], pv_models = []\<rparr>)]"
  let ?pl = "BuildProviderList (\<lambda>n. if n = ''KEY'' then ''k'' else []) [(''b'', JObj [(''type'', JStr ''api'')])] ?cat []"
  have "gm_wf ?cat" by (simp add: gm_wf_def)
  from connected_providers_exact [OF this, of "\<lambda>n. if n = ''KEY'' then ''k'' else []" "[(''b'', JObj [(''type'', JStr ''api'')])]" "[]"]
  have "set (pl_connected ?pl) = {''a'', ''b''}"
    by (auto simp: listed_def stringSet_def configProviderKeys_def gm_has_def split: if_splits)
  moreover have "sorted (pl_connected ?pl)" "distinct (pl_connected ?pl)"
    by (simp_all add: BuildProviderList_def Let_def listed_def stringSet_def)
  ultimately show ?thesis by (intro sorted_distinct_set_unique) simp_all
qed

end
