(* ===== verification/OAuth.thy ===== *)
theory OAuth
  imports Credentials Deferred
begin

text \<open>
  Signing in to providers (\<^verbatim>\<open>internal/oauth\<close>): the loopback server that receives the browser's redirect
  (\<^verbatim>\<open>callback_server.go\<close>), the service that starts and completes sign-ins (\<^verbatim>\<open>service.go\<close>), and the access
  tokens it hands out, refreshed one at a time per provider (\<^verbatim>\<open>access.go\<close>). Goroutines are steps, one per
  critical section, in any order. A provider's token endpoint, the clock, random states and whether a
  write of the file fails are inputs. The registered sign-ins satisfy the law of \<open>deferred\<close>.
\<close>

subsection \<open>The callback server\<close>

datatype callback_result = CodeArrived string | CallbackError string

datatype pending_kind = PendingLoopback | PendingCode

record pending_auth =
  pq_kind :: pending_kind
  pq_state :: string
  pq_chan :: nat

text \<open>
  \<open>cb_pending\<close> maps a state to the channel of its sign-in; \<open>cb_sent\<close> lists what was sent on the channels, with
  the state the sender came with (none at shutdown). \<open>cb_owner\<close> remembers the state a channel was made for.
\<close>

record callback_server =
  cb_pending :: "(string, nat) gomap"
  cb_next :: nat
  cb_sent :: "(nat \<times> string option \<times> callback_result) list"
  cb_owner :: "(nat, string) gomap"
  cb_port :: "int option"
  cb_proxy :: string

definition ensureStarted :: "(int \<Rightarrow> int option) \<Rightarrow> int \<Rightarrow> callback_server \<Rightarrow> int option \<times> callback_server" where
  \<comment> \<open>\<open>listen\<close> gives the port that was bound, or none\<close>
  "ensureStarted listen want s =
     (case cb_port s of
        Some port \<Rightarrow> if want \<noteq> 0 \<and> want \<noteq> port then (None, s) else (Some port, s)
      | None \<Rightarrow> (case listen want of None \<Rightarrow> (None, s) | Some port \<Rightarrow> (Some port, s\<lparr>cb_port := Some port\<rparr>)))"

definition cb_path :: string where
  "cb_path = ''/callback''"

definition cb_redirectURI :: "callback_server \<Rightarrow> int \<Rightarrow> string" where
  "cb_redirectURI s port =
     (if cb_proxy s \<noteq> []
      then (if last (cb_proxy s) = CHR ''/'' then butlast (cb_proxy s) else cb_proxy s) @ cb_path
      else ''http://127.0.0.1:'' @ itoa_int port @ cb_path)"

definition cb_register :: "string \<Rightarrow> callback_server \<Rightarrow> nat \<times> callback_server" where
  "cb_register state s =
     (cb_next s, s\<lparr>cb_pending := gm_put state (cb_next s) (cb_pending s), cb_next := Suc (cb_next s),
                   cb_owner := gm_put (cb_next s) state (cb_owner s)\<rparr>)"

definition cb_unregister :: "string \<Rightarrow> callback_server \<Rightarrow> callback_server" where
  "cb_unregister state s = s\<lparr>cb_pending := gm_del state (cb_pending s)\<rparr>"

record redirect =
  rd_state :: string
  rd_error :: string
  rd_description :: string
  rd_code :: string

definition redirect_result :: "redirect \<Rightarrow> callback_result" where
  "redirect_result r =
     (if rd_error r \<noteq> []
      then CallbackError (''provider returned error: '' @ (if rd_description r = [] then rd_error r else rd_description r))
      else if rd_code r = [] then CallbackError ''missing authorization code''
      else CodeArrived (rd_code r))"

definition cb_handle :: "redirect \<Rightarrow> callback_server \<Rightarrow> nat \<times> callback_server" where
  \<comment> \<open>the status of the page, and the server\<close>
  "cb_handle r s =
     (case gm_get (cb_pending s) (rd_state r) of
        None \<Rightarrow> (400, s)
      | Some ch \<Rightarrow>
          (if rd_error r = [] \<and> rd_code r = [] then 400 else 200,
           s\<lparr>cb_pending := gm_del (rd_state r) (cb_pending s),
             cb_sent := cb_sent s @ [(ch, Some (rd_state r), redirect_result r)]\<rparr>))"

definition cb_shutdown :: "callback_server \<Rightarrow> callback_server" where
  "cb_shutdown s =
     s\<lparr>cb_port := None, cb_pending := [],
       cb_sent := cb_sent s @ map (\<lambda>(state, ch). (ch, None, CallbackError ''daemon shutting down'')) (cb_pending s)\<rparr>"

subsection \<open>The service\<close>

record oauth_service =
  os_server :: callback_server
  os_pending :: "(string, pending_auth) gomap"
  os_waiting :: "pending_auth list"
  os_starting :: "(string \<times> pending_auth) list"

definition newService :: "string \<Rightarrow> oauth_service" where
  "newService proxy =
     \<lparr>os_server = \<lparr>cb_pending = [], cb_next = 0, cb_sent = [], cb_owner = [], cb_port = None, cb_proxy = proxy\<rparr>,
      os_pending = [], os_waiting = [], os_starting = []\<rparr>"

text \<open>
  \<open>Authorize\<close> registers the state of a loopback sign-in and then, under the service's lock, takes the place of
  the sign-in that was pending for the provider. What the provider answers is an input.
\<close>

definition authorize_register :: "string \<Rightarrow> string \<Rightarrow> string \<Rightarrow> oauth_service \<Rightarrow> oauth_service option" where
  \<comment> \<open>provider, method and state; \<open>None\<close> is the error for a method that is not supported\<close>
  "authorize_register provider kind state s =
     (if kind = ''auto'' then
        (case cb_register state (os_server s) of
           (ch, cb) \<Rightarrow> Some (s\<lparr>os_server := cb,
                              os_starting := (provider, \<lparr>pq_kind = PendingLoopback, pq_state = state, pq_chan = ch\<rparr>) # os_starting s\<rparr>))
      else if kind = ''code'' then
        Some (s\<lparr>os_starting := (provider, \<lparr>pq_kind = PendingCode, pq_state = state, pq_chan = 0\<rparr>) # os_starting s\<rparr>)
      else None)"

definition authorize_install :: "string \<Rightarrow> pending_auth \<Rightarrow> oauth_service \<Rightarrow> oauth_service" where
  "authorize_install provider p s =
     s\<lparr>os_server := (case gm_get (os_pending s) provider of
                       Some prev \<Rightarrow> if pq_kind prev = PendingLoopback then cb_unregister (pq_state prev) (os_server s)
                                   else os_server s
                     | None \<Rightarrow> os_server s),
       os_pending := gm_put provider p (os_pending s),
       os_starting := remove1 (provider, p) (os_starting s)\<rparr>"

datatype callback_start = OauthMissing | OauthCodeMissing | ExchangeCode string | WaitRedirect pending_auth

definition callback_take :: "string \<Rightarrow> string \<Rightarrow> oauth_service \<Rightarrow> callback_start \<times> oauth_service" where
  "callback_take provider code s =
     (case gm_get (os_pending s) provider of
        None \<Rightarrow> (OauthMissing, s)
      | Some p \<Rightarrow>
          (let s1 = s\<lparr>os_pending := gm_del provider (os_pending s)\<rparr>
           in case pq_kind p of
                PendingCode \<Rightarrow> (if code = [] then OauthCodeMissing else ExchangeCode code, s1)
              | PendingLoopback \<Rightarrow> (WaitRedirect p, s1\<lparr>os_waiting := p # os_waiting s1\<rparr>)))"

text \<open>The wait ends with what is on the channel, or with the timeout or the cancellation of the request; either way the state is unregistered.\<close>

definition callback_end :: "pending_auth \<Rightarrow> oauth_service \<Rightarrow> oauth_service" where
  "callback_end p s = s\<lparr>os_server := cb_unregister (pq_state p) (os_server s), os_waiting := remove1 p (os_waiting s)\<rparr>"

definition callback_receive :: "pending_auth \<Rightarrow> oauth_service \<Rightarrow> (callback_result \<times> oauth_service) option" where
  "callback_receive p s =
     (case find (\<lambda>(ch, _). ch = pq_chan p) (cb_sent (os_server s)) of
        None \<Rightarrow> None
      | Some (_, _, r) \<Rightarrow> Some (r, callback_end p s))"

inductive oauth_raw :: "oauth_service \<Rightarrow> oauth_service \<Rightarrow> bool" where
  raw_register: "authorize_register provider kind state s = Some s' \<Longrightarrow> oauth_raw s s'"
| raw_install: "(provider, p) \<in> set (os_starting s) \<Longrightarrow> oauth_raw s (authorize_install provider p s)"
| raw_redirect: "oauth_raw s (s\<lparr>os_server := snd (cb_handle r (os_server s))\<rparr>)"
| raw_take: "oauth_raw s (snd (callback_take provider code s))"
| raw_receive: "p \<in> set (os_waiting s) \<Longrightarrow> callback_receive p s = Some (r, s') \<Longrightarrow> oauth_raw s s'"
| raw_give_up: "p \<in> set (os_waiting s) \<Longrightarrow> oauth_raw s (callback_end p s)"
| raw_shutdown: "oauth_raw s (s\<lparr>os_server := cb_shutdown (os_server s)\<rparr>)"

subsection \<open>One result per sign-in\<close>

text \<open>What the steps do to the callback server.\<close>

inductive cb_move :: "callback_server \<Rightarrow> callback_server \<Rightarrow> bool" where
  move_none: "cb_move s s"
| move_register: "cb_move s (snd (cb_register state s))"
| move_unregister: "cb_move s (cb_unregister state s)"
| move_handle: "cb_move s (snd (cb_handle r s))"
| move_shutdown: "cb_move s (cb_shutdown s)"

lemma raw_moves: "oauth_raw s t \<Longrightarrow> cb_move (os_server s) (os_server t)"
proof (induction rule: oauth_raw.induct)
  case (raw_register provider kind state s s')
  then show ?case
    using move_register [of "os_server s" state]
    by (auto simp: authorize_register_def intro: move_none split: if_splits prod.splits)
next
  case (raw_install provider p s)
  then show ?case by (auto simp: authorize_install_def intro: cb_move.intros split: option.split)
next
  case (raw_take s provider code)
  then show ?case
    by (auto simp: callback_take_def Let_def intro: move_none split: option.split pending_kind.split)
next
  case (raw_receive p s r s')
  then show ?case by (auto simp: callback_receive_def callback_end_def intro: cb_move.intros split: option.splits)
qed (auto simp: callback_end_def intro: cb_move.intros)

definition cb_waits :: "callback_server \<Rightarrow> nat \<Rightarrow> bool" where
  "cb_waits s ch = (\<exists>state. gm_get (cb_pending s) state = Some ch)"

definition cb_sends :: "callback_server \<Rightarrow> nat \<Rightarrow> nat" where
  "cb_sends s ch = length (filter (\<lambda>x. fst x = ch) (cb_sent s))"

text \<open>States have one channel each, channels are new when they are registered, and what was sent with a state went to that state's channel.\<close>

definition cb_inv :: "callback_server \<Rightarrow> bool" where
  "cb_inv s \<longleftrightarrow> gm_wf (cb_pending s) \<and>
     (\<forall>state ch. gm_get (cb_pending s) state = Some ch \<longrightarrow> ch < cb_next s \<and> gm_get (cb_owner s) ch = Some state) \<and>
     (\<forall>x \<in> set (cb_sent s). fst x < cb_next s \<and>
        (case snd x of (Some state, r) \<Rightarrow> gm_get (cb_owner s) (fst x) = Some state | (None, r) \<Rightarrow> \<exists>e. r = CallbackError e))"

lemma cb_inv_wf: "cb_inv s \<Longrightarrow> gm_wf (cb_pending s)"
  by (simp add: cb_inv_def)

lemma cb_inv_pending:
  "cb_inv s \<Longrightarrow> gm_get (cb_pending s) state = Some ch \<Longrightarrow> ch < cb_next s \<and> gm_get (cb_owner s) ch = Some state"
  by (simp add: cb_inv_def)

lemma cb_inv_sent:
  "cb_inv s \<Longrightarrow> (ch, st, r) \<in> set (cb_sent s) \<Longrightarrow>
   ch < cb_next s \<and> (case st of Some state \<Rightarrow> gm_get (cb_owner s) ch = Some state | None \<Rightarrow> \<exists>e. r = CallbackError e)"
  by (fastforce simp: cb_inv_def split: option.splits)

lemma cb_invI:
  assumes "gm_wf (cb_pending s)"
    "\<And>state ch. gm_get (cb_pending s) state = Some ch \<Longrightarrow> ch < cb_next s \<and> gm_get (cb_owner s) ch = Some state"
    "\<And>ch st r. (ch, st, r) \<in> set (cb_sent s) \<Longrightarrow>
       ch < cb_next s \<and> (case st of Some state \<Rightarrow> gm_get (cb_owner s) ch = Some state | None \<Rightarrow> \<exists>e. r = CallbackError e)"
  shows "cb_inv s"
  using assms by (fastforce simp: cb_inv_def split: option.splits)

lemma cb_inv_move:
  assumes "cb_move s t" "cb_inv s"
  shows "cb_inv t"
  using assms
proof (induction rule: cb_move.induct)
  case (move_register s state)
  note i = cb_inv_pending [OF move_register] cb_inv_sent [OF move_register] cb_inv_wf [OF move_register]
  show ?case
  proof (rule cb_invI)
    show "ch < cb_next (snd (cb_register state s)) \<and> gm_get (cb_owner (snd (cb_register state s))) ch = Some st"
      if "gm_get (cb_pending (snd (cb_register state s))) st = Some ch" for st ch
      using that i(1) [of st ch] by (auto simp: cb_register_def split: if_splits)
    show "ch < cb_next (snd (cb_register state s)) \<and>
        (case st of Some x \<Rightarrow> gm_get (cb_owner (snd (cb_register state s))) ch = Some x | None \<Rightarrow> \<exists>e. r = CallbackError e)"
      if "(ch, st, r) \<in> set (cb_sent (snd (cb_register state s)))" for ch st r
      using that i(2) [of ch st r] by (auto simp: cb_register_def split: option.splits)
  qed (simp add: cb_register_def i(3))
next
  case (move_unregister s state)
  note i = cb_inv_pending [OF move_unregister] cb_inv_sent [OF move_unregister] cb_inv_wf [OF move_unregister]
  show ?case
  proof (rule cb_invI)
    show "ch < cb_next (cb_unregister state s) \<and>
        (case st of Some x \<Rightarrow> gm_get (cb_owner (cb_unregister state s)) ch = Some x | None \<Rightarrow> \<exists>e. r = CallbackError e)"
      if "(ch, st, r) \<in> set (cb_sent (cb_unregister state s))" for ch st r
      using that i(2) [of ch st r] by (cases st) (simp_all add: cb_unregister_def)
  qed (auto simp: cb_unregister_def i(3) dest: i(1) split: if_splits)
next
  case (move_handle s r)
  note i = cb_inv_pending [OF move_handle] cb_inv_sent [OF move_handle] cb_inv_wf [OF move_handle]
  show ?case
  proof (cases "gm_get (cb_pending s) (rd_state r)")
    case None
    then show ?thesis using move_handle by (simp add: cb_handle_def)
  next
    case (Some c)
    then have same: "cb_next (snd (cb_handle r s)) = cb_next s" "cb_owner (snd (cb_handle r s)) = cb_owner s"
      by (simp_all add: cb_handle_def)
    show ?thesis
    proof (rule cb_invI)
      show "ch < cb_next (snd (cb_handle r s)) \<and>
          (case st of Some x \<Rightarrow> gm_get (cb_owner (snd (cb_handle r s))) ch = Some x | None \<Rightarrow> \<exists>e. x = CallbackError e)"
        if "(ch, st, x) \<in> set (cb_sent (snd (cb_handle r s)))" for ch st x
      proof (cases "(ch, st, x) \<in> set (cb_sent s)")
        case True
        then show ?thesis using i(2) [OF True] by (simp only: same)
      next
        case False
        with that Some have "ch = c" "st = Some (rd_state r)" by (simp_all add: cb_handle_def)
        then show ?thesis using i(1) [OF Some] by (simp add: same)
      qed
    qed (use Some in \<open>auto simp: cb_handle_def i(3) dest: i(1) split: if_splits\<close>)
  qed
next
  case (move_shutdown s)
  note i = cb_inv_pending [OF move_shutdown] cb_inv_sent [OF move_shutdown] cb_inv_wf [OF move_shutdown]
  show ?case
  proof (rule cb_invI)
    show "ch < cb_next (cb_shutdown s) \<and>
        (case st of Some x \<Rightarrow> gm_get (cb_owner (cb_shutdown s)) ch = Some x | None \<Rightarrow> \<exists>e. r = CallbackError e)"
      if "(ch, st, r) \<in> set (cb_sent (cb_shutdown s))" for ch st r
    proof (cases "(ch, st, r) \<in> set (cb_sent s)")
      case True
      then show ?thesis using i(2) [OF True] by (cases st) (simp_all add: cb_shutdown_def)
    next
      case False
      with that obtain x where "(x, ch) \<in> set (cb_pending s)" and r: "st = None" "r = CallbackError ''daemon shutting down''"
        by (auto simp: cb_shutdown_def)
      then have "gm_get (cb_pending s) x = Some ch" using i(3) by (simp add: gm_get_mem)
      from i(1) [OF this] r show ?thesis by (simp add: cb_shutdown_def)
    qed
  qed (simp_all add: cb_shutdown_def gm_wf_def)
qed simp

definition cb_step :: "callback_server \<Rightarrow> callback_server \<Rightarrow> bool" where
  "cb_step s t = (cb_inv s \<and> cb_move s t)"

lemma fresh_unsent: "cb_inv s \<Longrightarrow> cb_next s \<le> ch \<Longrightarrow> cb_sends s ch = 0"
  by (force simp: cb_sends_def filter_empty_conv dest: cb_inv_sent)

lemma one_state: "cb_inv s \<Longrightarrow> gm_get (cb_pending s) a = Some ch \<Longrightarrow> gm_get (cb_pending s) b = Some ch \<Longrightarrow> a = b"
  by (metis cb_inv_pending option.inject)

lemma shutdown_sends:
  assumes "cb_inv s"
  shows "cb_sends (cb_shutdown s) ch = cb_sends s ch + (if cb_waits s ch then 1 else 0)"
proof -
  have d: "distinct (map snd (cb_pending s))"
  proof -
    have "a = b" if "(a, ch) \<in> set (cb_pending s)" "(b, ch) \<in> set (cb_pending s)" for a b ch
      using that one_state [OF assms] cb_inv_wf [OF assms] by (auto simp: gm_get_mem)
    then have "inj_on snd (set (cb_pending s))" by (auto simp: inj_on_def)
    then show ?thesis using cb_inv_wf [OF assms] by (auto simp: distinct_map gm_wf_def)
  qed
  have "length (filter (\<lambda>x. x = ch) xs) = (if ch \<in> set xs then 1 else 0)" if "distinct xs" for xs
    using that by (induction xs) (auto simp: filter_empty_conv)
  from this [OF d] have "length (filter (\<lambda>x. snd x = ch) (cb_pending s)) = (if ch \<in> snd ` set (cb_pending s) then 1 else 0)"
    by (simp add: filter_map comp_def)
  moreover have "cb_waits s ch \<longleftrightarrow> ch \<in> snd ` set (cb_pending s)"
    using cb_inv_wf [OF assms] by (force simp: cb_waits_def gm_get_mem)
  ultimately show ?thesis
    by (simp add: cb_sends_def cb_shutdown_def filter_map comp_def case_prod_beta)
qed

interpretation signin: deferred cb_step cb_waits cb_sends
proof
  fix s t ch
  assume "cb_step s t"
  then have inv: "cb_inv s" and "cb_move s t" by (auto simp: cb_step_def)
  from this(2) show "(cb_sends t ch = cb_sends s ch \<and> (cb_waits t ch \<longrightarrow> cb_waits s ch \<or> cb_sends s ch = 0))
      \<or> (cb_waits s ch \<and> \<not> cb_waits t ch \<and> cb_sends t ch = Suc (cb_sends s ch))"
  proof cases
    case (move_register state)
    then show ?thesis using fresh_unsent [OF inv, of ch] by (auto simp: cb_sends_def cb_waits_def cb_register_def)
  next
    case (move_unregister state)
    then show ?thesis by (auto simp: cb_sends_def cb_waits_def cb_unregister_def)
  next
    case (move_handle r)
    show ?thesis
    proof (cases "gm_get (cb_pending s) (rd_state r)")
      case None
      then show ?thesis by (simp add: move_handle cb_handle_def)
    next
      case (Some c)
      have "gm_get (cb_pending t) st = (if st = rd_state r then None else gm_get (cb_pending s) st)" for st
        using Some by (simp add: move_handle cb_handle_def)
      then have "cb_waits t x \<longleftrightarrow> (\<exists>st. st \<noteq> rd_state r \<and> gm_get (cb_pending s) st = Some x)" for x
        by (auto simp: cb_waits_def)
      then have w: "cb_waits t x = (cb_waits s x \<and> x \<noteq> c)" for x
        unfolding cb_waits_def using one_state [OF inv Some] Some by (metis option.inject)
      have n: "cb_sends t x = cb_sends s x + (if x = c then 1 else 0)" for x
        using Some by (simp add: move_handle cb_handle_def cb_sends_def)
      have "cb_waits s c" using Some by (auto simp: cb_waits_def)
      then show ?thesis using w n by simp
    qed
  next
    case move_shutdown
    then show ?thesis using shutdown_sends [OF inv, of ch] by (auto simp: cb_waits_def cb_shutdown_def)
  qed simp
qed

lemma service_reaches:
  assumes "oauth_raw\<^sup>*\<^sup>* (newService proxy) s"
  shows "cb_step\<^sup>*\<^sup>* (os_server (newService proxy)) (os_server s) \<and> cb_inv (os_server s)"
  using assms
proof (induction rule: rtranclp_induct)
  case base
  show ?case by (simp add: newService_def cb_inv_def)
next
  case (step s t)
  then have "cb_step (os_server s) (os_server t)" by (simp add: cb_step_def raw_moves)
  then show ?case using step cb_inv_move raw_moves by (meson rtranclp.rtrancl_into_rtrancl)
qed

text \<open>
  C16. A sign-in is completed by its own redirect and at most once: in every interleaving of sign-ins, redirects, waits
  and shutdowns a sign-in's channel gets at most one result, a code on it came with the state it was
  registered for, and a redirect whose state is not registered is refused and changes nothing.
\<close>

theorem redirect_completes_once:
  assumes "oauth_raw\<^sup>*\<^sup>* (newService proxy) s"
  shows "cb_sends (os_server s) ch \<le> 1 \<and>
    ((ch, st, CodeArrived code) \<in> set (cb_sent (os_server s)) \<longrightarrow>
       (\<exists>state. st = Some state \<and> gm_get (cb_owner (os_server s)) ch = Some state)) \<and>
    (gm_get (cb_pending (os_server s)) (rd_state r) = None \<longrightarrow> cb_handle r (os_server s) = (400, os_server s))"
proof -
  have reach: "cb_step\<^sup>*\<^sup>* (os_server (newService proxy)) (os_server s)" and inv: "cb_inv (os_server s)"
    using service_reaches [OF assms] by blast+
  have "signin.settled (os_server (newService proxy))"
    by (simp add: signin.settled_def newService_def cb_sends_def)
  with reach have "signin.settled (os_server s)" by (rule signin.settled_reachable)
  then have "cb_sends (os_server s) ch \<le> 1" by (simp add: signin.settled_def)
  moreover have "\<exists>state. st = Some state \<and> gm_get (cb_owner (os_server s)) ch = Some state"
    if "(ch, st, CodeArrived code) \<in> set (cb_sent (os_server s))"
    using cb_inv_sent [OF inv that] by (cases st) auto
  ultimately show ?thesis by (auto simp: cb_handle_def)
qed

definition demo_signin :: oauth_service where
  "demo_signin =
     (let p = \<lparr>pq_kind = PendingLoopback, pq_state = ''S'', pq_chan = 0\<rparr>;
          s = authorize_install ''xai'' p (the (authorize_register ''xai'' ''auto'' ''S'' (newService [])))
      in s\<lparr>os_server := snd (cb_handle \<lparr>rd_state = ''S'', rd_error = [], rd_description = [], rd_code = ''c''\<rparr> (os_server s))\<rparr>)"

lemma demo_signin_reached: "oauth_raw\<^sup>*\<^sup>* (newService []) demo_signin"
proof -
  let ?p = "\<lparr>pq_kind = PendingLoopback, pq_state = ''S'', pq_chan = 0\<rparr>"
  let ?a = "the (authorize_register ''xai'' ''auto'' ''S'' (newService []))"
  have "authorize_register ''xai'' ''auto'' ''S'' (newService []) = Some ?a" "(''xai'', ?p) \<in> set (os_starting ?a)"
    by (simp_all add: authorize_register_def cb_register_def newService_def)
  then have "oauth_raw (newService []) ?a" "oauth_raw ?a (authorize_install ''xai'' ?p ?a)"
    by (blast intro: raw_register raw_install)+
  then show ?thesis
    using raw_redirect [of "authorize_install ''xai'' ?p ?a" "\<lparr>rd_state = ''S'', rd_error = [], rd_description = [], rd_code = ''c''\<rparr>"]
    unfolding demo_signin_def Let_def by (meson rtranclp.rtrancl_into_rtrancl rtranclp.rtrancl_refl)
qed

theorem redirect_completes_once_witness:
  "cb_sent (os_server demo_signin) = [(0, Some ''S'', CodeArrived ''c'')] \<and> cb_sends (os_server demo_signin) 0 \<le> 1 \<and>
   cb_handle \<lparr>rd_state = ''S'', rd_error = [], rd_description = [], rd_code = ''d''\<rparr> (os_server demo_signin) = (400, os_server demo_signin)"
proof -
  let ?r = "\<lparr>rd_state = ''S'', rd_error = [], rd_description = [], rd_code = ''d''\<rparr>"
  have "cb_sent (os_server demo_signin) = [(0, Some ''S'', CodeArrived ''c'')]" "gm_get (cb_pending (os_server demo_signin)) ''S'' = None"
    by (simp_all add: demo_signin_def authorize_register_def cb_register_def newService_def authorize_install_def
        cb_handle_def redirect_result_def)
  then show ?thesis
    using redirect_completes_once [OF demo_signin_reached, of 0 "Some ''S''" "''c''" ?r] by simp
qed

end
