(* ===== verification/Access.thy ===== *)
theory Access
  imports Credentials Auth
begin

text \<open>
  The access tokens of providers that were signed in to (\<^verbatim>\<open>internal/oauth/access.go\<close>, \<^verbatim>\<open>persistOAuth\<close> of
  \<^verbatim>\<open>service.go\<close>, the token requests of \<^verbatim>\<open>provider_xai.go\<close>): a token near its expiry is renewed before it is
  handed out, by one request per provider at a time. Requests are steps in any order, one per critical
  section or request to the provider; sign-ins and removals of credentials happen in between. The clock,
  what the provider answers and whether a write fails are inputs, and so is the JSON that the bytes of
  a token's claims spell.
\<close>

subsection \<open>Stored records\<close>

record oauth_token =
  ot_access :: string
  ot_refresh :: string
  ot_expires :: int
  ot_account :: string

record oauth_record =
  or_type :: string
  or_refresh :: string
  or_access :: string
  or_expires :: int
  or_account :: string

definition oauth_json :: "oauth_token \<Rightarrow> json" where
  "oauth_json t =
     JObj ([(''type'', JStr ''oauth''), (''refresh'', JStr (ot_refresh t)), (''access'', JStr (ot_access t)),
            (''expires'', JNum (of_int (ot_expires t)))] @
           (if ot_account t = [] then [] else [(''accountId'', JStr (ot_account t))]))"

definition persistOAuth :: "json secret_file \<Rightarrow> nat option \<Rightarrow> string \<Rightarrow> oauth_token \<Rightarrow> json disk \<Rightarrow> bool \<times> json disk" where
  "persistOAuth override failing provider t = cred_Set override failing provider (oauth_json t)"

definition raw_field :: "string \<Rightarrow> jmap \<Rightarrow> json list" where
  \<comment> \<open>the values a struct field is set from, in the order of the text\<close>
  "raw_field name kvs = map snd (filter (\<lambda>kv. fold_name (fst kv) = fold_name name) kvs)"

definition as_int64 :: "json \<Rightarrow> int option" where
  "as_int64 v =
     (case v of
        JNum q \<Rightarrow> if of_int \<lfloor>q\<rfloor> = q \<and> - (2 ^ 63) \<le> \<lfloor>q\<rfloor> \<and> \<lfloor>q\<rfloor> < 2 ^ 63 then Some \<lfloor>q\<rfloor> else None
      | _ \<Rightarrow> None)"

definition decode_oauth :: "json \<Rightarrow> oauth_record option" where
  "decode_oauth raw =
     (case raw of
        JObj kvs \<Rightarrow>
          (case (decode_field as_string [] (raw_field ''type'' kvs), decode_field as_string [] (raw_field ''refresh'' kvs),
                 decode_field as_string [] (raw_field ''access'' kvs), decode_field as_int64 0 (raw_field ''expires'' kvs),
                 decode_field as_string [] (raw_field ''accountId'' kvs)) of
             (Some t, Some r, Some a, Some e, Some i) \<Rightarrow>
               Some \<lparr>or_type = t, or_refresh = r, or_access = a, or_expires = e, or_account = i\<rparr>
           | _ \<Rightarrow> None)
      | JNull \<Rightarrow> Some \<lparr>or_type = [], or_refresh = [], or_access = [], or_expires = 0, or_account = []\<rparr>
      | _ \<Rightarrow> None)"

definition loadOAuthRecord :: "json secret_file \<Rightarrow> string \<Rightarrow> json disk \<Rightarrow> oauth_record option" where
  "loadOAuthRecord override provider d =
     (case gm_get (cred_load override d) provider of
        None \<Rightarrow> None
      | Some raw \<Rightarrow> (case decode_oauth raw of
                      Some r \<Rightarrow> if or_type r = ''oauth'' then Some r else None
                    | None \<Rightarrow> None))"

subsection \<open>Expiry\<close>

definition accessTokenRefreshSkew :: int where
  "accessTokenRefreshSkew = 120000"

text \<open>\<^verbatim>\<open>base64.RawURLEncoding\<close>, decoded with the alphabet of the standard encoding after the padding is put back.\<close>

definition rawurl_decode :: "string \<Rightarrow> string option" where
  "rawurl_decode s =
     (let t = filter (\<lambda>c. c \<noteq> CHR 0x0A \<and> c \<noteq> CHR 0x0D) s;
          u = map (\<lambda>c. if c = CHR ''-'' then CHR ''+'' else if c = CHR ''_'' then CHR ''/'' else c) t
      in if list_ex (\<lambda>c. c \<in> set ''+/='') t \<or> length t mod 4 = 1 then None
         else b64_quads (u @ replicate ((4 - length t mod 4) mod 4) (CHR ''='')))"

definition go_trunc :: "f64 \<Rightarrow> int" where
  "go_trunc q = (if q \<ge> 0 then \<lfloor>q\<rfloor> else \<lceil>q\<rceil>)"

fun last_number :: "f64 option \<Rightarrow> json list \<Rightarrow> f64 option option" where
  \<comment> \<open>a pointer field: \<^verbatim>\<open>null\<close> clears it\<close>
  "last_number a [] = Some a"
| "last_number a (JNull # vs) = last_number None vs"
| "last_number a (JNum q # vs) = last_number (Some q) vs"
| "last_number a (_ # vs) = None"

definition accessTokenIsExpiring :: "(string \<Rightarrow> json option) \<Rightarrow> int \<Rightarrow> string \<Rightarrow> bool" where
  "accessTokenIsExpiring parse now token =
     (case split_on (CHR ''.'') token of
        _ # part # _ \<Rightarrow>
          (case rawurl_decode (trim_right (\<lambda>c. c = CHR ''='') part) of
             None \<Rightarrow> False
           | Some payload \<Rightarrow>
               (case parse payload of
                  Some (JObj kvs) \<Rightarrow>
                    (case last_number None (raw_field ''exp'' kvs) of
                       Some (Some ex) \<Rightarrow> go_trunc (ex * 1000) \<le> now + accessTokenRefreshSkew
                     | _ \<Rightarrow> False)
                | _ \<Rightarrow> False))
      | _ \<Rightarrow> False)"

definition needsRefresh :: "(string \<Rightarrow> json option) \<Rightarrow> int \<Rightarrow> oauth_record \<Rightarrow> bool" where
  "needsRefresh parse now r =
     (or_expires r = 0 \<or> or_expires r \<le> now + accessTokenRefreshSkew \<or> accessTokenIsExpiring parse now (or_access r))"

subsection \<open>Token requests\<close>

text \<open>What the token endpoint of xAI answers is its status and the JSON of its body; none is a failed request.\<close>

definition xaiClientID :: string where
  "xaiClientID = ''b1a00492-073a-47ea-816f-4c329264a828''"

definition xai_postToken :: "int \<Rightarrow> (nat \<times> json option) option \<Rightarrow> oauth_token option" where
  "xai_postToken now answer =
     (case answer of
        Some (status, Some body) \<Rightarrow>
          if status \<noteq> 200 then None
          else (case body of
                  JObj kvs \<Rightarrow>
                    (case (decode_field as_string [] (raw_field ''access_token'' kvs),
                           decode_field as_string [] (raw_field ''refresh_token'' kvs),
                           decode_field as_int64 0 (raw_field ''expires_in'' kvs)) of
                       (Some a, Some r, Some n) \<Rightarrow>
                         if a = [] then None
                         else Some \<lparr>ot_access = a, ot_refresh = r,
                                ot_expires = (if n > 0 then now + wrap64 (n * 10 ^ 9) div 10 ^ 6 else 0), ot_account = []\<rparr>
                     | _ \<Rightarrow> None)
                | _ \<Rightarrow> None)
      | _ \<Rightarrow> None)"

definition xai_exchange_form :: "string \<Rightarrow> string \<Rightarrow> string \<Rightarrow> (string \<times> string) list" where
  "xai_exchange_form code verifier redirectURI =
     [(''grant_type'', ''authorization_code''), (''code'', code), (''redirect_uri'', redirectURI),
      (''client_id'', xaiClientID), (''code_verifier'', verifier)]"

definition xai_exchange ::
  "((string \<times> string) list \<Rightarrow> (nat \<times> json option) option) \<Rightarrow> int \<Rightarrow> string \<Rightarrow> string \<Rightarrow> string \<Rightarrow> oauth_token option"
where
  "xai_exchange post now code verifier redirectURI = xai_postToken now (post (xai_exchange_form code verifier redirectURI))"

definition xai_Refresh ::
  "((string \<times> string) list \<Rightarrow> (nat \<times> json option) option) \<Rightarrow> int \<Rightarrow> string \<Rightarrow> oauth_token option"
where
  "xai_Refresh post now refresh =
     (if refresh = [] then None
      else map_option (\<lambda>t. if ot_refresh t = [] then t\<lparr>ot_refresh := refresh\<rparr> else t)
             (xai_postToken now (post [(''grant_type'', ''refresh_token''), (''refresh_token'', refresh), (''client_id'', xaiClientID)])))"

subsection \<open>Handing out a token\<close>

datatype access_error = UnknownProvider | NoOAuthToken | NeedsReauth | PersistFailed

datatype access_result = AccessToken string | AccessFailed access_error

datatype flight_stage = Entered | Posted string string | Landed access_result

text \<open>
  One entry of \<^verbatim>\<open>singleFlight.calls\<close>: its key and how far its leader is; \<open>Posted\<close> has the refresh token
  that was sent and the account of its record. \<open>fl_done\<close> is the \<^verbatim>\<open>WaitGroup\<close> being released.
\<close>

record flight =
  fl_key :: string
  fl_stage :: flight_stage
  fl_done :: bool

text \<open>
  Besides the file and the flights the state keeps what happened: each refresh token that was sent, with
  whether its provider had replaced it before; the refresh tokens that were issued and those that were
  replaced; and the providers for which a write of a renewed token failed.
\<close>

record access_state =
  as_disk :: "json disk"
  as_calls :: "(string, nat) gomap"
  as_flights :: "(nat, flight) gomap"
  as_next :: nat
  as_posts :: "(string \<times> string \<times> bool) list"
  as_issued :: "(string \<times> string) list"
  as_replaced :: "(string \<times> string) list"
  as_failed :: "string list"

definition builtin_ids :: "string list" where
  "builtin_ids = [''xai'']"

datatype access_start = AccessNow access_result | AccessLead nat | AccessWait nat

definition Do_enter :: "string \<Rightarrow> access_state \<Rightarrow> access_start \<times> access_state" where
  "Do_enter key s =
     (case gm_get (as_calls s) key of
        Some i \<Rightarrow> (AccessWait i, s)
      | None \<Rightarrow> (AccessLead (as_next s),
          s\<lparr>as_calls := gm_put key (as_next s) (as_calls s),
            as_flights := gm_put (as_next s) \<lparr>fl_key = key, fl_stage = Entered, fl_done = False\<rparr> (as_flights s),
            as_next := Suc (as_next s)\<rparr>))"

definition Do_release :: "nat \<Rightarrow> flight \<Rightarrow> access_state \<Rightarrow> access_state" where
  "Do_release i f s =
     s\<lparr>as_calls := gm_del (fl_key f) (as_calls s), as_flights := gm_put i (f\<lparr>fl_done := True\<rparr>) (as_flights s)\<rparr>"

definition Access_begin :: "(string \<Rightarrow> json option) \<Rightarrow> int \<Rightarrow> json secret_file \<Rightarrow> string \<Rightarrow> access_state \<Rightarrow> access_start \<times> access_state" where
  "Access_begin parse now override provider s =
     (if provider \<notin> set builtin_ids then (AccessNow (AccessFailed UnknownProvider), s)
      else (case loadOAuthRecord override provider (as_disk s) of
              None \<Rightarrow> (AccessNow (AccessFailed NoOAuthToken), s)
            | Some r \<Rightarrow>
                if \<not> needsRefresh parse now r then (AccessNow (AccessToken (or_access r)), s)
                else if or_refresh r = [] then (AccessNow (AccessFailed NeedsReauth), s)
                else Do_enter provider s))"

text \<open>The leader reads the record again and sends its refresh token.\<close>

definition flight_read :: "(string \<Rightarrow> json option) \<Rightarrow> int \<Rightarrow> json secret_file \<Rightarrow> nat \<Rightarrow> flight \<Rightarrow> access_state \<Rightarrow> access_state" where
  "flight_read parse now override i f s =
     (let land = \<lambda>r. s\<lparr>as_flights := gm_put i (f\<lparr>fl_stage := Landed r\<rparr>) (as_flights s)\<rparr>
      in case loadOAuthRecord override (fl_key f) (as_disk s) of
           None \<Rightarrow> land (AccessFailed NoOAuthToken)
         | Some r \<Rightarrow>
             if \<not> needsRefresh parse now r then land (AccessToken (or_access r))
             else if or_refresh r = [] then land (AccessFailed NeedsReauth)
             else s\<lparr>as_flights := gm_put i (f\<lparr>fl_stage := Posted (or_refresh r) (or_account r)\<rparr>) (as_flights s),
                    as_posts := as_posts s @ [(fl_key f, or_refresh r, (fl_key f, or_refresh r) \<in> set (as_replaced s))]\<rparr>)"

text \<open>
  The answer to the refresh: none when the request fails, the provider refuses or the leader's context is
  cancelled, else the token that \<open>xai_Refresh\<close> makes of it, which has the old refresh token where
  none was given.
\<close>

definition flight_answer ::
  "json secret_file \<Rightarrow> nat option \<Rightarrow> nat \<Rightarrow> flight \<Rightarrow> string \<Rightarrow> string \<Rightarrow> oauth_token option \<Rightarrow> access_state \<Rightarrow> access_state"
where
  "flight_answer override failing i f refresh account answer s =
     (let land = \<lambda>r s. s\<lparr>as_flights := gm_put i (f\<lparr>fl_stage := Landed r\<rparr>) (as_flights s)\<rparr>
      in case answer of
           None \<Rightarrow> land (AccessFailed NeedsReauth) s
         | Some t0 \<Rightarrow>
             (let t1 = (if ot_refresh t0 = [] then t0\<lparr>ot_refresh := refresh\<rparr> else t0);
                  t = (if ot_account t1 = [] then t1\<lparr>ot_account := account\<rparr> else t1);
                  s1 = (if ot_refresh t = refresh then s
                        else s\<lparr>as_issued := (fl_key f, ot_refresh t) # as_issued s, as_replaced := (fl_key f, refresh) # as_replaced s\<rparr>)
              in case persistOAuth override failing (fl_key f) t (as_disk s1) of
                   (True, d) \<Rightarrow> land (AccessToken (ot_access t)) (s1\<lparr>as_disk := d\<rparr>)
                 | (False, d) \<Rightarrow> land (AccessFailed PersistFailed) (s1\<lparr>as_disk := d, as_failed := fl_key f # as_failed s1\<rparr>)))"

definition flight_result :: "nat \<Rightarrow> access_state \<Rightarrow> access_result option" where
  \<comment> \<open>what a waiter returns once the flight is released\<close>
  "flight_result i s =
     (case gm_get (as_flights s) i of
        Some f \<Rightarrow> (if fl_done f then (case fl_stage f of Landed r \<Rightarrow> Some r | _ \<Rightarrow> None) else None)
      | None \<Rightarrow> None)"

subsection \<open>Steps\<close>

text \<open>
  A sign-in and an answer bring a refresh token that the provider did not issue before, or the same one
  again, or none. Other records that are stored under a name are no \<^verbatim>\<open>oauth\<close> records.
\<close>

definition newly_issued :: "access_state \<Rightarrow> string \<Rightarrow> string \<Rightarrow> bool" where
  "newly_issued s provider refresh = ((provider, refresh) \<notin> set (as_issued s))"

inductive access_step :: "(string \<Rightarrow> json option) \<Rightarrow> access_state \<Rightarrow> access_state \<Rightarrow> bool" for parse where
  acc_begin: "access_step parse s (snd (Access_begin parse now NoFile p s))"
| acc_read: "gm_get (as_flights s) i = Some f \<Longrightarrow> fl_stage f = Entered \<Longrightarrow> access_step parse s (flight_read parse now NoFile i f s)"
| acc_answer: "gm_get (as_flights s) i = Some f \<Longrightarrow> fl_stage f = Posted refresh account \<Longrightarrow>
    (\<And>t. answer = Some t \<Longrightarrow> ot_refresh t = [] \<or> ot_refresh t = refresh \<or> newly_issued s (fl_key f) (ot_refresh t)) \<Longrightarrow>
    access_step parse s (flight_answer NoFile failing i f refresh account answer s)"
| acc_release: "gm_get (as_flights s) i = Some f \<Longrightarrow> fl_stage f = Landed r \<Longrightarrow> \<not> fl_done f \<Longrightarrow> access_step parse s (Do_release i f s)"
| acc_signin: "p \<in> set builtin_ids \<Longrightarrow> newly_issued s p (ot_refresh t) \<Longrightarrow>
    access_step parse s (s\<lparr>as_disk := snd (persistOAuth NoFile failing p t (as_disk s)), as_issued := (p, ot_refresh t) # as_issued s\<rparr>)"
| acc_store: "(\<And>rec. decode_oauth r = Some rec \<Longrightarrow> or_type rec \<noteq> ''oauth'') \<Longrightarrow>
    access_step parse s (s\<lparr>as_disk := snd (cred_Set NoFile failing p r (as_disk s))\<rparr>)"
| acc_remove: "access_step parse s (s\<lparr>as_disk := snd (cred_Remove NoFile failing p (as_disk s))\<rparr>)"

definition access_initial :: "json disk \<Rightarrow> access_state" where
  "access_initial d =
     \<lparr>as_disk = d, as_calls = [], as_flights = [], as_next = 0, as_posts = [],
      as_issued = List.map_filter (\<lambda>p. map_option (\<lambda>r. (p, or_refresh r)) (loadOAuthRecord NoFile p d)) builtin_ids,
      as_replaced = [], as_failed = []\<rparr>"

subsection \<open>What is stored is what was issued last\<close>

lemma builtin_normal: "p \<in> set builtin_ids \<Longrightarrow> normalize_id p = p"
  by (simp add: builtin_ids_def normalize_id_def trim_right_def)

lemma record_names:
  "fold_name ''type'' = ''type''" "fold_name ''refresh'' = ''refresh''" "fold_name ''access'' = ''access''"
  "fold_name ''expires'' = ''expires''" "fold_name ''accountId'' = ''accountid''"
  by code_simp+

lemma decode_oauth_json:
  "decode_oauth (oauth_json t) =
     (if - (2 ^ 63) \<le> ot_expires t \<and> ot_expires t < 2 ^ 63
      then Some \<lparr>or_type = ''oauth'', or_refresh = ot_refresh t, or_access = ot_access t, or_expires = ot_expires t, or_account = ot_account t\<rparr>
      else None)"
proof -
  obtain kvs where kvs: "oauth_json t = JObj kvs" "raw_field ''type'' kvs = [JStr ''oauth'']"
    "raw_field ''refresh'' kvs = [JStr (ot_refresh t)]" "raw_field ''access'' kvs = [JStr (ot_access t)]"
    "raw_field ''expires'' kvs = [JNum (of_int (ot_expires t))]"
    "raw_field ''accountId'' kvs = (if ot_account t = [] then [] else [JStr (ot_account t)])"
    by (simp add: oauth_json_def raw_field_def record_names del: fold_name.simps)
  have int: "decode_field as_int64 0 [JNum (of_int n)] = (if - (2 ^ 63) \<le> n \<and> n < 2 ^ 63 then Some n else None)" for n
    by (simp add: as_int64_def)
  have str: "decode_field as_string [] [JStr x] = Some x" for x by (simp add: as_string_def)
  show ?thesis
    by (cases "ot_account t = []") (simp_all add: decode_oauth_def kvs int str del: decode_field.simps(2))
qed

lemma stored_after_persist:
  assumes "persistOAuth NoFile failing k t d = (ok, d')" "k \<in> set builtin_ids" "loadOAuthRecord NoFile p d' = Some r"
  shows "(ok \<and> p = k \<and> or_refresh r = ot_refresh t) \<or> ((ok \<longrightarrow> p \<noteq> k) \<and> loadOAuthRecord NoFile p d = Some r)"
proof -
  have set: "cred_rewrite NoFile failing (gm_put k (oauth_json t)) d = (ok, d')"
    using assms(1,2) by (simp add: persistOAuth_def cred_Set_def builtin_normal)
  show ?thesis
  proof (cases ok)
    case True
    then have "gm_get (cred_load NoFile d') p = (if p = k then Some (oauth_json t) else gm_get (cred_load NoFile d) p)"
      using creds.put_get [of failing k "oauth_json t" d d' p] set by simp
    then show ?thesis
      using True assms(3) by (auto simp: loadOAuthRecord_def decode_oauth_json split: if_splits)
  next
    case False
    then show ?thesis using creds.kept [of failing _ d d'] set assms(3) by (simp add: loadOAuthRecord_def)
  qed
qed

lemma stored_after_set:
  assumes "\<And>rec. decode_oauth r = Some rec \<Longrightarrow> or_type rec \<noteq> ''oauth''"
    "loadOAuthRecord NoFile p (snd (cred_Set NoFile failing q r d)) = Some rec"
  shows "loadOAuthRecord NoFile p d = Some rec"
proof -
  obtain ok d' where set: "cred_rewrite NoFile failing (gm_put (normalize_id q) r) d = (ok, d')" by fastforce
  then show ?thesis
    using assms creds.put_get [of failing "normalize_id q" r d d' p] creds.kept [of failing _ d d']
    by (cases ok) (auto simp: cred_Set_def loadOAuthRecord_def split: if_splits option.splits)
qed

lemma stored_after_remove:
  assumes "loadOAuthRecord NoFile p (snd (cred_Remove NoFile failing q d)) = Some rec"
  shows "loadOAuthRecord NoFile p d = Some rec"
proof -
  obtain ok d' where set: "cred_rewrite NoFile failing (gm_del (normalize_id q)) d = (ok, d')" by fastforce
  then show ?thesis
    using assms creds.del_get [of failing "normalize_id q" d d' p] creds.kept [of failing _ d d']
    by (cases ok) (auto simp: cred_Remove_def loadOAuthRecord_def split: if_splits option.splits)
qed

definition live_token :: "access_state \<Rightarrow> string \<Rightarrow> string \<Rightarrow> bool" where
  "live_token s p tok = ((p, tok) \<in> set (as_issued s) \<and> ((p, tok) \<notin> set (as_replaced s) \<or> p \<in> set (as_failed s)))"

definition access_inv :: "access_state \<Rightarrow> bool" where
  "access_inv s \<longleftrightarrow>
     (\<forall>i f. gm_get (as_flights s) i = Some f \<longrightarrow>
        i < as_next s \<and> fl_key f \<in> set builtin_ids \<and>
        (fl_done f \<or> gm_get (as_calls s) (fl_key f) = Some i) \<and>
        (\<forall>tok acc. fl_stage f = Posted tok acc \<longrightarrow> live_token s (fl_key f) tok) \<and>
        (fl_done f \<longrightarrow> (\<exists>r. fl_stage f = Landed r))) \<and>
     (\<forall>p \<in> set builtin_ids. \<forall>r. loadOAuthRecord NoFile p (as_disk s) = Some r \<longrightarrow> live_token s p (or_refresh r)) \<and>
     set (as_replaced s) \<subseteq> set (as_issued s) \<and>
     (\<forall>p tok. (p, tok, True) \<in> set (as_posts s) \<longrightarrow> p \<in> set (as_failed s))"

lemma access_inv_flight:
  assumes "access_inv s" "gm_get (as_flights s) i = Some f"
  shows "i < as_next s" "fl_key f \<in> set builtin_ids" "fl_done f \<or> gm_get (as_calls s) (fl_key f) = Some i"
    "fl_stage f = Posted tok acc \<Longrightarrow> live_token s (fl_key f) tok" "fl_done f \<Longrightarrow> \<exists>r. fl_stage f = Landed r"
  using assms by (auto simp: access_inv_def)

lemma access_inv_rest:
  assumes "access_inv s"
  shows "p \<in> set builtin_ids \<Longrightarrow> loadOAuthRecord NoFile p (as_disk s) = Some r \<Longrightarrow> live_token s p (or_refresh r)"
    "set (as_replaced s) \<subseteq> set (as_issued s)" "(p, tok, True) \<in> set (as_posts s) \<Longrightarrow> p \<in> set (as_failed s)"
  using assms by (auto simp: access_inv_def)

lemma access_invI:
  assumes "\<And>i f. gm_get (as_flights s) i = Some f \<Longrightarrow>
        i < as_next s \<and> fl_key f \<in> set builtin_ids \<and> (fl_done f \<or> gm_get (as_calls s) (fl_key f) = Some i) \<and>
        (\<forall>tok acc. fl_stage f = Posted tok acc \<longrightarrow> live_token s (fl_key f) tok) \<and>
        (fl_done f \<longrightarrow> (\<exists>r. fl_stage f = Landed r))"
    "\<And>p r. p \<in> set builtin_ids \<Longrightarrow> loadOAuthRecord NoFile p (as_disk s) = Some r \<Longrightarrow> live_token s p (or_refresh r)"
    "set (as_replaced s) \<subseteq> set (as_issued s)" "\<And>p tok. (p, tok, True) \<in> set (as_posts s) \<Longrightarrow> p \<in> set (as_failed s)"
  shows "access_inv s"
  using assms by (simp add: access_inv_def)

lemma one_flight:
  assumes "access_inv s" "gm_get (as_flights s) i = Some f" "gm_get (as_flights s) j = Some g"
    "\<not> fl_done f" "\<not> fl_done g" "fl_key f = fl_key g"
  shows "i = j"
  using access_inv_flight(3) [OF assms(1,2)] access_inv_flight(3) [OF assms(1,3)] assms(4-6) by simp

lemma access_inv_flight_put:
  assumes "access_inv s" "gm_get (as_flights s) i = Some f" "\<not> fl_done f" "fl_key g = fl_key f" "\<not> fl_done g"
    "as_flights t = gm_put i g (as_flights s)" "as_calls t = as_calls s" "as_next t = as_next s"
    "\<And>p tok. p \<noteq> fl_key f \<Longrightarrow> live_token s p tok \<Longrightarrow> live_token t p tok"
    "\<And>tok acc. fl_stage g = Posted tok acc \<Longrightarrow> live_token t (fl_key f) tok"
    "\<And>p r. p \<in> set builtin_ids \<Longrightarrow> loadOAuthRecord NoFile p (as_disk t) = Some r \<Longrightarrow> live_token t p (or_refresh r)"
    "set (as_replaced t) \<subseteq> set (as_issued t)" "\<And>p tok. (p, tok, True) \<in> set (as_posts t) \<Longrightarrow> p \<in> set (as_failed t)"
  shows "access_inv t"
proof (rule access_invI)
  fix j h
  assume "gm_get (as_flights t) j = Some h"
  then consider "j = i" "h = g" | "j \<noteq> i" "gm_get (as_flights s) j = Some h" by (auto simp: assms(6) split: if_splits)
  then show "j < as_next t \<and> fl_key h \<in> set builtin_ids \<and> (fl_done h \<or> gm_get (as_calls t) (fl_key h) = Some j) \<and>
      (\<forall>tok acc. fl_stage h = Posted tok acc \<longrightarrow> live_token t (fl_key h) tok) \<and> (fl_done h \<longrightarrow> (\<exists>r. fl_stage h = Landed r))"
  proof cases
    case 1
    then show ?thesis using access_inv_flight(1-3) [OF assms(1,2)] assms(3-5,7,8,10) by simp
  next
    case 2
    note h = access_inv_flight [OF assms(1) 2(2)]
    have "live_token t (fl_key h) tok" if "fl_stage h = Posted tok acc" for tok acc
    proof (rule assms(9))
      have "\<not> fl_done h" using h(5) that by auto
      then show "fl_key h \<noteq> fl_key f" using one_flight [OF assms(1) 2(2) assms(2)] assms(3) 2(1) by blast
      show "live_token s (fl_key h) tok" using h(4) that by blast
    qed
    then show ?thesis using h(1,2,3,5) assms(7,8) by simp
  qed
qed (use assms(11-13) in blast)+

lemma access_inv_disk:
  assumes "access_inv s" "as_flights t = as_flights s" "as_calls t = as_calls s" "as_next t = as_next s"
    "as_replaced t = as_replaced s" "as_failed t = as_failed s" "as_posts t = as_posts s" "set (as_issued s) \<subseteq> set (as_issued t)"
    "\<And>p r. p \<in> set builtin_ids \<Longrightarrow> loadOAuthRecord NoFile p (as_disk t) = Some r \<Longrightarrow> live_token t p (or_refresh r)"
  shows "access_inv t"
proof (rule access_invI)
  have live: "live_token s p tok \<Longrightarrow> live_token t p tok" for p tok using assms(5,6,8) by (auto simp: live_token_def)
  show "i < as_next t \<and> fl_key f \<in> set builtin_ids \<and> (fl_done f \<or> gm_get (as_calls t) (fl_key f) = Some i) \<and>
      (\<forall>tok acc. fl_stage f = Posted tok acc \<longrightarrow> live_token t (fl_key f) tok) \<and> (fl_done f \<longrightarrow> (\<exists>r. fl_stage f = Landed r))"
    if "gm_get (as_flights t) i = Some f" for i f
    using access_inv_flight [OF assms(1), of i f] that live assms(2-4) by auto
qed (use assms access_inv_rest [OF assms(1)] in auto)

lemma access_inv_begin: "access_inv s \<Longrightarrow> access_inv (snd (Access_begin parse now NoFile p s))"
proof -
  assume inv: "access_inv s"
  have "access_inv (snd (Do_enter p s))" if p: "p \<in> set builtin_ids"
  proof (cases "gm_get (as_calls s) p")
    case None
    have keep: "live_token (snd (Do_enter p s)) = live_token s" "as_disk (snd (Do_enter p s)) = as_disk s"
      using None by (auto simp: Do_enter_def live_token_def fun_eq_iff)
    show ?thesis
    proof (rule access_invI)
      show "i < as_next (snd (Do_enter p s)) \<and> fl_key f \<in> set builtin_ids \<and>
          (fl_done f \<or> gm_get (as_calls (snd (Do_enter p s))) (fl_key f) = Some i) \<and>
          (\<forall>tok acc. fl_stage f = Posted tok acc \<longrightarrow> live_token (snd (Do_enter p s)) (fl_key f) tok) \<and>
          (fl_done f \<longrightarrow> (\<exists>r. fl_stage f = Landed r))"
        if "gm_get (as_flights (snd (Do_enter p s))) i = Some f" for i f
      proof (cases "i = as_next s")
        case True
        then show ?thesis using that None p by (auto simp: Do_enter_def)
      next
        case False
        then have g: "gm_get (as_flights s) i = Some f" using that None by (simp add: Do_enter_def)
        show ?thesis
          using access_inv_flight [OF inv g] None unfolding keep by (auto simp: Do_enter_def)
      qed
      show "live_token (snd (Do_enter p s)) q (or_refresh r)"
        if "q \<in> set builtin_ids" "loadOAuthRecord NoFile q (as_disk (snd (Do_enter p s))) = Some r" for q r
        using access_inv_rest(1) [OF inv] that by (simp add: keep)
    qed (use None access_inv_rest(2,3) [OF inv] in \<open>auto simp: Do_enter_def\<close>)
  qed (use inv in \<open>simp add: Do_enter_def\<close>)
  then show ?thesis using inv by (auto simp: Access_begin_def split: option.split)
qed

lemma access_inv_read:
  assumes inv: "access_inv s" and f: "gm_get (as_flights s) i = Some f" "fl_stage f = Entered"
  shows "access_inv (flight_read parse now NoFile i f s)"
proof -
  have nd: "\<not> fl_done f" using access_inv_flight(5) [OF inv f(1)] f(2) by auto
  have land: "access_inv (s\<lparr>as_flights := gm_put i (f\<lparr>fl_stage := Landed r\<rparr>) (as_flights s)\<rparr>)" for r
    by (rule access_inv_flight_put [OF inv f(1) nd, of "f\<lparr>fl_stage := Landed r\<rparr>"])
       (use nd access_inv_rest [OF inv] in \<open>auto simp: live_token_def\<close>)
  have post: "access_inv (s\<lparr>as_flights := gm_put i (f\<lparr>fl_stage := Posted (or_refresh r) (or_account r)\<rparr>) (as_flights s),
      as_posts := as_posts s @ [(fl_key f, or_refresh r, (fl_key f, or_refresh r) \<in> set (as_replaced s))]\<rparr>)"
    if r: "loadOAuthRecord NoFile (fl_key f) (as_disk s) = Some r" for r
  proof -
    have "live_token s (fl_key f) (or_refresh r)" using access_inv_rest(1) [OF inv access_inv_flight(2) [OF inv f(1)] r] .
    then show ?thesis
      by (intro access_inv_flight_put [OF inv f(1) nd, of "f\<lparr>fl_stage := Posted (or_refresh r) (or_account r)\<rparr>"])
         (use nd access_inv_rest [OF inv] in \<open>auto simp: live_token_def\<close>)
  qed
  show ?thesis using land post by (auto simp: flight_read_def Let_def split: option.split)
qed

lemma access_inv_answer:
  assumes inv: "access_inv s" and f: "gm_get (as_flights s) i = Some f" "fl_stage f = Posted refresh account"
    and new: "\<And>t. answer = Some t \<Longrightarrow> ot_refresh t = [] \<or> ot_refresh t = refresh \<or> newly_issued s (fl_key f) (ot_refresh t)"
  shows "access_inv (flight_answer NoFile failing i f refresh account answer s)"
proof (cases answer)
  case None
  have nd: "\<not> fl_done f" using access_inv_flight(5) [OF inv f(1)] f(2) by auto
  show ?thesis
    by (rule access_inv_flight_put [OF inv f(1) nd, of "f\<lparr>fl_stage := Landed (AccessFailed NeedsReauth)\<rparr>"])
       (use None nd access_inv_rest [OF inv] in \<open>auto simp: flight_answer_def Let_def live_token_def\<close>)
next
  case (Some t0)
  define t1 where "t1 = (if ot_refresh t0 = [] then t0\<lparr>ot_refresh := refresh\<rparr> else t0)"
  define t where "t = (if ot_account t1 = [] then t1\<lparr>ot_account := account\<rparr> else t1)"
  define s1 where "s1 = (if ot_refresh t = refresh then s
     else s\<lparr>as_issued := (fl_key f, ot_refresh t) # as_issued s, as_replaced := (fl_key f, refresh) # as_replaced s\<rparr>)"
  have key: "fl_key f \<in> set builtin_ids" using access_inv_flight(2) [OF inv f(1)] .
  have nd: "\<not> fl_done f" using access_inv_flight(5) [OF inv f(1)] f(2) by auto
  have live: "live_token s (fl_key f) refresh" using access_inv_flight(4) [OF inv f] .
  have fresh: "ot_refresh t = refresh \<or> newly_issued s (fl_key f) (ot_refresh t)"
    using new [OF Some] by (auto simp: t_def t1_def)
  have same: "as_flights s1 = as_flights s" "as_calls s1 = as_calls s" "as_next s1 = as_next s" "as_disk s1 = as_disk s"
    "as_failed s1 = as_failed s" "as_posts s1 = as_posts s"
    by (simp_all add: s1_def)
  have others: "p \<noteq> fl_key f \<Longrightarrow> live_token s p tok \<Longrightarrow> live_token s1 p tok" for p tok
    by (auto simp: s1_def live_token_def)
  have renewed: "live_token s1 (fl_key f) (ot_refresh t)"
    using fresh live access_inv_rest(2) [OF inv] by (auto simp: s1_def live_token_def newly_issued_def)
  have issued: "set (as_replaced s1) \<subseteq> set (as_issued s1)"
    using access_inv_rest(2) [OF inv] live by (auto simp: s1_def live_token_def)
  obtain ok d where persist: "persistOAuth NoFile failing (fl_key f) t (as_disk s1) = (ok, d)" by fastforce
  define u where "u = (if ok then s1\<lparr>as_disk := d\<rparr> else s1\<lparr>as_disk := d, as_failed := fl_key f # as_failed s1\<rparr>)"
  define g where "g = f\<lparr>fl_stage := Landed (if ok then AccessToken (ot_access t) else AccessFailed PersistFailed)\<rparr>"
  have eq: "flight_answer NoFile failing i f refresh account answer s = u\<lparr>as_flights := gm_put i g (as_flights s)\<rparr>"
    using persist unfolding same
    by (cases ok; cases "ot_refresh t = refresh")
       (simp_all add: flight_answer_def Some Let_def t1_def [symmetric] t_def [symmetric] s1_def u_def g_def)
  have live_u: "live_token s1 p tok \<Longrightarrow> live_token (u\<lparr>as_flights := x\<rparr>) p tok" for p tok x
    by (auto simp: u_def live_token_def)
  show ?thesis
    unfolding eq
  proof (rule access_inv_flight_put [OF inv f(1) nd, of g])
    show "live_token (u\<lparr>as_flights := gm_put i g (as_flights s)\<rparr>) p (or_refresh r)"
      if "p \<in> set builtin_ids" "loadOAuthRecord NoFile p (as_disk (u\<lparr>as_flights := gm_put i g (as_flights s)\<rparr>)) = Some r" for p r
    proof -
      have "loadOAuthRecord NoFile p d = Some r" using that(2) by (auto simp: u_def split: if_splits)
      from stored_after_persist [OF persist key this, of] consider
        "ok" "p = fl_key f" "or_refresh r = ot_refresh t" | "ok \<longrightarrow> p \<noteq> fl_key f" "loadOAuthRecord NoFile p (as_disk s) = Some r"
        unfolding same by blast
      then show ?thesis
      proof cases
        case 1
        then show ?thesis using live_u renewed by simp
      next
        case 2
        then have old: "live_token s p (or_refresh r)" using access_inv_rest(1) [OF inv that(1)] by blast
        show ?thesis
        proof (cases "p = fl_key f")
          case True
          then show ?thesis using 2(1) old by (auto simp: u_def live_token_def s1_def)
        next
          case False
          then show ?thesis using live_u others old by blast
        qed
      qed
    qed
  qed (use nd issued access_inv_rest(3) [OF inv] others live_u in \<open>auto simp: g_def u_def same split: if_splits\<close>)
qed

lemma access_inv_release:
  assumes inv: "access_inv s" and f: "gm_get (as_flights s) i = Some f" "fl_stage f = Landed r" "\<not> fl_done f"
  shows "access_inv (Do_release i f s)"
proof (rule access_invI)
  show "j < as_next (Do_release i f s) \<and> fl_key h \<in> set builtin_ids \<and>
      (fl_done h \<or> gm_get (as_calls (Do_release i f s)) (fl_key h) = Some j) \<and>
      (\<forall>tok acc. fl_stage h = Posted tok acc \<longrightarrow> live_token (Do_release i f s) (fl_key h) tok) \<and>
      (fl_done h \<longrightarrow> (\<exists>r. fl_stage h = Landed r))"
    if h: "gm_get (as_flights (Do_release i f s)) j = Some h" for j h
  proof (cases "j = i")
    case True
    then show ?thesis using h f access_inv_flight [OF inv f(1)] by (auto simp: Do_release_def)
  next
    case False
    then have g: "gm_get (as_flights s) j = Some h" using h by (simp add: Do_release_def)
    have "fl_key h \<noteq> fl_key f" if "\<not> fl_done h" using one_flight [OF inv g f(1) that f(3)] False by blast
    then show ?thesis using access_inv_flight [OF inv g] by (auto simp: Do_release_def live_token_def)
  qed
qed (use access_inv_rest [OF inv] in \<open>auto simp: Do_release_def live_token_def\<close>)

lemma access_inv_step: "access_step parse s t \<Longrightarrow> access_inv s \<Longrightarrow> access_inv t"
proof (induction rule: access_step.induct)
  case (acc_signin p s t failing)
  obtain ok d where d: "persistOAuth NoFile failing p t (as_disk s) = (ok, d)" by fastforce
  show ?case
  proof (rule access_inv_disk [OF acc_signin(3)])
    show "live_token (s\<lparr>as_disk := snd (persistOAuth NoFile failing p t (as_disk s)), as_issued := (p, ot_refresh t) # as_issued s\<rparr>) q (or_refresh r)"
      if "q \<in> set builtin_ids" "loadOAuthRecord NoFile q (as_disk (s\<lparr>as_disk := snd (persistOAuth NoFile failing p t (as_disk s)),
            as_issued := (p, ot_refresh t) # as_issued s\<rparr>)) = Some r" for q r
    proof -
      have "loadOAuthRecord NoFile q d = Some r" using that(2) d by simp
      from stored_after_persist [OF d acc_signin(1) this] show ?thesis
        using access_inv_rest(1) [OF acc_signin(3) that(1)] access_inv_rest(2) [OF acc_signin(3)] acc_signin(2)
        by (auto simp: live_token_def newly_issued_def)
    qed
  qed auto
next
  case (acc_store r s failing p)
  have "live_token s q (or_refresh rec)"
    if "q \<in> set builtin_ids" "loadOAuthRecord NoFile q (snd (cred_Set NoFile failing p r (as_disk s))) = Some rec" for q rec
    by (rule access_inv_rest(1) [OF acc_store(2) that(1) stored_after_set [OF acc_store(1) that(2)]])
  then show ?case by (intro access_inv_disk [OF acc_store(2)]) (simp_all add: live_token_def)
next
  case (acc_remove s failing p)
  have "live_token s q (or_refresh rec)"
    if "q \<in> set builtin_ids" "loadOAuthRecord NoFile q (snd (cred_Remove NoFile failing p (as_disk s))) = Some rec" for q rec
    by (rule access_inv_rest(1) [OF acc_remove that(1) stored_after_remove [OF that(2)]])
  then show ?case by (intro access_inv_disk [OF acc_remove]) (simp_all add: live_token_def)
qed (blast intro: access_inv_begin access_inv_read access_inv_answer access_inv_release)+

lemma access_inv_initial: "access_inv (access_initial d)"
proof (rule access_invI)
  show "live_token (access_initial d) p (or_refresh r)"
    if "p \<in> set builtin_ids" "loadOAuthRecord NoFile p (as_disk (access_initial d)) = Some r" for p r
    using that by (auto simp: access_initial_def live_token_def builtin_ids_def map_filter_simps)
qed (simp_all add: access_initial_def)

lemma access_inv_reached: "(access_step parse)\<^sup>*\<^sup>* (access_initial d) s \<Longrightarrow> access_inv s"
  by (induction rule: rtranclp_induct) (blast intro: access_inv_initial access_inv_step)+

subsection \<open>What callers get\<close>


definition demo_flight :: "flight_stage \<Rightarrow> flight" where
  "demo_flight st = \<lparr>fl_key = ''xai'', fl_stage = st, fl_done = False\<rparr>"

definition demo_start :: access_state where
  "demo_start = access_initial \<lparr>dk_store = Holding [(''xai'', oauth_json \<lparr>ot_access = ''a0'', ot_refresh = ''r0'', ot_expires = 0, ot_account = []\<rparr>)],
     dk_temp = NoFile, dk_private = True\<rparr>"

definition demo_posted :: access_state where
  "demo_posted = flight_read (\<lambda>_. None) 0 NoFile 0 (demo_flight Entered) (snd (Access_begin (\<lambda>_. None) 0 NoFile ''xai'' demo_start))"

definition demo_unwritten :: access_state where
  "demo_unwritten = flight_answer NoFile (Some 0) 0 (demo_flight (Posted ''r0'' [])) ''r0'' []
     (Some \<lparr>ot_access = ''a1'', ot_refresh = ''r1'', ot_expires = 999999, ot_account = []\<rparr>) demo_posted"

definition demo_again :: access_state where
  "demo_again = flight_read (\<lambda>_. None) 0 NoFile 1 (demo_flight Entered)
     (snd (Access_begin (\<lambda>_. None) 0 NoFile ''xai'' (Do_release 0 (demo_flight (Landed (AccessFailed PersistFailed))) demo_unwritten)))"

lemma demo_record:
  "loadOAuthRecord NoFile ''xai'' \<lparr>dk_store = Holding [(''xai'', oauth_json \<lparr>ot_access = ''a0'', ot_refresh = ''r0'', ot_expires = 0, ot_account = []\<rparr>)],
     dk_temp = x, dk_private = y\<rparr> =
   Some \<lparr>or_type = ''oauth'', or_refresh = ''r0'', or_access = ''a0'', or_expires = 0, or_account = []\<rparr>"
  by (simp add: loadOAuthRecord_def cred_load_def decoded_def decode_oauth_json)

lemma demo_flights:
  "gm_get (as_flights (snd (Access_begin (\<lambda>_. None) 0 NoFile ''xai'' demo_start))) 0 = Some (demo_flight Entered)"
  "gm_get (as_flights demo_posted) 0 = Some (demo_flight (Posted ''r0'' []))"
  "gm_get (as_flights demo_unwritten) 0 = Some (demo_flight (Landed (AccessFailed PersistFailed)))"
  "gm_get (as_flights (snd (Access_begin (\<lambda>_. None) 0 NoFile ''xai'' (Do_release 0 (demo_flight (Landed (AccessFailed PersistFailed))) demo_unwritten)))) 1 =
     Some (demo_flight Entered)"
  "as_issued demo_posted = [(''xai'', ''r0'')]"
  "as_posts demo_again = [(''xai'', ''r0'', False), (''xai'', ''r0'', True)]"
  by (simp_all add: demo_again_def demo_unwritten_def demo_posted_def demo_start_def access_initial_def builtin_ids_def map_filter_simps
      Access_begin_def Do_enter_def demo_flight_def flight_read_def flight_answer_def Do_release_def Let_def demo_record
      needsRefresh_def persistOAuth_def cred_Set_def cred_rewrite_def write_store_def)

lemma demo_again_reached: "(access_step (\<lambda>_. None))\<^sup>*\<^sup>* demo_start demo_again"
proof -
  let ?step = "access_step (\<lambda>_. None)"
  let ?a = "snd (Access_begin (\<lambda>_. None) 0 NoFile ''xai'' demo_start)"
  let ?r = "Do_release 0 (demo_flight (Landed (AccessFailed PersistFailed))) demo_unwritten"
  let ?b = "snd (Access_begin (\<lambda>_. None) 0 NoFile ''xai'' ?r)"
  have st: "fl_stage (demo_flight x) = x" "\<not> fl_done (demo_flight x)" "fl_key (demo_flight x) = ''xai''" for x
    by (simp_all add: demo_flight_def)
  have "?step demo_start ?a" by (rule acc_begin)
  moreover have "?step ?a demo_posted" unfolding demo_posted_def by (rule acc_read [OF demo_flights(1)]) (simp add: st)
  moreover have "?step demo_posted demo_unwritten" unfolding demo_unwritten_def
    by (rule acc_answer [OF demo_flights(2)]) (simp_all add: st newly_issued_def demo_flights(5))
  moreover have "?step demo_unwritten ?r" by (rule acc_release [OF demo_flights(3)]) (simp_all add: st)
  moreover have "?step ?r ?b" by (rule acc_begin)
  moreover have "?step ?b demo_again" unfolding demo_again_def by (rule acc_read [OF demo_flights(4)]) (simp add: st)
  ultimately show ?thesis by (meson rtranclp.rtrancl_into_rtrancl rtranclp.rtrancl_refl)
qed


text \<open>
  A sign-in is usable at once and until its token nears expiry: after its record is written, a request for an
  access token returns the new one without asking the provider; later it joins or leads a refresh; and
  when the refresh is answered and written, the next request returns what the answer gave.
\<close>

theorem signed_in_token_returned:
  assumes "persistOAuth NoFile failing p t (as_disk s) = (True, d)" "p \<in> set builtin_ids"
    "- (2 ^ 63) \<le> ot_expires t" "ot_expires t < 2 ^ 63"
    "s' = s\<lparr>as_disk := d\<rparr>"
    "r = \<lparr>or_type = ''oauth'', or_refresh = ot_refresh t, or_access = ot_access t, or_expires = ot_expires t, or_account = ot_account t\<rparr>"
  shows "fst (Access_begin parse now NoFile p s') =
    (if \<not> needsRefresh parse now r then AccessNow (AccessToken (ot_access t))
     else if ot_refresh t = [] then AccessNow (AccessFailed NeedsReauth)
     else case gm_get (as_calls s) p of Some i \<Rightarrow> AccessWait i | None \<Rightarrow> AccessLead (as_next s))"
proof -
  have "cred_rewrite NoFile failing (gm_put p (oauth_json t)) (as_disk s) = (True, d)"
    using assms(1,2) by (simp add: persistOAuth_def cred_Set_def builtin_normal)
  from creds.put_get [OF this, of p] have "loadOAuthRecord NoFile p d = Some r"
    using assms(3,4,6) by (simp add: loadOAuthRecord_def decode_oauth_json)
  then show ?thesis
    using assms(2,5,6) by (auto simp: Access_begin_def Do_enter_def split: option.split)
qed

theorem signed_in_token_returned_witness:
  "fst (Access_begin (\<lambda>_. None) 1000 NoFile ''xai''
     (demo_start\<lparr>as_disk := snd (persistOAuth NoFile None ''xai'' \<lparr>ot_access = ''n'', ot_refresh = ''r'', ot_expires = 999999, ot_account = []\<rparr>
        (as_disk demo_start))\<rparr>)) = AccessNow (AccessToken ''n'')"
proof -
  let ?t = "\<lparr>ot_access = ''n'', ot_refresh = ''r'', ot_expires = 999999, ot_account = []\<rparr>"
  let ?d = "snd (persistOAuth NoFile None ''xai'' ?t (as_disk demo_start))"
  have "persistOAuth NoFile None ''xai'' ?t (as_disk demo_start) = (True, ?d)"
    by (simp add: persistOAuth_def cred_Set_def cred_rewrite_def write_store_def)
  from signed_in_token_returned [OF this _ _ _ refl refl, of "\<lambda>_. None" 1000] show ?thesis
    by (simp add: builtin_ids_def needsRefresh_def accessTokenRefreshSkew_def accessTokenIsExpiring_def split: list.split)
qed

text \<open>
  Signing out while a refresh is under way signs back in: the credential is removed, the answer arrives, and the
  record is written again, so the next request finds a token where the removal had left none.
\<close>

theorem signed_out_comes_back:
  assumes "fl_key f \<in> set builtin_ids" "cred_Remove NoFile failing (fl_key f) (as_disk s) = (True, d)"
    "s2 = flight_answer NoFile None i f refresh account (Some t) (s\<lparr>as_disk := d\<rparr>)"
    "- (2 ^ 63) \<le> ot_expires t" "ot_expires t < 2 ^ 63"
  shows "loadOAuthRecord NoFile (fl_key f) d = None \<and>
    (\<exists>r. loadOAuthRecord NoFile (fl_key f) (as_disk s2) = Some r \<and> or_access r = ot_access t)"
proof
  let ?k = "fl_key f"
  have "cred_rewrite NoFile failing (gm_del ?k) (as_disk s) = (True, d)"
    using assms(1,2) by (simp add: cred_Remove_def builtin_normal)
  from creds.del_get [OF this, of ?k] show "loadOAuthRecord NoFile ?k d = None" by (simp add: loadOAuthRecord_def)
  define t1 where "t1 = (if ot_refresh t = [] then t\<lparr>ot_refresh := refresh\<rparr> else t)"
  define t2 where "t2 = (if ot_account t1 = [] then t1\<lparr>ot_account := account\<rparr> else t1)"
  define d2 where "d2 = snd (cred_Set NoFile None ?k (oauth_json t2) d)"
  have t2: "ot_expires t2 = ot_expires t" "ot_access t2 = ot_access t" by (simp_all add: t2_def t1_def)
  have "as_disk s2 = d2"
    by (simp add: assms(3) flight_answer_def Let_def t1_def [symmetric] t2_def [symmetric] persistOAuth_def d2_def
        cred_Set_def cred_rewrite_def write_store_def)
  moreover have "cred_rewrite NoFile None (gm_put ?k (oauth_json t2)) d = (True, d2)"
    using assms(1) by (simp add: d2_def cred_Set_def cred_rewrite_def write_store_def builtin_normal)
  note creds.put_get [OF this, of ?k]
  ultimately show "\<exists>r. loadOAuthRecord NoFile ?k (as_disk s2) = Some r \<and> or_access r = ot_access t"
    using assms(4,5) by (simp add: loadOAuthRecord_def decode_oauth_json t2)
qed

theorem signed_out_comes_back_witness:
  "(let d = snd (cred_Remove NoFile None ''xai'' (as_disk demo_posted));
        s2 = flight_answer NoFile None 0 (demo_flight (Posted ''r0'' [])) ''r0'' []
               (Some \<lparr>ot_access = ''a1'', ot_refresh = ''r1'', ot_expires = 5, ot_account = []\<rparr>) (demo_posted\<lparr>as_disk := d\<rparr>)
    in loadOAuthRecord NoFile ''xai'' d = None \<and> (\<exists>r. loadOAuthRecord NoFile ''xai'' (as_disk s2) = Some r \<and> or_access r = ''a1''))"
proof -
  have k: "fl_key (demo_flight x) = ''xai''" "''xai'' \<in> set builtin_ids" for x by (simp_all add: demo_flight_def builtin_ids_def)
  have "cred_Remove NoFile None ''xai'' (as_disk demo_posted) = (True, snd (cred_Remove NoFile None ''xai'' (as_disk demo_posted)))"
    by (simp add: cred_Remove_def cred_rewrite_def write_store_def)
  from signed_out_comes_back [where f = "demo_flight (Posted ''r0'' [])" and i = 0 and refresh = "''r0''" and account = "[]" and
      t = "\<lparr>ot_access = ''a1'', ot_refresh = ''r1'', ot_expires = 5, ot_account = []\<rparr>", unfolded k, OF k(2) this refl]
  show ?thesis by (simp add: Let_def)
qed

end
