(* ===== verification/McpManager.thy ===== *)
theory McpManager
  imports Access "HOL-Library.Multiset" "HOL-Library.Product_Lexorder"
begin

text \<open>
  The manager of MCP servers (\<^verbatim>\<open>internal/mcp/config.go\<close>, \<^verbatim>\<open>manager.go\<close>, \<^verbatim>\<open>service.go\<close>, the addresses and statuses of
  \<^verbatim>\<open>oauth.go\<close>): their configuration, the connections it opens and closes, and the names under which it
  offers their tools. Requests run as steps in any order, one per critical section or dial. What a server
  answers is an input; a connection is a number, and \<open>mm_open\<close> lists those that are open.
\<close>

subsection \<open>Configuration\<close>

record mcp_oauth =
  mo_client :: string
  mo_secret :: string
  mo_scope :: string
  mo_port :: int
  mo_redirect :: string

record oauth_field =
  of_disabled :: bool
  of_config :: "mcp_oauth option"

record mcp_server =
  sv_name :: string
  sv_type :: string
  sv_command :: "string list"
  sv_environment :: "(string, string) gomap"
  sv_url :: string
  sv_headers :: "(string, string) gomap"
  sv_enabled :: "bool option"
  sv_timeout :: int
  sv_oauth :: oauth_field

definition enabled :: "mcp_server \<Rightarrow> bool" where
  "enabled s = (sv_enabled s \<noteq> Some False)"

definition oauthDisabled :: "mcp_server \<Rightarrow> bool" where
  "oauthDisabled s = of_disabled (sv_oauth s)"

definition mcp_str :: "json option \<Rightarrow> string" where
  "mcp_str v = (case v of Some (JStr s) \<Rightarrow> s | _ \<Rightarrow> [])"

definition strSlice :: "json option \<Rightarrow> string list" where
  "strSlice v = (case v of Some (JArr xs) \<Rightarrow> List.map_filter as_string xs | _ \<Rightarrow> [])"

definition strMap :: "json option \<Rightarrow> (string, string) gomap" where
  "strMap v =
     (case v of
        Some (JObj m) \<Rightarrow> List.map_filter (\<lambda>(k, x). map_option (Pair k) (as_string x)) m
      | _ \<Rightarrow> [])"

definition positive_int :: "json option \<Rightarrow> int" where
  \<comment> \<open>a number above zero as \<^verbatim>\<open>int\<close>, else zero\<close>
  "positive_int v = (case v of Some (JNum q) \<Rightarrow> if q > 0 then go_trunc q else 0 | _ \<Rightarrow> 0)"

definition parseOAuth :: "json option \<Rightarrow> oauth_field" where
  "parseOAuth v =
     (case v of
        Some (JBool b) \<Rightarrow> \<lparr>of_disabled = \<not> b, of_config = None\<rparr>
      | Some (JObj m) \<Rightarrow>
          \<lparr>of_disabled = False,
           of_config = Some \<lparr>mo_client = mcp_str (gm_get m ''clientId''), mo_secret = mcp_str (gm_get m ''clientSecret''),
             mo_scope = mcp_str (gm_get m ''scope''), mo_port = positive_int (gm_get m ''callbackPort''),
             mo_redirect = mcp_str (gm_get m ''redirectUri'')\<rparr>\<rparr>
      | _ \<Rightarrow> \<lparr>of_disabled = False, of_config = None\<rparr>)"

definition parse_server :: "string \<Rightarrow> json \<Rightarrow> mcp_server option" where
  "parse_server name v =
     (case v of
        JObj m \<Rightarrow>
          (let get = \<lambda>k. gm_get m k; t = mcp_str (get ''type''); lcl = (t = ''local''); remote = (t = ''remote'')
           in if \<not> lcl \<and> \<not> remote then None
              else Some \<lparr>sv_name = name, sv_type = t,
                     sv_command = (if lcl then strSlice (get ''command'') else []),
                     sv_environment = (if lcl then strMap (get ''environment'') else []),
                     sv_url = (if remote then mcp_str (get ''url'') else []),
                     sv_headers = (if remote then strMap (get ''headers'') else []),
                     sv_enabled = (case get ''enabled'' of Some (JBool b) \<Rightarrow> Some b | _ \<Rightarrow> None),
                     sv_timeout = positive_int (get ''timeout''),
                     sv_oauth = (if remote then parseOAuth (get ''oauth'') else \<lparr>of_disabled = False, of_config = None\<rparr>)\<rparr>)
      | _ \<Rightarrow> None)"

definition ParseConfig :: "jmap \<Rightarrow> (string, mcp_server) gomap" where
  "ParseConfig cfg =
     (case gm_get cfg ''mcp'' of
        Some (JObj raw) \<Rightarrow> List.map_filter (\<lambda>(name, v). map_option (Pair name) (parse_server name v)) raw
      | _ \<Rightarrow> [])"

subsection \<open>OAuth of a server\<close>

definition redirectURI :: "mcp_server \<Rightarrow> string" where
  "redirectURI s =
     (let at_port = \<lambda>p. ''http://127.0.0.1:'' @ itoa_int p @ ''/mcp/oauth/callback''
      in case of_config (sv_oauth s) of
           Some c \<Rightarrow> if mo_redirect c \<noteq> [] then mo_redirect c else if mo_port c > 0 then at_port (mo_port c) else at_port 19876
         | None \<Rightarrow> at_port 19876)"

definition stored_client :: "string \<Rightarrow> auth_entry disk \<Rightarrow> auth_client option" where
  "stored_client name d =
     (case getAuthEntry name d of
        Some e \<Rightarrow> (case ae_client e of Some c \<Rightarrow> if ci_id c \<noteq> [] then Some c else None | None \<Rightarrow> None)
      | None \<Rightarrow> None)"

definition oauth_client :: "string \<Rightarrow> mcp_server \<Rightarrow> auth_entry disk \<Rightarrow> string \<times> string" where
  \<comment> \<open>the client id and secret of \<^verbatim>\<open>oauthConfig\<close>\<close>
  "oauth_client name s d =
     (let (i, sec) = (case of_config (sv_oauth s) of Some c \<Rightarrow> (mo_client c, mo_secret c) | None \<Rightarrow> ([], []))
      in if i \<noteq> [] then (i, sec) else (case stored_client name d of Some c \<Rightarrow> (ci_id c, ci_secret c) | None \<Rightarrow> (i, sec)))"

record mcp_status =
  ms_status :: string
  ms_error :: string

definition status_of_kind :: "string \<Rightarrow> mcp_status" where
  "status_of_kind k = \<lparr>ms_status = k, ms_error = []\<rparr>"

datatype registration = NoHandler | Unsupported | Refused | Registered string string

definition authStatusFromConnectError ::
  "nat option \<Rightarrow> bool \<Rightarrow> registration \<Rightarrow> string \<Rightarrow> mcp_server \<Rightarrow> auth_entry disk \<Rightarrow> mcp_status option \<times> auth_entry disk"
where
  \<comment> \<open>whether the error asks for authorization, and what registering a client would give\<close>
  "authStatusFromConnectError failing auth reg name s d =
     (if \<not> auth then (None, d)
      else if (case of_config (sv_oauth s) of Some c \<Rightarrow> mo_client c \<noteq> [] | None \<Rightarrow> False) \<or> stored_client name d \<noteq> None
      then (Some (status_of_kind ''needs_auth''), d)
      else case reg of
             Unsupported \<Rightarrow> (Some \<lparr>ms_status = ''needs_client_registration'',
               ms_error = ''Server does not support dynamic client registration. Please provide clientId in config.''\<rparr>, d)
           | Registered i sec \<Rightarrow> (Some (status_of_kind ''needs_auth''), snd (persistClientInfo failing name (sv_url s) i sec d))
           | _ \<Rightarrow> (Some (status_of_kind ''needs_auth''), d))"

definition dialErrorStatus ::
  "nat option \<Rightarrow> bool \<Rightarrow> registration \<Rightarrow> string \<Rightarrow> mcp_server \<Rightarrow> string \<Rightarrow> auth_entry disk \<Rightarrow> mcp_status \<times> auth_entry disk"
where
  "dialErrorStatus failing auth reg name s err d =
     (let failed = \<lparr>ms_status = ''failed'', ms_error = (if err \<noteq> [] then err else ''connection failed'')\<rparr>
      in if sv_type s = ''remote'' \<and> \<not> oauthDisabled s then
           (case authStatusFromConnectError failing auth reg name s d of
              (Some st, d') \<Rightarrow> (st, d')
            | (None, d') \<Rightarrow> (failed, d'))
         else (failed, d))"

lemma dial_error_not_connected:
  "ms_status (fst (dialErrorStatus failing auth reg name s err d)) \<noteq> ''connected''"
  by (simp add: dialErrorStatus_def authStatusFromConnectError_def status_of_kind_def Let_def split: registration.split)

text \<open>The transports a remote server is tried with, in their order, and the answer that ends the search.\<close>

datatype transport_try = BuildFails string | ProbeFails bool string | ProbeOk

fun try_transports :: "string option \<Rightarrow> nat \<Rightarrow> transport_try list \<Rightarrow> (bool \<times> string) + nat" where
  "try_transports e i [] = Inl (False, (case e of Some m \<Rightarrow> m | None \<Rightarrow> ''no remote transport succeeded''))"
| "try_transports e i (BuildFails m # ts) = try_transports (Some m) (Suc i) ts"
| "try_transports e i (ProbeFails auth m # ts) = (if auth then Inl (True, m) else try_transports (Some m) (Suc i) ts)"
| "try_transports e i (ProbeOk # ts) = Inr i"

definition remoteDial :: "mcp_server \<Rightarrow> transport_try \<Rightarrow> transport_try \<Rightarrow> (bool \<times> string) + nat" where
  "remoteDial s http sse =
     (if sv_url s = [] then Inl (False, ''remote MCP server has no url'') else try_transports None 0 [http, sse])"

subsection \<open>The manager\<close>

record mcp_tool =
  mt_name :: string
  mt_description :: string
  mt_schema :: json

record mcp_resource =
  mr_name :: string
  mr_uri :: string
  mr_description :: string
  mr_mime :: string

datatype dialed = DialOk nat "mcp_tool list" "mcp_resource list" | DialErr mcp_status

text \<open>
  \<^verbatim>\<open>sync.Once\<close> around the first connection: not begun, under way with the servers still to dial and the
  results so far, or over.
\<close>

datatype first_connect = OnceNew | OnceRunning "(string \<times> mcp_server) list" "(string \<times> dialed) list" | OnceDone

text \<open>
  A map that is \<open>None\<close> is nil. \<open>mm_dialing\<close> and \<open>mm_dialed\<close> are the later connections under way: before their
  dial, and with its result not yet published.
\<close>

record mcp_manager =
  mm_servers :: "(string, mcp_server) gomap"
  mm_once :: first_connect
  mm_closed :: bool
  mm_status :: "(string, mcp_status) gomap option"
  mm_clients :: "(string, nat) gomap option"
  mm_tools :: "(string, mcp_tool list) gomap option"
  mm_resources :: "(string, mcp_resource list) gomap option"
  mm_dynamic :: "(string, mcp_server) gomap"
  mm_dialing :: "(string \<times> mcp_server) list"
  mm_dialed :: "(string \<times> dialed) list"
  mm_open :: "nat list"
  mm_next :: nat
  mm_events :: "string list"

definition newManager :: "(string, mcp_server) gomap \<Rightarrow> mcp_manager" where
  "newManager servers =
     \<lparr>mm_servers = servers, mm_once = OnceNew, mm_closed = False, mm_status = None, mm_clients = None, mm_tools = None,
      mm_resources = None, mm_dynamic = [], mm_dialing = [], mm_dialed = [], mm_open = [], mm_next = 0, mm_events = []\<rparr>"

definition nil_get :: "('k, 'v) gomap option \<Rightarrow> 'k \<Rightarrow> 'v option" where
  "nil_get m k = (case m of None \<Rightarrow> None | Some m \<Rightarrow> gm_get m k)"

definition made :: "('k, 'v) gomap option \<Rightarrow> ('k, 'v) gomap" where
  "made m = (case m of None \<Rightarrow> [] | Some m \<Rightarrow> m)"

definition conn_close :: "nat \<Rightarrow> mcp_manager \<Rightarrow> mcp_manager" where
  "conn_close c s = s\<lparr>mm_open := remove1 c (mm_open s)\<rparr>"

text \<open>What a server's connection answers while it is dialed: \<open>Inl\<close> and \<open>Some\<close> are errors.\<close>

record conn_replies =
  cr_dial :: "string + bool"
  cr_start :: "string option"
  cr_init :: "string option"
  cr_tools :: "string + mcp_tool list"
  cr_resources :: "string + mcp_resource list option"

definition dialAndList :: "conn_replies \<Rightarrow> mcp_manager \<Rightarrow> (string + (nat \<times> mcp_tool list \<times> mcp_resource list)) \<times> mcp_manager" where
  "dialAndList r s =
     (case cr_dial r of
        Inl e \<Rightarrow> (Inl e, s)
      | Inr ready \<Rightarrow>
          (let c = mm_next s;
               s1 = s\<lparr>mm_next := Suc c, mm_open := c # mm_open s\<rparr>;
               list = (case cr_tools r of
                         Inl e \<Rightarrow> (Inl e, conn_close c s1)
                       | Inr tools \<Rightarrow> (Inr (c, tools, (case cr_resources r of Inr (Some rs) \<Rightarrow> rs | _ \<Rightarrow> [])), s1))
           in if ready then list
              else case cr_start r of
                     Some e \<Rightarrow> (Inl e, conn_close c s1)
                   | None \<Rightarrow> (case cr_init r of Some e \<Rightarrow> (Inl e, conn_close c s1) | None \<Rightarrow> list)))"

definition dial_result :: "(string \<Rightarrow> mcp_status) \<Rightarrow> conn_replies \<Rightarrow> mcp_manager \<Rightarrow> dialed \<times> mcp_manager" where
  \<comment> \<open>with what \<open>dialErrorStatus\<close> makes of an error\<close>
  "dial_result classify r s =
     (case dialAndList r s of
        (Inl e, s') \<Rightarrow> (DialErr (classify e), s')
      | (Inr (c, tools, res), s') \<Rightarrow> (DialOk c tools res, s'))"

definition closeLocked :: "string \<Rightarrow> mcp_manager \<Rightarrow> mcp_manager" where
  "closeLocked name s =
     (let s1 = (case nil_get (mm_clients s) name of
                  Some c \<Rightarrow> (conn_close c s)\<lparr>mm_clients := map_option (gm_del name) (mm_clients s)\<rparr>
                | None \<Rightarrow> s)
      in s1\<lparr>mm_tools := map_option (gm_del name) (mm_tools s1), mm_resources := map_option (gm_del name) (mm_resources s1)\<rparr>)"

definition ensureMaps :: "mcp_manager \<Rightarrow> mcp_manager" where
  "ensureMaps s =
     s\<lparr>mm_status := Some (made (mm_status s)), mm_clients := Some (made (mm_clients s)),
       mm_tools := Some (made (mm_tools s)), mm_resources := Some (made (mm_resources s))\<rparr>"

definition set_status :: "string \<Rightarrow> mcp_status \<Rightarrow> mcp_manager \<Rightarrow> mcp_manager" where
  "set_status name st s = s\<lparr>mm_status := map_option (gm_put name st) (mm_status s)\<rparr>"

subsection \<open>Connecting\<close>

text \<open>The first connection: the servers are dialed one by one and the results published together.\<close>

definition connect_begin :: "mcp_manager \<Rightarrow> mcp_manager" where
  "connect_begin s = s\<lparr>mm_once := (if mm_closed s then OnceDone else OnceRunning (mm_servers s) [])\<rparr>"

definition connect_dial :: "(string \<Rightarrow> mcp_status) \<Rightarrow> conn_replies \<Rightarrow> string \<Rightarrow> mcp_server \<Rightarrow> (string \<times> mcp_server) list \<Rightarrow> (string \<times> dialed) list \<Rightarrow> mcp_manager \<Rightarrow> mcp_manager" where
  "connect_dial classify r name sv left got s =
     (if \<not> enabled sv then s\<lparr>mm_once := OnceRunning left (got @ [(name, DialErr (status_of_kind ''disabled''))])\<rparr>
      else (case dial_result classify r s of (d, s') \<Rightarrow> s'\<lparr>mm_once := OnceRunning left (got @ [(name, d)])\<rparr>))"

definition dialed_conns :: "(string \<times> dialed) list \<Rightarrow> nat list" where
  "dialed_conns got = List.map_filter (\<lambda>(n, d). case d of DialOk c _ _ \<Rightarrow> Some c | DialErr _ \<Rightarrow> None) got"

definition connect_publish :: "(string \<times> dialed) list \<Rightarrow> mcp_manager \<Rightarrow> mcp_manager" where
  "connect_publish got s =
     (if mm_closed s then fold conn_close (dialed_conns got) (s\<lparr>mm_once := OnceDone\<rparr>)
      else s\<lparr>mm_once := OnceDone,
             mm_status := Some (map (\<lambda>(n, d). (n, (case d of DialOk _ _ _ \<Rightarrow> status_of_kind ''connected'' | DialErr st \<Rightarrow> st))) got),
             mm_clients := Some (List.map_filter (\<lambda>(n, d). case d of DialOk c _ _ \<Rightarrow> Some (n, c) | DialErr _ \<Rightarrow> None) got),
             mm_tools := Some (List.map_filter (\<lambda>(n, d). case d of DialOk _ t _ \<Rightarrow> Some (n, t) | DialErr _ \<Rightarrow> None) got),
             mm_resources := Some (List.map_filter (\<lambda>(n, d). case d of DialOk _ _ r \<Rightarrow> Some (n, r) | DialErr _ \<Rightarrow> None) got)\<rparr>)"

text \<open>A later connection of one server (\<^verbatim>\<open>Add\<close>, \<^verbatim>\<open>Connect\<close>, \<^verbatim>\<open>FinishAuth\<close>).\<close>

definition connectOne_begin :: "string \<Rightarrow> mcp_server \<Rightarrow> mcp_manager \<Rightarrow> mcp_manager" where
  "connectOne_begin name sv s =
     (if mm_closed s then s
      else if \<not> enabled sv then set_status name (status_of_kind ''disabled'') (ensureMaps (closeLocked name s))
      else s\<lparr>mm_dialing := (name, sv) # mm_dialing s\<rparr>)"

definition connectOne_dial :: "(string \<Rightarrow> mcp_status) \<Rightarrow> conn_replies \<Rightarrow> string \<Rightarrow> mcp_server \<Rightarrow> mcp_manager \<Rightarrow> mcp_manager" where
  "connectOne_dial classify r name sv s =
     (case dial_result classify r s of
        (d, s') \<Rightarrow> s'\<lparr>mm_dialing := remove1 (name, sv) (mm_dialing s), mm_dialed := (name, d) # mm_dialed s\<rparr>)"

definition connectOne_publish :: "string \<Rightarrow> dialed \<Rightarrow> mcp_manager \<Rightarrow> mcp_manager" where
  "connectOne_publish name d s0 =
     (let s = s0\<lparr>mm_dialed := remove1 (name, d) (mm_dialed s0)\<rparr>
      in case d of
           DialErr st \<Rightarrow> if mm_closed s then s else set_status name st (ensureMaps (closeLocked name s))
         | DialOk c tools res \<Rightarrow>
             if mm_closed s then conn_close c s
             else (let s1 = ensureMaps (closeLocked name s)
                   in set_status name (status_of_kind ''connected'')
                        (s1\<lparr>mm_clients := map_option (gm_put name c) (mm_clients s1), mm_tools := map_option (gm_put name tools) (mm_tools s1),
                            mm_resources := map_option (gm_put name res) (mm_resources s1)\<rparr>)))"

definition serverConfig :: "string \<Rightarrow> mcp_manager \<Rightarrow> mcp_server option" where
  "serverConfig name s = (case gm_get (mm_dynamic s) name of Some sv \<Rightarrow> Some sv | None \<Rightarrow> gm_get (mm_servers s) name)"

definition mgr_Add :: "string \<Rightarrow> mcp_server \<Rightarrow> mcp_manager \<Rightarrow> mcp_manager" where
  "mgr_Add name sv s =
     (let sv = sv\<lparr>sv_name := name\<rparr> in connectOne_begin name sv (s\<lparr>mm_dynamic := gm_put name sv (mm_dynamic s)\<rparr>))"

definition mgr_Connect :: "string \<Rightarrow> mcp_manager \<Rightarrow> mcp_manager option" where
  \<comment> \<open>\<open>None\<close> is \<^verbatim>\<open>ErrServerNotFound\<close>\<close>
  "mgr_Connect name s =
     (case serverConfig name s of
        None \<Rightarrow> None
      | Some sv \<Rightarrow> Some (connectOne_begin name (sv\<lparr>sv_enabled := Some True\<rparr>) s))"

datatype disconnect = NotFound | Panicked | Disconnected mcp_manager

definition mgr_Disconnect :: "string \<Rightarrow> mcp_manager \<Rightarrow> disconnect" where
  \<comment> \<open>writing to a nil map panics\<close>
  "mgr_Disconnect name s =
     (case serverConfig name s of
        None \<Rightarrow> NotFound
      | Some _ \<Rightarrow>
          (let s1 = closeLocked name s
           in if mm_status s1 = None then Panicked else Disconnected (set_status name (status_of_kind ''disabled'') s1)))"

definition refreshTools :: "string \<Rightarrow> nat \<Rightarrow> mcp_tool list \<Rightarrow> mcp_manager \<Rightarrow> mcp_manager" where
  "refreshTools name c tools s =
     (if mm_closed s \<or> nil_get (mm_clients s) name \<noteq> Some c then s
      else s\<lparr>mm_tools := map_option (gm_put name tools) (mm_tools s), mm_events := mm_events s @ [name]\<rparr>)"

definition mgr_Close :: "mcp_manager \<Rightarrow> mcp_manager" where
  "mgr_Close s = fold conn_close (map snd (made (mm_clients s))) (s\<lparr>mm_closed := True, mm_clients := None\<rparr>)"

definition statusOf :: "string \<Rightarrow> mcp_manager \<Rightarrow> mcp_status" where
  "statusOf name s = (case nil_get (mm_status s) name of Some st \<Rightarrow> st | None \<Rightarrow> status_of_kind ''disabled'')"

inductive mcp_step :: "mcp_manager \<Rightarrow> mcp_manager \<Rightarrow> bool" where
  mcp_first: "mm_once s = OnceNew \<Longrightarrow> mcp_step s (connect_begin s)"
| mcp_first_dial: "mm_once s = OnceRunning ((name, sv) # left) got \<Longrightarrow> (\<And>e. ms_status (classify e) \<noteq> ''connected'') \<Longrightarrow>
    mcp_step s (connect_dial classify r name sv left got s)"
| mcp_first_publish: "mm_once s = OnceRunning [] got \<Longrightarrow> mcp_step s (connect_publish got s)"
| mcp_add: "mm_once s = OnceDone \<Longrightarrow> mcp_step s (mgr_Add name sv s)"
| mcp_connect: "mm_once s = OnceDone \<Longrightarrow> mgr_Connect name s = Some s' \<Longrightarrow> mcp_step s s'"
| mcp_dial: "(name, sv) \<in> set (mm_dialing s) \<Longrightarrow> (\<And>e. ms_status (classify e) \<noteq> ''connected'') \<Longrightarrow>
    mcp_step s (connectOne_dial classify r name sv s)"
| mcp_publish: "(name, d) \<in> set (mm_dialed s) \<Longrightarrow> mcp_step s (connectOne_publish name d s)"
| mcp_disconnect: "mm_once s = OnceDone \<Longrightarrow> mgr_Disconnect name s = Disconnected s' \<Longrightarrow> mcp_step s s'"
| mcp_refresh: "mcp_step s (refreshTools name c tools s)"
| mcp_close: "mcp_step s (mgr_Close s)"

subsection \<open>Every open connection is accounted for\<close>

named_theorems mgr_fields \<open>the fields of the manager after each of its operations\<close>

lemma conn_close_fields [mgr_fields]:
  "mm_open (conn_close c s) = remove1 c (mm_open s)" "mm_once (conn_close c s) = mm_once s"
  "mm_closed (conn_close c s) = mm_closed s" "mm_clients (conn_close c s) = mm_clients s"
  "mm_status (conn_close c s) = mm_status s" "mm_tools (conn_close c s) = mm_tools s"
  "mm_dialed (conn_close c s) = mm_dialed s" "mm_next (conn_close c s) = mm_next s" "mm_servers (conn_close c s) = mm_servers s"
  "mm_dialing (conn_close c s) = mm_dialing s"
  by (simp_all add: conn_close_def)

lemma fold_close_fields [mgr_fields]:
  "mm_open (fold conn_close cs s) = fold remove1 cs (mm_open s) \<and> mm_once (fold conn_close cs s) = mm_once s \<and>
   mm_closed (fold conn_close cs s) = mm_closed s \<and> mm_clients (fold conn_close cs s) = mm_clients s \<and>
   mm_status (fold conn_close cs s) = mm_status s \<and> mm_tools (fold conn_close cs s) = mm_tools s \<and>
   mm_dialed (fold conn_close cs s) = mm_dialed s \<and> mm_next (fold conn_close cs s) = mm_next s \<and>
   mm_servers (fold conn_close cs s) = mm_servers s \<and> mm_dialing (fold conn_close cs s) = mm_dialing s"
  by (induction cs arbitrary: s) (simp_all add: conn_close_fields)

lemma delete_absent: "gm_get m k = None \<Longrightarrow> gm_del k m = m"
  by (induction m) (auto split: if_splits)

lemma closeLocked_fields [mgr_fields]:
  "mm_open (closeLocked name s) = (case nil_get (mm_clients s) name of Some c \<Rightarrow> remove1 c (mm_open s) | None \<Rightarrow> mm_open s)"
  "mm_clients (closeLocked name s) = map_option (gm_del name) (mm_clients s)"
  "mm_tools (closeLocked name s) = map_option (gm_del name) (mm_tools s)"
  "mm_once (closeLocked name s) = mm_once s" "mm_closed (closeLocked name s) = mm_closed s"
  "mm_status (closeLocked name s) = mm_status s" "mm_dialed (closeLocked name s) = mm_dialed s"
  "mm_next (closeLocked name s) = mm_next s" "mm_servers (closeLocked name s) = mm_servers s"
  "mm_dialing (closeLocked name s) = mm_dialing s"
  by (auto simp: closeLocked_def Let_def conn_close_def nil_get_def delete_absent split: option.splits)

lemma ensureMaps_fields [mgr_fields]:
  "mm_open (ensureMaps s) = mm_open s" "mm_clients (ensureMaps s) = Some (made (mm_clients s))"
  "mm_tools (ensureMaps s) = Some (made (mm_tools s))" "mm_once (ensureMaps s) = mm_once s"
  "mm_closed (ensureMaps s) = mm_closed s" "mm_status (ensureMaps s) = Some (made (mm_status s))"
  "mm_dialed (ensureMaps s) = mm_dialed s" "mm_next (ensureMaps s) = mm_next s" "mm_servers (ensureMaps s) = mm_servers s"
  "mm_dialing (ensureMaps s) = mm_dialing s"
  by (simp_all add: ensureMaps_def)

lemma set_status_fields [mgr_fields]:
  "mm_open (set_status n st s) = mm_open s" "mm_clients (set_status n st s) = mm_clients s"
  "mm_tools (set_status n st s) = mm_tools s" "mm_once (set_status n st s) = mm_once s"
  "mm_closed (set_status n st s) = mm_closed s" "mm_status (set_status n st s) = map_option (gm_put n st) (mm_status s)"
  "mm_dialed (set_status n st s) = mm_dialed s" "mm_next (set_status n st s) = mm_next s" "mm_servers (set_status n st s) = mm_servers s"
  "mm_dialing (set_status n st s) = mm_dialing s"
  by (simp_all add: set_status_def)

definition client_conns :: "mcp_manager \<Rightarrow> nat list" where
  "client_conns s = map snd (made (mm_clients s))"

definition once_results :: "mcp_manager \<Rightarrow> (string \<times> dialed) list" where
  "once_results s = (case mm_once s of OnceRunning _ got \<Rightarrow> got | _ \<Rightarrow> [])"

definition conns_inv :: "mcp_manager \<Rightarrow> bool" where
  "conns_inv s \<longleftrightarrow>
     mset (mm_open s) = mset (client_conns s) + mset (dialed_conns (mm_dialed s)) + mset (dialed_conns (once_results s)) \<and>
     gm_wf (made (mm_clients s)) \<and> (mm_closed s \<longrightarrow> mm_clients s = None) \<and> (mm_once s \<noteq> OnceDone \<longrightarrow> mm_clients s = None \<and> mm_dialed s = [] \<and> mm_dialing s = []) \<and>
     distinct (mm_open s) \<and> (\<forall>c \<in> set (mm_open s). c < mm_next s) \<and>
     (mm_once s = OnceNew \<longrightarrow> distinct (map fst (mm_servers s))) \<and>
     (\<forall>left got. mm_once s = OnceRunning left got \<longrightarrow> distinct (map fst got @ map fst left))"

lemma dialed_conns_simps [simp]:
  "dialed_conns [] = []" "dialed_conns ((n, DialErr st) # got) = dialed_conns got"
  "dialed_conns ((n, DialOk c t r) # got) = c # dialed_conns got" "dialed_conns (xs @ ys) = dialed_conns xs @ dialed_conns ys"
  by (simp_all add: dialed_conns_def map_filter_def)

lemma mset_dialed_remove1:
  "(n, d) \<in> set ds \<Longrightarrow> mset (dialed_conns (remove1 (n, d) ds)) =
     mset (dialed_conns ds) - (case d of DialOk c _ _ \<Rightarrow> {#c#} | DialErr _ \<Rightarrow> {#})"
proof (induction ds)
  case (Cons x ds)
  show ?case
  proof (cases "x = (n, d)")
    case True
    then show ?thesis by (cases d) auto
  next
    case False
    with Cons have mem: "(n, d) \<in> set ds" by auto
    have "case d of DialOk c _ _ \<Rightarrow> c \<in> set (dialed_conns ds) | DialErr _ \<Rightarrow> True"
      using mem by (cases d) (force simp: dialed_conns_def map_filter_def)+
    then show ?thesis
      using False Cons.IH [OF mem] by (cases x; cases "snd x"; cases d) (auto simp: add_mset_diff_bothsides)
  qed
qed simp

lemma mset_fold_remove1: "mset (fold remove1 cs xs) = mset xs - mset cs"
proof (induction cs arbitrary: xs)
  case (Cons c cs)
  have "mset xs - {#c#} - mset cs = mset xs - mset (c # cs)"
    by (metis add_mset_add_single diff_diff_add_mset mset.simps(2) add.commute)
  with Cons show ?case by simp
qed simp

lemma set_fold_remove1: "set (fold remove1 cs xs) \<subseteq> set xs \<and> (distinct xs \<longrightarrow> distinct (fold remove1 cs xs))"
proof (induction cs arbitrary: xs)
  case (Cons c cs)
  then show ?case using Cons [of "remove1 c xs"] set_remove1_subset [of c xs] by auto
qed simp

lemma mset_snd_delete:
  "gm_wf m \<Longrightarrow> mset (map snd (gm_del k m)) = mset (map snd m) - (case gm_get m k of Some v \<Rightarrow> {#v#} | None \<Rightarrow> {#})"
proof (induction m)
  case (Cons p m)
  then show ?case
  proof (cases "fst p = k")
    case True
    then have "gm_get m k = None" using Cons.prems by (simp add: gm_wf_def map_of_eq_None_iff)
    then show ?thesis using True by (cases p) (simp add: delete_absent)
  next
    case False
    have wf: "gm_wf m" using Cons.prems by (simp add: gm_wf_def)
    have "v \<in># mset (map snd m)" if "gm_get m k = Some v" for v
      using that by (metis map_of_SomeD set_mset_mset snd_conv image_eqI set_map)
    then show ?thesis using False Cons.IH [OF wf] by (cases p) (auto simp: split: option.split)
  qed
qed simp

lemma mset_snd_put_absent: "gm_get m k = None \<Longrightarrow> mset (map snd (gm_put k v m)) = add_mset v (mset (map snd m))"
  by (induction m) (auto split: if_splits)

lemma dial_result_fields:
  assumes "dial_result classify r s = (d, s')"
  shows "(case d of DialOk c _ _ \<Rightarrow> c = mm_next s \<and> mm_open s' = c # mm_open s \<and> mm_next s' = Suc (mm_next s)
           | DialErr st \<Rightarrow> mm_open s' = mm_open s \<and> mm_next s \<le> mm_next s' \<and> (\<exists>e. st = classify e))"
    "mm_once s' = mm_once s" "mm_closed s' = mm_closed s" "mm_clients s' = mm_clients s" "mm_status s' = mm_status s"
    "mm_tools s' = mm_tools s" "mm_dialed s' = mm_dialed s" "mm_servers s' = mm_servers s"
  using assms
  by (auto simp: dial_result_def dialAndList_def Let_def conn_close_def split: sum.splits option.splits if_splits)

lemma conns_invI:
  assumes "mset (mm_open s) = mset (client_conns s) + mset (dialed_conns (mm_dialed s)) + mset (dialed_conns (once_results s))"
    "gm_wf (made (mm_clients s))" "mm_closed s \<Longrightarrow> mm_clients s = None" "mm_once s \<noteq> OnceDone \<Longrightarrow> mm_clients s = None \<and> mm_dialed s = [] \<and> mm_dialing s = []"
    "distinct (mm_open s)" "\<And>c. c \<in> set (mm_open s) \<Longrightarrow> c < mm_next s" "mm_once s = OnceNew \<Longrightarrow> distinct (map fst (mm_servers s))"
    "\<And>left got. mm_once s = OnceRunning left got \<Longrightarrow> distinct (map fst got @ map fst left)"
  shows "conns_inv s"
  using assms by (simp add: conns_inv_def)

lemma conns_invD:
  assumes "conns_inv s"
  shows "mset (mm_open s) = mset (client_conns s) + mset (dialed_conns (mm_dialed s)) + mset (dialed_conns (once_results s))"
    "gm_wf (made (mm_clients s))" "mm_closed s \<Longrightarrow> mm_clients s = None" "mm_once s \<noteq> OnceDone \<Longrightarrow> mm_clients s = None \<and> mm_dialed s = [] \<and> mm_dialing s = []"
    "distinct (mm_open s)" "c \<in> set (mm_open s) \<Longrightarrow> c < mm_next s" "mm_once s = OnceNew \<Longrightarrow> distinct (map fst (mm_servers s))"
    "mm_once s = OnceRunning left got \<Longrightarrow> distinct (map fst got @ map fst left)"
  using assms by (auto simp: conns_inv_def)

lemma made_map_option: "made (map_option (gm_del k) m) = gm_del k (made m)"
  by (simp add: made_def split: option.split)

lemma nil_get_made: "nil_get m k = gm_get (made m) k"
  by (simp add: nil_get_def made_def split: option.split)

lemma conns_inv_close_one:
  assumes "conns_inv s"
  shows "conns_inv (closeLocked name s)"
proof (rule conns_invI)
  note i = conns_invD [OF assms]
  have cc: "mset (client_conns (closeLocked name s)) =
      mset (client_conns s) - (case nil_get (mm_clients s) name of Some c \<Rightarrow> {#c#} | None \<Rightarrow> {#})"
    using mset_snd_delete [OF i(2), of name] by (simp add: client_conns_def mgr_fields made_map_option nil_get_made)
  have mem: "c \<in># mset (client_conns s)" if "nil_get (mm_clients s) name = Some c" for c
    using that by (force simp: client_conns_def nil_get_made dest: map_of_SomeD)
  show "mset (mm_open (closeLocked name s)) = mset (client_conns (closeLocked name s)) +
      mset (dialed_conns (mm_dialed (closeLocked name s))) + mset (dialed_conns (once_results (closeLocked name s)))"
    using i(1) mem unfolding cc
    by (auto simp: mgr_fields once_results_def split: option.split simp del: mset_map)
  show "gm_wf (made (mm_clients (closeLocked name s)))" using i(2) by (simp add: mgr_fields made_map_option)
  show "distinct (mm_open (closeLocked name s))" using i(5) by (simp add: mgr_fields split: option.split)
  show "c < mm_next (closeLocked name s)" if "c \<in> set (mm_open (closeLocked name s))" for c
    using that i(6) set_remove1_subset by (fastforce simp: mgr_fields split: option.splits)
qed (use conns_invD [OF assms] in \<open>auto simp: mgr_fields\<close>)

lemma conns_inv_ensure: "conns_inv s \<Longrightarrow> \<not> mm_closed s \<Longrightarrow> mm_once s = OnceDone \<Longrightarrow> conns_inv (ensureMaps s)"
  by (simp add: conns_inv_def mgr_fields client_conns_def once_results_def made_def)

lemma conns_inv_same:
  assumes "conns_inv s" "mm_open t = mm_open s" "mm_clients t = mm_clients s" "mm_dialed t = mm_dialed s" "mm_once t = mm_once s"
    "mm_closed t = mm_closed s" "mm_next t = mm_next s" "mm_servers t = mm_servers s" "mm_dialing t = mm_dialing s"
  shows "conns_inv t"
  using assms by (simp add: conns_inv_def client_conns_def once_results_def)

lemma conns_inv_begin_one:
  assumes "conns_inv s" "mm_once s = OnceDone"
  shows "conns_inv (connectOne_begin name sv s)"
proof -
  have "conns_inv (set_status name st (ensureMaps (closeLocked name s)))" if "\<not> mm_closed s" for st
    by (rule conns_inv_same [OF conns_inv_ensure [OF conns_inv_close_one [OF assms(1)]]])
       (use that assms(2) in \<open>simp_all add: mgr_fields\<close>)
  moreover have "conns_inv (s\<lparr>mm_dialing := x\<rparr>)" for x
    using assms by (simp add: conns_inv_def client_conns_def once_results_def)
  ultimately show ?thesis using assms(1) by (simp add: connectOne_begin_def)
qed

lemma conns_inv_dial_one:
  assumes "conns_inv s" "(name, sv) \<in> set (mm_dialing s)"
  shows "conns_inv (connectOne_dial classify r name sv s)"
proof -
  obtain d s' where d: "dial_result classify r s = (d, s')" by fastforce
  note f = dial_result_fields [OF d] and i = conns_invD [OF assms(1)]
  have run: "mm_once s = OnceDone" using i(4) assms(2) by fastforce
  have "conns_inv (s'\<lparr>mm_dialing := x, mm_dialed := (name, d) # mm_dialed s\<rparr>)" for x
  proof (rule conns_invI)
    have "mm_next s \<notin> set (mm_open s)" using i(6) by blast
    then show "distinct (mm_open (s'\<lparr>mm_dialing := x, mm_dialed := (name, d) # mm_dialed s\<rparr>))"
      using f(1) i(5) by (cases d) auto
    show "c < mm_next (s'\<lparr>mm_dialing := x, mm_dialed := (name, d) # mm_dialed s\<rparr>)"
      if "c \<in> set (mm_open (s'\<lparr>mm_dialing := x, mm_dialed := (name, d) # mm_dialed s\<rparr>))" for c
      using that f(1) i(6) by (cases d) (auto intro: less_SucI order.strict_trans2)
    show "mset (mm_open (s'\<lparr>mm_dialing := x, mm_dialed := (name, d) # mm_dialed s\<rparr>)) =
        mset (client_conns (s'\<lparr>mm_dialing := x, mm_dialed := (name, d) # mm_dialed s\<rparr>)) +
        mset (dialed_conns (mm_dialed (s'\<lparr>mm_dialing := x, mm_dialed := (name, d) # mm_dialed s\<rparr>))) +
        mset (dialed_conns (once_results (s'\<lparr>mm_dialing := x, mm_dialed := (name, d) # mm_dialed s\<rparr>)))"
      using f i(1) by (cases d) (auto simp: client_conns_def once_results_def)
  qed (use f i run in \<open>auto simp: client_conns_def\<close>)
  then show ?thesis by (simp add: connectOne_dial_def d)
qed

lemma conns_inv_publish_one:
  assumes "conns_inv s" "(name, d) \<in> set (mm_dialed s)"
  shows "conns_inv (connectOne_publish name d s)"
proof -
  let ?s = "s\<lparr>mm_dialed := remove1 (name, d) (mm_dialed s)\<rparr>"
  note i = conns_invD [OF assms(1)]
  note rest = mset_dialed_remove1 [OF assms(2)]
  have run: "mm_once s = OnceDone" using i(4) assms(2) by fastforce
  have once: "once_results s = []" "once_results ?s = []" by (simp_all add: once_results_def run)
  show ?thesis
  proof (cases d)
    case (DialErr st)
    have inv: "conns_inv ?s"
      by (rule conns_invI) (use i rest DialErr run in \<open>auto simp: client_conns_def once_results_def\<close>)
    have "conns_inv (set_status name st (ensureMaps (closeLocked name ?s)))" if "\<not> mm_closed s"
      by (rule conns_inv_same [OF conns_inv_ensure [OF conns_inv_close_one [OF inv]]]) (use that run in \<open>simp_all add: mgr_fields\<close>)
    then show ?thesis using inv by (simp add: connectOne_publish_def DialErr Let_def)
  next
    case (DialOk c tools res)
    have c: "c \<in># mset (dialed_conns (mm_dialed s))"
      using assms(2) DialOk by (force simp: dialed_conns_def map_filter_def)
    have rest': "mset (dialed_conns (remove1 (name, d) (mm_dialed s))) = mset (dialed_conns (mm_dialed s)) - {#c#}"
      using rest unfolding DialOk by simp
    have c_open: "mset (mm_open s) = mset (client_conns s) + mset (dialed_conns (mm_dialed s))" using i(1) by (simp add: once)
    show ?thesis
    proof (cases "mm_closed s")
      case True
      show ?thesis
      proof (rule conns_invI)
        show "distinct (mm_open (connectOne_publish name d s))"
          using i(5) True by (simp add: connectOne_publish_def DialOk mgr_fields)
        show "x < mm_next (connectOne_publish name d s)" if "x \<in> set (mm_open (connectOne_publish name d s))" for x
          using that i(6) True set_remove1_subset by (fastforce simp: connectOne_publish_def DialOk mgr_fields)
        show "mset (mm_open (connectOne_publish name d s)) = mset (client_conns (connectOne_publish name d s)) +
            mset (dialed_conns (mm_dialed (connectOne_publish name d s))) + mset (dialed_conns (once_results (connectOne_publish name d s)))"
          using True c rest c_open by (simp add: connectOne_publish_def DialOk mgr_fields client_conns_def once_results_def run)
      qed (use i run True in \<open>auto simp: connectOne_publish_def DialOk mgr_fields\<close>)
    next
      case False
      note j = conns_invD [OF conns_inv_close_one [OF assms(1), of name]]
      have open_eq: "mm_open (closeLocked name ?s) = mm_open (closeLocked name s)" by (simp add: mgr_fields split: option.split)
      let ?m = "gm_del name (made (mm_clients s))"
      have put: "mset (map snd (gm_put name c ?m)) = add_mset c (mset (map snd ?m))"
        by (rule mset_snd_put_absent) simp
      have cl: "mset (mm_open (closeLocked name s)) = mset (map snd ?m) + mset (dialed_conns (mm_dialed s))"
        using j(1) by (simp add: client_conns_def mgr_fields made_map_option once_results_def run)
      show ?thesis
      proof (rule conns_invI)
        have "mm_open (connectOne_publish name d s) = mm_open (closeLocked name s)"
          using False open_eq by (simp add: connectOne_publish_def DialOk mgr_fields Let_def)
        note this [simp]
        have "mm_clients (connectOne_publish name d s) = Some (gm_put name c ?m)"
          using False by (simp add: connectOne_publish_def DialOk mgr_fields Let_def made_map_option)
        note this [simp]
        have "mm_dialed (connectOne_publish name d s) = remove1 (name, d) (mm_dialed s)"
          "once_results (connectOne_publish name d s) = []"
          using False by (simp_all add: connectOne_publish_def DialOk mgr_fields Let_def once_results_def run)
        then show "mset (mm_open (connectOne_publish name d s)) = mset (client_conns (connectOne_publish name d s)) +
            mset (dialed_conns (mm_dialed (connectOne_publish name d s))) + mset (dialed_conns (once_results (connectOne_publish name d s)))"
          using cl put rest' c by (simp add: client_conns_def made_def [of "Some _"] del: mset_map)
        show "gm_wf (made (mm_clients (connectOne_publish name d s)))" using i(2) by (simp add: made_def)
        show "distinct (mm_open (connectOne_publish name d s))" using j(5) by simp
        show "x < mm_next (connectOne_publish name d s)" if "x \<in> set (mm_open (connectOne_publish name d s))" for x
          using that j(6) [of x] False by (auto simp: connectOne_publish_def DialOk mgr_fields Let_def split: option.splits)
      qed (use False run in \<open>auto simp: connectOne_publish_def DialOk mgr_fields Let_def\<close>)
    qed
  qed
qed

lemma fst_map_filter:
  assumes "\<And>n d y. f (n, d) = Some y \<Longrightarrow> fst y = n"
  shows "map fst (List.map_filter f got) = map fst (filter (\<lambda>x. f x \<noteq> None) got)"
  using assms by (induction got) (auto simp: map_filter_def)

lemma published_clients:
  "map snd (List.map_filter (\<lambda>(n, d). case d of DialOk c _ _ \<Rightarrow> Some (n, c) | DialErr _ \<Rightarrow> None) got) = dialed_conns got"
  by (induction got) (auto simp: map_filter_def dialed_conns_def split: dialed.splits)

lemma published_wf:
  assumes "distinct (map fst got)" "\<And>n d y. f (n, d) = Some y \<Longrightarrow> fst y = n"
  shows "gm_wf (List.map_filter f got)"
proof -
  have "map fst (List.map_filter f got) = map fst (filter (\<lambda>x. f x \<noteq> None) got)" by (rule fst_map_filter) (rule assms(2))
  then show ?thesis using assms(1) by (simp add: gm_wf_def distinct_map_filter)
qed

lemma conns_inv_first:
  assumes "conns_inv s"
  shows "mm_once s = OnceNew \<Longrightarrow> conns_inv (connect_begin s)"
    "mm_once s = OnceRunning ((name, sv) # left) got \<Longrightarrow> conns_inv (connect_dial classify r name sv left got s)"
    "mm_once s = OnceRunning [] got \<Longrightarrow> conns_inv (connect_publish got s)"
proof -
  note i = conns_invD [OF assms]
  show "conns_inv (connect_begin s)" if "mm_once s = OnceNew"
    by (rule conns_invI) (use i that in \<open>auto simp: connect_begin_def client_conns_def once_results_def split: if_splits\<close>)
  show "conns_inv (connect_dial classify r name sv left got s)" if run: "mm_once s = OnceRunning ((name, sv) # left) got"
  proof (cases "enabled sv")
    case False
    then show ?thesis
      by (intro conns_invI) (use i run in \<open>auto simp: connect_dial_def client_conns_def once_results_def\<close>)
  next
    case True
    obtain d s' where d: "dial_result classify r s = (d, s')" by fastforce
    note f = dial_result_fields [OF d]
    have eq: "connect_dial classify r name sv left got s = s'\<lparr>mm_once := OnceRunning left (got @ [(name, d)])\<rparr>"
      using True by (simp add: connect_dial_def d)
    have dl: "mm_dialing s' = mm_dialing s"
      using d by (auto simp: dial_result_def dialAndList_def Let_def conn_close_def split: sum.splits option.splits if_splits)
    show ?thesis
      unfolding eq
    proof (rule conns_invI)
      have "mm_next s \<notin> set (mm_open s)" using i(6) by blast
      then show "distinct (mm_open (s'\<lparr>mm_once := OnceRunning left (got @ [(name, d)])\<rparr>))" using f(1) i(5) by (cases d) auto
      show "c < mm_next (s'\<lparr>mm_once := OnceRunning left (got @ [(name, d)])\<rparr>)"
        if "c \<in> set (mm_open (s'\<lparr>mm_once := OnceRunning left (got @ [(name, d)])\<rparr>))" for c
        using that f(1) i(6) by (cases d) (auto intro: less_SucI order.strict_trans2)
      show "mset (mm_open (s'\<lparr>mm_once := OnceRunning left (got @ [(name, d)])\<rparr>)) =
          mset (client_conns (s'\<lparr>mm_once := OnceRunning left (got @ [(name, d)])\<rparr>)) +
          mset (dialed_conns (mm_dialed (s'\<lparr>mm_once := OnceRunning left (got @ [(name, d)])\<rparr>))) +
          mset (dialed_conns (once_results (s'\<lparr>mm_once := OnceRunning left (got @ [(name, d)])\<rparr>)))"
        using f i(1) run by (cases d) (auto simp: client_conns_def once_results_def)
    qed (use f i run dl in auto)
  qed
  show "conns_inv (connect_publish got s)" if run: "mm_once s = OnceRunning [] got"
  proof -
    have empty: "mm_clients s = None" "mm_dialed s = []" "mm_dialing s = []" using i(4) run by auto
    have own: "mset (mm_open s) = mset (dialed_conns got)"
      using i(1) by (simp add: client_conns_def once_results_def run empty made_def)
    show ?thesis
    proof (cases "mm_closed s")
      case True
      have "mset (fold remove1 (dialed_conns got) (mm_open s)) = {#}" by (simp add: mset_fold_remove1 own)
      then have "mm_open (connect_publish got s) = []" using True by (simp add: connect_publish_def mgr_fields)
      then show ?thesis
        by (intro conns_invI) (use True empty in \<open>simp_all add: connect_publish_def mgr_fields client_conns_def once_results_def made_def\<close>)
    next
      case False
      have "distinct (map fst got)" using i(8) [OF run] by simp
      then have "gm_wf (List.map_filter (\<lambda>(n, d). case d of DialOk c _ _ \<Rightarrow> Some (n, c) | DialErr _ \<Rightarrow> None) got)"
        by (rule published_wf) (auto split: dialed.splits)
      then show ?thesis
        by (intro conns_invI) (use False empty own i(5,6) in
          \<open>auto simp: connect_publish_def client_conns_def once_results_def made_def published_clients simp del: mset_map\<close>)
    qed
  qed
qed

lemma conns_inv_close:
  assumes "conns_inv s"
  shows "conns_inv (mgr_Close s)"
proof (rule conns_invI)
  note i = conns_invD [OF assms]
  show "mset (mm_open (mgr_Close s)) = mset (client_conns (mgr_Close s)) + mset (dialed_conns (mm_dialed (mgr_Close s))) +
      mset (dialed_conns (once_results (mgr_Close s)))"
    using i(1) by (simp add: mgr_Close_def mgr_fields mset_fold_remove1 client_conns_def made_def once_results_def)
  show "distinct (mm_open (mgr_Close s))"
    using i(5) set_fold_remove1 [of _ "mm_open s"] by (simp add: mgr_Close_def mgr_fields)
  show "c < mm_next (mgr_Close s)" if "c \<in> set (mm_open (mgr_Close s))" for c
    using that i(6) [of c] set_fold_remove1 [of "map snd (made (mm_clients s))" "mm_open s"] by (auto simp: mgr_Close_def mgr_fields)
qed (use conns_invD [OF assms] in \<open>simp_all add: mgr_Close_def mgr_fields made_def\<close>)

lemma conns_inv_step: "mcp_step s t \<Longrightarrow> conns_inv s \<Longrightarrow> conns_inv t"
proof (induction rule: mcp_step.induct)
  case (mcp_add s name sv)
  have "conns_inv (s\<lparr>mm_dynamic := x\<rparr>)" for x by (rule conns_inv_same [OF mcp_add(2)]) simp_all
  then show ?case using mcp_add(1) by (simp add: mgr_Add_def Let_def conns_inv_begin_one)
next
  case (mcp_connect s name s')
  then show ?case by (auto simp: mgr_Connect_def conns_inv_begin_one split: option.splits)
next
  case (mcp_disconnect s name s')
  then have "s' = set_status name (status_of_kind ''disabled'') (closeLocked name s)"
    by (auto simp: mgr_Disconnect_def Let_def split: option.splits if_splits)
  then show ?case
    by (simp add: conns_inv_same [OF conns_inv_close_one [OF mcp_disconnect(3), of name]] mgr_fields)
next
  case (mcp_refresh s name c tools)
  then show ?case by (auto simp: refreshTools_def intro: conns_inv_same)
qed (auto intro: conns_inv_first conns_inv_dial_one conns_inv_publish_one conns_inv_close)

subsection \<open>A server is connected exactly while it has a client\<close>

definition agree :: "mcp_manager \<Rightarrow> string \<Rightarrow> bool" where
  "agree s n \<longleftrightarrow>
     ((\<exists>st. nil_get (mm_status s) n = Some st \<and> ms_status st = ''connected'') \<longleftrightarrow> nil_get (mm_clients s) n \<noteq> None) \<and>
     (nil_get (mm_tools s) n \<noteq> None \<longleftrightarrow> nil_get (mm_clients s) n \<noteq> None)"

definition errs_ok :: "(string \<times> dialed) list \<Rightarrow> bool" where
  "errs_ok ds \<longleftrightarrow> (\<forall>n st. (n, DialErr st) \<in> set ds \<longrightarrow> ms_status st \<noteq> ''connected'')"

definition status_inv :: "mcp_manager \<Rightarrow> bool" where
  "status_inv s \<longleftrightarrow> (\<not> mm_closed s \<longrightarrow> (\<forall>n. agree s n)) \<and> (mm_clients s \<noteq> None \<longrightarrow> mm_status s \<noteq> None \<and> mm_tools s \<noteq> None) \<and>
     errs_ok (mm_dialed s) \<and> errs_ok (once_results s)"

lemma disabled_kind [simp]: "ms_status (status_of_kind k) = k"
  by (simp add: status_of_kind_def)

lemma nil_get_simps [simp]:
  "nil_get (Some m) k = gm_get m k" "nil_get None k = None" "nil_get (map_option (gm_del j) n) k = (if k = j then None else nil_get n k)"
  by (simp_all add: nil_get_def split: option.split)

lemma gm_get_made [simp]: "gm_get (made m) k = nil_get m k"
  by (simp add: nil_get_made)

lemma agree_settled:
  assumes "\<not> mm_closed s \<Longrightarrow> agree s n" "\<not> mm_closed s" "ms_status st \<noteq> ''connected''"
  shows "agree (set_status name st (ensureMaps (closeLocked name s))) n"
  using assms by (auto simp: agree_def mgr_fields)

lemma status_inv_settle:
  assumes "status_inv s" "\<not> mm_closed s" "ms_status st \<noteq> ''connected''"
  shows "status_inv (set_status name st (ensureMaps (closeLocked name s)))"
proof -
  have "\<forall>n. agree (set_status name st (ensureMaps (closeLocked name s))) n"
    using assms agree_settled [of s _ st name] by (simp add: status_inv_def)
  then show ?thesis using assms by (simp add: status_inv_def mgr_fields once_results_def)
qed

lemma status_inv_same:
  assumes "status_inv s" "mm_clients t = mm_clients s" "mm_dialed t = mm_dialed s" "mm_once t = mm_once s" "mm_closed t = mm_closed s"
    "mm_status t = mm_status s" "mm_tools t = mm_tools s"
  shows "status_inv t"
  using assms by (simp add: status_inv_def agree_def once_results_def)

lemma errs_ok_simps [simp]:
  "errs_ok []" "errs_ok ((n, DialOk c t r) # ds) = errs_ok ds" "errs_ok ((n, DialErr st) # ds) = (ms_status st \<noteq> ''connected'' \<and> errs_ok ds)"
  "errs_ok (xs @ ys) = (errs_ok xs \<and> errs_ok ys)"
  by (auto simp: errs_ok_def)

lemma errs_ok_remove1: "errs_ok ds \<Longrightarrow> errs_ok (remove1 x ds)"
  using set_remove1_subset [of x ds] by (auto simp: errs_ok_def)

lemma status_inv_begin_one: "status_inv s \<Longrightarrow> status_inv (connectOne_begin name sv s)"
  by (auto simp: connectOne_begin_def intro: status_inv_settle status_inv_same)

lemma dial_result_err:
  assumes "dial_result classify r s = (d, s')" "\<And>e. ms_status (classify e) \<noteq> ''connected''" "errs_ok ds"
  shows "errs_ok ((n, d) # ds)"
  using dial_result_fields(1) [OF assms(1)] assms(2,3) by (cases d) auto

lemma status_inv_dial_one:
  assumes "status_inv s" "\<And>e. ms_status (classify e) \<noteq> ''connected''"
  shows "status_inv (connectOne_dial classify r name sv s)"
proof -
  obtain d s' where d: "dial_result classify r s = (d, s')" by fastforce
  show ?thesis
    using assms(1) dial_result_err [OF d assms(2), of "mm_dialed s" name] dial_result_fields(2-7) [OF d]
    by (simp add: connectOne_dial_def d status_inv_def agree_def once_results_def)
qed

lemma status_inv_publish_one:
  assumes "status_inv s" "(name, d) \<in> set (mm_dialed s)"
  shows "status_inv (connectOne_publish name d s)"
proof -
  let ?s = "s\<lparr>mm_dialed := remove1 (name, d) (mm_dialed s)\<rparr>"
  have inv: "status_inv ?s"
    using assms(1) errs_ok_remove1 by (auto simp: status_inv_def agree_def once_results_def)
  show ?thesis
  proof (cases d)
    case (DialErr st)
    then have "ms_status st \<noteq> ''connected''" using assms by (auto simp: status_inv_def errs_ok_def)
    then show ?thesis using inv status_inv_settle [OF inv] by (simp add: connectOne_publish_def DialErr Let_def)
  next
    case (DialOk c tools res)
    show ?thesis
    proof (cases "mm_closed s")
      case True
      then show ?thesis
        using status_inv_same [OF inv] by (simp add: connectOne_publish_def DialOk Let_def mgr_fields)
    next
      case False
      have "agree ?s n" for n using inv False by (simp add: status_inv_def)
      then have "agree (connectOne_publish name d s) n" for n
        using False by (auto simp: connectOne_publish_def DialOk Let_def agree_def mgr_fields)
      moreover have "mm_status (connectOne_publish name d s) \<noteq> None \<and> mm_tools (connectOne_publish name d s) \<noteq> None"
        "mm_dialed (connectOne_publish name d s) = mm_dialed ?s" "once_results (connectOne_publish name d s) = once_results ?s"
        using False by (simp_all add: connectOne_publish_def DialOk Let_def mgr_fields once_results_def)
      ultimately show ?thesis using inv by (simp add: status_inv_def)
    qed
  qed
qed

lemma get_published:
  assumes "distinct (map fst got)" "\<And>n d y. f (n, d) = Some y \<Longrightarrow> fst y = n"
  shows "gm_get (List.map_filter f got) n = (case gm_get got n of None \<Rightarrow> None | Some d \<Rightarrow> map_option snd (f (n, d)))"
  using assms(1)
proof (induction got)
  case (Cons p got)
  have "gm_get (List.map_filter f got) m = None" if "m \<notin> fst ` set got" for m
    using that assms(2) by (force simp: map_of_eq_None_iff map_filter_def)
  then show ?case
    using Cons assms(2) [of "fst p" "snd p"] by (cases p) (auto simp: map_filter_simps split: option.split)
qed (simp add: map_filter_simps)

lemma status_inv_publish:
  assumes "status_inv s" "mm_once s = OnceRunning [] got" "distinct (map fst got)"
  shows "status_inv (connect_publish got s)"
proof (cases "mm_closed s")
  case True
  then show ?thesis using assms(1) by (simp add: connect_publish_def status_inv_def mgr_fields once_results_def)
next
  case False
  have ok: "errs_ok got" using assms(1,2) by (simp add: status_inv_def once_results_def)
  have "agree (connect_publish got s) n" for n
  proof -
    have st: "gm_get (map (\<lambda>(n, d). (n, (case d of DialOk _ _ _ \<Rightarrow> status_of_kind ''connected'' | DialErr st \<Rightarrow> st))) got) n =
        map_option (\<lambda>d. case d of DialOk _ _ _ \<Rightarrow> status_of_kind ''connected'' | DialErr st \<Rightarrow> st) (gm_get got n)"
      by (induction got) auto
    have "ms_status st \<noteq> ''connected''" if "gm_get got n = Some (DialErr st)" for st
      using ok that by (auto simp: errs_ok_def dest: map_of_SomeD)
    moreover have "gm_get (List.map_filter (\<lambda>(n, d). case d of DialOk c _ _ \<Rightarrow> Some (n, c) | DialErr _ \<Rightarrow> None) got) n =
        (case gm_get got n of Some (DialOk c _ _) \<Rightarrow> Some c | _ \<Rightarrow> None)"
      by (subst get_published [OF assms(3)]) (auto split: dialed.splits option.splits)
    moreover have "gm_get (List.map_filter (\<lambda>(n, d). case d of DialOk _ t _ \<Rightarrow> Some (n, t) | DialErr _ \<Rightarrow> None) got) n =
        (case gm_get got n of Some (DialOk _ t _) \<Rightarrow> Some t | _ \<Rightarrow> None)"
      by (subst get_published [OF assms(3)]) (auto split: dialed.splits option.splits)
    ultimately show ?thesis
      unfolding agree_def using False by (auto simp: connect_publish_def st split: option.splits dialed.splits)
  qed
  then show ?thesis using assms(1) False by (simp add: connect_publish_def status_inv_def once_results_def)
qed

lemma status_inv_step: "mcp_step s t \<Longrightarrow> conns_inv s \<Longrightarrow> status_inv s \<Longrightarrow> status_inv t"
proof (induction rule: mcp_step.induct)
  case (mcp_first s)
  then show ?case by (simp add: connect_begin_def status_inv_def agree_def once_results_def)
next
  case (mcp_first_dial s name sv left got classify r)
  obtain d s' where d: "dial_result classify r s = (d, s')" by fastforce
  have ok: "errs_ok got" using mcp_first_dial by (simp add: status_inv_def once_results_def)
  show ?case
    using mcp_first_dial(4) ok dial_result_err [OF d mcp_first_dial(2), of "[]" name] dial_result_fields(2-7) [OF d]
    by (auto simp: connect_dial_def d status_inv_def agree_def once_results_def)
next
  case (mcp_first_publish s got)
  then show ?case using status_inv_publish conns_invD(8) [OF mcp_first_publish(2)] by fastforce
next
  case (mcp_add s name sv)
  have "status_inv (s\<lparr>mm_dynamic := x\<rparr>)" for x by (rule status_inv_same [OF mcp_add(3)]) simp_all
  then show ?case by (simp add: mgr_Add_def Let_def status_inv_begin_one)
next
  case (mcp_connect s name s')
  then show ?case by (auto simp: mgr_Connect_def status_inv_begin_one split: option.splits)
next
  case (mcp_disconnect s name s')
  then have s': "s' = set_status name (status_of_kind ''disabled'') (closeLocked name s)" "mm_status s \<noteq> None"
    by (auto simp: mgr_Disconnect_def Let_def mgr_fields split: option.splits if_splits)
  have "agree s n \<Longrightarrow> agree s' n" for n using s' by (auto simp: agree_def mgr_fields)
  then show ?case using mcp_disconnect(4) s' by (auto simp: status_inv_def mgr_fields once_results_def)
next
  case (mcp_refresh s name c tools)
  show ?case
  proof (cases "mm_closed s \<or> nil_get (mm_clients s) name \<noteq> Some c")
    case True
    then show ?thesis using mcp_refresh(2) by (simp add: refreshTools_def)
  next
    case False
    then have "mm_tools s \<noteq> None" using mcp_refresh(2) by (auto simp: status_inv_def nil_get_def)
    then show ?thesis
      using mcp_refresh(2) False by (auto simp: refreshTools_def status_inv_def agree_def once_results_def split: if_splits)
  qed
next
  case (mcp_close s)
  then show ?case by (simp add: mgr_Close_def status_inv_def mgr_fields once_results_def)
qed (auto intro: status_inv_dial_one status_inv_publish_one)

lemma mcp_reached:
  assumes "mcp_step\<^sup>*\<^sup>* (newManager servers) s" "gm_wf servers"
  shows "conns_inv s \<and> status_inv s"
  using assms(1)
proof (induction rule: rtranclp_induct)
  case base
  show ?case
    using assms(2) by (simp add: newManager_def conns_inv_def status_inv_def client_conns_def once_results_def made_def agree_def gm_wf_def)
next
  case (step s t)
  then show ?case using conns_inv_step status_inv_step by blast
qed

text \<open>
  C8. No connection to an MCP server is lost or shared: in every interleaving of connections, answers, disconnections and
  the closing of the manager the open connections are those of the clients and those whose result is not
  published yet, each once; so when the manager is closed and nothing is under way, none is open.
\<close>

theorem connections_accounted:
  assumes "mcp_step\<^sup>*\<^sup>* (newManager servers) s" "gm_wf servers"
  shows "mset (mm_open s) = mset (client_conns s) + mset (dialed_conns (mm_dialed s)) + mset (dialed_conns (once_results s)) \<and>
    distinct (mm_open s) \<and>
    (mm_closed s \<and> mm_dialed s = [] \<and> once_results s = [] \<longrightarrow> mm_open s = [])"
  using mcp_reached [OF assms] by (auto simp: conns_inv_def client_conns_def made_def)

text \<open>
  A server reports to be connected exactly while a connection is kept for it, and its tools are offered exactly then,
  until the manager is closed.
\<close>

theorem connected_iff_client:
  assumes "mcp_step\<^sup>*\<^sup>* (newManager servers) s" "gm_wf servers" "\<not> mm_closed s"
  shows "(ms_status (statusOf name s) = ''connected'' \<longleftrightarrow> name \<in> set (map fst (made (mm_clients s)))) \<and>
    (nil_get (mm_tools s) name \<noteq> None \<longleftrightarrow> name \<in> set (map fst (made (mm_clients s))))"
proof -
  have "agree s name" using mcp_reached [OF assms(1,2)] assms(3) by (simp add: status_inv_def)
  moreover have "name \<in> set (map fst (made (mm_clients s))) \<longleftrightarrow> nil_get (mm_clients s) name \<noteq> None"
    by (simp add: nil_get_made map_of_eq_None_iff del: gm_get_made)
  ultimately show ?thesis by (auto simp: agree_def statusOf_def split: option.split)
qed

definition demo_server :: mcp_server where
  "demo_server = \<lparr>sv_name = ''a'', sv_type = ''local'', sv_command = [''srv''], sv_environment = [], sv_url = [], sv_headers = [],
     sv_enabled = None, sv_timeout = 0, sv_oauth = \<lparr>of_disabled = False, of_config = None\<rparr>\<rparr>"

definition demo_replies :: conn_replies where
  "demo_replies = \<lparr>cr_dial = Inr False, cr_start = None, cr_init = None, cr_tools = Inr [\<lparr>mt_name = ''t'', mt_description = [], mt_schema = JObj []\<rparr>],
     cr_resources = Inl ''no''\<rparr>"

definition demo_manager :: mcp_manager where
  \<comment> \<open>connected at first, and a second connection to the same server under way\<close>
  "demo_manager =
     (let fail = (\<lambda>e. status_of_kind ''failed'');
          s1 = connect_dial fail demo_replies ''a'' demo_server [] [] (connect_begin (newManager [(''a'', demo_server)]));
          s2 = connect_publish [(''a'', DialOk 0 [\<lparr>mt_name = ''t'', mt_description = [], mt_schema = JObj []\<rparr>] [])] s1;
          s3 = connectOne_begin ''a'' (demo_server\<lparr>sv_enabled := Some True\<rparr>) s2
      in connectOne_dial fail demo_replies ''a'' (demo_server\<lparr>sv_enabled := Some True\<rparr>) s3)"

lemma demo_manager_reached: "mcp_step\<^sup>*\<^sup>* (newManager [(''a'', demo_server)]) demo_manager"
proof -
  let ?fail = "\<lambda>e. status_of_kind ''failed''"
  let ?s0 = "connect_begin (newManager [(''a'', demo_server)])"
  let ?s1 = "connect_dial ?fail demo_replies ''a'' demo_server [] [] ?s0"
  let ?got = "[(''a'', DialOk 0 [\<lparr>mt_name = ''t'', mt_description = [], mt_schema = JObj []\<rparr>] [])]"
  let ?s2 = "connect_publish ?got ?s1"
  let ?sv = "demo_server\<lparr>sv_enabled := Some True\<rparr>"
  let ?s3 = "connectOne_begin ''a'' ?sv ?s2"
  note defs = connect_begin_def newManager_def connect_dial_def connect_publish_def connectOne_begin_def demo_replies_def dial_result_def
    dialAndList_def enabled_def demo_server_def Let_def
  have "mcp_step (newManager [(''a'', demo_server)]) ?s0" by (rule mcp_first) (simp add: newManager_def)
  moreover have "mcp_step ?s0 ?s1" by (rule mcp_first_dial) (simp_all add: connect_begin_def newManager_def)
  moreover have "mcp_step ?s1 ?s2" by (rule mcp_first_publish) (simp add: defs)
  moreover have "mcp_step ?s2 ?s3"
    by (rule mcp_connect [where name = "''a''"]) (simp_all add: defs mgr_Connect_def serverConfig_def)
  moreover have "mcp_step ?s3 (connectOne_dial ?fail demo_replies ''a'' ?sv ?s3)"
    by (rule mcp_dial) (simp_all add: defs)
  ultimately show ?thesis
    unfolding demo_manager_def Let_def by (meson rtranclp.rtrancl_into_rtrancl rtranclp.rtrancl_refl)
qed

lemma demo_manager_fields:
  "mm_open demo_manager = [1, 0]" "mm_closed demo_manager = False" "made (mm_clients demo_manager) = [(''a'', 0)]"
  "map fst (mm_dialed demo_manager) = [''a'']"
  by (simp_all add: demo_manager_def connect_begin_def newManager_def connect_dial_def connect_publish_def connectOne_begin_def
      connectOne_dial_def demo_replies_def dial_result_def dialAndList_def enabled_def demo_server_def made_def map_filter_simps)

theorem connections_accounted_witness:
  "mm_open (mgr_Close (connectOne_publish ''a'' (snd (hd (mm_dialed demo_manager))) demo_manager)) = [] \<and> mm_open demo_manager = [1, 0]"
proof
  let ?d = "snd (hd (mm_dialed demo_manager))"
  let ?s = "mgr_Close (connectOne_publish ''a'' ?d demo_manager)"
  obtain d where d: "mm_dialed demo_manager = [(''a'', d)]" using demo_manager_fields(4) by auto
  then have "mcp_step demo_manager (connectOne_publish ''a'' ?d demo_manager)" by (intro mcp_publish) simp
  then have "mcp_step\<^sup>*\<^sup>* (newManager [(''a'', demo_server)]) ?s"
    using demo_manager_reached mcp_close by (meson rtranclp.rtrancl_into_rtrancl)
  moreover have "mm_dialed ?s = []" "mm_closed ?s" "mm_once demo_manager = OnceDone"
    using d by (cases d, simp_all add: mgr_Close_def connectOne_publish_def mgr_fields Let_def)
      (simp_all add: demo_manager_def connectOne_dial_def demo_replies_def dial_result_def dialAndList_def
        connect_begin_def newManager_def connect_dial_def connect_publish_def connectOne_begin_def enabled_def demo_server_def)
  moreover from this(3) have "once_results ?s = []"
    by (cases ?d) (simp_all add: once_results_def mgr_Close_def connectOne_publish_def mgr_fields Let_def)
  ultimately show "mm_open ?s = []" using connections_accounted by (simp add: gm_wf_def)
qed (rule demo_manager_fields)

theorem connected_iff_client_witness: "ms_status (statusOf ''a'' demo_manager) = ''connected''"
  using connected_iff_client [OF demo_manager_reached, of "''a''"] demo_manager_fields(2,3) by (simp add: gm_wf_def)

subsection \<open>The names of tools\<close>

definition sanitize :: "string \<Rightarrow> string" where
  \<comment> \<open>every character outside \<^verbatim>\<open>[a-zA-Z0-9_-]\<close> becomes an underscore\<close>
  "sanitize s =
     map (\<lambda>r. if r < 128 \<and> (let c = char_of r in c \<in> set ''abcdefghijklmnopqrstuvwxyzABCDEFGHIJKLMNOPQRSTUVWXYZ0123456789_-'')
              then char_of r else CHR ''_'') (runes_of s)"

record flat_tool =
  ft_name :: string
  ft_server :: string
  ft_tool :: mcp_tool

definition all_tools :: "(string, mcp_tool list) gomap \<Rightarrow> flat_tool list" where
  "all_tools m =
     concat (map (\<lambda>(server, ts). map (\<lambda>t. \<lparr>ft_name = sanitize server @ ''_'' @ sanitize (mt_name t), ft_server = server, ft_tool = t\<rparr>) ts) m)"

definition flat_key :: "flat_tool \<Rightarrow> string \<times> string" where
  "flat_key f = (ft_name f, ft_server f)"

text \<open>
  \<open>srt\<close> is what ranging over the map, in any order, and \<^verbatim>\<open>sort.Slice\<close>, which is not stable, make of the
  tools.
\<close>

definition slice_sort :: "(flat_tool list \<Rightarrow> flat_tool list) \<Rightarrow> bool" where
  "slice_sort srt \<longleftrightarrow> (\<forall>xs. mset (srt xs) = mset xs \<and> sorted (map flat_key (srt xs)))"

fun first_of_names :: "string list \<Rightarrow> flat_tool list \<Rightarrow> flat_tool list" where
  "first_of_names seen [] = []"
| "first_of_names seen (f # fs) =
     (if ft_name f \<in> set seen then first_of_names seen fs else f # first_of_names (ft_name f # seen) fs)"

definition flatTools :: "(flat_tool list \<Rightarrow> flat_tool list) \<Rightarrow> mcp_manager \<Rightarrow> flat_tool list" where
  "flatTools srt s = first_of_names [] (srt (all_tools (made (mm_tools s))))"

definition schemaToMap :: "json \<Rightarrow> jmap option" where
  \<comment> \<open>a schema that is \<^verbatim>\<open>null\<close> makes the map nil and the write to it panics\<close>
  "schemaToMap raw =
     (let finish = \<lambda>m. gm_put ''additionalProperties'' (JBool False)
                 (let m1 = gm_put ''type'' (JStr ''object'') m
                  in if gm_has m1 ''properties'' then m1 else gm_put ''properties'' (JObj []) m1)
      in case raw of JNull \<Rightarrow> None | JObj m \<Rightarrow> Some (finish m) | _ \<Rightarrow> Some (finish []))"

definition mgr_Tools :: "(flat_tool list \<Rightarrow> flat_tool list) \<Rightarrow> mcp_manager \<Rightarrow> (string \<times> string \<times> jmap option) list" where
  "mgr_Tools srt s = map (\<lambda>f. (ft_name f, mt_description (ft_tool f), schemaToMap (mt_schema (ft_tool f)))) (flatTools srt s)"

definition HasTool :: "(flat_tool list \<Rightarrow> flat_tool list) \<Rightarrow> string \<Rightarrow> mcp_manager \<Rightarrow> bool" where
  "HasTool srt name s = list_ex (\<lambda>f. ft_name f = name) (flatTools srt s)"

definition call_target :: "(flat_tool list \<Rightarrow> flat_tool list) \<Rightarrow> string \<Rightarrow> mcp_manager \<Rightarrow> (nat \<times> string) option" where
  \<comment> \<open>the connection and the server's own name of the tool\<close>
  "call_target srt name s =
     (case find (\<lambda>f. ft_name f = name) (flatTools srt s) of
        None \<Rightarrow> None
      | Some f \<Rightarrow> map_option (\<lambda>c. (c, mt_name (ft_tool f))) (nil_get (mm_clients s) (ft_server f)))"

fun resultText :: "string \<Rightarrow> string option list \<Rightarrow> string" where
  \<comment> \<open>the items of a result; \<open>None\<close> is one that is no text\<close>
  "resultText b [] = b"
| "resultText b (None # xs) = resultText b xs"
| "resultText b (Some t # xs) = resultText ((if b \<noteq> [] then b @ [CHR 0x0A] else b) @ t) xs"

datatype mcp_call_result = NoSuchTool | CallFailed string | CallText string

definition mgr_CallTool ::
  "(nat \<Rightarrow> string \<Rightarrow> string + (string option list \<times> bool)) \<Rightarrow> (flat_tool list \<Rightarrow> flat_tool list) \<Rightarrow> string \<Rightarrow> mcp_manager \<Rightarrow> mcp_call_result"
where
  "mgr_CallTool answer srt name s =
     (case call_target srt name s of
        None \<Rightarrow> NoSuchTool
      | Some (c, tool) \<Rightarrow>
          (case answer c tool of
             Inl e \<Rightarrow> CallFailed e
           | Inr (content, isError) \<Rightarrow>
               (let text = resultText [] content in CallText (if text = [] \<and> isError then ''tool returned an error'' else text))))"

fun add_resources :: "(string, string \<times> mcp_resource) gomap \<Rightarrow> string \<Rightarrow> mcp_resource list \<Rightarrow> (string, string \<times> mcp_resource) gomap" where
  "add_resources out server [] = out"
| "add_resources out server (r # rs) =
     add_resources (if mr_uri r = [] \<or> mr_name r = [] \<or> gm_has out (mr_uri r) then out else gm_put (mr_uri r) (server, r) out) server rs"

definition mgr_Resources :: "mcp_manager \<Rightarrow> (string, string \<times> mcp_resource) gomap" where
  "mgr_Resources s =
     (let m = made (mm_resources s)
      in fold (\<lambda>server out. add_resources out server (case gm_get m server of Some rs \<Rightarrow> rs | None \<Rightarrow> [])) (sort (gm_keys m)) [])"

lemma first_of_names_set:
  "set (first_of_names seen fs) \<subseteq> set fs \<and> distinct (map ft_name (first_of_names seen fs)) \<and>
   set (map ft_name (first_of_names seen fs)) = set (map ft_name fs) - set seen"
  by (induction fs arbitrary: seen) (auto simp: image_iff)

lemma find_unique_name:
  "distinct (map ft_name fs) \<Longrightarrow> f \<in> set fs \<Longrightarrow> ft_name f = name \<Longrightarrow> find (\<lambda>g. ft_name g = name) fs = Some f"
  by (induction fs) (auto simp: image_iff)

lemma distinct_keys:
  assumes "gm_wf m" "\<And>server ts. (server, ts) \<in> set m \<Longrightarrow> distinct (map (\<lambda>t. sanitize (mt_name t)) ts)"
  shows "distinct (map flat_key (all_tools m))"
  using assms
proof (induction m)
  case (Cons p m)
  obtain server ts where p: "p = (server, ts)" by (cases p)
  have tl: "distinct (map flat_key (all_tools m))"
    by (rule Cons.IH) (use Cons.prems in \<open>auto simp: gm_wf_def\<close>)
  have hd: "distinct (map (\<lambda>t. (sanitize server @ ''_'' @ sanitize (mt_name t), server)) ts)"
    using Cons.prems(2) [of server ts] by (auto simp: p distinct_map inj_on_def)
  have "server \<notin> fst ` set m" using Cons.prems(1) by (simp add: gm_wf_def p)
  then have no: "snd x \<noteq> server" if "x \<in> set (map flat_key (all_tools m))" for x
    using that by (force simp: all_tools_def flat_key_def)
  have "set (map (\<lambda>t. (sanitize server @ ''_'' @ sanitize (mt_name t), server)) ts) \<inter> set (map flat_key (all_tools m)) = {}"
  proof (rule ccontr)
    assume "\<not> ?thesis"
    then obtain x where x: "x \<in> set (map (\<lambda>t. (sanitize server @ ''_'' @ sanitize (mt_name t), server)) ts)"
      "x \<in> set (map flat_key (all_tools m))" by blast
    from x(1) have "snd x = server" by auto
    then show False using no [OF x(2)] by simp
  qed
  moreover have "map flat_key (all_tools (p # m)) =
      map (\<lambda>t. (sanitize server @ ''_'' @ sanitize (mt_name t), server)) ts @ map flat_key (all_tools m)"
    by (simp add: all_tools_def p flat_key_def comp_def)
  ultimately show ?case using tl hd by (simp only: distinct_append)
qed (simp add: all_tools_def)

lemma sorts_agree:
  assumes "slice_sort srt" "slice_sort srt'" "distinct (map flat_key xs)"
  shows "srt xs = srt' xs"
proof -
  have m: "mset (srt xs) = mset xs" "mset (srt' xs) = mset xs" using assms(1,2) by (auto simp: slice_sort_def)
  have "distinct (map flat_key (srt xs))" "distinct (map flat_key (srt' xs))"
    using assms(3) m by (metis mset_eq_imp_distinct_iff mset_map)+
  moreover have "set (srt xs) = set (srt' xs)" using m by (metis set_mset_mset)
  moreover have "inj_on flat_key (set (srt xs) \<union> set (srt' xs))"
    using calculation by (simp add: distinct_map)
  ultimately show ?thesis
    using assms(1,2) by (intro map_sorted_distinct_set_unique [of flat_key]) (auto simp: slice_sort_def)
qed

lemma tools_wf_step: "mcp_step s t \<Longrightarrow> conns_inv s \<Longrightarrow> gm_wf (made (mm_tools s)) \<Longrightarrow> gm_wf (made (mm_tools t))"
proof (induction rule: mcp_step.induct)
  case (mcp_first_dial s name sv left got classify r)
  obtain d s' where d: "dial_result classify r s = (d, s')" by fastforce
  then show ?case using mcp_first_dial dial_result_fields(6) [OF d] by (simp add: connect_dial_def)
next
  case (mcp_first_publish s got)
  have "distinct (map fst got)" using conns_invD(8) [OF mcp_first_publish(2,1)] by simp
  then have "gm_wf (List.map_filter (\<lambda>(n, d). case d of DialOk _ t _ \<Rightarrow> Some (n, t) | DialErr _ \<Rightarrow> None) got)"
    by (rule published_wf) (auto split: dialed.splits)
  then show ?case using mcp_first_publish(3) by (simp add: connect_publish_def mgr_fields made_def)
next
  case (mcp_connect s name s')
  then show ?case
    by (auto simp: mgr_Connect_def connectOne_begin_def mgr_fields made_map_option made_def [of "Some _"] split: option.splits)
next
  case (mcp_dial name sv s classify r)
  obtain d s' where d: "dial_result classify r s = (d, s')" by fastforce
  then show ?case using mcp_dial dial_result_fields(6) [OF d] by (simp add: connectOne_dial_def)
next
  case (mcp_publish name d s)
  then show ?case
    by (cases d) (auto simp: connectOne_publish_def mgr_fields made_map_option made_def [of "Some _"] Let_def)
next
  case (mcp_disconnect s name s')
  then show ?case
    by (auto simp: mgr_Disconnect_def mgr_fields made_map_option Let_def split: option.splits if_splits)
next
  case (mcp_refresh s name c tools)
  then show ?case by (auto simp: refreshTools_def made_def split: option.splits)
qed (simp_all add: connect_begin_def mgr_Add_def connectOne_begin_def Let_def mgr_fields made_map_option made_def [of "Some _"] mgr_Close_def)

lemma tools_wf:
  assumes "mcp_step\<^sup>*\<^sup>* (newManager servers) s" "gm_wf servers"
  shows "gm_wf (made (mm_tools s))"
  using assms(1)
proof (induction rule: rtranclp_induct)
  case base
  show ?case by (simp add: newManager_def made_def)
next
  case (step s t)
  then show ?case using mcp_reached [OF step(1) assms(2)] tools_wf_step by blast
qed



text \<open>With two tools of one server that get the same name, two sorts may choose different ones.\<close>

lemma colliding_tools_differ:
  "\<exists>m srt srt'. slice_sort srt \<and> slice_sort srt' \<and> map ft_tool (first_of_names [] (srt (all_tools m))) \<noteq>
     map ft_tool (first_of_names [] (srt' (all_tools m)))"
proof -
  let ?t = "\<lparr>mt_name = ''x.y'', mt_description = [], mt_schema = JNull\<rparr>"
  let ?u = "\<lparr>mt_name = ''x_y'', mt_description = [], mt_schema = JNull\<rparr>"
  let ?m = "[(''a'', [?t, ?u])]"
  have "sanitize ''x.y'' = ''x_y''" "sanitize ''x_y'' = ''x_y''" "sanitize ''a'' = ''a''" by code_simp+
  then have "map ft_tool (first_of_names [] (sort_key flat_key (all_tools ?m))) = [?t]"
    "map ft_tool (first_of_names [] (sort_key flat_key (rev (all_tools ?m)))) = [?u]"
    by (simp_all add: all_tools_def flat_key_def)
  moreover have "slice_sort (sort_key flat_key)" "slice_sort (\<lambda>xs. sort_key flat_key (rev xs))" by (simp_all add: slice_sort_def)
  ultimately show ?thesis
    by (intro exI [of _ ?m] exI [of _ "sort_key flat_key"] exI [of _ "\<lambda>xs. sort_key flat_key (rev xs)"]) simp
qed

text \<open>
  A change of a server's tools that is announced while its connection is being set up is lost: the notice finds no
  client of that connection and changes nothing, and what is published then is the list that was read
  before it; nothing is announced to the bus.
\<close>

theorem early_change_lost:
  assumes "mm_once s = OnceRunning [] got" "conns_inv s" "(name, DialOk c old res) \<in> set got" "\<not> mm_closed s"
  shows "refreshTools name c new s = s \<and> nil_get (mm_tools (connect_publish got (refreshTools name c new s))) name = Some old \<and>
    mm_events (connect_publish got (refreshTools name c new s)) = mm_events s"
proof -
  have same: "refreshTools name c new s = s" using conns_invD(4) [OF assms(2)] assms(1) by (simp add: refreshTools_def)
  have d: "distinct (map fst got)" using conns_invD(8) [OF assms(2,1)] by simp
  then have "gm_get got name = Some (DialOk c old res)" using assms(3) by simp
  then have "gm_get (List.map_filter (\<lambda>(n, d). case d of DialOk _ t _ \<Rightarrow> Some (n, t) | DialErr _ \<Rightarrow> None) got) name = Some old"
    by (subst get_published [OF d]) (auto split: dialed.splits)
  then show ?thesis using assms(4) unfolding same by (simp add: connect_publish_def)
qed

theorem early_change_lost_witness:
  "\<exists>s. refreshTools ''a'' 0 [] s = s \<and> nil_get (mm_tools (connect_publish [(''a'', DialOk 0 [\<lparr>mt_name = ''t'', mt_description = [], mt_schema = JObj []\<rparr>] [])]
     (refreshTools ''a'' 0 [] s))) ''a'' = Some [\<lparr>mt_name = ''t'', mt_description = [], mt_schema = JObj []\<rparr>]"
proof -
  let ?got = "[(''a'', DialOk 0 [\<lparr>mt_name = ''t'', mt_description = [], mt_schema = JObj []\<rparr>] [])]"
  let ?s = "(newManager [])\<lparr>mm_once := OnceRunning [] ?got, mm_open := [0], mm_next := 1\<rparr>"
  have "conns_inv ?s" by (simp add: conns_inv_def newManager_def client_conns_def once_results_def made_def)
  then have "refreshTools ''a'' 0 [] ?s = ?s \<and> nil_get (mm_tools (connect_publish ?got (refreshTools ''a'' 0 [] ?s))) ''a'' =
      Some [\<lparr>mt_name = ''t'', mt_description = [], mt_schema = JObj []\<rparr>] \<and>
    mm_events (connect_publish ?got (refreshTools ''a'' 0 [] ?s)) = mm_events ?s"
    by (intro early_change_lost) (simp_all add: newManager_def)
  then show ?thesis by blast
qed

end
