(* ===== verification/Lsp.thy ===== *)
theory Lsp
  imports Agents Access
begin

text \<open>
  Language servers (\<^verbatim>\<open>internal/lsp/server.go\<close>, \<^verbatim>\<open>service.go\<close>, \<^verbatim>\<open>client.go\<close>): which servers serve a file and at which root,
  the life of their processes, and the documents and diagnostics a client keeps. Requests are steps in any
  order, one per critical section, spawn or handshake. What the processes answer is an input. A document is
  its characters: bytes that are no UTF-8 read as U+FFFD on both sides of the connection.
\<close>

subsection \<open>Roots\<close>

text \<open>
  \<open>ex\<close> says which paths exist. The search goes from the directory \<open>start\<close>, which is absolute and clean, to
  \<open>stop\<close> or the root of the file system, and gives the directory of the target that was found.
\<close>

definition walkUpFind :: "(string \<Rightarrow> bool) \<Rightarrow> string \<Rightarrow> string \<Rightarrow> string list \<Rightarrow> string option" where
  "walkUpFind ex start stop targets =
     find (\<lambda>d. list_ex (\<lambda>t. ex (path_join d t)) targets) (config_chain stop (rev (comps start)))"

definition nearestRoot :: "(string \<Rightarrow> bool) \<Rightarrow> string \<Rightarrow> string \<Rightarrow> string list \<Rightarrow> string list \<Rightarrow> string" where
  "nearestRoot ex file instanceDir includes excludes =
     (let start = path_dir file
      in if excludes \<noteq> [] \<and> walkUpFind ex start instanceDir excludes \<noteq> None then []
         else case walkUpFind ex start instanceDir includes of Some d \<Rightarrow> d | None \<Rightarrow> instanceDir)"

definition goplsRoot :: "(string \<Rightarrow> bool) \<Rightarrow> string \<Rightarrow> string \<Rightarrow> string" where
  "goplsRoot ex file instanceDir =
     (if walkUpFind ex (path_dir file) instanceDir [''go.work''] \<noteq> None
      then nearestRoot ex file instanceDir [''go.work''] []
      else nearestRoot ex file instanceDir [''go.mod'', ''go.sum''] [])"

definition denoRoot :: "(string \<Rightarrow> bool) \<Rightarrow> string \<Rightarrow> string \<Rightarrow> string" where
  "denoRoot ex file instanceDir =
     (case walkUpFind ex (path_dir file) instanceDir [''deno.json'', ''deno.jsonc''] of Some d \<Rightarrow> d | None \<Rightarrow> [])"

text \<open>The directories from a crate's up, until the one that leaves the instance directory.\<close>

fun rust_up :: "string \<Rightarrow> string list \<Rightarrow> string list" where
  "rust_up instanceDir [] = []"
| "rust_up instanceDir (d # ds) =
     d # (case ds of
            [] \<Rightarrow> []
          | e # _ \<Rightarrow>
              (case path_rel instanceDir e of
                 None \<Rightarrow> []
               | Some rel \<Rightarrow> if has_prefix rel ''..'' then [] else rust_up instanceDir ds))"

definition rustRoot :: "(string \<Rightarrow> bool) \<Rightarrow> (string \<Rightarrow> string option) \<Rightarrow> string \<Rightarrow> string \<Rightarrow> string" where
  \<comment> \<open>\<open>read\<close> gives the text of a file\<close>
  "rustRoot ex read file instanceDir =
     (case walkUpFind ex (path_dir file) instanceDir [''Cargo.toml'', ''Cargo.lock''] of
        None \<Rightarrow> []
      | Some crate \<Rightarrow>
          (case find (\<lambda>d. case read (path_join d ''Cargo.toml'') of Some t \<Rightarrow> str_contains t ''[workspace]'' | None \<Rightarrow> False)
                  (rust_up instanceDir (config_chain [] (rev (comps crate)))) of
             Some d \<Rightarrow> d
           | None \<Rightarrow> crate))"

subsection \<open>Which servers serve a file\<close>

record server_def =
  sd_id :: string
  sd_extensions :: "string list"
  sd_root :: "string \<Rightarrow> string \<Rightarrow> string"

definition matchesExtension :: "server_def \<Rightarrow> string \<Rightarrow> bool" where
  "matchesExtension d e = (e \<in> set (sd_extensions d))"

definition activeServers :: "(string, server_def) gomap \<Rightarrow> lsp_config \<Rightarrow> (string, server_def) gomap" where
  "activeServers builtins cfg =
     (if \<not> lc_Enabled cfg then []
      else filter (\<lambda>(i, d). case gm_get (lc_Servers cfg) i of Some e \<Rightarrow> \<not> IsDisabled e | None \<Rightarrow> True) builtins)"

definition spawnKey :: "string \<Rightarrow> string \<Rightarrow> string" where
  "spawnKey i rt = i @ CHR 0x00 # rt"

definition ensure_candidates :: "(string, server_def) gomap \<Rightarrow> string \<Rightarrow> string \<Rightarrow> (string \<times> string) list" where
  \<comment> \<open>the id and the key of every server that serves the file\<close>
  "ensure_candidates servers directory file =
     List.map_filter (\<lambda>(i, d).
       let rt = sd_root d file directory
       in if \<not> matchesExtension d (path_ext file) \<or> rt = [] then None else Some (sd_id d, spawnKey (sd_id d) rt)) servers"

definition underRoot :: "string \<Rightarrow> string \<Rightarrow> bool" where
  "underRoot p rt =
     (case path_rel rt p of
        None \<Rightarrow> False
      | Some rel \<Rightarrow> rel = ''.'' \<or> \<not> has_prefix rel ''../'' \<and> rel \<noteq> ''..'')"

subsection \<open>Processes\<close>

text \<open>
  A spawn under way: before the process starts, during the handshake with the process, and with its result.
  \<open>ls_alive\<close> lists the processes that are alive, each with its key.
\<close>

datatype spawn_stage = Launching | Handshaking nat | Connected nat | Unconnected string

record lsp_service =
  ls_disposed :: bool
  ls_running :: "(string, nat) gomap"
  ls_broken :: "(string, string) gomap"
  ls_spawning :: "(string, spawn_stage) gomap"
  ls_alive :: "(string \<times> nat) list"
  ls_next :: nat
  ls_updated :: nat

definition lsp_NewService :: lsp_service where
  "lsp_NewService =
     \<lparr>ls_disposed = False, ls_running = [], ls_broken = [], ls_spawning = [], ls_alive = [], ls_next = 0, ls_updated = 0\<rparr>"

datatype ensure_start = EnsureNone | EnsureBroken string | EnsureRunning | EnsureWait | EnsureSpawn

definition ensureOne :: "string \<Rightarrow> lsp_service \<Rightarrow> ensure_start \<times> lsp_service" where
  "ensureOne key s =
     (if ls_disposed s then (EnsureNone, s)
      else case gm_get (ls_broken s) key of
             Some reason \<Rightarrow> (EnsureBroken reason, s)
           | None \<Rightarrow>
               if gm_has (ls_running s) key then (EnsureRunning, s)
               else if gm_has (ls_spawning s) key then (EnsureWait, s)
               else (EnsureSpawn, s\<lparr>ls_spawning := gm_put key Launching (ls_spawning s)\<rparr>))"

definition killGroup :: "string \<Rightarrow> nat \<Rightarrow> lsp_service \<Rightarrow> lsp_service" where
  "killGroup key p s = s\<lparr>ls_alive := removeAll (key, p) (ls_alive s)\<rparr>"

definition spawn_start :: "string option \<Rightarrow> string \<Rightarrow> lsp_service \<Rightarrow> lsp_service" where
  \<comment> \<open>\<open>spawn\<close>: the error, if no process could be started\<close>
  "spawn_start err key s =
     (case err of
        Some e \<Rightarrow> s\<lparr>ls_spawning := gm_put key (Unconnected e) (ls_spawning s)\<rparr>
      | None \<Rightarrow> s\<lparr>ls_spawning := gm_put key (Handshaking (ls_next s)) (ls_spawning s), ls_alive := (key, ls_next s) # ls_alive s,
                 ls_next := Suc (ls_next s)\<rparr>)"

definition spawn_connect :: "string option \<Rightarrow> string \<Rightarrow> nat \<Rightarrow> lsp_service \<Rightarrow> lsp_service" where
  "spawn_connect err key p s =
     (case err of
        Some e \<Rightarrow> (killGroup key p s)\<lparr>ls_spawning := gm_put key (Unconnected e) (ls_spawning s)\<rparr>
      | None \<Rightarrow> s\<lparr>ls_spawning := gm_put key (Connected p) (ls_spawning s)\<rparr>)"

definition spawn_finish :: "string \<Rightarrow> string + nat \<Rightarrow> lsp_service \<Rightarrow> lsp_service" where
  "spawn_finish key r s0 =
     (let s = s0\<lparr>ls_spawning := gm_del key (ls_spawning s0)\<rparr>
      in case r of
           Inl e \<Rightarrow> s\<lparr>ls_broken := gm_put key e (ls_broken s)\<rparr>
         | Inr p \<Rightarrow>
             if ls_disposed s then killGroup key p s
             else s\<lparr>ls_running := gm_put key p (ls_running s), ls_updated := Suc (ls_updated s)\<rparr>)"

definition DisposeAll :: "lsp_service \<Rightarrow> lsp_service" where
  "DisposeAll s =
     (if ls_disposed s then s
      else fold (\<lambda>(k, p). killGroup k p) (ls_running s) (s\<lparr>ls_disposed := True, ls_running := []\<rparr>))"

inductive lsp_step :: "lsp_service \<Rightarrow> lsp_service \<Rightarrow> bool" where
  lsp_ensure: "lsp_step s (snd (ensureOne key s))"
| lsp_start: "gm_get (ls_spawning s) key = Some Launching \<Longrightarrow> lsp_step s (spawn_start err key s)"
| lsp_connect: "gm_get (ls_spawning s) key = Some (Handshaking p) \<Longrightarrow> lsp_step s (spawn_connect err key p s)"
| lsp_connected: "gm_get (ls_spawning s) key = Some (Connected p) \<Longrightarrow> lsp_step s (spawn_finish key (Inr p) s)"
| lsp_failed: "gm_get (ls_spawning s) key = Some (Unconnected e) \<Longrightarrow> lsp_step s (spawn_finish key (Inl e) s)"
| lsp_dispose: "lsp_step s (DisposeAll s)"

definition spawn_pid :: "spawn_stage option \<Rightarrow> nat option" where
  "spawn_pid st = (case st of Some (Handshaking p) \<Rightarrow> Some p | Some (Connected p) \<Rightarrow> Some p | _ \<Rightarrow> None)"

definition lsp_inv :: "lsp_service \<Rightarrow> bool" where
  "lsp_inv s \<longleftrightarrow>
     (\<forall>k p. (k, p) \<in> set (ls_alive s) \<longleftrightarrow> gm_get (ls_running s) k = Some p \<or> spawn_pid (gm_get (ls_spawning s) k) = Some p) \<and>
     (\<forall>k. gm_has (ls_running s) k \<longrightarrow> \<not> gm_has (ls_spawning s) k \<and> \<not> gm_has (ls_broken s) k) \<and>
     (\<forall>k. gm_has (ls_spawning s) k \<longrightarrow> \<not> gm_has (ls_broken s) k) \<and>
     (ls_disposed s \<longrightarrow> ls_running s = []) \<and> gm_wf (ls_running s)"

lemma fold_kill:
  "fold (\<lambda>(k, p). killGroup k p) xs s = s\<lparr>ls_alive := filter (\<lambda>x. x \<notin> set xs) (ls_alive s)\<rparr>"
  by (induction xs arbitrary: s) (auto simp: killGroup_def removeAll_filter_not_eq intro!: arg_cong [where f = "\<lambda>x. _\<lparr>ls_alive := x\<rparr>"] filter_cong)

lemma lsp_inv_step: "lsp_step s t \<Longrightarrow> lsp_inv s \<Longrightarrow> lsp_inv t"
proof (induction rule: lsp_step.induct)
  case (lsp_ensure s key)
  then show ?case
    by (auto simp: ensureOne_def lsp_inv_def spawn_pid_def gm_has_def split: option.splits if_splits)
next
  case (lsp_start s key err)
  then have "\<not> gm_has (ls_running s) key" by (auto simp: lsp_inv_def gm_has_def)
  then show ?case
    using lsp_start by (cases err) (auto simp: spawn_start_def lsp_inv_def spawn_pid_def gm_has_def split: if_splits)
next
  case (lsp_connect s key p err)
  then have "\<not> gm_has (ls_running s) key" by (auto simp: lsp_inv_def gm_has_def)
  then show ?case
    using lsp_connect by (cases err) (auto simp: spawn_connect_def killGroup_def lsp_inv_def spawn_pid_def gm_has_def split: if_splits)
next
  case (lsp_connected s key p)
  then have "\<not> gm_has (ls_running s) key" "\<not> gm_has (ls_broken s) key" by (auto simp: lsp_inv_def gm_has_def)
  then show ?case
    using lsp_connected by (auto simp: spawn_finish_def killGroup_def lsp_inv_def spawn_pid_def gm_has_def Let_def split: if_splits)
next
  case (lsp_failed s key e)
  then have "\<not> gm_has (ls_running s) key" by (auto simp: lsp_inv_def gm_has_def)
  then show ?case
    using lsp_failed by (auto simp: spawn_finish_def lsp_inv_def spawn_pid_def gm_has_def Let_def split: if_splits)
next
  case (lsp_dispose s)
  show ?case
    using lsp_dispose by (auto simp: DisposeAll_def fold_kill lsp_inv_def gm_get_mem gm_has_def spawn_pid_def split: option.splits)
qed

definition HasClients :: "(string, server_def) gomap \<Rightarrow> string \<Rightarrow> string \<Rightarrow> lsp_service \<Rightarrow> bool" where
  "HasClients servers directory file s =
     (\<not> ls_disposed s \<and>
      list_ex (\<lambda>(i, d).
        let rt = sd_root d file directory
        in \<not> (sd_extensions d \<noteq> [] \<and> \<not> matchesExtension d (path_ext file)) \<and> rt \<noteq> [] \<and>
           \<not> gm_has (ls_broken s) (spawnKey (sd_id d) rt)) servers)"

lemma lsp_inv_reached: "lsp_step\<^sup>*\<^sup>* lsp_NewService s \<Longrightarrow> lsp_inv s"
  by (induction rule: rtranclp_induct) (simp add: lsp_NewService_def lsp_inv_def spawn_pid_def gm_has_def, blast intro: lsp_inv_step)

text \<open>
  C23. A language server runs at most once for a root, a server that failed is not started again, and no process is left
  behind: in every interleaving of requests, spawns, handshakes and the disposal a server and root have
  at most one living process, none while they are broken, and the one that is running is alive; after
  the disposal, once no spawn is under way, no process is alive.
\<close>

theorem one_server_per_root:
  assumes "lsp_step\<^sup>*\<^sup>* lsp_NewService s"
  shows "((key, p) \<in> set (ls_alive s) \<and> (key, q) \<in> set (ls_alive s) \<longrightarrow> p = q) \<and>
    (gm_get (ls_running s) key = Some p \<longrightarrow> (key, p) \<in> set (ls_alive s)) \<and>
    (gm_has (ls_broken s) key \<longrightarrow> (key, p) \<notin> set (ls_alive s) \<and> snd (ensureOne key s) = s) \<and>
    (ls_disposed s \<and> ls_spawning s = [] \<longrightarrow> ls_alive s = [])"
proof -
  have inv: "lsp_inv s" by (rule lsp_inv_reached [OF assms])
  then have alive: "(k, r) \<in> set (ls_alive s) \<longleftrightarrow> gm_get (ls_running s) k = Some r \<or> spawn_pid (gm_get (ls_spawning s) k) = Some r" for k r
    by (simp add: lsp_inv_def)
  have apart: "gm_get (ls_running s) k = Some r \<Longrightarrow> spawn_pid (gm_get (ls_spawning s) k) = None" for k r
    using inv by (auto simp: lsp_inv_def gm_has_def spawn_pid_def)
  have broken: "gm_get (ls_running s) k = None \<and> spawn_pid (gm_get (ls_spawning s) k) = None" if "gm_has (ls_broken s) k" for k
    using inv that by (auto simp: lsp_inv_def gm_has_def spawn_pid_def split: option.split)
  have "ls_alive s = []" if "ls_disposed s" "ls_spawning s = []"
  proof -
    have "ls_running s = []" using inv that by (simp add: lsp_inv_def)
    then have "(k, r) \<notin> set (ls_alive s)" for k r using alive that(2) by (simp add: spawn_pid_def)
    then show ?thesis by (metis last_in_set surj_pair)
  qed
  moreover have "snd (ensureOne key s) = s" if "gm_has (ls_broken s) key"
    using that by (auto simp: ensureOne_def gm_has_def)
  ultimately show ?thesis using alive apart broken by fastforce
qed

definition demo_lsp :: lsp_service where
  \<comment> \<open>one server running, another whose handshake failed, then disposed\<close>
  "demo_lsp =
     (let s1 = spawn_finish ''g'' (Inr 0) (spawn_connect None ''g'' 0 (spawn_start None ''g'' (snd (ensureOne ''g'' lsp_NewService))));
          s2 = spawn_finish ''r'' (Inl ''no'') (spawn_connect (Some ''no'') ''r'' 1 (spawn_start None ''r'' (snd (ensureOne ''r'' s1))))
      in DisposeAll s2)"

lemma demo_spawn:
  assumes "ls_disposed s = False" "gm_get (ls_broken s) k = None" "gm_get (ls_running s) k = None" "gm_get (ls_spawning s) k = None"
  shows "lsp_step\<^sup>*\<^sup>* s (spawn_finish k (case e of None \<Rightarrow> Inr (ls_next s) | Some m \<Rightarrow> Inl m)
    (spawn_connect e k (ls_next s) (spawn_start None k (snd (ensureOne k s)))))"
proof -
  let ?a = "snd (ensureOne k s)"
  let ?b = "spawn_start None k ?a"
  let ?c = "spawn_connect e k (ls_next s) ?b"
  have a: "?a = s\<lparr>ls_spawning := gm_put k Launching (ls_spawning s)\<rparr>" using assms by (simp add: ensureOne_def gm_has_def)
  have "lsp_step s ?a" by (rule lsp_ensure)
  moreover have "lsp_step ?a ?b" by (rule lsp_start) (simp add: a)
  moreover have "lsp_step ?b ?c" by (rule lsp_connect) (simp add: a spawn_start_def)
  moreover have "lsp_step ?c (spawn_finish k (case e of None \<Rightarrow> Inr (ls_next s) | Some m \<Rightarrow> Inl m) ?c)"
    by (cases e) (auto intro!: lsp_connected lsp_failed simp: spawn_connect_def)
  ultimately show ?thesis by (meson rtranclp.rtrancl_into_rtrancl rtranclp.rtrancl_refl)
qed

theorem one_server_per_root_witness: "ls_alive demo_lsp = [] \<and> gm_has (ls_broken demo_lsp) ''r'' \<and> snd (ensureOne ''r'' demo_lsp) = demo_lsp"
proof -
  let ?s1 = "spawn_finish ''g'' (Inr 0) (spawn_connect None ''g'' 0 (spawn_start None ''g'' (snd (ensureOne ''g'' lsp_NewService))))"
  let ?s2 = "spawn_finish ''r'' (Inl ''no'') (spawn_connect (Some ''no'') ''r'' 1 (spawn_start None ''r'' (snd (ensureOne ''r'' ?s1))))"
  have s1: "?s1 = \<lparr>ls_disposed = False, ls_running = [(''g'', 0)], ls_broken = [], ls_spawning = [], ls_alive = [(''g'', 0)], ls_next = 1, ls_updated = 1\<rparr>"
    by (simp add: ensureOne_def lsp_NewService_def spawn_start_def spawn_connect_def spawn_finish_def gm_has_def)
  have "lsp_step\<^sup>*\<^sup>* lsp_NewService ?s1"
    using demo_spawn [of lsp_NewService "''g''" None] by (simp add: lsp_NewService_def)
  moreover have "lsp_step\<^sup>*\<^sup>* ?s1 ?s2" using demo_spawn [of ?s1 "''r''" "Some ''no''"] by (simp add: s1)
  moreover have "lsp_step ?s2 demo_lsp" unfolding demo_lsp_def Let_def by (rule lsp_dispose)
  ultimately have reach: "lsp_step\<^sup>*\<^sup>* lsp_NewService demo_lsp" by (meson rtranclp_trans rtranclp.rtrancl_into_rtrancl)
  have "ls_disposed demo_lsp" "ls_spawning demo_lsp = []" "gm_has (ls_broken demo_lsp) ''r''"
    unfolding demo_lsp_def Let_def s1
    by (simp_all add: ensureOne_def spawn_start_def spawn_connect_def spawn_finish_def gm_has_def killGroup_def DisposeAll_def fold_kill)
  then show ?thesis using one_server_per_root [OF reach] by blast
qed

subsection \<open>Documents\<close>

type_synonym doc = "rune list"

text \<open>\<^verbatim>\<open>splitLines\<close>: the line ends \<^verbatim>\<open>CR LF\<close> and \<^verbatim>\<open>CR\<close> become \<^verbatim>\<open>LF\<close>, which then separates.\<close>

fun crlf_to_lf :: "doc \<Rightarrow> doc" where
  "crlf_to_lf (a # b # d) = (if a = 13 \<and> b = 10 then 10 # crlf_to_lf d else a # crlf_to_lf (b # d))"
| "crlf_to_lf d = d"

fun split_lf :: "doc \<Rightarrow> doc list" where
  "split_lf [] = [[]]"
| "split_lf (r # d) = (if r = 10 then [] # split_lf d else (r # hd (split_lf d)) # tl (split_lf d))"

definition splitLines :: "doc \<Rightarrow> doc list" where
  "splitLines text = split_lf (map (\<lambda>r. if r = 13 then 10 else r) (crlf_to_lf text))"

definition endPosition :: "doc \<Rightarrow> nat \<times> nat" where
  "endPosition text = (length (splitLines text) - 1, length (last (splitLines text)))"

definition syncKindOf :: "json option \<Rightarrow> int" where
  "syncKindOf v =
     (case v of
        Some (JNum q) \<Rightarrow> go_trunc q
      | Some (JObj m) \<Rightarrow> (case gm_get m ''change'' of Some (JNum q) \<Rightarrow> go_trunc q | _ \<Rightarrow> 0)
      | _ \<Rightarrow> 0)"

text \<open>A change is a whole text, or one that replaces the range from the beginning to a position.\<close>

datatype doc_change = WholeText doc | UpTo "nat \<times> nat" doc

datatype lsp_message = WatchedFile string nat | DidOpen string int doc | DidChange string int doc_change

record diagnostic =
  dg_code :: json
  dg_severity :: int
  dg_message :: string
  dg_source :: string
  dg_range :: "(nat \<times> nat) \<times> (nat \<times> nat)"
  dg_other :: json

record diag_registration =
  rg_identifier :: string
  rg_workspace :: bool

record lsp_client =
  cl_sync :: int
  cl_static :: bool
  cl_push :: "(string, diagnostic list) gomap"
  cl_pull :: "(string, diagnostic list) gomap"
  cl_files :: "(string, int \<times> doc) gomap"
  cl_regs :: "(string, diag_registration) gomap"
  cl_sent :: "lsp_message list"

definition send_message :: "lsp_message \<Rightarrow> lsp_client \<Rightarrow> lsp_client" where
  "send_message m c = c\<lparr>cl_sent := cl_sent c @ [m]\<rparr>"

text \<open>
  \<open>Open\<close> of the absolute path \<open>file\<close>: \<open>text\<close> is what reading it gives, \<open>failing\<close> the number of the notification
  that fails, if any. A version is an \<^verbatim>\<open>int32\<close> that grows by one with every call.
\<close>

definition client_Open :: "nat option \<Rightarrow> doc option \<Rightarrow> string \<Rightarrow> lsp_client \<Rightarrow> int option \<times> lsp_client" where
  "client_Open failing text file c =
     (case text of
        None \<Rightarrow> (None, c)
      | Some new \<Rightarrow>
          (case gm_get (cl_files c) file of
             Some (version, old) \<Rightarrow>
               if failing = Some 0 then (None, c)
               else (let c1 = send_message (WatchedFile file 2) c;
                         next = version + 1;
                         change = (if cl_sync c = 2 then UpTo (endPosition old) new else WholeText new)
                     in if failing = Some 1 then (None, c1)
                        else (Some next, (send_message (DidChange file next change) c1)\<lparr>cl_files := gm_put file (next, new) (cl_files c)\<rparr>))
           | None \<Rightarrow>
               if failing = Some 0 then (None, c)
               else (let c1 = (send_message (WatchedFile file 1) c)\<lparr>cl_push := gm_del file (cl_push c), cl_pull := gm_del file (cl_pull c)\<rparr>
                     in if failing = Some 1 then (None, c1)
                        else (Some 0, (send_message (DidOpen file 0 new) c1)\<lparr>cl_files := gm_put file (0, new) (cl_files c)\<rparr>))))"

text \<open>
  The server's copy of the documents, as the protocol defines it: the messages carried out in their order. A
  position is a line and a number of UTF-16 code units in it; a character above U+FFFF has two. Only
  positions in the last line are asked for, so no line end follows.
\<close>

definition drop_lf :: "doc \<Rightarrow> doc" where
  "drop_lf d = (case d of r # d' \<Rightarrow> if r = 10 then d' else d | [] \<Rightarrow> [])"

lemma drop_lf_length: "length (drop_lf d) \<le> length d"
  by (simp add: drop_lf_def split: list.split)

function after_line :: "nat \<Rightarrow> doc \<Rightarrow> doc" where
  "after_line 0 d = d"
| "after_line (Suc n) [] = []"
| "after_line (Suc n) (r # d) =
     (if r = 13 then after_line n (drop_lf d) else if r = 10 then after_line n d else after_line (Suc n) d)"
  by pat_completeness auto
termination
  by (relation "measure (length \<circ> snd)") (auto simp: le_imp_less_Suc drop_lf_length)

fun after_units :: "nat \<Rightarrow> doc \<Rightarrow> doc" where
  "after_units 0 d = d"
| "after_units (Suc k) [] = []"
| "after_units (Suc k) (r # d) = after_units (if r \<ge> 0x10000 then k - 1 else k) d"

definition carry_out :: "lsp_message \<Rightarrow> (string, int \<times> doc) gomap \<Rightarrow> (string, int \<times> doc) gomap" where
  "carry_out m docs =
     (case m of
        WatchedFile f k \<Rightarrow> docs
      | DidOpen f v t \<Rightarrow> gm_put f (v, t) docs
      | DidChange f v (WholeText t) \<Rightarrow> gm_put f (v, t) docs
      | DidChange f v (UpTo (l, k) t) \<Rightarrow>
          (case gm_get docs f of Some (_, old) \<Rightarrow> gm_put f (v, t @ after_units k (after_line l old)) docs | None \<Rightarrow> docs))"

definition server_copy :: "lsp_client \<Rightarrow> (string, int \<times> doc) gomap" where
  "server_copy c = fold carry_out (cl_sent c) []"

lemma server_copy_send: "server_copy (send_message m c) = carry_out m (server_copy c)"
  by (simp add: server_copy_def send_message_def)

lemma split_lf_not_empty [simp]: "split_lf d \<noteq> []"
  by (cases d) simp_all

lemma splitLines_step:
  "splitLines [] = [[]]"
  "splitLines (r # d) =
     (if r = 13 then [] # splitLines (drop_lf d) else if r = 10 then [] # splitLines d
      else (r # hd (splitLines d)) # tl (splitLines d))"
  by (cases d; simp add: splitLines_def drop_lf_def)+

lemma splitLines_not_empty [simp]: "splitLines d \<noteq> []"
  by (simp add: splitLines_def)

lemma after_last_line: "after_line (length (splitLines d) - 1) d = last (splitLines d)"
proof (induction d rule: measure_induct_rule [of length])
  case (less d)
  show ?case
  proof (cases d)
    case Nil
    then show ?thesis by (simp add: splitLines_step)
  next
    case (Cons r d')
    have len: "length (splitLines e) = Suc (length (splitLines e) - 1)" for e by (cases "splitLines e") simp_all
    consider "r = 13" | "r = 10" | "r \<noteq> 13" "r \<noteq> 10" by blast
    then show ?thesis
    proof cases
      case 1
      have "after_line (length (splitLines (drop_lf d')) - 1) (drop_lf d') = last (splitLines (drop_lf d'))"
        using less [of "drop_lf d'"] drop_lf_length [of d'] Cons by simp
      moreover have "splitLines d = [] # splitLines (drop_lf d')" using 1 Cons by (simp add: splitLines_step(2))
      ultimately show ?thesis using 1 Cons len [of "drop_lf d'"] by (metis after_line.simps(3) diff_Suc_1 last.simps length_Cons splitLines_not_empty)
    next
      case 2
      have "splitLines d = [] # splitLines d'" using 2 Cons by (simp add: splitLines_step(2))
      moreover have "after_line (length (splitLines d') - 1) d' = last (splitLines d')" using less [of d'] Cons by simp
      ultimately show ?thesis using 2 Cons len [of d']
        by (metis after_line.simps(3) diff_Suc_1 last.simps length_Cons splitLines_not_empty numeral_eq_iff semiring_norm(88,89))
    next
      case 3
      have s: "splitLines d = (r # hd (splitLines d')) # tl (splitLines d')" using 3 Cons by (simp add: splitLines_step(2))
      have ih: "after_line (length (splitLines d') - 1) d' = last (splitLines d')" using less [of d'] Cons by simp
      show ?thesis
      proof (cases "tl (splitLines d')")
        case Nil
        then have one: "splitLines d' = [hd (splitLines d')]" by (metis list.collapse splitLines_not_empty)
        then have "length (splitLines d') = 1" by (metis length_Cons list.size(3) One_nat_def)
        then have "d' = hd (splitLines d')" using ih one by (metis after_line.simps(1) cancel_comm_monoid_add_class.diff_cancel last_ConsL)
        then show ?thesis using s Nil Cons by simp
      next
        case (Cons l ls)
        then have "length (splitLines d') - 1 = Suc (length ls)" "last (splitLines d') = last (l # ls)"
          by (metis length_tl length_Cons) (metis Cons last_tl list.distinct(1))
        then show ?thesis using s ih Cons 3 \<open>d = r # d'\<close> by simp
      qed
    qed
  qed
qed

lemmas after_last = after_last_line [unfolded One_nat_def]

definition narrow_end :: "doc \<Rightarrow> bool" where
  \<comment> \<open>no character above U+FFFF in the last line\<close>
  "narrow_end d = list_all (\<lambda>r. r < 0x10000) (last (splitLines d))"

lemma after_units_narrow: "list_all (\<lambda>r. r < 0x10000) d \<Longrightarrow> after_units (length d) d = []"
  by (induction d) simp_all

lemma after_end: "narrow_end d \<Longrightarrow> after_units (snd (endPosition d)) (after_line (fst (endPosition d)) d) = []"
  by (simp add: endPosition_def after_last after_units_narrow narrow_end_def)

definition in_step :: "lsp_client \<Rightarrow> bool" where
  "in_step c \<longleftrightarrow> (\<forall>f. gm_get (server_copy c) f = gm_get (cl_files c) f) \<and>
     (cl_sync c = 2 \<longrightarrow> (\<forall>f v t. gm_get (cl_files c) f = Some (v, t) \<longrightarrow> narrow_end t))"

lemma server_copy_frame [simp]:
  "server_copy (c\<lparr>cl_files := x\<rparr>) = server_copy c" "server_copy (c\<lparr>cl_push := y\<rparr>) = server_copy c" "server_copy (c\<lparr>cl_pull := y\<rparr>) = server_copy c"
  by (simp_all add: server_copy_def)

lemma carry_out_watched [simp]: "carry_out (WatchedFile f k) = (\<lambda>d. d)"
  by (simp add: carry_out_def fun_eq_iff)

lemma opened_copy:
  assumes "in_step c" "client_Open failing cont file c = (res, c')"
  shows "gm_get (server_copy c') f =
      (case res of Some v \<Rightarrow> if f = file then Some (v, the cont) else gm_get (cl_files c) f | None \<Rightarrow> gm_get (cl_files c) f) \<and>
    gm_get (cl_files c') f = gm_get (server_copy c') f \<and> cl_sync c' = cl_sync c \<and>
    (res \<noteq> None \<longrightarrow> cont \<noteq> None)"
proof -
  have sent [simp]: "cl_files (send_message m c) = cl_files c" "cl_sync (send_message m c) = cl_sync c" for m c
    by (simp_all add: send_message_def)
  have copy: "gm_get (server_copy c) g = gm_get (cl_files c) g" for g using assms(1) by (simp add: in_step_def)
  show ?thesis
  proof (cases cont)
    case None
    then show ?thesis using assms(2) copy by (auto simp: client_Open_def)
  next
    case (Some new)
    show ?thesis
    proof (cases "gm_get (cl_files c) file")
      case None
      then show ?thesis
        using assms(2) copy Some by (auto simp: client_Open_def Let_def server_copy_send carry_out_def split: if_splits)
    next
      case (Some p)
      obtain v old where p: "gm_get (cl_files c) file = Some (v, old)" using Some by (cases p) auto
      have cut: "after_units (snd (endPosition old)) (after_line (fst (endPosition old)) old) = []" if "cl_sync c = 2"
        using assms(1) p that by (intro after_end) (auto simp: in_step_def)
      obtain l k where lk: "endPosition old = (l, k)" by (cases "endPosition old")
      show ?thesis
        using assms(2) copy \<open>cont = Some new\<close> p cut lk
        by (auto simp: client_Open_def Let_def server_copy_send carry_out_def split: if_splits)
    qed
  qed
qed

lemma in_step_open:
  assumes "in_step c" "client_Open failing cont file c = (res, c')"
    "\<And>t. cl_sync c = 2 \<Longrightarrow> cont = Some t \<Longrightarrow> narrow_end t"
  shows "in_step c'"
  using opened_copy [OF assms(1,2)] assms(1,3) by (auto simp: in_step_def split: option.splits if_splits)

definition open_all :: "(nat option \<times> doc option \<times> string) list \<Rightarrow> lsp_client \<Rightarrow> lsp_client" where
  "open_all ops c = fold (\<lambda>(failing, text, file) c. snd (client_Open failing text file c)) ops c"

definition lsp_newClient :: "int \<Rightarrow> bool \<Rightarrow> lsp_client" where
  "lsp_newClient sync static =
     \<lparr>cl_sync = sync, cl_static = static, cl_push = [], cl_pull = [], cl_files = [], cl_regs = [], cl_sent = []\<rparr>"

lemma in_step_all:
  assumes "in_step c" "cl_sync c = 2 \<Longrightarrow> \<forall>(failing, cont, fl) \<in> set ops. \<forall>t. cont = Some t \<longrightarrow> narrow_end t"
  shows "in_step (open_all ops c) \<and> cl_sync (open_all ops c) = cl_sync c"
  using assms
proof (induction ops arbitrary: c)
  case (Cons op ops)
  obtain failing cont fl where op: "op = (failing, cont, fl)" by (cases op)
  obtain res c' where c': "client_Open failing cont fl c = (res, c')" by fastforce
  have "in_step c'" by (rule in_step_open [OF Cons.prems(1) c']) (use Cons.prems(2) op in auto)
  moreover have "cl_sync c' = cl_sync c" using opened_copy [OF Cons.prems(1) c'] by blast
  ultimately show ?case using Cons.IH [of c'] Cons.prems(2) by (auto simp: open_all_def op c')
qed (simp add: open_all_def)

text \<open>
  C10. A server's documents are the files as they were last read: after any sequence of opened files and changes, failed
  reads and failed notifications included, the copy that the messages make on the server's side has the text
  and the version the client recorded, and an open that succeeds makes it the text just read; for a server
  that takes incremental changes, as long as the replaced texts have no character above U+FFFF in their
  last line.
\<close>

theorem documents_in_step:
  assumes "cl_sync c = 2 \<longrightarrow> (\<forall>(failing, text, file) \<in> set ops. \<forall>t. text = Some t \<longrightarrow> narrow_end t)"
    "c = open_all ops (lsp_newClient sync static)" "client_Open failing (Some text) file c = (Some v, c')"
  shows "gm_get (server_copy c) f = gm_get (cl_files c) f \<and>
    gm_get (server_copy c') f = (if f = file then Some (v, text) else gm_get (server_copy c) f) \<and>
    v = (case gm_get (server_copy c) file of Some (w, old) \<Rightarrow> w + 1 | None \<Rightarrow> 0)"
proof -
  have new: "in_step (lsp_newClient sync static)" by (simp add: in_step_def lsp_newClient_def server_copy_def)
  have "cl_sync (open_all ops d) = cl_sync d" for d
    by (induction ops arbitrary: d)
       (auto simp: open_all_def client_Open_def send_message_def Let_def split: option.splits)
  then have inv: "in_step c" using in_step_all [OF new, of ops] assms(1,2) by simp
  then have copy: "gm_get (server_copy c) g = gm_get (cl_files c) g" for g by (simp add: in_step_def)
  have "v = (case gm_get (cl_files c) file of Some (w, old) \<Rightarrow> w + 1 | None \<Rightarrow> 0)"
    using assms(3) by (auto simp: client_Open_def Let_def split: option.splits if_splits prod.splits)
  then show ?thesis using opened_copy [OF inv assms(3), of f] by (simp add: copy)
qed

theorem documents_in_step_witness:
  "let c = open_all [(None, Some [97, 10, 98], ''/f''), (Some 1, Some [99], ''/g''), (None, Some [98, 13, 10], ''/f'')] (lsp_newClient 2 False);
       c' = snd (client_Open None (Some [100]) ''/f'' c)
   in gm_get (server_copy c') ''/f'' = Some (2, [100])"
proof -
  let ?ops = "[(None, Some [97, 10, 98], ''/f''), (Some 1, Some [99], ''/g''), (None, Some [98, 13, 10], ''/f'')] ::
    (nat option \<times> doc option \<times> string) list"
  let ?c = "open_all ?ops (lsp_newClient 2 False)"
  let ?r = "client_Open None (Some [100]) ''/f'' ?c"
  have "gm_get (cl_files ?c) ''/f'' = Some (1, [98, 13, 10])"
    by (simp add: open_all_def lsp_newClient_def client_Open_def Let_def send_message_def)
  then have "?r = (Some 2, snd ?r)" by (simp add: client_Open_def Let_def)
  then have "gm_get (server_copy (snd ?r)) ''/f'' = (if ''/f'' = ''/f'' then Some (2, [100]) else gm_get (server_copy ?c) ''/f'')"
    using documents_in_step [of ?c ?ops 2 False None "[100]" "''/f''" 2 "snd ?r" "''/f''"]
    by (simp add: narrow_end_def splitLines_step drop_lf_def)
  then show ?thesis by (simp add: Let_def)
qed

text \<open>
  The end of a document is counted in characters where the protocol counts UTF-16 code units: when the last line
  of the text to replace has characters above U+FFFF before as many others, those others stay behind the new
  text on the server's side, while the client records the new text alone.
\<close>

theorem wide_end_left_behind:
  assumes "cl_sync c = 2" "gm_get (cl_files c) file = Some (w, old)" "gm_get (server_copy c) file = Some (w, old)"
    "last (splitLines old) = wide @ tail" "list_all (\<lambda>r. r < 0x10000) tail"
    "length tail = length (filter (\<lambda>r. r \<ge> 0x10000) wide)" "client_Open None (Some text) file c = (Some v, c')"
  shows "gm_get (server_copy c') file = Some (v, text @ tail) \<and> gm_get (cl_files c') file = Some (v, text)"
proof -
  have units: "after_units (length xs + length (filter (\<lambda>r. r \<ge> 0x10000) xs)) (xs @ ys) = ys" for xs ys
    by (induction xs) auto
  have cut: "after_units (length wide + length tail) (after_line (length (splitLines old) - 1) old) = tail"
    using units [of wide tail] assms(6) by (simp add: after_last assms(4))
  show ?thesis
    using assms(7,1,2,3) cut
    by (auto simp: client_Open_def Let_def endPosition_def assms(4) server_copy_send carry_out_def)
qed

theorem wide_end_left_behind_witness:
  "let c = open_all [(None, Some [0x1F600, 97], ''/f'')] (lsp_newClient 2 False);
       c' = snd (client_Open None (Some [98]) ''/f'' c)
   in gm_get (server_copy c') ''/f'' = Some (1, [98, 97]) \<and> gm_get (cl_files c') ''/f'' = Some (1, [98])"
proof -
  let ?c = "open_all [(None, Some [0x1F600, 97], ''/f'')] (lsp_newClient 2 False)"
  let ?r = "client_Open None (Some [98]) ''/f'' ?c"
  have c: "cl_sync ?c = 2" "gm_get (cl_files ?c) ''/f'' = Some (0, [0x1F600, 97])" "gm_get (server_copy ?c) ''/f'' = Some (0, [0x1F600, 97])"
    by (simp_all add: open_all_def lsp_newClient_def client_Open_def Let_def send_message_def server_copy_def carry_out_def)
  have "?r = (Some 1, snd ?r)" using c(2) by (simp add: client_Open_def Let_def)
  from wide_end_left_behind [OF c _ _ _ this, of "[0x1F600]" "[97]"] show ?thesis by (simp add: Let_def splitLines_step)
qed

subsection \<open>Diagnostics\<close>

text \<open>
  The key under which a diagnostic is a duplicate. Two values have the same encoding when their canonical
  forms are equal.
\<close>

definition diag_key :: "diagnostic \<Rightarrow> json \<times> int \<times> string \<times> string \<times> (nat \<times> nat) \<times> (nat \<times> nat)" where
  "diag_key d = (canon (dg_code d), dg_severity d, dg_message d, dg_source d, dg_range d)"

fun dedupe_from :: "(json \<times> int \<times> string \<times> string \<times> (nat \<times> nat) \<times> (nat \<times> nat)) list \<Rightarrow> diagnostic list \<Rightarrow> diagnostic list" where
  "dedupe_from seen [] = []"
| "dedupe_from seen (d # ds) =
     (if diag_key d \<in> set seen then dedupe_from seen ds else d # dedupe_from (diag_key d # seen) ds)"

definition dedupeDiagnostics :: "diagnostic list \<Rightarrow> diagnostic list" where
  "dedupeDiagnostics ds = dedupe_from [] ds"

definition onPublishDiagnostics :: "string \<Rightarrow> diagnostic list \<Rightarrow> lsp_client \<Rightarrow> lsp_client" where
  \<comment> \<open>the path of the URI, empty when it is no file\<close>
  "onPublishDiagnostics file ds c = (if file = [] then c else c\<lparr>cl_push := gm_put file ds (cl_push c)\<rparr>)"

definition storePull :: "string \<Rightarrow> diagnostic list \<Rightarrow> lsp_client \<Rightarrow> lsp_client" where
  "storePull file ds c = c\<lparr>cl_pull := gm_put file (dedupeDiagnostics ds) (cl_pull c)\<rparr>"

definition made_list :: "'a list option \<Rightarrow> 'a list" where
  "made_list x = (case x of Some xs \<Rightarrow> xs | None \<Rightarrow> [])"

definition client_Diagnostics :: "lsp_client \<Rightarrow> string \<Rightarrow> diagnostic list option" where
  "client_Diagnostics c file =
     (case (gm_get (cl_push c) file, gm_get (cl_pull c) file) of
        (None, None) \<Rightarrow> None
      | (p, q) \<Rightarrow> Some (dedupeDiagnostics (made_list p @ made_list q)))"

definition onRegisterCapability :: "(string \<times> string \<times> diag_registration) list \<Rightarrow> lsp_client \<Rightarrow> lsp_client" where
  \<comment> \<open>id, method and options\<close>
  "onRegisterCapability rs c =
     c\<lparr>cl_regs := fold (\<lambda>(i, m, r). if m = ''textDocument/diagnostic'' then gm_put i r else id) rs (cl_regs c)\<rparr>"

definition onUnregisterCapability :: "(string \<times> string) list \<Rightarrow> lsp_client \<Rightarrow> lsp_client" where
  "onUnregisterCapability rs c =
     c\<lparr>cl_regs := fold (\<lambda>(i, m). if m = ''textDocument/diagnostic'' then gm_del i else id) rs (cl_regs c)\<rparr>"

definition pull_identifiers :: "bool \<Rightarrow> lsp_client \<Rightarrow> string list" where
  "pull_identifiers ws c =
     sort (remdups (filter (\<lambda>i. i \<noteq> []) (map rg_identifier (filter (\<lambda>r. rg_workspace r = ws) (map snd (cl_regs c))))))"

definition documentPullState :: "lsp_client \<Rightarrow> string list \<times> bool" where
  "documentPullState c = (pull_identifiers False c, cl_static c \<or> list_ex (\<lambda>r. \<not> rg_workspace r) (map snd (cl_regs c)))"

definition workspacePullState :: "lsp_client \<Rightarrow> string list \<times> bool" where
  "workspacePullState c = (pull_identifiers True c, list_ex rg_workspace (map snd (cl_regs c)))"

text \<open>A report: the items of the file asked for, if any, and those of other files by path, empty for no file.\<close>

type_synonym diag_items = "(string \<times> diagnostic list option) list"

definition store_items :: "string \<Rightarrow> diag_items \<Rightarrow> lsp_client \<Rightarrow> bool \<times> lsp_client" where
  "store_items file items c =
     fold (\<lambda>(f, ds) (matched, c).
       case ds of
         Some xs \<Rightarrow> if f = [] then (matched, c) else (matched \<or> f = file, storePull f xs c)
       | None \<Rightarrow> (matched, c)) items (False, c)"

definition pullDocument :: "(string \<Rightarrow> (diagnostic list option \<times> diag_items) option) \<Rightarrow> string \<Rightarrow> string \<Rightarrow> lsp_client \<Rightarrow> bool \<times> lsp_client" where
  \<comment> \<open>the server's answer for each identifier\<close>
  "pullDocument answer file identifier c =
     (case answer identifier of
        None \<Rightarrow> (False, c)
      | Some (own, related) \<Rightarrow>
          (let c1 = (case own of Some xs \<Rightarrow> storePull file xs c | None \<Rightarrow> c)
           in case store_items file related c1 of (m, c2) \<Rightarrow> (own \<noteq> None \<or> m, c2)))"

definition pullWorkspace :: "(string \<Rightarrow> diag_items option) \<Rightarrow> string \<Rightarrow> string \<Rightarrow> lsp_client \<Rightarrow> bool \<times> lsp_client" where
  "pullWorkspace answer file identifier c =
     (case answer identifier of None \<Rightarrow> (False, c) | Some items \<Rightarrow> store_items file items c)"

definition pull_all :: "(string \<Rightarrow> lsp_client \<Rightarrow> bool \<times> lsp_client) \<Rightarrow> string list \<Rightarrow> bool \<times> lsp_client \<Rightarrow> bool \<times> lsp_client" where
  "pull_all pull ids r = fold (\<lambda>i (m, c). case pull i c of (m', c') \<Rightarrow> (m \<or> m', c')) ids r"

definition requestDocumentDiagnostics ::
  "(string \<Rightarrow> (diagnostic list option \<times> diag_items) option) \<Rightarrow> string \<Rightarrow> lsp_client \<Rightarrow> bool \<times> lsp_client"
where
  "requestDocumentDiagnostics answer file c =
     (case documentPullState c of
        (ids, supported) \<Rightarrow> if \<not> supported then (False, c) else pull_all (pullDocument answer file) ([] # ids) (False, c))"

definition requestFullDiagnostics ::
  "(string \<Rightarrow> (diagnostic list option \<times> diag_items) option) \<Rightarrow> (string \<Rightarrow> diag_items option) \<Rightarrow> string \<Rightarrow> lsp_client \<Rightarrow> bool \<times> lsp_client"
where
  "requestFullDiagnostics answer wanswer file c =
     (case (documentPullState c, workspacePullState c) of
        ((ids, by_doc), (wids, by_space)) \<Rightarrow>
          if \<not> by_doc \<and> \<not> by_space then (False, c)
          else pull_all (pullWorkspace wanswer file) ((if by_space then [[]] else []) @ wids)
                 (pull_all (pullDocument answer file) ((if by_doc then [[]] else []) @ ids) (False, c)))"

fun configuration_walk :: "json \<Rightarrow> string list \<Rightarrow> json" where
  "configuration_walk cur [] = cur"
| "configuration_walk cur (k # ks) =
     (case cur of JObj m \<Rightarrow> (case gm_get m k of Some next \<Rightarrow> configuration_walk next ks | None \<Rightarrow> JNull) | _ \<Rightarrow> JNull)"

definition configurationValue :: "json \<Rightarrow> string \<Rightarrow> json" where
  "configurationValue settings section = (if section = [] then settings else configuration_walk settings (split_on (CHR ''.'') section))"

lemma dedupe_from_keys:
  "distinct (map diag_key (dedupe_from seen ds)) \<and> set (map diag_key (dedupe_from seen ds)) = set (map diag_key ds) - set seen \<and>
   set (dedupe_from seen ds) \<subseteq> set ds"
  by (induction ds arbitrary: seen) (auto simp: image_iff)

text \<open>A file's diagnostics are the pushed and the pulled ones, each once.\<close>

lemma diagnostics_merged:
  assumes "client_Diagnostics c file = Some ds"
  shows "distinct (map diag_key ds) \<and>
    set (map diag_key ds) = diag_key ` (set (made_list (gm_get (cl_push c) file)) \<union> set (made_list (gm_get (cl_pull c) file)))"
proof -
  have "ds = dedupeDiagnostics (made_list (gm_get (cl_push c) file) @ made_list (gm_get (cl_pull c) file))"
    using assms by (auto simp: client_Diagnostics_def split: option.splits)
  then show ?thesis
    using dedupe_from_keys [of "[]" "made_list (gm_get (cl_push c) file) @ made_list (gm_get (cl_pull c) file)"]
    by (simp add: dedupeDiagnostics_def image_Un)
qed

end
