(* ===== verification/Spec2Isabelle.thy ===== *)
theory Spec2Isabelle
  imports Ids EventBus EventStream Permission Questions Messages Serialize Requests OpenAIStream
    AnthropicStream Catalog Processor RunState MessageStore Sessions GoLib FileTools Registry Workspace
    Compaction Engine Title PtyText Pty ScrollRegion Fuzzy TuiStore Panels Prompts
    Config Auth Daemon Push Conformance PluginBridge Agents Credentials OAuth Access McpManager Lsp
begin

text \<open>
  opencode42 is a coding agent in Go: a daemon that runs language-model sessions with tools for HTTP
  clients, and a terminal client.  This development models the logic of both and proves what makes
  it correct.  Each theory follows one part of the source; its definitions keep the source's names and
  the order of its statements, early returns and error branches.

  \<^bold>\<open>How the program works.\<close>  A prompt arrives at the daemon and is stored as a user message
  (\<open>MessageStore\<close>).  \<open>RunState\<close> lets one run per session work; the run is the loop of \<open>Engine\<close>: it reads
  the history, asks \<open>Compaction\<close> whether to summarise or prune, turns the stored messages into a
  provider request (\<open>Serialize\<close>, \<open>Requests\<close>), and hands the provider's event stream (\<open>OpenAIStream\<close>,
  \<open>AnthropicStream\<close> over the channel of \<open>Sink\<close>) to the \<open>Processor\<close>, which stores parts, executes tool
  calls through \<open>Registry\<close> and settles the message.  A tool call asks \<open>Permission\<close> first and may ask the
  user a question (\<open>Questions\<close>); both block until a client replies.  Every change is published on the
  \<open>EventBus\<close>, written to the clients as an event stream (\<open>EventStream\<close>) and reduced by the terminal
  client into its store (\<open>TuiStore\<close>), whose pending prompts the panels answer (\<open>Panels\<close>, \<open>Prompts\<close>).

  \<^bold>\<open>Theories and sources.\<close>
  \<^item> \<open>Prelude\<close>, \<open>GoLib\<close>, \<open>Utf8\<close>: the lemma collections, Go's maps as association lists (\<open>gm_get\<close>,
    \<open>gm_set\<close>, \<open>gm_del\<close>), the functions of \<^verbatim>\<open>strings\<close>, \<^verbatim>\<open>path\<close>, \<^verbatim>\<open>strconv\<close> and \<^verbatim>\<open>unicode/utf8\<close> that the
    sources call, 64-bit integers, and the decoding of a tool's input.
  \<^item> \<open>Ids\<close> (\<^verbatim>\<open>internal/id\<close>): ascending and descending identifiers at their 48 bits.
  \<^item> \<open>EventBus\<close> (\<^verbatim>\<open>internal/bus\<close>), \<open>EventStream\<close> (\<^verbatim>\<open>internal/server/sse.go\<close>, \<^verbatim>\<open>sdk/go/sse.go\<close>): the fan-out
    with bounded buffers, the handlers that write it as server-sent events, the client that reads it.
  \<^item> \<open>Deferred\<close>, \<open>Permission\<close>, \<open>Questions\<close> (\<^verbatim>\<open>internal/engine/permission\<close>, \<^verbatim>\<open>internal/engine/question\<close>): the
    two managers that block an asker until a reply, with the wildcard rules.
  \<^item> \<open>Llm\<close>, \<open>Messages\<close>, \<open>Serialize\<close>, \<open>Requests\<close> (\<^verbatim>\<open>internal/engine/llm\<close>, \<^verbatim>\<open>message\<close>, \<^verbatim>\<open>provider/*/request.go\<close>):
    messages, parts, and the request bodies of both providers.
  \<^item> \<open>Sink\<close>, \<open>OpenAIStream\<close>, \<open>AnthropicStream\<close> (\<^verbatim>\<open>provider/*/stream.go\<close>): from lines of the response to events.
  \<^item> \<open>Catalog\<close>, \<open>Compaction\<close>, \<open>Processor\<close>, \<open>RunState\<close>, \<open>Registry\<close>, \<open>Engine\<close>, \<open>Title\<close> (\<^verbatim>\<open>internal/engine\<close>): costs and
    limits, compaction decisions, one turn, the run lock, the tools offered and executed, the loop.
  \<^item> \<open>MessageStore\<close>, \<open>Sessions\<close> (\<^verbatim>\<open>internal/engine/message/store.go\<close>, \<^verbatim>\<open>internal/session\<close>,
    \<^verbatim>\<open>internal/worktree\<close>): the tables and every statement on them, and the events published.
  \<^item> \<open>FileTools\<close>, \<open>Workspace\<close> (\<^verbatim>\<open>internal/engine/tool\<close>): the file tools over a map of files, and the
    composition of executor, permission manager and files.
  \<^item> \<open>PtyText\<close>, \<open>Pty\<close> (\<^verbatim>\<open>internal/pty\<close>, \<^verbatim>\<open>internal/server/pty_ws.go\<close>): terminal sessions, their ring buffer,
    their subscribers and the connect tickets.
  \<^item> \<open>ScrollRegion\<close> (\<^verbatim>\<open>scrollregion\<close>), \<open>Fuzzy\<close> (\<^verbatim>\<open>internal/server/fuzzy.go\<close>, \<^verbatim>\<open>find_handlers.go\<close>): the viewport and
    the file finder.
  \<^item> \<open>TuiStore\<close>, \<open>Panels\<close>, \<open>Prompts\<close> (\<^verbatim>\<open>internal/tui\<close>): the client's store, its question and permission panels
    and the messages of its model that concern them.
  \<^item> \<open>Config\<close>, \<open>Auth\<close>, \<open>Daemon\<close> (\<^verbatim>\<open>internal/config\<close>, \<^verbatim>\<open>internal/auth\<close>, \<^verbatim>\<open>internal/mdns\<close>, \<^verbatim>\<open>cmd/opcoded/main.go\<close>,
    \<^verbatim>\<open>internal/instance\<close>, \<^verbatim>\<open>internal/server/*_handlers.go\<close>): the layers of the configuration and how they merge, the
    check of credentials and the addresses listened on, the cache of instances and the handlers of terminals,
    permissions and questions behind the authentication.
  \<^item> \<open>Push\<close> (\<^verbatim>\<open>internal/push\<close>): the devices, the relay that decides when a notification is sent, its rate limit.
  \<^item> \<open>Conformance\<close> (\<^verbatim>\<open>conformance/cmd/diff\<close>, \<^verbatim>\<open>conformance/result\<close>, \<^verbatim>\<open>conformance/normalize\<close>): the comparison of two
    recorded runs, and the normalization that hides what may differ between them.
  \<^item> \<open>PluginBridge\<close> (\<^verbatim>\<open>internal/pluginbridge\<close>): frames, calls and hooks of the plugin host's connection.
  \<^item> \<open>Agents\<close> (\<^verbatim>\<open>internal/resource\<close>, \<^verbatim>\<open>internal/server/prompt_handlers.go\<close>, \<^verbatim>\<open>subagent.go\<close>): agents, commands, skills and
    instructions from files and configuration, and the prompt handler that turns an agent into the rules a run has.
  \<^item> \<open>Credentials\<close> (\<^verbatim>\<open>internal/credstore\<close>, \<^verbatim>\<open>internal/mcp/authstore.go\<close>, \<^verbatim>\<open>internal/resource/provider.go\<close>): the two files of
    secrets, what is written to them and the list of providers.
  \<^item> \<open>OAuth\<close>, \<open>Access\<close> (\<^verbatim>\<open>internal/oauth\<close>): sign-ins with the server that receives their redirects, and the access
    tokens handed out and renewed.
  \<^item> \<open>McpManager\<close> (\<^verbatim>\<open>internal/mcp\<close>): the connections to MCP servers, their statuses, and the names of their tools.
  \<^item> \<open>Lsp\<close> (\<^verbatim>\<open>internal/lsp\<close>): the roots and the processes of language servers, their documents and diagnostics.

  \<^bold>\<open>Interfaces.\<close>  \<open>broadcast\<close> is what a fan-out promises (interpreted on the instance bus, the global bus
  and their composition); \<open>deferred\<close> is the law of a manager that answers each request once
  (interpreted on both managers, on the calls of the plugin bridge and on the sign-ins); \<open>secret_store\<close> is a file of
  secrets read and rewritten as a whole (interpreted on the credentials and on the tokens); \<open>stream_source\<close> is a provider as its consumer sees it (interpreted
  on both providers); \<open>gatekeeper\<close> is what the executor relies on of its asker (interpreted on the
  permission manager with any user behind it).

  \<^bold>\<open>Concurrency and failure.\<close>  Goroutines that share a lock are steps, one per critical section, in any
  order: \<open>perm_reach\<close>-like reachability for the managers, the run lock and the terminal sessions, lists
  of operations for the stores.  Channels are the queues of undelivered values.  Errors are values of an
  option or a sum.  Clock readings, random bytes, the answers of users and models, the operating
  system and the text of JSON are arguments of the definitions; where a theorem needs something of them
  it is a hypothesis.

  \<^bold>\<open>Bounds.\<close>  The agent loop \<open>loop_from\<close> recurses on the number of steps the code itself allows
  (\<open>max_steps\<close>, the configured number or 100), so no run is cut short by the model.  The other loops are
  functions with a termination proof or recursions over their data; no fuel is used.

  \<^bold>\<open>What is shown.\<close>  Safety of the managers and of the run lock in every interleaving; the whole event
  sequence of a provider stream and what cancellation leaves of it; that every request answers its tool
  calls; that a turn and a run end with nothing open; the tables' references and what a deletion leaves;
  refinement of the ring buffer to the whole output and of the client's slices to maps; round trips of
  patches, UTF-8 reads and event streams; what the panels can send; the ranking of the finder and
  the bounds of the viewport; which layer of the configuration wins, who gets past the authentication,
  what reaches a terminal without credentials; the rate of push notifications; that the comparison of
  two runs is clean exactly when they agree, and what normalization makes equal; that every call to the
  plugin host is answered once; which file decides an agent's permissions and that they guard every
  write of its runs; what the files of secrets keep, which server gets a token, that a refresh token is
  sent once; that no connection to an MCP server is lost and the tool listed is the tool called; that a
  language server runs once for a root and has the documents the client recorded.  Where the code does
  something other than its comments say, a theorem states what it does.

  \<^bold>\<open>Not modelled.\<close>  The generated API and SDK; terminal rendering, markdown and diffs (styling by
  third-party libraries); the handshake and queries of language servers, MCP transports and the plugin host's process (external
  processes); token endpoints and the push services' protocols (network, cryptography);
  opening databases, files and connections; the text of JSON beyond what a definition says of it;
  flags and process start-up.  Third-party code (globbing, markdown, SQL, JSON with comments) is an
  argument where the logic depends on it.
\<close>

end
